(* ===== verification/Net_Prelude.thy ===== *)
theory Net_Prelude
  imports Main "HOL-Library.Word" "HOL-Library.Monad_Syntax"
begin

text \<open>
  Shared vocabulary of the development: the machine integer types of the C code (an LP64
  target), the two byte orders its preprocessor distinguishes, unsigned \<open>size_t\<close>
  arithmetic, arrays of bytes whose out-of-range accesses are explicit, and the generic list
  and word lemmas the component theories use.

  An access that C leaves undefined (a read or a write outside an array, a null or dangling
  pointer, an indeterminate value) is the value \<open>None\<close> of an \<open>option\<close>; everything the code
  reports itself (\<open>UnpackInvalid\<close>, a \<open>NULL\<close> result, a zero return) is an ordinary value.
\<close>

unbundle bit_operations_syntax

type_synonym u8 = "8 word"
type_synonym u16 = "16 word"
type_synonym u32 = "32 word"
type_synonym u64 = "64 word"
type_synonym size_t = nat
type_synonym ptr = nat

abbreviation (input) NULL :: ptr where
  "NULL \<equiv> 0"

text \<open>
  The byte order of the target (\<^verbatim>\<open>__LITTLE_ENDIAN__\<close> or not): both branches of
  every \<^verbatim>\<open>#ifdef\<close> are modelled.
\<close>

datatype endian = LittleEndian | BigEndian

text \<open>Unsigned 64-bit \<open>size_t\<close> arithmetic, with the wrap-around written out.\<close>

definition size_add :: "size_t \<Rightarrow> size_t \<Rightarrow> size_t" where
  "size_add a b = (a + b) mod 2 ^ 64"

definition size_sub :: "size_t \<Rightarrow> size_t \<Rightarrow> size_t" where
  "size_sub a b = (a + (2 ^ 64 - b)) mod 2 ^ 64"

text \<open>Single accesses to a C array, and \<open>memcpy\<close> between two of them.\<close>

definition mem_read :: "'a list \<Rightarrow> nat \<Rightarrow> 'a option" where
  "mem_read m i = (if i < length m then Some (m ! i) else None)"

definition mem_write :: "'a list \<Rightarrow> nat \<Rightarrow> 'a \<Rightarrow> 'a list option" where
  "mem_write m i v = (if i < length m then Some (m[i := v]) else None)"

definition overwrite :: "'a list \<Rightarrow> nat \<Rightarrow> 'a list \<Rightarrow> 'a list" where
  "overwrite xs i ys = take i xs @ ys @ drop (i + length ys) xs"

definition mem_copy :: "'a list \<Rightarrow> nat \<Rightarrow> 'a list \<Rightarrow> nat \<Rightarrow> nat \<Rightarrow> 'a list option" where
  "mem_copy dst i src j n =
     (if i + n \<le> length dst \<and> j + n \<le> length src
      then Some (overwrite dst i (take n (drop j src))) else None)"

text \<open>C strings: the bytes before the first NUL; without one, \<open>strlen\<close> runs off the array.\<close>

definition c_str :: "u8 list \<Rightarrow> u8 list" where
  "c_str xs = takeWhile (\<lambda>b. b \<noteq> 0) xs"

definition c_strlen :: "u8 list \<Rightarrow> nat option" where
  "c_strlen xs = (if 0 \<in> set xs then Some (length (c_str xs)) else None)"

text \<open>
  Collections: \<open>bs_simps\<close> for the algebra of stream positions, \<open>enc_simps\<close> for the
  byte encoders, \<open>write_simps\<close> for what a writer does where its bytes fit and
  \<open>read_simps\<close> for what a reader returns where the bytes of a value lie ahead.
\<close>

named_theorems bs_simps
named_theorems enc_simps
named_theorems write_simps
named_theorems read_simps

subsection \<open>\<open>size_t\<close> arithmetic\<close>

lemma size_add_no_wrap [simp]: "a + b < 2 ^ 64 \<Longrightarrow> size_add a b = a + b"
  by (simp add: size_add_def)

lemma size_sub_no_wrap [simp]:
  assumes "b \<le> a" "a < 2 ^ 64"
  shows "size_sub a b = a - b"
proof -
  have "a + (2 ^ 64 - b) = (a - b) + 2 ^ 64"
    using assms by linarith
  then show ?thesis
    using assms by (simp only: size_sub_def mod_add_self2) simp
qed

lemma size_sub_wrap:
  assumes "a < b" "b < 2 ^ 64"
  shows "size_sub a b = 2 ^ 64 - (b - a)"
proof -
  have "a + (2 ^ 64 - b) = 2 ^ 64 - (b - a)"
    using assms by linarith
  moreover have "2 ^ 64 - (b - a) < (2 ^ 64 :: nat)"
    using assms by simp
  ultimately show ?thesis
    by (simp add: size_sub_def)
qed

subsection \<open>Arrays\<close>

lemma mem_read_Some [simp]: "i < length m \<Longrightarrow> mem_read m i = Some (m ! i)"
  by (simp add: mem_read_def)

lemma mem_write_Some [simp]: "i < length m \<Longrightarrow> mem_write m i v = Some (m[i := v])"
  by (simp add: mem_write_def)

lemma mem_read_eq_Some_iff: "mem_read m i = Some v \<longleftrightarrow> i < length m \<and> m ! i = v"
  by (auto simp: mem_read_def)

lemma mem_write_eq_Some_iff: "mem_write m i v = Some m' \<longleftrightarrow> i < length m \<and> m' = m[i := v]"
  by (auto simp: mem_write_def)

lemma length_overwrite [simp]:
  "i + length ys \<le> length xs \<Longrightarrow> length (overwrite xs i ys) = length xs"
  by (simp add: overwrite_def)

lemma overwrite_Nil [simp]: "overwrite xs i [] = xs"
  by (simp add: overwrite_def)

lemma overwrite_append:
  assumes "i + length ys + length zs \<le> length xs"
  shows "overwrite (overwrite xs i ys) (i + length ys) zs = overwrite xs i (ys @ zs)"
  using assms by (simp add: overwrite_def ac_simps)

lemma list_update_overwrite: "i < length xs \<Longrightarrow> xs[i := v] = overwrite xs i [v]"
  by (simp add: overwrite_def upd_conv_take_nth_drop)

lemma overwrite_update_end:
  assumes "i + length ys < length xs"
  shows "overwrite (xs[i + length ys := v]) i ys = overwrite xs i (ys @ [v])"
proof -
  have "drop (i + length ys) (xs[i + length ys := v]) = v # drop (i + length (ys @ [v])) xs"
    using assms by (simp add: drop_update_cancel Cons_nth_drop_Suc [symmetric])
  then show ?thesis
    by (simp add: overwrite_def)
qed

lemma take_drop_overwrite:
  "i + length ys \<le> length xs \<Longrightarrow> take (length ys) (drop i (overwrite xs i ys)) = ys"
  by (simp add: overwrite_def)

lemma take_overwrite: "i \<le> length xs \<Longrightarrow> take i (overwrite xs i ys) = take i xs"
  by (simp add: overwrite_def)

lemma drop_overwrite:
  "i + length ys \<le> length xs \<Longrightarrow>
    drop (i + length ys) (overwrite xs i ys) = drop (i + length ys) xs"
  by (simp add: overwrite_def)

lemma take_eq_append_iff:
  "take (length xs + length ys) zs = xs @ ys \<longleftrightarrow>
     take (length xs) zs = xs \<and> take (length ys) (drop (length xs) zs) = ys"
proof
  assume *: "take (length xs + length ys) zs = xs @ ys"
  have "take (length xs) zs = take (length xs) (take (length xs + length ys) zs)"
    by simp
  also have "\<dots> = xs"
    by (simp only: *) simp
  finally show "take (length xs) zs = xs \<and> take (length ys) (drop (length xs) zs) = ys"
    using * by (simp add: take_add)
qed (simp add: take_add)

lemma mem_copy_all:
  "length src = n \<Longrightarrow> i + n \<le> length dst \<Longrightarrow> mem_copy dst i src 0 n = Some (overwrite dst i src)"
  by (simp add: mem_copy_def)

lemma length_concat_map_le:
  "(\<And>x. x \<in> set xs \<Longrightarrow> length (f x) \<le> k) \<Longrightarrow> length (concat (map f xs)) \<le> k * length xs"
proof (induction xs)
  case (Cons x xs)
  then have "length (f x) \<le> k" "length (concat (map f xs)) \<le> k * length xs"
    by simp_all
  then show ?case by simp
qed simp

subsection \<open>C strings\<close>

lemma c_str_append_NUL: "0 \<notin> set xs \<Longrightarrow> c_str (xs @ 0 # ys) = xs"
  unfolding c_str_def by (induction xs) auto

lemma c_str_no_NUL: "0 \<notin> set (c_str xs)"
  unfolding c_str_def by (auto dest: set_takeWhileD)

lemma c_strlen_eq_Some: "c_strlen xs = Some n \<longleftrightarrow> 0 \<in> set xs \<and> n = length (c_str xs)"
  by (auto simp: c_strlen_def)

lemma take_length_c_str: "take (length (c_str xs)) xs = c_str xs"
  unfolding c_str_def by (metis takeWhile_eq_take length_takeWhile_le min_absorb2 length_take)

lemma length_c_str_le: "length (c_str xs) \<le> length xs"
  by (simp add: c_str_def length_takeWhile_le)

lemma length_c_str_less: "0 \<in> set xs \<Longrightarrow> length (c_str xs) < length xs"
  unfolding c_str_def by (induction xs) auto

subsection \<open>Words and their bytes\<close>

lemma word_join_bytes:
  fixes v :: "'a::len word"
  shows "push_bit n (take_bit m (drop_bit n v)) OR take_bit n v = take_bit (m + n) v"
  by (rule bit_word_eqI) (auto simp: bit_simps)

lemma word_join_byte:
  fixes v :: "'a::len word"
  shows "push_bit 8 (take_bit 8 (drop_bit 8 v)) OR take_bit 8 v = take_bit 16 v"
    and "push_bit 16 (take_bit 8 (drop_bit 16 v)) OR take_bit 16 v = take_bit 24 v"
    and "push_bit 24 (take_bit 8 (drop_bit 24 v)) OR take_bit 24 v = take_bit 32 v"
    and "push_bit 32 (take_bit 8 (drop_bit 32 v)) OR take_bit 32 v = take_bit 40 v"
    and "push_bit 40 (take_bit 8 (drop_bit 40 v)) OR take_bit 40 v = take_bit 48 v"
    and "push_bit 48 (take_bit 8 (drop_bit 48 v)) OR take_bit 48 v = take_bit 56 v"
    and "push_bit 56 (take_bit 8 (drop_bit 56 v)) OR take_bit 56 v = take_bit 64 v"
  using word_join_bytes [of _ 8 v] by simp_all

lemma ucast_and_255: "ucast (v AND 0xFF :: 'a::len word) = (ucast v :: u8)"
proof -
  have "ucast (v AND mask 8) = (ucast v :: u8)"
    by (rule bit_word_eqI) (auto simp: bit_simps dest: bit_imp_le_length)
  then show ?thesis
    by (simp add: mask_eq_exp_minus_1)
qed

lemma ucast_ucast_u8: "ucast (ucast v :: u8) = take_bit 8 (v :: 'a::len word)"
  by (rule bit_word_eqI) (auto simp: bit_simps)

lemma take_bit_small: "unat v < 2 ^ n \<Longrightarrow> take_bit n v = (v :: 'a::len word)"
proof -
  assume "unat v < 2 ^ n"
  then have "unat (take_bit n v) = unat v"
    by (simp add: unsigned_take_bit_eq take_bit_nat_eq_self)
  then show ?thesis
    by (rule unsigned_word_eqI)
qed

lemma ucast_u8_small: "unat v < 256 \<Longrightarrow> ucast (ucast v :: u8) = (v :: 'a::len word)"
  using take_bit_small [of v 8] by (simp add: ucast_ucast_u8)

lemma unat_ucast_u8: "unat (ucast (v :: 'a::len word) :: u8) = unat v mod 256"
  by (simp add: unsigned_ucast_eq take_bit_eq_mod)

lemma unat_drop_bit_eq: "unat (drop_bit n (v :: 'a::len word)) = unat v div 2 ^ n"
proof -
  have "unat (drop_bit n v) = drop_bit n (take_bit LENGTH('a) (unat v))"
    by (simp add: unsigned_drop_bit_eq)
  then show ?thesis
    by (simp add: drop_bit_eq_div take_bit_nat_eq_self)
qed

lemma word_join_byte_left:
  fixes v :: "'a::len word"
  shows "(x OR push_bit 8 (take_bit 8 (drop_bit 8 v))) OR take_bit 8 v = x OR take_bit 16 v"
    and "(x OR push_bit 16 (take_bit 8 (drop_bit 16 v))) OR take_bit 16 v = x OR take_bit 24 v"
    and "(x OR push_bit 24 (take_bit 8 (drop_bit 24 v))) OR take_bit 24 v = x OR take_bit 32 v"
    and "(x OR push_bit 32 (take_bit 8 (drop_bit 32 v))) OR take_bit 32 v = x OR take_bit 40 v"
    and "(x OR push_bit 40 (take_bit 8 (drop_bit 40 v))) OR take_bit 40 v = x OR take_bit 48 v"
    and "(x OR push_bit 48 (take_bit 8 (drop_bit 48 v))) OR take_bit 48 v = x OR take_bit 56 v"
  by (simp_all add: or.assoc word_join_byte)

lemma ucast_u8_u32 [simp]: "ucast (ucast (v :: u8) :: u32) = v"
  by (rule bit_word_eqI) (auto simp: bit_simps dest: bit_imp_le_length)

lemma ucast_u8_eq_iff: "ucast (b :: u8) = (c :: u32) \<longleftrightarrow> unat c < 256 \<and> b = ucast c"
proof
  assume "ucast b = c"
  moreover have "unat (ucast b :: u32) < 256"
    using unsigned_less [of b, where ?'a = nat] le_less_trans [OF take_bit_nat_less_eq_self]
    by (simp add: unsigned_ucast_eq)
  ultimately show "unat c < 256 \<and> b = ucast c"
    by auto
qed (simp add: ucast_u8_small)

lemma ucast_u16_u32 [simp]: "ucast (ucast (v :: u16) :: u32) = v"
  by (rule bit_word_eqI) (auto simp: bit_simps dest: bit_imp_le_length)

lemma unat_dec: "0 < unat (w :: 'a::len word) \<Longrightarrow> unat (w - 1) = unat w - 1"
  using unat_sub [of 1 w] by (simp add: word_le_nat_alt Suc_le_eq)

lemma sint_small: "unat (w :: u32) < 2 ^ 31 \<Longrightarrow> sint w = int (unat w)"
proof -
  assume "unat w < 2 ^ 31"
  then have "int (unat w) < 2 ^ 31"
    by (simp only: of_nat_less_numeral_power_cancel_iff)
  moreover have "- (2 ^ 31) \<le> uint w"
    by (rule order_trans [of _ 0]) simp_all
  ultimately have "signed_take_bit 31 (uint w) = uint w"
    by (intro signed_take_bit_int_eq_self) simp_all
  then show ?thesis
    by (simp add: sint_uint)
qed

lemma ucast_of_nat_u8: "ucast (of_nat n :: u32) = (of_nat n :: u8)"
  by transfer (simp add: take_bit_take_bit)

lemmas byte_join = ucast_and_255 ucast_ucast_u8 take_bit_word_eq_self word_join_byte_left
  word_join_byte word_join_byte [THEN trans [OF or.commute]]

end
