(* ===== verification/Bitstream.thy ===== *)
theory Bitstream
  imports Net_Prelude
begin

text \<open>
  The byte stream of \<^verbatim>\<open>bitstream.c\<close>: a block of bytes, a byte offset and a bound.
  Writers check the bound and do nothing when a field does not fit; the fixed-width readers
  check nothing, so a read past the block is \<open>None\<close> here. The functions whose body depends
  on the byte order of the target take it as their first argument. The fixed-point float
  fields (\<^verbatim>\<open>bitstream_write_float32\<close>, \<^verbatim>\<open>bitstream_read_float32\<close>) are not modelled here.

  After the definitions: the algebra of stream positions, the effect of every writer and
  reader, the locales \<open>field_codec\<close> and \<open>atomic_codec\<close> (a writer and a reader that agree on
  an encoding), and their interpretations for the integer fields.
\<close>

section \<open>Definitions\<close>

record bitstream_t =
  bs_data :: "u8 list"
  bs_offset :: size_t
  bs_bound :: size_t

definition mBitstreamBytesDoFit :: "bitstream_t \<Rightarrow> size_t \<Rightarrow> bool" where
  "mBitstreamBytesDoFit s n \<longleftrightarrow> n \<le> size_sub (bs_bound s) (bs_offset s)"

definition mBitstreamHasEnoughBytes :: "bitstream_t \<Rightarrow> size_t \<Rightarrow> bool" where
  "mBitstreamHasEnoughBytes s n \<longleftrightarrow> n \<le> size_sub (bs_bound s) (bs_offset s)"

definition bitstream_create :: "u8 list \<Rightarrow> size_t \<Rightarrow> bitstream_t" where
  "bitstream_create d bnd = \<lparr>bs_data = d, bs_offset = 0, bs_bound = bnd\<rparr>"

definition bitstream_reset :: "bitstream_t \<Rightarrow> bitstream_t" where
  "bitstream_reset s = s\<lparr>bs_offset := 0\<rparr>"

definition bitstream_skip_bytes :: "bitstream_t \<Rightarrow> size_t \<Rightarrow> bitstream_t" where
  "bitstream_skip_bytes s n =
     (if \<not> mBitstreamHasEnoughBytes s n then s
      else let s = s\<lparr>bs_offset := size_add (bs_offset s) n\<rparr>
           in if bs_offset s > bs_bound s then s\<lparr>bs_offset := bs_bound s\<rparr> else s)"

text \<open>A snapshot; its stream pointer is only ever compared with \<open>NULL\<close>.\<close>

record bitstream_snapshot_t =
  rollback_offset :: size_t
  rollover_offset :: size_t
  snapshot_attached :: bool

definition bitstream_snapshot :: "bitstream_t \<Rightarrow> bitstream_snapshot_t" where
  "bitstream_snapshot s =
     \<lparr>rollback_offset = bs_offset s, rollover_offset = bs_offset s, snapshot_attached = True\<rparr>"

definition bitstream_rollback ::
    "bitstream_t \<Rightarrow> bitstream_snapshot_t \<Rightarrow> bitstream_t \<times> bitstream_snapshot_t" where
  "bitstream_rollback s sn =
     (if snapshot_attached sn
      then (s\<lparr>bs_offset := rollback_offset sn\<rparr>, sn\<lparr>rollover_offset := bs_offset s\<rparr>)
      else (s, sn))"

definition bitstream_rollover ::
    "bitstream_t \<Rightarrow> bitstream_snapshot_t \<Rightarrow> bitstream_t \<times> bitstream_snapshot_t" where
  "bitstream_rollover s sn =
     (if snapshot_attached sn
      then (s\<lparr>bs_offset := rollover_offset sn\<rparr>, sn\<lparr>rollback_offset := bs_offset s\<rparr>)
      else (s, sn))"

subsection \<open>Byte arrays\<close>

text \<open>The byte-swapping copy loops of the little-endian branches.\<close>

function write_bytes_loop ::
    "u8 list \<Rightarrow> size_t \<Rightarrow> u8 list \<Rightarrow> size_t \<Rightarrow> nat \<Rightarrow> u8 list option" where
  "write_bytes_loop d off src n b =
     (if b < n
      then do {
        v \<leftarrow> mem_read src b;
        d \<leftarrow> mem_write d ((off + n - b - 1) mod 2 ^ 64) v;
        write_bytes_loop d off src n (b + 1)
      }
      else Some d)"
  by pat_completeness auto
termination
  by (relation "measure (\<lambda>(d, off, src, n, b). n - b)") auto

function read_bytes_loop ::
    "u8 list \<Rightarrow> size_t \<Rightarrow> u8 list \<Rightarrow> size_t \<Rightarrow> nat \<Rightarrow> u8 list option" where
  "read_bytes_loop d off dest n b =
     (if b < n
      then do {
        v \<leftarrow> mem_read d ((off + n - b - 1) mod 2 ^ 64);
        dest \<leftarrow> mem_write dest b v;
        read_bytes_loop d off dest n (b + 1)
      }
      else Some dest)"
  by pat_completeness auto
termination
  by (relation "measure (\<lambda>(d, off, dest, n, b). n - b)") auto

declare write_bytes_loop.simps [simp del] read_bytes_loop.simps [simp del]

text \<open>Both return the C result (the length or 0); the reader also its destination array.\<close>

definition bitstream_write_bytes ::
    "endian \<Rightarrow> bitstream_t \<Rightarrow> u8 list \<Rightarrow> size_t \<Rightarrow> (size_t \<times> bitstream_t) option" where
  "bitstream_write_bytes e s src n =
     (if \<not> mBitstreamBytesDoFit s n then Some (0, s)
      else do {
        d \<leftarrow> (case e of
               LittleEndian \<Rightarrow> write_bytes_loop (bs_data s) (bs_offset s) src n 0
             | BigEndian \<Rightarrow> mem_copy (bs_data s) (bs_offset s) src 0 n);
        Some (n, s\<lparr>bs_data := d, bs_offset := size_add (bs_offset s) n\<rparr>)
      })"

definition bitstream_read_bytes ::
    "endian \<Rightarrow> bitstream_t \<Rightarrow> u8 list \<Rightarrow> size_t \<Rightarrow> (size_t \<times> u8 list \<times> bitstream_t) option" where
  "bitstream_read_bytes e s dest n =
     (if \<not> mBitstreamHasEnoughBytes s n then Some (0, dest, s)
      else do {
        dest \<leftarrow> (case e of
               LittleEndian \<Rightarrow> read_bytes_loop (bs_data s) (bs_offset s) dest n 0
             | BigEndian \<Rightarrow> mem_copy dest 0 (bs_data s) (bs_offset s) n);
        Some (n, dest, s\<lparr>bs_offset := size_add (bs_offset s) n\<rparr>)
      })"

subsection \<open>Integers\<close>

text \<open>\<^verbatim>\<open>stream->data[stream->offset++]\<close> as a target and as a value.\<close>

definition put_byte :: "bitstream_t \<Rightarrow> u8 \<Rightarrow> bitstream_t option" where
  "put_byte s v = do {
     d \<leftarrow> mem_write (bs_data s) (bs_offset s) v;
     Some (s\<lparr>bs_data := d, bs_offset := size_add (bs_offset s) 1\<rparr>)
   }"

definition get_byte :: "bitstream_t \<Rightarrow> (u8 \<times> bitstream_t) option" where
  "get_byte s = do {
     v \<leftarrow> mem_read (bs_data s) (bs_offset s);
     Some (v, s\<lparr>bs_offset := size_add (bs_offset s) 1\<rparr>)
   }"

definition bitstream_write_uint8 :: "bitstream_t \<Rightarrow> u32 \<Rightarrow> bitstream_t option" where
  "bitstream_write_uint8 s src =
     (if \<not> mBitstreamBytesDoFit s 1 then Some s else put_byte s (ucast (src AND 0xFF)))"

definition bitstream_read_uint8 :: "bitstream_t \<Rightarrow> (u32 \<times> bitstream_t) option" where
  "bitstream_read_uint8 s = do { (b, s) \<leftarrow> get_byte s; Some (ucast b, s) }"

definition bitstream_write_uint16_endian :: "bitstream_t \<Rightarrow> u32 \<Rightarrow> bitstream_t option" where
  "bitstream_write_uint16_endian s src =
     (if \<not> mBitstreamBytesDoFit s 2 then Some s
      else do {
        s \<leftarrow> put_byte s (ucast (src AND 0xFF));
        put_byte s (ucast (drop_bit 8 src AND 0xFF))
      })"

definition bitstream_read_uint16_endian :: "bitstream_t \<Rightarrow> (u32 \<times> bitstream_t) option" where
  "bitstream_read_uint16_endian s = do {
     (b0, s) \<leftarrow> get_byte s;
     (b1, s) \<leftarrow> get_byte s;
     Some (ucast b0 OR push_bit 8 (ucast b1), s)
   }"

definition bitstream_write_uint16 :: "endian \<Rightarrow> bitstream_t \<Rightarrow> u32 \<Rightarrow> bitstream_t option" where
  "bitstream_write_uint16 e s src =
     (if \<not> mBitstreamBytesDoFit s 2 then Some s
      else case e of
        LittleEndian \<Rightarrow> do {
          s \<leftarrow> put_byte s (ucast (drop_bit 8 src AND 0xFF));
          put_byte s (ucast (src AND 0xFF))
        }
      | BigEndian \<Rightarrow> do {
          s \<leftarrow> put_byte s (ucast (src AND 0xFF));
          put_byte s (ucast (drop_bit 8 src AND 0xFF))
        })"

definition bitstream_read_uint16 :: "endian \<Rightarrow> bitstream_t \<Rightarrow> (u32 \<times> bitstream_t) option" where
  "bitstream_read_uint16 e s = do {
     (b0, s) \<leftarrow> get_byte s;
     (b1, s) \<leftarrow> get_byte s;
     Some (case e of
             LittleEndian \<Rightarrow> push_bit 8 (ucast b0) OR ucast b1
           | BigEndian \<Rightarrow> ucast b0 OR push_bit 8 (ucast b1), s)
   }"

definition bitstream_write_uint32_endian :: "bitstream_t \<Rightarrow> u32 \<Rightarrow> bitstream_t option" where
  "bitstream_write_uint32_endian s src =
     (if \<not> mBitstreamBytesDoFit s 4 then Some s
      else do {
        s \<leftarrow> put_byte s (ucast (src AND 0xFF));
        s \<leftarrow> put_byte s (ucast (drop_bit 8 src AND 0xFF));
        s \<leftarrow> put_byte s (ucast (drop_bit 16 src AND 0xFF));
        put_byte s (ucast (drop_bit 24 src))
      })"

definition bitstream_read_uint32_endian :: "bitstream_t \<Rightarrow> (u32 \<times> bitstream_t) option" where
  "bitstream_read_uint32_endian s = do {
     (b0, s) \<leftarrow> get_byte s;
     (b1, s) \<leftarrow> get_byte s;
     (b2, s) \<leftarrow> get_byte s;
     (b3, s) \<leftarrow> get_byte s;
     Some (((ucast b0 OR push_bit 8 (ucast b1)) OR push_bit 16 (ucast b2))
             OR push_bit 24 (ucast b3), s)
   }"

definition bitstream_write_uint32 :: "endian \<Rightarrow> bitstream_t \<Rightarrow> u32 \<Rightarrow> bitstream_t option" where
  "bitstream_write_uint32 e s src =
     (if \<not> mBitstreamBytesDoFit s 4 then Some s
      else case e of
        LittleEndian \<Rightarrow> do {
          s \<leftarrow> put_byte s (ucast (drop_bit 24 src));
          s \<leftarrow> put_byte s (ucast (drop_bit 16 src AND 0xFF));
          s \<leftarrow> put_byte s (ucast (drop_bit 8 src AND 0xFF));
          put_byte s (ucast (src AND 0xFF))
        }
      | BigEndian \<Rightarrow> do {
          s \<leftarrow> put_byte s (ucast (src AND 0xFF));
          s \<leftarrow> put_byte s (ucast (drop_bit 8 src AND 0xFF));
          s \<leftarrow> put_byte s (ucast (drop_bit 16 src AND 0xFF));
          put_byte s (ucast (drop_bit 24 src))
        })"

definition bitstream_read_uint32 :: "endian \<Rightarrow> bitstream_t \<Rightarrow> (u32 \<times> bitstream_t) option" where
  "bitstream_read_uint32 e s = do {
     (b0, s) \<leftarrow> get_byte s;
     (b1, s) \<leftarrow> get_byte s;
     (b2, s) \<leftarrow> get_byte s;
     (b3, s) \<leftarrow> get_byte s;
     Some (case e of
             LittleEndian \<Rightarrow>
               ((push_bit 24 (ucast b0) OR push_bit 16 (ucast b1)) OR push_bit 8 (ucast b2))
                 OR ucast b3
           | BigEndian \<Rightarrow>
               ((ucast b0 OR push_bit 8 (ucast b1)) OR push_bit 16 (ucast b2))
                 OR push_bit 24 (ucast b3), s)
   }"

definition bitstream_write_uint64 :: "endian \<Rightarrow> bitstream_t \<Rightarrow> u64 \<Rightarrow> bitstream_t option" where
  "bitstream_write_uint64 e s src =
     (if \<not> mBitstreamBytesDoFit s 8 then Some s
      else case e of
        LittleEndian \<Rightarrow> do {
          s \<leftarrow> put_byte s (ucast (drop_bit 56 src));
          s \<leftarrow> put_byte s (ucast (drop_bit 48 src));
          s \<leftarrow> put_byte s (ucast (drop_bit 40 src));
          s \<leftarrow> put_byte s (ucast (drop_bit 32 src));
          s \<leftarrow> put_byte s (ucast (drop_bit 24 src));
          s \<leftarrow> put_byte s (ucast (drop_bit 16 src AND 0xFF));
          s \<leftarrow> put_byte s (ucast (drop_bit 8 src AND 0xFF));
          put_byte s (ucast (src AND 0xFF))
        }
      | BigEndian \<Rightarrow> do {
          s \<leftarrow> put_byte s (ucast (src AND 0xFF));
          s \<leftarrow> put_byte s (ucast (drop_bit 8 src AND 0xFF));
          s \<leftarrow> put_byte s (ucast (drop_bit 16 src AND 0xFF));
          s \<leftarrow> put_byte s (ucast (drop_bit 24 src));
          s \<leftarrow> put_byte s (ucast (drop_bit 32 src));
          s \<leftarrow> put_byte s (ucast (drop_bit 40 src));
          s \<leftarrow> put_byte s (ucast (drop_bit 48 src));
          put_byte s (ucast (drop_bit 56 src))
        })"

definition bitstream_read_uint64 :: "endian \<Rightarrow> bitstream_t \<Rightarrow> (u64 \<times> bitstream_t) option" where
  "bitstream_read_uint64 e s = do {
     (b0, s) \<leftarrow> get_byte s;
     (b1, s) \<leftarrow> get_byte s;
     (b2, s) \<leftarrow> get_byte s;
     (b3, s) \<leftarrow> get_byte s;
     (b4, s) \<leftarrow> get_byte s;
     (b5, s) \<leftarrow> get_byte s;
     (b6, s) \<leftarrow> get_byte s;
     (b7, s) \<leftarrow> get_byte s;
     Some (case e of
             LittleEndian \<Rightarrow>
               ((((((push_bit 56 (ucast b0) OR push_bit 48 (ucast b1)) OR push_bit 40 (ucast b2))
                 OR push_bit 32 (ucast b3)) OR push_bit 24 (ucast b4)) OR push_bit 16 (ucast b5))
                 OR push_bit 8 (ucast b6)) OR ucast b7
           | BigEndian \<Rightarrow>
               ((((((ucast b0 OR push_bit 8 (ucast b1)) OR push_bit 16 (ucast b2))
                 OR push_bit 24 (ucast b3)) OR push_bit 32 (ucast b4)) OR push_bit 40 (ucast b5))
                 OR push_bit 48 (ucast b6)) OR push_bit 56 (ucast b7), s)
   }"

subsection \<open>Strings\<close>

definition bitstream_write_str ::
    "endian \<Rightarrow> bitstream_t \<Rightarrow> u8 list \<Rightarrow> (size_t \<times> bitstream_t) option" where
  "bitstream_write_str e s src = do {
     strlength \<leftarrow> c_strlen src;
     if \<not> mBitstreamBytesDoFit s (size_add strlength 1) then Some (0, s)
     else do {
       s \<leftarrow> bitstream_write_uint8 s (of_nat strlength);
       (_, s) \<leftarrow> bitstream_write_bytes e s src strlength;
       Some (strlength, s)
     }
   }"

text \<open>
  The length is read through \<^verbatim>\<open>(unsigned int *)&strlength\<close>: the four bytes at the
  lower address of the zeroed \<open>size_t\<close>, its low half on a little-endian target and its high
  half on a big-endian one.
\<close>

definition size_of_low_word :: "endian \<Rightarrow> u32 \<Rightarrow> size_t" where
  "size_of_low_word e v = (case e of LittleEndian \<Rightarrow> unat v | BigEndian \<Rightarrow> unat v * 2 ^ 32)"

definition bitstream_read_str ::
    "endian \<Rightarrow> bitstream_t \<Rightarrow> u8 list \<Rightarrow> size_t \<Rightarrow> (size_t \<times> u8 list \<times> bitstream_t) option" where
  "bitstream_read_str e s dest maxlength = do {
     (v, s) \<leftarrow> bitstream_read_uint8 s;
     let strlength = size_of_low_word e v;
     if size_add strlength 1 > maxlength then Some (0, dest, s)
     else do {
       (_, dest, s) \<leftarrow> bitstream_read_bytes e s dest strlength;
       dest \<leftarrow> mem_write dest strlength 0;
       Some (strlength, dest, s)
     }
   }"

subsection \<open>Positions and encodings\<close>

text \<open>
  The vocabulary of the statements: a stream inside its block (\<open>bs_wf\<close>), room for
  \<open>n\<close> more bytes, the bytes that lie ahead, and the stream after writing or passing them.
\<close>

definition bs_wf :: "bitstream_t \<Rightarrow> bool" where
  "bs_wf s \<longleftrightarrow> bs_offset s \<le> bs_bound s \<and> bs_bound s \<le> length (bs_data s) \<and> length (bs_data s) < 2 ^ 63"

definition bs_room :: "bitstream_t \<Rightarrow> nat \<Rightarrow> bool" where
  "bs_room s n \<longleftrightarrow> bs_offset s + n \<le> bs_bound s"

definition bs_put :: "bitstream_t \<Rightarrow> u8 list \<Rightarrow> bitstream_t" where
  "bs_put s xs = s\<lparr>bs_data := overwrite (bs_data s) (bs_offset s) xs,
                  bs_offset := bs_offset s + length xs\<rparr>"

definition bs_adv :: "bitstream_t \<Rightarrow> nat \<Rightarrow> bitstream_t" where
  "bs_adv s n = s\<lparr>bs_offset := bs_offset s + n\<rparr>"

definition bs_at :: "bitstream_t \<Rightarrow> u8 list \<Rightarrow> bool" where
  "bs_at s xs \<longleftrightarrow> bs_room s (length xs) \<and> take (length xs) (drop (bs_offset s) (bs_data s)) = xs"

text \<open>The wire format of every field.\<close>

definition enc_uint8 :: "u32 \<Rightarrow> u8 list" where
  "enc_uint8 v = [ucast v]"

definition enc_uint16_endian :: "u32 \<Rightarrow> u8 list" where
  "enc_uint16_endian v = [ucast v, ucast (drop_bit 8 v)]"

definition enc_uint32_endian :: "u32 \<Rightarrow> u8 list" where
  "enc_uint32_endian v = [ucast v, ucast (drop_bit 8 v), ucast (drop_bit 16 v), ucast (drop_bit 24 v)]"

definition enc_uint64_endian :: "u64 \<Rightarrow> u8 list" where
  "enc_uint64_endian v =
     [ucast v, ucast (drop_bit 8 v), ucast (drop_bit 16 v), ucast (drop_bit 24 v),
      ucast (drop_bit 32 v), ucast (drop_bit 40 v), ucast (drop_bit 48 v), ucast (drop_bit 56 v)]"

definition swap_on :: "endian \<Rightarrow> 'a list \<Rightarrow> 'a list" where
  "swap_on e xs = (case e of LittleEndian \<Rightarrow> rev xs | BigEndian \<Rightarrow> xs)"

definition enc_str :: "endian \<Rightarrow> u8 list \<Rightarrow> u8 list" where
  "enc_str e src = of_nat (length (c_str src)) # swap_on e (c_str src)"

definition enc_uint16 :: "endian \<Rightarrow> u32 \<Rightarrow> u8 list" where
  "enc_uint16 e v = swap_on e (enc_uint16_endian v)"

definition enc_uint32 :: "endian \<Rightarrow> u32 \<Rightarrow> u8 list" where
  "enc_uint32 e v = swap_on e (enc_uint32_endian v)"

definition enc_uint64 :: "endian \<Rightarrow> u64 \<Rightarrow> u8 list" where
  "enc_uint64 e v = swap_on e (enc_uint64_endian v)"

text \<open>The number a byte string denotes in network byte order, most significant byte first.\<close>

definition be_value :: "u8 list \<Rightarrow> nat" where
  "be_value xs = foldl (\<lambda>a b. a * 256 + unat b) 0 xs"

text \<open>Whole chains of single-byte accesses, the reference for the wider fields.\<close>

fun put_byte_list :: "bitstream_t \<Rightarrow> u8 list \<Rightarrow> bitstream_t option" where
  "put_byte_list s [] = Some s"
| "put_byte_list s (x # xs) = do { s \<leftarrow> put_byte s x; put_byte_list s xs }"

fun get_byte_list :: "bitstream_t \<Rightarrow> nat \<Rightarrow> (u8 list \<times> bitstream_t) option" where
  "get_byte_list s 0 = Some ([], s)"
| "get_byte_list s (Suc n) =
     do { (x, s) \<leftarrow> get_byte s; (xs, s) \<leftarrow> get_byte_list s n; Some (x # xs, s) }"

section \<open>Stream positions\<close>

lemma length_swap_on [simp]: "length (swap_on e xs) = length xs"
  by (cases e) (simp_all add: swap_on_def)

lemma length_enc [simp]:
  "length (enc_uint8 v) = 1" "length (enc_uint16 e v) = 2" "length (enc_uint32 e v) = 4"
  "length (enc_uint64 e w) = 8" "length (enc_uint16_endian v) = 2"
  "length (enc_uint32_endian v) = 4" "length (enc_uint64_endian w) = 8"
  "length (enc_str e src) = Suc (length (c_str src))"
  by (simp_all add: enc_uint8_def enc_uint16_def enc_uint32_def enc_uint64_def
      enc_uint16_endian_def enc_uint32_endian_def enc_uint64_endian_def enc_str_def)

lemma mBitstreamBytesDoFit_room [simp]: "bs_wf s \<Longrightarrow> mBitstreamBytesDoFit s n \<longleftrightarrow> bs_room s n"
  by (auto simp: mBitstreamBytesDoFit_def bs_wf_def bs_room_def)

lemma mBitstreamHasEnoughBytes_room [simp]:
  "bs_wf s \<Longrightarrow> mBitstreamHasEnoughBytes s n \<longleftrightarrow> bs_room s n"
  by (auto simp: mBitstreamHasEnoughBytes_def bs_wf_def bs_room_def)

lemma bs_wf_put [bs_simps]: "bs_wf s \<Longrightarrow> bs_room s (length xs) \<Longrightarrow> bs_wf (bs_put s xs)"
  by (simp add: bs_wf_def bs_room_def bs_put_def)

lemma bs_room_put [bs_simps]: "bs_room (bs_put s xs) n \<longleftrightarrow> bs_room s (length xs + n)"
  by (simp add: bs_room_def bs_put_def add.assoc)

lemma bs_put_put [bs_simps]:
  "bs_wf s \<Longrightarrow> bs_room s (length xs + length ys) \<Longrightarrow> bs_put (bs_put s xs) ys = bs_put s (xs @ ys)"
  by (simp add: bs_put_def bs_room_def bs_wf_def overwrite_append add.assoc)

lemma bs_put_sel [simp]:
  "bs_offset (bs_put s xs) = bs_offset s + length xs" "bs_bound (bs_put s xs) = bs_bound s"
  by (simp_all add: bs_put_def)

lemma bs_adv_sel [simp]:
  "bs_offset (bs_adv s n) = bs_offset s + n" "bs_bound (bs_adv s n) = bs_bound s"
  "bs_data (bs_adv s n) = bs_data s"
  by (simp_all add: bs_adv_def)

lemma bs_put_Nil [simp]: "bs_put s [] = s"
  by (simp add: bs_put_def)

lemma bs_room_mono: "bs_room s n \<Longrightarrow> m \<le> n \<Longrightarrow> bs_room s m"
  by (simp add: bs_room_def)

lemma bs_wf_adv [bs_simps]: "bs_wf s \<Longrightarrow> bs_wf (bs_adv s n) \<longleftrightarrow> bs_room s n"
  by (auto simp: bs_wf_def bs_adv_def bs_room_def)

lemma bs_adv_adv [bs_simps]: "bs_adv (bs_adv s m) n = bs_adv s (m + n)"
  by (simp add: bs_adv_def add.assoc)

lemma bs_room_adv [bs_simps]: "bs_room (bs_adv s m) n \<longleftrightarrow> bs_room s (m + n)"
  by (simp add: bs_room_def bs_adv_def add.assoc)

lemma bs_adv_0 [simp]: "bs_adv s 0 = s"
  by (simp add: bs_adv_def)

lemma bs_at_Nil [simp]: "bs_wf s \<Longrightarrow> bs_at s []"
  by (simp add: bs_at_def bs_wf_def bs_room_def)

lemma bs_at_room: "bs_at s xs \<Longrightarrow> bs_room s (length xs)"
  by (simp add: bs_at_def)

lemma bs_at_append:
  "bs_at s (xs @ ys) \<longleftrightarrow> bs_at s xs \<and> bs_at (bs_adv s (length xs)) ys"
  by (auto simp: bs_at_def bs_room_def bs_adv_def take_eq_append_iff ac_simps)

lemma bs_at_Cons: "bs_at s (x # xs) \<longleftrightarrow> bs_at s [x] \<and> bs_at (bs_adv s 1) xs"
  using bs_at_append [of s "[x]" xs] by simp

lemma bs_at_wf_adv: "bs_wf s \<Longrightarrow> bs_at s xs \<Longrightarrow> bs_wf (bs_adv s (length xs))"
  by (simp add: bs_wf_adv bs_at_room)

lemma bs_at_put:
  "bs_wf s \<Longrightarrow> bs_room s (length xs) \<Longrightarrow> bs_at ((bs_put s xs)\<lparr>bs_offset := bs_offset s\<rparr>) xs"
  by (simp add: bs_at_def bs_room_def bs_put_def bs_wf_def take_drop_overwrite)

lemma bs_put_rewind:
  "bs_adv ((bs_put s xs)\<lparr>bs_offset := bs_offset s\<rparr>) (length xs) = bs_put s xs"
  by (simp add: bs_adv_def bs_put_def)

lemma bs_wf_rewind:
  "bs_wf s \<Longrightarrow> bs_room s (length xs) \<Longrightarrow> bs_wf ((bs_put s xs)\<lparr>bs_offset := bs_offset s\<rparr>)"
  by (simp add: bs_wf_def bs_put_def bs_room_def)

subsection \<open>One byte\<close>

lemma put_byte_room [write_simps]:
  "bs_wf s \<Longrightarrow> bs_room s 1 \<Longrightarrow> put_byte s v = Some (bs_put s [v])"
  by (simp add: put_byte_def bs_put_def bs_wf_def bs_room_def list_update_overwrite)

lemma get_byte_at [read_simps]:
  assumes "bs_wf s" "bs_at s (x # xs)"
  shows "get_byte s = Some (x, bs_adv s 1)"
proof -
  have len: "bs_offset s < length (bs_data s)" and t: "take 1 (drop (bs_offset s) (bs_data s)) = [x]"
    using assms bs_at_Cons [of s x xs] by (auto simp: bs_wf_def bs_at_def bs_room_def)
  then have "bs_data s ! bs_offset s = x"
    by (simp add: take_Suc_conv_app_nth)
  with len assms(1) show ?thesis
    by (simp add: get_byte_def bs_adv_def bs_wf_def)
qed

subsection \<open>Byte arrays\<close>

lemma write_bytes_loop_eq:
  assumes "off + n \<le> length d" "n \<le> length src" "b \<le> n" "length d < 2 ^ 64"
  shows "write_bytes_loop d off src n b = Some (overwrite d off (rev (drop b (take n src))))"
  using assms
proof (induction d off src n b rule: write_bytes_loop.induct)
  case (1 d off src n b)
  show ?case
  proof (cases "b < n")
    case True
    have split: "rev (drop b (take n src)) = rev (drop (b + 1) (take n src)) @ [src ! b]"
      using True "1.prems" by (simp add: Cons_nth_drop_Suc [symmetric])
    have pos: "off + n - b - 1 = off + length (rev (drop (b + 1) (take n src)))"
      using True "1.prems" by simp
    have upd: "overwrite (d[off + n - b - 1 := src ! b]) off (rev (drop (b + 1) (take n src)))
        = overwrite d off (rev (drop b (take n src)))"
      unfolding split pos
      using True "1.prems"
      by (intro overwrite_update_end) simp
    have "write_bytes_loop d off src n b
        = write_bytes_loop (d[off + n - b - 1 := src ! b]) off src n (b + 1)"
      using True "1.prems" by (subst write_bytes_loop.simps) simp
    also have "\<dots> = Some (overwrite (d[off + n - b - 1 := src ! b]) off (rev (drop (b + 1) (take n src))))"
      using True "1.prems" by (intro "1.IH" [of "src ! b"]) auto
    finally show ?thesis
      by (simp only: upd)
  next
    case False
    with "1.prems" show ?thesis
      by (subst write_bytes_loop.simps) simp
  qed
qed

lemma read_bytes_loop_eq:
  assumes "off + n \<le> length d" "n \<le> length dest" "b \<le> n" "length d < 2 ^ 64"
  shows "read_bytes_loop d off dest n b =
    Some (overwrite dest b (drop b (rev (take n (drop off d)))))"
  using assms
proof (induction d off dest n b rule: read_bytes_loop.induct)
  case (1 d off dest n b)
  let ?w = "rev (take n (drop off d))"
  show ?case
  proof (cases "b < n")
    case True
    have nth: "?w ! b = d ! (off + n - b - 1)"
      using True "1.prems" by (simp add: rev_nth)
    have len: "length ?w = n"
      using "1.prems" by simp
    have split: "drop b ?w = d ! (off + n - b - 1) # drop (b + 1) ?w"
      using True len nth by (simp add: Cons_nth_drop_Suc [symmetric])
    have upd: "overwrite (dest[b := d ! (off + n - b - 1)]) (b + 1) (drop (b + 1) ?w)
        = overwrite dest b (drop b ?w)"
      unfolding split
      using True "1.prems" len by (simp add: overwrite_def take_Suc_conv_app_nth)
    have "read_bytes_loop d off dest n b
        = read_bytes_loop d off (dest[b := d ! (off + n - b - 1)]) n (b + 1)"
      using True "1.prems" by (subst read_bytes_loop.simps) simp
    also have "\<dots> = Some (overwrite (dest[b := d ! (off + n - b - 1)]) (b + 1) (drop (b + 1) ?w))"
      using True "1.prems" by (intro "1.IH" [of "d ! (off + n - b - 1)"]) auto
    finally show ?thesis
      by (simp only: upd)
  next
    case False
    with "1.prems" show ?thesis
      by (subst read_bytes_loop.simps) simp
  qed
qed

lemma swap_on_swap_on [simp]: "swap_on e (swap_on e xs) = xs"
  by (cases e) (simp_all add: swap_on_def)

lemma bitstream_write_bytes_room [write_simps]:
  assumes "bs_wf s" "n \<le> length src" "bs_room s n"
  shows "bitstream_write_bytes e s src n = Some (n, bs_put s (swap_on e (take n src)))"
proof (cases e)
  case LittleEndian
  with assms show ?thesis
    by (simp add: bitstream_write_bytes_def write_bytes_loop_eq bs_put_def swap_on_def bs_wf_def
        bs_room_def)
next
  case BigEndian
  with assms show ?thesis
    by (simp add: bitstream_write_bytes_def mem_copy_def bs_put_def swap_on_def bs_wf_def
        bs_room_def)
qed

lemma bitstream_write_bytes_full:
  "bs_wf s \<Longrightarrow> \<not> bs_room s n \<Longrightarrow> bitstream_write_bytes e s src n = Some (0, s)"
  by (simp add: bitstream_write_bytes_def)

lemma bitstream_read_bytes_room:
  assumes "bs_wf s" "bs_room s n" "n \<le> length dest"
  shows "bitstream_read_bytes e s dest n =
    Some (n, overwrite dest 0 (swap_on e (take n (drop (bs_offset s) (bs_data s)))), bs_adv s n)"
proof (cases e)
  case LittleEndian
  with assms show ?thesis
    by (simp add: bitstream_read_bytes_def read_bytes_loop_eq bs_adv_def swap_on_def bs_wf_def
        bs_room_def)
next
  case BigEndian
  with assms show ?thesis
    by (simp add: bitstream_read_bytes_def mem_copy_def bs_adv_def swap_on_def bs_wf_def
        bs_room_def)
qed

lemma bitstream_read_bytes_at [read_simps]:
  assumes "bs_wf s" "bs_at s (swap_on e xs)" "n = length xs" "n \<le> length dest"
  shows "bitstream_read_bytes e s dest n = Some (n, overwrite dest 0 xs, bs_adv s n)"
  using assms by (simp add: bitstream_read_bytes_room bs_at_def)

lemma bitstream_read_bytes_short:
  "bs_wf s \<Longrightarrow> \<not> bs_room s n \<Longrightarrow> bitstream_read_bytes e s dest n = Some (0, dest, s)"
  by (simp add: bitstream_read_bytes_def)

section \<open>Codecs\<close>

text \<open>
  A field codec is a writer and a reader that agree on an encoding: where the encoding fits,
  the writer puts exactly those bytes, and where those bytes lie ahead, the reader returns
  the value and passes them. An atomic codec moreover leaves the stream as it is when the
  encoding does not fit.
\<close>

locale field_codec =
  fixes enc :: "'v \<Rightarrow> u8 list"
    and put :: "bitstream_t \<Rightarrow> 'v \<Rightarrow> bitstream_t option"
    and get :: "bitstream_t \<Rightarrow> ('v \<times> bitstream_t) option"
    and ok :: "'v \<Rightarrow> bool"
  assumes put_fits: "bs_wf s \<Longrightarrow> bs_room s (length (enc v)) \<Longrightarrow> put s v = Some (bs_put s (enc v))"
    and get_at: "bs_wf s \<Longrightarrow> ok v \<Longrightarrow> bs_at s (enc v) \<Longrightarrow> get s = Some (v, bs_adv s (length (enc v)))"
begin

lemma get_ahead:
  "bs_wf s \<Longrightarrow> bs_at s (enc v) \<Longrightarrow> ok v \<Longrightarrow> get s = Some (v, bs_adv s (length (enc v)))"
  by (rule get_at)

lemma get_prefix:
  assumes "bs_wf s" "ok v" "bs_at s (enc v @ rest)"
  shows "get s = Some (v, bs_adv s (length (enc v)))"
    and "bs_wf (bs_adv s (length (enc v)))"
    and "bs_at (bs_adv s (length (enc v))) rest"
  using assms by (auto simp: bs_at_append get_at intro: bs_at_wf_adv)

lemma roundtrip:
  assumes "bs_wf s" "ok v" "bs_room s (length (enc v))"
  shows "\<exists>s'. put s v = Some s' \<and> bs_wf s' \<and> bs_offset s' = bs_offset s + length (enc v)
           \<and> get (s'\<lparr>bs_offset := bs_offset s\<rparr>) = Some (v, s')"
proof (intro exI conjI)
  show "put s v = Some (bs_put s (enc v))"
    using assms by (simp add: put_fits)
  show "bs_wf (bs_put s (enc v))"
    using assms by (simp add: bs_wf_put)
  show "bs_offset (bs_put s (enc v)) = bs_offset s + length (enc v)"
    by (simp add: bs_put_def)
  show "get ((bs_put s (enc v))\<lparr>bs_offset := bs_offset s\<rparr>) = Some (v, bs_put s (enc v))"
    using assms get_at [OF bs_wf_rewind _ bs_at_put] by (simp add: bs_put_rewind)
qed

end

locale atomic_codec = field_codec +
  assumes put_full: "bs_wf s \<Longrightarrow> \<not> bs_room s (length (enc v)) \<Longrightarrow> put s v = Some s"
begin

lemma put_total:
  "bs_wf s \<Longrightarrow> put s v = Some (if bs_room s (length (enc v)) then bs_put s (enc v) else s)"
  by (simp add: put_fits put_full)

lemma put_safe:
  assumes "bs_wf s"
  shows "\<exists>s'. put s v = Some s' \<and> bs_wf s' \<and> bs_offset s \<le> bs_offset s'
           \<and> take (bs_offset s) (bs_data s') = take (bs_offset s) (bs_data s)
           \<and> drop (bs_bound s) (bs_data s') = drop (bs_bound s) (bs_data s)"
proof (cases "bs_room s (length (enc v))")
  case True
  have len: "bs_offset s + length (enc v) \<le> bs_bound s" "bs_bound s \<le> length (bs_data s)"
    using True assms by (simp_all add: bs_room_def bs_wf_def)
  have "drop (bs_bound s) (overwrite (bs_data s) (bs_offset s) (enc v)) = drop (bs_bound s) (bs_data s)"
  proof -
    have "drop (bs_bound s) xs = drop (bs_bound s - (bs_offset s + length (enc v)))
            (drop (bs_offset s + length (enc v)) xs)" for xs :: "u8 list"
      using len by simp
    then show ?thesis
      using len by (simp only: drop_overwrite)
  qed
  with True assms len show ?thesis
    by (simp add: put_fits bs_wf_put) (simp add: bs_put_def take_overwrite)
next
  case False
  with assms show ?thesis by (simp add: put_full)
qed

end

lemmas bs_stepwise = bs_wf_put bs_room_put bs_put_put bs_wf_adv bs_adv_adv bs_room_adv

interpretation uint8: atomic_codec enc_uint8 bitstream_write_uint8 bitstream_read_uint8
    "\<lambda>v. unat v < 256"
proof unfold_locales
  fix s v
  assume "bs_wf s"
  then show "bs_room s (length (enc_uint8 v)) \<Longrightarrow> bitstream_write_uint8 s v = Some (bs_put s (enc_uint8 v))"
    by (simp add: bitstream_write_uint8_def write_simps enc_uint8_def ucast_and_255)
  show "unat v < 256 \<Longrightarrow> bs_at s (enc_uint8 v) \<Longrightarrow>
      bitstream_read_uint8 s = Some (v, bs_adv s (length (enc_uint8 v)))"
    using \<open>bs_wf s\<close>
    by (simp add: bitstream_read_uint8_def enc_uint8_def get_byte_at ucast_u8_small)
  show "\<not> bs_room s (length (enc_uint8 v)) \<Longrightarrow> bitstream_write_uint8 s v = Some s"
    using \<open>bs_wf s\<close> by (simp add: bitstream_write_uint8_def)
qed

text \<open>Chains of single bytes: the two facts the wider fields rest on.\<close>

lemma put_byte_then:
  assumes "bs_wf s" "bs_room s (Suc n)"
  shows "put_byte s v = Some (bs_put s [v])" "bs_wf (bs_put s [v])" "bs_room (bs_put s [v]) n"
  using assms by (auto simp: write_simps bs_simps bs_room_def)

lemma get_byte_then:
  assumes "bs_wf s" "bs_at s (x # xs)"
  shows "get_byte s = Some (x, bs_adv s 1)" "bs_wf (bs_adv s 1)" "bs_at (bs_adv s 1) xs"
  using assms bs_at_Cons [of s x xs] bs_at_wf_adv [of s "[x]"] by (auto simp: get_byte_at)

lemma put_byte_list_room:
  "bs_wf s \<Longrightarrow> bs_room s (length xs) \<Longrightarrow> put_byte_list s xs = Some (bs_put s xs)"
proof (induction xs arbitrary: s)
  case Nil
  then show ?case by simp
next
  case (Cons x xs)
  note step = put_byte_then [OF Cons.prems(1), of "length xs" x]
  have "put_byte_list (bs_put s [x]) xs = Some (bs_put (bs_put s [x]) xs)"
    using Cons.prems step by (intro Cons.IH) simp_all
  also have "bs_put (bs_put s [x]) xs = bs_put s (x # xs)"
    using Cons.prems by (simp add: bs_put_put)
  finally show ?case
    using step Cons.prems by simp
qed

lemma get_byte_nth:
  assumes "bs_wf s" "bs_at s xs" "i < length xs"
  shows "get_byte (bs_adv s i) = Some (xs ! i, bs_adv s (Suc i))"
proof -
  have "xs = take i xs @ xs ! i # drop (Suc i) xs"
    using assms(3) by (simp add: id_take_nth_drop)
  with assms(2) have *: "bs_at s (take i xs)" "bs_at (bs_adv s i) (xs ! i # drop (Suc i) xs)"
    using bs_at_append [of s "take i xs" "xs ! i # drop (Suc i) xs"] assms(3) by auto
  then have "bs_wf (bs_adv s i)"
    using bs_at_wf_adv [OF assms(1) *(1)] assms(3) by simp
  from get_byte_then(1) [OF this *(2)] show ?thesis
    by (simp add: bs_adv_adv)
qed

lemma write_uint_bytes:
  "bitstream_write_uint16 e s v =
     (if mBitstreamBytesDoFit s 2 then put_byte_list s (enc_uint16 e v) else Some s)"
  "bitstream_write_uint32 e s v =
     (if mBitstreamBytesDoFit s 4 then put_byte_list s (enc_uint32 e v) else Some s)"
  "bitstream_write_uint64 e s w =
     (if mBitstreamBytesDoFit s 8 then put_byte_list s (enc_uint64 e w) else Some s)"
  "bitstream_write_uint16_endian s v =
     (if mBitstreamBytesDoFit s 2 then put_byte_list s (enc_uint16_endian v) else Some s)"
  "bitstream_write_uint32_endian s v =
     (if mBitstreamBytesDoFit s 4 then put_byte_list s (enc_uint32_endian v) else Some s)"
  by (cases e; simp add: bitstream_write_uint16_def bitstream_write_uint32_def
      bitstream_write_uint64_def bitstream_write_uint16_endian_def bitstream_write_uint32_endian_def
      enc_uint16_def enc_uint32_def enc_uint64_def swap_on_def enc_uint16_endian_def
      enc_uint32_endian_def enc_uint64_endian_def ucast_and_255)+

lemma get_bytes_2:
  assumes "bs_wf s" "bs_at s [b0, b1]"
  shows "get_byte s = Some (b0, bs_adv s 1)" "get_byte (bs_adv s 1) = Some (b1, bs_adv s 2)"
  using get_byte_nth [OF assms, of 0] get_byte_nth [OF assms, of 1] by (simp_all add: numeral_2_eq_2)

lemma get_bytes_4:
  assumes "bs_wf s" "bs_at s [b0, b1, b2, b3]"
  shows "get_byte s = Some (b0, bs_adv s 1)" "get_byte (bs_adv s 1) = Some (b1, bs_adv s 2)"
    "get_byte (bs_adv s 2) = Some (b2, bs_adv s 3)" "get_byte (bs_adv s 3) = Some (b3, bs_adv s 4)"
  using get_byte_nth [OF assms, of 0] get_byte_nth [OF assms, of 1] get_byte_nth [OF assms, of 2]
    get_byte_nth [OF assms, of 3]
  by (simp_all add: eval_nat_numeral)

lemma get_bytes_8:
  assumes "bs_wf s" "bs_at s [b0, b1, b2, b3, b4, b5, b6, b7]"
  shows "get_byte s = Some (b0, bs_adv s 1)" "get_byte (bs_adv s 1) = Some (b1, bs_adv s 2)"
    "get_byte (bs_adv s 2) = Some (b2, bs_adv s 3)" "get_byte (bs_adv s 3) = Some (b3, bs_adv s 4)"
    "get_byte (bs_adv s 4) = Some (b4, bs_adv s 5)" "get_byte (bs_adv s 5) = Some (b5, bs_adv s 6)"
    "get_byte (bs_adv s 6) = Some (b6, bs_adv s 7)" "get_byte (bs_adv s 7) = Some (b7, bs_adv s 8)"
  using get_byte_nth [OF assms, of 0] get_byte_nth [OF assms, of 1] get_byte_nth [OF assms, of 2]
    get_byte_nth [OF assms, of 3] get_byte_nth [OF assms, of 4] get_byte_nth [OF assms, of 5]
    get_byte_nth [OF assms, of 6] get_byte_nth [OF assms, of 7]
  by (simp_all add: eval_nat_numeral)

lemmas enc_uint_defs = enc_uint16_def enc_uint32_def enc_uint64_def enc_uint16_endian_def
  enc_uint32_endian_def enc_uint64_endian_def swap_on_def

lemma read_uint16_at:
  assumes "bs_wf s" "bs_at s (enc_uint16 e v)" "unat v < 2 ^ 16"
  shows "bitstream_read_uint16 e s = Some (v, bs_adv s 2)"
  using assms(1,2) take_bit_small [OF assms(3)]
  by (cases e) (simp_all add: bitstream_read_uint16_def enc_uint_defs get_bytes_2 byte_join
      del: One_nat_def)

lemma read_uint16_endian_at:
  assumes "bs_wf s" "bs_at s (enc_uint16_endian v)" "unat v < 2 ^ 16"
  shows "bitstream_read_uint16_endian s = Some (v, bs_adv s 2)"
  using assms(1,2) take_bit_small [OF assms(3)]
  by (simp add: bitstream_read_uint16_endian_def enc_uint_defs get_bytes_2 byte_join
      del: One_nat_def)

lemma read_uint32_at:
  assumes "bs_wf s" "bs_at s (enc_uint32 e v)"
  shows "bitstream_read_uint32 e s = Some (v, bs_adv s 4)"
  using assms
  by (cases e) (simp_all add: bitstream_read_uint32_def enc_uint_defs get_bytes_4 byte_join
      del: One_nat_def)

lemma read_uint32_endian_at:
  assumes "bs_wf s" "bs_at s (enc_uint32_endian v)"
  shows "bitstream_read_uint32_endian s = Some (v, bs_adv s 4)"
  using assms
  by (simp add: bitstream_read_uint32_endian_def enc_uint_defs get_bytes_4 byte_join
      del: One_nat_def)

lemma read_uint64_at:
  assumes "bs_wf s" "bs_at s (enc_uint64 e v)"
  shows "bitstream_read_uint64 e s = Some (v, bs_adv s 8)"
  using assms
  by (cases e) (simp_all add: bitstream_read_uint64_def enc_uint_defs get_bytes_8 byte_join
      del: One_nat_def)

lemmas write_uint_unfold = write_uint_bytes put_byte_list_room

interpretation uint16: atomic_codec "enc_uint16 e" "bitstream_write_uint16 e"
    "bitstream_read_uint16 e" "\<lambda>v. unat v < 2 ^ 16" for e
  by unfold_locales (auto simp: write_uint_unfold read_uint16_at)

interpretation uint32: atomic_codec "enc_uint32 e" "bitstream_write_uint32 e"
    "bitstream_read_uint32 e" "\<lambda>v. True" for e
  by unfold_locales (auto simp: write_uint_unfold read_uint32_at)

interpretation uint64: atomic_codec "enc_uint64 e" "bitstream_write_uint64 e"
    "bitstream_read_uint64 e" "\<lambda>v. True" for e
  by unfold_locales (auto simp: write_uint_unfold read_uint64_at)

interpretation uint16_endian: atomic_codec enc_uint16_endian bitstream_write_uint16_endian
    bitstream_read_uint16_endian "\<lambda>v. unat v < 2 ^ 16"
  by unfold_locales (auto simp: write_uint_unfold read_uint16_endian_at)

interpretation uint32_endian: atomic_codec enc_uint32_endian bitstream_write_uint32_endian
    bitstream_read_uint32_endian "\<lambda>v. True"
  by unfold_locales (auto simp: write_uint_unfold read_uint32_endian_at)

section \<open>Strings\<close>

lemma bitstream_write_str_room:
  assumes "bs_wf s" "0 \<in> set src" "bs_room s (Suc (length (c_str src)))"
  shows "bitstream_write_str e s src = Some (length (c_str src), bs_put s (enc_str e src))"
proof -
  let ?n = "length (c_str src)"
  let ?s1 = "bs_put s (enc_uint8 (of_nat ?n))"
  have room1: "bs_room s (length (enc_uint8 (of_nat ?n)))" and small: "?n + 1 < 2 ^ 64"
    using assms by (auto simp: bs_room_def bs_wf_def)
  have wf1: "bs_wf ?s1" and room2: "bs_room ?s1 ?n"
    using assms room1 by (auto simp: bs_simps)
  have enc: "enc_uint8 (of_nat ?n) = [of_nat ?n]"
    by (simp add: enc_uint8_def ucast_of_nat_u8)
  have "bitstream_write_bytes e ?s1 src ?n = Some (?n, bs_put ?s1 (swap_on e (take ?n src)))"
    using wf1 room2 by (simp add: write_simps length_c_str_le)
  also have "bs_put ?s1 (swap_on e (take ?n src)) = bs_put s (enc_str e src)"
    using assms by (simp add: bs_put_put enc_str_def take_length_c_str enc)
  finally show ?thesis
    using assms small by (simp add: bitstream_write_str_def c_strlen_def uint8.put_fits [OF assms(1) room1])
qed

lemma bitstream_write_str_full:
  assumes "bs_wf s" "0 \<in> set src" "\<not> bs_room s (Suc (length (c_str src)))" "length src < 2 ^ 63"
  shows "bitstream_write_str e s src = Some (0, s)"
proof -
  have "length (c_str src) + 1 < 2 ^ 64"
    using assms(4) length_c_str_le [of src] by simp
  with assms show ?thesis
    by (simp add: bitstream_write_str_def c_strlen_def)
qed

lemma bitstream_read_str_at:
  assumes "bs_wf s" "bs_at s (enc_str LittleEndian src)" "length (c_str src) < 256"
    and "length (c_str src) < maxlength" "maxlength \<le> length dest"
  shows "bitstream_read_str LittleEndian s dest maxlength =
    Some (length (c_str src), overwrite dest 0 (c_str src @ [0]), bs_adv s (Suc (length (c_str src))))"
proof -
  let ?n = "length (c_str src)"
  let ?w = "of_nat ?n :: u32"
  have enc: "enc_str LittleEndian src = enc_uint8 ?w @ swap_on LittleEndian (c_str src)"
    by (simp add: enc_str_def enc_uint8_def ucast_of_nat_u8)
  have n: "unat ?w = ?n"
    using assms(3) by (simp add: unsigned_of_nat take_bit_nat_eq_self)
  note r = uint8.get_prefix [OF assms(1) _ assms(2) [unfolded enc], unfolded n, OF assms(3)]
  have "bitstream_read_bytes LittleEndian (bs_adv s 1) dest ?n
      = Some (?n, overwrite dest 0 (c_str src), bs_adv (bs_adv s 1) ?n)"
    using r assms by (intro bitstream_read_bytes_at) auto
  moreover have "(overwrite dest 0 (c_str src))[?n := 0] = overwrite dest 0 (c_str src @ [0])"
  proof -
    have "(overwrite dest 0 (c_str src))[?n := 0]
        = overwrite (overwrite dest 0 (c_str src)) (0 + length (c_str src)) [0]"
      using assms by (simp add: list_update_overwrite)
    also have "\<dots> = overwrite dest 0 (c_str src @ [0])"
      using assms by (intro overwrite_append) simp
    finally show ?thesis .
  qed
  ultimately show ?thesis
    using r assms n
    by (simp add: bitstream_read_str_def size_of_low_word_def bs_adv_adv Let_def)
qed

lemma bitstream_read_str_reads_back:
  assumes "bs_wf s" "bs_at s (enc_str LittleEndian src)" "length (c_str src) < 256"
    and "length (c_str src) < maxlength" "maxlength \<le> length dest"
  shows "\<exists>dest'. bitstream_read_str LittleEndian s dest maxlength =
      Some (length (c_str src), dest', bs_adv s (Suc (length (c_str src))))
    \<and> c_str dest' = c_str src \<and> length dest' = length dest"
  using assms
  by (auto simp: bitstream_read_str_at overwrite_def c_str_append_NUL c_str_no_NUL)

section \<open>Snapshots\<close>

lemma overwrite_commute:
  assumes "i + length xs \<le> j" "j + length ys \<le> length d"
  shows "overwrite (overwrite d j ys) i xs = overwrite (overwrite d i xs) j ys"
proof -
  have "take j (take i d @ xs @ drop (i + length xs) d)
      = take i d @ xs @ drop (i + length xs) (take j d)"
    using assms by (simp add: drop_take)
  moreover have "drop (j + length ys) (take i d @ xs @ drop (i + length xs) d) = drop (j + length ys) d"
    using assms by (simp add: add.commute)
  ultimately show ?thesis
    using assms by (simp add: overwrite_def)
qed

lemma bitstream_skip_bytes_room:
  "bs_wf s \<Longrightarrow> bs_room s n \<Longrightarrow> bitstream_skip_bytes s n = bs_adv s n"
  by (auto simp: bitstream_skip_bytes_def bs_adv_def bs_room_def bs_wf_def Let_def)

lemma bs_put_backpatch:
  assumes "bs_wf s" "bs_room s (length xs + length ys)"
  shows "(bs_put ((bs_put (bs_adv s (length xs)) ys)\<lparr>bs_offset := bs_offset s\<rparr>) xs)
      \<lparr>bs_offset := bs_offset s + length xs + length ys\<rparr> = bs_put s (xs @ ys)"
proof -
  have len: "bs_offset s + (length xs + length ys) \<le> length (bs_data s)"
    using assms by (simp add: bs_wf_def bs_room_def)
  have "overwrite (overwrite (bs_data s) (bs_offset s + length xs) ys) (bs_offset s) xs
      = overwrite (overwrite (bs_data s) (bs_offset s) xs) (bs_offset s + length xs) ys"
    using len by (intro overwrite_commute) simp_all
  also have "\<dots> = overwrite (bs_data s) (bs_offset s) (xs @ ys)"
    using len by (intro overwrite_append) simp
  finally show ?thesis
    by (simp add: bs_put_def bs_adv_def)
qed

section \<open>Network byte order\<close>

lemma be_value_snoc: "be_value (xs @ [b]) = be_value xs * 256 + unat b"
  by (simp add: be_value_def)

lemma be_value_drop_bits:
  fixes v :: "'a::len word"
  assumes "be_value xs = unat (drop_bit (k + 8) v)"
  shows "be_value (xs @ [ucast (drop_bit k v)]) = unat (drop_bit k v)"
proof -
  have "unat (drop_bit (k + 8) v) = unat (drop_bit k v) div 256"
    by (simp only: unat_drop_bit_eq power_add div_mult2_eq) simp
  then show ?thesis
    using assms by (simp add: be_value_snoc unat_ucast_u8)
qed

lemma be_value_enc_uint32_endian: "be_value (rev (enc_uint32_endian v)) = unat v"
proof -
  have "be_value [] = unat (drop_bit (24 + 8) v)"
    by (simp add: be_value_def drop_bit_word_beyond)
  from be_value_drop_bits [OF this]
  have "be_value [ucast (drop_bit 24 v)] = unat (drop_bit (16 + 8) v)"
    by simp
  from be_value_drop_bits [OF this]
  have "be_value [ucast (drop_bit 24 v), ucast (drop_bit 16 v)] = unat (drop_bit (8 + 8) v)"
    by simp
  from be_value_drop_bits [OF this]
  have "be_value [ucast (drop_bit 24 v), ucast (drop_bit 16 v), ucast (drop_bit 8 v)]
      = unat (drop_bit (0 + 8) v)"
    by simp
  from be_value_drop_bits [OF this] show ?thesis
    by (simp add: enc_uint32_endian_def)
qed

section \<open>Properties\<close>

text \<open>
  (C24) Round trip of the integer fields. On a stream inside its block with room for the
  field, writing a value at any width and in either byte order, rewinding and reading at the
  same width returns the value and leaves the stream where the writer left it.
\<close>

theorem bitstream_integer_roundtrip:
  assumes "bs_wf s" "bs_room s 8" "unat b < 256" "unat h < 2 ^ 16"
  shows "(\<exists>s'. bitstream_write_uint8 s b = Some s' \<and>
           bitstream_read_uint8 (s'\<lparr>bs_offset := bs_offset s\<rparr>) = Some (b, s')) \<and>
         (\<exists>s'. bitstream_write_uint16 e s h = Some s' \<and>
           bitstream_read_uint16 e (s'\<lparr>bs_offset := bs_offset s\<rparr>) = Some (h, s')) \<and>
         (\<exists>s'. bitstream_write_uint32 e s v = Some s' \<and>
           bitstream_read_uint32 e (s'\<lparr>bs_offset := bs_offset s\<rparr>) = Some (v, s')) \<and>
         (\<exists>s'. bitstream_write_uint64 e s w = Some s' \<and>
           bitstream_read_uint64 e (s'\<lparr>bs_offset := bs_offset s\<rparr>) = Some (w, s')) \<and>
         (\<exists>s'. bitstream_write_uint16_endian s h = Some s' \<and>
           bitstream_read_uint16_endian (s'\<lparr>bs_offset := bs_offset s\<rparr>) = Some (h, s')) \<and>
         (\<exists>s'. bitstream_write_uint32_endian s v = Some s' \<and>
           bitstream_read_uint32_endian (s'\<lparr>bs_offset := bs_offset s\<rparr>) = Some (v, s'))"
proof -
  have room: "bs_room s 1" "bs_room s 2" "bs_room s 4"
    using assms(2) by (simp_all add: bs_room_def)
  show ?thesis
    using assms room uint8.roundtrip [of s b] uint16.roundtrip [of s h e]
      uint32.roundtrip [of s e v] uint64.roundtrip [of s e w] uint16_endian.roundtrip [of s h]
      uint32_endian.roundtrip [of s v]
    by auto
qed

theorem bitstream_integer_roundtrip_witness:
  "\<exists>s'. bitstream_write_uint32 LittleEndian (bitstream_create (replicate 8 0) 8) 0x56133499 = Some s' \<and>
     bitstream_read_uint32 LittleEndian (s'\<lparr>bs_offset := 0\<rparr>) = Some (0x56133499, s')"
  using bitstream_integer_roundtrip
    [of "bitstream_create (replicate 8 0) 8" 1 1 LittleEndian "0x56133499"]
  by (simp add: bitstream_create_def bs_wf_def bs_room_def)

text \<open>
  Round trip of byte arrays: a block written with \<open>bitstream_write_bytes\<close> and read back
  with \<open>bitstream_read_bytes\<close> arrives in its original order, although the bytes lie
  reversed on the wire on a little-endian target.
\<close>

theorem bitstream_bytes_roundtrip:
  assumes "bs_wf s" "bs_room s n" "n \<le> length src" "n \<le> length dest"
  shows "\<exists>s'. bitstream_write_bytes e s src n = Some (n, s') \<and>
           bs_offset s' = bs_offset s + n \<and>
           bitstream_read_bytes e (s'\<lparr>bs_offset := bs_offset s\<rparr>) dest n =
             Some (n, overwrite dest 0 (take n src), s')"
proof (intro exI conjI)
  let ?x = "swap_on e (take n src)"
  have len: "length ?x = n"
    using assms by simp
  show "bitstream_write_bytes e s src n = Some (n, bs_put s ?x)"
    using assms by (simp add: write_simps)
  show "bs_offset (bs_put s ?x) = bs_offset s + n"
    using len by simp
  have "bitstream_read_bytes e ((bs_put s ?x)\<lparr>bs_offset := bs_offset s\<rparr>) dest n
      = Some (n, overwrite dest 0 (take n src), bs_adv ((bs_put s ?x)\<lparr>bs_offset := bs_offset s\<rparr>) n)"
    using assms len bs_wf_rewind [of s ?x] bs_at_put [of s ?x]
    by (intro bitstream_read_bytes_at) auto
  then show "bitstream_read_bytes e ((bs_put s ?x)\<lparr>bs_offset := bs_offset s\<rparr>) dest n =
      Some (n, overwrite dest 0 (take n src), bs_put s ?x)"
    using bs_put_rewind [of s ?x] len by simp
qed

theorem bitstream_bytes_roundtrip_witness:
  "\<exists>s'. bitstream_write_bytes LittleEndian (bitstream_create (replicate 8 0) 8) [1, 2, 3] 3 = Some (3, s') \<and>
     bs_offset s' = 3 \<and>
     bitstream_read_bytes LittleEndian (s'\<lparr>bs_offset := 0\<rparr>) [0, 0, 0, 9] 3 = Some (3, [1, 2, 3, 9], s')"
  using bitstream_bytes_roundtrip
    [of "bitstream_create (replicate 8 0) 8" 3 "[1, 2, 3]" "[0, 0, 0, 9]" LittleEndian]
  by (simp add: bitstream_create_def bs_wf_def bs_room_def overwrite_def)

text \<open>
  Round trip of strings on a little-endian target: a NUL-terminated string that fits the
  stream and the destination buffer is read back as the same C string, and both calls return
  its length.
\<close>

theorem bitstream_str_roundtrip:
  assumes "bs_wf s" "0 \<in> set src" "bs_room s (Suc (length (c_str src)))"
    and "length (c_str src) < 256" "length (c_str src) < maxlength" "maxlength \<le> length dest"
  shows "\<exists>s' dest'. bitstream_write_str LittleEndian s src = Some (length (c_str src), s') \<and>
           bitstream_read_str LittleEndian (s'\<lparr>bs_offset := bs_offset s\<rparr>) dest maxlength =
             Some (length (c_str src), dest', s') \<and>
           c_str dest' = c_str src"
proof -
  let ?s = "(bs_put s (enc_str LittleEndian src))\<lparr>bs_offset := bs_offset s\<rparr>"
  have "bs_wf ?s" "bs_at ?s (enc_str LittleEndian src)"
    using assms by (auto intro: bs_wf_rewind bs_at_put)
  from bitstream_read_str_reads_back [OF this assms(4-6)]
  show ?thesis
    using assms bitstream_write_str_room [of s src LittleEndian]
      bs_put_rewind [of s "enc_str LittleEndian src"]
    by auto
qed

theorem bitstream_str_roundtrip_witness:
  "\<exists>s' dest'. bitstream_write_str LittleEndian (bitstream_create (replicate 8 0) 8) [97, 98, 0, 7] = Some (2, s') \<and>
     bitstream_read_str LittleEndian (s'\<lparr>bs_offset := 0\<rparr>) (replicate 5 0) 5 = Some (2, dest', s') \<and>
     c_str dest' = [97, 98]"
proof -
  have str: "c_str [97, 98, 0, 7] = [97, 98]" "length [97, 98 :: u8] = 2"
    by (simp_all add: c_str_def)
  show ?thesis
    using bitstream_str_roundtrip
      [of "bitstream_create (replicate 8 0) 8" "[97, 98, 0, 7]" 5 "replicate 5 0", unfolded str]
    by (simp add: bitstream_create_def bs_wf_def bs_room_def)
qed

lemma write_whole_or_nothing:
  assumes "bs_wf s" "p = Some (if bs_room s n then bs_put s xs else s)" "length xs = n"
  shows "\<exists>s'. p = Some s' \<and> bs_wf s' \<and> (if bs_room s n then bs_offset s' = bs_offset s + n else s' = s) \<and>
    bs_bound s' = bs_bound s \<and> length (bs_data s') = length (bs_data s) \<and>
    take (bs_offset s) (bs_data s') = take (bs_offset s) (bs_data s) \<and>
    drop (bs_offset s + n) (bs_data s') = drop (bs_offset s + n) (bs_data s)"
  using assms by (auto simp: bs_wf_def bs_room_def bs_put_def overwrite_def)

text \<open>
  (C26) Writers write the whole field or nothing. Whatever the value and the byte order, a writer of an
  integer, of bytes or of a string called on a stream inside its block performs no access outside it and keeps
  the stream well formed. If the field fits, the offset moves by its width and no byte before or behind the field
  changes; if it does not, the stream is unchanged.
\<close>

theorem bitstream_write_in_bounds:
  assumes "bs_wf s" "k \<le> length src" "0 \<in> set str" "length str < 2 ^ 63"
    and "(n, put) \<in> {(1, \<lambda>s. bitstream_write_uint8 s v), (2, \<lambda>s. bitstream_write_uint16 e s v),
                     (4, \<lambda>s. bitstream_write_uint32 e s v), (8, \<lambda>s. bitstream_write_uint64 e s w),
                     (2, \<lambda>s. bitstream_write_uint16_endian s v), (4, \<lambda>s. bitstream_write_uint32_endian s v),
                     (k, \<lambda>s. map_option snd (bitstream_write_bytes e s src k)),
                     (Suc (length (c_str str)), \<lambda>s. map_option snd (bitstream_write_str e s str))}"
  shows "\<exists>s'. put s = Some s' \<and> bs_wf s' \<and> (if bs_room s n then bs_offset s' = bs_offset s + n else s' = s) \<and>
    bs_bound s' = bs_bound s \<and> length (bs_data s') = length (bs_data s) \<and>
    take (bs_offset s) (bs_data s') = take (bs_offset s) (bs_data s) \<and>
    drop (bs_offset s + n) (bs_data s') = drop (bs_offset s + n) (bs_data s)"
proof -
  have "map_option snd (bitstream_write_bytes e s src k) = Some (if bs_room s k then bs_put s (swap_on e (take k src)) else s)"
    using assms(1,2) by (simp add: bitstream_write_bytes_room bitstream_write_bytes_full)
  moreover have "map_option snd (bitstream_write_str e s str) = Some (if bs_room s (Suc (length (c_str str))) then bs_put s (enc_str e str) else s)"
    using assms(1,3,4) by (simp add: bitstream_write_str_room bitstream_write_str_full)
  ultimately obtain xs where "put s = Some (if bs_room s n then bs_put s xs else s)" "length xs = n"
    using assms(2,5) uint8.put_total [OF assms(1), of v] uint16.put_total [OF assms(1), of e v] uint32.put_total [OF assms(1), of e v]
      uint64.put_total [OF assms(1), of e w] uint16_endian.put_total [OF assms(1), of v] uint32_endian.put_total [OF assms(1), of v]
    by (elim insertE emptyE) (auto simp del: One_nat_def)
  then show ?thesis
    by (rule write_whole_or_nothing [OF assms(1)])
qed

theorem bitstream_write_in_bounds_witness:
  "bitstream_write_uint32 LittleEndian (bitstream_create [1, 2, 3] 3) 5 = Some (bitstream_create [1, 2, 3] 3)"
  using bitstream_write_in_bounds
    [of "bitstream_create [1, 2, 3] 3" 0 "[]" "[0]" 4 "\<lambda>s. bitstream_write_uint32 LittleEndian s 5" 5 LittleEndian 0]
  by (auto simp: bitstream_create_def bs_wf_def bs_room_def)

text \<open>
  Network byte order. On a little-endian target the four bytes written for a 32-bit field
  denote its value most significant byte first, the big-endian format the header promises; on
  a big-endian target it is the reversed bytes that do.
\<close>

theorem bitstream_uint32_network_order:
  assumes "bs_wf s" "bs_room s 4"
  shows "\<exists>xs. length xs = 4 \<and> bitstream_write_uint32 e s v = Some (bs_put s xs) \<and>
           be_value (case e of LittleEndian \<Rightarrow> xs | BigEndian \<Rightarrow> rev xs) = unat v"
  using assms uint32.put_fits [of s e v]
  by (intro exI [of _ "enc_uint32 e v"])
    (cases e; simp add: be_value_enc_uint32_endian enc_uint32_def swap_on_def)

theorem bitstream_uint32_network_order_witness:
  "\<exists>xs. length xs = 4 \<and>
     bitstream_write_uint32 BigEndian (bitstream_create (replicate 4 0) 4) 258
       = Some (bs_put (bitstream_create (replicate 4 0) 4) xs) \<and> be_value (rev xs) = 258"
  using bitstream_uint32_network_order [of "bitstream_create (replicate 4 0) 4" BigEndian 258]
  by (simp add: bitstream_create_def bs_wf_def bs_room_def)

text \<open>
  (C27) Back-patching. Reserving four bytes with a snapshot and a skip, writing a body, rolling
  back to fill in the reserved field and rolling over again gives the same stream as writing
  the field and the body in order.
\<close>

theorem bitstream_backpatch_equiv:
  assumes "bs_wf s" "bs_room s (4 + n)" "n \<le> length src"
  shows "do {
           (k, s2) \<leftarrow> bitstream_write_bytes e (bitstream_skip_bytes s 4) src n;
           let (s3, sn) = bitstream_rollback s2 (bitstream_snapshot s);
           s4 \<leftarrow> bitstream_write_uint32 e s3 v;
           Some (fst (bitstream_rollover s4 sn))
         }
       = do {
           s1 \<leftarrow> bitstream_write_uint32 e s v;
           (k, s2) \<leftarrow> bitstream_write_bytes e s1 src n;
           Some s2
         }"
proof -
  let ?x = "enc_uint32 e v" and ?y = "swap_on e (take n src)"
  let ?s2 = "bs_put (bs_adv s 4) ?y"
  let ?s3 = "?s2\<lparr>bs_offset := bs_offset s\<rparr>"
  have len: "length ?y = n"
    using assms(3) by simp
  have room: "bs_room s 4"
    using assms(2) by (simp add: bs_room_def)
  have wf: "bs_wf (bs_adv s 4)" "bs_room (bs_adv s 4) n"
    using assms by (simp_all add: bs_wf_adv bs_room_adv room)
  have wf3: "bs_wf ?s3" "bs_room ?s3 4"
    using assms len by (auto simp: bs_wf_def bs_room_def bs_put_def bs_adv_def)
  have "bitstream_write_bytes e (bitstream_skip_bytes s 4) src n = Some (n, ?s2)"
    using assms room wf by (simp add: bitstream_skip_bytes_room write_simps)
  moreover have "bitstream_write_uint32 e ?s3 v = Some (bs_put ?s3 ?x)"
    using wf3 by (simp add: uint32.put_fits)
  moreover have "(bs_put ?s3 ?x)\<lparr>bs_offset := bs_offset s + 4 + n\<rparr> = bs_put s (?x @ ?y)"
    using bs_put_backpatch [of s ?x ?y] assms len by simp
  moreover have "bitstream_write_uint32 e s v = Some (bs_put s ?x)"
    using assms room by (simp add: uint32.put_fits)
  moreover have "bitstream_write_bytes e (bs_put s ?x) src n = Some (n, bs_put s (?x @ ?y))"
    using assms room len by (simp add: write_simps bs_wf_put bs_room_put bs_put_put)
  ultimately show ?thesis
    using len by (simp add: bitstream_rollback_def bitstream_rollover_def bitstream_snapshot_def)
qed

theorem bitstream_backpatch_equiv_witness:
  "do {
     (k, s2) \<leftarrow> bitstream_write_bytes LittleEndian (bitstream_skip_bytes (bitstream_create (replicate 9 0) 9) 4) [1, 2] 2;
     let (s3, sn) = bitstream_rollback s2 (bitstream_snapshot (bitstream_create (replicate 9 0) 9));
     s4 \<leftarrow> bitstream_write_uint32 LittleEndian s3 7;
     Some (fst (bitstream_rollover s4 sn))
   }
   = do {
     s1 \<leftarrow> bitstream_write_uint32 LittleEndian (bitstream_create (replicate 9 0) 9) 7;
     (k, s2) \<leftarrow> bitstream_write_bytes LittleEndian s1 [1, 2] 2;
     Some s2
   }"
  by (rule bitstream_backpatch_equiv) (simp_all add: bitstream_create_def bs_wf_def bs_room_def)

text \<open>
  The fixed-width readers check no bound: one byte read at the bound of a stream whose
  block is larger succeeds, and afterwards the offset has passed the bound, so that the
  unsigned difference in the fit check wraps around and any length up to the block's size
  is accepted.
\<close>

theorem bitstream_read_uint8_passes_bound:
  assumes "bs_offset s = bs_bound s" "bs_bound s < length (bs_data s)" "length (bs_data s) < 2 ^ 63"
  shows "\<exists>v s'. bitstream_read_uint8 s = Some (v, s') \<and> bs_bound s' < bs_offset s' \<and>
           (\<forall>n < 2 ^ 63. mBitstreamBytesDoFit s' n)"
  using assms
  by (auto simp: bitstream_read_uint8_def get_byte_def mBitstreamBytesDoFit_def size_sub_wrap)

theorem bitstream_read_uint8_passes_bound_witness:
  "\<exists>v s'. bitstream_read_uint8 (bitstream_create [1] 0) = Some (v, s') \<and> bs_bound s' < bs_offset s' \<and>
     mBitstreamBytesDoFit s' 1000000"
proof -
  have "\<exists>v s'. bitstream_read_uint8 (bitstream_create [1] 0) = Some (v, s') \<and> bs_bound s' < bs_offset s' \<and>
      (\<forall>n < 2 ^ 63. mBitstreamBytesDoFit s' n)"
    by (rule bitstream_read_uint8_passes_bound) (simp_all add: bitstream_create_def)
  then show ?thesis
    by (elim exE conjE) (intro exI conjI, assumption, assumption, simp)
qed

end
