(* ===== verification/Net_Error.thy ===== *)
theory Net_Error
  imports Net_Prelude
begin

text \<open>
  The error codes of \<^verbatim>\<open>net_error.c\<close> and their translation from \<^verbatim>\<open>errno\<close> and
  \<^verbatim>\<open>getaddrinfo\<close> results. The system constants are those of Linux, the platform
  the build files name beside Darwin.
\<close>

datatype NetError =
    NetNoError
  | NetUnreachableError
  | NetNotKnownError
  | NetCouldNotResolveError
  | NetBindError
  | NetSockError
  | NetInvalidError
  | NetOtherError

type_synonym PosixError = int

abbreviation (input) EIO :: PosixError where "EIO \<equiv> 5"
abbreviation (input) EBADF :: PosixError where "EBADF \<equiv> 9"
abbreviation (input) EAGAIN :: PosixError where "EAGAIN \<equiv> 11"
abbreviation (input) EINVAL :: PosixError where "EINVAL \<equiv> 22"
abbreviation (input) ENOTSOCK :: PosixError where "ENOTSOCK \<equiv> 88"
abbreviation (input) EMSGSIZE :: PosixError where "EMSGSIZE \<equiv> 90"
abbreviation (input) EAFNOSUPPORT :: PosixError where "EAFNOSUPPORT \<equiv> 97"
abbreviation (input) EADDRINUSE :: PosixError where "EADDRINUSE \<equiv> 98"
abbreviation (input) EADDRNOTAVAIL :: PosixError where "EADDRNOTAVAIL \<equiv> 99"
abbreviation (input) ENETDOWN :: PosixError where "ENETDOWN \<equiv> 100"
abbreviation (input) ENETUNREACH :: PosixError where "ENETUNREACH \<equiv> 101"
abbreviation (input) EAI_NONAME :: PosixError where "EAI_NONAME \<equiv> -2"
abbreviation (input) EAI_AGAIN :: PosixError where "EAI_AGAIN \<equiv> -3"
abbreviation (input) EAI_FAIL :: PosixError where "EAI_FAIL \<equiv> -4"
abbreviation (input) EAI_SYSTEM :: PosixError where "EAI_SYSTEM \<equiv> -11"

text \<open>
  The \<^verbatim>\<open>switch\<close>, case by case. The group \<open>EBADF\<close>, \<open>ENOTSOCK\<close>, \<open>EINVAL\<close> has no
  \<^verbatim>\<open>break\<close>: it assigns \<open>NetInvalidError\<close> and falls through to the default, which
  overwrites it.
\<close>

definition netErrorPosix :: "PosixError \<Rightarrow> NetError" where
  "netErrorPosix posixError =
     (if posixError = ENETDOWN \<or> posixError = ENETUNREACH then NetUnreachableError
      else if posixError = EAI_NONAME then NetNotKnownError
      else if posixError = EAI_AGAIN \<or> posixError = EAI_FAIL then NetCouldNotResolveError
      else if posixError = EMSGSIZE then NetInvalidError
      else if posixError = EADDRINUSE \<or> posixError = EADDRNOTAVAIL \<or> posixError = EAFNOSUPPORT
        then NetBindError
      else if posixError = EIO \<or> posixError = EAGAIN then NetSockError
      else let error = (if posixError = EBADF \<or> posixError = ENOTSOCK \<or> posixError = EINVAL
                        then Some NetInvalidError else None);
               error = Some NetOtherError
           in the error)"

text \<open>The two setters, as the value stored through the pointer.\<close>

definition netErrorSetPosix :: "NetError \<Rightarrow> PosixError \<Rightarrow> NetError" where
  "netErrorSetPosix error posixError = netErrorPosix posixError"

definition netErrorSet :: "NetError \<Rightarrow> NetError \<Rightarrow> NetError" where
  "netErrorSet error val = val"

text \<open>
  Classification of system errors. No system error is ever reported as success, and
  the only code reported as \<open>NetInvalidError\<close> is \<open>EMSGSIZE\<close>: for a bad descriptor, a
  non-socket or an invalid argument the assignment of \<open>NetInvalidError\<close> is lost in the
  fall-through and the caller sees \<open>NetOtherError\<close>.
\<close>

theorem netErrorPosix_classification:
  "netErrorPosix p \<noteq> NetNoError \<and>
   (netErrorPosix p = NetInvalidError \<longleftrightarrow> p = EMSGSIZE) \<and>
   netErrorPosix EBADF = NetOtherError \<and> netErrorPosix ENOTSOCK = NetOtherError \<and>
   netErrorPosix EINVAL = NetOtherError"
  by (simp add: netErrorPosix_def)

end
