(* ===== verification/Net_Addr.thy ===== *)
theory Net_Addr
  imports Net_Error
begin

text \<open>
  IPv4 socket addresses (\<^verbatim>\<open>net_addr.c\<close>): construction in host or network byte order,
  comparison, validity, name resolution and the choice of the local interface. The resolver
  and the interface list of the operating system are arguments of the functions that call
  them.
\<close>

section \<open>Definitions\<close>

record net_addr_t =
  sin_family :: u16
  sin_port :: u16
  sin_addr :: u32
  sin_zero :: "u8 list"

abbreviation (input) AF_INET :: u16 where "AF_INET \<equiv> 2"

definition htons :: "endian \<Rightarrow> u16 \<Rightarrow> u16" where
  "htons e v = (case e of LittleEndian \<Rightarrow> push_bit 8 v OR drop_bit 8 v | BigEndian \<Rightarrow> v)"

definition htonl :: "endian \<Rightarrow> u32 \<Rightarrow> u32" where
  "htonl e v =
     (case e of
        LittleEndian \<Rightarrow>
          push_bit 24 v OR push_bit 16 (take_bit 8 (drop_bit 8 v))
            OR push_bit 8 (take_bit 8 (drop_bit 16 v)) OR drop_bit 24 v
      | BigEndian \<Rightarrow> v)"

abbreviation (input) "ntohs \<equiv> htons"
abbreviation (input) "ntohl \<equiv> htonl"

text \<open>The all-zero structure left by \<^verbatim>\<open>memset\<close> or \<^verbatim>\<open>bzero\<close>.\<close>

definition sockaddr_zero :: net_addr_t where
  "sockaddr_zero = \<lparr>sin_family = 0, sin_port = 0, sin_addr = 0, sin_zero = replicate 8 0\<rparr>"

definition net_addr_set :: "endian \<Rightarrow> u32 \<Rightarrow> u16 \<Rightarrow> bool \<Rightarrow> net_addr_t" where
  "net_addr_set e host port doHostToNetwork =
     sockaddr_zero\<lparr>
       sin_family := AF_INET,
       sin_port := (if doHostToNetwork then htons e port else port),
       sin_addr := (if doHostToNetwork then htonl e host else host)\<rparr>"

definition net_addr_zero :: "endian \<Rightarrow> net_addr_t" where
  "net_addr_zero e = net_addr_set e 0 0 True"

definition net_addr_copy :: "net_addr_t \<Rightarrow> net_addr_t \<Rightarrow> net_addr_t" where
  "net_addr_copy dest src = (let dest = sockaddr_zero; dest = src in dest)"

definition net_addr_get_host :: "endian \<Rightarrow> net_addr_t \<Rightarrow> u32" where
  "net_addr_get_host e addr = ntohl e (sin_addr addr)"

definition net_addr_get_port :: "endian \<Rightarrow> net_addr_t \<Rightarrow> u16" where
  "net_addr_get_port e addr = ntohs e (sin_port addr)"

definition net_addr_is_equal :: "net_addr_t \<Rightarrow> net_addr_t \<Rightarrow> bool" where
  "net_addr_is_equal addrA addrB \<longleftrightarrow>
     sin_family addrA = sin_family addrB \<and> sin_port addrA = sin_port addrB \<and>
     sin_addr addrA = sin_addr addrB"

definition net_addr_is_valid :: "net_addr_t \<Rightarrow> bool" where
  "net_addr_is_valid addr \<longleftrightarrow> net_addr_is_equal addr sockaddr_zero = False"

text \<open>
  Resolution. \<open>getaddrinfo\<close> maps a name to its result code and the list of IPv4
  addresses; \<open>getnameinfo\<close> maps an address to its result code and the host name buffer.
  The loop takes the first address with a non-empty name and gives up at the first failing
  inverse lookup.
\<close>

fun net_addr_resolve_loop ::
    "(net_addr_t \<Rightarrow> PosixError \<times> u8 list) \<Rightarrow> net_addr_t \<Rightarrow> net_addr_t list \<Rightarrow> NetError + net_addr_t" where
  "net_addr_resolve_loop getnameinfo addr [] = Inr addr"
| "net_addr_resolve_loop getnameinfo addr (res # rest) =
     (let (posixError, hostaddr) = getnameinfo res
      in if posixError \<noteq> 0 then Inl (netErrorPosix posixError)
         else if c_str hostaddr \<noteq> [] then Inr (net_addr_copy addr res)
         else net_addr_resolve_loop getnameinfo addr rest)"

definition net_addr_resolve ::
    "endian \<Rightarrow> (u8 list \<Rightarrow> PosixError \<times> net_addr_t list) \<Rightarrow> (net_addr_t \<Rightarrow> PosixError \<times> u8 list) \<Rightarrow>
     net_addr_t \<Rightarrow> u8 list \<Rightarrow> u16 \<Rightarrow> NetError \<times> net_addr_t" where
  "net_addr_resolve e getaddrinfo getnameinfo addr name port =
     (let (posixError, result) = getaddrinfo name
      in if posixError \<noteq> 0 then (netErrorPosix posixError, addr)
         else case net_addr_resolve_loop getnameinfo addr result of
             Inl err \<Rightarrow> (err, addr)
           | Inr addr \<Rightarrow> (NetNoError, addr\<lparr>sin_port := htons e port\<rparr>))"

text \<open>One entry of the interface list; \<open>ifa_addr\<close> may be null.\<close>

record ifaddrs =
  ifa_addr :: "net_addr_t option"
  ifa_flags :: u32

abbreviation (input) IFF_UP :: u32 where "IFF_UP \<equiv> 0x1"
abbreviation (input) IFF_LOOPBACK :: u32 where "IFF_LOOPBACK \<equiv> 0x8"

fun net_addr_local_loop :: "net_addr_t \<Rightarrow> ifaddrs list \<Rightarrow> net_addr_t" where
  "net_addr_local_loop addr [] = addr"
| "net_addr_local_loop addr (ifa # rest) =
     (case ifa_addr ifa of
        None \<Rightarrow> net_addr_local_loop addr rest
      | Some s4 \<Rightarrow>
          if ifa_flags ifa AND IFF_UP = 0 \<or> ifa_flags ifa AND IFF_LOOPBACK \<noteq> 0
          then net_addr_local_loop addr rest
          else if sin_family s4 = AF_INET
          then net_addr_local_loop (net_addr_copy addr s4) rest
          else net_addr_local_loop addr rest)"

definition net_addr_local ::
    "PosixError \<times> ifaddrs list \<Rightarrow> net_addr_t \<Rightarrow> NetError \<times> net_addr_t" where
  "net_addr_local getifaddrs addr =
     (let (posixError, myaddrs) = getifaddrs
      in if posixError \<noteq> 0 then (netErrorPosix posixError, addr)
         else (NetNoError, net_addr_local_loop addr myaddrs))"

text \<open>An interface that is up, not a loopback, and has an IPv4 address.\<close>

definition usable_ipv4 :: "ifaddrs \<Rightarrow> bool" where
  "usable_ipv4 ifa \<longleftrightarrow>
     (case ifa_addr ifa of None \<Rightarrow> False | Some s4 \<Rightarrow> sin_family s4 = AF_INET) \<and>
     ifa_flags ifa AND IFF_UP \<noteq> 0 \<and> ifa_flags ifa AND IFF_LOOPBACK = 0"

text \<open>Where each bit of a swapped word comes from.\<close>

definition swap_bit32 :: "nat \<Rightarrow> nat" where
  "swap_bit32 n = (if n < 8 then n + 24 else if n < 16 then n + 8 else if n < 24 then n - 8 else n - 24)"

section \<open>Byte order\<close>

lemma htons_htons [simp]: "htons e (htons e v) = v"
  by (cases e) (auto simp: htons_def bit_simps intro!: bit_word_eqI dest: bit_imp_le_length)

lemma bit_htonl: "n < 32 \<Longrightarrow> bit (htonl LittleEndian v) n = bit v (swap_bit32 n)"
proof -
  assume "n < 32"
  then consider "n < 8" | "8 \<le> n" "n < 16" | "16 \<le> n" "n < 24" | "24 \<le> n" "n < 32"
    by linarith
  then show ?thesis
    by cases (auto simp: htonl_def swap_bit32_def bit_simps not_less add.commute
        dest: bit_imp_le_length)
qed

lemma swap_bit32_twice: "n < 32 \<Longrightarrow> swap_bit32 n < 32 \<and> swap_bit32 (swap_bit32 n) = n"
  by (auto simp: swap_bit32_def)

lemma htonl_htonl [simp]: "htonl e (htonl e v) = v"
proof (cases e)
  case LittleEndian
  have "bit (htonl LittleEndian (htonl LittleEndian v)) n = bit v n" if "n < 32" for n
    using that swap_bit32_twice [OF that] by (simp add: bit_htonl)
  with LittleEndian show ?thesis
    by (auto intro: bit_word_eqI)
qed (simp add: htonl_def)

lemma htons_inject [simp]: "htons e a = htons e b \<longleftrightarrow> a = b"
  by (metis htons_htons)

lemma htonl_inject [simp]: "htonl e a = htonl e b \<longleftrightarrow> a = b"
  by (metis htonl_htonl)

section \<open>Resolution and interfaces\<close>

lemma net_addr_resolve_loop_found:
  "(\<forall>r \<in> set rs. fst (gni r) = 0) \<Longrightarrow>
     net_addr_resolve_loop gni addr rs =
       Inr (case List.find (\<lambda>r. c_str (snd (gni r)) \<noteq> []) rs of None \<Rightarrow> addr | Some r \<Rightarrow> r)"
  by (induction rs) (auto simp: net_addr_copy_def split: prod.splits)

lemma net_addr_local_loop_last:
  "net_addr_local_loop addr ifs =
     (case filter usable_ipv4 ifs of [] \<Rightarrow> addr | _ \<Rightarrow> the (ifa_addr (last (filter usable_ipv4 ifs))))"
proof (induction ifs arbitrary: addr)
  case Nil
  then show ?case by simp
next
  case (Cons ifa ifs)
  show ?case
  proof (cases "usable_ipv4 ifa")
    case True
    then obtain s4 where s4: "ifa_addr ifa = Some s4" "sin_family s4 = AF_INET"
        "ifa_flags ifa AND IFF_UP \<noteq> 0" "ifa_flags ifa AND IFF_LOOPBACK = 0"
      by (auto simp: usable_ipv4_def split: option.splits)
    with True Cons.IH [of s4] show ?thesis
      by (auto simp: net_addr_copy_def split: list.splits)
  next
    case False
    with Cons.IH [of addr] show ?thesis
      by (auto simp: usable_ipv4_def net_addr_copy_def split: option.splits list.splits if_splits)
  qed
qed

section \<open>Properties\<close>

text \<open>
  An address built from a host and a port in host byte order gives both back, on either
  kind of target, and an address built in network byte order stores them unchanged; two
  addresses so built are equal only for the same host and port.
\<close>

theorem net_addr_set_get:
  "net_addr_get_host e (net_addr_set e h p True) = h \<and>
   net_addr_get_port e (net_addr_set e h p True) = p \<and>
   sin_addr (net_addr_set e h p False) = h \<and> sin_port (net_addr_set e h p False) = p \<and>
   (net_addr_is_equal (net_addr_set e h p b) (net_addr_set e h' p' b) \<longleftrightarrow> h = h' \<and> p = p')"
  by (auto simp: net_addr_set_def net_addr_get_host_def net_addr_get_port_def net_addr_is_equal_def)

text \<open>
  Validity. \<open>net_addr_is_valid\<close> is meant to reject an address of zeroes, but the address
  that \<open>net_addr_zero\<close> itself builds carries the family \<open>AF_INET\<close> and is accepted; what is
  rejected is exactly a structure whose family, port and host are all zero.
\<close>

theorem net_addr_zero_is_valid:
  "net_addr_is_valid (net_addr_zero e) \<and>
   (net_addr_is_valid a \<longleftrightarrow> sin_family a \<noteq> 0 \<or> sin_port a \<noteq> 0 \<or> sin_addr a \<noteq> 0)"
  by (auto simp: net_addr_is_valid_def net_addr_zero_def net_addr_set_def net_addr_is_equal_def
      sockaddr_zero_def)

text \<open>
  Resolution. If the forward lookup succeeds and no inverse lookup fails, the result is
  the first address that has a host name, with the requested port in network byte order; an
  address without any name leaves the previous host in place. If the forward lookup fails, the
  error is reported and the address is untouched.
\<close>

theorem net_addr_resolve_first_named:
  assumes "\<forall>r \<in> set (snd (gai name)). fst (gni r) = 0"
  shows "net_addr_resolve e gai gni addr name port =
    (if fst (gai name) \<noteq> 0 then (netErrorPosix (fst (gai name)), addr)
     else (NetNoError,
       (case List.find (\<lambda>r. c_str (snd (gni r)) \<noteq> []) (snd (gai name)) of
          None \<Rightarrow> addr | Some r \<Rightarrow> r)\<lparr>sin_port := htons e port\<rparr>))"
  using assms
  by (auto simp: net_addr_resolve_def net_addr_resolve_loop_found split: prod.splits)

theorem net_addr_resolve_first_named_witness:
  "net_addr_resolve LittleEndian (\<lambda>n. (0, [net_addr_set LittleEndian 7 0 True])) (\<lambda>r. (0, [97, 0]))
      (net_addr_zero LittleEndian) [104, 0] 80
    = (NetNoError, (net_addr_set LittleEndian 7 0 True)\<lparr>sin_port := htons LittleEndian 80\<rparr>)"
  using net_addr_resolve_first_named
    [of "\<lambda>n. (0, [net_addr_set LittleEndian 7 0 True])" "[104, 0]" "\<lambda>r. (0, [97, 0])" LittleEndian
      "net_addr_zero LittleEndian" 80]
  by (simp add: c_str_def)

text \<open>
  The local address is that of the last interface in the system's list that is up, is not
  a loopback and has an IPv4 address; without one it is left as it was, and the call still
  reports no error.
\<close>

theorem net_addr_local_last_usable:
  "net_addr_local (0, ifs) addr =
     (NetNoError,
      if filter usable_ipv4 ifs = [] then addr else the (ifa_addr (last (filter usable_ipv4 ifs))))"
  by (auto simp: net_addr_local_def net_addr_local_loop_last split: list.splits)

end
