(* ===== verification/Net_Packet.thy ===== *)
theory Net_Packet
  imports Bitstream Net_Addr
begin

text \<open>
  Packets (\<^verbatim>\<open>net_packet.c\<close>): an address, a block of \<^verbatim>\<open>kNetPacketMaxLen\<close> bytes, the
  length last sent or received and a byte stream over the block. The stream's \<^verbatim>\<open>data\<close>
  pointer always points at the packet's own array, so the bytes are kept once, in the stream.
\<close>

abbreviation (input) kNetPacketMaxLen :: size_t where "kNetPacketMaxLen \<equiv> 256"

record net_packet_s =
  pkt_addr :: net_addr_t
  pkt_length :: size_t
  pkt_bitstream :: bitstream_t

definition net_packet_init :: "net_packet_s option \<Rightarrow> net_packet_s option" where
  "net_packet_init p =
     (case p of
        None \<Rightarrow> None
      | Some p \<Rightarrow>
          Some (p\<lparr>pkt_bitstream := bitstream_create (bs_data (pkt_bitstream p)) kNetPacketMaxLen\<rparr>))"

definition net_packet_len :: "net_packet_s \<Rightarrow> size_t" where
  "net_packet_len p = pkt_length p"

definition net_packet_set_data :: "net_packet_s \<Rightarrow> u8 list \<Rightarrow> size_t \<Rightarrow> net_packet_s option" where
  "net_packet_set_data packet d n =
     (if n \<le> kNetPacketMaxLen
      then do {
        m \<leftarrow> mem_copy (bs_data (pkt_bitstream packet)) 0 d 0 n;
        Some (packet\<lparr>pkt_length := n,
                     pkt_bitstream := (pkt_bitstream packet)\<lparr>bs_data := m, bs_offset := n\<rparr>\<rparr>)
      }
      else Some packet)"

text \<open>\<open>inet_aton\<close> gives the address in network byte order, or nothing for a malformed host.\<close>

definition net_packet_set ::
    "endian \<Rightarrow> (u8 list \<Rightarrow> u32 option) \<Rightarrow> net_packet_s \<Rightarrow> u8 list \<Rightarrow> u16 \<Rightarrow> net_packet_s" where
  "net_packet_set e inet_aton p host port =
     (let a = sockaddr_zero\<lparr>sin_family := AF_INET, sin_port := htons e port, sin_addr := htonl e 0\<rparr>
      in p\<lparr>pkt_addr := (case inet_aton host of None \<Rightarrow> a | Some h \<Rightarrow> a\<lparr>sin_addr := h\<rparr>)\<rparr>)"

definition net_packet_addr :: "net_packet_s \<Rightarrow> net_addr_t \<Rightarrow> net_packet_s" where
  "net_packet_addr p addr = p\<lparr>pkt_addr := addr\<rparr>"

text \<open>A packet as the pool hands it out: its array has its declared size.\<close>

definition pkt_block :: "net_packet_s \<Rightarrow> bool" where
  "pkt_block p \<longleftrightarrow> length (bs_data (pkt_bitstream p)) = kNetPacketMaxLen"

definition pkt_wf :: "net_packet_s \<Rightarrow> bool" where
  "pkt_wf p \<longleftrightarrow> pkt_block p \<and> bs_bound (pkt_bitstream p) = kNetPacketMaxLen \<and>
     bs_offset (pkt_bitstream p) \<le> kNetPacketMaxLen"

lemma pkt_wf_bs_wf: "pkt_wf p \<Longrightarrow> bs_wf (pkt_bitstream p)"
  by (simp add: pkt_wf_def pkt_block_def bs_wf_def)

lemma net_packet_init_wf: "pkt_block p \<Longrightarrow> net_packet_init (Some p) = Some q \<Longrightarrow> pkt_wf q"
  by (auto simp: net_packet_init_def pkt_wf_def pkt_block_def bitstream_create_def)

text \<open>
  Payload round trip. Data of at most 256 bytes placed in an initialised packet is
  accepted, sets the length and the write position, and re-initialising the packet and reading
  that many bytes returns the data in order; longer data leaves the packet untouched.
\<close>

theorem net_packet_set_data_spec:
  assumes "pkt_wf p" "n \<le> length d"
  shows "net_packet_set_data p d n =
      (if n \<le> 256
       then Some (p\<lparr>pkt_length := n,
              pkt_bitstream := bs_put ((pkt_bitstream p)\<lparr>bs_offset := 0\<rparr>) (take n d)\<rparr>)
       else Some p) \<and>
    (\<forall>q. net_packet_set_data p d n = Some q \<longrightarrow>
       pkt_wf q \<and> (n \<le> 256 \<longrightarrow> net_packet_len q = n \<and> take n (bs_data (pkt_bitstream q)) = take n d))"
proof -
  have len: "length (bs_data (pkt_bitstream p)) = 256"
    using assms by (simp add: pkt_wf_def pkt_block_def)
  have "take n (overwrite (bs_data (pkt_bitstream p)) 0 (take n d)) = take n d" if "n \<le> 256"
    using that len assms(2) take_drop_overwrite [of 0 "take n d" "bs_data (pkt_bitstream p)"] by simp
  with assms len show ?thesis
    by (auto simp: net_packet_set_data_def mem_copy_def bs_put_def pkt_wf_def pkt_block_def
        net_packet_len_def min_def)
qed

theorem net_packet_set_data_spec_witness:
  "\<exists>q. net_packet_set_data
     \<lparr>pkt_addr = sockaddr_zero, pkt_length = 0, pkt_bitstream = bitstream_create (replicate 256 0) 256\<rparr>
     [1, 2, 3] 3 = Some q \<and> pkt_wf q \<and> net_packet_len q = 3"
proof -
  let ?p = "\<lparr>pkt_addr = sockaddr_zero, pkt_length = 0,
    pkt_bitstream = bitstream_create (replicate 256 0) 256\<rparr>"
  have "pkt_wf ?p"
    by (simp add: pkt_wf_def pkt_block_def bitstream_create_def)
  from net_packet_set_data_spec [OF this, of 3 "[1, 2, 3]"] show ?thesis
    by auto
qed

end
