(* ===== verification/Protocol.thy ===== *)
theory Protocol
  imports Net_Packet
begin

text \<open>
  The three-byte header every packet starts with (\<^verbatim>\<open>protocol.c\<close>): application id,
  version and kind of packet. A reader that expects other values stops at the first byte that
  differs.
\<close>

section \<open>Definitions\<close>

datatype UnpackResult = UnpackValid | UnpackUnexpected | UnpackInvalid

abbreviation (input) kProtocolMaxLength :: size_t where
  "kProtocolMaxLength \<equiv> kNetPacketMaxLen - 3"
abbreviation (input) kProtocolDefaultId :: u32 where "kProtocolDefaultId \<equiv> 0xa2"
abbreviation (input) kProtocolDefaultVersion :: u32 where "kProtocolDefaultVersion \<equiv> 0x01"
abbreviation (input) ProtocolTypeTransaction :: u32 where "ProtocolTypeTransaction \<equiv> 0x01"
abbreviation (input) ProtocolTypeStream :: u32 where "ProtocolTypeStream \<equiv> 0x05"

definition protocolPackHeader ::
    "bitstream_t \<Rightarrow> u32 \<Rightarrow> u32 \<Rightarrow> u32 \<Rightarrow> bitstream_t option" where
  "protocolPackHeader bitstream protocolId protocolVersion protocolType = do {
     bitstream \<leftarrow> bitstream_write_uint8 bitstream protocolId;
     bitstream \<leftarrow> bitstream_write_uint8 bitstream protocolVersion;
     bitstream_write_uint8 bitstream protocolType
   }"

definition protocolUnpackHeader ::
    "bitstream_t \<Rightarrow> u32 \<Rightarrow> u32 \<Rightarrow> u32 \<Rightarrow> (UnpackResult \<times> bitstream_t) option" where
  "protocolUnpackHeader bitstream protocolId protocolVersion protocolType = do {
     (readProtocolId, bitstream) \<leftarrow> bitstream_read_uint8 bitstream;
     if protocolId \<noteq> readProtocolId then Some (UnpackInvalid, bitstream)
     else do {
       (readProtocolVersion, bitstream) \<leftarrow> bitstream_read_uint8 bitstream;
       if protocolVersion \<noteq> readProtocolVersion then Some (UnpackInvalid, bitstream)
       else do {
         (readProtocolType, bitstream) \<leftarrow> bitstream_read_uint8 bitstream;
         if protocolType \<noteq> readProtocolType then Some (UnpackInvalid, bitstream)
         else Some (UnpackValid, bitstream)
       }
     }
   }"

definition enc_protocol_header :: "u32 \<Rightarrow> u32 \<Rightarrow> u32 \<Rightarrow> u8 list" where
  "enc_protocol_header i v t = enc_uint8 i @ enc_uint8 v @ enc_uint8 t"

section \<open>The header as a prefix of the packet\<close>

lemma length_enc_protocol_header [simp]: "length (enc_protocol_header i v t) = 3"
  by (simp add: enc_protocol_header_def)

text \<open>How a sequence of fields is read: what lies ahead, split at the field boundaries.\<close>

lemmas codec_room = bs_wf_put bs_room_put bs_put_put bs_room_def
lemmas codec_ahead = bs_at_append bs_adv_adv bs_wf_adv bs_room_def

lemma protocolPackHeader_room [write_simps]:
  assumes "bs_wf s" "bs_room s 3"
  shows "protocolPackHeader s i v t = Some (bs_put s (enc_protocol_header i v t))"
  using assms
  by (simp add: protocolPackHeader_def uint8.put_fits codec_room enc_protocol_header_def)

lemma protocolUnpackHeader_at [read_simps]:
  assumes "bs_wf s" "bs_at s (enc_protocol_header i v t)"
    and "unat i < 256" "unat v < 256" "unat t < 256"
  shows "protocolUnpackHeader s i v t = Some (UnpackValid, bs_adv s 3)"
  using assms bs_at_room [OF assms(2)]
  by (simp add: protocolUnpackHeader_def enc_protocol_header_def codec_ahead uint8.get_at)

text \<open>One byte as the readers see it: in range of the block it is always read.\<close>

lemma bitstream_read_uint8_room:
  "bs_wf s \<Longrightarrow> bs_room s 1 \<Longrightarrow>
     bitstream_read_uint8 s = Some (ucast (bs_data s ! bs_offset s), bs_adv s 1)"
  by (auto simp: bitstream_read_uint8_def get_byte_def bs_wf_def bs_room_def bs_adv_def)

section \<open>Properties\<close>

text \<open>
  The header check. On a stream with three bytes left the check reads nothing outside
  the packet and accepts exactly when the three bytes are the expected id, version and type;
  it consumes all three when it accepts and only the bytes up to the first mismatch otherwise.
\<close>

theorem protocolUnpackHeader_exact:
  assumes "bs_wf s" "bs_room s 3"
  shows "protocolUnpackHeader s i v t =
    (let b = (\<lambda>k. ucast (bs_data s ! (bs_offset s + k)))
     in if b 0 \<noteq> i then Some (UnpackInvalid, bs_adv s 1)
        else if b 1 \<noteq> v then Some (UnpackInvalid, bs_adv s 2)
        else if b 2 \<noteq> t then Some (UnpackInvalid, bs_adv s 3)
        else Some (UnpackValid, bs_adv s 3))"
  using assms
  by (auto simp: protocolUnpackHeader_def bitstream_read_uint8_room codec_ahead Let_def
      numeral_2_eq_2 numeral_3_eq_3)

theorem protocolUnpackHeader_exact_witness:
  "protocolUnpackHeader (bitstream_create [0xa2, 1, 5] 3) 0xa2 1 5 =
     Some (UnpackValid, bs_adv (bitstream_create [0xa2, 1, 5] 3) 3) \<and>
   protocolUnpackHeader (bitstream_create [0xa2, 7, 5] 3) 0xa2 1 5 =
     Some (UnpackInvalid, bs_adv (bitstream_create [0xa2, 7, 5] 3) 2)"
  using protocolUnpackHeader_exact [of "bitstream_create [0xa2, 1, 5] 3" "0xa2" 1 5]
    protocolUnpackHeader_exact [of "bitstream_create [0xa2, 7, 5] 3" "0xa2" 1 5]
  by (simp add: bs_wf_def bs_room_def bitstream_create_def)

end
