(* ===== verification/Stream_Protocol.thy ===== *)
theory Stream_Protocol
  imports Protocol
begin

text \<open>
  Stream packets (\<^verbatim>\<open>stream_protocol.c\<close>): the header with sequence number,
  acknowledgement and acknowledgement bit field, and the application data with its tag and
  length. Pointer arguments that receive a result are passed in and returned.
\<close>

section \<open>Definitions\<close>

abbreviation (input) kStreamObjectDataMaxLength :: size_t where
  "kStreamObjectDataMaxLength \<equiv> kProtocolMaxLength - 22"

type_synonym Sequence = u32
type_synonym Ack = u32
type_synonym AckBitField = u32

definition streamProtocolPackHeader ::
    "endian \<Rightarrow> bitstream_t \<Rightarrow> Sequence \<Rightarrow> Ack \<Rightarrow> AckBitField \<Rightarrow> bitstream_t option" where
  "streamProtocolPackHeader e bitstream sequence ack ackBitField = do {
     bitstream \<leftarrow> protocolPackHeader bitstream kProtocolDefaultId kProtocolDefaultVersion ProtocolTypeStream;
     bitstream \<leftarrow> bitstream_write_uint32 e bitstream sequence;
     bitstream \<leftarrow> bitstream_write_uint32 e bitstream ack;
     bitstream_write_uint32 e bitstream ackBitField
   }"

definition streamProtocolUnpackHeader ::
    "endian \<Rightarrow> bitstream_t \<Rightarrow> Sequence \<Rightarrow> Ack \<Rightarrow> AckBitField \<Rightarrow>
     (UnpackResult \<times> Sequence \<times> Ack \<times> AckBitField \<times> bitstream_t) option" where
  "streamProtocolUnpackHeader e bitstream sequence ack ackBitField = do {
     (result, bitstream) \<leftarrow>
       protocolUnpackHeader bitstream kProtocolDefaultId kProtocolDefaultVersion ProtocolTypeStream;
     if result \<noteq> UnpackValid then Some (UnpackInvalid, sequence, ack, ackBitField, bitstream)
     else do {
       (sequence, bitstream) \<leftarrow> bitstream_read_uint32 e bitstream;
       (ack, bitstream) \<leftarrow> bitstream_read_uint32 e bitstream;
       (ackBitField, bitstream) \<leftarrow> bitstream_read_uint32 e bitstream;
       Some (UnpackValid, sequence, ack, ackBitField, bitstream)
     }
   }"

record StreamObject =
  so_data :: "u8 list"
  so_length :: u32
  so_tag :: u64

definition streamObjectSetup :: "StreamObject \<Rightarrow> StreamObject" where
  "streamObjectSetup object = object\<lparr>so_length := 0, so_tag := 0\<rparr>"

text \<open>The sum of the two lengths is an \<^verbatim>\<open>unsigned int\<close> and wraps.\<close>

definition streamObjectCopyData :: "StreamObject \<Rightarrow> u8 list \<Rightarrow> u32 \<Rightarrow> StreamObject option" where
  "streamObjectCopyData object src n =
     (if so_length object + n \<le> of_nat kStreamObjectDataMaxLength
      then do {
        d \<leftarrow> mem_copy (so_data object) (unat (so_length object)) src 0 (unat n);
        Some (object\<lparr>so_data := d, so_length := so_length object + n\<rparr>)
      }
      else Some object)"

definition streamProtocolPackData ::
    "endian \<Rightarrow> bitstream_t \<Rightarrow> StreamObject \<Rightarrow> bitstream_t option" where
  "streamProtocolPackData e bitstream object = do {
     bitstream \<leftarrow> bitstream_write_uint64 e bitstream (so_tag object);
     bitstream \<leftarrow> bitstream_write_uint16 e bitstream (so_length object);
     (_, bitstream) \<leftarrow> bitstream_write_bytes e bitstream (so_data object) (unat (so_length object));
     Some bitstream
   }"

definition streamProtocolUnpackData ::
    "endian \<Rightarrow> bitstream_t \<Rightarrow> StreamObject \<Rightarrow> (UnpackResult \<times> StreamObject \<times> bitstream_t) option" where
  "streamProtocolUnpackData e bitstream object = do {
     let unpackResult = UnpackValid;
     (tag, bitstream) \<leftarrow> bitstream_read_uint64 e bitstream;
     let object = object\<lparr>so_tag := tag\<rparr>;
     (len, bitstream) \<leftarrow> bitstream_read_uint16 e bitstream;
     let object = object\<lparr>so_length := len\<rparr>;
     (_, d, bitstream) \<leftarrow> bitstream_read_bytes e bitstream (so_data object) (unat (so_length object));
     let object = object\<lparr>so_data := d\<rparr>;
     Some (unpackResult, object, bitstream)
   }"

text \<open>An object as declared: an array of its maximum size, of which \<open>length\<close> bytes are used.\<close>

definition so_wf :: "StreamObject \<Rightarrow> bool" where
  "so_wf o1 \<longleftrightarrow> length (so_data o1) = kStreamObjectDataMaxLength \<and> unat (so_length o1) \<le> kStreamObjectDataMaxLength"

definition so_payload :: "StreamObject \<Rightarrow> u8 list" where
  "so_payload o1 = take (unat (so_length o1)) (so_data o1)"

text \<open>The wire format of the two parts.\<close>

definition enc_stream_header :: "endian \<Rightarrow> Sequence \<times> Ack \<times> AckBitField \<Rightarrow> u8 list" where
  "enc_stream_header e h =
     (case h of (sq, ack, bits) \<Rightarrow>
        enc_protocol_header kProtocolDefaultId kProtocolDefaultVersion ProtocolTypeStream
          @ enc_uint32 e sq @ enc_uint32 e ack @ enc_uint32 e bits)"

definition enc_stream_data :: "endian \<Rightarrow> StreamObject \<Rightarrow> u8 list" where
  "enc_stream_data e o1 =
     enc_uint64 e (so_tag o1) @ enc_uint16 e (so_length o1) @ swap_on e (so_payload o1)"

section \<open>The header\<close>

lemma length_enc_stream [simp]:
  "length (enc_stream_header e h) = 15"
  "so_wf o1 \<Longrightarrow> length (enc_stream_data e o1) = 10 + unat (so_length o1)"
  by (simp_all add: enc_stream_header_def enc_stream_data_def so_payload_def so_wf_def
      split: prod.splits)

lemma streamProtocolUnpackHeader_at:
  assumes "bs_wf s" "bs_at s (enc_stream_header e (sq, ack, bits))"
  shows "streamProtocolUnpackHeader e s sq0 ack0 bits0 = Some (UnpackValid, sq, ack, bits, bs_adv s 15)"
  using assms bs_at_room [OF assms(2)]
  by (clarsimp simp: streamProtocolUnpackHeader_def enc_stream_header_def codec_ahead
      protocolUnpackHeader_at uint32.get_at)

interpretation stream_header: field_codec "enc_stream_header e"
    "\<lambda>s (sq, ack, bits). streamProtocolPackHeader e s sq ack bits"
    "\<lambda>s. do { (r, sq, ack, bits, s) \<leftarrow> streamProtocolUnpackHeader e s sq0 ack0 bits0;
              if r = UnpackValid then Some ((sq, ack, bits), s) else None }"
    "\<lambda>_. True" for e sq0 ack0 bits0
proof unfold_locales
  fix s and v :: "Sequence \<times> Ack \<times> AckBitField"
  assume wf: "bs_wf s"
  obtain sq ack bits where v: "v = (sq, ack, bits)"
    by (cases v)
  show "bs_room s (length (enc_stream_header e v)) \<Longrightarrow>
      (case v of (sq, ack, bits) \<Rightarrow> streamProtocolPackHeader e s sq ack bits)
        = Some (bs_put s (enc_stream_header e v))"
    using wf v
    by (simp add: streamProtocolPackHeader_def enc_stream_header_def write_simps uint32.put_fits
        codec_room)
  show "bs_at s (enc_stream_header e v) \<Longrightarrow>
      do { (r, sq, ack, bits, s) \<leftarrow> streamProtocolUnpackHeader e s sq0 ack0 bits0;
           if r = UnpackValid then Some ((sq, ack, bits), s) else None }
        = Some (v, bs_adv s (length (enc_stream_header e v)))"
    using wf v by (simp add: streamProtocolUnpackHeader_at)
qed

section \<open>The data\<close>

lemma so_wf_length16: "so_wf o1 \<Longrightarrow> unat (so_length o1) < 2 ^ 16"
  by (simp add: so_wf_def)

lemma streamProtocolPackData_room:
  assumes "bs_wf s" "so_wf o1" "bs_room s (10 + unat (so_length o1))"
  shows "streamProtocolPackData e s o1 = Some (bs_put s (enc_stream_data e o1))"
  using assms
  by (simp add: streamProtocolPackData_def enc_stream_data_def uint64.put_fits uint16.put_fits
      bitstream_write_bytes_room codec_room so_wf_def so_payload_def)

lemma streamProtocolUnpackData_at:
  assumes "bs_wf s" "so_wf o1" "bs_at s (enc_stream_data e o1)"
    and "length (so_data o0) = kStreamObjectDataMaxLength"
  shows "streamProtocolUnpackData e s o0 =
    Some (UnpackValid,
      o0\<lparr>so_tag := so_tag o1, so_length := so_length o1,
         so_data := overwrite (so_data o0) 0 (so_payload o1)\<rparr>,
      bs_adv s (10 + unat (so_length o1)))"
proof -
  let ?n = "unat (so_length o1)"
  have n: "length (so_payload o1) = ?n" "?n \<le> length (so_data o0)"
    using assms by (simp_all add: so_wf_def so_payload_def)
  have "bitstream_read_bytes e (bs_adv s 10) (so_data o0) ?n
      = Some (?n, overwrite (so_data o0) 0 (so_payload o1), bs_adv (bs_adv s 10) ?n)"
    using assms bs_at_room [OF assms(3)] n
    by (intro bitstream_read_bytes_at) (simp_all add: enc_stream_data_def codec_ahead)
  then show ?thesis
    using assms bs_at_room [OF assms(3)] so_wf_length16 [OF assms(2)]
    by (clarsimp simp: streamProtocolUnpackData_def enc_stream_data_def codec_ahead uint64.get_at
        uint16.get_at)
qed

text \<open>Any two or eight bytes decode to some value, so reads inside the block are total.\<close>

lemma get_byte_room:
  "bs_wf s \<Longrightarrow> bs_room s 1 \<Longrightarrow> get_byte s = Some (bs_data s ! bs_offset s, bs_adv s 1)"
  by (auto simp: get_byte_def bs_wf_def bs_room_def bs_adv_def)

lemma read_uint_room:
  assumes "bs_wf s"
  shows "bs_room s 2 \<Longrightarrow> \<exists>v. bitstream_read_uint16 e s = Some (v, bs_adv s 2) \<and> unat v < 2 ^ 16"
    and "bs_room s 4 \<Longrightarrow> \<exists>v. bitstream_read_uint32 e s = Some (v, bs_adv s 4)"
    and "bs_room s 8 \<Longrightarrow> \<exists>w. bitstream_read_uint64 e s = Some (w, bs_adv s 8)"
proof -
  have or16: "unat (push_bit 8 (ucast (a :: u8)) OR ucast (b :: u8) :: u32) < 2 ^ 16" for a b
  proof -
    have "take_bit 16 (push_bit 8 (ucast a) OR ucast b :: u32) = push_bit 8 (ucast a) OR ucast b"
      by (rule bit_word_eqI) (auto simp: bit_simps dest: bit_imp_le_length)
    then have "unat (push_bit 8 (ucast a) OR ucast b :: u32)
        = take_bit 16 (unat (push_bit 8 (ucast a) OR ucast b :: u32))"
      using unsigned_take_bit_eq [of 16 "push_bit 8 (ucast a) OR ucast b :: u32"] by simp
    then show ?thesis
      using take_bit_nat_less_exp [of 16] by metis
  qed
  then have or16': "unat (ucast (b :: u8) OR push_bit 8 (ucast (a :: u8)) :: u32) < 2 ^ 16" for a b
    by (subst or.commute)
  show "bs_room s 2 \<Longrightarrow> \<exists>v. bitstream_read_uint16 e s = Some (v, bs_adv s 2) \<and> unat v < 2 ^ 16"
    using assms or16 or16'
    by (cases e) (auto simp: bitstream_read_uint16_def get_byte_room codec_ahead)
  show "bs_room s 4 \<Longrightarrow> \<exists>v. bitstream_read_uint32 e s = Some (v, bs_adv s 4)"
    using assms by (simp add: bitstream_read_uint32_def get_byte_room codec_ahead)
  show "bs_room s 8 \<Longrightarrow> \<exists>w. bitstream_read_uint64 e s = Some (w, bs_adv s 8)"
    using assms by (simp add: bitstream_read_uint64_def get_byte_room codec_ahead)
qed

section \<open>Properties\<close>

text \<open>
  (C23) Stream packet round trip. A header and an object packed one after the other into a
  stream with room for them are unpacked as valid with the same sequence number,
  acknowledgement, bit field, tag, length and payload, whatever the receiver's object held.
\<close>

theorem stream_packet_roundtrip:
  assumes "bs_wf s" "so_wf o1" "bs_room s (25 + unat (so_length o1))"
    and "length (so_data o0) = kStreamObjectDataMaxLength"
  shows "\<exists>s' o2. (streamProtocolPackHeader e s sq ack bits \<bind> (\<lambda>s. streamProtocolPackData e s o1)) = Some s' \<and>
      do { (r, sq, ack, bits, s) \<leftarrow> streamProtocolUnpackHeader e (s'\<lparr>bs_offset := bs_offset s\<rparr>) sq0 ack0 bits0;
           (r', ob, s) \<leftarrow> streamProtocolUnpackData e s o0;
           Some (r, sq, ack, bits, r', ob, s) }
      = Some (UnpackValid, sq, ack, bits, UnpackValid, o2, s') \<and>
      so_tag o2 = so_tag o1 \<and> so_length o2 = so_length o1 \<and> so_payload o2 = so_payload o1"
proof -
  let ?h = "enc_stream_header e (sq, ack, bits)" and ?d = "enc_stream_data e o1"
  let ?s = "(bs_put s (?h @ ?d))\<lparr>bs_offset := bs_offset s\<rparr>"
  have room: "bs_room s (length (?h @ ?d))" "bs_room s 15"
    using assms by (simp_all add: bs_room_def)
  have wf: "bs_wf ?s" and ahead: "bs_at ?s ?h" "bs_at (bs_adv ?s 15) ?d"
    using assms(1) room bs_at_put [of s "?h @ ?d"] bs_wf_rewind [of s "?h @ ?d"]
    by (auto simp: bs_at_append)
  have pack: "streamProtocolPackHeader e s sq ack bits = Some (bs_put s ?h)"
    using stream_header.put_fits [of s e "(sq, ack, bits)"] assms(1) room by simp
  have "streamProtocolPackData e (bs_put s ?h) o1 = Some (bs_put s (?h @ ?d))"
    using assms room by (simp add: streamProtocolPackData_room codec_room)
  moreover have "bs_wf (bs_adv ?s 15)"
    using bs_at_wf_adv [OF wf ahead(1)] by simp
  moreover have "bs_adv ?s (25 + unat (so_length o1)) = bs_put s (?h @ ?d)"
    using bs_put_rewind [of s "?h @ ?d"] assms(2) by simp
  moreover have "so_payload (o0\<lparr>so_tag := so_tag o1, so_length := so_length o1,
      so_data := overwrite (so_data o0) 0 (so_payload o1)\<rparr>) = so_payload o1"
    using assms by (simp add: so_payload_def so_wf_def overwrite_def)
  ultimately show ?thesis
    using assms(2,4) wf ahead pack
    by (simp add: streamProtocolUnpackHeader_at streamProtocolUnpackData_at bs_adv_adv)
qed

theorem stream_packet_roundtrip_witness:
  "\<exists>s' o2. (streamProtocolPackHeader LittleEndian (bitstream_create (replicate 256 0) 256) 7 6 5 \<bind>
        (\<lambda>s. streamProtocolPackData LittleEndian s
          \<lparr>so_data = 9 # replicate 230 0, so_length = 1, so_tag = 77\<rparr>)) = Some s' \<and>
      do { (r, sq, ack, bits, s) \<leftarrow> streamProtocolUnpackHeader LittleEndian (s'\<lparr>bs_offset := 0\<rparr>) 0 0 0;
           (r', ob, s) \<leftarrow> streamProtocolUnpackData LittleEndian s
             \<lparr>so_data = replicate 231 0, so_length = 0, so_tag = 0\<rparr>;
           Some (r, sq, ack, bits, r', ob, s) }
      = Some (UnpackValid, 7, 6, 5, UnpackValid, o2, s') \<and>
      so_tag o2 = 77 \<and> so_length o2 = 1 \<and> so_payload o2 = [9]"
proof -
  have o1: "so_payload \<lparr>so_data = 9 # replicate 230 0, so_length = 1, so_tag = 77\<rparr> = [9]"
    by (simp add: so_payload_def)
  show ?thesis
    using stream_packet_roundtrip [of "bitstream_create (replicate 256 0) 256"
        "\<lparr>so_data = 9 # replicate 230 0, so_length = 1, so_tag = 77\<rparr>"
        "\<lparr>so_data = replicate 231 0, so_length = 0, so_tag = 0\<rparr>" LittleEndian 7 6 5 0 0 0,
        unfolded o1]
    by (simp add: bs_wf_def bs_room_def bitstream_create_def so_wf_def)
qed

text \<open>
  Unpacking is memory safe for every packet content. Behind the header of a full packet,
  whatever the 241 remaining bytes are, the data part is unpacked without an access outside
  the packet or the object. The call always reports a valid packet: when the length on the
  wire exceeds the 231 bytes left, no data is read and the object keeps its old bytes, but it
  carries the length from the wire.
\<close>

theorem streamProtocolUnpackData_total:
  assumes "length (bs_data s) = 256" "bs_bound s = 256" "bs_offset s = 15"
    and "length (so_data o0) = 231"
  shows "\<exists>tag len s'. streamProtocolUnpackData e s o0 =
      Some (UnpackValid,
        \<lparr>so_data = (if unat len \<le> 231
                    then overwrite (so_data o0) 0 (swap_on e (take (unat len) (drop 25 (bs_data s))))
                    else so_data o0),
         so_length = len, so_tag = tag\<rparr>, s') \<and> bs_wf s' \<and> (\<exists>n. s' = bs_adv s n) \<and>
      bitstream_read_uint64 e s = Some (tag, bs_adv s 8) \<and>
      bitstream_read_uint16 e (bs_adv s 8) = Some (len, bs_adv s 10)"
proof -
  have wf: "bs_wf s" and room: "bs_room s 8" "bs_room (bs_adv s 8) 2"
    using assms by (simp_all add: bs_wf_def bs_room_def)
  have wf': "bs_wf (bs_adv s 8)" "bs_wf (bs_adv s 10)"
    using assms by (simp_all add: bs_wf_def)
  obtain tag where tag: "bitstream_read_uint64 e s = Some (tag, bs_adv s 8)"
    using read_uint_room(3) [OF wf room(1)] by blast
  obtain len where len: "bitstream_read_uint16 e (bs_adv s 8) = Some (len, bs_adv s 10)"
    using read_uint_room(1) [OF wf'(1) room(2), of e] by (auto simp: bs_adv_adv)
  show ?thesis
  proof (cases "unat len \<le> 231")
    case True
    with wf' assms len tag show ?thesis
      by (intro exI [of _ tag] exI [of _ len] exI [of _ "bs_adv (bs_adv s 10) (unat len)"], cases o0)
        (auto simp: streamProtocolUnpackData_def bitstream_read_bytes_room bs_room_def bs_wf_def bs_adv_adv)
  next
    case False
    with wf' assms len tag show ?thesis
      by (intro exI [of _ tag] exI [of _ len] exI [of _ "bs_adv s 10"], cases o0)
        (auto simp: streamProtocolUnpackData_def bitstream_read_bytes_short bs_room_def)
  qed
qed

theorem streamProtocolUnpackData_total_witness:
  "\<exists>tag len s' d. streamProtocolUnpackData BigEndian
      ((bitstream_create (replicate 256 255) 256)\<lparr>bs_offset := 15\<rparr>)
      \<lparr>so_data = replicate 231 0, so_length = 0, so_tag = 0\<rparr>
    = Some (UnpackValid, \<lparr>so_data = d, so_length = len, so_tag = tag\<rparr>, s') \<and> bs_wf s'"
  using streamProtocolUnpackData_total [of "(bitstream_create (replicate 256 255) 256)\<lparr>bs_offset := 15\<rparr>"
      "\<lparr>so_data = replicate 231 0, so_length = 0, so_tag = 0\<rparr>" BigEndian]
  by (fastforce simp: bitstream_create_def)

text \<open>
  Appending to an object. Data that fits behind what the object holds is appended to its
  payload and the object stays within its array; data that does not fit is refused without a
  change. The check is made on the 32-bit sum: a length so large that the sum wraps passes it,
  and the copy then leaves the array.
\<close>

theorem streamObjectCopyData_spec:
  assumes "so_wf o1" "unat n \<le> length src"
  shows "streamObjectCopyData o1 src n =
      (if unat (so_length o1) + unat n \<le> 231
       then Some (o1\<lparr>so_data := overwrite (so_data o1) (unat (so_length o1)) (take (unat n) src),
                     so_length := so_length o1 + n\<rparr>)
       else if unat (so_length o1) + unat n < 2 ^ 32 then Some o1 else None) \<and>
    (\<forall>o2. unat (so_length o1) + unat n \<le> 231 \<and> streamObjectCopyData o1 src n = Some o2 \<longrightarrow>
       so_wf o2 \<and> so_payload o2 = so_payload o1 @ take (unat n) src)"
proof -
  let ?l = "unat (so_length o1)" and ?n = "unat n"
  have len: "length (so_data o1) = 231" "?l \<le> 231"
    using assms by (simp_all add: so_wf_def)
  have sum: "unat (so_length o1 + n) = (?l + ?n) mod 2 ^ 32"
    by (simp add: unat_word_ariths)
  have guard: "so_length o1 + n \<le> of_nat 231 \<longleftrightarrow> (?l + ?n) mod 2 ^ 32 \<le> 231"
    using sum by (simp add: word_le_nat_alt)
  have wrap: "(?l + ?n) mod 2 ^ 32 \<le> 231" if "\<not> ?l + ?n < 2 ^ 32"
  proof -
    have "?n < 2 ^ 32"
      using unsigned_less [of n] by simp
    then have "(?l + ?n) mod 2 ^ 32 = ?l + ?n - 2 ^ 32"
      using that len(2) by (simp add: mod_if)
    then show ?thesis
      using len(2) \<open>?n < 2 ^ 32\<close> by linarith
  qed
  have eq: "streamObjectCopyData o1 src n =
      (if ?l + ?n \<le> 231
       then Some (o1\<lparr>so_data := overwrite (so_data o1) ?l (take ?n src), so_length := so_length o1 + n\<rparr>)
       else if ?l + ?n < 2 ^ 32 then Some o1 else None)"
    unfolding streamObjectCopyData_def using len assms(2) wrap guard by (auto simp: mem_copy_def)
  moreover have "take (?l + ?n) (overwrite (so_data o1) ?l (take ?n src)) = take ?l (so_data o1) @ take ?n src"
    if "?l + ?n \<le> 231"
    using that len assms(2) by (simp add: overwrite_def)
  ultimately show ?thesis
    using len sum assms(2) by (auto simp: so_wf_def so_payload_def)
qed

theorem streamObjectCopyData_spec_witness:
  "\<exists>o2. streamObjectCopyData \<lparr>so_data = 4 # replicate 230 0, so_length = 1, so_tag = 0\<rparr> [5, 6] 2 = Some o2 \<and>
     so_wf o2 \<and> so_payload o2 = [4, 5, 6]"
  using streamObjectCopyData_spec [of "\<lparr>so_data = 4 # replicate 230 0, so_length = 1, so_tag = 0\<rparr>" 2 "[5, 6]"]
  by (simp add: so_wf_def so_payload_def overwrite_def)

end
