(* ===== verification/Stun_Protocol.thy ===== *)
theory Stun_Protocol
  imports Stream_Protocol
begin

text \<open>
  STUN messages (\<^verbatim>\<open>stun_protocol.c\<close>): the header with the interleaved type and class
  bits, the binding requests, the attributes of a binding response and the loop over its body.
  The integer result codes are those of the header file.
\<close>

section \<open>Definitions\<close>

abbreviation (input) StunMsgClassRequest :: u32 where "StunMsgClassRequest \<equiv> 0x00"
abbreviation (input) StunMsgClassIndication :: u32 where "StunMsgClassIndication \<equiv> 0x01"
abbreviation (input) StunMsgClassSuccessResponse :: u32 where "StunMsgClassSuccessResponse \<equiv> 0x02"
abbreviation (input) StunMsgClassFailureResponse :: u32 where "StunMsgClassFailureResponse \<equiv> 0x03"
abbreviation (input) StunMsgClassInvalidMessageClass :: u32 where "StunMsgClassInvalidMessageClass \<equiv> 0xff"
abbreviation (input) StunMsgTypeBinding :: u32 where "StunMsgTypeBinding \<equiv> 0x0001"

abbreviation (input) StunAttributeMappedAddress :: u32 where "StunAttributeMappedAddress \<equiv> 0x0001"
abbreviation (input) StunAttributeXorMappedAddress :: u32 where "StunAttributeXorMappedAddress \<equiv> 0x0020"
abbreviation (input) StunAttributeAlternateServer :: u32 where "StunAttributeAlternateServer \<equiv> 0x8023"
abbreviation (input) StunAttributeOtherAddress :: u32 where "StunAttributeOtherAddress \<equiv> 0x802c"
abbreviation (input) StunAttributeOriginServer :: u32 where "StunAttributeOriginServer \<equiv> 0x802b"
abbreviation (input) StunAttributeErrorCode :: u32 where "StunAttributeErrorCode \<equiv> 0x0009"
abbreviation (input) StunAttributeChangeRequest :: u32 where "StunAttributeChangeRequest \<equiv> 0x0003"

abbreviation (input) StunAddrFamilyIPv4 :: u32 where "StunAddrFamilyIPv4 \<equiv> 0x01"

abbreviation (input) kStunInvalid :: int where "kStunInvalid \<equiv> -1"
abbreviation (input) kStunUnexpected :: int where "kStunUnexpected \<equiv> 1"
abbreviation (input) kStunUnsupported :: int where "kStunUnsupported \<equiv> 3"
abbreviation (input) kStunValid :: int where "kStunValid \<equiv> 0"

definition mStunIsRequest :: "u32 \<Rightarrow> bool" where "mStunIsRequest t \<longleftrightarrow> t AND 0x0110 = 0x0000"
definition mStunIsIndication :: "u32 \<Rightarrow> bool" where "mStunIsIndication t \<longleftrightarrow> t AND 0x0110 = 0x0010"
definition mStunIsSuccessResponse :: "u32 \<Rightarrow> bool" where "mStunIsSuccessResponse t \<longleftrightarrow> t AND 0x0110 = 0x0100"
definition mStunIsErrorResponse :: "u32 \<Rightarrow> bool" where "mStunIsErrorResponse t \<longleftrightarrow> t AND 0x0110 = 0x0110"

abbreviation (input) kStunProtocolMagicCookie :: u32 where "kStunProtocolMagicCookie \<equiv> 0x2112A442"
abbreviation (input) kStunTransactionIdLen :: size_t where "kStunTransactionIdLen \<equiv> 12"

text \<open>The twelve bytes of a transaction id.\<close>

type_synonym StunTransactionId = "u8 list"

subsection \<open>Header\<close>

text \<open>The 16-bit type field that merges message type and class.\<close>

definition stun_type_field :: "u32 \<Rightarrow> u32 \<Rightarrow> u16" where
  "stun_type_field msgType msgClass =
     (let t = ucast (push_bit 2 (msgType AND 0x0f80)) :: u16;
          t = t OR ucast (push_bit 1 (msgType AND 0x0070));
          t = t OR ucast (msgType AND 0x000f);
          t = t OR ucast (push_bit 7 (msgClass AND 0x02));
          t = t OR ucast (push_bit 4 (msgClass AND 0x01))
      in t)"

definition stunProtocolPackHeader ::
    "endian \<Rightarrow> bitstream_t \<Rightarrow> u32 \<Rightarrow> u32 \<Rightarrow> StunTransactionId \<Rightarrow> u32 \<Rightarrow> bitstream_t option" where
  "stunProtocolPackHeader e bitstream msgType msgClass transactionId len = do {
     let type = stun_type_field msgType msgClass;
     bitstream \<leftarrow> bitstream_write_uint16 e bitstream (ucast type);
     bitstream \<leftarrow> bitstream_write_uint16 e bitstream len;
     bitstream \<leftarrow> bitstream_write_uint32 e bitstream kStunProtocolMagicCookie;
     (_, bitstream) \<leftarrow> bitstream_write_bytes e bitstream transactionId kStunTransactionIdLen;
     Some bitstream
   }"

definition stun_unpack_type :: "u32 \<Rightarrow> u32" where
  "stun_unpack_type t = ((t AND 0x000f) OR drop_bit 1 (t AND 0x00e0)) OR drop_bit 2 (t AND 0x3E00)"

definition stunProtocolUnpackHeader ::
    "endian \<Rightarrow> bitstream_t \<Rightarrow> u32 \<Rightarrow> StunTransactionId \<Rightarrow>
     (int \<times> u32 \<times> u32 \<times> StunTransactionId \<times> u32 \<times> bitstream_t) option" where
  "stunProtocolUnpackHeader e bitstream len transactionId = do {
     (type, bitstream) \<leftarrow> bitstream_read_uint16 e bitstream;
     let msgType = stun_unpack_type type;
     case (if mStunIsRequest type then Some StunMsgClassRequest
           else if mStunIsIndication type then Some StunMsgClassIndication
           else if mStunIsSuccessResponse type then Some StunMsgClassSuccessResponse
           else if mStunIsErrorResponse type then Some StunMsgClassFailureResponse
           else None) of
       None \<Rightarrow> Some (kStunInvalid, msgType, StunMsgClassInvalidMessageClass, transactionId, len, bitstream)
     | Some msgClass \<Rightarrow> do {
         (len, bitstream) \<leftarrow> bitstream_read_uint16 e bitstream;
         (magic_cookie, bitstream) \<leftarrow> bitstream_read_uint32 e bitstream;
         if magic_cookie \<noteq> kStunProtocolMagicCookie
         then Some (kStunInvalid, msgType, msgClass, transactionId, len, bitstream)
         else do {
           (_, transactionId, bitstream) \<leftarrow>
             bitstream_read_bytes e bitstream transactionId kStunTransactionIdLen;
           Some (kStunValid, msgType, msgClass, transactionId, len, bitstream)
         }
       }
   }"

subsection \<open>Requests\<close>

definition stunProtocolPackAttributeChangeAddr ::
    "endian \<Rightarrow> bitstream_t \<Rightarrow> bool \<Rightarrow> bool \<Rightarrow> bitstream_t option" where
  "stunProtocolPackAttributeChangeAddr e bitstream doChangeHost doChangePort = do {
     let changeData = 0;
     let changeData = (if doChangeHost then changeData OR 0x04 else changeData);
     let changeData = (if doChangePort then changeData OR 0x02 else changeData);
     bitstream \<leftarrow> bitstream_write_uint16 e bitstream StunAttributeChangeRequest;
     bitstream \<leftarrow> bitstream_write_uint16 e bitstream 0x0004;
     bitstream_write_uint32 e bitstream changeData
   }"

definition stunProtocolPackBindingRequest ::
    "endian \<Rightarrow> bitstream_t \<Rightarrow> StunTransactionId \<Rightarrow> bitstream_t option" where
  "stunProtocolPackBindingRequest e bitstream transactionId =
     stunProtocolPackHeader e bitstream StunMsgTypeBinding StunMsgClassRequest transactionId 0"

definition stunProtocolPackBindingChangeRequest ::
    "endian \<Rightarrow> bitstream_t \<Rightarrow> StunTransactionId \<Rightarrow> bool \<Rightarrow> bool \<Rightarrow> bitstream_t option" where
  "stunProtocolPackBindingChangeRequest e bitstream transactionId doChangeHost doChangePort = do {
     bitstream \<leftarrow> stunProtocolPackHeader e bitstream StunMsgTypeBinding StunMsgClassRequest transactionId 8;
     stunProtocolPackAttributeChangeAddr e bitstream doChangeHost doChangePort
   }"

subsection \<open>Attributes\<close>

definition stunProtocolUnpackAttributeAddr ::
    "endian \<Rightarrow> bitstream_t \<Rightarrow> net_addr_t \<Rightarrow> (int \<times> net_addr_t \<times> bitstream_t) option" where
  "stunProtocolUnpackAttributeAddr e bitstream addr = do {
     (addrFamily, bitstream) \<leftarrow> bitstream_read_uint16 e bitstream;
     if addrFamily \<noteq> StunAddrFamilyIPv4 then Some (kStunUnsupported, addr, bitstream)
     else do {
       (port, bitstream) \<leftarrow> bitstream_read_uint16 e bitstream;
       (host, bitstream) \<leftarrow> bitstream_read_uint32 e bitstream;
       Some (kStunValid, net_addr_set e host (ucast port) True, bitstream)
     }
   }"

definition stunProtocolUnpackAttributeXorAddr ::
    "endian \<Rightarrow> bitstream_t \<Rightarrow> net_addr_t \<Rightarrow> (int \<times> net_addr_t \<times> bitstream_t) option" where
  "stunProtocolUnpackAttributeXorAddr e bitstream addr = do {
     (addrFamily, bitstream) \<leftarrow> bitstream_read_uint16 e bitstream;
     if addrFamily \<noteq> StunAddrFamilyIPv4 then Some (kStunUnsupported, addr, bitstream)
     else do {
       (xorPort, bitstream) \<leftarrow> bitstream_read_uint16 e bitstream;
       (xorHost, bitstream) \<leftarrow> bitstream_read_uint32 e bitstream;
       let port = (ucast (xorPort XOR (drop_bit 16 kStunProtocolMagicCookie AND 0xFFFF)) :: u16);
       let host = xorHost XOR kStunProtocolMagicCookie;
       Some (kStunValid, net_addr_set e host port True, bitstream)
     }
   }"

definition stunProtocolUnpackAttributeError ::
    "endian \<Rightarrow> bitstream_t \<Rightarrow> (int \<times> int \<times> bitstream_t) option" where
  "stunProtocolUnpackAttributeError e bitstream = do {
     (n, bitstream) \<leftarrow> bitstream_read_uint32 e bitstream;
     let n = drop_bit 21 n;
     let class = n AND 0x07;
     let error = drop_bit 3 n AND 0xFF;
     Some (kStunValid, sint (class * 100 + error), bitstream)
   }"

record StunBindingResponse =
  hasResponseOrigin :: bool
  responseOriginAddr :: net_addr_t
  hasMappedAddress :: bool
  mappedAddressAddr :: net_addr_t
  hasXorMappedAddress :: bool
  xorMappedAddressAddr :: net_addr_t
  hasAlternateServer :: bool
  alternateServerAddr :: net_addr_t
  hasErrorCode :: bool
  errorCodeValue :: int

definition zero_binding_response :: StunBindingResponse where
  "zero_binding_response =
     \<lparr>hasResponseOrigin = False, responseOriginAddr = sockaddr_zero, hasMappedAddress = False,
      mappedAddressAddr = sockaddr_zero, hasXorMappedAddress = False, xorMappedAddressAddr = sockaddr_zero,
      hasAlternateServer = False, alternateServerAddr = sockaddr_zero, hasErrorCode = False, errorCodeValue = 0\<rparr>"

text \<open>The \<^verbatim>\<open>switch\<close> of the body loop; \<open>kStunInvalid\<close> is its early return.\<close>

definition stun_body_switch ::
    "endian \<Rightarrow> bitstream_t \<Rightarrow> u32 \<Rightarrow> u32 \<Rightarrow> StunBindingResponse \<Rightarrow> (int \<times> StunBindingResponse \<times> bitstream_t) option" where
  "stun_body_switch e bitstream attributeType attributeLength r =
     (if attributeType = StunAttributeMappedAddress then do {
        (c, a, bitstream) \<leftarrow> stunProtocolUnpackAttributeAddr e bitstream (mappedAddressAddr r);
        let r = r\<lparr>mappedAddressAddr := a\<rparr>;
        if c \<noteq> kStunValid then Some (kStunInvalid, r, bitstream)
        else Some (kStunValid, r\<lparr>hasMappedAddress := True\<rparr>, bitstream) }
      else if attributeType = StunAttributeXorMappedAddress then do {
        (c, a, bitstream) \<leftarrow> stunProtocolUnpackAttributeXorAddr e bitstream (xorMappedAddressAddr r);
        let r = r\<lparr>xorMappedAddressAddr := a\<rparr>;
        if c \<noteq> kStunValid then Some (kStunInvalid, r, bitstream)
        else Some (kStunValid, r\<lparr>hasXorMappedAddress := True\<rparr>, bitstream) }
      else if attributeType = StunAttributeAlternateServer \<or> attributeType = StunAttributeOtherAddress then do {
        (c, a, bitstream) \<leftarrow> stunProtocolUnpackAttributeAddr e bitstream (alternateServerAddr r);
        let r = r\<lparr>alternateServerAddr := a\<rparr>;
        if c \<noteq> kStunValid then Some (kStunInvalid, r, bitstream)
        else Some (kStunValid, r\<lparr>hasAlternateServer := True\<rparr>, bitstream) }
      else if attributeType = StunAttributeOriginServer then do {
        (c, a, bitstream) \<leftarrow> stunProtocolUnpackAttributeAddr e bitstream (responseOriginAddr r);
        let r = r\<lparr>responseOriginAddr := a\<rparr>;
        if c \<noteq> kStunValid then Some (kStunInvalid, r, bitstream)
        else Some (kStunValid, r\<lparr>hasResponseOrigin := True\<rparr>, bitstream) }
      else if attributeType = StunAttributeErrorCode then do {
        (c, v, bitstream) \<leftarrow> stunProtocolUnpackAttributeError e bitstream;
        let r = r\<lparr>errorCodeValue := v\<rparr>;
        if c \<noteq> kStunValid then Some (kStunInvalid, r, bitstream)
        else Some (kStunValid, r\<lparr>hasErrorCode := True\<rparr>, bitstream) }
      else Some (kStunValid, r, bitstream_skip_bytes bitstream (unat attributeLength)))"

text \<open>
  \<open>remainingBytes\<close> is an \<^verbatim>\<open>int\<close>; the attribute length has 16 bits, so that the
  subtraction does not leave its range.
\<close>

function stun_body_loop ::
    "endian \<Rightarrow> bitstream_t \<Rightarrow> int \<Rightarrow> StunBindingResponse \<Rightarrow> (int \<times> StunBindingResponse \<times> bitstream_t) option" where
  "stun_body_loop e bitstream remainingBytes r =
     (if remainingBytes > 0
      then do {
        (attributeType, bitstream) \<leftarrow> bitstream_read_uint16 e bitstream;
        (attributeLength, bitstream) \<leftarrow> bitstream_read_uint16 e bitstream;
        (c, r, bitstream) \<leftarrow> stun_body_switch e bitstream attributeType attributeLength r;
        if c = kStunInvalid then Some (kStunInvalid, r, bitstream)
        else stun_body_loop e bitstream (remainingBytes - int (unat attributeLength) - 4) r
      }
      else Some (kStunValid, r, bitstream))"
  by pat_completeness auto
termination
  by (relation "measure (\<lambda>(e, s, n, r). nat n)") (auto intro: le_less_trans [of _ 0])

declare stun_body_loop.simps [simp del]

definition stunProtocolUnpackBindingResponseBody ::
    "endian \<Rightarrow> bitstream_t \<Rightarrow> u32 \<Rightarrow> StunBindingResponse \<Rightarrow> (int \<times> StunBindingResponse \<times> bitstream_t) option" where
  "stunProtocolUnpackBindingResponseBody e bitstream len bindingResponse =
     (let bindingResponse = zero_binding_response;
          remainingBytes = sint len
      in stun_body_loop e bitstream remainingBytes bindingResponse)"

definition stunProtocolUnpackBindingResponse ::
    "endian \<Rightarrow> bitstream_t \<Rightarrow> StunTransactionId \<Rightarrow> StunBindingResponse \<Rightarrow>
     (int \<times> StunTransactionId \<times> StunBindingResponse \<times> bitstream_t) option" where
  "stunProtocolUnpackBindingResponse e bitstream transactionId bindingResponse = do {
     (c, msgType, msgClass, transactionId, bodyLength, bitstream) \<leftarrow>
       stunProtocolUnpackHeader e bitstream 0 transactionId;
     if c = kStunInvalid then Some (kStunInvalid, transactionId, bindingResponse, bitstream)
     else if msgType \<noteq> StunMsgTypeBinding \<or> msgClass = StunMsgClassRequest
     then Some (kStunUnexpected, transactionId, bindingResponse, bitstream)
     else if bodyLength = 0 then Some (kStunInvalid, transactionId, bindingResponse, bitstream)
     else do {
       (c, bindingResponse, bitstream) \<leftarrow>
         stunProtocolUnpackBindingResponseBody e bitstream bodyLength bindingResponse;
       if c = kStunInvalid then Some (kStunInvalid, transactionId, bindingResponse, bitstream)
       else Some (kStunValid, transactionId, bindingResponse, bitstream)
     }
   }"

subsection \<open>Attributes on the wire\<close>

text \<open>
  The attributes a server may put into a response, what they look like on the wire and what
  they mean for the parsed response.
\<close>

datatype stun_attr =
    AttrMapped u32 u16
  | AttrXorMapped u32 u16
  | AttrAlternate bool u32 u16
  | AttrOrigin u32 u16
  | AttrError u32
  | AttrOther u32 "u8 list"

fun stun_attr_type :: "stun_attr \<Rightarrow> u32" where
  "stun_attr_type (AttrMapped h p) = StunAttributeMappedAddress"
| "stun_attr_type (AttrXorMapped h p) = StunAttributeXorMappedAddress"
| "stun_attr_type (AttrAlternate other h p) = (if other then StunAttributeOtherAddress else StunAttributeAlternateServer)"
| "stun_attr_type (AttrOrigin h p) = StunAttributeOriginServer"
| "stun_attr_type (AttrError n) = StunAttributeErrorCode"
| "stun_attr_type (AttrOther t xs) = t"

definition enc_stun_addr :: "endian \<Rightarrow> u32 \<Rightarrow> u16 \<Rightarrow> u8 list" where
  "enc_stun_addr e host port = enc_uint16 e StunAddrFamilyIPv4 @ enc_uint16 e (ucast port) @ enc_uint32 e host"

fun stun_attr_value :: "endian \<Rightarrow> stun_attr \<Rightarrow> u8 list" where
  "stun_attr_value e (AttrMapped h p) = enc_stun_addr e h p"
| "stun_attr_value e (AttrXorMapped h p) = enc_stun_addr e (h XOR kStunProtocolMagicCookie) (p XOR 0x2112)"
| "stun_attr_value e (AttrAlternate other h p) = enc_stun_addr e h p"
| "stun_attr_value e (AttrOrigin h p) = enc_stun_addr e h p"
| "stun_attr_value e (AttrError n) = enc_uint32 e n"
| "stun_attr_value e (AttrOther t xs) = xs"

definition enc_stun_attr :: "endian \<Rightarrow> stun_attr \<Rightarrow> u8 list" where
  "enc_stun_attr e a =
     enc_uint16 e (stun_attr_type a) @ enc_uint16 e (of_nat (length (stun_attr_value e a))) @ stun_attr_value e a"

definition enc_stun_body :: "endian \<Rightarrow> stun_attr list \<Rightarrow> u8 list" where
  "enc_stun_body e as = concat (map (enc_stun_attr e) as)"

text \<open>Unknown attributes must really be unknown, and their length must fit its field.\<close>

fun stun_attr_ok :: "stun_attr \<Rightarrow> bool" where
  "stun_attr_ok (AttrOther t xs) \<longleftrightarrow>
     unat t < 2 ^ 16 \<and> length xs < 2 ^ 16 \<and> t \<notin> {0x0001, 0x0020, 0x8023, 0x802c, 0x802b, 0x0009}"
| "stun_attr_ok _ \<longleftrightarrow> True"

fun apply_stun_attr :: "endian \<Rightarrow> stun_attr \<Rightarrow> StunBindingResponse \<Rightarrow> StunBindingResponse" where
  "apply_stun_attr e (AttrMapped h p) r = r\<lparr>mappedAddressAddr := net_addr_set e h p True, hasMappedAddress := True\<rparr>"
| "apply_stun_attr e (AttrXorMapped h p) r =
     r\<lparr>xorMappedAddressAddr := net_addr_set e h p True, hasXorMappedAddress := True\<rparr>"
| "apply_stun_attr e (AttrAlternate other h p) r =
     r\<lparr>alternateServerAddr := net_addr_set e h p True, hasAlternateServer := True\<rparr>"
| "apply_stun_attr e (AttrOrigin h p) r = r\<lparr>responseOriginAddr := net_addr_set e h p True, hasResponseOrigin := True\<rparr>"
| "apply_stun_attr e (AttrError n) r =
     r\<lparr>errorCodeValue := sint ((drop_bit 21 n AND 7) * 100 + (drop_bit 3 (drop_bit 21 n) AND 0xFF)), hasErrorCode := True\<rparr>"
| "apply_stun_attr e (AttrOther t xs) r = r"

text \<open>
  What a list of attributes says, independently of any parser: the addresses of each kind in the
  order in which they come. A response carries the last address of a kind, when there is one.
\<close>

definition mapped_addrs :: "endian \<Rightarrow> stun_attr list \<Rightarrow> net_addr_t list" where
  "mapped_addrs e as = [net_addr_set e h p True. AttrMapped h p \<leftarrow> as]"

definition xor_mapped_addrs :: "endian \<Rightarrow> stun_attr list \<Rightarrow> net_addr_t list" where
  "xor_mapped_addrs e as = [net_addr_set e h p True. AttrXorMapped h p \<leftarrow> as]"

definition alternate_addrs :: "endian \<Rightarrow> stun_attr list \<Rightarrow> net_addr_t list" where
  "alternate_addrs e as = [net_addr_set e h p True. AttrAlternate other h p \<leftarrow> as]"

definition origin_addrs :: "endian \<Rightarrow> stun_attr list \<Rightarrow> net_addr_t list" where
  "origin_addrs e as = [net_addr_set e h p True. AttrOrigin h p \<leftarrow> as]"

definition last_addr :: "net_addr_t list \<Rightarrow> net_addr_t" where
  "last_addr addrs = (if addrs = [] then sockaddr_zero else last addrs)"

fun no_error_attr :: "stun_attr \<Rightarrow> bool" where
  "no_error_attr (AttrError n) \<longleftrightarrow> False"
| "no_error_attr _ \<longleftrightarrow> True"

definition enc_stun_header :: "endian \<Rightarrow> u32 \<Rightarrow> u32 \<Rightarrow> StunTransactionId \<Rightarrow> u32 \<Rightarrow> u8 list" where
  "enc_stun_header e msgType msgClass transactionId len =
     enc_uint16 e (ucast (stun_type_field msgType msgClass)) @ enc_uint16 e len
       @ enc_uint32 e kStunProtocolMagicCookie @ swap_on e transactionId"

section \<open>The type field\<close>

lemma less_32_cases:
  "n < 32 \<Longrightarrow> n \<in> {0, 1, 2, 3, 4, 5, 6, 7, 8, 9, 10, 11, 12, 13, 14, 15, 16, 17, 18, 19, 20, 21, 22,
     23, 24, 25, 26, 27, 28, 29, 30, 31 :: nat}"
  by (simp add: less_Suc_eq numeral_eq_Suc)

lemma stun_unpack_type_field: "stun_unpack_type (ucast (stun_type_field t c)) = t AND 0xFFF"
proof (rule bit_word_eqI)
  fix n assume "n < LENGTH(32)"
  then have "n \<in> {0, 1, 2, 3, 4, 5, 6, 7, 8, 9, 10, 11, 12, 13, 14, 15, 16, 17, 18, 19, 20, 21, 22,
     23, 24, 25, 26, 27, 28, 29, 30, 31}"
    using less_32_cases by simp
  then show "bit (stun_unpack_type (ucast (stun_type_field t c))) n = bit (t AND 0xFFF) n"
    by (elim insertE emptyE) (simp_all add: stun_unpack_type_def stun_type_field_def bit_simps mult.commute [of t 2])
qed

lemma stun_type_field_class:
  "(ucast (stun_type_field t c) :: u32) AND 0x0110 = push_bit 7 (c AND 2) OR push_bit 4 (c AND 1)"
proof (rule bit_word_eqI)
  fix n assume "n < LENGTH(32)"
  then have "n \<in> {0, 1, 2, 3, 4, 5, 6, 7, 8, 9, 10, 11, 12, 13, 14, 15, 16, 17, 18, 19, 20, 21, 22,
     23, 24, 25, 26, 27, 28, 29, 30, 31}"
    using less_32_cases by simp
  then show "bit ((ucast (stun_type_field t c) :: u32) AND 0x0110) n
      = bit (push_bit 7 (c AND 2) OR push_bit 4 (c AND 1)) n"
    by (elim insertE emptyE) (simp_all add: stun_type_field_def bit_simps)
qed

section \<open>The header\<close>

lemma length_enc_stun_header [simp]:
  "length (enc_stun_header e t c i n) = 8 + length i"
  by (simp add: enc_stun_header_def)

lemma stunProtocolPackHeader_room [write_simps]:
  assumes "bs_wf s" "bs_room s 20" "length i = 12"
  shows "stunProtocolPackHeader e s t c i n = Some (bs_put s (enc_stun_header e t c i n))"
  using assms
  by (simp add: stunProtocolPackHeader_def enc_stun_header_def uint16.put_fits uint32.put_fits
      bitstream_write_bytes_room codec_room)

text \<open>The class the reader recovers from the two class bits.\<close>

lemma stun_class_cases:
  fixes c :: u32
  assumes "unat c < 4"
  shows "c = 0 \<or> c = 1 \<or> c = 2 \<or> c = 3"
  using assms by (simp add: word_unat_eq_iff) linarith

lemma stun_class_of_field:
  assumes "unat c < 4" and f: "f = (ucast (stun_type_field t c) :: u32)"
  shows "(if mStunIsRequest f then Some StunMsgClassRequest
           else if mStunIsIndication f then Some StunMsgClassIndication
           else if mStunIsSuccessResponse f then Some StunMsgClassSuccessResponse
           else if mStunIsErrorResponse f then Some StunMsgClassFailureResponse
           else None) = Some c"
  using stun_class_cases [OF assms(1)]
  by (auto simp: f mStunIsRequest_def mStunIsIndication_def mStunIsSuccessResponse_def
      mStunIsErrorResponse_def stun_type_field_class)

lemma unat_ucast_u16_u32: "unat (ucast (w :: u16) :: u32) < 2 ^ 16"
  using unsigned_less [of w, where ?'a = nat] le_less_trans [OF take_bit_nat_less_eq_self]
  by (simp add: unsigned_ucast_eq)

lemma stunProtocolUnpackHeader_at:
  assumes "bs_wf s" "bs_at s (enc_stun_header e t c i n)"
    and "unat c < 4" "length i = 12" "length i0 = 12" "unat n < 2 ^ 16"
  shows "stunProtocolUnpackHeader e s n0 i0 = Some (kStunValid, t AND 0xFFF, c, i, n, bs_adv s 20)"
proof -
  have tid: "bitstream_read_bytes e (bs_adv s 8) i0 12 = Some (12, i, bs_adv s 20)"
  proof -
    have "bitstream_read_bytes e (bs_adv s 8) i0 12 = Some (12, overwrite i0 0 i, bs_adv (bs_adv s 8) 12)"
      using assms bs_at_room [OF assms(2)]
      by (intro bitstream_read_bytes_at) (simp_all add: enc_stun_header_def codec_ahead)
    then show ?thesis
      using assms(4,5) by (simp add: overwrite_def bs_adv_adv)
  qed
  have "bitstream_read_uint16 e s = Some (ucast (stun_type_field t c), bs_adv s 2)"
    using assms uint16.get_ahead [of s e "ucast (stun_type_field t c)"] unat_ucast_u16_u32
    by (simp add: enc_stun_header_def codec_ahead)
  moreover have "bitstream_read_uint16 e (bs_adv s 2) = Some (n, bs_adv s 4)"
    using assms uint16.get_ahead [of "bs_adv s 2" e n] bs_at_room [OF assms(2)]
    by (simp add: enc_stun_header_def codec_ahead)
  moreover have "bitstream_read_uint32 e (bs_adv s 4) = Some (kStunProtocolMagicCookie, bs_adv s 8)"
    using assms uint32.get_ahead [of "bs_adv s 4" e kStunProtocolMagicCookie] bs_at_room [OF assms(2)]
    by (simp add: enc_stun_header_def codec_ahead)
  ultimately show ?thesis
    using tid stun_class_of_field [OF assms(3) refl, of t]
    by (simp only: stunProtocolUnpackHeader_def stun_unpack_type_field Let_def bind.bind_lunit
        prod.case option.case) simp
qed

section \<open>The body\<close>

lemma length_enc_stun_addr [simp]: "length (enc_stun_addr e h p) = 8"
  by (simp add: enc_stun_addr_def)

lemma length_enc_stun_attr [simp]: "length (enc_stun_attr e a) = 4 + length (stun_attr_value e a)"
  by (simp add: enc_stun_attr_def)

lemma ucast_xor_u16: "(ucast (a XOR b :: u32) :: u16) = ucast a XOR ucast b"
  by (rule bit_word_eqI) (auto simp: bit_simps dest: bit_imp_le_length)

lemma stunProtocolUnpackAttributeAddr_at:
  assumes "bs_wf s" "bs_at s (enc_stun_addr e h p)"
  shows "stunProtocolUnpackAttributeAddr e s a = Some (kStunValid, net_addr_set e h p True, bs_adv s 8)"
  using assms bs_at_room [OF assms(2)] unat_ucast_u16_u32 [of p]
  by (clarsimp simp: stunProtocolUnpackAttributeAddr_def enc_stun_addr_def codec_ahead uint16.get_ahead uint32.get_ahead)

lemma xor_port_field: "ucast (ucast (p XOR 0x2112 :: u16) XOR (0x2112 :: u32)) = p"
proof -
  have "ucast (ucast (p XOR 0x2112 :: u16) XOR (0x2112 :: u32)) = (p XOR 0x2112) XOR (0x2112 :: u16)"
    by (simp add: unsigned_xor_eq ucast_xor_u16)
  then show ?thesis
    by (simp add: xor.assoc)
qed

lemma stunProtocolUnpackAttributeXorAddr_at:
  assumes "bs_wf s"
    and "bs_at s (enc_stun_addr e (h XOR kStunProtocolMagicCookie) (p XOR 0x2112))"
  shows "stunProtocolUnpackAttributeXorAddr e s a = Some (kStunValid, net_addr_set e h p True, bs_adv s 8)"
  using assms bs_at_room [OF assms(2)] unat_ucast_u16_u32 [of "p XOR 0x2112"] xor_port_field [of p]
  by (clarsimp simp: stunProtocolUnpackAttributeXorAddr_def enc_stun_addr_def codec_ahead uint16.get_ahead uint32.get_ahead
      xor.assoc)

lemma stunProtocolUnpackAttributeError_at:
  assumes "bs_wf s" "bs_at s (enc_uint32 e n)"
  shows "stunProtocolUnpackAttributeError e s =
    Some (kStunValid, sint ((drop_bit 21 n AND 7) * 100 + (drop_bit 3 (drop_bit 21 n) AND 0xFF)), bs_adv s 4)"
  using assms by (simp add: stunProtocolUnpackAttributeError_def uint32.get_ahead Let_def)

text \<open>One attribute: the branch of the switch that its type selects.\<close>

lemma stun_body_switch_at:
  assumes "bs_wf s" "bs_at s (stun_attr_value e a)" "stun_attr_ok a"
  shows "stun_body_switch e s (stun_attr_type a) (of_nat (length (stun_attr_value e a))) r =
    Some (kStunValid, apply_stun_attr e a r, bs_adv s (length (stun_attr_value e a)))"
proof (cases a)
  case (AttrOther t xs)
  with assms have "unat (of_nat (length xs) :: u32) = length xs"
    by (simp add: unat_of_nat)
  with AttrOther assms show ?thesis
    by (simp add: stun_body_switch_def bitstream_skip_bytes_room bs_at_room)
qed (use assms in \<open>simp_all add: stun_body_switch_def stunProtocolUnpackAttributeAddr_at
    stunProtocolUnpackAttributeXorAddr_at stunProtocolUnpackAttributeError_at Let_def\<close>)

lemma stun_attr_value_short: "stun_attr_ok a \<Longrightarrow> length (stun_attr_value e a) < 2 ^ 16"
  by (cases a) simp_all

lemma stun_attr_type_short: "stun_attr_ok a \<Longrightarrow> unat (stun_attr_type a) < 2 ^ 16"
  by (cases a) simp_all

lemma stun_body_loop_attr:
  assumes "bs_wf s" "bs_at s (enc_stun_attr e a)" "stun_attr_ok a" "0 < n"
  shows "stun_body_loop e s n r =
    stun_body_loop e (bs_adv s (length (enc_stun_attr e a))) (n - int (length (enc_stun_attr e a)))
      (apply_stun_attr e a r)"
proof -
  let ?l = "length (stun_attr_value e a)"
  have l: "?l < 2 ^ 16"
    using assms(3) by (rule stun_attr_value_short)
  then have ul: "unat (of_nat ?l :: u32) = ?l"
    by (simp add: unat_of_nat)
  have room: "bs_room s (4 + ?l)"
    using bs_at_room [OF assms(2)] by simp
  have "bitstream_read_uint16 e s = Some (stun_attr_type a, bs_adv s 2)"
    using assms uint16.get_ahead [of s e "stun_attr_type a"] stun_attr_type_short
    by (simp add: enc_stun_attr_def codec_ahead)
  moreover have "bitstream_read_uint16 e (bs_adv s 2) = Some (of_nat ?l, bs_adv s 4)"
    using assms uint16.get_ahead [of "bs_adv s 2" e "of_nat ?l"] l ul room
    by (simp add: enc_stun_attr_def codec_ahead)
  moreover have "stun_body_switch e (bs_adv s 4) (stun_attr_type a) (of_nat ?l) r =
      Some (kStunValid, apply_stun_attr e a r, bs_adv s (4 + ?l))"
    using assms room stun_body_switch_at [of "bs_adv s 4" e a r]
    by (simp add: enc_stun_attr_def codec_ahead)
  ultimately show ?thesis
    using assms(4) by (subst stun_body_loop.simps) (simp add: ul algebra_simps)
qed

lemma stun_body_loop_attrs:
  assumes "bs_wf s" "bs_at s (enc_stun_body e as)" "\<forall>a \<in> set as. stun_attr_ok a"
    and "int (length (enc_stun_body e as)) \<le> n"
  shows "stun_body_loop e s n r =
    stun_body_loop e (bs_adv s (length (enc_stun_body e as))) (n - int (length (enc_stun_body e as)))
      (fold (apply_stun_attr e) as r)"
  using assms
proof (induction as arbitrary: s n r)
  case Nil
  then show ?case by (simp add: enc_stun_body_def)
next
  case (Cons a as)
  let ?a = "enc_stun_attr e a"
  have at: "bs_at s ?a" "bs_at (bs_adv s (length ?a)) (enc_stun_body e as)"
    using Cons.prems(2) by (simp_all add: enc_stun_body_def bs_at_append)
  have wf: "bs_wf (bs_adv s (length ?a))"
    using Cons.prems(1) at(1) by (rule bs_at_wf_adv)
  have len: "length (enc_stun_body e (a # as)) = length ?a + length (enc_stun_body e as)"
    by (simp add: enc_stun_body_def)
  have n: "0 < n" "int (length (enc_stun_body e as)) \<le> n - int (length ?a)"
    using Cons.prems(4) len by simp_all
  show ?case
    using stun_body_loop_attr [OF Cons.prems(1) at(1) _ n(1), of r] Cons.IH [OF wf at(2) _ n(2)]
      Cons.prems(3)
    by (simp add: len bs_adv_adv diff_diff_add del: length_enc_stun_attr)
qed

lemma stun_body_loop_past_end:
  assumes "length (bs_data s) \<le> bs_offset s" "0 < n"
  shows "stun_body_loop e s n r = None"
  using assms
  by (subst stun_body_loop.simps) (cases e; simp add: bitstream_read_uint16_def get_byte_def mem_read_def)

lemma unat_length_field: "k < 2 ^ 16 \<Longrightarrow> unat (of_nat k :: u32) = k \<and> sint (of_nat k :: u32) = int k"
  by (simp add: sint_small unat_of_nat)

section \<open>What the attributes say\<close>

lemmas addrs_defs = mapped_addrs_def xor_mapped_addrs_def alternate_addrs_def origin_addrs_def

lemma last_addr_Nil [simp]: "last_addr [] = sockaddr_zero"
  by (simp add: last_addr_def)

lemma last_addr_snoc [simp]: "last_addr (addrs @ [a]) = a"
  by (simp add: last_addr_def)

lemma attrs_addresses:
  fixes e as
  defines "r \<equiv> fold (apply_stun_attr e) as zero_binding_response"
  shows "hasMappedAddress r \<longleftrightarrow> mapped_addrs e as \<noteq> []" "mappedAddressAddr r = last_addr (mapped_addrs e as)"
    "hasXorMappedAddress r \<longleftrightarrow> xor_mapped_addrs e as \<noteq> []" "xorMappedAddressAddr r = last_addr (xor_mapped_addrs e as)"
    "hasAlternateServer r \<longleftrightarrow> alternate_addrs e as \<noteq> []" "alternateServerAddr r = last_addr (alternate_addrs e as)"
    "hasResponseOrigin r \<longleftrightarrow> origin_addrs e as \<noteq> []" "responseOriginAddr r = last_addr (origin_addrs e as)"
  unfolding r_def
  by (induction as rule: rev_induct) (auto simp: zero_binding_response_def addrs_defs elim!: apply_stun_attr.elims split: stun_attr.splits)

lemma attrs_no_error:
  assumes "\<forall>a \<in> set as. no_error_attr a"
  shows "\<not> hasErrorCode (fold (apply_stun_attr e) as zero_binding_response) \<and>
    errorCodeValue (fold (apply_stun_attr e) as zero_binding_response) = 0"
  using assms
proof (induction as rule: rev_induct)
  case (snoc a as)
  then show ?case by (cases a) simp_all
qed (simp add: zero_binding_response_def)

section \<open>Requests and responses\<close>

lemma binding_request_room:
  assumes "bs_wf s" "bs_room s 20" "length i = 12"
  shows "stunProtocolPackBindingRequest e s i = Some (bs_put s (enc_stun_header e 1 0 i 0))"
  using assms by (simp add: stunProtocolPackBindingRequest_def stunProtocolPackHeader_room)

lemma binding_change_request_room:
  assumes "bs_wf s" "bs_room s 28" "length i = 12"
  shows "stunProtocolPackBindingChangeRequest e s i host port =
    Some (bs_put s (enc_stun_header e 1 0 i 8 @ enc_uint16 e 3 @ enc_uint16 e 4 @
      enc_uint32 e ((if host then 4 else 0) + (if port then 2 else 0))))"
proof -
  have "bs_room s 20"
    using assms(2) by (simp add: bs_room_def)
  with assms show ?thesis
    by (simp add: stunProtocolPackBindingChangeRequest_def stunProtocolPackAttributeChangeAddr_def
        stunProtocolPackHeader_room uint16.put_fits uint32.put_fits codec_room)
qed

lemma binding_response_at:
  assumes "bs_wf s" "bs_at s (enc_stun_header e StunMsgTypeBinding c i (of_nat (length (enc_stun_body e as))) @ enc_stun_body e as)"
    and "\<forall>a \<in> set as. stun_attr_ok a" "as \<noteq> []" "length (enc_stun_body e as) < 2 ^ 16"
    and "0 < unat c" "unat c < 4" "length i = 12" "length i0 = 12"
  shows "stunProtocolUnpackBindingResponse e s i0 r0 =
    Some (kStunValid, i, fold (apply_stun_attr e) as zero_binding_response,
      bs_adv s (20 + length (enc_stun_body e as)))"
proof -
  let ?b = "enc_stun_body e as"
  let ?n = "of_nat (length ?b) :: u32"
  have n: "unat ?n = length ?b" "sint ?n = int (length ?b)"
    using unat_length_field [OF assms(5)] by simp_all
  have "0 < length ?b"
    using assms(4) by (cases as) (simp_all add: enc_stun_body_def)
  then have "?n \<noteq> 0"
    using n(1) by auto
  moreover have "c \<noteq> 0"
    using assms(6) by auto
  moreover have at: "bs_at s (enc_stun_header e StunMsgTypeBinding c i ?n)" "bs_at (bs_adv s 20) ?b"
    using assms(2,8) by (simp_all add: bs_at_append)
  moreover have "bs_wf (bs_adv s 20)"
    using bs_at_wf_adv [OF assms(1) at(1)] assms(8) by simp
  ultimately show ?thesis
    using assms n stun_body_loop_attrs [of "bs_adv s 20" e as "int (length ?b)" zero_binding_response]
    by (simp add: stunProtocolUnpackBindingResponse_def stunProtocolUnpackBindingResponseBody_def
        stunProtocolUnpackHeader_at bs_adv_adv stun_body_loop.simps [of _ _ 0])
qed

section \<open>Properties\<close>

text \<open>
  STUN header round trip. Every 12-bit message type and every class, interleaved into one
  field by the packer, come back from the reader together with the length and the transaction
  id, whatever the reader's variables held.
\<close>

theorem stun_header_roundtrip:
  assumes "bs_wf s" "bs_room s 20" "length i = 12" "length i0 = 12"
    and "unat t < 0x1000" "unat c < 4" "unat n < 2 ^ 16"
  shows "\<exists>s'. stunProtocolPackHeader e s t c i n = Some s' \<and>
    stunProtocolUnpackHeader e (s'\<lparr>bs_offset := bs_offset s\<rparr>) n0 i0 = Some (kStunValid, t, c, i, n, s')"
proof -
  let ?h = "enc_stun_header e t c i n"
  let ?s = "(bs_put s ?h)\<lparr>bs_offset := bs_offset s\<rparr>"
  have "bs_wf ?s" "bs_at ?s ?h"
    using assms by (auto intro: bs_wf_rewind bs_at_put)
  moreover have "t AND 0xFFF = t"
    using take_bit_small [of t 12] assms(5) by (simp add: take_bit_eq_mask mask_eq_exp_minus_1)
  moreover have "bs_adv ?s 20 = bs_put s ?h"
    using bs_put_rewind [of s ?h] assms(3) by simp
  ultimately show ?thesis
    using assms by (simp add: stunProtocolPackHeader_room stunProtocolUnpackHeader_at)
qed

theorem stun_header_roundtrip_witness:
  "\<exists>s'. stunProtocolPackHeader LittleEndian (bitstream_create (replicate 256 0) 256) 1 2 (replicate 12 7) 12 = Some s' \<and>
    stunProtocolUnpackHeader LittleEndian (s'\<lparr>bs_offset := 0\<rparr>) 0 (replicate 12 0)
      = Some (kStunValid, 1, 2, replicate 12 7, 12, s')"
  using stun_header_roundtrip [of "bitstream_create (replicate 256 0) 256" "replicate 12 7" "replicate 12 0"
      1 2 12 LittleEndian 0]
  by (simp add: bs_wf_def bs_room_def bitstream_create_def)

text \<open>
  (C22) A binding response is understood. Where a response header and any non-empty list of
  attributes lie in the packet and the header carries the length of the attributes, parsing
  succeeds, returns the transaction id, stops behind the last attribute and gives for each of the
  four kinds of address whether one was carried and the last one of its kind: the XOR-ed
  addresses decoded, unknown attributes skipped, other kinds left at zero. Lists with an
  \<open>ERROR-CODE\<close> attribute are excluded: their decoding loses the code (\<open>stun_error_code_lost\<close>).
\<close>

theorem stun_binding_response_parsed:
  assumes "bs_wf s" "bs_at s (enc_stun_header e StunMsgTypeBinding c i (of_nat (length (enc_stun_body e as))) @ enc_stun_body e as)"
    and "\<forall>a \<in> set as. stun_attr_ok a \<and> no_error_attr a" "as \<noteq> []" "length (enc_stun_body e as) < 2 ^ 16"
    and "0 < unat c" "unat c < 4" "length i = 12" "length i0 = 12"
  shows "\<exists>r. stunProtocolUnpackBindingResponse e s i0 r0 =
      Some (kStunValid, i, r, bs_adv s (20 + length (enc_stun_body e as))) \<and>
    (hasMappedAddress r \<longleftrightarrow> mapped_addrs e as \<noteq> []) \<and> mappedAddressAddr r = last_addr (mapped_addrs e as) \<and>
    (hasXorMappedAddress r \<longleftrightarrow> xor_mapped_addrs e as \<noteq> []) \<and> xorMappedAddressAddr r = last_addr (xor_mapped_addrs e as) \<and>
    (hasAlternateServer r \<longleftrightarrow> alternate_addrs e as \<noteq> []) \<and> alternateServerAddr r = last_addr (alternate_addrs e as) \<and>
    (hasResponseOrigin r \<longleftrightarrow> origin_addrs e as \<noteq> []) \<and> responseOriginAddr r = last_addr (origin_addrs e as) \<and>
    \<not> hasErrorCode r \<and> errorCodeValue r = 0"
proof -
  have ok: "\<forall>a \<in> set as. stun_attr_ok a" "\<forall>a \<in> set as. no_error_attr a"
    using assms(3) by blast+
  show ?thesis
    unfolding binding_response_at [OF assms(1,2) ok(1) assms(4-)] by (simp add: attrs_addresses attrs_no_error [OF ok(2)])
qed

theorem stun_binding_response_parsed_witness:
  "\<exists>r s'. stunProtocolUnpackBindingResponse BigEndian
     (bitstream_create (enc_stun_header BigEndian 1 2 (replicate 12 7) 30 @
        enc_stun_body BigEndian [AttrXorMapped 9 9, AttrOther 0x8022 [1, 2], AttrXorMapped 0x01020304 5]) 50)
     (replicate 12 0) zero_binding_response = Some (kStunValid, replicate 12 7, r, s') \<and>
   hasXorMappedAddress r \<and> xorMappedAddressAddr r = net_addr_set BigEndian 0x01020304 5 True \<and> \<not> hasMappedAddress r"
  using stun_binding_response_parsed [of "bitstream_create (enc_stun_header BigEndian 1 2 (replicate 12 7) 30 @
        enc_stun_body BigEndian [AttrXorMapped 9 9, AttrOther 0x8022 [1, 2], AttrXorMapped 0x01020304 5]) 50" BigEndian 2
        "replicate 12 7" "[AttrXorMapped 9 9, AttrOther 0x8022 [1, 2], AttrXorMapped 0x01020304 5]" "replicate 12 0"
        zero_binding_response]
  by (auto simp: bs_wf_def bs_at_def bs_room_def bitstream_create_def enc_stun_body_def last_addr_def addrs_defs)

text \<open>
  (C29) The body length is trusted. A response whose attributes fill the packet to its last
  byte, but whose length field announces more than that, makes the parser read beyond the end
  of the packet's data.
\<close>

theorem stun_body_length_trusted:
  assumes "bs_wf s" "bs_at s (enc_stun_header e StunMsgTypeBinding c i n @ enc_stun_body e as)"
    and "\<forall>a \<in> set as. stun_attr_ok a" "bs_offset s + 20 + length (enc_stun_body e as) = length (bs_data s)"
    and "length (enc_stun_body e as) < unat n" "unat n < 2 ^ 16"
    and "0 < unat c" "unat c < 4" "length i = 12" "length i0 = 12"
  shows "stunProtocolUnpackBindingResponse e s i0 r0 = None"
proof -
  let ?b = "enc_stun_body e as"
  have "n \<noteq> 0" "c \<noteq> 0"
    using assms(5,7) by auto
  moreover have n: "sint n = int (unat n)"
    using assms(6) by (simp add: sint_small)
  moreover have at: "bs_at s (enc_stun_header e StunMsgTypeBinding c i n)" "bs_at (bs_adv s 20) ?b"
    using assms(2,9) by (simp_all add: bs_at_append)
  moreover have "bs_wf (bs_adv s 20)"
    using bs_at_wf_adv [OF assms(1) at(1)] assms(9) by simp
  moreover have "int (length ?b) < int (unat n)"
    using assms(5) by (rule of_nat_less_iff [THEN iffD2])
  moreover from calculation have "stun_body_loop e (bs_adv s 20) (int (unat n)) r = None" for r
    using assms(3,4) stun_body_loop_attrs [of "bs_adv s 20" e as "int (unat n)" r]
    by (simp add: stun_body_loop_past_end del: of_nat_unat)
  ultimately show ?thesis
    using assms
    by (simp add: stunProtocolUnpackBindingResponse_def stunProtocolUnpackBindingResponseBody_def
        stunProtocolUnpackHeader_at)
qed

theorem stun_body_length_trusted_witness:
  "stunProtocolUnpackBindingResponse LittleEndian
     (bitstream_create (enc_stun_header LittleEndian 1 2 (replicate 12 7) 300 @
        enc_stun_body LittleEndian [AttrOther 0x8022 (replicate 232 0)]) 256) (replicate 12 0) zero_binding_response = None"
  using stun_body_length_trusted [of "bitstream_create (enc_stun_header LittleEndian 1 2 (replicate 12 7) 300 @
        enc_stun_body LittleEndian [AttrOther 0x8022 (replicate 232 0)]) 256" LittleEndian 2 "replicate 12 7" 300
        "[AttrOther 0x8022 (replicate 232 0)]" "replicate 12 0" zero_binding_response]
  by (simp add: bs_wf_def bs_at_def bs_room_def bitstream_create_def enc_stun_body_def)

text \<open>
  Error codes are lost. An error attribute as the comment describes it, 21 zero bits, three
  class bits and eight bits of error number, is always reported as the error code 0, because the
  word is shifted right by 21 instead of being masked.
\<close>

theorem stun_error_code_lost:
  assumes "bs_wf s" "bs_at s (enc_uint32 e n)" "unat n < 2 ^ 11"
  shows "stunProtocolUnpackAttributeError e s = Some (kStunValid, 0, bs_adv s 4)"
proof -
  have "unat (drop_bit 21 n) = 0"
    using assms(3) by (simp add: unat_drop_bit_eq)
  then have "drop_bit 21 n = 0"
    by (simp add: unat_eq_0)
  then show ?thesis
    using stunProtocolUnpackAttributeError_at [OF assms(1,2)] by simp
qed

theorem stun_error_code_lost_witness:
  "stunProtocolUnpackAttributeError LittleEndian (bitstream_create (enc_uint32 LittleEndian 0x401) 4)
     = Some (kStunValid, 0, bs_adv (bitstream_create (enc_uint32 LittleEndian 0x401) 4) 4)"
  using stun_error_code_lost [of "bitstream_create (enc_uint32 LittleEndian 0x401) 4" LittleEndian "0x401"]
  by (simp add: bs_wf_def bs_at_def bs_room_def bitstream_create_def)

text \<open>
  Binding requests. A change request puts the twenty header bytes and one eight-byte
  attribute with the two change flags on the wire, its length field covering exactly that
  attribute; a plain request is the header alone. Neither is ever taken for a response.
\<close>

theorem stun_requests_on_the_wire:
  assumes "bs_wf s" "bs_room s 28" "length i = 12" "length i0 = 12"
  shows "stunProtocolPackBindingRequest e s i = Some (bs_put s (enc_stun_header e 1 0 i 0)) \<and>
    stunProtocolPackBindingChangeRequest e s i host port =
      Some (bs_put s (enc_stun_header e 1 0 i 8 @ enc_uint16 e 3 @ enc_uint16 e 4 @
        enc_uint32 e ((if host then 4 else 0) + (if port then 2 else 0)))) \<and>
    (\<forall>s'. stunProtocolPackBindingRequest e s i = Some s' \<or>
        stunProtocolPackBindingChangeRequest e s i host port = Some s' \<longrightarrow>
      stunProtocolUnpackBindingResponse e (s'\<lparr>bs_offset := bs_offset s\<rparr>) i0 r0 =
        Some (kStunUnexpected, i, r0, bs_adv s' 20\<lparr>bs_offset := bs_offset s + 20\<rparr>))"
proof -
  let ?p = "enc_stun_header e 1 0 i 0" and ?h = "enc_stun_header e 1 0 i 8"
  let ?a = "enc_uint16 e 3 @ enc_uint16 e 4 @ enc_uint32 e ((if host then 4 else 0) + (if port then 2 else 0))"
  have room: "bs_room s 20"
    using assms(2) by (simp add: bs_room_def)
  have plain: "stunProtocolPackBindingRequest e s i = Some (bs_put s ?p)"
    and change: "stunProtocolPackBindingChangeRequest e s i host port = Some (bs_put s (?h @ ?a))"
    using binding_request_room [OF assms(1) room assms(3)] binding_change_request_room [OF assms(1-3)] by blast+
  have refused: "stunProtocolUnpackBindingResponse e (bs_put s (enc_stun_header e 1 0 i n @ xs)\<lparr>bs_offset := bs_offset s\<rparr>) i0 r0 =
      Some (kStunUnexpected, i, r0, bs_adv (bs_put s (enc_stun_header e 1 0 i n @ xs)) 20\<lparr>bs_offset := bs_offset s + 20\<rparr>)"
    if "bs_room s (20 + length xs)" "unat n < 2 ^ 16" for n xs
  proof -
    let ?s = "bs_put s (enc_stun_header e 1 0 i n @ xs)\<lparr>bs_offset := bs_offset s\<rparr>"
    have "bs_wf ?s" "bs_at ?s (enc_stun_header e 1 0 i n @ xs)"
      using that(1) assms(1,3) by (auto intro: bs_wf_rewind bs_at_put)
    then have "stunProtocolUnpackHeader e ?s 0 i0 = Some (kStunValid, 1, 0, i, n, bs_adv ?s 20)"
      using that(2) assms(3,4) stunProtocolUnpackHeader_at [of ?s e 1 0 i n i0 0] by (simp add: bs_at_append)
    then show ?thesis
      by (simp add: stunProtocolUnpackBindingResponse_def bs_adv_def)
  qed
  show ?thesis
    using plain change assms(2) room refused [of "[]" 0] refused [of ?a 8] by auto
qed

theorem stun_requests_on_the_wire_witness:
  "stunProtocolPackBindingChangeRequest LittleEndian (bitstream_create (replicate 256 0) 256) (replicate 12 7) True False =
      Some (bs_put (bitstream_create (replicate 256 0) 256) (enc_stun_header LittleEndian 1 0 (replicate 12 7) 8
        @ enc_uint16 LittleEndian 3 @ enc_uint16 LittleEndian 4 @ enc_uint32 LittleEndian 4))"
  using stun_requests_on_the_wire [of "bitstream_create (replicate 256 0) 256" "replicate 12 7" "replicate 12 0"
      LittleEndian True False zero_binding_response]
  by (simp add: bs_wf_def bs_room_def bitstream_create_def)

end
