(* ===== verification/Stun_Utils.thy ===== *)
theory Stun_Utils
  imports Stun_Protocol
begin

text \<open>
  Transaction ids of STUN (\<^verbatim>\<open>stun_utils.c\<close>, in the build for targets other than iOS). What \<^verbatim>\<open>open\<close>
  and the successive \<^verbatim>\<open>read\<close> calls answer are arguments, and \<open>rand seed b\<close> is the value of the call
  number \<open>b\<close> of \<^verbatim>\<open>rand\<close> after \<^verbatim>\<open>srand(seed)\<close>.
\<close>

section \<open>Definitions\<close>

text \<open>One answer of \<^verbatim>\<open>read\<close>: its result, whether \<^verbatim>\<open>errno\<close> is \<^verbatim>\<open>EINTR\<close>, and the bytes stored.\<close>

type_synonym read_answer = "int \<times> bool \<times> u8 list"

fun sec_random_loop :: "read_answer list \<Rightarrow> size_t \<Rightarrow> u8 list \<Rightarrow> size_t \<Rightarrow> (int \<times> u8 list) option" where
  "sec_random_loop [] count bytes p = None"
| "sec_random_loop ((bytesRead, eintr, data) # reads) count bytes p =
     (if bytesRead > 0
      then if nat bytesRead > count - p \<or> length data < nat bytesRead then None
           else sec_random_loop reads count (overwrite bytes p (take (nat bytesRead) data)) (p + nat bytesRead)
      else if bytesRead < 0 \<and> eintr then sec_random_loop reads count bytes p
      else Some (bytesRead, bytes))"

definition SecRandomCopyBytes :: "int \<Rightarrow> read_answer list \<Rightarrow> size_t \<Rightarrow> u8 list \<Rightarrow> (int \<times> u8 list) option" where
  "SecRandomCopyBytes fd reads count bytes =
     (if fd < 0 then Some (-1, bytes)
      else do {
        (bytesRead, bytes) \<leftarrow> sec_random_loop reads count bytes 0;
        Some (if bytesRead < 0 then -1 else 0, bytes)
      })"

text \<open>The bytes of \<^verbatim>\<open>entropy\<close> in memory as a number.\<close>

definition entropy_word :: "endian \<Rightarrow> u8 list \<Rightarrow> u32" where
  "entropy_word e bytes = word_rcat (case e of BigEndian \<Rightarrow> bytes | LittleEndian \<Rightarrow> rev bytes)"

text \<open>\<open>None\<close> as the id stands for a null pointer.\<close>

definition stunGenerateTransactionId ::
    "endian \<Rightarrow> int \<Rightarrow> read_answer list \<Rightarrow> (u32 \<Rightarrow> nat \<Rightarrow> int) \<Rightarrow> StunTransactionId option \<Rightarrow> StunTransactionId option option" where
  "stunGenerateTransactionId e fd reads rand transactionId =
     (case transactionId of
        None \<Rightarrow> Some None
      | Some _ \<Rightarrow> do {
          (_, bytes) \<leftarrow> SecRandomCopyBytes fd reads 4 (replicate 4 0);
          let entropy = entropy_word e bytes;
          Some (Some (map (\<lambda>b. word_of_int (rand entropy b mod 256)) [0..<kStunTransactionIdLen]))
        })"

definition stunIsValidTransactionId :: "StunTransactionId \<Rightarrow> bool" where
  "stunIsValidTransactionId transactionId \<longleftrightarrow> transactionId \<noteq> replicate kStunTransactionIdLen 0"

definition stunIsEqualTransactionId :: "StunTransactionId \<Rightarrow> StunTransactionId \<Rightarrow> bool" where
  "stunIsEqualTransactionId transactionIdA transactionIdB \<longleftrightarrow> transactionIdA = transactionIdB"

section \<open>Properties\<close>

text \<open>Answers that end: interrupted calls and partial reads, and then the four bytes are there or the device fails.\<close>

definition reads_end :: "read_answer list \<Rightarrow> bool" where
  "reads_end reads \<longleftrightarrow> (\<exists>answers n eintr data rest. reads = answers @ (n, eintr, data) # rest \<and> n \<le> 0 \<and> (n < 0 \<longrightarrow> \<not> eintr) \<and>
     (\<forall>(m, intr, xs) \<in> set answers. if m > 0 then length xs = nat m else m < 0 \<and> intr) \<and>
     (\<Sum>(m, intr, xs)\<leftarrow>answers. if m > 0 then nat m else 0) \<le> 4)"

lemma sec_random_loop_ends:
  assumes "\<forall>(m, intr, xs) \<in> set answers. if m > 0 then length xs = nat m else m < 0 \<and> intr"
    and "p + (\<Sum>(m, intr, xs)\<leftarrow>answers. if m > 0 then nat m else 0) \<le> count" "length bytes = count" "n \<le> 0" "n < 0 \<longrightarrow> \<not> eintr"
  shows "\<exists>bytes'. sec_random_loop (answers @ (n, eintr, data) # rest) count bytes p = Some (n, bytes') \<and> length bytes' = count"
  using assms
proof (induction answers arbitrary: bytes p)
  case (Cons a answers)
  obtain m intr xs where a: "a = (m, intr, xs)"
    by (cases a)
  show ?case
  proof (cases "m > 0")
    case True
    have "length (overwrite bytes p (take (nat m) xs)) = count"
      using Cons.prems(2,3) a True by (simp add: overwrite_def)
    with Cons.IH [of "p + nat m" "overwrite bytes p (take (nat m) xs)"] Cons.prems a True show ?thesis
      by simp
  next
    case False
    with Cons.IH [of p bytes] Cons.prems a show ?thesis
      by simp
  qed
qed auto

lemma stunGenerateTransactionId_some:
  assumes "fd < 0 \<or> reads_end reads"
  shows "\<exists>i. stunGenerateTransactionId e fd reads rand (Some i0) = Some (Some i) \<and> length i = kStunTransactionIdLen"
proof (cases "fd < 0")
  case True
  then show ?thesis
    by (simp add: stunGenerateTransactionId_def SecRandomCopyBytes_def)
next
  case False
  then obtain answers n eintr data rest where r: "reads = answers @ (n, eintr, data) # rest" "n \<le> 0" "n < 0 \<longrightarrow> \<not> eintr"
      "\<forall>(m, intr, xs) \<in> set answers. if m > 0 then length xs = nat m else m < 0 \<and> intr"
      "(\<Sum>(m, intr, xs)\<leftarrow>answers. if m > 0 then nat m else 0) \<le> 4"
    using assms unfolding reads_end_def by blast
  from sec_random_loop_ends [OF r(4) _ _ r(2,3), of 0 4 "replicate 4 0" data rest] r(1,5) False show ?thesis
    by (auto simp: stunGenerateTransactionId_def SecRandomCopyBytes_def)
qed

text \<open>
  The ids are determined by the 32 bits of the seed: of the \<open>2 ^ 96\<close> ids of the protocol at most
  \<open>2 ^ 32\<close> can occur.
\<close>

lemma stun_ids_few:
  "card {i. \<exists>fd reads. stunGenerateTransactionId e fd reads rand (Some i0) = Some (Some i)} \<le> 2 ^ 32"
proof -
  let ?id = "\<lambda>entropy :: u32. map (\<lambda>b. word_of_int (rand entropy b mod 256) :: u8) [0..<12]"
  have "{i. \<exists>fd reads. stunGenerateTransactionId e fd reads rand (Some i0) = Some (Some i)} \<subseteq> ?id ` UNIV"
    by (auto simp: stunGenerateTransactionId_def Option.bind_eq_Some_conv Let_def)
  then have "card {i. \<exists>fd reads. stunGenerateTransactionId e fd reads rand (Some i0) = Some (Some i)} \<le> card (?id ` (UNIV :: u32 set))"
    by (intro card_mono) simp_all
  also have "\<dots> \<le> card (UNIV :: u32 set)"
    by (rule card_image_le) simp
  also have "\<dots> = 2 ^ 32"
    by (simp add: card_word)
  finally show ?thesis .
qed

end
