(* ===== verification/Timeout.thy ===== *)
theory Timeout
  imports Net_Prelude
begin

text \<open>
  One-shot timers (\<^verbatim>\<open>timeout.c\<close>). The dispatch library is not part of the program: every
  operation returns the timer and the calls it makes to the library, and the source that
  \<^verbatim>\<open>dispatch_source_create\<close> answers is an argument. The event handler is split where it calls the
  user's block, since other threads run between the two halves.

  A source has one reference when it is created; \<open>source_refs\<close> reads the count off the calls.
\<close>

section \<open>Definitions\<close>

abbreviation (input) kNSEC_PER_MILLISEC :: u64 where "kNSEC_PER_MILLISEC \<equiv> 1000000"
abbreviation (input) kLEEWAY :: u64 where "kLEEWAY \<equiv> 10 * kNSEC_PER_MILLISEC"

record timeout_t =
  timerDispatchSource :: ptr
  valid :: bool

text \<open>What the handler calls: a function on the context of the source, or a block.\<close>

datatype timeout_handler = CallbackHandler ptr | BlockHandler ptr

datatype dispatch_call =
    SourceCreate ptr
  | SourceSetTimer ptr u64 u64
  | SourceSetContext ptr ptr
  | SourceSetHandler ptr timeout_handler
  | SourceResume ptr
  | SourceCancel ptr
  | SourceRelease ptr

definition timeout_destroy :: "timeout_t \<Rightarrow> timeout_t \<times> dispatch_call list" where
  "timeout_destroy timeout =
     (if valid timeout
      then let timeout = timeout\<lparr>valid := False\<rparr>
           in (timeout, [SourceCancel (timerDispatchSource timeout), SourceRelease (timerDispatchSource timeout)])
      else (timeout, []))"

text \<open>The delay is \<^verbatim>\<open>milliseconds * kNSEC_PER_MILLISEC\<close> in unsigned 64-bit arithmetic.\<close>

definition timeout_ns :: "int \<Rightarrow> u64" where
  "timeout_ns milliseconds = word_of_int milliseconds * kNSEC_PER_MILLISEC"

definition timeout_create ::
    "ptr \<Rightarrow> timeout_t \<Rightarrow> ptr \<Rightarrow> ptr \<Rightarrow> int \<Rightarrow> timeout_t \<times> dispatch_call list" where
  "timeout_create source timeout callback context milliseconds =
     (let (timeout, calls) = (if valid timeout then timeout_destroy timeout else (timeout, []));
          timeout = timeout\<lparr>timerDispatchSource := source\<rparr>
      in if timerDispatchSource timeout \<noteq> NULL
         then (timeout\<lparr>valid := True\<rparr>,
               calls @ [SourceCreate source, SourceSetTimer source (timeout_ns milliseconds) kLEEWAY,
                 SourceSetContext source context, SourceSetHandler source (CallbackHandler callback), SourceResume source])
         else (timeout, calls))"

definition timeout_create_block ::
    "ptr \<Rightarrow> timeout_t \<Rightarrow> ptr \<Rightarrow> int \<Rightarrow> timeout_t \<times> dispatch_call list" where
  "timeout_create_block source timeout block milliseconds =
     (let (timeout, calls) = (if valid timeout then timeout_destroy timeout else (timeout, []));
          timeout = timeout\<lparr>timerDispatchSource := source\<rparr>
      in if timerDispatchSource timeout \<noteq> NULL
         then (timeout\<lparr>valid := True\<rparr>,
               calls @ [SourceCreate source, SourceSetTimer source (timeout_ns milliseconds) kLEEWAY,
                 SourceSetHandler source (BlockHandler block), SourceResume source])
         else (timeout, calls))"

text \<open>\<open>queue\<close> is the queue the source is attached to; it does not influence anything here.\<close>

definition timeout_create_queue ::
    "ptr \<Rightarrow> timeout_t \<Rightarrow> ptr \<Rightarrow> int \<Rightarrow> ptr \<Rightarrow> timeout_t \<times> dispatch_call list" where
  "timeout_create_queue source timeout queue milliseconds block =
     (let (timeout, calls) = (if valid timeout then timeout_destroy timeout else (timeout, []));
          timeout = timeout\<lparr>timerDispatchSource := source\<rparr>
      in if timerDispatchSource timeout \<noteq> NULL
         then (timeout\<lparr>valid := True\<rparr>,
               calls @ [SourceCreate source, SourceSetTimer source (timeout_ns milliseconds) kLEEWAY,
                 SourceSetHandler source (BlockHandler block), SourceResume source])
         else (timeout, calls))"

text \<open>The event handler after the block has returned.\<close>

definition timeout_fired :: "timeout_t \<Rightarrow> timeout_t \<times> dispatch_call list" where
  "timeout_fired timeout =
     (let timeout = timeout\<lparr>valid := False\<rparr> in (timeout, [SourceRelease (timerDispatchSource timeout)]))"

text \<open>Sequences of operations on one timer, with the calls so far.\<close>

datatype timeout_event =
    TCallback ptr ptr ptr int
  | TBlock ptr ptr int
  | TQueue ptr ptr int ptr
  | TDestroy
  | TFired

fun timeout_step :: "timeout_event \<Rightarrow> timeout_t \<Rightarrow> timeout_t \<times> dispatch_call list" where
  "timeout_step (TCallback source callback context ms) t = timeout_create source t callback context ms"
| "timeout_step (TBlock source block ms) t = timeout_create_block source t block ms"
| "timeout_step (TQueue source queue ms block) t = timeout_create_queue source t queue ms block"
| "timeout_step TDestroy t = timeout_destroy t"
| "timeout_step TFired t = timeout_fired t"

fun timeout_run :: "timeout_event list \<Rightarrow> timeout_t \<times> dispatch_call list \<Rightarrow> timeout_t \<times> dispatch_call list" where
  "timeout_run [] w = w"
| "timeout_run (ev # evs) w = (let (t, calls) = timeout_step ev (fst w) in timeout_run evs (t, snd w @ calls))"

definition source_refs :: "dispatch_call list \<Rightarrow> ptr \<Rightarrow> int" where
  "source_refs calls s = int (count_list calls (SourceCreate s)) - int (count_list calls (SourceRelease s))"

fun event_source :: "timeout_event \<Rightarrow> ptr" where
  "event_source (TCallback source _ _ _) = source"
| "event_source (TBlock source _ _) = source"
| "event_source (TQueue source _ _ _) = source"
| "event_source TDestroy = NULL"
| "event_source TFired = NULL"

text \<open>
  Runs in which nothing happens between the two halves of a handler: every source that is created
  is new or \<open>NULL\<close>, and a timer fires only while it is valid.
\<close>

fun timeout_legal :: "timeout_event list \<Rightarrow> timeout_t \<times> dispatch_call list \<Rightarrow> bool" where
  "timeout_legal [] w \<longleftrightarrow> True"
| "timeout_legal (ev # evs) w \<longleftrightarrow>
     (event_source ev \<noteq> NULL \<longrightarrow> SourceCreate (event_source ev) \<notin> set (snd w)) \<and>
     (ev = TFired \<longrightarrow> valid (fst w)) \<and>
     timeout_legal evs (timeout_run [ev] w)"

section \<open>The invariant\<close>

text \<open>Each source that was created has one reference while it is the valid one, and none otherwise.\<close>

definition timeout_inv :: "timeout_t \<times> dispatch_call list \<Rightarrow> bool" where
  "timeout_inv w \<longleftrightarrow>
     (\<forall>s. source_refs (snd w) s = (if valid (fst w) \<and> s = timerDispatchSource (fst w) then 1 else 0)) \<and>
     (\<forall>s. count_list (snd w) (SourceCreate s) \<le> 1) \<and>
     (valid (fst w) \<longrightarrow> timerDispatchSource (fst w) \<noteq> NULL)"

lemma source_refs_append: "source_refs (xs @ ys) s = source_refs xs s + source_refs ys s"
  by (simp add: source_refs_def)

lemma source_refs_simps [simp]:
  "source_refs [] s = 0"
  "source_refs (SourceCreate a # cs) s = (if a = s then 1 else 0) + source_refs cs s"
  "source_refs (SourceRelease a # cs) s = source_refs cs s - (if a = s then 1 else 0)"
  "source_refs (SourceCancel a # cs) s = source_refs cs s"
  "source_refs (SourceSetTimer a d l # cs) s = source_refs cs s"
  "source_refs (SourceSetContext a x # cs) s = source_refs cs s"
  "source_refs (SourceSetHandler a h # cs) s = source_refs cs s"
  "source_refs (SourceResume a # cs) s = source_refs cs s"
  by (simp_all add: source_refs_def)

lemma timeout_create_kinds:
  "timeout_create source t callback context ms = (t', calls) \<Longrightarrow>
     fst (timeout_create_block source t block ms) = t' \<and>
     source_refs (snd (timeout_create_block source t block ms)) = source_refs calls \<and>
     (\<forall>s. count_list (snd (timeout_create_block source t block ms)) (SourceCreate s) = count_list calls (SourceCreate s))"
  by (auto simp: timeout_create_def timeout_create_block_def source_refs_def timeout_destroy_def Let_def fun_eq_iff
      split: prod.splits if_splits)

lemma timeout_create_queue_block: "timeout_create_queue source t queue ms block = timeout_create_block source t block ms"
  by (simp add: timeout_create_queue_def timeout_create_block_def)

lemma create_step_inv:
  assumes "timeout_inv (t, calls)" "source \<noteq> NULL \<longrightarrow> SourceCreate source \<notin> set calls"
  shows "timeout_inv (fst (timeout_create_block source t block ms), calls @ snd (timeout_create_block source t block ms))"
proof -
  have new: "count_list calls (SourceCreate source) = 0" if "source \<noteq> 0"
    using assms(2) that by (simp add: count_list_0_iff)
  have inv: "source_refs calls s = (if valid t \<and> s = timerDispatchSource t then 1 else 0)"
      "count_list calls (SourceCreate s) \<le> 1" "valid t \<longrightarrow> timerDispatchSource t \<noteq> 0" for s
    using assms(1) by (simp_all add: timeout_inv_def)
  have "source \<noteq> timerDispatchSource t" if "source \<noteq> 0" "valid t"
  proof
    assume "source = timerDispatchSource t"
    with inv(1) [of source] that(2) new [OF that(1)] show False
      by (simp add: source_refs_def)
  qed
  with new inv show ?thesis
    by (auto simp: timeout_inv_def timeout_create_block_def timeout_destroy_def Let_def source_refs_append)
qed

lemma timeout_step_inv:
  assumes "timeout_inv (t, calls)" "event_source ev \<noteq> NULL \<longrightarrow> SourceCreate (event_source ev) \<notin> set calls" "ev = TFired \<longrightarrow> valid t"
  shows "timeout_inv (fst (timeout_step ev t), calls @ snd (timeout_step ev t))"
proof (cases ev)
  case (TCallback source callback ctx ms)
  with assms create_step_inv [OF assms(1), of source callback ms]
  show ?thesis
    using timeout_create_kinds [of source t callback ctx ms _ _ callback]
    by (cases "timeout_create source t callback ctx ms") (auto simp: timeout_inv_def source_refs_append)
next
  case TDestroy
  with assms(1) show ?thesis
    by (auto simp: timeout_inv_def timeout_destroy_def source_refs_append Let_def)
next
  case TFired
  with assms show ?thesis
    by (auto simp: timeout_inv_def timeout_fired_def source_refs_append Let_def)
qed (use assms create_step_inv timeout_create_queue_block in auto)

lemma timeout_run_inv: "timeout_inv w \<Longrightarrow> timeout_legal evs w \<Longrightarrow> timeout_inv (timeout_run evs w)"
proof (induction evs arbitrary: w)
  case (Cons ev evs)
  let ?w = "(fst (timeout_step ev (fst w)), snd w @ snd (timeout_step ev (fst w)))"
  have step: "timeout_run (ev # evs') w = timeout_run evs' ?w" for evs'
    by (simp add: case_prod_beta)
  have "timeout_inv ?w"
    using timeout_step_inv [of "fst w" "snd w" ev] Cons.prems by auto
  moreover have "timeout_legal evs ?w"
    using Cons.prems(2) step [of "[]"] by simp
  ultimately show ?case
    using Cons.IH step by simp
qed simp

section \<open>Properties\<close>

text \<open>
  (C37) Every source is released exactly once. As long as nothing happens between the block of a
  timer and the rest of its handler, any sequence of creations, destructions and firings leaves
  each source it has created with exactly one reference while it is the valid timer's and with none
  otherwise, and a valid timer always has a source.
\<close>

theorem timeout_releases_once:
  assumes "timeout_legal evs (\<lparr>timerDispatchSource = NULL, valid = False\<rparr>, [])"
    and "timeout_run evs (\<lparr>timerDispatchSource = NULL, valid = False\<rparr>, []) = (t, calls)"
  shows "(\<forall>s. source_refs calls s = (if valid t \<and> s = timerDispatchSource t then 1 else 0)) \<and>
    (valid t \<longrightarrow> timerDispatchSource t \<noteq> NULL)"
proof -
  have "timeout_inv (\<lparr>timerDispatchSource = NULL, valid = False\<rparr>, [])"
    by (simp add: timeout_inv_def)
  from timeout_run_inv [OF this assms(1)] show ?thesis
    unfolding assms(2) by (simp add: timeout_inv_def)
qed

theorem timeout_releases_once_witness:
  "\<exists>t calls. timeout_run [TBlock 7 1 1000, TFired, TCallback 8 2 3 2000, TQueue 9 4 500 1]
      (\<lparr>timerDispatchSource = NULL, valid = False\<rparr>, []) = (t, calls) \<and>
    source_refs calls 7 = 0 \<and> source_refs calls 8 = 0 \<and> source_refs calls 9 = 1"
proof -
  let ?evs = "[TBlock 7 1 1000, TFired, TCallback 8 2 3 2000, TQueue 9 4 500 1]"
    and ?w = "(\<lparr>timerDispatchSource = NULL, valid = False\<rparr>, [])"
  have "timeout_legal ?evs ?w"
    by (simp add: timeout_create_block_def timeout_fired_def timeout_create_def timeout_create_queue_def timeout_destroy_def Let_def)
  moreover have "timerDispatchSource (fst (timeout_run ?evs ?w)) = 9" "valid (fst (timeout_run ?evs ?w))"
    by (simp_all add: timeout_create_block_def timeout_fired_def timeout_create_def timeout_create_queue_def timeout_destroy_def Let_def)
  ultimately show ?thesis
    using timeout_releases_once [of ?evs "fst (timeout_run ?evs ?w)" "snd (timeout_run ?evs ?w)"]
    by (intro exI [of _ "fst (timeout_run ?evs ?w)"] exI [of _ "snd (timeout_run ?evs ?w)"]) simp
qed

text \<open>
  (C39) The race of the handler. If the block of a timer re-arms it, as the retries of transactions
  and address tests do, and does so before the handler goes on, the handler releases the new
  source instead of its own: the new timer loses its only reference while it is armed, is marked
  invalid and so cannot be cancelled any more, and when it fires nevertheless it is released once
  more.
\<close>

theorem timeout_rearm_race:
  assumes "old \<noteq> NULL" "new \<noteq> NULL" "old \<noteq> new"
  shows "\<exists>t calls. timeout_run [TBlock old block ms, TDestroy, TBlock new block ms', TFired]
      (\<lparr>timerDispatchSource = NULL, valid = False\<rparr>, []) = (t, calls) \<and>
    timerDispatchSource t = new \<and> \<not> valid t \<and> source_refs calls new = 0 \<and> SourceResume new \<in> set calls \<and>
    SourceCancel new \<notin> set calls \<and> timeout_destroy t = (t, []) \<and>
    source_refs (snd (timeout_run [TFired] (t, calls))) new = -1"
  using assms
  by (simp add: timeout_create_block_def timeout_fired_def timeout_destroy_def Let_def)

theorem timeout_rearm_race_witness:
  "\<exists>t calls. timeout_run [TBlock 7 1 1000, TDestroy, TBlock 8 1 2000, TFired]
      (\<lparr>timerDispatchSource = NULL, valid = False\<rparr>, []) = (t, calls) \<and> source_refs calls 8 = 0 \<and> SourceCancel 8 \<notin> set calls"
  using timeout_rearm_race [of 7 8 1 1000 2000] by auto

end
