(* ===== verification/Chain.thy ===== *)
theory Chain
  imports Net_Prelude
begin

text \<open>
  Singly linked chains, the shape the queue, the pool and the list of the library share: a
  partial successor function \<open>nxt\<close> (undefined where a node does not exist) and 0 as the end of
  the chain; links are pointers or, in the list, indices. The loops that count or collect the nodes of a chain are partial functions: a
  cyclic chain gives no result.
\<close>

section \<open>Definitions\<close>

fun path :: "('p::zero \<Rightarrow> 'p option) \<Rightarrow> 'p \<Rightarrow> 'p list \<Rightarrow> 'p \<Rightarrow> bool" where
  "path nxt p [] q \<longleftrightarrow> p = q"
| "path nxt p (x # xs) q \<longleftrightarrow> p = x \<and> x \<noteq> 0 \<and> (case nxt x of None \<Rightarrow> False | Some r \<Rightarrow> path nxt r xs q)"

definition chain :: "('p::zero \<Rightarrow> 'p option) \<Rightarrow> 'p \<Rightarrow> 'p list \<Rightarrow> bool" where
  "chain nxt p xs \<longleftrightarrow> path nxt p xs 0"

partial_function (option) nodes_from :: "('p::zero \<Rightarrow> 'p option) \<Rightarrow> 'p \<Rightarrow> 'p list option" where
  "nodes_from nxt p =
     (if p = 0 then Some []
      else do { q \<leftarrow> nxt p; xs \<leftarrow> nodes_from nxt q; Some (p # xs) })"

text \<open>The counting loop the debug functions of the three containers share.\<close>

partial_function (option) count_nodes :: "('p::zero \<Rightarrow> 'p option) \<Rightarrow> 'p \<Rightarrow> int \<Rightarrow> int option" where
  "count_nodes nxt iter n =
     (if iter = 0 then Some n else do { iter \<leftarrow> nxt iter; count_nodes nxt iter (n + 1) })"

section \<open>Paths\<close>

lemma path_append: "path nxt p (xs @ ys) q \<longleftrightarrow> (\<exists>r. path nxt p xs r \<and> path nxt r ys q)"
  by (induction xs arbitrary: p) (auto split: option.splits)

lemma path_cong: "(\<And>x. x \<in> set xs \<Longrightarrow> nxt x = nxt' x) \<Longrightarrow> path nxt p xs q \<longleftrightarrow> path nxt' p xs q"
  by (induction xs arbitrary: p) (auto split: option.splits)

lemma path_nonzero: "path nxt p xs q \<Longrightarrow> 0 \<notin> set xs"
  by (induction xs arbitrary: p) (auto split: option.splits)

lemma path_dom: "path nxt p xs q \<Longrightarrow> set xs \<subseteq> dom nxt"
  by (induction xs arbitrary: p) (auto split: option.splits)

lemma path_start: "path nxt p xs q \<Longrightarrow> p = (case xs of [] \<Rightarrow> q | x # _ \<Rightarrow> x)"
  by (cases xs) auto

lemma path_upd [simp]: "x \<notin> set xs \<Longrightarrow> path (nxt(x := r)) p xs q \<longleftrightarrow> path nxt p xs q"
  by (rule path_cong) auto

lemma path_last_upd:
  assumes "path nxt p (xs @ [x]) q" "x \<notin> set xs"
  shows "path (nxt(x \<mapsto> r)) p (xs @ [x]) r"
  using assms by (auto simp: path_append)

section \<open>Chains\<close>

lemma chain_Nil [simp]: "chain nxt p [] \<longleftrightarrow> p = 0"
  by (simp add: chain_def)

lemma chain_Cons [simp]:
  "chain nxt p (x # xs) \<longleftrightarrow> p = x \<and> x \<noteq> 0 \<and> (\<exists>r. nxt x = Some r \<and> chain nxt r xs)"
  by (auto simp: chain_def split: option.splits)

lemma chain_zero [simp]: "chain nxt 0 xs \<longleftrightarrow> xs = []"
  by (cases xs) auto

lemma chain_nonempty: "chain nxt p xs \<Longrightarrow> p \<noteq> 0 \<Longrightarrow> \<exists>ys. xs = p # ys"
  by (cases xs) auto

lemma chain_unique: "chain nxt p xs \<Longrightarrow> chain nxt p ys \<Longrightarrow> xs = ys"
proof (induction xs arbitrary: p ys)
  case (Cons x xs)
  then show ?case by (cases ys) auto
qed auto

lemma chain_upd [simp]: "x \<notin> set xs \<Longrightarrow> chain (nxt(x := r)) p xs \<longleftrightarrow> chain nxt p xs"
  by (simp add: chain_def)

lemma chain_cong: "(\<And>x. x \<in> set xs \<Longrightarrow> nxt x = nxt' x) \<Longrightarrow> chain nxt p xs \<longleftrightarrow> chain nxt' p xs"
  unfolding chain_def by (rule path_cong)

lemma chain_nonzero: "chain nxt p xs \<Longrightarrow> 0 \<notin> set xs"
  unfolding chain_def by (rule path_nonzero)

lemma chain_dom: "chain nxt p xs \<Longrightarrow> set xs \<subseteq> dom nxt"
  unfolding chain_def by (rule path_dom)

lemma chain_snoc:
  assumes "chain nxt p (xs @ [x])" "x \<notin> set xs" "y \<noteq> 0" "y \<notin> set (xs @ [x])"
  shows "chain (nxt(x \<mapsto> y, y \<mapsto> 0)) p (xs @ [x, y])"
proof -
  have "path (nxt(x \<mapsto> y)) p (xs @ [x]) y"
    using assms(1,2) unfolding chain_def by (rule path_last_upd)
  then have "path (nxt(x \<mapsto> y, y \<mapsto> 0)) p (xs @ [x]) y"
    using assms(4) by simp
  moreover have "path (nxt(x \<mapsto> y, y \<mapsto> 0)) y [y] 0"
    using assms(3) by simp
  ultimately have "path (nxt(x \<mapsto> y, y \<mapsto> 0)) p ((xs @ [x]) @ [y]) 0"
    using path_append by blast
  then show ?thesis
    by (simp add: chain_def)
qed

lemma chain_suffix:
  "chain nxt p (xs @ x # ys) \<Longrightarrow> chain nxt x (x # ys)"
  by (induction xs arbitrary: p) auto

lemma chain_distinct: "chain nxt p xs \<Longrightarrow> distinct xs"
proof (induction xs arbitrary: p)
  case (Cons x xs)
  then obtain r where r: "nxt x = Some r" "chain nxt r xs"
    by auto
  have "x \<notin> set xs"
  proof
    assume "x \<in> set xs"
    then obtain us vs where xs: "xs = us @ x # vs"
      by (auto simp: in_set_conv_decomp)
    with r have "chain nxt x (x # vs)"
      by (auto dest: chain_suffix)
    with Cons.prems have "x # xs = x # vs"
      by (auto intro: chain_unique)
    with xs show False
      by simp
  qed
  with Cons.IH r show ?case
    by simp
qed simp

lemma nodes_from_chain: "chain nxt p xs \<Longrightarrow> nodes_from nxt p = Some xs"
  by (induction xs arbitrary: p) (auto simp: nodes_from.simps)

lemma count_nodes_chain: "chain nxt p xs \<Longrightarrow> count_nodes nxt p n = Some (n + int (length xs))"
  by (induction xs arbitrary: p n) (auto simp: count_nodes.simps)

text \<open>Unlinking a node: its predecessor, or the start of the chain, takes over its successor.\<close>

lemma chain_remove:
  assumes "chain nxt h (us @ i # vs)" "nxt i = Some q"
  shows "chain (if us = [] then nxt else nxt(last us \<mapsto> q)) (if us = [] then q else h) (us @ vs)"
proof (cases us rule: rev_cases)
  case Nil
  with assms show ?thesis by auto
next
  case (snoc us' u)
  have d: "u \<notin> set us'" "u \<notin> set vs"
    using chain_distinct [OF assms(1)] snoc by auto
  have "path nxt h us i" "path nxt q vs 0"
    using assms by (auto simp: chain_def path_append)
  then have "path (nxt(u \<mapsto> q)) h us q" "path (nxt(u \<mapsto> q)) q vs 0"
    using snoc d path_last_upd [of nxt h us' u i q] by auto
  then have "path (nxt(u \<mapsto> q)) h (us @ vs) 0"
    using path_append by blast
  with snoc show ?thesis
    by (simp add: chain_def)
qed

lemma chain_next:
  "chain nxt h (us @ i # vs) \<Longrightarrow> nxt i = Some (case vs of [] \<Rightarrow> 0 | v # _ \<Rightarrow> v)"
  by (drule chain_suffix) (auto split: list.splits)

lemma chain_prefix_start:
  "chain nxt h (xs @ ys) \<Longrightarrow> xs \<noteq> [] \<Longrightarrow> h = hd xs"
  by (cases xs) auto

end
