(* ===== verification/Pool.thy ===== *)
theory Pool
  imports Chain
begin

text \<open>
  The object pool of \<^verbatim>\<open>pool.c\<close>: one block of memory with \<open>capacity\<close> objects, each
  followed by a node with its retain count and the link of the free list. Addresses are
  natural numbers; the nodes live in a partial map from addresses, so that an access through
  an address at which no node has been woven is \<open>None\<close>. The results of the two allocations
  are arguments of \<open>pool_create\<close>.

  The locale \<open>refcount_pool\<close> states the contract in terms of a reference count per object.
\<close>

section \<open>Definitions\<close>

record pool_node_s =
  pn_object :: ptr
  pn_retainCount :: u32
  pn_next :: ptr

text \<open>\<^verbatim>\<open>sizeof(struct pool_node_s)\<close> on an LP64 target.\<close>

abbreviation (input) sizeof_pool_node :: size_t where "sizeof_pool_node \<equiv> 24"

record pool_s =
  p_memblock :: ptr
  p_membound :: ptr
  p_sizeObject :: size_t
  p_sizeObjectNode :: size_t
  p_capacity :: size_t
  p_freeList :: ptr
  p_allocCount :: u32
  p_nodes :: "ptr \<Rightarrow> pool_node_s option"

definition mAddressDoesNotBelongsToPool :: "ptr \<Rightarrow> pool_s \<Rightarrow> bool" where
  "mAddressDoesNotBelongsToPool Address p \<longleftrightarrow> Address < p_memblock p \<or> Address \<ge> p_membound p"

text \<open>A node write outside the memory block is undefined.\<close>

definition pool_put_node :: "pool_s \<Rightarrow> ptr \<Rightarrow> pool_node_s \<Rightarrow> pool_s option" where
  "pool_put_node p a n =
     (if p_memblock p \<le> a \<and> a + sizeof_pool_node \<le> p_membound p
      then Some (p\<lparr>p_nodes := (p_nodes p)(a \<mapsto> n)\<rparr>) else None)"

definition pool_set_next :: "pool_s \<Rightarrow> ptr \<Rightarrow> ptr \<Rightarrow> pool_s option" where
  "pool_set_next p a q = do {
     n \<leftarrow> p_nodes p a;
     Some (p\<lparr>p_nodes := (p_nodes p)(a \<mapsto> n\<lparr>pn_next := q\<rparr>)\<rparr>)
   }"

text \<open>The loop; \<open>capacity\<close> and the two sizes are not changed by it.\<close>

function pool_weave_loop :: "size_t \<Rightarrow> pool_s \<Rightarrow> ptr \<Rightarrow> ptr \<Rightarrow> nat \<Rightarrow> pool_s option" where
  "pool_weave_loop capacity p addrNode prevNode i =
     (if i < capacity
      then do {
        let tmp = addrNode;
        p \<leftarrow> pool_put_node p tmp
          \<lparr>pn_object = addrNode - p_sizeObject p, pn_retainCount = 0, pn_next = NULL\<rparr>;
        p \<leftarrow> (if p_freeList p = NULL then Some (p\<lparr>p_freeList := tmp\<rparr>) else pool_set_next p prevNode tmp);
        pool_weave_loop capacity p (addrNode + p_sizeObjectNode p) tmp (i + 1)
      }
      else Some p)"
  by pat_completeness auto
termination
  by (relation "measure (\<lambda>(c, p, a, b, i). c - i)") auto

declare pool_weave_loop.simps [simp del]

definition pool_weave_freelist :: "pool_s \<Rightarrow> pool_s option" where
  "pool_weave_freelist p = pool_weave_loop (p_capacity p) p (p_memblock p + p_sizeObject p) NULL 0"

text \<open>
  \<open>Some None\<close> is the \<open>NULL\<close> result. The size of the block is computed in \<open>size_t\<close>
  arithmetic and may wrap.
\<close>

definition pool_create :: "bool \<Rightarrow> ptr \<Rightarrow> size_t \<Rightarrow> size_t \<Rightarrow> pool_s option option" where
  "pool_create malloc_ok memblock sizeObject capacity =
     (if malloc_ok
      then do {
        let sizeObjectNode = size_add sizeObject sizeof_pool_node;
        let memsize = (capacity * sizeObjectNode) mod 2 ^ 64;
        if memblock = NULL then Some None
        else do {
          p \<leftarrow> pool_weave_freelist
            \<lparr>p_memblock = memblock, p_membound = memblock + memsize, p_sizeObject = sizeObject,
             p_sizeObjectNode = sizeObjectNode, p_capacity = capacity, p_freeList = NULL,
             p_allocCount = 0, p_nodes = Map.empty\<rparr>;
          Some (Some p)
        }
      }
      else Some None)"

text \<open>The blocks given to \<^verbatim>\<open>free\<close> beside the structure itself. A null pointer is left alone.\<close>

definition pool_destroy :: "pool_s option \<Rightarrow> ptr list" where
  "pool_destroy p = (case p of None \<Rightarrow> [] | Some p \<Rightarrow> [p_memblock p])"

definition pool_capacity :: "pool_s \<Rightarrow> size_t" where
  "pool_capacity p = p_capacity p"

definition pool_alloc :: "pool_s \<Rightarrow> (ptr \<times> pool_s) option" where
  "pool_alloc p =
     (if p_freeList p = NULL then Some (NULL, p)
      else do {
        let allocNode = p_freeList p;
        n \<leftarrow> p_nodes p allocNode;
        let p = p\<lparr>p_freeList := pn_next n\<rparr>;
        let p = p\<lparr>p_nodes := (p_nodes p)(allocNode \<mapsto> n\<lparr>pn_next := NULL, pn_retainCount := 1\<rparr>)\<rparr>;
        Some (pn_object n, p\<lparr>p_allocCount := p_allocCount p + 1\<rparr>)
      })"

definition pool_retain :: "pool_s \<Rightarrow> ptr \<Rightarrow> pool_s option" where
  "pool_retain p object =
     (if p_allocCount p = 0 then Some p
      else if mAddressDoesNotBelongsToPool object p then Some p
      else do {
        let retainNode = object + p_sizeObject p;
        n \<leftarrow> p_nodes p retainNode;
        Some (p\<lparr>p_nodes := (p_nodes p)(retainNode \<mapsto> n\<lparr>pn_retainCount := pn_retainCount n + 1\<rparr>)\<rparr>)
      })"

definition pool_free_node :: "pool_s \<Rightarrow> ptr \<Rightarrow> pool_s option" where
  "pool_free_node p node = do {
     n \<leftarrow> p_nodes p node;
     let n = n\<lparr>pn_next := p_freeList p\<rparr>;
     let p = p\<lparr>p_freeList := node\<rparr>;
     let n = n\<lparr>pn_retainCount := 0\<rparr>;
     Some (p\<lparr>p_nodes := (p_nodes p)(node \<mapsto> n), p_allocCount := p_allocCount p - 1\<rparr>)
   }"

definition pool_free :: "pool_s \<Rightarrow> ptr \<Rightarrow> pool_s option" where
  "pool_free p object =
     (if p_allocCount p = 0 then Some p
      else if mAddressDoesNotBelongsToPool object p then Some p
      else pool_free_node p (object + p_sizeObject p))"

definition pool_release :: "pool_s \<Rightarrow> ptr \<Rightarrow> pool_s option" where
  "pool_release p object =
     (if p_allocCount p = 0 then Some p
      else if mAddressDoesNotBelongsToPool object p then Some p
      else do {
        let releaseNode = object + p_sizeObject p;
        n \<leftarrow> p_nodes p releaseNode;
        let n = n\<lparr>pn_retainCount := pn_retainCount n - 1\<rparr>;
        let p = p\<lparr>p_nodes := (p_nodes p)(releaseNode \<mapsto> n)\<rparr>;
        if pn_retainCount n = 0 then pool_free_node p releaseNode else Some p
      })"

definition pool_nexts :: "(ptr \<Rightarrow> pool_node_s option) \<Rightarrow> ptr \<Rightarrow> ptr option" where
  "pool_nexts h a = map_option pn_next (h a)"

definition debug_pool_free_count :: "pool_s \<Rightarrow> int option" where
  "debug_pool_free_count p = count_nodes (pool_nexts (p_nodes p)) (p_freeList p) 0"

definition debug_pool_alloc_count :: "pool_s \<Rightarrow> int" where
  "debug_pool_alloc_count p = sint (p_allocCount p)"

text \<open>
  The layout of the block, the invariant with the list of free nodes, and the abstraction to
  a reference count per object (0 for an object that is free or does not exist).
\<close>

definition pool_object :: "pool_s \<Rightarrow> nat \<Rightarrow> ptr" where
  "pool_object p i = p_memblock p + i * p_sizeObjectNode p"

definition pool_node :: "pool_s \<Rightarrow> nat \<Rightarrow> ptr" where
  "pool_node p i = pool_object p i + p_sizeObject p"

definition pool_rel :: "pool_s \<Rightarrow> ptr list \<Rightarrow> bool" where
  "pool_rel p fs \<longleftrightarrow>
     p_memblock p \<noteq> NULL \<and> p_sizeObjectNode p = p_sizeObject p + sizeof_pool_node \<and>
     p_membound p = p_memblock p + p_capacity p * p_sizeObjectNode p \<and> p_capacity p < 2 ^ 31 \<and>
     dom (p_nodes p) = pool_node p ` {..<p_capacity p} \<and>
     (\<forall>i < p_capacity p. \<exists>n. p_nodes p (pool_node p i) = Some n \<and> pn_object n = pool_object p i \<and>
        (pn_retainCount n = 0 \<longleftrightarrow> pool_node p i \<in> set fs)) \<and>
     chain (pool_nexts (p_nodes p)) (p_freeList p) fs \<and>
     length fs \<le> p_capacity p \<and> p_allocCount p = of_nat (p_capacity p - length fs)"

text \<open>The state of the weaving loop after \<open>i\<close> rounds.\<close>

definition pool_woven :: "pool_s \<Rightarrow> nat \<Rightarrow> bool" where
  "pool_woven p i \<longleftrightarrow>
     p_memblock p \<noteq> NULL \<and> p_sizeObjectNode p = p_sizeObject p + sizeof_pool_node \<and>
     p_membound p = p_memblock p + p_capacity p * p_sizeObjectNode p \<and> p_allocCount p = 0 \<and>
     dom (p_nodes p) = pool_node p ` {..<i} \<and>
     (\<forall>j < i. \<exists>n. p_nodes p (pool_node p j) = Some n \<and> pn_object n = pool_object p j \<and> pn_retainCount n = 0) \<and>
     chain (pool_nexts (p_nodes p)) (p_freeList p) (map (pool_node p) [0..<i])"

definition pool_inv :: "pool_s \<Rightarrow> bool" where
  "pool_inv p \<longleftrightarrow> (\<exists>fs. pool_rel p fs)"

definition pool_refs :: "pool_s \<Rightarrow> ptr \<Rightarrow> nat" where
  "pool_refs p object =
     (case p_nodes p (object + p_sizeObject p) of None \<Rightarrow> 0 | Some n \<Rightarrow> unat (pn_retainCount n))"

text \<open>The objects of a pool.\<close>

definition pool_objects :: "pool_s \<Rightarrow> ptr set" where
  "pool_objects p = pool_object p ` {..<p_capacity p}"

section \<open>Layout\<close>

lemma pool_layout_cong [simp]:
  "pool_node (p\<lparr>p_nodes := h\<rparr>) = pool_node p" "pool_node (p\<lparr>p_freeList := a\<rparr>) = pool_node p"
  "pool_node (p\<lparr>p_allocCount := c\<rparr>) = pool_node p" "pool_object (p\<lparr>p_nodes := h\<rparr>) = pool_object p"
  "pool_object (p\<lparr>p_freeList := a\<rparr>) = pool_object p" "pool_object (p\<lparr>p_allocCount := c\<rparr>) = pool_object p"
  by (simp_all add: pool_node_def pool_object_def fun_eq_iff)

lemma pool_nexts_upd [simp]: "pool_nexts (h(a \<mapsto> n)) = (pool_nexts h)(a \<mapsto> pn_next n)"
  by (simp add: pool_nexts_def fun_eq_iff)

lemma pool_node_inj: "0 < p_sizeObjectNode p \<Longrightarrow> pool_node p i = pool_node p j \<longleftrightarrow> i = j"
  by (simp add: pool_node_def pool_object_def)

lemma pool_node_Suc: "pool_node p (Suc i) = pool_node p i + p_sizeObjectNode p"
  by (simp add: pool_node_def pool_object_def)

lemma pool_woven_step:
  assumes "pool_woven p i" "i < p_capacity p" "0 < i \<longrightarrow> prev = pool_node p (i - 1)"
  shows "\<exists>p1 p2. pool_put_node p (pool_node p i)
        \<lparr>pn_object = pool_node p i - p_sizeObject p, pn_retainCount = 0, pn_next = NULL\<rparr> = Some p1 \<and>
      (if p_freeList p1 = NULL then Some (p1\<lparr>p_freeList := pool_node p i\<rparr>)
       else pool_set_next p1 prev (pool_node p i)) = Some p2 \<and>
      pool_woven p2 (Suc i) \<and> pool_node p2 = pool_node p \<and> p_capacity p2 = p_capacity p \<and>
      p_sizeObjectNode p2 = p_sizeObjectNode p \<and> p_sizeObject p2 = p_sizeObject p \<and> p_sizeObject p1 = p_sizeObject p \<and>
      p_sizeObjectNode p1 = p_sizeObjectNode p"
proof -
  note w = assms(1) [unfolded pool_woven_def]
  let ?a = "pool_node p i" and ?n = "\<lparr>pn_object = pool_object p i, pn_retainCount = 0, pn_next = NULL\<rparr>"
  let ?p1 = "p\<lparr>p_nodes := (p_nodes p)(?a \<mapsto> ?n)\<rparr>"
  have ob: "?a - p_sizeObject p = pool_object p i"
    by (simp add: pool_node_def)
  have "i * p_sizeObjectNode p + p_sizeObjectNode p \<le> p_capacity p * p_sizeObjectNode p"
    using assms(2) by (metis Suc_leI add.commute mult_Suc mult_le_mono1)
  then have put: "pool_put_node p ?a ?n = Some ?p1"
    using w by (simp add: pool_put_node_def pool_node_def pool_object_def)
  have a: "?a \<noteq> 0" "?a \<notin> pool_node p ` {..<i}"
    using w pool_node_inj [of p i] by (auto simp: pool_node_def pool_object_def)
  show ?thesis
  proof (cases i)
    case 0
    then have "p_freeList p = 0"
      using w by simp
    then show ?thesis
      using put ob a w 0 by (simp add: pool_woven_def lessThan_Suc)
  next
    case (Suc k)
    have prev: "prev = pool_node p k" "prev \<noteq> ?a"
      using assms(3) Suc w pool_node_inj [of p k i] by auto
    obtain nk where nk: "p_nodes p prev = Some nk" "pn_object nk = pool_object p k" "pn_retainCount nk = 0"
      using w Suc prev by auto
    have "p_freeList p \<noteq> 0"
      using w Suc by (intro notI) simp
    let ?p2 = "?p1\<lparr>p_nodes := (p_nodes ?p1)(prev \<mapsto> nk\<lparr>pn_next := ?a\<rparr>)\<rparr>"
    have "chain ((pool_nexts (p_nodes p))(prev \<mapsto> ?a, ?a \<mapsto> 0)) (p_freeList p) (map (pool_node p) [0..<k] @ [prev, ?a])"
      using w Suc a prev pool_node_inj [of p] by (intro chain_snoc) auto
    moreover have "(pool_nexts (p_nodes p))(prev \<mapsto> ?a, ?a \<mapsto> 0) = (pool_nexts (p_nodes p))(?a \<mapsto> 0, prev \<mapsto> ?a)"
      using prev(2) by (rule fun_upd_twist)
    ultimately have ch: "chain (pool_nexts (p_nodes ?p2)) (p_freeList p) (map (pool_node p) [0..<Suc i])"
      using Suc prev by simp
    have "\<exists>n. p_nodes ?p2 (pool_node p j) = Some n \<and> pn_object n = pool_object p j \<and> pn_retainCount n = 0"
      if "j < Suc i" for j
      using that w nk prev pool_node_inj [of p j] by (cases "j = i"; cases "j = k") auto
    moreover have "dom (p_nodes ?p2) = pool_node p ` {..<Suc i}"
      using w prev Suc by (auto simp: lessThan_Suc)
    ultimately have "pool_woven ?p2 (Suc i)"
      using w ch by (simp add: pool_woven_def)
    moreover have "pool_set_next ?p1 prev ?a = Some ?p2"
      using nk(1) prev(2) by (simp add: pool_set_next_def)
    ultimately show ?thesis
      using put ob \<open>p_freeList p \<noteq> 0\<close> by (intro exI [of _ ?p1] exI [of _ ?p2]) simp
  qed
qed

lemma pool_weave_loop_woven:
  assumes "pool_woven p i" "i \<le> p_capacity p" "0 < i \<longrightarrow> prev = pool_node p (i - 1)"
  shows "\<exists>p'. pool_weave_loop (p_capacity p) p (pool_node p i) prev i = Some p' \<and> pool_woven p' (p_capacity p) \<and>
    p_capacity p' = p_capacity p \<and> p_sizeObject p' = p_sizeObject p \<and> pool_node p' = pool_node p"
  using assms
proof (induction "p_capacity p - i" arbitrary: p i prev)
  case 0
  then show ?case
    by (subst pool_weave_loop.simps) simp
next
  case (Suc d)
  then have i: "i < p_capacity p"
    by simp
  obtain p1 p2 where step: "pool_put_node p (pool_node p i)
        \<lparr>pn_object = pool_node p i - p_sizeObject p, pn_retainCount = 0, pn_next = NULL\<rparr> = Some p1"
      "(if p_freeList p1 = NULL then Some (p1\<lparr>p_freeList := pool_node p i\<rparr>)
       else pool_set_next p1 prev (pool_node p i)) = Some p2"
      "pool_woven p2 (Suc i)" "pool_node p2 = pool_node p" "p_capacity p2 = p_capacity p"
      "p_sizeObjectNode p2 = p_sizeObjectNode p" "p_sizeObject p2 = p_sizeObject p"
    using pool_woven_step [OF Suc.prems(1) i Suc.prems(3)] by blast
  have "pool_weave_loop (p_capacity p) p (pool_node p i) prev i
      = pool_weave_loop (p_capacity p2) p2 (pool_node p2 (Suc i)) (pool_node p i) (Suc i)"
    using i step by (subst pool_weave_loop.simps) (simp add: pool_node_Suc Let_def)
  moreover have "\<exists>p'. pool_weave_loop (p_capacity p2) p2 (pool_node p2 (Suc i)) (pool_node p i) (Suc i) = Some p' \<and>
      pool_woven p' (p_capacity p2) \<and> p_capacity p' = p_capacity p2 \<and> p_sizeObject p' = p_sizeObject p2 \<and>
      pool_node p' = pool_node p2"
    using step Suc.hyps(2) i by (intro Suc.hyps(1)) simp_all
  ultimately show ?case
    using step by simp
qed

lemma pool_create_rel:
  assumes "memblock \<noteq> NULL" "capacity < 2 ^ 31" "sizeObject + 24 < 2 ^ 64" "capacity * (sizeObject + 24) < 2 ^ 64"
  shows "\<exists>p. pool_create True memblock sizeObject capacity = Some (Some p) \<and>
    pool_rel p (map (pool_node p) [0..<capacity]) \<and> p_capacity p = capacity \<and>
    pool_object p = (\<lambda>i. memblock + i * (sizeObject + 24))"
proof -
  let ?p = "\<lparr>p_memblock = memblock, p_membound = memblock + capacity * (sizeObject + 24), p_sizeObject = sizeObject,
    p_sizeObjectNode = sizeObject + 24, p_capacity = capacity, p_freeList = NULL, p_allocCount = 0, p_nodes = Map.empty\<rparr>"
  have "pool_woven ?p 0"
    using assms(1) by (simp add: pool_woven_def)
  then obtain p where p: "pool_weave_loop capacity ?p (pool_node ?p 0) NULL 0 = Some p" "pool_woven p capacity"
      "p_capacity p = capacity" "p_sizeObject p = sizeObject" "pool_node p = pool_node ?p"
    using pool_weave_loop_woven [of ?p 0 NULL] by auto
  have "pool_object p i = memblock + i * (sizeObject + 24)" for i
    using fun_cong [OF p(5), of i] p(4) by (simp add: pool_node_def pool_object_def)
  then have "pool_object p = (\<lambda>i. memblock + i * (sizeObject + 24))"
    by (rule ext)
  moreover have "pool_create True memblock sizeObject capacity = Some (Some p)"
    using assms p(1) by (simp add: pool_create_def pool_weave_freelist_def pool_node_def pool_object_def Let_def)
  moreover have "pool_rel p (map (pool_node p) [0..<capacity])"
    using p(2,3) assms(2) by (auto simp: pool_woven_def pool_rel_def)
  ultimately show ?thesis
    using p(3) by blast
qed

section \<open>Operations\<close>

lemma pool_rel_free_dom: "pool_rel p fs \<Longrightarrow> set fs \<subseteq> pool_node p ` {..<p_capacity p}"
  using chain_dom [of "pool_nexts (p_nodes p)" "p_freeList p" fs]
  by (auto simp: pool_rel_def pool_nexts_def dom_def)

lemma pool_node_eq: "a + p_sizeObject p = pool_node p i \<longleftrightarrow> a = pool_object p i"
  by (simp add: pool_node_def)

lemma pool_object_belongs:
  "pool_rel p fs \<Longrightarrow> i < p_capacity p \<Longrightarrow> \<not> mAddressDoesNotBelongsToPool (pool_object p i) p"
  by (simp add: mAddressDoesNotBelongsToPool_def pool_rel_def pool_object_def)

lemma pool_rel_alloc_count:
  assumes "pool_rel p fs"
  shows "unat (p_allocCount p) = p_capacity p - length fs"
proof -
  obtain k where k: "k = p_capacity p - length fs" "k < 2 ^ 31"
    using assms by (auto simp: pool_rel_def)
  then have "p_allocCount p = of_nat k"
    using assms by (simp add: pool_rel_def)
  with k show ?thesis
    by (simp add: unsigned_of_nat take_bit_nat_eq_self)
qed

lemma pool_refs_pos:
  assumes "pool_rel p fs" "0 < pool_refs p a"
  obtains i n where "i < p_capacity p" "a = pool_object p i" "p_nodes p (pool_node p i) = Some n"
    "pool_refs p a = unat (pn_retainCount n)" "pn_object n = a" "pool_node p i \<notin> set fs" "p_allocCount p \<noteq> 0"
proof -
  have "a + p_sizeObject p \<in> dom (p_nodes p)"
    using assms(2) by (auto simp: pool_refs_def split: option.splits)
  then obtain i where i: "i < p_capacity p" "a = pool_object p i"
    using assms(1) by (auto simp: pool_rel_def pool_node_eq)
  then obtain n where n: "p_nodes p (pool_node p i) = Some n" "pn_object n = a"
      "pn_retainCount n = 0 \<longleftrightarrow> pool_node p i \<in> set fs"
    using assms(1) by (auto simp: pool_rel_def)
  have refs: "pool_refs p a = unat (pn_retainCount n)"
    using n(1) i(2) by (simp add: pool_refs_def pool_node_def)
  then have nf: "pool_node p i \<notin> set fs"
    using n(3) assms(2) by auto
  have "set fs \<subset> pool_node p ` {..<p_capacity p}"
    using pool_rel_free_dom [OF assms(1)] nf i(1) by auto
  then have "card (set fs) < card (pool_node p ` {..<p_capacity p})"
    by (intro psubset_card_mono) auto
  also have "\<dots> \<le> p_capacity p"
    using card_image_le [of "{..<p_capacity p}" "pool_node p"] by simp
  finally have "length fs < p_capacity p"
    using assms(1) distinct_card [OF chain_distinct, of "pool_nexts (p_nodes p)" "p_freeList p" fs]
    by (simp add: pool_rel_def)
  with pool_rel_alloc_count [OF assms(1)] have "p_allocCount p \<noteq> 0"
    by auto
  with that i n refs nf show thesis
    by blast
qed

lemma pool_refs_upd:
  "pool_refs (p\<lparr>p_nodes := (p_nodes p)(pool_node p i \<mapsto> n)\<rparr>) = (pool_refs p)(pool_object p i := unat (pn_retainCount n))"
  by (auto simp: pool_refs_def fun_eq_iff pool_node_eq)

lemma pool_refs_cong [simp]:
  "pool_refs (p\<lparr>p_freeList := f\<rparr>) = pool_refs p" "pool_refs (p\<lparr>p_allocCount := c\<rparr>) = pool_refs p"
  by (simp_all add: pool_refs_def fun_eq_iff)

lemma pool_rel_count:
  assumes "pool_rel p fs"
  shows "debug_pool_free_count p = Some (int (length fs))"
    "debug_pool_alloc_count p = int (p_capacity p - length fs)"
proof -
  note un = pool_rel_alloc_count [OF assms]
  show "debug_pool_free_count p = Some (int (length fs))"
    using assms count_nodes_chain [of "pool_nexts (p_nodes p)" "p_freeList p" fs 0]
    by (simp add: debug_pool_free_count_def pool_rel_def)
  have "p_capacity p < 2 ^ 31"
    using assms by (simp add: pool_rel_def)
  with un have "unat (p_allocCount p) < 2 ^ 31"
    by simp
  then show "debug_pool_alloc_count p = int (p_capacity p - length fs)"
    using un by (simp only: debug_pool_alloc_count_def sint_small)
qed

lemma pool_alloc_rel:
  assumes "pool_rel p (f # fs)"
  shows "\<exists>i p'. i < p_capacity p \<and> f = pool_node p i \<and> pool_alloc p = Some (pool_object p i, p') \<and> pool_rel p' fs \<and>
    pool_refs p (pool_object p i) = 0 \<and> pool_refs p' = (pool_refs p)(pool_object p i := 1)"
proof -
  note r = assms [unfolded pool_rel_def]
  obtain i where i: "i < p_capacity p" "f = pool_node p i"
    using pool_rel_free_dom [OF assms] by auto
  then obtain n where n: "p_nodes p f = Some n" "pn_object n = pool_object p i" "pn_retainCount n = 0"
    using r by auto
  have f: "f \<notin> set fs" "f \<noteq> 0" "p_freeList p = f"
    using r chain_distinct [of "pool_nexts (p_nodes p)" "p_freeList p" "f # fs"] by auto
  have nx: "chain (pool_nexts (p_nodes p)) (pn_next n) fs"
    using r n(1) f(3) by (auto simp: pool_nexts_def)
  let ?p = "p\<lparr>p_freeList := pn_next n, p_nodes := (p_nodes p)(f \<mapsto> n\<lparr>pn_next := NULL, pn_retainCount := 1\<rparr>),
    p_allocCount := p_allocCount p + 1\<rparr>"
  have "pool_alloc p = Some (pool_object p i, ?p)"
    using f n by (simp add: pool_alloc_def)
  moreover have "of_nat (p_capacity p - length (f # fs)) + 1 = (of_nat (p_capacity p - length fs) :: u32)"
    using r by (metis Suc_diff_le Suc_eq_plus1 diff_Suc_Suc length_Cons of_nat_1 of_nat_add)
  moreover have "pool_rel ?p fs"
    using r f nx n calculation(2) by (auto simp: pool_rel_def)
  moreover have "pool_refs p (pool_object p i) = 0"
    using n i(2) by (simp add: pool_refs_def pool_node_def)
  moreover have "pool_refs ?p = (pool_refs p)(pool_object p i := 1)"
    using pool_refs_upd [of "p\<lparr>p_freeList := pn_next n\<rparr>" i] i(2) by simp
  ultimately show ?thesis
    using i by blast
qed

lemma pool_retain_rel:
  assumes "pool_rel p fs" "0 < pool_refs p a" "pool_refs p a < 2 ^ 32 - 1"
  shows "\<exists>p'. pool_retain p a = Some p' \<and> pool_rel p' fs \<and> pool_refs p' = (pool_refs p)(a := pool_refs p a + 1) \<and>
    pool_object p' = pool_object p \<and> p_capacity p' = p_capacity p"
proof -
  obtain i n where i: "i < p_capacity p" "a = pool_object p i" "p_nodes p (pool_node p i) = Some n"
      "pool_refs p a = unat (pn_retainCount n)" "pn_object n = a" "pool_node p i \<notin> set fs" "p_allocCount p \<noteq> 0"
    using assms(1,2) by (rule pool_refs_pos)
  let ?n = "n\<lparr>pn_retainCount := pn_retainCount n + 1\<rparr>"
  let ?p = "p\<lparr>p_nodes := (p_nodes p)(pool_node p i \<mapsto> ?n)\<rparr>"
  have count: "unat (pn_retainCount n + 1) = pool_refs p a + 1"
    using i(4) assms(3) by (simp add: unat_word_ariths)
  then have "pn_retainCount n + 1 \<noteq> 0"
    by auto
  then have "pool_rel ?p fs"
    using assms(1) i by (auto simp: pool_rel_def)
  moreover have "pool_retain p a = Some ?p"
    using i pool_object_belongs [OF assms(1) i(1)] by (simp add: pool_retain_def pool_node_def)
  moreover have "pool_refs ?p = (pool_refs p)(a := pool_refs p a + 1)"
    using pool_refs_upd [of p i ?n] count i(2) by simp
  ultimately show ?thesis
    by simp
qed

lemma pool_free_node_rel:
  assumes "pool_rel (p\<lparr>p_nodes := (p_nodes p)(pool_node p i \<mapsto> n')\<rparr>) fs" "i < p_capacity p" "pool_node p i \<notin> set fs"
    and "p_nodes p (pool_node p i) = Some n" "pn_object n = pn_object n'" "p_allocCount p \<noteq> 0"
  shows "\<exists>p'. pool_free_node p (pool_node p i) = Some p' \<and> pool_rel p' (pool_node p i # fs) \<and>
    pool_refs p' = (pool_refs p)(pool_object p i := 0) \<and> pool_object p' = pool_object p \<and> p_capacity p' = p_capacity p"
proof -
  note r = assms(1) [unfolded pool_rel_def]
  let ?a = "pool_node p i" and ?n = "n\<lparr>pn_next := p_freeList p, pn_retainCount := 0\<rparr>"
  let ?p = "p\<lparr>p_freeList := ?a, p_nodes := (p_nodes p)(?a \<mapsto> ?n), p_allocCount := p_allocCount p - 1\<rparr>"
  have un: "unat (p_allocCount p) = p_capacity p - length fs"
    using pool_rel_alloc_count [OF assms(1)] by simp
  moreover have "unat (p_allocCount p) \<noteq> 0"
    using assms(6) by (simp add: unat_eq_0)
  ultimately have len: "length fs < p_capacity p"
    by simp
  have "p_allocCount p = of_nat (p_capacity p - length fs)"
    using r by simp
  moreover have "p_capacity p - length fs = Suc (p_capacity p - length (?a # fs))"
    using len by simp
  ultimately have count: "p_allocCount p - 1 = of_nat (p_capacity p - length (?a # fs))"
    by (metis add_diff_cancel_left' of_nat_Suc)
  have nz: "?a \<noteq> 0"
    using r by (auto simp: pool_node_def pool_object_def)
  have "chain (pool_nexts (p_nodes p)) (p_freeList p) fs"
    using r assms(3) by simp
  then have "chain (pool_nexts ((p_nodes p)(?a \<mapsto> ?n))) ?a (?a # fs)"
    using assms(3) nz by simp
  moreover have "dom (p_nodes ?p) = pool_node p ` {..<p_capacity p}"
    using r assms(2) by auto
  moreover have "\<exists>k. p_nodes ?p (pool_node p j) = Some k \<and> pn_object k = pool_object p j \<and>
      (pn_retainCount k = 0 \<longleftrightarrow> pool_node p j \<in> set (?a # fs))" if "j < p_capacity p" for j
    using r that assms(5) by (cases "pool_node p j = ?a") auto
  ultimately have "pool_rel ?p (?a # fs)"
    using r count len by (simp add: pool_rel_def del: of_nat_diff length_Cons)
  moreover have "pool_refs ?p = (pool_refs p)(pool_object p i := 0)"
    using pool_refs_upd [of "p\<lparr>p_freeList := ?a\<rparr>" i ?n] by simp
  moreover have "pool_free_node p ?a = Some ?p"
    using assms(4) by (simp add: pool_free_node_def Let_def)
  ultimately show ?thesis
    by simp
qed

lemma pool_release_rel:
  assumes "pool_rel p fs" "0 < pool_refs p a"
  shows "\<exists>p' fs'. pool_release p a = Some p' \<and> pool_rel p' fs' \<and> pool_refs p' = (pool_refs p)(a := pool_refs p a - 1) \<and>
    pool_object p' = pool_object p \<and> p_capacity p' = p_capacity p"
proof -
  obtain i n where i: "i < p_capacity p" "a = pool_object p i" "p_nodes p (pool_node p i) = Some n"
      "pool_refs p a = unat (pn_retainCount n)" "pn_object n = a" "pool_node p i \<notin> set fs" "p_allocCount p \<noteq> 0"
    using assms by (rule pool_refs_pos)
  let ?n = "n\<lparr>pn_retainCount := pn_retainCount n - 1\<rparr>"
  let ?p = "p\<lparr>p_nodes := (p_nodes p)(pool_node p i \<mapsto> ?n)\<rparr>"
  have count: "unat (pn_retainCount n - 1) = pool_refs p a - 1"
    using i(4) assms(2) by (simp add: unat_dec)
  have rel: "pool_release p a = (if pn_retainCount n - 1 = 0 then pool_free_node ?p (pool_node ?p i) else Some ?p)"
    using i pool_object_belongs [OF assms(1) i(1)] by (simp add: pool_release_def pool_node_def Let_def)
  have refs: "pool_refs ?p = (pool_refs p)(a := pool_refs p a - 1)"
    using pool_refs_upd [of p i ?n] count i(2) by simp
  show ?thesis
  proof (cases "pn_retainCount n - 1 = 0")
    case True
    then have "pool_refs p a - 1 = 0"
      using count by simp
    moreover have "p\<lparr>p_nodes := (p_nodes p)(pool_node p i \<mapsto> ?n, pool_node p i \<mapsto> n)\<rparr> = p"
      using i(3) by (simp add: fun_upd_idem)
    ultimately show ?thesis
      using pool_free_node_rel [of ?p i n fs ?n] assms(1) i True rel refs by auto
  next
    case False
    then have "pool_rel ?p fs"
      using assms(1) i by (auto simp: pool_rel_def)
    with False rel refs show ?thesis
      by auto
  qed
qed

lemma pool_free_rel:
  assumes "pool_rel p fs" "0 < pool_refs p a"
  shows "\<exists>p' fs'. pool_free p a = Some p' \<and> pool_rel p' fs' \<and> pool_refs p' = (pool_refs p)(a := 0)"
proof -
  obtain i n where i: "i < p_capacity p" "a = pool_object p i" "p_nodes p (pool_node p i) = Some n"
      "pool_refs p a = unat (pn_retainCount n)" "pn_object n = a" "pool_node p i \<notin> set fs" "p_allocCount p \<noteq> 0"
    using assms by (rule pool_refs_pos)
  have "p\<lparr>p_nodes := (p_nodes p)(pool_node p i \<mapsto> n)\<rparr> = p"
    using i(3) by (simp add: fun_upd_idem)
  then show ?thesis
    using pool_free_node_rel [of p i n fs n] assms(1) i pool_object_belongs [OF assms(1) i(1)]
    by (auto simp: pool_free_def pool_node_def)
qed

lemma pool_foreign:
  assumes "mAddressDoesNotBelongsToPool a p"
  shows "pool_retain p a = Some p" "pool_release p a = Some p" "pool_free p a = Some p"
  using assms by (simp_all add: pool_retain_def pool_release_def pool_free_def)

lemma pool_full_iff: "pool_rel p fs \<Longrightarrow> fs = [] \<longleftrightarrow> (\<forall>a \<in> pool_objects p. 0 < pool_refs p a)"
proof -
  assume rel: "pool_rel p fs"
  have "0 < pool_refs p (pool_object p i) \<longleftrightarrow> pool_node p i \<notin> set fs" if i: "i < p_capacity p" for i
  proof -
    obtain n where "p_nodes p (pool_node p i) = Some n" "pn_retainCount n = 0 \<longleftrightarrow> pool_node p i \<in> set fs"
      using rel i by (auto simp: pool_rel_def)
    moreover have "pool_refs p (pool_object p i) = unat (pn_retainCount n)"
      using calculation(1) by (simp add: pool_refs_def pool_node_def)
    ultimately show ?thesis
      using unat_eq_0 [of "pn_retainCount n"] by auto
  qed
  moreover have "\<exists>i < p_capacity p. f = pool_node p i" if "f \<in> set fs" for f
    using pool_rel_free_dom [OF rel] that by auto
  ultimately show ?thesis
    by (cases fs) (auto simp: pool_objects_def)
qed

section \<open>The contract of the pool\<close>

locale refcount_pool =
  fixes inv :: "'p \<Rightarrow> bool" and refs :: "'p \<Rightarrow> ptr \<Rightarrow> nat" and objects :: "'p \<Rightarrow> ptr set"
    and alloc :: "'p \<Rightarrow> (ptr \<times> 'p) option"
    and retain :: "'p \<Rightarrow> ptr \<Rightarrow> 'p option" and release :: "'p \<Rightarrow> ptr \<Rightarrow> 'p option"
  assumes alloc_law: "inv p \<Longrightarrow> a \<in> objects p \<Longrightarrow> refs p a = 0 \<Longrightarrow>
      \<exists>b p'. alloc p = Some (b, p') \<and> inv p' \<and> objects p' = objects p \<and> b \<in> objects p \<and> b \<noteq> NULL \<and>
        refs p b = 0 \<and> refs p' = (refs p)(b := 1)"
    and full_law: "inv p \<Longrightarrow> \<forall>a \<in> objects p. 0 < refs p a \<Longrightarrow> alloc p = Some (NULL, p)"
    and retain_law: "inv p \<Longrightarrow> 0 < refs p a \<Longrightarrow> refs p a < 2 ^ 32 - 1 \<Longrightarrow>
      \<exists>p'. retain p a = Some p' \<and> inv p' \<and> objects p' = objects p \<and> refs p' = (refs p)(a := refs p a + 1)"
    and release_law: "inv p \<Longrightarrow> 0 < refs p a \<Longrightarrow>
      \<exists>p'. release p a = Some p' \<and> inv p' \<and> objects p' = objects p \<and> refs p' = (refs p)(a := refs p a - 1)"
begin

lemma retain_release:
  assumes "inv p" "0 < refs p a" "refs p a < 2 ^ 32 - 1"
  shows "\<exists>p'. (retain p a \<bind> (\<lambda>p. release p a)) = Some p' \<and> inv p' \<and> objects p' = objects p \<and> refs p' = refs p"
proof -
  obtain p1 where p1: "retain p a = Some p1" "inv p1" "objects p1 = objects p" "refs p1 = (refs p)(a := refs p a + 1)"
    using retain_law [OF assms] by blast
  then obtain p2 where "release p1 a = Some p2" "inv p2" "objects p2 = objects p1" "refs p2 = (refs p1)(a := refs p1 a - 1)"
    using release_law [of p1 a] by auto
  with p1 show ?thesis
    by simp
qed

lemma lifecycle:
  assumes "inv p" "a \<in> objects p" "refs p a = 0"
  shows "\<exists>b p'. do { (b, p) \<leftarrow> alloc p; p \<leftarrow> retain p b; p \<leftarrow> release p b; p \<leftarrow> release p b; Some (b, p) } = Some (b, p') \<and>
    b \<noteq> NULL \<and> inv p' \<and> refs p' = refs p"
proof -
  obtain b p1 where p1: "alloc p = Some (b, p1)" "inv p1" "b \<noteq> NULL" "refs p b = 0" "refs p1 = (refs p)(b := 1)"
    using alloc_law [OF assms] by blast
  obtain p2 where p2: "(retain p1 b \<bind> (\<lambda>p. release p b)) = Some p2" "inv p2" "refs p2 = refs p1"
    using retain_release [of p1 b] p1 by auto
  obtain p3 where p3: "release p2 b = Some p3" "inv p3" "refs p3 = (refs p2)(b := refs p2 b - 1)"
    using release_law [of p2 b] p1(5) p2 by auto
  have "refs p3 = refs p"
    using p1(4,5) p2(3) p3(3) by (simp add: fun_upd_idem)
  with p1 p2 p3 show ?thesis
    by (auto simp: Option.bind_eq_Some_conv)
qed

end

lemma pool_object_eq_objects:
  "pool_object p' = pool_object p \<Longrightarrow> p_capacity p' = p_capacity p \<Longrightarrow> pool_objects p' = pool_objects p"
  by (simp add: pool_objects_def)

interpretation pool: refcount_pool pool_inv pool_refs pool_objects pool_alloc pool_retain pool_release
proof unfold_locales
  fix p a
  assume "pool_inv p"
  then obtain fs where rel: "pool_rel p fs"
    by (auto simp: pool_inv_def)
  show "a \<in> pool_objects p \<Longrightarrow> pool_refs p a = 0 \<Longrightarrow> \<exists>b p'. pool_alloc p = Some (b, p') \<and> pool_inv p' \<and>
      pool_objects p' = pool_objects p \<and> b \<in> pool_objects p \<and> b \<noteq> NULL \<and> pool_refs p b = 0 \<and> pool_refs p' = (pool_refs p)(b := 1)"
  proof -
    assume "a \<in> pool_objects p" "pool_refs p a = 0"
    then obtain f fs' where "fs = f # fs'"
      using pool_full_iff [OF rel] by (cases fs) auto
    with rel pool_alloc_rel [of p f fs'] obtain i p' where i: "i < p_capacity p"
        "pool_alloc p = Some (pool_object p i, p')" "pool_rel p' fs'" "pool_refs p (pool_object p i) = 0"
        "pool_refs p' = (pool_refs p)(pool_object p i := 1)"
      by auto
    moreover from i(2) have "pool_object p' = pool_object p" "p_capacity p' = p_capacity p"
      by (auto simp: pool_alloc_def pool_object_def fun_eq_iff Option.bind_eq_Some_conv Let_def split: if_splits)
    moreover have "pool_object p i \<noteq> 0"
      using rel by (simp add: pool_rel_def pool_object_def)
    ultimately show ?thesis
      by (auto simp: pool_inv_def pool_objects_def)
  qed
  show "\<forall>a \<in> pool_objects p. 0 < pool_refs p a \<Longrightarrow> pool_alloc p = Some (NULL, p)"
    using pool_full_iff [OF rel] rel by (auto simp: pool_alloc_def pool_rel_def)
  show "0 < pool_refs p a \<Longrightarrow> pool_refs p a < 2 ^ 32 - 1 \<Longrightarrow> \<exists>p'. pool_retain p a = Some p' \<and> pool_inv p' \<and>
      pool_objects p' = pool_objects p \<and> pool_refs p' = (pool_refs p)(a := pool_refs p a + 1)"
  proof -
    assume "0 < pool_refs p a" "pool_refs p a < 2 ^ 32 - 1"
    from pool_retain_rel [OF rel this] obtain p' where "pool_retain p a = Some p'" "pool_rel p' fs"
        "pool_refs p' = (pool_refs p)(a := pool_refs p a + 1)" "pool_object p' = pool_object p" "p_capacity p' = p_capacity p"
      by blast
    then show ?thesis
      using pool_object_eq_objects [of p' p] pool_inv_def by blast
  qed
  show "0 < pool_refs p a \<Longrightarrow> \<exists>p'. pool_release p a = Some p' \<and> pool_inv p' \<and>
      pool_objects p' = pool_objects p \<and> pool_refs p' = (pool_refs p)(a := pool_refs p a - 1)"
  proof -
    assume "0 < pool_refs p a"
    from pool_release_rel [OF rel this] obtain p' fs' where "pool_release p a = Some p'" "pool_rel p' fs'"
        "pool_refs p' = (pool_refs p)(a := pool_refs p a - 1)" "pool_object p' = pool_object p" "p_capacity p' = p_capacity p"
      by blast
    then show ?thesis
      using pool_object_eq_objects [of p' p] pool_inv_def by blast
  qed
qed

lemma pool_objects_disjoint:
  assumes "pool_rel p fs" "a \<in> pool_objects p" "b \<in> pool_objects p"
  shows "p_memblock p \<le> a \<and> a + p_sizeObject p + 24 \<le> p_membound p"
    and "a \<noteq> b \<Longrightarrow> a + p_sizeObject p + 24 \<le> b \<or> b + p_sizeObject p + 24 \<le> a"
proof -
  let ?s = "p_sizeObjectNode p"
  obtain i j where ij: "i < p_capacity p" "a = p_memblock p + i * ?s" "j < p_capacity p" "b = p_memblock p + j * ?s"
    using assms by (auto simp: pool_objects_def pool_object_def)
  have le: "k * ?s + ?s \<le> n * ?s" if "k < n" for k n
    using that by (metis Suc_leI add.commute mult_Suc mult_le_mono1)
  show "p_memblock p \<le> a \<and> a + p_sizeObject p + 24 \<le> p_membound p"
    using le [OF ij(1)] ij(2) assms(1) by (simp add: pool_rel_def)
  assume "a \<noteq> b"
  then consider "i < j" | "j < i"
    using ij by fastforce
  then show "a + p_sizeObject p + 24 \<le> b \<or> b + p_sizeObject p + 24 \<le> a"
    using ij assms(1) le [of i j] le [of j i] by cases (simp_all add: pool_rel_def)
qed

lemma pool_live_count:
  assumes "pool_rel p fs"
  shows "card {a \<in> pool_objects p. 0 < pool_refs p a} = p_capacity p - length fs"
proof -
  let ?c = "p_capacity p"
  have pos: "0 < p_sizeObjectNode p"
    using assms by (simp add: pool_rel_def)
  have live: "0 < pool_refs p (pool_object p i) \<longleftrightarrow> pool_node p i \<notin> set fs" if i: "i < ?c" for i
  proof -
    obtain n where "p_nodes p (pool_node p i) = Some n" "pn_retainCount n = 0 \<longleftrightarrow> pool_node p i \<in> set fs"
      using assms i by (auto simp: pool_rel_def)
    then show ?thesis
      using unat_eq_0 [of "pn_retainCount n"] by (auto simp: pool_refs_def pool_node_def)
  qed
  have "pool_node p ` {i. i < ?c \<and> pool_node p i \<notin> set fs} = pool_node p ` {..<?c} - set fs"
    by auto
  moreover have inj: "inj_on (pool_node p) A" "inj_on (pool_object p) A" for A
    using pos by (auto simp: inj_on_def pool_node_def pool_object_def)
  ultimately have "card {i. i < ?c \<and> pool_node p i \<notin> set fs} = card (pool_node p ` {..<?c} - set fs)"
    using card_image [OF inj(1)] by metis
  also have "\<dots> = card (pool_node p ` {..<?c}) - card (set fs)"
    using pool_rel_free_dom [OF assms] by (simp add: card_Diff_subset)
  also have "\<dots> = ?c - length fs"
    using card_image [OF inj(1)] assms distinct_card [OF chain_distinct, of "pool_nexts (p_nodes p)" "p_freeList p" fs]
    by (simp add: pool_rel_def)
  finally have "card {i. i < ?c \<and> pool_node p i \<notin> set fs} = ?c - length fs" .
  moreover have "{a \<in> pool_objects p. 0 < pool_refs p a} = pool_object p ` {i. i < ?c \<and> pool_node p i \<notin> set fs}"
    using live by (auto simp: pool_objects_def)
  ultimately show ?thesis
    using card_image [OF inj(2)] by simp
qed

section \<open>Properties\<close>

text \<open>
  Creation. A pool whose block size does not overflow is woven inside the block it
  allocated, terminates, has all its objects free and is well formed.
\<close>

theorem pool_create_all_free:
  assumes "memblock \<noteq> NULL" "capacity < 2 ^ 31" "sizeObject + 24 < 2 ^ 64" "capacity * (sizeObject + 24) < 2 ^ 64"
  shows "\<exists>p. pool_create True memblock sizeObject capacity = Some (Some p) \<and> pool_inv p \<and>
    pool_capacity p = capacity \<and> (\<forall>a \<in> pool_objects p. pool_refs p a = 0) \<and>
    debug_pool_free_count p = Some (int capacity) \<and> debug_pool_alloc_count p = 0"
proof -
  obtain p where p: "pool_create True memblock sizeObject capacity = Some (Some p)"
      "pool_rel p (map (pool_node p) [0..<capacity])" "p_capacity p = capacity"
    using pool_create_rel [OF assms] by blast
  have "pool_refs p a = 0" if "a \<in> pool_objects p" for a
    using pool_refs_pos [OF p(2), of a] that p(3) by (auto simp: pool_objects_def)
  then show ?thesis
    using p pool_rel_count [OF p(2)] by (auto simp: pool_inv_def pool_capacity_def)
qed

theorem pool_create_all_free_witness:
  "\<exists>p. pool_create True 4096 304 16 = Some (Some p) \<and> pool_inv p \<and> pool_capacity p = 16 \<and>
    debug_pool_free_count p = Some 16 \<and> debug_pool_alloc_count p = 0"
  using pool_create_all_free [of 4096 16 304] by auto

text \<open>
  Allocation. If some object is free, an allocation returns an object that was free, sets
  its count to one and leaves every other count alone; the object and its node lie inside the
  block and overlap no other object of the pool. If all objects are in use the result is
  \<open>NULL\<close> and the pool is unchanged.
\<close>

theorem pool_alloc_spec:
  assumes "pool_inv p"
  shows "if \<exists>a \<in> pool_objects p. pool_refs p a = 0
    then \<exists>b p'. pool_alloc p = Some (b, p') \<and> pool_inv p' \<and> b \<in> pool_objects p \<and> b \<noteq> NULL \<and>
      pool_refs p b = 0 \<and> pool_refs p' = (pool_refs p)(b := 1) \<and>
      p_memblock p \<le> b \<and> b + p_sizeObject p + 24 \<le> p_membound p \<and>
      (\<forall>c \<in> pool_objects p. c \<noteq> b \<longrightarrow> b + p_sizeObject p + 24 \<le> c \<or> c + p_sizeObject p + 24 \<le> b)
    else pool_alloc p = Some (NULL, p)"
proof -
  obtain fs where rel: "pool_rel p fs"
    using assms by (auto simp: pool_inv_def)
  show ?thesis
  proof (cases "\<exists>a \<in> pool_objects p. pool_refs p a = 0")
    case True
    then obtain b p' where b: "pool_alloc p = Some (b, p')" "pool_inv p'" "b \<in> pool_objects p" "b \<noteq> NULL"
        "pool_refs p b = 0" "pool_refs p' = (pool_refs p)(b := 1)"
      using pool.alloc_law [OF assms] by blast
    moreover have "\<forall>c \<in> pool_objects p. c \<noteq> b \<longrightarrow> b + p_sizeObject p + 24 \<le> c \<or> c + p_sizeObject p + 24 \<le> b"
      using pool_objects_disjoint(2) [OF rel b(3)] by auto
    ultimately show ?thesis
      using True pool_objects_disjoint(1) [OF rel b(3) b(3)] by auto
  next
    case False
    then show ?thesis
      using pool.full_law [OF assms] by auto
  qed
qed

theorem pool_alloc_spec_witness:
  "\<exists>p b p'. pool_create True 4096 304 16 = Some (Some p) \<and> pool_alloc p = Some (b, p') \<and> b \<noteq> NULL \<and> pool_refs p' b = 1"
proof -
  obtain p where p: "pool_create True 4096 304 16 = Some (Some p)" "pool_rel p (map (pool_node p) [0..<16])" "p_capacity p = 16"
    using pool_create_rel [of 4096 16 304] by auto
  have inv: "pool_inv p"
    using p(2) by (auto simp: pool_inv_def)
  have "\<exists>a \<in> pool_objects p. pool_refs p a = 0"
    using pool_full_iff [OF p(2)] by fastforce
  with pool_alloc_spec [OF inv] obtain b p' where "pool_alloc p = Some (b, p')" "b \<noteq> NULL" "pool_refs p' = (pool_refs p)(b := 1)"
    by (auto split: if_splits)
  with p(1) show ?thesis by auto
qed

text \<open>
  (C18) Reference counting. On a live object \<open>pool_retain\<close> adds one reference, \<open>pool_release\<close>
  removes one and makes the object free again exactly when the last one goes, \<open>pool_free\<close>
  drops them all; the counts of other objects never change, and an address outside the block is
  ignored by all three.
\<close>

theorem pool_refcounting:
  assumes "pool_inv p"
  shows "(0 < pool_refs p a \<and> pool_refs p a < 2 ^ 32 - 1 \<longrightarrow>
        (\<exists>p'. pool_retain p a = Some p' \<and> pool_inv p' \<and> pool_refs p' = (pool_refs p)(a := pool_refs p a + 1))) \<and>
      (0 < pool_refs p a \<longrightarrow>
        (\<exists>p'. pool_release p a = Some p' \<and> pool_inv p' \<and> pool_refs p' = (pool_refs p)(a := pool_refs p a - 1)) \<and>
        (\<exists>p'. pool_free p a = Some p' \<and> pool_inv p' \<and> pool_refs p' = (pool_refs p)(a := 0))) \<and>
      (a < p_memblock p \<or> p_membound p \<le> a \<longrightarrow>
        pool_retain p a = Some p \<and> pool_release p a = Some p \<and> pool_free p a = Some p)"
proof (intro conjI impI)
  obtain fs where rel: "pool_rel p fs"
    using assms by (auto simp: pool_inv_def)
  show "\<exists>p'. pool_retain p a = Some p' \<and> pool_inv p' \<and> pool_refs p' = (pool_refs p)(a := pool_refs p a + 1)"
    if "0 < pool_refs p a \<and> pool_refs p a < 2 ^ 32 - 1"
    using pool.retain_law [OF assms] that by blast
  show "\<exists>p'. pool_release p a = Some p' \<and> pool_inv p' \<and> pool_refs p' = (pool_refs p)(a := pool_refs p a - 1)"
    if "0 < pool_refs p a"
    using pool.release_law [OF assms that] by blast
  show "\<exists>p'. pool_free p a = Some p' \<and> pool_inv p' \<and> pool_refs p' = (pool_refs p)(a := 0)" if "0 < pool_refs p a"
    using pool_free_rel [OF rel that] pool_inv_def by blast
  show "pool_retain p a = Some p" "pool_release p a = Some p" "pool_free p a = Some p"
    if "a < p_memblock p \<or> p_membound p \<le> a"
    using pool_foreign [of a p] that by (simp_all add: mAddressDoesNotBelongsToPool_def)
qed

theorem pool_refcounting_witness:
  "\<exists>p b p'. pool_create True 4096 304 16 = Some (Some p) \<and> pool_alloc p = Some (b, p') \<and>
     (\<exists>p2. pool_retain p' b = Some p2 \<and> pool_refs p2 b = 2) \<and> (\<exists>p2. pool_release p' b = Some p2 \<and> pool_refs p2 b = 0)"
proof -
  obtain p where p: "pool_create True 4096 304 16 = Some (Some p)" "pool_rel p (map (pool_node p) [0..<16])"
    using pool_create_rel [of 4096 16 304] by auto
  then obtain fs where "pool_rel p (pool_node p 0 # fs)"
    by (auto simp: upt_conv_Cons)
  from pool_alloc_rel [OF this] obtain b p' where "pool_alloc p = Some (b, p')" "pool_rel p' fs" "pool_refs p' b = 1"
    by auto
  moreover have "pool_inv p'"
    using calculation(2) by (auto simp: pool_inv_def)
  moreover have "(\<exists>p2. pool_retain p' b = Some p2 \<and> pool_inv p2 \<and> pool_refs p2 = (pool_refs p')(b := Suc (Suc 0))) \<and>
      (\<exists>p2. pool_release p' b = Some p2 \<and> pool_inv p2 \<and> pool_refs p2 = (pool_refs p')(b := 0))"
    using pool_refcounting [of p' b] calculation by simp
  ultimately show ?thesis
    using p(1) by (fastforce simp: numeral_2_eq_2)
qed

text \<open>
  Accounting. At any time the free list and the allocation counter add up to the
  capacity, and the counter is the number of objects with a reference. A packet that is
  allocated, retained for sending and released twice leaves all reference counts as they were.
\<close>

theorem pool_accounting:
  assumes "pool_inv p"
  shows "\<exists>n. debug_pool_free_count p = Some n \<and> n + debug_pool_alloc_count p = int (pool_capacity p) \<and>
      debug_pool_alloc_count p = int (card {a \<in> pool_objects p. 0 < pool_refs p a}) \<and>
      (n \<noteq> 0 \<longrightarrow> (\<exists>b p'. do { (b, p) \<leftarrow> pool_alloc p; p \<leftarrow> pool_retain p b; p \<leftarrow> pool_release p b;
           p \<leftarrow> pool_release p b; Some (b, p) } = Some (b, p') \<and> b \<noteq> NULL \<and> pool_inv p' \<and> pool_refs p' = pool_refs p))"
proof -
  obtain fs where rel: "pool_rel p fs"
    using assms by (auto simp: pool_inv_def)
  have len: "length fs \<le> p_capacity p"
    using rel by (simp add: pool_rel_def)
  have cycle: "\<exists>b p'. do { (b, p) \<leftarrow> pool_alloc p; p \<leftarrow> pool_retain p b; p \<leftarrow> pool_release p b;
      p \<leftarrow> pool_release p b; Some (b, p) } = Some (b, p') \<and> b \<noteq> NULL \<and> pool_inv p' \<and> pool_refs p' = pool_refs p"
    if "fs \<noteq> []"
  proof -
    have "\<not> (\<forall>a \<in> pool_objects p. 0 < pool_refs p a)"
      using that pool_full_iff [OF rel] by simp
    then obtain a where "a \<in> pool_objects p" "pool_refs p a = 0"
      by auto
    then show ?thesis
      by (rule pool.lifecycle [OF assms])
  qed
  show ?thesis
    using pool_rel_count [OF rel] pool_live_count [OF rel] len cycle
    by (intro exI [of _ "int (length fs)"]) (auto simp: pool_capacity_def)
qed

theorem pool_accounting_witness:
  "\<exists>p b p'. pool_create True 4096 304 16 = Some (Some p) \<and>
     do { (b, p) \<leftarrow> pool_alloc p; p \<leftarrow> pool_retain p b; p \<leftarrow> pool_release p b; p \<leftarrow> pool_release p b; Some (b, p) } = Some (b, p') \<and>
     pool_refs p' = pool_refs p"
proof -
  obtain p where p: "pool_create True 4096 304 16 = Some (Some p)" "pool_rel p (map (pool_node p) [0..<16])"
    using pool_create_rel [of 4096 16 304] by auto
  have inv: "pool_inv p"
    using p(2) by (auto simp: pool_inv_def)
  have "debug_pool_free_count p = Some 16"
    using pool_rel_count(1) [OF p(2)] by simp
  with pool_accounting [OF inv] p(1) show ?thesis
    by auto
qed

end
