(* ===== verification/Queue.thy ===== *)
theory Queue
  imports Chain
begin

text \<open>
  The FIFO queue of \<^verbatim>\<open>queue.c\<close>: a linked list with head and tail pointers and a
  second list of popped nodes that are kept for reuse. Nodes live in a heap (a partial map
  from addresses, address 0 being \<open>NULL\<close>); a dereference of a pointer that is null or not
  allocated is \<open>None\<close>. The pointer \<open>malloc\<close> returns is an argument of \<open>queue_push\<close>.

  The locale \<open>fifo\<close> states the contract of a queue; sequences of operations are proved correct
  in it, and the linked queue is its interpretation.
\<close>

section \<open>Definitions\<close>

type_synonym queue_object_t = ptr

record queue_node_s =
  qn_object :: queue_object_t
  qn_next :: ptr

record queue_s =
  q_heap :: "ptr \<Rightarrow> queue_node_s option"
  q_head :: ptr
  q_tail :: ptr
  q_reserved :: ptr

definition q_node :: "queue_s \<Rightarrow> ptr \<Rightarrow> queue_node_s option" where
  "q_node q p = (if p = NULL then None else q_heap q p)"

definition queue_create :: "bool \<Rightarrow> queue_s option" where
  "queue_create malloc_ok =
     (if malloc_ok
      then Some \<lparr>q_heap = Map.empty, q_head = NULL, q_tail = NULL, q_reserved = NULL\<rparr>
      else None)"

definition queue_is_empty :: "queue_s \<Rightarrow> bool" where
  "queue_is_empty q \<longleftrightarrow> q_head q = NULL \<and> q_tail q = NULL"

text \<open>The body of \<^verbatim>\<open>if(push_queue_node)\<close>: fill the node and link it behind the tail.\<close>

definition queue_link :: "queue_s \<Rightarrow> ptr \<Rightarrow> queue_object_t \<Rightarrow> queue_s option" where
  "queue_link q push_queue_node ob = do {
     let q = q\<lparr>q_heap := (q_heap q)(push_queue_node \<mapsto> \<lparr>qn_object = ob, qn_next = NULL\<rparr>)\<rparr>;
     q \<leftarrow> (if q_head q = NULL \<and> q_tail q = NULL
           then Some (q\<lparr>q_head := push_queue_node\<rparr>)
           else do {
             t \<leftarrow> q_node q (q_tail q);
             Some (q\<lparr>q_heap := (q_heap q)(q_tail q \<mapsto> t\<lparr>qn_next := push_queue_node\<rparr>)\<rparr>)
           });
     Some (q\<lparr>q_tail := push_queue_node\<rparr>)
   }"

definition queue_push :: "ptr \<Rightarrow> queue_s \<Rightarrow> queue_object_t \<Rightarrow> queue_s option" where
  "queue_push malloc q ob = do {
     (push_queue_node, q) \<leftarrow>
       (if q_reserved q \<noteq> NULL
        then do { r \<leftarrow> q_node q (q_reserved q); Some (q_reserved q, q\<lparr>q_reserved := qn_next r\<rparr>) }
        else Some (malloc, q));
     if push_queue_node \<noteq> NULL then queue_link q push_queue_node ob else Some q
   }"

definition queue_pop :: "queue_s \<Rightarrow> (queue_object_t \<times> queue_s) option" where
  "queue_pop q =
     (if (q_head q = NULL \<and> q_tail q = NULL) = False
      then do {
        let pop_queue_node = q_head q;
        n \<leftarrow> q_node q pop_queue_node;
        let pop_queue_object = qn_object n;
        let q = (if q_head q = q_tail q then q\<lparr>q_head := NULL, q_tail := NULL\<rparr>
                 else q\<lparr>q_head := qn_next n\<rparr>);
        let q = q\<lparr>q_heap := (q_heap q)(pop_queue_node \<mapsto> n\<lparr>qn_next := q_reserved q\<rparr>)\<rparr>;
        Some (pop_queue_object, q\<lparr>q_reserved := pop_queue_node\<rparr>)
      }
      else Some (NULL, q))"

text \<open>Freeing a node that is not allocated is undefined; the two loops of \<open>queue_destroy\<close>.\<close>

partial_function (option) free_nodes :: "(ptr \<Rightarrow> queue_node_s option) \<Rightarrow> ptr \<Rightarrow> (ptr \<Rightarrow> queue_node_s option) option" where
  "free_nodes h iter =
     (if iter = NULL then Some h
      else do { n \<leftarrow> h iter; free_nodes (h(iter := None)) (qn_next n) })"

definition queue_destroy :: "queue_s \<Rightarrow> (ptr \<Rightarrow> queue_node_s option) option" where
  "queue_destroy q = do { h \<leftarrow> free_nodes (q_heap q) (q_head q); free_nodes h (q_reserved q) }"

definition q_nexts :: "(ptr \<Rightarrow> queue_node_s option) \<Rightarrow> ptr \<Rightarrow> ptr option" where
  "q_nexts h p = map_option qn_next (h p)"

definition debug_queue_enqueued_count :: "queue_s \<Rightarrow> int option" where
  "debug_queue_enqueued_count q = count_nodes (q_nexts (q_heap q)) (q_head q) 0"

definition debug_queue_reserved_count :: "queue_s \<Rightarrow> int option" where
  "debug_queue_reserved_count q = count_nodes (q_nexts (q_heap q)) (q_reserved q) 0"

text \<open>
  The invariant: the heap consists of two disjoint chains, the enqueued nodes from head to
  tail and the reserved ones; and the abstraction to the list of enqueued objects.
\<close>

definition queue_rel :: "queue_s \<Rightarrow> ptr list \<Rightarrow> ptr list \<Rightarrow> bool" where
  "queue_rel q es rs \<longleftrightarrow>
     chain (q_nexts (q_heap q)) (q_head q) es \<and> chain (q_nexts (q_heap q)) (q_reserved q) rs \<and>
     set es \<inter> set rs = {} \<and> dom (q_heap q) = set es \<union> set rs \<and>
     q_tail q = (if es = [] then NULL else last es)"

definition queue_inv :: "queue_s \<Rightarrow> bool" where
  "queue_inv q \<longleftrightarrow> (\<exists>es rs. queue_rel q es rs)"

definition queue_list :: "queue_s \<Rightarrow> queue_object_t list" where
  "queue_list q = map (\<lambda>p. qn_object (the (q_heap q p))) (the (nodes_from (q_nexts (q_heap q)) (q_head q)))"

text \<open>What \<open>malloc\<close> may return: \<open>NULL\<close>, or an address that is not allocated.\<close>

definition malloc_ok :: "ptr \<Rightarrow> queue_s \<Rightarrow> bool" where
  "malloc_ok m q \<longleftrightarrow> m = NULL \<or> q_heap q m = None"

text \<open>Sequences of operations, with the answers of the pops, and their meaning on lists.\<close>

datatype 'a queue_op = Push 'a | Pop

fun queue_run ::
    "('q \<Rightarrow> ptr) \<Rightarrow> (ptr \<Rightarrow> 'q \<Rightarrow> 'a \<Rightarrow> 'q option) \<Rightarrow> ('q \<Rightarrow> ('a \<times> 'q) option) \<Rightarrow> 'a queue_op list \<Rightarrow> 'q \<Rightarrow>
     ('a list \<times> 'q) option" where
  "queue_run alloc push pop [] q = Some ([], q)"
| "queue_run alloc push pop (Push x # ops) q =
     do { q \<leftarrow> push (alloc q) q x; queue_run alloc push pop ops q }"
| "queue_run alloc push pop (Pop # ops) q =
     do { (x, q) \<leftarrow> pop q; (xs, q) \<leftarrow> queue_run alloc push pop ops q; Some (x # xs, q) }"

fun fifo_spec :: "'a \<Rightarrow> 'a queue_op list \<Rightarrow> 'a list \<Rightarrow> 'a list \<times> 'a list" where
  "fifo_spec null [] xs = ([], xs)"
| "fifo_spec null (Push x # ops) xs = fifo_spec null ops (xs @ [x])"
| "fifo_spec null (Pop # ops) xs =
     (let (ys, xs') = fifo_spec null ops (tl xs) in ((case xs of [] \<Rightarrow> null | x # _ \<Rightarrow> x) # ys, xs'))"

section \<open>The contract of a queue\<close>

locale fifo =
  fixes inv :: "'q \<Rightarrow> bool" and \<alpha> :: "'q \<Rightarrow> 'a list" and null :: 'a
    and can_alloc :: "ptr \<Rightarrow> 'q \<Rightarrow> bool"
    and push :: "ptr \<Rightarrow> 'q \<Rightarrow> 'a \<Rightarrow> 'q option"
    and pop :: "'q \<Rightarrow> ('a \<times> 'q) option"
    and is_empty :: "'q \<Rightarrow> bool"
  assumes push_law: "inv q \<Longrightarrow> can_alloc m q \<Longrightarrow> m \<noteq> NULL \<Longrightarrow>
      \<exists>q'. push m q x = Some q' \<and> inv q' \<and> \<alpha> q' = \<alpha> q @ [x]"
    and pop_law: "inv q \<Longrightarrow>
      \<exists>q'. pop q = Some (case \<alpha> q of [] \<Rightarrow> null | x # _ \<Rightarrow> x, q') \<and> inv q' \<and> \<alpha> q' = tl (\<alpha> q)"
    and empty_law: "inv q \<Longrightarrow> is_empty q \<longleftrightarrow> \<alpha> q = []"
begin

lemma run_refines:
  assumes "\<And>q. inv q \<Longrightarrow> can_alloc (alloc q) q \<and> alloc q \<noteq> NULL"
  shows "inv q \<Longrightarrow> \<exists>q'. queue_run alloc push pop ops q = Some (fst (fifo_spec null ops (\<alpha> q)), q') \<and> inv q' \<and>
    \<alpha> q' = snd (fifo_spec null ops (\<alpha> q))"
proof (induction ops arbitrary: q)
  case (Cons c ops)
  show ?case
  proof (cases c)
    case (Push x)
    obtain q1 where q1: "push (alloc q) q x = Some q1" "inv q1" "\<alpha> q1 = \<alpha> q @ [x]"
      using push_law assms Cons.prems by blast
    with Cons.IH [OF q1(2)] Push show ?thesis
      by simp
  next
    case Pop
    obtain q1 where q1: "pop q = Some (case \<alpha> q of [] \<Rightarrow> null | x # _ \<Rightarrow> x, q1)" "inv q1" "\<alpha> q1 = tl (\<alpha> q)"
      using pop_law Cons.prems by blast
    with Cons.IH [OF q1(2)] Pop show ?thesis
      by (auto split: prod.splits)
  qed
qed simp

lemma drained_empty:
  assumes "inv q" "pop q = Some (x, q')" "length (\<alpha> q) \<le> 1"
  shows "is_empty q'"
  using pop_law [OF assms(1)] assms empty_law by (cases "\<alpha> q") auto

end

section \<open>The linked queue\<close>

lemma q_nexts_upd [simp]:
  "q_nexts (h(a \<mapsto> n)) = (q_nexts h)(a \<mapsto> qn_next n)"
  "q_nexts (h(a := None)) = (q_nexts h)(a := None)"
  by (simp_all add: q_nexts_def fun_eq_iff)

lemma q_nexts_eq_Some: "q_nexts h p = Some r \<longleftrightarrow> (\<exists>n. h p = Some n \<and> qn_next n = r)"
  by (simp add: q_nexts_def)

lemma queue_rel_list:
  "queue_rel q es rs \<Longrightarrow> queue_list q = map (\<lambda>p. qn_object (the (q_heap q p))) es"
  by (auto simp: queue_list_def queue_rel_def nodes_from_chain)

lemma queue_link_chain:
  assumes "chain (q_nexts (q_heap q)) (q_head q) es" "q_tail q = (if es = [] then NULL else last es)"
    and "set es \<subseteq> dom (q_heap q)" "n \<noteq> NULL" "n \<notin> set es"
  shows "\<exists>q'. queue_link q n ob = Some q' \<and> chain (q_nexts (q_heap q')) (q_head q') (es @ [n]) \<and> q_tail q' = n \<and>
    q_reserved q' = q_reserved q \<and> dom (q_heap q') = insert n (dom (q_heap q)) \<and>
    (\<forall>p. p \<notin> set es \<and> p \<noteq> n \<longrightarrow> q_heap q' p = q_heap q p) \<and>
    map (\<lambda>p. qn_object (the (q_heap q' p))) (es @ [n]) = map (\<lambda>p. qn_object (the (q_heap q p))) es @ [ob]"
proof (cases es rule: rev_cases)
  case Nil
  with assms show ?thesis
    by (simp add: queue_link_def)
next
  case (snoc es' t)
  have t: "t \<noteq> NULL" "t \<noteq> n" "q_tail q = t" "t \<notin> set es'"
    using assms snoc chain_nonzero [OF assms(1)] chain_distinct [OF assms(1)] by auto
  obtain nt where nt: "q_heap q t = Some nt"
    using assms(3) snoc by auto
  have "chain ((q_nexts (q_heap q))(t \<mapsto> n, n \<mapsto> 0)) (q_head q) (es' @ [t, n])"
    using assms(1,4,5) snoc t by (intro chain_snoc) auto
  moreover have "(q_nexts (q_heap q))(t \<mapsto> n, n \<mapsto> 0) = (q_nexts (q_heap q))(n \<mapsto> 0, t \<mapsto> n)"
    using t(2) by (rule fun_upd_twist)
  ultimately show ?thesis
    using snoc t nt assms(5)
    by (auto simp: queue_link_def q_node_def)
qed

lemma queue_push_rel:
  assumes "queue_rel q es rs" "malloc_ok m q" "m \<noteq> NULL \<or> rs \<noteq> []"
  shows "\<exists>q'. queue_push m q ob = Some q' \<and> queue_rel q' (es @ [if rs = [] then m else hd rs]) (tl rs) \<and>
    queue_list q' = queue_list q @ [ob]"
proof (cases rs)
  case Nil
  then have fresh: "q_reserved q = NULL" "m \<noteq> NULL" "m \<notin> set es"
    using assms by (auto simp: queue_rel_def malloc_ok_def domIff)
  obtain q' where q': "queue_link q m ob = Some q'" "chain (q_nexts (q_heap q')) (q_head q') (es @ [m])" "q_tail q' = m"
      "q_reserved q' = q_reserved q" "dom (q_heap q') = insert m (dom (q_heap q))"
      "map (\<lambda>p. qn_object (the (q_heap q' p))) (es @ [m]) = map (\<lambda>p. qn_object (the (q_heap q p))) es @ [ob]"
    using queue_link_chain [of q es m ob] assms(1) fresh by (auto simp: queue_rel_def)
  have rel: "queue_rel q' (es @ [m]) []"
    using q' Nil assms(1) fresh by (auto simp: queue_rel_def)
  with Nil q'(1,6) fresh queue_rel_list [OF assms(1)] queue_rel_list [OF rel] show ?thesis
    by (simp add: queue_push_def)
next
  case (Cons r rs')
  obtain n where n: "q_heap q r = Some n" "r \<noteq> NULL" "q_reserved q = r" "chain (q_nexts (q_heap q)) (qn_next n) rs'"
    using assms(1) Cons by (auto simp: queue_rel_def q_nexts_def)
  have r: "r \<notin> set es" "r \<notin> set rs'"
    using assms(1) Cons chain_distinct [of "q_nexts (q_heap q)" r rs] by (auto simp: queue_rel_def)
  let ?q = "q\<lparr>q_reserved := qn_next n\<rparr>"
  obtain q' where q': "queue_link ?q r ob = Some q'" "chain (q_nexts (q_heap q')) (q_head q') (es @ [r])" "q_tail q' = r"
      "q_reserved q' = qn_next n" "dom (q_heap q') = insert r (dom (q_heap q))"
      "\<forall>p. p \<notin> set es \<and> p \<noteq> r \<longrightarrow> q_heap q' p = q_heap q p"
      "map (\<lambda>p. qn_object (the (q_heap q' p))) (es @ [r]) = map (\<lambda>p. qn_object (the (q_heap q p))) es @ [ob]"
    using queue_link_chain [of ?q es r ob] assms(1) n r by (auto simp: queue_rel_def)
  have "chain (q_nexts (q_heap q')) (qn_next n) rs' \<longleftrightarrow> chain (q_nexts (q_heap q)) (qn_next n) rs'"
    using q'(6) r assms(1) Cons by (intro chain_cong) (auto simp: q_nexts_def queue_rel_def)
  then have rel: "queue_rel q' (es @ [r]) rs'"
    using q'(2-5) n assms(1) Cons r by (auto simp: queue_rel_def)
  show ?thesis
    using Cons q'(1,7) n rel queue_rel_list [OF assms(1)] queue_rel_list [OF rel]
    by (simp add: queue_push_def q_node_def)
qed

lemma queue_pop_rel:
  assumes "queue_rel q (e # es) rs"
  shows "\<exists>q'. queue_pop q = Some (hd (queue_list q), q') \<and> queue_rel q' es (e # rs) \<and> queue_list q' = tl (queue_list q)"
proof -
  obtain n where n: "q_heap q e = Some n" "e \<noteq> NULL" "q_head q = e" "chain (q_nexts (q_heap q)) (qn_next n) es"
    using assms by (auto simp: queue_rel_def q_nexts_def)
  have e: "e \<notin> set es" "e \<notin> set rs"
    using assms chain_distinct [of "q_nexts (q_heap q)" e "e # es"] by (auto simp: queue_rel_def)
  have one: "q_head q = q_tail q \<longleftrightarrow> es = []"
    using assms e n(3) by (auto simp: queue_rel_def)
  let ?q = "if es = [] then q\<lparr>q_head := NULL, q_tail := NULL\<rparr> else q\<lparr>q_head := qn_next n\<rparr>"
  let ?q' = "?q\<lparr>q_heap := (q_heap q)(e \<mapsto> n\<lparr>qn_next := q_reserved q\<rparr>), q_reserved := e\<rparr>"
  have pop: "queue_pop q = Some (qn_object n, ?q')"
    using n one by (simp add: queue_pop_def q_node_def Let_def)
  have rel: "queue_rel ?q' es (e # rs)"
    using assms n e by (auto simp: queue_rel_def)
  show ?thesis
    using pop rel queue_rel_list [OF rel] queue_rel_list [OF assms] n e by auto
qed

lemma queue_empty_rel: "queue_rel q es rs \<Longrightarrow> queue_is_empty q \<longleftrightarrow> es = []"
  using chain_nonzero [of "q_nexts (q_heap q)" "q_head q" es]
  by (cases es) (auto simp: queue_rel_def queue_is_empty_def)

interpretation linked_queue: fifo queue_inv queue_list NULL malloc_ok queue_push queue_pop queue_is_empty
proof unfold_locales
  fix q m x
  assume inv: "queue_inv q"
  then obtain es rs where rel: "queue_rel q es rs"
    by (auto simp: queue_inv_def)
  show "malloc_ok m q \<Longrightarrow> m \<noteq> NULL \<Longrightarrow> \<exists>q'. queue_push m q x = Some q' \<and> queue_inv q' \<and> queue_list q' = queue_list q @ [x]"
    using queue_push_rel [OF rel, of m x] by (auto simp: queue_inv_def)
  show "\<exists>q'. queue_pop q = Some (case queue_list q of [] \<Rightarrow> NULL | x # _ \<Rightarrow> x, q') \<and> queue_inv q' \<and> queue_list q' = tl (queue_list q)"
  proof (cases es)
    case Nil
    then show ?thesis
      using inv rel queue_rel_list [OF rel] by (auto simp: queue_pop_def queue_rel_def)
  next
    case (Cons e es')
    then show ?thesis
      using queue_pop_rel [of q e es' rs] rel queue_rel_list [OF rel] by (auto simp: queue_inv_def)
  qed
  show "queue_is_empty q \<longleftrightarrow> queue_list q = []"
    using queue_empty_rel [OF rel] queue_rel_list [OF rel] by simp
qed

lemma queue_create_inv: "queue_create True = Some q \<Longrightarrow> queue_rel q [] []"
  by (auto simp: queue_create_def queue_rel_def)

lemma queue_counts:
  assumes "queue_rel q es rs"
  shows "debug_queue_enqueued_count q = Some (int (length es))"
    and "debug_queue_reserved_count q = Some (int (length rs))"
  using assms
  by (auto simp: queue_rel_def debug_queue_enqueued_count_def debug_queue_reserved_count_def count_nodes_chain)

lemma queue_rel_distinct: "queue_rel q es rs \<Longrightarrow> distinct (es @ rs)"
  by (auto simp: queue_rel_def dest: chain_distinct)

lemma free_nodes_chain: "chain (q_nexts h) p xs \<Longrightarrow> free_nodes h p = Some (h |` (- set xs))"
proof (induction xs arbitrary: h p)
  case Nil
  then show ?case by (simp add: free_nodes.simps)
next
  case (Cons x xs)
  then obtain n where n: "h x = Some n" "p = x" "x \<noteq> NULL" "chain (q_nexts h) (qn_next n) xs"
    by (auto simp: q_nexts_eq_Some)
  have "x \<notin> set xs"
    using chain_distinct [OF Cons.prems] by simp
  with n(4) have "free_nodes (h(x := None)) (qn_next n) = Some ((h(x := None)) |` (- set xs))"
    by (intro Cons.IH) (simp only: q_nexts_upd chain_upd not_False_eq_True)
  moreover have "(h(x := None)) |` (- set xs) = h |` (- set (x # xs))"
    by (auto simp: restrict_map_def fun_eq_iff)
  ultimately show ?case
    using n by (subst free_nodes.simps) simp
qed

lemma queue_destroy_empties:
  assumes "queue_inv q"
  shows "queue_destroy q = Some Map.empty"
proof -
  obtain es rs where rel: "queue_rel q es rs"
    using assms by (auto simp: queue_inv_def)
  let ?h = "q_heap q |` (- set es)"
  have "chain (q_nexts ?h) (q_reserved q) rs \<longleftrightarrow> chain (q_nexts (q_heap q)) (q_reserved q) rs"
    using rel by (intro chain_cong) (auto simp: queue_rel_def q_nexts_def restrict_map_def)
  then have "free_nodes ?h (q_reserved q) = Some (?h |` (- set rs))"
    using rel by (intro free_nodes_chain) (simp add: queue_rel_def)
  moreover have "?h |` (- set rs) = Map.empty"
    using rel by (force simp: queue_rel_def restrict_map_def fun_eq_iff domIff)
  ultimately show ?thesis
    using rel free_nodes_chain [of "q_heap q" "q_head q" es]
    by (simp add: queue_destroy_def queue_rel_def)
qed

section \<open>Properties\<close>

text \<open>
  (C20) First in, first out. Starting from a new queue, with an allocator that always finds a
  free address, any sequence of pushes and pops runs without a null or dangling dereference,
  and the pops return the objects in the order in which they were pushed, and \<open>NULL\<close> whenever
  the queue is empty; the queue ends up holding what has been pushed and not popped.
\<close>

theorem queue_is_fifo:
  assumes "\<And>q. queue_inv q \<Longrightarrow> malloc_ok (alloc q) q \<and> alloc q \<noteq> NULL" "queue_create True = Some q"
  shows "\<exists>q'. queue_run alloc queue_push queue_pop ops q = Some (fst (fifo_spec NULL ops []), q') \<and>
    queue_inv q' \<and> queue_list q' = snd (fifo_spec NULL ops [])"
proof -
  have rel: "queue_rel q [] []"
    using assms(2) by (rule queue_create_inv)
  then have "queue_inv q" "queue_list q = []"
    using queue_rel_list [OF rel] by (auto simp: queue_inv_def)
  with linked_queue.run_refines [of alloc q ops] assms(1) show ?thesis
    by simp
qed

theorem queue_is_fifo_witness:
  "\<exists>q'. queue_run (\<lambda>q. Suc (Max (insert 0 (dom (q_heap q))))) queue_push queue_pop
      [Push 7, Push 8, Pop, Push 9, Pop, Pop, Pop] (the (queue_create True)) = Some ([7, 8, 9, NULL], q') \<and>
    queue_inv q' \<and> queue_list q' = []"
proof -
  let ?alloc = "\<lambda>q. Suc (Max (insert 0 (dom (q_heap q))))"
  have "malloc_ok (?alloc q) q \<and> ?alloc q \<noteq> NULL" if "queue_inv q" for q
  proof -
    have fin: "finite (insert 0 (dom (q_heap q)))"
      using that by (auto simp: queue_inv_def queue_rel_def)
    have "?alloc q \<notin> dom (q_heap q)"
      using Max_ge [OF fin, of "?alloc q"] by auto
    then show ?thesis
      by (auto simp: malloc_ok_def)
  qed
  moreover have "queue_create True = Some (the (queue_create True))"
    by (simp add: queue_create_def)
  ultimately show ?thesis
    using queue_is_fifo [of ?alloc "the (queue_create True)" "[Push 7, Push 8, Pop, Push 9, Pop, Pop, Pop]"]
    by simp
qed

text \<open>
  Nodes are recycled. The two counters sum up to the nodes allocated; a pop keeps its node
  for reuse, and a push allocates a node only when none is reserved, and is dropped without a
  change only if that allocation fails.
\<close>

theorem queue_recycles_nodes:
  assumes "queue_inv q" "malloc_ok m q"
  shows "\<exists>n k. debug_queue_enqueued_count q = Some n \<and> debug_queue_reserved_count q = Some k \<and>
      n = int (length (queue_list q)) \<and> n + k = int (card (dom (q_heap q))) \<and>
      (\<exists>x q'. queue_pop q = Some (x, q') \<and> dom (q_heap q') = dom (q_heap q)) \<and>
      (\<exists>q'. queue_push m q ob = Some q' \<and>
         dom (q_heap q') = (if k = 0 \<and> m \<noteq> NULL then insert m (dom (q_heap q)) else dom (q_heap q)) \<and>
         (q' = q \<longleftrightarrow> k = 0 \<and> m = NULL))"
proof -
  obtain es rs where rel: "queue_rel q es rs"
    using assms(1) by (auto simp: queue_inv_def)
  have card: "int (length es) + int (length rs) = int (card (dom (q_heap q)))"
    using rel distinct_card [OF queue_rel_distinct [OF rel]] by (simp add: queue_rel_def)
  have pop: "\<exists>x q'. queue_pop q = Some (x, q') \<and> dom (q_heap q') = dom (q_heap q)"
  proof (cases es)
    case (Cons e es')
    with queue_pop_rel [of q e es' rs] rel show ?thesis
      by (auto simp: queue_rel_def)
  qed (use rel in \<open>auto simp: queue_pop_def queue_rel_def\<close>)
  have push: "\<exists>q'. queue_push m q ob = Some q' \<and>
      dom (q_heap q') = (if rs = [] \<and> m \<noteq> NULL then insert m (dom (q_heap q)) else dom (q_heap q)) \<and>
      (q' = q \<longleftrightarrow> rs = [] \<and> m = NULL)"
  proof (cases "m \<noteq> NULL \<or> rs \<noteq> []")
    case True
    from queue_push_rel [OF rel assms(2) this, of ob]
    obtain q' where q': "queue_push m q ob = Some q'" "queue_list q' = queue_list q @ [ob]"
        "queue_rel q' (es @ [if rs = [] then m else hd rs]) (tl rs)"
      by blast
    moreover have "q' \<noteq> q"
      using q'(2) by auto
    moreover have "dom (q_heap q') = (if rs = [] then insert m (set es) else set es \<union> set rs)"
      using q'(3) by (cases rs) (auto simp: queue_rel_def)
    ultimately show ?thesis
      using True rel by (auto simp: queue_rel_def)
  next
    case False
    with rel show ?thesis
      by (simp add: queue_push_def queue_rel_def)
  qed
  show ?thesis
    using queue_counts [OF rel] queue_rel_list [OF rel] card pop push by simp
qed

theorem queue_recycles_nodes_witness:
  "\<exists>q'. queue_push 5 (the (queue_create True)) 77 = Some q' \<and> dom (q_heap q') = {5}"
proof -
  let ?q = "the (queue_create True)"
  have rel: "queue_rel ?q [] []"
    by (simp add: queue_create_def queue_rel_def)
  have "malloc_ok 5 ?q" "dom (q_heap ?q) = {}"
    by (simp_all add: malloc_ok_def queue_create_def)
  moreover have "queue_inv ?q"
    using rel by (auto simp: queue_inv_def)
  ultimately show ?thesis
    using queue_recycles_nodes [of ?q 5 77] queue_counts [OF rel] by auto
qed

text \<open>
  Destruction. \<open>queue_destroy\<close> terminates and frees every node of the queue, enqueued or
  reserved, exactly once.
\<close>

theorem queue_destroy_frees_all:
  assumes "queue_inv q"
  shows "queue_destroy q = Some Map.empty"
  using assms by (rule queue_destroy_empties)

theorem queue_destroy_frees_all_witness:
  "queue_destroy \<lparr>q_heap = [3 \<mapsto> \<lparr>qn_object = 9, qn_next = NULL\<rparr>, 4 \<mapsto> \<lparr>qn_object = 0, qn_next = NULL\<rparr>],
     q_head = 3, q_tail = 3, q_reserved = 4\<rparr> = Some Map.empty"
proof -
  have "queue_rel \<lparr>q_heap = [3 \<mapsto> \<lparr>qn_object = 9, qn_next = NULL\<rparr>, 4 \<mapsto> \<lparr>qn_object = 0, qn_next = NULL\<rparr>],
     q_head = 3, q_tail = 3, q_reserved = 4\<rparr> [3] [4]"
    by (auto simp: queue_rel_def q_nexts_def)
  then show ?thesis
    by (intro queue_destroy_frees_all) (auto simp: queue_inv_def)
qed

end
