(* ===== verification/Net_Socket.thy ===== *)
theory Net_Socket
  imports Net_Packet Pool Queue
begin

text \<open>
  The datagram socket of \<^verbatim>\<open>net_socket.c\<close>: packets come from a pool, are retained
  while they wait to be sent, and travel through a serial dispatch queue and a queue of pending
  packets to the write handler; the read handler hands received packets to the receiver.

  The blocks of the code are values: a block given to \<^verbatim>\<open>dispatch_async\<close> is a task in the list of
  its queue, and \<open>run_socket_task\<close>, \<open>run_delivery\<close>, \<open>read_handler\<close>, \<open>write_handler\<close> and
  \<open>cancel_handler\<close> are the bodies of the blocks. What the operating system and the dispatch
  library answer are arguments. A null queue or pool, resuming a source that is not suspended,
  calling a null receiver and touching memory that has been freed are \<open>None\<close>. Every operation
  is one atomic step.

  The invariant counts references: every reference of a packet is held by a client, by a block
  of the serial queue, by the queue of pending packets or by a delivery, or has been leaked.
\<close>

section \<open>Definitions\<close>

abbreviation (input) kNetPacketPoolCapacity :: size_t where "kNetPacketPoolCapacity \<equiv> 64"

text \<open>\<^verbatim>\<open>sizeof(struct net_packet_s)\<close> on an LP64 target.\<close>

abbreviation (input) sizeof_net_packet :: size_t where "sizeof_net_packet \<equiv> 304"

text \<open>A packet handed to the receiver: through the block or through the callback.\<close>

datatype delivery = DeliverBlock ptr | DeliverCallback ptr

text \<open>
  The socket. \<open>sk_mem\<close> is the memory of the packets in the pool's block, \<open>sk_tasks\<close> the blocks
  waiting in \<open>socketDispatchQueue\<close> (each captures its packet), \<open>sk_deliveries\<close> those given to the
  global queue, \<open>sk_suspended\<close> the suspend count of the write source, \<open>sk_cancels\<close> the counter the
  cancel handlers share, \<open>sk_canceled\<close> the sources given to \<^verbatim>\<open>dispatch_source_cancel\<close> and
  \<open>sk_wire\<close> the datagrams given to \<^verbatim>\<open>sendto\<close>.
\<close>

record net_socket_s =
  sk_fd :: int
  sk_sockaddr :: net_addr_t
  sk_readSource :: ptr
  sk_writeSource :: ptr
  sk_isSending :: bool
  sk_pending :: "queue_s option"
  sk_pool :: "pool_s option"
  sk_receiveCallback :: ptr
  sk_receiveCallbackContext :: ptr
  sk_receiveBlock :: ptr
  sk_mem :: "ptr \<Rightarrow> net_packet_s option"
  sk_tasks :: "ptr list"
  sk_deliveries :: "delivery list"
  sk_suspended :: nat
  sk_cancels :: nat
  sk_canceled :: "ptr list"
  sk_wire :: "(net_addr_t \<times> u8 list) list"

subsection \<open>Packets\<close>

definition net_packet_alloc :: "net_socket_s \<Rightarrow> (ptr \<times> net_socket_s) option" where
  "net_packet_alloc s = do {
     pl \<leftarrow> sk_pool s;
     (packet, pl) \<leftarrow> pool_alloc pl;
     let s = s\<lparr>sk_pool := Some pl\<rparr>;
     if packet = NULL then Some (packet, s)
     else do {
       m \<leftarrow> sk_mem s packet;
       m \<leftarrow> net_packet_init (Some m);
       Some (packet, s\<lparr>sk_mem := (sk_mem s)(packet \<mapsto> m)\<rparr>)
     }
   }"

definition net_packet_release :: "net_socket_s \<Rightarrow> ptr \<Rightarrow> net_socket_s option" where
  "net_packet_release s p = do { pl \<leftarrow> sk_pool s; pl \<leftarrow> pool_release pl p; Some (s\<lparr>sk_pool := Some pl\<rparr>) }"

definition net_packet_retain :: "net_socket_s \<Rightarrow> ptr \<Rightarrow> net_socket_s option" where
  "net_packet_retain s p = do { pl \<leftarrow> sk_pool s; pl \<leftarrow> pool_retain pl p; Some (s\<lparr>sk_pool := Some pl\<rparr>) }"

definition net_packet_free :: "net_socket_s \<Rightarrow> ptr \<Rightarrow> net_socket_s option" where
  "net_packet_free s p = do { pl \<leftarrow> sk_pool s; pl \<leftarrow> pool_free pl p; Some (s\<lparr>sk_pool := Some pl\<rparr>) }"

definition net_socket_set_receive_callback :: "net_socket_s \<Rightarrow> ptr \<Rightarrow> ptr \<Rightarrow> net_socket_s" where
  "net_socket_set_receive_callback s context receiveCallback =
     s\<lparr>sk_receiveCallback := receiveCallback, sk_receiveCallbackContext := context\<rparr>"

definition net_socket_set_receive_block :: "net_socket_s \<Rightarrow> ptr \<Rightarrow> net_socket_s" where
  "net_socket_set_receive_block s receiveBlock = s\<lparr>sk_receiveBlock := receiveBlock\<rparr>"

subsection \<open>Sending\<close>

definition net_socket_suspend_write :: "net_socket_s \<Rightarrow> net_socket_s" where
  "net_socket_suspend_write s =
     (if sk_isSending s then s\<lparr>sk_suspended := sk_suspended s + 1, sk_isSending := False\<rparr> else s)"

definition net_socket_resume_write :: "net_socket_s \<Rightarrow> net_socket_s option" where
  "net_socket_resume_write s =
     (if \<not> sk_isSending s
      then if sk_suspended s = 0 then None
           else Some (s\<lparr>sk_isSending := True, sk_suspended := sk_suspended s - 1\<rparr>)
      else Some s)"

definition net_socket_send :: "net_socket_s \<Rightarrow> ptr \<Rightarrow> net_socket_s option" where
  "net_socket_send s packet = do {
     m \<leftarrow> sk_mem s packet;
     let m = m\<lparr>pkt_length := bs_offset (pkt_bitstream m)\<rparr>;
     let s = s\<lparr>sk_mem := (sk_mem s)(packet \<mapsto> m)\<rparr>;
     if pkt_length m > 0
     then do {
       s \<leftarrow> net_packet_retain s packet;
       Some (s\<lparr>sk_tasks := sk_tasks s @ [packet]\<rparr>)
     }
     else Some s
   }"

text \<open>The first block of the serial queue; \<open>malloc\<close> is what a new queue node would be allocated at.\<close>

definition run_socket_task :: "ptr \<Rightarrow> net_socket_s \<Rightarrow> net_socket_s option" where
  "run_socket_task malloc s =
     (case sk_tasks s of
        [] \<Rightarrow> Some s
      | packet # rest \<Rightarrow> do {
          let s = s\<lparr>sk_tasks := rest\<rparr>;
          q \<leftarrow> sk_pending s;
          q \<leftarrow> queue_push malloc q packet;
          net_socket_resume_write (s\<lparr>sk_pending := Some q\<rparr>)
        })"

text \<open>
  The loop of the write handler. \<^verbatim>\<open>sendto\<close> reads \<open>length\<close> bytes of the packet's array; its
  result is only logged.
\<close>

partial_function (option) write_loop :: "net_socket_s \<Rightarrow> net_socket_s option" where
  "write_loop s = do {
     q \<leftarrow> sk_pending s;
     (packet, q) \<leftarrow> queue_pop q;
     let s = s\<lparr>sk_pending := Some q\<rparr>;
     if packet = NULL then Some s
     else do {
       m \<leftarrow> sk_mem s packet;
       if pkt_length m > length (bs_data (pkt_bitstream m)) then None
       else do {
         let s = s\<lparr>sk_wire := sk_wire s @ [(pkt_addr m, take (pkt_length m) (bs_data (pkt_bitstream m)))]\<rparr>;
         s \<leftarrow> net_packet_release s packet;
         write_loop s
       }
     }
   }"

definition write_handler :: "net_socket_s \<Rightarrow> net_socket_s option" where
  "write_handler s = do { s \<leftarrow> write_loop s; Some (net_socket_suspend_write s) }"

subsection \<open>Receiving\<close>

text \<open>
  What \<^verbatim>\<open>recvfrom\<close> with \<^verbatim>\<open>MSG_TRUNC\<close> answers: the length of the datagram or a negative number,
  and the datagram, of which as much as fits is stored.
\<close>

record recv_result =
  recv_bytes :: int
  recv_data :: "u8 list"
  recv_addr :: net_addr_t

definition recv_into :: "recv_result \<Rightarrow> net_packet_s \<Rightarrow> net_packet_s" where
  "recv_into r m =
     (if recv_bytes r < 0 then m
      else m\<lparr>pkt_addr := recv_addr r,
             pkt_bitstream := (pkt_bitstream m)\<lparr>bs_data :=
               overwrite (bs_data (pkt_bitstream m)) 0 (take kNetPacketMaxLen (recv_data r))\<rparr>\<rparr>)"

definition read_handler :: "recv_result \<Rightarrow> net_socket_s \<Rightarrow> net_socket_s option" where
  "read_handler r s = do {
     (packet, s) \<leftarrow> net_packet_alloc s;
     if packet \<noteq> NULL then do {
       m \<leftarrow> sk_mem s packet;
       let m = recv_into r m;
       let s = s\<lparr>sk_mem := (sk_mem s)(packet \<mapsto> m)\<rparr>;
       let read_bytes = recv_bytes r;
       if read_bytes > 0 then
         if read_bytes \<le> int kNetPacketMaxLen then
           let s = s\<lparr>sk_mem := (sk_mem s)(packet \<mapsto> m\<lparr>pkt_length := nat read_bytes\<rparr>)\<rparr>
           in if sk_receiveBlock s \<noteq> NULL
              then Some (s\<lparr>sk_deliveries := sk_deliveries s @ [DeliverBlock packet]\<rparr>)
              else if sk_receiveCallback s \<noteq> NULL
              then Some (s\<lparr>sk_deliveries := sk_deliveries s @ [DeliverCallback packet]\<rparr>)
              else Some s
         else net_packet_free s packet
       else if read_bytes < 0 then net_packet_free s packet
       else Some s
     }
     else Some s
   }"

text \<open>
  A block of the global queue: it reads the receiver when it runs, not when it was submitted.
  The result is the call it makes: receiver, context and packet. The global queue is concurrent,
  so any of the blocks may be the next to run.
\<close>

definition run_delivery :: "delivery \<Rightarrow> net_socket_s \<Rightarrow> ((ptr \<times> ptr \<times> ptr) \<times> net_socket_s) option" where
  "run_delivery d s = do {
     let s = s\<lparr>sk_deliveries := remove1 d (sk_deliveries s)\<rparr>;
     case d of
       DeliverBlock packet \<Rightarrow>
         if sk_receiveBlock s = NULL then None else Some ((sk_receiveBlock s, NULL, packet), s)
     | DeliverCallback packet \<Rightarrow>
         if sk_receiveCallback s = NULL then None
         else Some ((sk_receiveCallback s, sk_receiveCallbackContext s, packet), s)
   }"

subsection \<open>Addresses and receivers\<close>

definition net_socket_local_addr ::
    "PosixError \<times> ifaddrs list \<Rightarrow> net_socket_s \<Rightarrow> net_addr_t \<Rightarrow> net_addr_t" where
  "net_socket_local_addr getifaddrs s addr =
     (snd (net_addr_local getifaddrs addr))\<lparr>sin_port := sin_port (sk_sockaddr s)\<rparr>"

record net_socket_info_s =
  info_receiveCallback :: ptr
  info_receiveCallbackContext :: ptr
  info_receiveBlock :: ptr

definition net_socket_copy_info :: "net_socket_s \<Rightarrow> net_socket_info_s" where
  "net_socket_copy_info s =
     \<lparr>info_receiveCallback = sk_receiveCallback s, info_receiveCallbackContext = sk_receiveCallbackContext s,
      info_receiveBlock = sk_receiveBlock s\<rparr>"

definition net_socket_set_info :: "net_socket_s \<Rightarrow> net_socket_info_s \<Rightarrow> net_socket_s" where
  "net_socket_set_info s info =
     s\<lparr>sk_receiveCallback := info_receiveCallback info, sk_receiveCallbackContext := info_receiveCallbackContext info,
       sk_receiveBlock := info_receiveBlock info\<rparr>"

subsection \<open>Creation and destruction\<close>

text \<open>
  The answers of the system: of the allocations, of \<^verbatim>\<open>socket\<close>, \<^verbatim>\<open>setsockopt\<close>, \<^verbatim>\<open>inet_aton\<close>,
  \<^verbatim>\<open>bind\<close>, \<^verbatim>\<open>getsockname\<close> and the two \<^verbatim>\<open>fcntl\<close> calls, of the two \<^verbatim>\<open>dispatch_source_create\<close>
  calls, the \<^verbatim>\<open>errno\<close> of the call that failed, and what the memory of the pool holds.
\<close>

record socket_os =
  os_calloc :: bool
  os_queue_malloc :: bool
  os_pool_malloc :: bool
  os_pool_memblock :: ptr
  os_pool_mem :: "ptr \<Rightarrow> net_packet_s option"
  os_errno :: PosixError
  os_socket :: int
  os_setsockopt :: int
  os_inet_aton :: "u8 list \<Rightarrow> u32 option"
  os_bind :: int
  os_getsockname :: int
  os_sockname :: net_addr_t
  os_getfl :: int
  os_setfl :: int
  os_readSource :: ptr
  os_writeSource :: ptr

text \<open>The structure as \<^verbatim>\<open>calloc\<close> leaves it.\<close>

definition net_socket_zero :: net_socket_s where
  "net_socket_zero =
     \<lparr>sk_fd = 0, sk_sockaddr = sockaddr_zero, sk_readSource = NULL, sk_writeSource = NULL, sk_isSending = False,
      sk_pending = None, sk_pool = None, sk_receiveCallback = NULL, sk_receiveCallbackContext = NULL,
      sk_receiveBlock = NULL, sk_mem = Map.empty, sk_tasks = [], sk_deliveries = [], sk_suspended = 0,
      sk_cancels = 0, sk_canceled = [], sk_wire = []\<rparr>"

text \<open>The value stored through \<open>error\<close> and the value returned.\<close>

definition net_socket_set_nonblock :: "socket_os \<Rightarrow> NetError \<Rightarrow> NetError \<times> NetError" where
  "net_socket_set_nonblock os error =
     (if os_getfl os = -1 then (netErrorSetPosix error (os_errno os), netErrorPosix (os_errno os))
      else if os_setfl os = -1 then (netErrorSetPosix error (os_errno os), netErrorPosix (os_errno os))
      else (error, NetNoError))"

text \<open>
  Sources are created suspended. The read source is resumed; the write source stays suspended
  and \<open>isSending\<close> is 0.
\<close>

definition net_socket_set_dispatch_sources ::
    "socket_os \<Rightarrow> NetError \<Rightarrow> net_socket_s \<Rightarrow> (NetError \<times> NetError) \<times> net_socket_s" where
  "net_socket_set_dispatch_sources os error s =
     (let s = s\<lparr>sk_readSource := os_readSource os\<rparr>
      in if sk_readSource s = NULL then ((netErrorSet error NetSockError, NetSockError), s)
      else let s = s\<lparr>sk_writeSource := os_writeSource os\<rparr>
      in if sk_writeSource s = NULL then ((netErrorSet error NetSockError, NetSockError), s)
      else ((error, NetNoError), s\<lparr>sk_suspended := 1, sk_cancels := 2, sk_isSending := False\<rparr>))"

definition net_socket_destroy :: "net_socket_s \<Rightarrow> net_socket_s option" where
  "net_socket_destroy s = do {
     let s = (if sk_readSource s \<noteq> NULL then s\<lparr>sk_canceled := sk_canceled s @ [sk_readSource s]\<rparr> else s);
     if sk_writeSource s \<noteq> NULL
     then do {
       s \<leftarrow> net_socket_resume_write s;
       Some (s\<lparr>sk_canceled := sk_canceled s @ [sk_writeSource s]\<rparr>)
     }
     else Some s
   }"

text \<open>
  Releasing the sources and the serial queue, the queue of packets, the pool and the structure.
  The result is what the pointer points at afterwards: nothing.
\<close>

definition net_socket_destroy_async :: "net_socket_s \<Rightarrow> net_socket_s option option" where
  "net_socket_destroy_async s = do {
     q \<leftarrow> sk_pending s;
     h \<leftarrow> queue_destroy q;
     Some None
   }"

text \<open>The cancel handler of both sources: \<^verbatim>\<open>close(s->fd)\<close> and \<^verbatim>\<open>s->fd = 0\<close> come last.\<close>

definition cancel_handler :: "net_socket_s \<Rightarrow> net_socket_s option" where
  "cancel_handler s = do {
     let s = s\<lparr>sk_cancels := sk_cancels s - 1\<rparr>;
     if sk_cancels s = 0
     then do {
       pointee \<leftarrow> net_socket_destroy_async s;
       s \<leftarrow> pointee;
       Some (s\<lparr>sk_fd := 0\<rparr>)
     }
     else Some s
   }"

text \<open>
  \<open>Created\<close> carries the result, \<open>None\<close> being \<open>NULL\<close>. \<open>CreateFailed\<close> is a \<open>NULL\<close> result, with what the structure holds after
  \<open>net_socket_destroy\<close> and after the cancel handlers, if they have been installed, of the sources it cancels.
\<close>

datatype create_result = Created "net_socket_s option" | CreateFailed net_socket_s

fun run_cancels :: "nat \<Rightarrow> net_socket_s \<Rightarrow> net_socket_s option" where
  "run_cancels 0 s = Some s"
| "run_cancels (Suc n) s = do { s \<leftarrow> cancel_handler s; run_cancels n s }"

definition net_socket_fail :: "NetError \<Rightarrow> net_socket_s \<Rightarrow> (NetError \<times> create_result) option" where
  "net_socket_fail error s = do {
     s \<leftarrow> net_socket_destroy s;
     s \<leftarrow> run_cancels (if sk_cancels s = 0 then 0 else length (sk_canceled s)) s;
     Some (error, CreateFailed s)
   }"

definition net_socket_create ::
    "endian \<Rightarrow> socket_os \<Rightarrow> NetError \<Rightarrow> u16 \<Rightarrow> u8 list option \<Rightarrow> int \<Rightarrow> (NetError \<times> create_result) option" where
  "net_socket_create e os error domain host port =
     (if os_calloc os then do {
        let s = net_socket_zero\<lparr>sk_pending := queue_create (os_queue_malloc os)\<rparr>;
        pl \<leftarrow> pool_create (os_pool_malloc os) (os_pool_memblock os) sizeof_net_packet kNetPacketPoolCapacity;
        let s = s\<lparr>sk_pool := pl, sk_mem := os_pool_mem os\<rparr>;
        let s = s\<lparr>sk_fd := os_socket os\<rparr>;
        if sk_fd s = -1 then net_socket_fail (netErrorSetPosix error (os_errno os)) s
        else if os_setsockopt os = -1 then net_socket_fail (netErrorSetPosix error (os_errno os)) s
        else do {
          let bindaddr = sockaddr_zero\<lparr>sin_family := domain, sin_port := htons e (word_of_int port), sin_addr := htonl e 0\<rparr>;
          let aton = (case host of None \<Rightarrow> Some (sin_addr bindaddr) | Some h \<Rightarrow> os_inet_aton os h);
          case aton of
            None \<Rightarrow> net_socket_fail (netErrorSet error NetInvalidError) s
          | Some a \<Rightarrow> do {
              let bindaddr = bindaddr\<lparr>sin_addr := a\<rparr>;
              if os_bind os = -1 then net_socket_fail (netErrorSetPosix error (os_errno os)) s
              else if os_getsockname os = -1 then net_socket_fail (netErrorSetPosix error (os_errno os)) s
              else do {
                let s = s\<lparr>sk_sockaddr := os_sockname os\<rparr>;
                if sin_port (sk_sockaddr s) \<noteq> sin_port bindaddr \<and> sin_addr (sk_sockaddr s) \<noteq> sin_addr bindaddr
                then net_socket_fail (netErrorSet error NetInvalidError) s
                else do {
                  let (error, nonblock) = net_socket_set_nonblock os error;
                  if nonblock \<noteq> NetNoError then net_socket_fail error s
                  else do {
                    let ((error, sources), s) = net_socket_set_dispatch_sources os error s;
                    if sources \<noteq> NetNoError then net_socket_fail error s
                    else Some (NetNoError, Created (Some s))
                  }
                }
              }
            }
        }
      }
      else Some (NetNoError, Created None))"

subsection \<open>Invariant\<close>

fun delivery_packet :: "delivery \<Rightarrow> ptr" where
  "delivery_packet (DeliverBlock p) = p"
| "delivery_packet (DeliverCallback p) = p"

definition sk_refs :: "net_socket_s \<Rightarrow> ptr \<Rightarrow> nat" where
  "sk_refs s p = (case sk_pool s of None \<Rightarrow> 0 | Some pl \<Rightarrow> pool_refs pl p)"

definition sk_queued :: "net_socket_s \<Rightarrow> ptr list" where
  "sk_queued s = (case sk_pending s of None \<Rightarrow> [] | Some q \<Rightarrow> queue_list q)"

text \<open>The references the socket itself holds, one for each occurrence.\<close>

definition sk_held :: "net_socket_s \<Rightarrow> ptr list" where
  "sk_held s = sk_queued s @ sk_tasks s @ map delivery_packet (sk_deliveries s)"

definition sk_objects :: "net_socket_s \<Rightarrow> ptr set" where
  "sk_objects s = (case sk_pool s of None \<Rightarrow> {} | Some pl \<Rightarrow> pool_objects pl)"

definition sk_receivers :: "net_socket_s \<Rightarrow> ptr \<times> ptr \<times> ptr" where
  "sk_receivers s = (sk_receiveBlock s, sk_receiveCallback s, sk_receiveCallbackContext s)"

text \<open>The parts of the invariant: the containers, the memory, the reference counts, the write source.\<close>

definition sk_containers :: "net_socket_s \<Rightarrow> bool" where
  "sk_containers s \<longleftrightarrow> (\<exists>pl. sk_pool s = Some pl \<and> pool_inv pl) \<and> (\<exists>q. sk_pending s = Some q \<and> queue_inv q)"

definition sk_memory :: "net_socket_s \<Rightarrow> bool" where
  "sk_memory s \<longleftrightarrow>
     (\<forall>p \<in> sk_objects s. \<exists>m. sk_mem s p = Some m \<and> pkt_block m \<and> (0 < sk_refs s p \<longrightarrow> pkt_wf m) \<and>
        (p \<in> set (sk_queued s @ sk_tasks s) \<longrightarrow> pkt_length m \<le> kNetPacketMaxLen))"

definition socket_inv :: "(ptr \<Rightarrow> nat) \<Rightarrow> net_socket_s \<Rightarrow> bool" where
  "socket_inv owned s \<longleftrightarrow> sk_containers s \<and> sk_memory s \<and>
     sk_refs s = (\<lambda>p. owned p + count_list (sk_held s) p) \<and>
     sk_suspended s = (if sk_isSending s then 0 else 1)"

section \<open>The operations keep the invariant\<close>

lemma pool_free_law:
  assumes "pool_inv pl" "0 < pool_refs pl a"
  shows "\<exists>pl'. pool_free pl a = Some pl' \<and> pool_inv pl' \<and> pool_objects pl' = pool_objects pl \<and>
    pool_refs pl' = (pool_refs pl)(a := 0)"
proof -
  obtain fs where "pool_rel pl fs"
    using assms(1) by (auto simp: pool_inv_def)
  from pool_free_rel [OF this assms(2)] obtain pl' fs'
    where pl': "pool_free pl a = Some pl'" "pool_rel pl' fs'" "pool_refs pl' = (pool_refs pl)(a := 0)"
    by blast
  moreover from pl'(1) have "pool_object pl' = pool_object pl" "p_capacity pl' = p_capacity pl"
    by (auto simp: pool_free_def pool_free_node_def Option.bind_eq_Some_conv Let_def pool_object_def fun_eq_iff split: if_splits)
  then have "pool_objects pl' = pool_objects pl"
    by (rule pool_object_eq_objects)
  ultimately show ?thesis
    by (auto simp: pool_inv_def)
qed

lemma refs_in_pool: "pool_inv pl \<Longrightarrow> 0 < pool_refs pl p \<Longrightarrow> p \<in> pool_objects pl"
  by (auto simp: pool_inv_def pool_objects_def elim: pool_refs_pos)

lemma pool_objects_nonnull: "pool_inv pl \<Longrightarrow> NULL \<notin> pool_objects pl"
  by (auto simp: pool_inv_def pool_rel_def pool_objects_def pool_object_def)

lemma sk_proj:
  "sk_pool s = Some pl \<Longrightarrow> sk_refs s = pool_refs pl" "sk_pool s = Some pl \<Longrightarrow> sk_objects s = pool_objects pl"
  "sk_pending s = Some q \<Longrightarrow> sk_queued s = queue_list q"
  by (simp_all add: sk_refs_def sk_objects_def sk_queued_def fun_eq_iff)

lemma sk_containersE:
  assumes "socket_inv owned s"
  obtains pl q where "sk_pool s = Some pl" "pool_inv pl" "sk_pending s = Some q" "queue_inv q"
    "sk_refs s = pool_refs pl" "sk_queued s = queue_list q" "sk_objects s = pool_objects pl"
  using assms sk_proj by (auto simp: socket_inv_def sk_containers_def)

lemma socket_inv_owned: "socket_inv owned s \<Longrightarrow> owned p \<le> sk_refs s p"
  by (simp add: socket_inv_def)

lemma socket_inv_held: "socket_inv owned s \<Longrightarrow> p \<in> set (sk_held s) \<Longrightarrow> 0 < sk_refs s p"
  using count_list_0_iff [of "sk_held s" p] by (auto simp: socket_inv_def)

lemma socket_inv_object: "socket_inv owned s \<Longrightarrow> 0 < sk_refs s p \<Longrightarrow> p \<in> sk_objects s \<and> p \<noteq> NULL"
  using refs_in_pool pool_objects_nonnull by (elim sk_containersE) (metis)

lemma socket_inv_mem:
  assumes "socket_inv owned s" "0 < sk_refs s p"
  obtains m where "sk_mem s p = Some m" "pkt_wf m"
    "p \<in> set (sk_queued s @ sk_tasks s) \<Longrightarrow> pkt_length m \<le> kNetPacketMaxLen"
  using assms socket_inv_object [OF assms] by (auto simp: socket_inv_def sk_memory_def)

text \<open>
  What an operation that only changes the reference count of one packet does: the pool stays
  a pool with the same objects.
\<close>

definition refs_updated :: "net_socket_s \<Rightarrow> net_socket_s \<Rightarrow> ptr \<Rightarrow> nat \<Rightarrow> bool" where
  "refs_updated s s' p n \<longleftrightarrow> (\<exists>pl. s' = s\<lparr>sk_pool := Some pl\<rparr> \<and> pool_inv pl \<and>
     sk_refs s' = (sk_refs s)(p := n) \<and> sk_objects s' = sk_objects s)"

lemma refs_updatedI:
  assumes "sk_pool s = Some pl" "pool_inv pl'" "pool_objects pl' = pool_objects pl"
    "pool_refs pl' = (pool_refs pl)(p := n)"
  shows "refs_updated s (s\<lparr>sk_pool := Some pl'\<rparr>) p n"
  using assms by (auto simp: refs_updated_def sk_proj)

lemma net_packet_retain_refs:
  assumes "socket_inv owned s" "0 < sk_refs s p" "sk_refs s p < 2 ^ 32 - 1"
  shows "\<exists>s'. net_packet_retain s p = Some s' \<and> refs_updated s s' p (sk_refs s p + 1)"
proof -
  obtain pl q where c: "sk_pool s = Some pl" "pool_inv pl" "sk_refs s = pool_refs pl" "sk_objects s = pool_objects pl"
    using assms(1) by (rule sk_containersE)
  obtain pl' where "pool_retain pl p = Some pl'" "pool_inv pl'" "pool_objects pl' = pool_objects pl"
      "pool_refs pl' = (pool_refs pl)(p := pool_refs pl p + 1)"
    using pool.retain_law [OF c(2), of p] assms(2,3) c(3) by auto
  then show ?thesis
    using c refs_updatedI [of s pl pl'] by (simp add: net_packet_retain_def)
qed

lemma net_packet_release_refs:
  assumes "socket_inv owned s" "0 < sk_refs s p"
  shows "\<exists>s'. net_packet_release s p = Some s' \<and> refs_updated s s' p (sk_refs s p - 1)"
proof -
  obtain pl q where c: "sk_pool s = Some pl" "pool_inv pl" "sk_refs s = pool_refs pl" "sk_objects s = pool_objects pl"
    using assms(1) by (rule sk_containersE)
  obtain pl' where "pool_release pl p = Some pl'" "pool_inv pl'" "pool_objects pl' = pool_objects pl"
      "pool_refs pl' = (pool_refs pl)(p := pool_refs pl p - 1)"
    using pool.release_law [OF c(2), of p] assms(2) c(3) by auto
  then show ?thesis
    using c refs_updatedI [of s pl pl'] by (simp add: net_packet_release_def)
qed

lemma net_packet_free_refs:
  assumes "socket_inv owned s" "0 < sk_refs s p"
  shows "\<exists>s'. net_packet_free s p = Some s' \<and> refs_updated s s' p 0"
proof -
  obtain pl q where c: "sk_pool s = Some pl" "pool_inv pl" "sk_refs s = pool_refs pl" "sk_objects s = pool_objects pl"
    using assms(1) by (rule sk_containersE)
  obtain pl' where "pool_free pl p = Some pl'" "pool_inv pl'" "pool_objects pl' = pool_objects pl"
      "pool_refs pl' = (pool_refs pl)(p := 0)"
    using pool_free_law [OF c(2), of p] assms(2) c(3) by auto
  then show ?thesis
    using c refs_updatedI [of s pl pl'] by (simp add: net_packet_free_def)
qed

text \<open>The counts after the update are the new owners' as soon as they agree at the packet itself.\<close>

lemma socket_inv_refs_updated:
  assumes "socket_inv owned s" "refs_updated s s' p n" "n = owned' + count_list (sk_held s) p"
    "0 < sk_refs s p \<or> (\<exists>m. sk_mem s p = Some m \<and> pkt_wf m)"
  shows "socket_inv (owned(p := owned')) s'"
proof -
  obtain pl where s': "s' = s\<lparr>sk_pool := Some pl\<rparr>" "pool_inv pl" "sk_refs s' = (sk_refs s)(p := n)"
      "sk_objects s' = sk_objects s"
    using assms(2) by (auto simp: refs_updated_def)
  have same: "sk_queued s' = sk_queued s" "sk_held s' = sk_held s" "sk_mem s' = sk_mem s" "sk_tasks s' = sk_tasks s"
    by (simp_all add: s'(1) sk_queued_def sk_held_def)
  have "sk_refs s' = (\<lambda>a. (owned(p := owned')) a + count_list (sk_held s') a)"
    using assms(1,3) by (auto simp: socket_inv_def s'(3) same fun_eq_iff)
  moreover have "sk_memory s'"
    using assms(1,4) by (fastforce simp: sk_memory_def socket_inv_def s'(3,4) same)
  moreover have "sk_containers s'"
    using assms(1) s'(2) by (simp add: socket_inv_def sk_containers_def s'(1))
  ultimately show ?thesis
    using assms(1) by (simp add: socket_inv_def s'(1))
qed

lemma socket_inv_put:
  assumes "socket_inv owned s" "pkt_wf m" "p \<in> set (sk_queued s @ sk_tasks s) \<Longrightarrow> pkt_length m \<le> kNetPacketMaxLen"
  shows "socket_inv owned (s\<lparr>sk_mem := (sk_mem s)(p \<mapsto> m)\<rparr>)"
proof -
  let ?s = "s\<lparr>sk_mem := (sk_mem s)(p \<mapsto> m)\<rparr>"
  have same: "sk_queued ?s = sk_queued s" "sk_held ?s = sk_held s" "sk_refs ?s = sk_refs s" "sk_objects ?s = sk_objects s"
    by (simp_all add: sk_queued_def sk_held_def sk_refs_def sk_objects_def fun_eq_iff)
  have "sk_memory ?s"
    using assms unfolding sk_memory_def same by (auto simp: socket_inv_def sk_memory_def pkt_wf_def)
  then show ?thesis
    using assms(1) by (simp add: socket_inv_def same sk_containers_def)
qed

text \<open>Moving a reference between the places the socket keeps it in, or to an owner and back.\<close>

lemma socket_inv_move:
  assumes "socket_inv owned s" "sk_pool s' = sk_pool s" "sk_mem s' = sk_mem s"
    "sk_pending s' = Some q" "queue_inv q" "set (sk_queued s' @ sk_tasks s') \<subseteq> set (sk_queued s @ sk_tasks s)"
    "\<And>p. owned' p + count_list (sk_held s') p = owned p + count_list (sk_held s) p"
    "sk_suspended s' = (if sk_isSending s' then 0 else 1)"
  shows "socket_inv owned' s'"
proof -
  have same: "sk_refs s' = sk_refs s" "sk_objects s' = sk_objects s"
    using assms(2) by (simp_all add: sk_refs_def sk_objects_def fun_eq_iff)
  have "sk_memory s'"
    using assms(1,6) unfolding sk_memory_def same assms(3) by (fastforce simp: socket_inv_def sk_memory_def)
  then show ?thesis
    using assms by (auto simp: socket_inv_def sk_containers_def same)
qed

lemma net_packet_alloc_inv:
  assumes "socket_inv owned s"
  shows "\<exists>p s'. net_packet_alloc s = Some (p, s') \<and>
    (if p = NULL then s' = s \<and> (\<forall>a \<in> sk_objects s. 0 < sk_refs s a)
     else sk_refs s p = 0 \<and> p \<in> sk_objects s \<and> socket_inv (owned(p := 1)) s' \<and> sk_refs s' = (sk_refs s)(p := 1) \<and>
       sk_objects s' = sk_objects s \<and>
       (\<exists>pl m. s' = s\<lparr>sk_pool := Some pl, sk_mem := (sk_mem s)(p \<mapsto> m)\<rparr> \<and> pkt_wf m \<and> bs_offset (pkt_bitstream m) = 0))"
proof -
  obtain pl q where c: "sk_pool s = Some pl" "pool_inv pl" "sk_refs s = pool_refs pl" "sk_objects s = pool_objects pl"
    using assms by (rule sk_containersE)
  show ?thesis
  proof (cases "\<exists>a \<in> pool_objects pl. pool_refs pl a = 0")
    case False
    with c pool.full_law [OF c(2)] show ?thesis
      by (intro exI [of _ 0] exI [of _ s]) (simp add: net_packet_alloc_def)
  next
    case True
    then obtain p pl' where p: "pool_alloc pl = Some (p, pl')" "pool_inv pl'" "pool_objects pl' = pool_objects pl"
        "p \<in> pool_objects pl" "p \<noteq> 0" "pool_refs pl p = 0" "pool_refs pl' = (pool_refs pl)(p := 1)"
      using pool.alloc_law [OF c(2)] by blast
    obtain m0 where m0: "sk_mem s p = Some m0" "pkt_block m0"
      using assms p(4) c(4) by (auto simp: socket_inv_def sk_memory_def)
    obtain m where m: "net_packet_init (Some m0) = Some m" "pkt_wf m" "bs_offset (pkt_bitstream m) = 0"
      using net_packet_init_wf [OF m0(2)] by (auto simp: net_packet_init_def bitstream_create_def)
    let ?s1 = "s\<lparr>sk_mem := (sk_mem s)(p \<mapsto> m)\<rparr>" and ?s2 = "s\<lparr>sk_pool := Some pl', sk_mem := (sk_mem s)(p \<mapsto> m)\<rparr>"
    have free: "owned p = 0" "count_list (sk_held s) p = 0"
      using assms p(6) c(3) by (simp_all add: socket_inv_def)
    then have "p \<notin> set (sk_queued s @ sk_tasks s)"
      by (simp add: sk_held_def count_list_0_iff)
    then have "socket_inv owned ?s1"
      using assms m(2) by (intro socket_inv_put) simp_all
    moreover have "refs_updated ?s1 (?s1\<lparr>sk_pool := Some pl'\<rparr>) p 1"
      using c(1) p by (intro refs_updatedI) simp_all
    moreover have "sk_held ?s1 = sk_held s"
      by (simp add: sk_held_def sk_queued_def)
    ultimately have "socket_inv (owned(p := 1)) (?s1\<lparr>sk_pool := Some pl'\<rparr>)"
      using free m(2) by (intro socket_inv_refs_updated [where s = ?s1 and p = p]) simp_all
    moreover have "?s1\<lparr>sk_pool := Some pl'\<rparr> = ?s2"
      by simp
    ultimately have "socket_inv (owned(p := 1)) ?s2"
      by (rule back_subst)
    moreover have "net_packet_alloc s = Some (p, ?s2)"
      using c(1) p(1,5) m0(1) m(1) by (simp add: net_packet_alloc_def)
    moreover have "sk_refs ?s2 = (sk_refs s)(p := 1)" "sk_objects ?s2 = sk_objects s"
      using sk_proj(1) [of ?s2 pl'] sk_proj(2) [of ?s2 pl'] p c by simp_all
    ultimately show ?thesis
      using p c m by (intro exI [of _ p] exI [of _ ?s2]) auto
  qed
qed

lemma net_packet_retain_inv:
  assumes "socket_inv owned s" "0 < owned p" "sk_refs s p < 2 ^ 32 - 1"
  shows "\<exists>s'. net_packet_retain s p = Some s' \<and> socket_inv (owned(p := owned p + 1)) s' \<and>
    refs_updated s s' p (sk_refs s p + 1)"
proof -
  have pos: "0 < sk_refs s p"
    using assms(2) socket_inv_owned [OF assms(1), of p] by simp
  obtain s' where s': "net_packet_retain s p = Some s'" "refs_updated s s' p (sk_refs s p + 1)"
    using net_packet_retain_refs [OF assms(1) pos assms(3)] by blast
  moreover have "sk_refs s p + 1 = owned p + 1 + count_list (sk_held s) p"
    using assms(1) by (simp add: socket_inv_def)
  ultimately show ?thesis
    using socket_inv_refs_updated [OF assms(1) s'(2)] pos by blast
qed

lemma net_packet_release_inv:
  assumes "socket_inv owned s" "0 < owned p"
  shows "\<exists>s'. net_packet_release s p = Some s' \<and> socket_inv (owned(p := owned p - 1)) s' \<and>
    refs_updated s s' p (sk_refs s p - 1)"
proof -
  have pos: "0 < sk_refs s p"
    using assms(2) socket_inv_owned [OF assms(1), of p] by simp
  obtain s' where s': "net_packet_release s p = Some s'" "refs_updated s s' p (sk_refs s p - 1)"
    using net_packet_release_refs [OF assms(1) pos] by blast
  moreover have "sk_refs s p - 1 = owned p - 1 + count_list (sk_held s) p"
    using assms by (simp add: socket_inv_def)
  ultimately show ?thesis
    using socket_inv_refs_updated [OF assms(1) s'(2)] pos by blast
qed

text \<open>
  Sending: the client keeps its reference, a new one goes to the block of the serial queue and
  from there to the queue of pending packets.
\<close>

lemma net_socket_send_inv:
  assumes "socket_inv owned s" "0 < owned p" "sk_refs s p < 2 ^ 32 - 1" "sk_mem s p = Some m"
  defines "m' \<equiv> m\<lparr>pkt_length := bs_offset (pkt_bitstream m)\<rparr>"
  shows "\<exists>s'. net_socket_send s p = Some s' \<and> socket_inv owned s' \<and> sk_mem s' = (sk_mem s)(p \<mapsto> m') \<and>
    sk_tasks s' = (if bs_offset (pkt_bitstream m) = 0 then sk_tasks s else sk_tasks s @ [p]) \<and>
    sk_wire s' = sk_wire s \<and> sk_queued s' = sk_queued s \<and> sk_deliveries s' = sk_deliveries s \<and>
    sk_objects s' = sk_objects s \<and> sk_receivers s' = sk_receivers s \<and>
    sk_refs s' = (sk_refs s)(p := sk_refs s p + (if bs_offset (pkt_bitstream m) = 0 then 0 else 1))"
proof -
  let ?s1 = "s\<lparr>sk_mem := (sk_mem s)(p \<mapsto> m')\<rparr>"
  have "0 < sk_refs s p"
    using assms(2) socket_inv_owned [OF assms(1), of p] by simp
  from socket_inv_mem [OF assms(1) this] have "pkt_wf m"
    using assms(4) by auto
  then have m': "pkt_wf m'" "pkt_length m' \<le> kNetPacketMaxLen"
    by (simp_all add: m'_def pkt_wf_def pkt_block_def)
  have inv1: "socket_inv owned ?s1"
    using assms(1) m' by (intro socket_inv_put) simp_all
  have same: "sk_refs ?s1 = sk_refs s" "sk_queued ?s1 = sk_queued s" "sk_objects ?s1 = sk_objects s"
      "sk_receivers ?s1 = sk_receivers s"
    by (simp_all add: sk_refs_def sk_queued_def sk_objects_def sk_receivers_def fun_eq_iff)
  show ?thesis
  proof (cases "bs_offset (pkt_bitstream m) = 0")
    case True
    then have "net_socket_send s p = Some ?s1"
      using assms(4) by (simp add: net_socket_send_def m'_def)
    with inv1 same True show ?thesis
      by simp
  next
    case False
    obtain s2 where s2: "net_packet_retain ?s1 p = Some s2" "socket_inv (owned(p := owned p + 1)) s2"
        "refs_updated ?s1 s2 p (sk_refs ?s1 p + 1)"
      using net_packet_retain_inv [OF inv1 assms(2)] assms(3) same by auto
    then obtain pl where pl: "s2 = ?s1\<lparr>sk_pool := Some pl\<rparr>" "sk_refs s2 = (sk_refs ?s1)(p := sk_refs ?s1 p + 1)"
        "sk_objects s2 = sk_objects ?s1"
      by (auto simp: refs_updated_def)
    let ?s3 = "s2\<lparr>sk_tasks := sk_tasks s2 @ [p]\<rparr>"
    have "net_socket_send s p = Some ?s3"
      using assms(4) s2(1) False by (simp add: net_socket_send_def m'_def)
    moreover have "socket_inv owned ?s3"
    proof -
      have h: "sk_refs ?s3 = sk_refs s2" "sk_queued ?s3 = sk_queued s2" "sk_objects ?s3 = sk_objects s2"
        by (simp_all add: sk_refs_def sk_queued_def sk_objects_def fun_eq_iff)
      have "sk_refs ?s3 = (\<lambda>a. owned a + count_list (sk_held ?s3) a)"
        using s2(2) unfolding h by (auto simp: socket_inv_def sk_held_def h fun_eq_iff)
      moreover have "sk_memory ?s3"
        using s2(2) m' pl(1) unfolding sk_memory_def h by (fastforce simp: socket_inv_def sk_memory_def)
      ultimately show ?thesis
        using s2(2) by (simp add: socket_inv_def sk_containers_def)
    qed
    moreover have "sk_refs ?s3 = sk_refs s2" "sk_queued ?s3 = sk_queued s2" "sk_objects ?s3 = sk_objects s2"
        "sk_queued s2 = sk_queued ?s1" "sk_receivers ?s3 = sk_receivers s"
      using pl(1) by (simp_all add: sk_refs_def sk_queued_def sk_objects_def sk_receivers_def fun_eq_iff)
    ultimately show ?thesis
      using pl same False by (intro exI [of _ ?s3]) simp
  qed
qed

lemma resume_write_inv:
  assumes "socket_inv owned s"
  shows "net_socket_resume_write s = Some (s\<lparr>sk_isSending := True, sk_suspended := 0\<rparr>)"
  using assms by (auto simp: net_socket_resume_write_def socket_inv_def)

lemma run_socket_task_inv:
  assumes "socket_inv owned s" "sk_tasks s = p # rest" "\<And>q. sk_pending s = Some q \<Longrightarrow> malloc_ok malloc q" "malloc \<noteq> NULL"
  shows "\<exists>s'. run_socket_task malloc s = Some s' \<and> socket_inv owned s' \<and> sk_tasks s' = rest \<and>
    sk_queued s' = sk_queued s @ [p] \<and> sk_isSending s' \<and> sk_refs s' = sk_refs s \<and> sk_mem s' = sk_mem s \<and>
    sk_wire s' = sk_wire s \<and> sk_deliveries s' = sk_deliveries s \<and> sk_objects s' = sk_objects s"
proof -
  obtain pl q where c: "sk_pool s = Some pl" "sk_pending s = Some q" "queue_inv q" "sk_queued s = queue_list q"
    using assms(1) by (rule sk_containersE)
  obtain q' where q': "queue_push malloc q p = Some q'" "queue_inv q'" "queue_list q' = queue_list q @ [p]"
    using linked_queue.push_law [OF c(3)] assms(3,4) c(2) by blast
  let ?s1 = "s\<lparr>sk_tasks := rest, sk_pending := Some q'\<rparr>" and ?s = "s\<lparr>sk_tasks := rest, sk_pending := Some q', sk_isSending := True, sk_suspended := 0\<rparr>"
  have held: "sk_held ?s1 = sk_queued s @ [p] @ rest @ map delivery_packet (sk_deliveries s)"
      "sk_held ?s = sk_held ?s1" "sk_queued ?s1 = sk_queued s @ [p]" "sk_queued ?s = sk_queued s @ [p]"
    using q'(3) c(4) by (simp_all add: sk_held_def sk_queued_def)
  have inv1: "socket_inv owned ?s1"
    using assms(1,2) q' c held
    by (intro socket_inv_move [OF assms(1), of _ q']) (simp_all add: sk_held_def socket_inv_def)
  then have "socket_inv owned ?s"
    using q' c held by (intro socket_inv_move [OF inv1, of _ q']) simp_all
  moreover have "run_socket_task malloc s = Some ?s"
    using resume_write_inv [OF inv1] assms(2) c(2) q'(1) by (simp add: run_socket_task_def)
  moreover have "sk_refs ?s = sk_refs s" "sk_objects ?s = sk_objects s"
    by (simp_all add: sk_refs_def sk_objects_def fun_eq_iff)
  ultimately show ?thesis
    using held by (intro exI [of _ ?s]) simp
qed

text \<open>What \<^verbatim>\<open>sendto\<close> is given for a packet.\<close>

definition datagram :: "net_packet_s \<Rightarrow> net_addr_t \<times> u8 list" where
  "datagram m = (pkt_addr m, take (pkt_length m) (bs_data (pkt_bitstream m)))"

lemma write_loop_step:
  assumes "socket_inv owned s" "sk_queued s = p # ps"
  shows "\<exists>s' m. write_loop s = write_loop s' \<and> socket_inv owned s' \<and> sk_queued s' = ps \<and> sk_mem s p = Some m \<and>
    sk_wire s' = sk_wire s @ [datagram m] \<and> sk_refs s' = (sk_refs s)(p := sk_refs s p - 1) \<and>
    sk_mem s' = sk_mem s \<and> sk_tasks s' = sk_tasks s \<and> sk_deliveries s' = sk_deliveries s \<and>
    sk_objects s' = sk_objects s"
proof -
  obtain pl q where c: "sk_pool s = Some pl" "sk_pending s = Some q" "queue_inv q" "sk_queued s = queue_list q"
    using assms(1) by (rule sk_containersE)
  obtain q' where q': "queue_pop q = Some (p, q')" "queue_inv q'" "queue_list q' = ps"
    using linked_queue.pop_law [OF c(3)] assms(2) c(4) by auto
  have pos: "0 < sk_refs s p"
    using socket_inv_held [OF assms(1), of p] assms(2) by (simp add: sk_held_def)
  have nn: "p \<noteq> 0"
    using socket_inv_object [OF assms(1) pos] by simp
  obtain m where m: "sk_mem s p = Some m" "pkt_wf m" "pkt_length m \<le> 256"
    using socket_inv_mem [OF assms(1) pos] assms(2) by auto
  let ?s1 = "s\<lparr>sk_pending := Some q', sk_wire := sk_wire s @ [datagram m]\<rparr>"
  have held: "sk_queued ?s1 = ps" "sk_held ?s1 = ps @ sk_tasks s @ map delivery_packet (sk_deliveries s)"
      "sk_refs ?s1 = sk_refs s" "sk_objects ?s1 = sk_objects s"
    using q'(3) by (simp_all add: sk_held_def sk_queued_def sk_refs_def sk_objects_def fun_eq_iff)
  have "socket_inv (owned(p := owned p + 1)) ?s1"
    using assms q'(2) held
    by (intro socket_inv_move [OF assms(1), of _ q']) (auto simp: sk_held_def socket_inv_def)
  from net_packet_release_inv [OF this, of p] obtain s2
    where s2: "net_packet_release ?s1 p = Some s2" "socket_inv owned s2" "refs_updated ?s1 s2 p (sk_refs s p - 1)"
    unfolding held by (auto simp del: One_nat_def)
  have "write_loop s = write_loop s2"
    using c(2) q'(1) nn m s2(1)
    by (subst write_loop.simps) (simp add: datagram_def pkt_wf_def pkt_block_def)
  with s2 held m(1) show ?thesis
    by (intro exI [of _ s2] exI [of _ m]) (auto simp: refs_updated_def sk_queued_def)
qed

lemma write_loop_inv:
  assumes "socket_inv owned s"
  shows "\<exists>s'. write_loop s = Some s' \<and> socket_inv owned s' \<and> sk_queued s' = [] \<and>
    sk_wire s' = sk_wire s @ map (\<lambda>p. datagram (the (sk_mem s p))) (sk_queued s) \<and>
    sk_refs s' = (\<lambda>p. sk_refs s p - count_list (sk_queued s) p) \<and>
    sk_mem s' = sk_mem s \<and> sk_tasks s' = sk_tasks s \<and> sk_deliveries s' = sk_deliveries s \<and> sk_objects s' = sk_objects s"
  using assms
proof (induction "sk_queued s" arbitrary: s)
  case Nil
  obtain pl q where c: "sk_pool s = Some pl" "sk_pending s = Some q" "queue_inv q" "sk_queued s = queue_list q"
    using Nil.prems by (rule sk_containersE)
  then obtain q' where q': "queue_pop q = Some (0, q')" "queue_inv q'" "queue_list q' = []"
    using linked_queue.pop_law [OF c(3)] Nil.hyps by auto
  have "socket_inv owned (s\<lparr>sk_pending := Some q'\<rparr>)"
    using Nil q' by (intro socket_inv_move [OF Nil.prems, of _ q']) (auto simp: sk_held_def sk_queued_def socket_inv_def)
  then show ?case
    using q' c Nil.hyps
    by (subst write_loop.simps) (simp add: sk_queued_def sk_refs_def sk_objects_def fun_eq_iff)
next
  case (Cons p ps)
  obtain s1 m where s1: "write_loop s = write_loop s1" "socket_inv owned s1" "sk_queued s1 = ps" "sk_mem s p = Some m"
      "sk_wire s1 = sk_wire s @ [datagram m]" "sk_refs s1 = (sk_refs s)(p := sk_refs s p - 1)"
      "sk_mem s1 = sk_mem s" "sk_tasks s1 = sk_tasks s" "sk_deliveries s1 = sk_deliveries s" "sk_objects s1 = sk_objects s"
    using write_loop_step [OF Cons.prems] Cons.hyps(2) by metis
  from Cons.hyps(1) [OF s1(3) [symmetric] s1(2)] show ?case
    unfolding s1 Cons.hyps(2) [symmetric] using s1(4) by (auto simp: fun_eq_iff)
qed

lemma write_handler_inv:
  assumes "socket_inv owned s"
  shows "\<exists>s'. write_handler s = Some s' \<and> socket_inv owned s' \<and> sk_queued s' = [] \<and> \<not> sk_isSending s' \<and>
    sk_wire s' = sk_wire s @ map (\<lambda>p. datagram (the (sk_mem s p))) (sk_queued s) \<and>
    sk_refs s' = (\<lambda>p. sk_refs s p - count_list (sk_queued s) p) \<and>
    sk_mem s' = sk_mem s \<and> sk_tasks s' = sk_tasks s \<and> sk_deliveries s' = sk_deliveries s \<and> sk_objects s' = sk_objects s"
proof -
  obtain s1 where s1: "write_loop s = Some s1" "socket_inv owned s1" "sk_queued s1 = []"
      "sk_wire s1 = sk_wire s @ map (\<lambda>p. datagram (the (sk_mem s p))) (sk_queued s)"
      "sk_refs s1 = (\<lambda>p. sk_refs s p - count_list (sk_queued s) p)"
      "sk_mem s1 = sk_mem s" "sk_tasks s1 = sk_tasks s" "sk_deliveries s1 = sk_deliveries s" "sk_objects s1 = sk_objects s"
    using write_loop_inv [OF assms] by blast
  let ?s = "net_socket_suspend_write s1"
  obtain pl q where c: "sk_pending s1 = Some q" "queue_inv q"
    using s1(2) by (rule sk_containersE)
  have same: "sk_pool ?s = sk_pool s1" "sk_pending ?s = sk_pending s1" "sk_mem ?s = sk_mem s1" "sk_tasks ?s = sk_tasks s1"
      "sk_deliveries ?s = sk_deliveries s1" "sk_wire ?s = sk_wire s1"
    by (simp_all add: net_socket_suspend_write_def)
  then have same': "sk_queued ?s = sk_queued s1" "sk_held ?s = sk_held s1" "sk_refs ?s = sk_refs s1" "sk_objects ?s = sk_objects s1"
    by (simp_all add: sk_queued_def sk_held_def sk_refs_def sk_objects_def fun_eq_iff)
  have "\<not> sk_isSending ?s" "sk_suspended ?s = 1"
    using s1(2) by (simp_all add: net_socket_suspend_write_def socket_inv_def)
  moreover from this have "socket_inv owned ?s"
    using same same' c by (intro socket_inv_move [OF s1(2), of _ q]) simp_all
  ultimately show ?thesis
    using s1 same same' by (simp add: write_handler_def)
qed

text \<open>
  Receiving. A datagram that is stored and has a receiver becomes a delivery; a failed or too
  long one gives its packet back; and where \<open>recv_leaks\<close> holds the packet is neither delivered
  nor given back.
\<close>

definition recv_leaks :: "recv_result \<Rightarrow> net_socket_s \<Rightarrow> bool" where
  "recv_leaks r s \<longleftrightarrow> recv_bytes r = 0 \<or>
     0 < recv_bytes r \<and> recv_bytes r \<le> int kNetPacketMaxLen \<and> sk_receiveBlock s = NULL \<and> sk_receiveCallback s = NULL"

definition recv_delivery :: "net_socket_s \<Rightarrow> ptr \<Rightarrow> delivery" where
  "recv_delivery s p = (if sk_receiveBlock s \<noteq> NULL then DeliverBlock p else DeliverCallback p)"

lemma recv_into_wf: "pkt_wf m \<Longrightarrow> pkt_wf (recv_into r m)"
  by (simp add: recv_into_def pkt_wf_def pkt_block_def)

lemma recv_into_keeps [simp]: "bs_offset (pkt_bitstream (recv_into r m)) = bs_offset (pkt_bitstream m)"
  by (simp add: recv_into_def)

text \<open>The handler as the cases of its conditions, once a packet has been allocated.\<close>

definition received :: "recv_result \<Rightarrow> net_packet_s \<Rightarrow> net_packet_s" where
  "received r m =
     (let m = recv_into r m
      in if 0 < recv_bytes r \<and> recv_bytes r \<le> int kNetPacketMaxLen then m\<lparr>pkt_length := nat (recv_bytes r)\<rparr> else m)"

lemma received_wf: "pkt_wf m \<Longrightarrow> pkt_wf (received r m)"
  using recv_into_wf [of m r] by (simp add: received_def Let_def pkt_wf_def pkt_block_def)

lemma read_handler_cases:
  assumes "net_packet_alloc s = Some (p, s1)" "p \<noteq> NULL" "sk_mem s1 p = Some m"
    "sk_receiveBlock s1 = sk_receiveBlock s" "sk_receiveCallback s1 = sk_receiveCallback s"
  shows "read_handler r s =
    (let s2 = s1\<lparr>sk_mem := (sk_mem s1)(p \<mapsto> received r m)\<rparr> in
     if recv_leaks r s then Some s2
     else if 0 < recv_bytes r \<and> recv_bytes r \<le> int kNetPacketMaxLen
     then Some (s2\<lparr>sk_deliveries := sk_deliveries s1 @ [recv_delivery s p]\<rparr>)
     else net_packet_free s2 p)"
  using assms by (auto simp: read_handler_def recv_leaks_def recv_delivery_def received_def Let_def)

lemma read_handler_inv:
  assumes "socket_inv owned s" "net_packet_alloc s = Some (p, s1)" "p \<noteq> NULL"
  shows "\<exists>s'. read_handler r s = Some s' \<and> socket_inv (if recv_leaks r s then owned(p := 1) else owned) s' \<and>
    sk_objects s' = sk_objects s \<and> sk_wire s' = sk_wire s \<and> sk_queued s' = sk_queued s \<and> sk_tasks s' = sk_tasks s \<and>
    (\<forall>a. a \<noteq> p \<longrightarrow> sk_mem s' a = sk_mem s a) \<and>
    (if recv_leaks r s then sk_refs s' = (sk_refs s)(p := 1) \<and> sk_deliveries s' = sk_deliveries s
     else if 0 < recv_bytes r \<and> recv_bytes r \<le> int kNetPacketMaxLen
     then sk_refs s' = (sk_refs s)(p := 1) \<and> sk_deliveries s' = sk_deliveries s @ [recv_delivery s p] \<and>
       (\<exists>m. sk_mem s' p = Some (received r m) \<and> bs_offset (pkt_bitstream (received r m)) = 0)
     else sk_refs s' = sk_refs s \<and> sk_deliveries s' = sk_deliveries s)"
proof -
  from net_packet_alloc_inv [OF assms(1)] assms(2,3) obtain pl m where
    a: "sk_refs s p = 0" "p \<in> sk_objects s" "socket_inv (owned(p := 1)) s1" "sk_refs s1 = (sk_refs s)(p := 1)"
      "sk_objects s1 = sk_objects s" and s1: "s1 = s\<lparr>sk_pool := Some pl, sk_mem := (sk_mem s)(p \<mapsto> m)\<rparr>"
    and m: "pkt_wf m" "bs_offset (pkt_bitstream m) = 0"
    by auto
  let ?s2 = "s1\<lparr>sk_mem := (sk_mem s1)(p \<mapsto> received r m)\<rparr>"
  have zero: "owned p = 0" "count_list (sk_held s) p = 0"
    using assms(1) a(1) by (simp_all add: socket_inv_def)
  have h1: "sk_queued s1 = sk_queued s" "sk_tasks s1 = sk_tasks s" "sk_held s1 = sk_held s"
    by (simp_all add: s1 sk_queued_def sk_held_def)
  have notin: "p \<notin> set (sk_queued s1 @ sk_tasks s1)"
    using zero(2) by (simp add: h1 sk_held_def count_list_0_iff)
  have inv2: "socket_inv (owned(p := 1)) ?s2"
    using socket_inv_put [OF a(3) received_wf [OF m(1)]] notin by blast
  have h2: "sk_queued ?s2 = sk_queued s" "sk_held ?s2 = sk_held s" "sk_refs ?s2 = sk_refs s1" "sk_objects ?s2 = sk_objects s"
      "\<forall>a. a \<noteq> p \<longrightarrow> sk_mem ?s2 a = sk_mem s a" "sk_pool ?s2 = sk_pool s1" "sk_wire ?s2 = sk_wire s" "sk_deliveries ?s2 = sk_deliveries s" "sk_tasks ?s2 = sk_tasks s"
    using a(5) by (simp_all add: s1 sk_queued_def sk_held_def sk_refs_def sk_objects_def fun_eq_iff)
  have off: "bs_offset (pkt_bitstream (received r m)) = 0"
    using m(2) by (simp add: received_def Let_def)
  note cases = read_handler_cases [OF assms(2,3), of m r]
  consider (leak) "recv_leaks r s" | (deliver) "\<not> recv_leaks r s" "0 < recv_bytes r \<and> recv_bytes r \<le> 256"
    | (free) "\<not> recv_leaks r s" "\<not> (0 < recv_bytes r \<and> recv_bytes r \<le> 256)"
    by blast
  then show ?thesis
  proof cases
    case leak
    then have "read_handler r s = Some ?s2"
      using cases by (simp add: s1)
    then show ?thesis
      using leak inv2 h2 a(4) by simp
  next
    case deliver
    let ?s3 = "?s2\<lparr>sk_deliveries := sk_deliveries s1 @ [recv_delivery s p]\<rparr>"
    have h3: "sk_queued ?s3 = sk_queued ?s2" "sk_refs ?s3 = sk_refs ?s2" "sk_objects ?s3 = sk_objects ?s2" "sk_mem ?s3 = sk_mem ?s2"
      by (simp_all add: sk_queued_def sk_refs_def sk_objects_def fun_eq_iff)
    have "delivery_packet (recv_delivery s p) = p"
      by (simp add: recv_delivery_def)
    then have "sk_held ?s3 = sk_held s @ [p]"
      using h2(1) by (simp add: s1 sk_held_def sk_queued_def)
    moreover obtain pl' q where "sk_pending ?s2 = Some q" "queue_inv q"
      using inv2 by (rule sk_containersE)
    ultimately have "socket_inv owned ?s3"
      using inv2 zero h2 h3 by (intro socket_inv_move [OF inv2, of _ q]) (simp_all add: socket_inv_def)
    moreover have "read_handler r s = Some ?s3"
      using cases deliver by (simp add: s1)
    ultimately show ?thesis
      using deliver h2 h3 a(4) off by (intro exI [of _ ?s3]) (auto simp: s1)
  next
    case free
    obtain s3 where s3: "net_packet_free ?s2 p = Some s3" "refs_updated ?s2 s3 p 0"
      using net_packet_free_refs [OF inv2, of p] h2 a(4) by auto
    have "socket_inv ((owned(p := 1))(p := 0)) s3"
      using zero h2 a(4) by (intro socket_inv_refs_updated [OF inv2 s3(2)]) simp_all
    then have "socket_inv owned s3"
      using zero(1) by (simp add: fun_upd_idem)
    moreover have "read_handler r s = Some s3"
      using cases free s3(1) by (simp add: s1)
    moreover have "sk_refs s3 = sk_refs s" "sk_objects s3 = sk_objects s" "sk_wire s3 = sk_wire s" "sk_queued s3 = sk_queued s"
        "sk_tasks s3 = sk_tasks s" "sk_deliveries s3 = sk_deliveries s" "\<forall>a. a \<noteq> p \<longrightarrow> sk_mem s3 a = sk_mem s a"
      using s3(2) h2 a(1,4) by (auto simp: refs_updated_def sk_queued_def fun_upd_idem)
    ultimately show ?thesis
      using free by auto
  qed
qed

lemma run_delivery_inv:
  assumes "socket_inv owned s" "d \<in> set (sk_deliveries s)" "run_delivery d s = Some (c, s')"
  shows "socket_inv (owned(delivery_packet d := owned (delivery_packet d) + 1)) s'"
proof -
  have s': "s' = s\<lparr>sk_deliveries := remove1 d (sk_deliveries s)\<rparr>"
    using assms(3) by (auto simp: run_delivery_def Let_def split: delivery.splits if_splits)
  have perm: "count_list (map delivery_packet ds) p =
      count_list (map delivery_packet (remove1 d ds)) p + (if p = delivery_packet d then 1 else 0)"
    if "d \<in> set ds" for p ds
    using split_list_first [OF that] by (auto simp: remove1_append)
  obtain pl q where "sk_pending s = Some q" "queue_inv q"
    using assms(1) by (rule sk_containersE)
  then show ?thesis
    using assms(1) perm [OF assms(2)]
    by (intro socket_inv_move [OF assms(1), of _ q]) (auto simp: s' sk_held_def sk_queued_def socket_inv_def)
qed

section \<open>The interface of the packet users\<close>

text \<open>
  The transactions, the streams and the tests of the address resolver use packets in one way:
  allocate one, fill it, send it and release it. \<open>net_packet_store\<close> stands for what they write
  into a packet through its pointer.
\<close>

definition net_packet_store :: "net_socket_s \<Rightarrow> ptr \<Rightarrow> net_packet_s \<Rightarrow> net_socket_s" where
  "net_packet_store s p m = s\<lparr>sk_mem := (sk_mem s)(p \<mapsto> m)\<rparr>"

locale packet_socket =
  fixes inv :: "(ptr \<Rightarrow> nat) \<Rightarrow> 's \<Rightarrow> bool" and refs :: "'s \<Rightarrow> ptr \<Rightarrow> nat"
    and mem :: "'s \<Rightarrow> ptr \<Rightarrow> net_packet_s option" and tasks :: "'s \<Rightarrow> ptr list" and others :: "'s \<Rightarrow> 'r"
    and alloc :: "'s \<Rightarrow> (ptr \<times> 's) option" and put :: "'s \<Rightarrow> ptr \<Rightarrow> net_packet_s \<Rightarrow> 's"
    and release :: "'s \<Rightarrow> ptr \<Rightarrow> 's option" and send :: "'s \<Rightarrow> ptr \<Rightarrow> 's option"
  assumes alloc_law: "inv owned s \<Longrightarrow> \<exists>p s'. alloc s = Some (p, s') \<and>
      (if p = NULL then s' = s
       else owned p = 0 \<and> inv (owned(p := 1)) s' \<and> refs s' = (refs s)(p := 1) \<and> tasks s' = tasks s \<and>
         others s' = others s \<and>
         (\<exists>m. mem s' = (mem s)(p \<mapsto> m) \<and> pkt_wf m \<and> bs_offset (pkt_bitstream m) = 0))"
    and put_law: "inv owned s \<Longrightarrow> 0 < owned p \<Longrightarrow> mem s p = Some m \<Longrightarrow> pkt_wf m' \<Longrightarrow> pkt_length m' = pkt_length m \<Longrightarrow>
      inv owned (put s p m') \<and> refs (put s p m') = refs s \<and> tasks (put s p m') = tasks s \<and>
      others (put s p m') = others s \<and> mem (put s p m') = (mem s)(p \<mapsto> m')"
    and send_law: "inv owned s \<Longrightarrow> 0 < owned p \<Longrightarrow> refs s p < 2 ^ 32 - 1 \<Longrightarrow> mem s p = Some m \<Longrightarrow>
      0 < bs_offset (pkt_bitstream m) \<Longrightarrow>
      \<exists>s'. send s p = Some s' \<and> inv owned s' \<and> refs s' = (refs s)(p := refs s p + 1) \<and> tasks s' = tasks s @ [p] \<and>
        others s' = others s \<and> mem s' = (mem s)(p \<mapsto> m\<lparr>pkt_length := bs_offset (pkt_bitstream m)\<rparr>)"
    and release_law: "inv owned s \<Longrightarrow> 0 < owned p \<Longrightarrow>
      \<exists>s'. release s p = Some s' \<and> inv (owned(p := owned p - 1)) s' \<and> refs s' = (refs s)(p := refs s p - 1) \<and>
        tasks s' = tasks s \<and> others s' = others s \<and> mem s' = mem s"
begin

lemma alloc_cases:
  assumes "inv owned s"
  obtains (full) "alloc s = Some (NULL, s)"
  | (packet) p s' m where "alloc s = Some (p, s')" "p \<noteq> NULL" "owned p = 0" "inv (owned(p := 1)) s'"
      "refs s' = (refs s)(p := 1)" "tasks s' = tasks s" "others s' = others s" "mem s' = (mem s)(p \<mapsto> m)" "pkt_wf m"
      "bs_offset (pkt_bitstream m) = 0"
proof -
  obtain p s' where "alloc s = Some (p, s')"
    and a: "if p = NULL then s' = s
       else owned p = 0 \<and> inv (owned(p := 1)) s' \<and> refs s' = (refs s)(p := 1) \<and> tasks s' = tasks s \<and>
         others s' = others s \<and> (\<exists>m. mem s' = (mem s)(p \<mapsto> m) \<and> pkt_wf m \<and> bs_offset (pkt_bitstream m) = 0)"
    using alloc_law [OF assms] by blast
  with that show thesis
    by (cases "p = 0") auto
qed

text \<open>A packet that is allocated, filled, sent and released is held by the socket alone.\<close>

lemma send_once:
  assumes "inv owned s" "alloc s = Some (p, s1)" "p \<noteq> NULL"
    and "\<And>m. pkt_wf m \<Longrightarrow> bs_offset (pkt_bitstream m) = 0 \<Longrightarrow>
      pkt_wf (fill m) \<and> pkt_length (fill m) = pkt_length m \<and> 0 < bs_offset (pkt_bitstream (fill m))"
  shows "\<exists>m s2 s3. mem s1 p = Some m \<and> pkt_wf m \<and> bs_offset (pkt_bitstream m) = 0 \<and>
      send (put s1 p (fill m)) p = Some s2 \<and> release s2 p = Some s3 \<and> inv owned s3 \<and> owned p = 0 \<and>
      mem s2 = mem s3 \<and> mem s3 = (mem s)(p \<mapsto> (fill m)\<lparr>pkt_length := bs_offset (pkt_bitstream (fill m))\<rparr>) \<and>
      refs s3 = (refs s)(p := 1) \<and> tasks s3 = tasks s @ [p] \<and> others s3 = others s"
proof -
  obtain m where a: "owned p = 0" "inv (owned(p := 1)) s1" "refs s1 = (refs s)(p := 1)" "tasks s1 = tasks s"
      "others s1 = others s" "mem s1 = (mem s)(p \<mapsto> m)" "pkt_wf m" "bs_offset (pkt_bitstream m) = 0"
    using alloc_law [OF assms(1)] assms(2,3) by auto
  note fill = assms(4) [OF a(7,8)]
  have put: "inv (owned(p := 1)) (put s1 p (fill m))" "refs (put s1 p (fill m)) = (refs s)(p := 1)"
      "tasks (put s1 p (fill m)) = tasks s" "others (put s1 p (fill m)) = others s"
      "mem (put s1 p (fill m)) = (mem s)(p \<mapsto> fill m)"
    using put_law [OF a(2), of p m "fill m"] a fill by simp_all
  obtain s2 where s2: "send (put s1 p (fill m)) p = Some s2" "inv (owned(p := 1)) s2" "refs s2 = (refs s)(p := Suc 1)"
      "tasks s2 = tasks s @ [p]" "others s2 = others s"
      "mem s2 = (mem s)(p \<mapsto> (fill m)\<lparr>pkt_length := bs_offset (pkt_bitstream (fill m))\<rparr>)"
    using send_law [OF put(1), of p "fill m"] put fill by auto
  obtain s3 where "release s2 p = Some s3" "inv owned s3" "refs s3 = (refs s)(p := 1)"
      "tasks s3 = tasks s2" "others s3 = others s2" "mem s3 = mem s2"
    using release_law [OF s2(2), of p] s2(3) a(1) by (auto simp: fun_upd_idem)
  then show ?thesis
    using a s2 by (intro exI [of _ m] exI [of _ s2] exI [of _ s3]) simp
qed

end

definition sk_others ::
    "net_socket_s \<Rightarrow> ptr list \<times> delivery list \<times> (net_addr_t \<times> u8 list) list \<times> ptr set \<times> ptr \<times> ptr \<times> ptr" where
  "sk_others s = (sk_queued s, sk_deliveries s, sk_wire s, sk_objects s, sk_receivers s)"

interpretation socket: packet_socket socket_inv sk_refs sk_mem sk_tasks sk_others
  net_packet_alloc net_packet_store net_packet_release net_socket_send
proof unfold_locales
  fix owned s p m m'
  assume inv: "socket_inv owned s"
  show "\<exists>p s'. net_packet_alloc s = Some (p, s') \<and>
      (if p = NULL then s' = s
       else owned p = 0 \<and> socket_inv (owned(p := 1)) s' \<and> sk_refs s' = (sk_refs s)(p := 1) \<and> sk_tasks s' = sk_tasks s \<and>
         sk_others s' = sk_others s \<and>
         (\<exists>m. sk_mem s' = (sk_mem s)(p \<mapsto> m) \<and> pkt_wf m \<and> bs_offset (pkt_bitstream m) = 0))"
  proof -
    obtain p s' where p: "net_packet_alloc s = Some (p, s')"
      and a: "if p = NULL then s' = s \<and> (\<forall>a \<in> sk_objects s. 0 < sk_refs s a)
       else sk_refs s p = 0 \<and> p \<in> sk_objects s \<and> socket_inv (owned(p := 1)) s' \<and> sk_refs s' = (sk_refs s)(p := 1) \<and>
         sk_objects s' = sk_objects s \<and>
         (\<exists>pl m. s' = s\<lparr>sk_pool := Some pl, sk_mem := (sk_mem s)(p \<mapsto> m)\<rparr> \<and> pkt_wf m \<and> bs_offset (pkt_bitstream m) = 0)"
      using net_packet_alloc_inv [OF inv] by blast
    show ?thesis
    proof (cases "p = 0")
      case False
      with a obtain pl m where "s' = s\<lparr>sk_pool := Some pl, sk_mem := (sk_mem s)(p \<mapsto> m)\<rparr>" "pkt_wf m"
          "bs_offset (pkt_bitstream m) = 0"
        by auto
      moreover from this have "sk_others s' = sk_others s"
        using a False by (simp add: sk_others_def sk_queued_def sk_receivers_def)
      moreover have "owned p = 0"
        using a False socket_inv_owned [OF inv, of p] by simp
      ultimately show ?thesis
        using p a False by (intro exI [of _ p] exI [of _ s']) auto
    qed (use p a in auto)
  qed
  have "pkt_length m \<le> 256" if "p \<in> set (sk_queued s @ sk_tasks s)" "sk_mem s p = Some m"
  proof -
    have "0 < sk_refs s p"
      using that(1) by (intro socket_inv_held [OF inv]) (auto simp: sk_held_def)
    from socket_inv_mem [OF inv this] that show ?thesis
      by auto
  qed
  then show "0 < owned p \<Longrightarrow> sk_mem s p = Some m \<Longrightarrow> pkt_wf m' \<Longrightarrow> pkt_length m' = pkt_length m \<Longrightarrow>
      socket_inv owned (net_packet_store s p m') \<and> sk_refs (net_packet_store s p m') = sk_refs s \<and>
      sk_tasks (net_packet_store s p m') = sk_tasks s \<and> sk_others (net_packet_store s p m') = sk_others s \<and>
      sk_mem (net_packet_store s p m') = (sk_mem s)(p \<mapsto> m')"
    using socket_inv_put [OF inv, of m' p]
    by (simp add: net_packet_store_def sk_others_def sk_refs_def sk_queued_def sk_objects_def sk_receivers_def fun_eq_iff)
  show "0 < owned p \<Longrightarrow> sk_refs s p < 2 ^ 32 - 1 \<Longrightarrow> sk_mem s p = Some m \<Longrightarrow> 0 < bs_offset (pkt_bitstream m) \<Longrightarrow>
      \<exists>s'. net_socket_send s p = Some s' \<and> socket_inv owned s' \<and> sk_refs s' = (sk_refs s)(p := sk_refs s p + 1) \<and>
        sk_tasks s' = sk_tasks s @ [p] \<and> sk_others s' = sk_others s \<and>
        sk_mem s' = (sk_mem s)(p \<mapsto> m\<lparr>pkt_length := bs_offset (pkt_bitstream m)\<rparr>)"
    using net_socket_send_inv [OF inv, of p m] by (auto simp: sk_others_def)
  show "0 < owned p \<Longrightarrow> \<exists>s'. net_packet_release s p = Some s' \<and> socket_inv (owned(p := owned p - 1)) s' \<and>
      sk_refs s' = (sk_refs s)(p := sk_refs s p - 1) \<and> sk_tasks s' = sk_tasks s \<and> sk_others s' = sk_others s \<and>
      sk_mem s' = sk_mem s"
    using net_packet_release_inv [OF inv, of p] by (auto simp: refs_updated_def sk_others_def sk_queued_def sk_receivers_def)
qed

text \<open>A packet filled with bytes for an address.\<close>

definition filled :: "net_addr_t \<Rightarrow> u8 list \<Rightarrow> net_packet_s \<Rightarrow> net_packet_s" where
  "filled addr bytes m = m\<lparr>pkt_bitstream := bs_put (pkt_bitstream m) bytes, pkt_addr := addr\<rparr>"

definition sent :: "net_packet_s \<Rightarrow> net_packet_s" where
  "sent m = m\<lparr>pkt_length := bs_offset (pkt_bitstream m)\<rparr>"

lemma pkt_wf_room: "pkt_wf m \<Longrightarrow> bs_offset (pkt_bitstream m) = 0 \<Longrightarrow> n \<le> 256 \<Longrightarrow> bs_room (pkt_bitstream m) n"
  by (simp add: pkt_wf_def bs_room_def)

lemma filled_wf:
  assumes "pkt_wf m" "bs_offset (pkt_bitstream m) = 0" "length bytes \<le> 256"
  shows "pkt_wf (filled addr bytes m)" "pkt_length (filled addr bytes m) = pkt_length m"
    "bs_offset (pkt_bitstream (filled addr bytes m)) = length bytes"
    "datagram (sent (filled addr bytes m)) = (addr, bytes)"
proof -
  have len: "length (bs_data (pkt_bitstream m)) = 256"
    using assms(1) by (simp add: pkt_wf_def pkt_block_def)
  then have "take (length bytes) (overwrite (bs_data (pkt_bitstream m)) 0 bytes) = bytes"
    using assms(3) by (simp add: overwrite_def)
  with assms len show "pkt_wf (filled addr bytes m)" "pkt_length (filled addr bytes m) = pkt_length m"
    "bs_offset (pkt_bitstream (filled addr bytes m)) = length bytes"
    "datagram (sent (filled addr bytes m)) = (addr, bytes)"
    by (simp_all add: filled_def bs_put_def pkt_wf_def pkt_block_def datagram_def sent_def)
qed

lemma net_packet_store_simps [simp]:
  "sk_mem (net_packet_store s p m) = (sk_mem s)(p \<mapsto> m)"
  "net_packet_store (net_packet_store s p m) p m' = net_packet_store s p m'"
  by (simp_all add: net_packet_store_def)

end
