(* ===== verification/Socket_Runs.thy ===== *)
theory Socket_Runs
  imports Net_Socket
begin

text \<open>
  Runs of a socket: the events of its clients, of the dispatch queues and of the network in any
  order, as an inductive reachability relation, with the invariant of \<open>Net_Socket\<close> proved by rule
  induction. The events are the operations of \<^verbatim>\<open>net_socket.c\<close>, each one atomic.
\<close>

section \<open>Definitions\<close>

text \<open>
  The system: the socket, the references its clients hold and the packets leaked by the read
  handler. \<open>EvStore\<close> stands for a client that fills a packet it owns.
\<close>

record socket_sys =
  sys_socket :: net_socket_s
  sys_owned :: "ptr \<Rightarrow> nat"
  sys_leaked :: "ptr list"

datatype socket_event =
    EvAlloc
  | EvRetain ptr
  | EvRelease ptr
  | EvStore ptr net_packet_s
  | EvSend ptr
  | EvTask ptr
  | EvWritable
  | EvReadable recv_result
  | EvDeliver delivery
  | EvReceiver ptr ptr ptr

definition sys_own :: "socket_sys \<Rightarrow> net_socket_s \<Rightarrow> ptr \<Rightarrow> nat \<Rightarrow> socket_sys" where
  "sys_own w s p n = w\<lparr>sys_socket := s, sys_owned := (sys_owned w)(p := n)\<rparr>"

fun socket_exec :: "socket_event \<Rightarrow> socket_sys \<Rightarrow> socket_sys option" where
  "socket_exec EvAlloc w = do {
     (p, s) \<leftarrow> net_packet_alloc (sys_socket w);
     Some (if p = NULL then w else sys_own w s p (sys_owned w p + 1)) }"
| "socket_exec (EvRetain p) w = do {
     s \<leftarrow> net_packet_retain (sys_socket w) p; Some (sys_own w s p (sys_owned w p + 1)) }"
| "socket_exec (EvRelease p) w = do {
     s \<leftarrow> net_packet_release (sys_socket w) p; Some (sys_own w s p (sys_owned w p - 1)) }"
| "socket_exec (EvStore p m) w = Some (w\<lparr>sys_socket := net_packet_store (sys_socket w) p m\<rparr>)"
| "socket_exec (EvSend p) w = do { s \<leftarrow> net_socket_send (sys_socket w) p; Some (w\<lparr>sys_socket := s\<rparr>) }"
| "socket_exec (EvTask malloc) w = do { s \<leftarrow> run_socket_task malloc (sys_socket w); Some (w\<lparr>sys_socket := s\<rparr>) }"
| "socket_exec EvWritable w = do { s \<leftarrow> write_handler (sys_socket w); Some (w\<lparr>sys_socket := s\<rparr>) }"
| "socket_exec (EvReadable r) w = do {
     (p, _) \<leftarrow> net_packet_alloc (sys_socket w);
     s \<leftarrow> read_handler r (sys_socket w);
     Some (w\<lparr>sys_socket := s,
             sys_leaked := (if p \<noteq> NULL \<and> recv_leaks r (sys_socket w) then p # sys_leaked w else sys_leaked w)\<rparr>) }"
| "socket_exec (EvDeliver d) w = do {
     (_, s) \<leftarrow> run_delivery d (sys_socket w);
     Some (sys_own w s (delivery_packet d) (sys_owned w (delivery_packet d) + 1)) }"
| "socket_exec (EvReceiver context callback block) w =
     Some (w\<lparr>sys_socket :=
       net_socket_set_receive_block (net_socket_set_receive_callback (sys_socket w) context callback) block\<rparr>)"

text \<open>
  What a client may do: use packets it owns, keep them well-formed, and not take a receiver away
  while packets for it are on their way. The other events are enabled by the state.
\<close>

fun socket_enabled :: "socket_event \<Rightarrow> socket_sys \<Rightarrow> bool" where
  "socket_enabled EvAlloc w \<longleftrightarrow> True"
| "socket_enabled (EvRetain p) w \<longleftrightarrow> 0 < sys_owned w p \<and> sk_refs (sys_socket w) p < 2 ^ 32 - 1"
| "socket_enabled (EvRelease p) w \<longleftrightarrow> 0 < sys_owned w p"
| "socket_enabled (EvStore p m) w \<longleftrightarrow> 0 < sys_owned w p \<and> pkt_wf m \<and>
     (\<exists>m'. sk_mem (sys_socket w) p = Some m' \<and> pkt_length m = pkt_length m')"
| "socket_enabled (EvSend p) w \<longleftrightarrow> 0 < sys_owned w p \<and> sk_refs (sys_socket w) p < 2 ^ 32 - 1"
| "socket_enabled (EvTask malloc) w \<longleftrightarrow> sk_tasks (sys_socket w) \<noteq> [] \<and> malloc \<noteq> NULL \<and>
     (case sk_pending (sys_socket w) of None \<Rightarrow> True | Some q \<Rightarrow> malloc_ok malloc q)"
| "socket_enabled EvWritable w \<longleftrightarrow> sk_isSending (sys_socket w)"
| "socket_enabled (EvReadable r) w \<longleftrightarrow> True"
| "socket_enabled (EvDeliver d) w \<longleftrightarrow> d \<in> set (sk_deliveries (sys_socket w))"
| "socket_enabled (EvReceiver context callback block) w \<longleftrightarrow>
     (\<forall>d \<in> set (sk_deliveries (sys_socket w)). case d of DeliverBlock _ \<Rightarrow> block \<noteq> NULL | DeliverCallback _ \<Rightarrow> callback \<noteq> NULL)"

definition socket_init :: "net_socket_s \<Rightarrow> socket_sys" where
  "socket_init s = \<lparr>sys_socket = s, sys_owned = (\<lambda>_. 0), sys_leaked = []\<rparr>"

inductive socket_reach :: "net_socket_s \<Rightarrow> socket_sys \<Rightarrow> bool" for s where
  start: "socket_reach s (socket_init s)"
| step: "socket_reach s w \<Longrightarrow> socket_enabled ev w \<Longrightarrow> socket_exec ev w = Some w' \<Longrightarrow> socket_reach s w'"

definition receivers_set :: "net_socket_s \<Rightarrow> bool" where
  "receivers_set s \<longleftrightarrow> (\<forall>d \<in> set (sk_deliveries s).
     case d of DeliverBlock _ \<Rightarrow> sk_receiveBlock s \<noteq> NULL | DeliverCallback _ \<Rightarrow> sk_receiveCallback s \<noteq> NULL)"

definition sys_inv :: "socket_sys \<Rightarrow> bool" where
  "sys_inv w \<longleftrightarrow> socket_inv (\<lambda>p. sys_owned w p + count_list (sys_leaked w) p) (sys_socket w) \<and>
     receivers_set (sys_socket w)"

text \<open>What the system must grant for a socket that works, and the memory of a new pool.\<close>

definition os_grants :: "socket_os \<Rightarrow> bool" where
  "os_grants os \<longleftrightarrow> os_queue_malloc os \<and> os_pool_malloc os \<and> os_pool_memblock os \<noteq> NULL \<and>
     (\<forall>i < kNetPacketPoolCapacity. \<exists>m. os_pool_mem os (os_pool_memblock os + i * (sizeof_net_packet + 24)) = Some m \<and> pkt_block m)"

text \<open>Running the blocks of the serial queue that wait, and then the write handler.\<close>

fun run_tasks :: "(net_socket_s \<Rightarrow> ptr) \<Rightarrow> nat \<Rightarrow> net_socket_s \<Rightarrow> net_socket_s option" where
  "run_tasks malloc 0 s = Some s"
| "run_tasks malloc (Suc n) s = do { s \<leftarrow> run_socket_task (malloc s) s; run_tasks malloc n s }"

definition socket_flush :: "(net_socket_s \<Rightarrow> ptr) \<Rightarrow> net_socket_s \<Rightarrow> net_socket_s option" where
  "socket_flush malloc s = do { s \<leftarrow> run_tasks malloc (length (sk_tasks s)) s; write_handler s }"

fun read_datagrams :: "recv_result list \<Rightarrow> net_socket_s \<Rightarrow> net_socket_s option" where
  "read_datagrams [] s = Some s"
| "read_datagrams (r # rs) s = do { s \<leftarrow> read_handler r s; read_datagrams rs s }"

text \<open>The number of packets that can be allocated.\<close>

definition sk_free :: "net_socket_s \<Rightarrow> nat" where
  "sk_free s = card {a \<in> sk_objects s. sk_refs s a = 0}"

text \<open>An allocator for queue nodes: the address after the largest in use.\<close>

definition fresh_node :: "net_socket_s \<Rightarrow> ptr" where
  "fresh_node s = (case sk_pending s of None \<Rightarrow> 1 | Some q \<Rightarrow> Suc (Max (insert 0 (dom (q_heap q)))))"

section \<open>The invariant of runs\<close>

inductive_cases socket_reachE: "socket_reach s w"

text \<open>No operation but the setters changes the receivers.\<close>

lemma packet_ops_receivers:
  "net_packet_alloc s = Some (p, s') \<Longrightarrow> sk_receivers s' = sk_receivers s"
  "net_packet_release s p = Some s' \<Longrightarrow> sk_receivers s' = sk_receivers s"
  "net_packet_retain s p = Some s' \<Longrightarrow> sk_receivers s' = sk_receivers s"
  "net_packet_free s p = Some s' \<Longrightarrow> sk_receivers s' = sk_receivers s"
  by (auto simp: sk_receivers_def net_packet_alloc_def net_packet_release_def net_packet_retain_def net_packet_free_def
      Option.bind_eq_Some_conv Let_def split: if_splits)

lemma write_loop_receivers:
  assumes "write_loop s = Some s'"
  shows "sk_receivers s' = sk_receivers s"
  using _ assms
proof (rule write_loop.raw_induct [of "\<lambda>s s'. sk_receivers s' = sk_receivers s"])
  fix loop :: "net_socket_s \<Rightarrow> net_socket_s option" and s s'
  assume IH: "\<And>s s'. loop s = Some s' \<Longrightarrow> sk_receivers s' = sk_receivers s"
  assume "do {
     q \<leftarrow> sk_pending s;
     (packet, q) \<leftarrow> queue_pop q;
     let s = s\<lparr>sk_pending := Some q\<rparr>;
     if packet = NULL then Some s
     else do {
       m \<leftarrow> sk_mem s packet;
       if pkt_length m > length (bs_data (pkt_bitstream m)) then None
       else do {
         let s = s\<lparr>sk_wire := sk_wire s @ [(pkt_addr m, take (pkt_length m) (bs_data (pkt_bitstream m)))]\<rparr>;
         s \<leftarrow> net_packet_release s packet;
         loop s
       }
     }
   } = Some s'"
  then show "sk_receivers s' = sk_receivers s"
    by (auto simp: Option.bind_eq_Some_conv Let_def net_packet_release_def split: if_splits dest!: IH)
      (simp_all add: sk_receivers_def)
qed

lemma socket_ops_receivers:
  "net_socket_send s p = Some s' \<Longrightarrow> sk_receivers s' = sk_receivers s"
  "run_socket_task malloc s = Some s' \<Longrightarrow> sk_receivers s' = sk_receivers s"
  "write_handler s = Some s' \<Longrightarrow> sk_receivers s' = sk_receivers s"
  "read_handler r s = Some s' \<Longrightarrow> sk_receivers s' = sk_receivers s"
  "run_delivery d s = Some (c, s') \<Longrightarrow> sk_receivers s' = sk_receivers s"
proof -
  show "net_socket_send s p = Some s' \<Longrightarrow> sk_receivers s' = sk_receivers s"
    by (auto simp: sk_receivers_def net_socket_send_def net_packet_retain_def Option.bind_eq_Some_conv Let_def split: if_splits)
  show "run_socket_task malloc s = Some s' \<Longrightarrow> sk_receivers s' = sk_receivers s"
    by (auto simp: sk_receivers_def run_socket_task_def net_socket_resume_write_def Option.bind_eq_Some_conv Let_def
        split: if_splits list.splits)
  show "write_handler s = Some s' \<Longrightarrow> sk_receivers s' = sk_receivers s"
    by (auto simp: write_handler_def net_socket_suspend_write_def Option.bind_eq_Some_conv dest!: write_loop_receivers)
      (auto simp: sk_receivers_def)
  show "read_handler r s = Some s' \<Longrightarrow> sk_receivers s' = sk_receivers s"
  proof -
    assume h: "read_handler r s = Some s'"
    then obtain p s1 where a: "net_packet_alloc s = Some (p, s1)"
      by (auto simp: read_handler_def Option.bind_eq_Some_conv)
    then have r: "sk_receiveBlock s1 = sk_receiveBlock s" "sk_receiveCallback s1 = sk_receiveCallback s"
        "sk_receiveCallbackContext s1 = sk_receiveCallbackContext s"
      using packet_ops_receivers(1) [OF a] by (simp_all add: sk_receivers_def)
    show ?thesis
    proof (cases "p = 0")
      case True
      with h a r show ?thesis
        by (simp add: read_handler_def sk_receivers_def)
    next
      case False
      with h a obtain m where "sk_mem s1 p = Some m"
        by (auto simp: read_handler_def Option.bind_eq_Some_conv)
      with h r read_handler_cases [OF a False this, of r] show ?thesis
        by (auto simp: Let_def net_packet_free_def sk_receivers_def Option.bind_eq_Some_conv split: if_splits)
    qed
  qed
  show "run_delivery d s = Some (c, s') \<Longrightarrow> sk_receivers s' = sk_receivers s"
    by (auto simp: sk_receivers_def run_delivery_def Let_def split: delivery.splits if_splits)
qed

lemma receivers_set_keep:
  assumes "sk_receivers s' = sk_receivers s" "set (sk_deliveries s') \<subseteq> set (sk_deliveries s)" "receivers_set s"
  shows "receivers_set s'"
  using assms by (auto simp: receivers_set_def sk_receivers_def split: delivery.splits)

lemma sys_invI:
  assumes "socket_inv owned s" "receivers_set s"
    and "\<And>p. owned p = sys_owned w p + count_list (sys_leaked w) p" "sys_socket w = s"
  shows "sys_inv w"
proof -
  have "owned = (\<lambda>p. sys_owned w p + count_list (sys_leaked w) p)"
    using assms(3) by (rule ext)
  with assms show ?thesis
    by (simp add: sys_inv_def)
qed

text \<open>
  One step: an enabled event never faults and keeps the invariant. The first lemma treats the
  events of the clients, the second those of the queues and the network.
\<close>

lemma client_step_inv:
  assumes "sys_inv w" "socket_enabled ev w"
    and "ev = EvAlloc \<or> (\<exists>p. ev = EvRetain p \<or> ev = EvRelease p \<or> ev = EvSend p \<or> (\<exists>m. ev = EvStore p m))"
  shows "\<exists>w'. socket_exec ev w = Some w' \<and> sys_inv w'"
proof -
  let ?s = "sys_socket w" and ?own = "\<lambda>p. sys_owned w p + count_list (sys_leaked w) p"
  have inv: "socket_inv ?own ?s" and recv: "receivers_set ?s"
    using assms(1) by (simp_all add: sys_inv_def)
  have keep: "receivers_set s'" if "sk_receivers s' = sk_receivers ?s" "sk_deliveries s' = sk_deliveries ?s" for s'
    using receivers_set_keep [OF that(1)] that(2) recv by simp
  consider "ev = EvAlloc" | p where "ev = EvRetain p" | p where "ev = EvRelease p" | p m where "ev = EvStore p m" | p where "ev = EvSend p"
    using assms(3) by blast
  then show ?thesis
  proof cases
    case 1
    from inv show ?thesis
    proof (cases rule: socket.alloc_cases)
      case full
      with assms(1) 1 show ?thesis
        by simp
    next
      case (packet p s' m)
      then have "sys_inv (sys_own w s' p (sys_owned w p + 1))"
        using keep [OF packet_ops_receivers(1) [OF packet(1)]]
        by (intro sys_invI [OF packet(4)]) (auto simp: sys_own_def sk_others_def)
      with packet 1 show ?thesis
        by simp
    qed
  next
    case (2 p)
    then obtain s' where s': "net_packet_retain ?s p = Some s'" "socket_inv (?own(p := ?own p + 1)) s'" "refs_updated ?s s' p (sk_refs ?s p + 1)"
      using net_packet_retain_inv [OF inv, of p] assms(2) by auto
    then have "sys_inv (sys_own w s' p (sys_owned w p + 1))"
      using keep [OF packet_ops_receivers(3) [OF s'(1)]]
      by (intro sys_invI [OF s'(2)]) (auto simp: sys_own_def refs_updated_def)
    with s'(1) 2 show ?thesis
      by simp
  next
    case (3 p)
    then obtain s' where s': "net_packet_release ?s p = Some s'" "socket_inv (?own(p := ?own p - 1)) s'" "refs_updated ?s s' p (sk_refs ?s p - 1)"
      using net_packet_release_inv [OF inv, of p] assms(2) by auto
    then have "sys_inv (sys_own w s' p (sys_owned w p - 1))"
      using keep [OF packet_ops_receivers(2) [OF s'(1)]] assms(2) 3
      by (intro sys_invI [OF s'(2)]) (auto simp: sys_own_def refs_updated_def)
    with s'(1) 3 show ?thesis
      by simp
  next
    case (4 p m)
    then have "socket_inv ?own (net_packet_store ?s p m)"
      using socket.put_law [OF inv, of p _ m] assms(2) by auto
    moreover have "receivers_set (net_packet_store ?s p m)"
      by (rule keep) (simp_all add: net_packet_store_def sk_receivers_def)
    ultimately show ?thesis
      using 4 by (auto intro: sys_invI)
  next
    case (5 p)
    then have "0 < sk_refs ?s p"
      using socket_inv_owned [OF inv, of p] assms(2) by simp
    then obtain m where "sk_mem ?s p = Some m"
      using socket_inv_mem [OF inv] by blast
    then obtain s' where s': "net_socket_send ?s p = Some s'" "socket_inv ?own s'" "sk_deliveries s' = sk_deliveries ?s"
      using net_socket_send_inv [OF inv, of p m] assms(2) 5 by auto
    then show ?thesis
      using 5 keep [OF socket_ops_receivers(1) [OF s'(1)]] by (auto intro: sys_invI)
  qed
qed

lemma run_delivery_runs: "receivers_set s \<Longrightarrow> d \<in> set (sk_deliveries s) \<Longrightarrow> \<exists>c s'. run_delivery d s = Some (c, s')"
  by (auto simp: receivers_set_def run_delivery_def Let_def split: delivery.splits)

lemma read_step_inv:
  assumes "sys_inv w"
  shows "\<exists>w'. socket_exec (EvReadable r) w = Some w' \<and> sys_inv w'"
proof -
  let ?s = "sys_socket w" and ?own = "\<lambda>p. sys_owned w p + count_list (sys_leaked w) p"
  have inv: "socket_inv ?own ?s" and recv: "receivers_set ?s"
    using assms by (simp_all add: sys_inv_def)
  from inv show ?thesis
  proof (cases rule: socket.alloc_cases)
    case full
    then have "read_handler r ?s = Some ?s"
      by (simp add: read_handler_def)
    with full assms show ?thesis
      by simp
  next
    case (packet p s1 m)
    obtain s' where s': "read_handler r ?s = Some s'"
        "socket_inv (if recv_leaks r ?s then ?own(p := 1) else ?own) s'"
        "sk_deliveries s' = sk_deliveries ?s \<or> \<not> recv_leaks r ?s \<and> 0 < recv_bytes r \<and> recv_bytes r \<le> 256 \<and>
           sk_deliveries s' = sk_deliveries ?s @ [recv_delivery ?s p]"
      using read_handler_inv [OF inv packet(1,2), of r] by (auto split: if_splits)
    have "receivers_set s'"
      using recv s'(3) socket_ops_receivers(4) [OF s'(1)]
      by (auto simp: receivers_set_def sk_receivers_def recv_delivery_def recv_leaks_def split: delivery.splits if_splits)
    with s' packet show ?thesis
      by (auto intro!: sys_invI [OF s'(2)])
  qed
qed

lemma queue_step_inv:
  assumes "sys_inv w" "socket_enabled ev w"
    and "ev = EvWritable \<or> (\<exists>malloc. ev = EvTask malloc) \<or> (\<exists>d. ev = EvDeliver d) \<or> (\<exists>c f b. ev = EvReceiver c f b)"
  shows "\<exists>w'. socket_exec ev w = Some w' \<and> sys_inv w'"
proof -
  let ?s = "sys_socket w" and ?own = "\<lambda>p. sys_owned w p + count_list (sys_leaked w) p"
  have inv: "socket_inv ?own ?s" and recv: "receivers_set ?s"
    using assms(1) by (simp_all add: sys_inv_def)
  note keep = receivers_set_keep [OF _ _ recv]
  consider "ev = EvWritable" | m where "ev = EvTask m" | d where "ev = EvDeliver d" | c f b where "ev = EvReceiver c f b"
    using assms(3) by blast
  then show ?thesis
  proof cases
    case 1
    then obtain s' where s': "write_handler ?s = Some s'" "socket_inv ?own s'" "sk_deliveries s' = sk_deliveries ?s"
      using write_handler_inv [OF inv] by blast
    then show ?thesis
      using 1 keep [OF socket_ops_receivers(3) [OF s'(1)]] by (auto intro: sys_invI)
  next
    case (2 m)
    then obtain p rest where "sk_tasks ?s = p # rest"
      using assms(2) by (cases "sk_tasks ?s") auto
    then obtain s' where s': "run_socket_task m ?s = Some s'" "socket_inv ?own s'" "sk_deliveries s' = sk_deliveries ?s"
      using run_socket_task_inv [OF inv, of p rest m] assms(2) 2 by (auto split: option.splits)
    then show ?thesis
      using 2 keep [OF socket_ops_receivers(2) [OF s'(1)]] by (auto intro: sys_invI)
  next
    case (3 d)
    then have d: "d \<in> set (sk_deliveries ?s)"
      using assms(2) by simp
    then obtain c s' where s': "run_delivery d ?s = Some (c, s')"
      using run_delivery_runs [OF recv] by blast
    moreover from this have "set (sk_deliveries s') \<subseteq> set (sk_deliveries ?s)"
      using set_remove1_subset [of d "sk_deliveries ?s"]
      by (auto simp: run_delivery_def Let_def split: delivery.splits if_splits)
    ultimately have "sys_inv (sys_own w s' (delivery_packet d) (sys_owned w (delivery_packet d) + 1))"
      using keep [OF socket_ops_receivers(5) [OF s']]
      by (intro sys_invI [OF run_delivery_inv [OF inv d s']]) (auto simp: sys_own_def)
    with s' 3 show ?thesis
      by simp
  next
    case (4 c f b)
    obtain pl q where "sk_pending ?s = Some q" "queue_inv q"
      using inv by (rule sk_containersE)
    then have "socket_inv ?own (net_socket_set_receive_block (net_socket_set_receive_callback ?s c f) b)"
      using inv
      by (intro socket_inv_move [OF inv, of _ q])
        (simp_all add: net_socket_set_receive_block_def net_socket_set_receive_callback_def sk_held_def sk_queued_def socket_inv_def)
    moreover have "receivers_set (net_socket_set_receive_block (net_socket_set_receive_callback ?s c f) b)"
      using assms(2) 4
      by (auto simp: receivers_set_def net_socket_set_receive_block_def net_socket_set_receive_callback_def split: delivery.splits)
    ultimately show ?thesis
      using 4 by (auto intro: sys_invI)
  qed
qed

lemma socket_step_inv:
  assumes "sys_inv w" "socket_enabled ev w"
  shows "\<exists>w'. socket_exec ev w = Some w' \<and> sys_inv w'"
  using client_step_inv [OF assms] read_step_inv [OF assms(1)] queue_step_inv [OF assms] by (cases ev) auto

lemma socket_reach_inv:
  assumes "socket_reach s w" "sys_inv (socket_init s)"
  shows "sys_inv w"
  using assms by (induction rule: socket_reach.induct) (auto dest: socket_step_inv)

section \<open>Creation\<close>

lemma pool_created:
  assumes "memblock \<noteq> NULL"
  shows "\<exists>pl. pool_create True memblock sizeof_net_packet kNetPacketPoolCapacity = Some (Some pl) \<and> pool_inv pl \<and>
    (\<forall>a. pool_refs pl a = 0) \<and> pool_objects pl = (\<lambda>i. memblock + i * 328) ` {..<64}"
proof -
  obtain pl where pl: "pool_create True memblock 304 64 = Some (Some pl)" "pool_rel pl (map (pool_node pl) [0..<64])"
      "p_capacity pl = 64" "pool_object pl = (\<lambda>i. memblock + i * 328)"
    using pool_create_rel [of memblock 64 304] assms by auto
  have "pool_refs pl a = 0" for a
  proof (rule ccontr)
    assume "pool_refs pl a \<noteq> 0"
    with pl(2) obtain i where "i < 64" "pool_node pl i \<notin> set (map (pool_node pl) [0..<64])"
      by (metis pool_refs_pos pl(3) bot_nat_0.not_eq_extremum)
    then show False
      by auto
  qed
  then show ?thesis
    using pl by (auto simp: pool_inv_def pool_objects_def)
qed

text \<open>The socket of a successful creation: everything but the descriptor and its address is known.\<close>

lemma create_success:
  assumes "net_socket_create e os error domain host port = Some (err, Created (Some s))"
  shows "err = NetNoError \<and> (\<exists>pl. pool_create (os_pool_malloc os) (os_pool_memblock os) sizeof_net_packet kNetPacketPoolCapacity = Some pl \<and>
    s = net_socket_zero\<lparr>sk_pending := queue_create (os_queue_malloc os), sk_pool := pl, sk_mem := os_pool_mem os,
      sk_fd := os_socket os, sk_sockaddr := os_sockname os, sk_readSource := os_readSource os,
      sk_writeSource := os_writeSource os, sk_suspended := 1, sk_cancels := 2, sk_isSending := False\<rparr>)"
  using assms
  by (auto simp: net_socket_create_def net_socket_fail_def net_socket_set_dispatch_sources_def Option.bind_eq_Some_conv Let_def
      split: if_splits option.splits prod.splits)

lemma create_fields:
  assumes "net_socket_create e os error domain host port = Some (err, Created (Some s))"
  shows "sk_cancels s = 2" "sk_readSource s = os_readSource os" "sk_writeSource s = os_writeSource os" "sk_canceled s = []"
    "sk_tasks s = []" "sk_deliveries s = []" "sk_wire s = []" "sk_receiveBlock s = NULL" "sk_receiveCallback s = NULL"
  using create_success [OF assms] by (auto simp: net_socket_zero_def)

lemma create_inv:
  assumes "net_socket_create e os error domain host port = Some (err, Created (Some s))" "os_grants os"
  shows "socket_inv (\<lambda>_. 0) s" "sys_inv (socket_init s)" "sk_objects s = (\<lambda>i. os_pool_memblock os + i * 328) ` {..<64}"
    "sk_refs s = (\<lambda>_. 0)" "sk_queued s = []"
proof -
  have os: "os_queue_malloc os" "os_pool_malloc os" "os_pool_memblock os \<noteq> 0"
      "\<forall>i < 64. \<exists>m. os_pool_mem os (os_pool_memblock os + i * 328) = Some m \<and> pkt_block m"
    using assms(2) by (simp_all add: os_grants_def)
  obtain pl where pl: "pool_create True (os_pool_memblock os) 304 64 = Some (Some pl)" "pool_inv pl" "\<forall>a. pool_refs pl a = 0"
      "pool_objects pl = (\<lambda>i. os_pool_memblock os + i * 328) ` {..<64}"
    using pool_created [OF os(3)] by blast
  obtain q where q: "queue_create True = Some q" "queue_rel q [] []"
    using queue_create_inv by (auto simp: queue_create_def)
  have s: "s = net_socket_zero\<lparr>sk_pending := Some q, sk_pool := Some pl, sk_mem := os_pool_mem os,
      sk_fd := os_socket os, sk_sockaddr := os_sockname os, sk_readSource := os_readSource os,
      sk_writeSource := os_writeSource os, sk_suspended := 1, sk_cancels := 2, sk_isSending := False\<rparr>"
    using create_success [OF assms(1)] pl(1) q(1) os(1,2) by auto
  have "sk_pool s = Some pl" "sk_pending s = Some q"
    by (simp_all add: s)
  then have proj: "sk_refs s = pool_refs pl" "sk_objects s = pool_objects pl" "sk_queued s = []"
    using queue_rel_list [OF q(2)] by (simp_all add: sk_proj)
  then have held: "sk_held s = []"
    by (simp add: sk_held_def s net_socket_zero_def)
  have "sk_memory s"
    using os(4) pl(3,4) unfolding sk_memory_def proj by (auto simp: s net_socket_zero_def)
  then show inv: "socket_inv (\<lambda>_. 0) s"
    using proj held pl q \<open>sk_pool s = Some pl\<close> \<open>sk_pending s = Some q\<close>
    by (auto simp: socket_inv_def sk_containers_def queue_inv_def fun_eq_iff s)
  show "sys_inv (socket_init s)"
    using inv by (simp add: sys_inv_def socket_init_def receivers_set_def) (simp add: s net_socket_zero_def)
  show "sk_objects s = (\<lambda>i. os_pool_memblock os + i * 328) ` {..<64}"
    using proj(2) pl(4) by simp
  show "sk_refs s = (\<lambda>_. 0)" "sk_queued s = []"
    using proj pl(3) by (simp_all add: fun_eq_iff)
qed

lemma create_free:
  assumes "net_socket_create e os error domain host port = Some (err, Created (Some s))" "os_grants os"
  shows "sk_free s = 64"
proof -
  have "inj_on (\<lambda>i. os_pool_memblock os + i * 328) {..<64}"
    by (rule inj_onI) simp
  then have "card ((\<lambda>i. os_pool_memblock os + i * 328) ` {..<64}) = 64"
    by (simp only: card_image card_lessThan)
  then show ?thesis
    using create_inv(3,4) [OF assms] by (simp add: sk_free_def)
qed

lemma alloc_free:
  assumes "socket_inv owned s" "0 < sk_free s"
  obtains p s' where "net_packet_alloc s = Some (p, s')" "p \<noteq> NULL" "sk_refs s p = 0" "p \<in> sk_objects s"
proof -
  obtain p s' where p: "net_packet_alloc s = Some (p, s')"
    and a: "if p = NULL then s' = s \<and> (\<forall>a \<in> sk_objects s. 0 < sk_refs s a)
      else sk_refs s p = 0 \<and> p \<in> sk_objects s \<and> socket_inv (owned(p := 1)) s' \<and> sk_refs s' = (sk_refs s)(p := 1) \<and>
        sk_objects s' = sk_objects s \<and>
        (\<exists>pl m. s' = s\<lparr>sk_pool := Some pl, sk_mem := (sk_mem s)(p \<mapsto> m)\<rparr> \<and> pkt_wf m \<and> bs_offset (pkt_bitstream m) = 0)"
    using net_packet_alloc_inv [OF assms(1)] by blast
  have "p \<noteq> NULL"
  proof
    assume "p = NULL"
    with a have "{a \<in> sk_objects s. sk_refs s a = 0} = {}"
      by auto
    then have "sk_free s = 0"
      by (simp only: sk_free_def card.empty)
    with assms(2) show False
      by simp
  qed
  with p a that show thesis
    by simp
qed

text \<open>The packets that are free after a packet has got its first reference.\<close>

lemma sk_free_upd:
  assumes "finite (sk_objects s)" "sk_objects s' = sk_objects s" "sk_refs s' = (sk_refs s)(p := Suc n)" "p \<in> sk_objects s" "sk_refs s p = 0"
  shows "sk_free s' = sk_free s - 1"
proof -
  have "{a \<in> sk_objects s'. sk_refs s' a = 0} = {a \<in> sk_objects s. sk_refs s a = 0} - {p}"
    using assms(2,3) by auto
  then show ?thesis
    using assms by (simp add: sk_free_def)
qed

lemma fresh_node_ok:
  assumes "socket_inv owned s"
  shows "fresh_node s \<noteq> NULL" "sk_pending s = Some q \<Longrightarrow> malloc_ok (fresh_node s) q"
proof -
  obtain pl q0 where q0: "sk_pending s = Some q0" "queue_inv q0"
    using assms by (rule sk_containersE)
  then have fin: "finite (insert 0 (dom (q_heap q0)))"
    by (auto simp: queue_inv_def queue_rel_def)
  have "fresh_node s = Suc (Max (insert 0 (dom (q_heap q0))))"
    using q0 by (simp add: fresh_node_def)
  moreover from this have "fresh_node s \<notin> dom (q_heap q0)"
    using Max_ge [OF fin, of "fresh_node s"] by auto
  ultimately show "fresh_node s \<noteq> NULL" "sk_pending s = Some q \<Longrightarrow> malloc_ok (fresh_node s) q"
    using q0 by (auto simp: malloc_ok_def)
qed

lemma run_tasks_inv:
  assumes "socket_inv owned s" "n = length (sk_tasks s)"
    and "\<And>s q. socket_inv owned s \<Longrightarrow> malloc s \<noteq> NULL \<and> (sk_pending s = Some q \<longrightarrow> malloc_ok (malloc s) q)"
  shows "\<exists>s'. run_tasks malloc n s = Some s' \<and> socket_inv owned s' \<and> sk_tasks s' = [] \<and>
    sk_queued s' = sk_queued s @ sk_tasks s \<and> sk_refs s' = sk_refs s \<and> sk_mem s' = sk_mem s \<and> sk_wire s' = sk_wire s \<and>
    sk_deliveries s' = sk_deliveries s \<and> sk_objects s' = sk_objects s"
  using assms(1,2)
proof (induction n arbitrary: s)
  case (Suc n)
  then obtain p rest where tasks: "sk_tasks s = p # rest"
    by (cases "sk_tasks s") auto
  have "\<And>q. sk_pending s = Some q \<Longrightarrow> malloc_ok (malloc s) q" "malloc s \<noteq> NULL"
    using assms(3) [OF Suc.prems(1)] by blast+
  from run_socket_task_inv [OF Suc.prems(1) tasks this] obtain s1 where
    s1: "run_socket_task (malloc s) s = Some s1" "socket_inv owned s1" "sk_tasks s1 = rest" "sk_queued s1 = sk_queued s @ [p]"
      "sk_refs s1 = sk_refs s" "sk_mem s1 = sk_mem s" "sk_wire s1 = sk_wire s" "sk_deliveries s1 = sk_deliveries s"
      "sk_objects s1 = sk_objects s"
    by blast
  have "n = length (sk_tasks s1)"
    using Suc.prems(2) tasks s1(3) by simp
  from Suc.IH [OF s1(2) this] show ?case
    using s1 tasks by auto
qed simp

lemma socket_inv_queued:
  assumes "socket_inv owned s" "p \<in> set (sk_queued s @ sk_tasks s)"
  shows "\<exists>m. sk_mem s p = Some m \<and> pkt_wf m \<and> pkt_length m \<le> kNetPacketMaxLen"
proof -
  have "0 < sk_refs s p"
    using assms by (intro socket_inv_held) (auto simp: sk_held_def)
  with socket_inv_object [OF assms(1) this] assms show ?thesis
    by (auto simp: socket_inv_def sk_memory_def)
qed

text \<open>The flush of a socket with one packet on its way.\<close>

lemma run_tasks_receivers: "run_tasks malloc n s = Some s' \<Longrightarrow> sk_receivers s' = sk_receivers s"
  by (induction n arbitrary: s) (auto simp: Option.bind_eq_Some_conv dest: socket_ops_receivers(2))

lemma socket_flush_inv:
  assumes "socket_inv owned s"
  shows "\<exists>s'. socket_flush fresh_node s = Some s' \<and> socket_inv owned s' \<and> sk_queued s' = [] \<and> sk_tasks s' = [] \<and>
    \<not> sk_isSending s' \<and> sk_wire s' = sk_wire s @ map (\<lambda>p. datagram (the (sk_mem s p))) (sk_queued s @ sk_tasks s) \<and>
    sk_refs s' = (\<lambda>p. sk_refs s p - count_list (sk_queued s @ sk_tasks s) p) \<and> sk_mem s' = sk_mem s \<and>
    sk_deliveries s' = sk_deliveries s \<and> sk_receivers s' = sk_receivers s \<and> sk_objects s' = sk_objects s"
proof -
  have "fresh_node s \<noteq> NULL \<and> (sk_pending s = Some q \<longrightarrow> malloc_ok (fresh_node s) q)" if "socket_inv owned s" for s q
    using fresh_node_ok [OF that] by simp
  from run_tasks_inv [OF assms refl this] obtain s1
    where s1: "run_tasks fresh_node (length (sk_tasks s)) s = Some s1" "socket_inv owned s1" "sk_tasks s1 = []"
      "sk_queued s1 = sk_queued s @ sk_tasks s" "sk_refs s1 = sk_refs s" "sk_mem s1 = sk_mem s" "sk_wire s1 = sk_wire s"
      "sk_deliveries s1 = sk_deliveries s" "sk_objects s1 = sk_objects s"
    by blast
  obtain s2 where s2: "write_handler s1 = Some s2" "socket_inv owned s2" "sk_queued s2 = []" "\<not> sk_isSending s2"
      "sk_tasks s2 = sk_tasks s1" "sk_wire s2 = sk_wire s1 @ map (\<lambda>p. datagram (the (sk_mem s1 p))) (sk_queued s1)"
      "sk_refs s2 = (\<lambda>p. sk_refs s1 p - count_list (sk_queued s1) p)" "sk_mem s2 = sk_mem s1" "sk_deliveries s2 = sk_deliveries s1"
      "sk_objects s2 = sk_objects s1"
    using write_handler_inv [OF s1(2)] by blast
  moreover have "sk_receivers s2 = sk_receivers s"
    using socket_ops_receivers(3) [OF s2(1)] run_tasks_receivers [OF s1(1)] by simp
  ultimately show ?thesis
    using s1 by (simp add: socket_flush_def)
qed

text \<open>Setting the callback changes nothing else.\<close>

lemma set_callback_same [simp]:
  "sk_queued (net_socket_set_receive_callback s c f) = sk_queued s" "sk_tasks (net_socket_set_receive_callback s c f) = sk_tasks s"
  "sk_deliveries (net_socket_set_receive_callback s c f) = sk_deliveries s" "sk_refs (net_socket_set_receive_callback s c f) = sk_refs s"
  "sk_objects (net_socket_set_receive_callback s c f) = sk_objects s" "sk_pending (net_socket_set_receive_callback s c f) = sk_pending s"
  "sk_pool (net_socket_set_receive_callback s c f) = sk_pool s" "sk_mem (net_socket_set_receive_callback s c f) = sk_mem s"
  "sk_isSending (net_socket_set_receive_callback s c f) = sk_isSending s"
  "sk_suspended (net_socket_set_receive_callback s c f) = sk_suspended s"
  "sk_receivers (net_socket_set_receive_callback s c f) = (sk_receiveBlock s, f, c)"
  by (simp_all add: net_socket_set_receive_callback_def sk_queued_def sk_refs_def sk_objects_def sk_receivers_def fun_eq_iff)

lemma set_callback_inv [simp]: "socket_inv owned (net_socket_set_receive_callback s c f) \<longleftrightarrow> socket_inv owned s"
  by (simp only: socket_inv_def sk_containers_def sk_memory_def sk_held_def set_callback_same)

section \<open>Receiving one datagram\<close>

lemma received_at:
  assumes "pkt_wf (received r m)" "bs_offset (pkt_bitstream (received r m)) = 0"
    and "recv_bytes r = int (length bytes)" "recv_data r = bytes" "0 < length bytes" "length bytes \<le> 256"
  shows "bs_at (pkt_bitstream (received r m)) bytes" "pkt_addr (received r m) = recv_addr r"
proof -
  have "bs_data (pkt_bitstream (received r m)) = overwrite (bs_data (pkt_bitstream m)) 0 bytes"
    using assms(3-6) by (simp add: received_def recv_into_def Let_def)
  then have "take (length bytes) (bs_data (pkt_bitstream (received r m))) = bytes"
    by (simp add: overwrite_def)
  then show "bs_at (pkt_bitstream (received r m)) bytes"
    using assms(1,2,6) by (simp add: bs_at_def bs_room_def pkt_wf_def)
  show "pkt_addr (received r m) = recv_addr r"
    using assms(3) by (simp add: received_def recv_into_def Let_def)
qed

lemma finite_objects: "socket_inv owned s \<Longrightarrow> finite (sk_objects s)"
  by (elim sk_containersE) (simp add: pool_objects_def)

text \<open>
  An idle socket that reads a datagram: the handler fills a packet of the pool and the block it
  dispatches hands the packet, which nobody else holds, to the callback.
\<close>

definition delivery_to :: "ptr \<Rightarrow> ptr \<Rightarrow> delivery" where
  "delivery_to block p = (if block \<noteq> NULL then DeliverBlock p else DeliverCallback p)"

lemma socket_receives:
  assumes "socket_inv owned s" "0 < sk_free s" "sk_deliveries s = []" "sk_receivers s = (block, f, ctx)" "block \<noteq> NULL \<or> f \<noteq> NULL"
    and "0 < length bytes" "length bytes \<le> 256"
  shows "\<exists>p s2 s' m. read_handler \<lparr>recv_bytes = int (length bytes), recv_data = bytes, recv_addr = addr\<rparr> s = Some s2 \<and>
    sk_deliveries s2 = [delivery_to block p] \<and>
    run_delivery (delivery_to block p) s2 = Some (if block \<noteq> NULL then (block, NULL, p) else (f, ctx, p), s') \<and>
    socket_inv (owned(p := 1)) s' \<and> owned p = 0 \<and> sk_refs s p = 0 \<and> p \<in> sk_objects s \<and>
    sk_mem s' p = Some m \<and> pkt_wf m \<and> bs_offset (pkt_bitstream m) = 0 \<and> bs_at (pkt_bitstream m) bytes \<and> pkt_addr m = addr \<and>
    sk_tasks s' = sk_tasks s \<and> sk_refs s' = (sk_refs s)(p := 1) \<and> sk_others s' = sk_others s \<and>
    (\<forall>a. a \<noteq> p \<longrightarrow> sk_mem s' a = sk_mem s a)"
proof -
  let ?r = "\<lparr>recv_bytes = int (length bytes), recv_data = bytes, recv_addr = addr\<rparr>"
  have recv: "sk_receiveBlock s = block" "sk_receiveCallback s = f" "sk_receiveCallbackContext s = ctx"
    using assms(4) by (simp_all add: sk_receivers_def)
  obtain p s1 where p: "net_packet_alloc s = Some (p, s1)" "p \<noteq> NULL" "sk_refs s p = 0" "p \<in> sk_objects s"
    using alloc_free [OF assms(1,2)] .
  have leak: "\<not> recv_leaks ?r s" and d: "recv_delivery s p = delivery_to block p"
    using assms(5,6) recv by (auto simp: recv_leaks_def recv_delivery_def delivery_to_def)
  obtain s2 m where s2: "read_handler ?r s = Some s2" "socket_inv owned s2" "sk_objects s2 = sk_objects s" "sk_wire s2 = sk_wire s"
      "sk_queued s2 = sk_queued s" "sk_tasks s2 = sk_tasks s" "sk_refs s2 = (sk_refs s)(p := 1)"
      "sk_deliveries s2 = [delivery_to block p]" "\<forall>a. a \<noteq> p \<longrightarrow> sk_mem s2 a = sk_mem s a"
      and m: "sk_mem s2 p = Some (received ?r m)" "bs_offset (pkt_bitstream (received ?r m)) = 0"
    using read_handler_inv [OF assms(1) p(1,2), of ?r] leak d assms(3,6,7) by auto
  have recv2: "sk_receivers s2 = sk_receivers s"
    using socket_ops_receivers(4) [OF s2(1)] .
  let ?s3 = "s2\<lparr>sk_deliveries := []\<rparr>"
  have del: "run_delivery (delivery_to block p) s2 = Some (if block \<noteq> NULL then (block, NULL, p) else (f, ctx, p), ?s3)"
    using recv2 assms(4,5) s2(8) by (auto simp: run_delivery_def sk_receivers_def delivery_to_def)
  have zero: "owned p = 0"
    using assms(1) p(3) by (simp add: socket_inv_def)
  have "delivery_packet (delivery_to block p) = p"
    by (simp add: delivery_to_def)
  with run_delivery_inv [OF s2(2) _ del] s2(8) zero have inv3: "socket_inv (owned(p := 1)) ?s3"
    by simp
  have "0 < sk_refs s2 p"
    using s2(7) by simp
  from socket_inv_mem [OF s2(2) this] m(1) have wf: "pkt_wf (received ?r m)"
    by auto
  have "bs_at (pkt_bitstream (received ?r m)) bytes" "pkt_addr (received ?r m) = addr"
    using received_at [OF wf m(2), of bytes] assms(6,7) by simp_all
  moreover have "sk_refs ?s3 = sk_refs s2" "sk_others ?s3 = sk_others s"
    using s2 recv2 assms(3) by (simp_all add: sk_refs_def sk_others_def sk_queued_def sk_objects_def sk_receivers_def fun_eq_iff)
  ultimately show ?thesis
    using inv3 zero p s2 m wf del
    by (intro exI [of _ p] exI [of _ s2] exI [of _ ?s3] exI [of _ "received ?r m"]) simp
qed

lemma socket_receives_callback:
  assumes "socket_inv owned s" "0 < sk_free s" "sk_deliveries s = []" "sk_receivers s = (NULL, f, ctx)" "f \<noteq> NULL"
    and "0 < length bytes" "length bytes \<le> 256"
  shows "\<exists>p s2 s' m. read_handler \<lparr>recv_bytes = int (length bytes), recv_data = bytes, recv_addr = addr\<rparr> s = Some s2 \<and>
    sk_deliveries s2 = [DeliverCallback p] \<and> run_delivery (DeliverCallback p) s2 = Some ((f, ctx, p), s') \<and>
    socket_inv (owned(p := 1)) s' \<and> owned p = 0 \<and> sk_refs s p = 0 \<and> p \<in> sk_objects s \<and>
    sk_mem s' p = Some m \<and> pkt_wf m \<and> bs_offset (pkt_bitstream m) = 0 \<and> bs_at (pkt_bitstream m) bytes \<and> pkt_addr m = addr \<and>
    sk_tasks s' = sk_tasks s \<and> sk_refs s' = (sk_refs s)(p := 1) \<and> sk_others s' = sk_others s \<and>
    (\<forall>a. a \<noteq> p \<longrightarrow> sk_mem s' a = sk_mem s a)"
  using socket_receives [OF assms(1-4) disjI2 [OF assms(5)] assms(6,7), of addr] by (simp add: delivery_to_def)

lemma set_block_same [simp]:
  "sk_queued (net_socket_set_receive_block s b) = sk_queued s" "sk_tasks (net_socket_set_receive_block s b) = sk_tasks s"
  "sk_deliveries (net_socket_set_receive_block s b) = sk_deliveries s" "sk_refs (net_socket_set_receive_block s b) = sk_refs s"
  "sk_objects (net_socket_set_receive_block s b) = sk_objects s" "sk_pending (net_socket_set_receive_block s b) = sk_pending s"
  "sk_pool (net_socket_set_receive_block s b) = sk_pool s" "sk_mem (net_socket_set_receive_block s b) = sk_mem s"
  "sk_isSending (net_socket_set_receive_block s b) = sk_isSending s" "sk_suspended (net_socket_set_receive_block s b) = sk_suspended s"
  "sk_wire (net_socket_set_receive_block s b) = sk_wire s"
  "sk_receivers (net_socket_set_receive_block s b) = (b, snd (sk_receivers s))"
  by (simp_all add: net_socket_set_receive_block_def sk_queued_def sk_refs_def sk_objects_def sk_receivers_def fun_eq_iff)

lemma set_block_inv [simp]: "socket_inv owned (net_socket_set_receive_block s b) \<longleftrightarrow> socket_inv owned s"
  by (simp only: socket_inv_def sk_containers_def sk_memory_def sk_held_def set_block_same)

section \<open>Leaks\<close>

lemma read_leaks_one:
  assumes "socket_inv owned s" "recv_bytes r = 0" "finite (sk_objects s)"
  shows "\<exists>owned' s'. read_handler r s = Some s' \<and> socket_inv owned' s' \<and> sk_objects s' = sk_objects s \<and> sk_free s' = sk_free s - 1"
proof -
  obtain p s1 where a: "net_packet_alloc s = Some (p, s1)"
    and cases: "if p = NULL then s1 = s \<and> (\<forall>a \<in> sk_objects s. 0 < sk_refs s a)
      else sk_refs s p = 0 \<and> p \<in> sk_objects s \<and> socket_inv (owned(p := 1)) s1 \<and> sk_refs s1 = (sk_refs s)(p := 1) \<and>
        sk_objects s1 = sk_objects s \<and>
        (\<exists>pl m. s1 = s\<lparr>sk_pool := Some pl, sk_mem := (sk_mem s)(p \<mapsto> m)\<rparr> \<and> pkt_wf m \<and> bs_offset (pkt_bitstream m) = 0)"
    using net_packet_alloc_inv [OF assms(1)] by blast
  show ?thesis
  proof (cases "p = 0")
    case True
    with cases have "{a \<in> sk_objects s. sk_refs s a = 0} = {}"
      by auto
    then have "sk_free s = 0"
      by (simp only: sk_free_def card.empty)
    with a cases True assms(1) show ?thesis
      by (intro exI [of _ owned] exI [of _ s]) (simp add: read_handler_def)
  next
    case False
    obtain s' where s': "read_handler r s = Some s'" "socket_inv (owned(p := 1)) s'" "sk_objects s' = sk_objects s"
        "sk_refs s' = (sk_refs s)(p := 1)"
      using read_handler_inv [OF assms(1) a False, of r] assms(2) by (auto simp: recv_leaks_def)
    have "{a \<in> sk_objects s'. sk_refs s' a = 0} = {a \<in> sk_objects s. sk_refs s a = 0} - {p}"
      using s' by auto
    moreover have "p \<in> {a \<in> sk_objects s. sk_refs s a = 0}"
      using cases False by simp
    ultimately have "sk_free s' = sk_free s - 1"
      using assms(3) by (simp add: sk_free_def)
    with s' show ?thesis
      by blast
  qed
qed

lemma read_leaks_all:
  assumes "socket_inv owned s" "\<forall>r \<in> set rs. recv_bytes r = 0" "finite (sk_objects s)"
  shows "\<exists>owned' s'. read_datagrams rs s = Some s' \<and> socket_inv owned' s' \<and> sk_objects s' = sk_objects s \<and>
    sk_free s' = sk_free s - length rs"
  using assms
proof (induction rs arbitrary: owned s)
  case (Cons r rs)
  obtain owned1 s1 where s1: "read_handler r s = Some s1" "socket_inv owned1 s1" "sk_objects s1 = sk_objects s" "sk_free s1 = sk_free s - 1"
    using read_leaks_one [OF Cons.prems(1), of r] Cons.prems(2,3) by auto
  from Cons.IH [OF s1(2)] show ?case
    using s1 Cons.prems(2,3) by auto
qed auto

lemma alloc_none:
  assumes "socket_inv owned s" "sk_free s = 0" "finite (sk_objects s)"
  shows "net_packet_alloc s = Some (NULL, s)"
proof -
  have "{a \<in> sk_objects s. sk_refs s a = 0} = {}"
    using assms(2,3) by (simp only: sk_free_def card_0_eq finite_Collect_conjI mem_Collect_eq) auto
  then have full: "0 < sk_refs s a" if "a \<in> sk_objects s" for a
    using that by (auto simp: set_eq_iff)
  obtain pl q where "sk_pool s = Some pl" "pool_inv pl" "sk_refs s = pool_refs pl" "sk_objects s = pool_objects pl"
    using assms(1) by (rule sk_containersE)
  with full pool.full_law [of pl] show ?thesis
    by (simp add: net_packet_alloc_def)
qed

section \<open>Properties\<close>

text \<open>
  (C2) Safety of the socket. Whatever its clients, the serial queue, the write source and the
  network do after a successful creation, in whatever order, no operation that is enabled ever
  faults; every reference of a packet is held by a client, by the socket or has been leaked by
  the read handler; and the suspend count of the write source agrees with \<open>isSending\<close>, so that no
  source is ever resumed twice.
\<close>

theorem socket_runs_safely:
  assumes "net_socket_create e os error domain host port = Some (err, Created (Some s))" "os_grants os" "socket_reach s w"
  shows "(\<forall>ev. socket_enabled ev w \<longrightarrow> (\<exists>w'. socket_exec ev w = Some w')) \<and>
    (\<forall>p. sk_refs (sys_socket w) p = sys_owned w p + count_list (sys_leaked w) p + count_list (sk_held (sys_socket w)) p) \<and>
    sk_suspended (sys_socket w) = (if sk_isSending (sys_socket w) then 0 else 1)"
proof -
  have "sys_inv w"
    using socket_reach_inv [OF assms(3) create_inv(2) [OF assms(1,2)]] .
  then show ?thesis
    using socket_step_inv [of w] by (auto simp: sys_inv_def socket_inv_def)
qed

text \<open>A socket for the examples: every call succeeds and the pool lies at address 4096.\<close>

definition sample_os :: socket_os where
  "sample_os = \<lparr>os_calloc = True, os_queue_malloc = True, os_pool_malloc = True, os_pool_memblock = 4096,
     os_pool_mem = (\<lambda>_. Some \<lparr>pkt_addr = sockaddr_zero, pkt_length = 0,
       pkt_bitstream = bitstream_create (replicate 256 0) 256\<rparr>),
     os_errno = 0, os_socket = 5, os_setsockopt = 0, os_inet_aton = (\<lambda>_. Some 0), os_bind = 0, os_getsockname = 0,
     os_sockname = sockaddr_zero\<lparr>sin_family := AF_INET, sin_port := 20480\<rparr>, os_getfl = 0, os_setfl = 0,
     os_readSource = 21, os_writeSource = 22\<rparr>"

definition sample_socket :: net_socket_s where
  "sample_socket =
     (case net_socket_create LittleEndian sample_os NetNoError AF_INET None 80 of
        Some (_, Created (Some s)) \<Rightarrow> s | _ \<Rightarrow> net_socket_zero)"

lemma sample_socket_created:
  "net_socket_create LittleEndian sample_os NetNoError AF_INET None 80 = Some (NetNoError, Created (Some sample_socket))"
  "os_grants sample_os"
proof -
  obtain pl where "pool_create True 4096 304 64 = Some (Some pl)"
    using pool_created [of 4096] by auto
  then show "net_socket_create LittleEndian sample_os NetNoError AF_INET None 80 = Some (NetNoError, Created (Some sample_socket))"
    by (simp add: sample_socket_def net_socket_create_def sample_os_def net_socket_set_nonblock_def
        net_socket_set_dispatch_sources_def htons_def Let_def)
  show "os_grants sample_os"
    by (simp add: os_grants_def sample_os_def pkt_block_def bitstream_create_def)
qed

theorem socket_runs_safely_witness:
  "\<exists>w'. socket_exec (EvReadable \<lparr>recv_bytes = 0, recv_data = [], recv_addr = sockaddr_zero\<rparr>) (socket_init sample_socket) = Some w'"
proof -
  have "socket_enabled (EvReadable \<lparr>recv_bytes = 0, recv_data = [], recv_addr = sockaddr_zero\<rparr>) (socket_init sample_socket)"
    by (simp only: socket_enabled.simps)
  then show ?thesis
    using socket_runs_safely [OF sample_socket_created socket_reach.start] by (simp only: simp_thms)
qed

text \<open>
  (C4) Sending. From every reachable state, running the waiting blocks of the serial queue and
  then the write handler comes to an end: the packets that were pending and those that had been
  given to \<open>net_socket_send\<close> are on the wire in the order in which they were sent, each with the
  bytes up to its length, the socket has given back one reference for each, nothing is pending
  any more and the write source is suspended.
\<close>

theorem socket_flush_in_order:
  assumes "net_socket_create e os error domain host port = Some (err, Created (Some s0))" "os_grants os"
    "socket_reach s0 w" "s = sys_socket w"
  shows "\<exists>s'. socket_flush fresh_node s = Some s' \<and> sk_queued s' = [] \<and> sk_tasks s' = [] \<and> \<not> sk_isSending s' \<and>
    sk_wire s' = sk_wire s @ map (\<lambda>p. datagram (the (sk_mem s p))) (sk_queued s @ sk_tasks s) \<and>
    (\<forall>p. sk_refs s' p = sk_refs s p - count_list (sk_queued s @ sk_tasks s) p) \<and>
    (\<forall>p \<in> set (sk_queued s @ sk_tasks s). \<exists>m. sk_mem s p = Some m \<and> pkt_length m \<le> length (bs_data (pkt_bitstream m)))"
proof -
  let ?own = "\<lambda>p. sys_owned w p + count_list (sys_leaked w) p"
  have inv: "socket_inv ?own s"
    using socket_reach_inv [OF assms(3) create_inv(2) [OF assms(1,2)]] assms(4) by (simp add: sys_inv_def)
  have "\<exists>m. sk_mem s p = Some m \<and> pkt_length m \<le> length (bs_data (pkt_bitstream m))"
    if "p \<in> set (sk_queued s @ sk_tasks s)" for p
    using socket_inv_queued [OF inv that] by (auto simp: pkt_wf_def pkt_block_def)
  with socket_flush_inv [OF inv] show ?thesis
    by auto
qed

theorem socket_flush_in_order_witness:
  "\<exists>s'. socket_flush fresh_node sample_socket = Some s' \<and> sk_queued s' = []"
  using socket_flush_in_order [OF sample_socket_created socket_reach.start refl] by (auto simp: socket_init_def)

text \<open>
  (C40) Empty datagrams exhaust the socket. The read handler neither delivers nor frees the
  packet of an empty datagram: after sixty-four of them the pool of a new socket has no packet
  left, and from then on nothing can be sent or received.
\<close>

theorem socket_empty_datagrams_exhaust:
  assumes "net_socket_create e os error domain host port = Some (err, Created (Some s))" "os_grants os"
    "\<forall>r \<in> set rs. recv_bytes r = 0" "64 \<le> length rs"
  shows "\<exists>s'. read_datagrams rs s = Some s' \<and> net_packet_alloc s' = Some (NULL, s') \<and> read_handler r s' = Some s'"
proof -
  have obs: "sk_objects s = (\<lambda>i. os_pool_memblock os + i * 328) ` {..<64}"
    using create_inv(3) [OF assms(1,2)] .
  then have fin: "finite (sk_objects s)"
    by simp
  obtain owned s' where s': "read_datagrams rs s = Some s'" "socket_inv owned s'" "sk_objects s' = sk_objects s"
      "sk_free s' = sk_free s - length rs"
    using read_leaks_all [OF create_inv(1) [OF assms(1,2)] assms(3) fin] by blast
  have "sk_free s \<le> card (sk_objects s)"
    using fin by (auto simp: sk_free_def intro: card_mono)
  also have "\<dots> \<le> 64"
    unfolding obs by (rule order_trans [OF card_image_le]) simp_all
  finally have "sk_free s' = 0"
    using s'(4) assms(4) by linarith
  then have "net_packet_alloc s' = Some (NULL, s')"
    using alloc_none [OF s'(2)] fin s'(3) by simp
  with s'(1) show ?thesis
    by (simp add: read_handler_def)
qed

theorem socket_empty_datagrams_exhaust_witness:
  "\<exists>s'. read_datagrams (replicate 64 \<lparr>recv_bytes = 0, recv_data = [], recv_addr = sockaddr_zero\<rparr>) sample_socket = Some s' \<and>
    net_packet_alloc s' = Some (NULL, s')"
  using socket_empty_datagrams_exhaust [OF sample_socket_created,
      of "replicate 64 \<lparr>recv_bytes = 0, recv_data = [], recv_addr = sockaddr_zero\<rparr>"] by auto

text \<open>The steps of a creation in order: when each one fails, and the error it reports then.\<close>

definition create_steps :: "endian \<Rightarrow> socket_os \<Rightarrow> u8 list option \<Rightarrow> int \<Rightarrow> (bool \<times> NetError) list" where
  "create_steps e os host port =
     (let posix = netErrorPosix (os_errno os); addr = (case host of None \<Rightarrow> Some (htonl e 0) | Some h \<Rightarrow> os_inet_aton os h)
      in [(os_socket os = -1, posix), (os_setsockopt os = -1, posix), (addr = None, NetInvalidError), (os_bind os = -1, posix),
          (os_getsockname os = -1, posix),
          (sin_port (os_sockname os) \<noteq> htons e (word_of_int port) \<and> Some (sin_addr (os_sockname os)) \<noteq> addr, NetInvalidError),
          (os_getfl os = -1, posix), (os_setfl os = -1, posix), (os_readSource os = NULL, NetSockError), (os_writeSource os = NULL, NetSockError)])"

text \<open>
  (C38) Creation and its failures. If the memory of the queue and the pool can be had, the first step that
  fails determines the error: the POSIX error of the call, \<open>NetInvalidError\<close> for a host name that is no address and for a bound address
  that differs in port and host, \<open>NetSockError\<close> for a source that cannot be created. Nothing is cancelled but the
  read source, if the write source is the one that is missing; no cancel handler has been installed then, so that none runs: the
  structure, its queue and its pool stay allocated and a descriptor that had been opened is not closed. If no step
  fails, the socket has its descriptor, both sources and their two handlers. If the very first
  allocation fails, \<open>NULL\<close> is returned and success is reported.
\<close>

theorem net_socket_create_outcomes:
  assumes "os_grants os"
  shows "(\<not> os_calloc os \<longrightarrow> net_socket_create e os error domain host port = Some (NetNoError, Created None)) \<and>
    (os_calloc os \<longrightarrow>
      (case List.find fst (create_steps e os host port) of
         None \<Rightarrow> \<exists>s. net_socket_create e os error domain host port = Some (NetNoError, Created (Some s)) \<and> sk_fd s = os_socket os \<and> sk_fd s \<noteq> -1 \<and>
           sk_readSource s = os_readSource os \<and> sk_writeSource s = os_writeSource os \<and> sk_cancels s = 2 \<and> sk_canceled s = []
       | Some (_, err) \<Rightarrow> err \<noteq> NetNoError \<and> (\<exists>s. net_socket_create e os error domain host port = Some (err, CreateFailed s) \<and>
           sk_fd s = os_socket os \<and> sk_pool s \<noteq> None \<and> sk_pending s \<noteq> None \<and> sk_cancels s = 0 \<and>
           sk_canceled s = (if \<exists>step \<in> set (butlast (create_steps e os host port)). fst step then [] else [os_readSource os]))))"
proof -
  have os: "os_queue_malloc os" "os_pool_malloc os" "os_pool_memblock os \<noteq> 0"
    using assms by (simp_all add: os_grants_def)
  obtain pl where pl: "pool_create True (os_pool_memblock os) 304 64 = Some (Some pl)"
    using pool_created [OF os(3)] by blast
  have ne: "netErrorPosix x \<noteq> NetNoError" for x
    by (simp add: netErrorPosix_def)
  show ?thesis
    using pl os ne
    by (cases "os_calloc os"; cases host)
      (auto simp: create_steps_def net_socket_create_def net_socket_fail_def net_socket_destroy_def net_socket_set_nonblock_def
        net_socket_set_dispatch_sources_def net_socket_zero_def netErrorSet_def netErrorSetPosix_def queue_create_def Let_def
        split: option.splits)
qed

theorem net_socket_create_outcomes_witness:
  "\<exists>s. net_socket_create LittleEndian (sample_os\<lparr>os_bind := -1, os_errno := EADDRINUSE\<rparr>) NetNoError AF_INET None 80 =
    Some (netErrorPosix EADDRINUSE, CreateFailed s) \<and> sk_fd s = 5 \<and> sk_canceled s = []"
proof -
  let ?os = "sample_os\<lparr>os_bind := -1, os_errno := EADDRINUSE\<rparr>"
  have "os_grants ?os"
    by (simp add: os_grants_def sample_os_def pkt_block_def bitstream_create_def)
  moreover have "os_calloc ?os" "os_socket ?os = 5" "os_setsockopt ?os \<noteq> -1"
    by (simp_all add: sample_os_def)
  ultimately show ?thesis
    using net_socket_create_outcomes [of ?os LittleEndian NetNoError AF_INET None 80] by (auto simp: create_steps_def Let_def)
qed

text \<open>
  Destruction. \<open>net_socket_destroy\<close> cancels both sources, the write source after resuming
  it. Of the two cancel handlers the second one frees the queue, the pool and the structure, and
  then closes \<^verbatim>\<open>s->fd\<close>: the descriptor is read from memory that has just been freed.
\<close>

theorem socket_cancel_uses_freed:
  assumes "net_socket_create e os error domain host port = Some (err, Created (Some s0))" "os_grants os"
    "socket_reach s0 w" "s = sys_socket w" "sk_cancels s = 2" "sk_readSource s \<noteq> NULL" "sk_writeSource s \<noteq> NULL"
  shows "\<exists>s1 s2. net_socket_destroy s = Some s1 \<and>
    sk_canceled s1 = sk_canceled s @ [sk_readSource s, sk_writeSource s] \<and> sk_suspended s1 = 0 \<and>
    cancel_handler s1 = Some s2 \<and> net_socket_destroy_async (s2\<lparr>sk_cancels := 0\<rparr>) = Some None \<and> cancel_handler s2 = None"
proof -
  have inv: "socket_inv (\<lambda>p. sys_owned w p + count_list (sys_leaked w) p) s"
    using socket_reach_inv [OF assms(3) create_inv(2) [OF assms(1,2)]] assms(4) by (simp add: sys_inv_def)
  obtain pl q where q: "sk_pending s = Some q" "queue_inv q"
    using inv by (rule sk_containersE)
  let ?s1 = "s\<lparr>sk_isSending := True, sk_suspended := 0, sk_canceled := sk_canceled s @ [sk_readSource s, sk_writeSource s]\<rparr>"
  let ?s2 = "?s1\<lparr>sk_cancels := 1\<rparr>"
  have "sk_isSending s \<and> sk_suspended s = 0 \<or> \<not> sk_isSending s \<and> sk_suspended s = 1"
    using inv by (simp add: socket_inv_def)
  then have "net_socket_destroy s = Some ?s1"
    using assms(6,7) by (auto simp: net_socket_destroy_def net_socket_resume_write_def)
  moreover have "cancel_handler ?s1 = Some ?s2"
    using assms(5) by (simp add: cancel_handler_def)
  moreover have async: "net_socket_destroy_async (?s2\<lparr>sk_cancels := 0\<rparr>) = Some None"
    using q queue_destroy_empties [OF q(2)] by (simp add: net_socket_destroy_async_def)
  moreover have "cancel_handler ?s2 = None"
    using async by (simp add: cancel_handler_def)
  ultimately show ?thesis
    by (intro exI [of _ ?s1] exI [of _ ?s2]) simp
qed

theorem socket_cancel_uses_freed_witness:
  "\<exists>s1 s2. net_socket_destroy sample_socket = Some s1 \<and> sk_canceled s1 = [21, 22] \<and> cancel_handler s1 = Some s2 \<and>
    cancel_handler s2 = None"
proof -
  have s: "sk_cancels sample_socket = 2" "sk_readSource sample_socket = 21" "sk_writeSource sample_socket = 22"
      "sk_canceled sample_socket = []"
    using create_fields [OF sample_socket_created(1)] by (simp_all add: sample_os_def)
  then show ?thesis
    using socket_cancel_uses_freed [OF sample_socket_created socket_reach.start refl] by (auto simp: socket_init_def)
qed

end
