(* ===== verification/Stun_Tests.thy ===== *)
theory Stun_Tests
  imports Stun_Utils Timeout Socket_Runs
begin

text \<open>
  The tests of STUN (\<^verbatim>\<open>stun_tests.c\<close>): each sends one request to a server, retransmits it with a
  timer, and evaluates the response. The structure of the client with its configuration, its results
  and its five tests is one record; a test is named by its place in it. Copies of blocks are
  addresses in the list of live blocks; blocks given to the serial queue are values of
  \<open>stun_task\<close>. Calls of the client's blocks and packets handed on are recorded.
\<close>

section \<open>Definitions\<close>

datatype StunNatBehavior =
    UnknownBehavior
  | DirectMapping
  | EndpointIndependentMapping
  | AddressDependentMapping
  | AddressAndPortDependentMapping

datatype StunNatFiltering =
    UnknownFiltering
  | DirectConnectionFiltering
  | EndpointIndependentFiltering
  | AddressDependentFiltering
  | AddressAndPortDependentFiltering

record StunResults =
  didBindingTestSuccess :: bool
  localAddr :: net_addr_t
  mappedAddr :: net_addr_t
  isMappingDirect :: bool
  hasOtherServerAddress :: bool
  otherServerPrimaryHostAddr :: net_addr_t
  otherServerPrimaryPortAddr :: net_addr_t
  otherServerAddr :: net_addr_t
  didBehaviorTestSuccess :: bool
  natBehavior :: StunNatBehavior
  mappedOtherServerPrimaryPortAddr :: net_addr_t
  mappedOtherServerAddr :: net_addr_t
  didFilteringTestSuccess :: bool
  natFiltering :: StunNatFiltering

record StunTest =
  stt_isCompleted :: bool
  stt_transactionId :: StunTransactionId
  stt_packet :: ptr
  stt_receiveBlock :: ptr
  stt_retries :: u32
  stt_timeout :: timeout_t
  stt_timeoutBlock :: ptr

text \<open>The structure as \<^verbatim>\<open>memset\<close> leaves it.\<close>

definition zero_test :: StunTest where
  "zero_test = \<lparr>stt_isCompleted = False, stt_transactionId = replicate kStunTransactionIdLen 0, stt_packet = NULL,
     stt_receiveBlock = NULL, stt_retries = 0, stt_timeout = \<lparr>timerDispatchSource = NULL, valid = False\<rparr>, stt_timeoutBlock = NULL\<rparr>"

datatype stun_test = BindingTest1 | BehaviorTest1 | BehaviorTest2 | FilteringTest1 | FilteringTest2

text \<open>The member of the results the argument \<open>testSuccessCheck\<close> points to.\<close>

datatype success_check = BindingCheck | FilteringCheck

datatype stun_task =
    StunResolveTask
  | StunNextTask stun_test
  | StunReceiveTask stun_test ptr
  | StunRetryTask stun_test success_check

datatype stun_notice =
    DidResolve
  | DidFailResolve
  | ForwardedBlock ptr ptr
  | ForwardedCallback ptr ptr ptr

text \<open>
  \<^verbatim>\<open>StunStruct\<close> with the members of \<^verbatim>\<open>StunConfig\<close>; the memory of a test that was never started is
  not initialised, which is \<open>None\<close>.
\<close>

record StunStruct =
  sn_didResolve :: bool
  sn_results :: StunResults
  sn_rto :: int
  sn_maxRetries :: u32
  sn_socket :: "net_socket_s option"
  sn_info :: net_socket_info_s
  sn_tasks :: "stun_task list"
  sn_primaryServerHostname :: "u8 list"
  sn_primaryServerAddr :: net_addr_t
  sn_tests :: "stun_test \<Rightarrow> StunTest option"
  sn_blocks :: "ptr list"
  sn_calls :: "dispatch_call list"
  sn_notices :: "stun_notice list"
  sn_testDidComplete :: ptr
  sn_stunDidResolve :: ptr
  sn_stunDidFailResolve :: ptr

text \<open>
  What the surroundings answer: the copies of the two blocks of a test, the source of a timer, the
  random device, the interfaces, the content of the uninitialised id a response is unpacked into, and
  the name service.
\<close>

record stun_env =
  en_endian :: endian
  en_receiveBlock :: ptr
  en_timeoutBlock :: ptr
  en_source :: ptr
  en_random :: int
  en_reads :: "read_answer list"
  en_rand :: "u32 \<Rightarrow> nat \<Rightarrow> int"
  en_ifaddrs :: "PosixError \<times> ifaddrs list"
  en_id :: StunTransactionId
  en_getaddrinfo :: "u8 list \<Rightarrow> PosixError \<times> net_addr_t list"
  en_getnameinfo :: "net_addr_t \<Rightarrow> PosixError \<times> u8 list"

definition set_test :: "StunStruct \<Rightarrow> stun_test \<Rightarrow> StunTest \<Rightarrow> StunStruct" where
  "set_test stun test t = stun\<lparr>sn_tests := (sn_tests stun)(test \<mapsto> t)\<rparr>"

definition stun_dispatch :: "StunStruct \<Rightarrow> stun_task \<Rightarrow> StunStruct" where
  "stun_dispatch stun task = stun\<lparr>sn_tasks := sn_tasks stun @ [task]\<rparr>"

definition stun_socket :: "StunStruct \<Rightarrow> (net_socket_s \<Rightarrow> net_socket_s option) \<Rightarrow> StunStruct option" where
  "stun_socket stun f = do { s \<leftarrow> sn_socket stun; s \<leftarrow> f s; Some (stun\<lparr>sn_socket := Some s\<rparr>) }"

definition stun_packet :: "StunStruct \<Rightarrow> ptr \<Rightarrow> (net_packet_s \<Rightarrow> net_packet_s option) \<Rightarrow> StunStruct option" where
  "stun_packet stun packet f = stun_socket stun (\<lambda>s. do { m \<leftarrow> sk_mem s packet; m \<leftarrow> f m; Some (net_packet_store s packet m) })"

definition stun_pack :: "StunStruct \<Rightarrow> stun_test \<Rightarrow> (bitstream_t \<Rightarrow> StunTransactionId \<Rightarrow> bitstream_t option) \<Rightarrow> StunStruct option" where
  "stun_pack stun test f = do {
     t \<leftarrow> sn_tests stun test;
     stun_packet stun (stt_packet t) (\<lambda>m. do {
       b \<leftarrow> f (pkt_bitstream m) (stt_transactionId t);
       Some (m\<lparr>pkt_bitstream := b\<rparr>)
     })
   }"

text \<open>Releasing a block that is not alive is a fault.\<close>

definition block_release :: "StunStruct \<Rightarrow> ptr \<Rightarrow> StunStruct option" where
  "block_release stun block =
     (if block \<in> set (sn_blocks stun) then Some (stun\<lparr>sn_blocks := remove1 block (sn_blocks stun)\<rparr>) else None)"

definition stunRunNextTest :: "StunStruct \<Rightarrow> stun_test \<Rightarrow> StunStruct" where
  "stunRunNextTest stun previousTest = stun_dispatch stun (StunNextTask previousTest)"

subsection \<open>One test\<close>

definition stunTestSetup :: "stun_env \<Rightarrow> StunStruct \<Rightarrow> stun_test \<Rightarrow> net_addr_t \<Rightarrow> StunStruct option" where
  "stunTestSetup env stun test destAddr = do {
     s \<leftarrow> sn_socket stun;
     (packet, s) \<leftarrow> net_packet_alloc s;
     t \<leftarrow> sn_tests stun test;
     let t = t\<lparr>stt_packet := packet\<rparr>;
     if packet = NULL then None
     else do {
       m \<leftarrow> sk_mem s packet;
       let s = net_packet_store s packet (net_packet_addr m destAddr);
       transactionId \<leftarrow> stunGenerateTransactionId (en_endian env) (en_random env) (en_reads env) (en_rand env) (Some (stt_transactionId t));
       transactionId \<leftarrow> transactionId;
       Some (set_test (stun\<lparr>sn_socket := Some s\<rparr>) test (t\<lparr>stt_transactionId := transactionId\<rparr>))
     }
   }"

definition stun_set_timeout :: "stun_env \<Rightarrow> StunStruct \<Rightarrow> stun_test \<Rightarrow> int \<Rightarrow> StunStruct option" where
  "stun_set_timeout env stun test milliseconds = do {
     t \<leftarrow> sn_tests stun test;
     let (timeout, calls) = timeout_create_block (en_source env) (stt_timeout t) (stt_timeoutBlock t) milliseconds;
     Some ((set_test stun test (t\<lparr>stt_timeout := timeout\<rparr>))\<lparr>sn_calls := sn_calls stun @ calls\<rparr>)
   }"

definition stunTestSend :: "stun_env \<Rightarrow> StunStruct \<Rightarrow> stun_test \<Rightarrow> StunStruct option" where
  "stunTestSend env stun test = do {
     t \<leftarrow> sn_tests stun test;
     let t = t\<lparr>stt_timeoutBlock := en_timeoutBlock env\<rparr>;
     let stun = (set_test stun test t)\<lparr>sn_blocks := en_timeoutBlock env # sn_blocks stun\<rparr>;
     stun \<leftarrow> stun_socket stun (\<lambda>s. Some (net_socket_set_receive_block s (stt_receiveBlock t)));
     stun \<leftarrow> stun_set_timeout env stun test (sn_rto stun);
     stun_socket stun (\<lambda>s. net_socket_send s (stt_packet t))
   }"

definition stunTestDestroyTimeout :: "StunStruct \<Rightarrow> stun_test \<Rightarrow> StunStruct option" where
  "stunTestDestroyTimeout stun test = do {
     t \<leftarrow> sn_tests stun test;
     let (timeout, calls) = timeout_destroy (stt_timeout t);
     Some ((set_test stun test (t\<lparr>stt_timeout := timeout\<rparr>))\<lparr>sn_calls := sn_calls stun @ calls\<rparr>)
   }"

definition stunTestRelease :: "StunStruct \<Rightarrow> stun_test \<Rightarrow> StunStruct option" where
  "stunTestRelease stun test = do {
     stun \<leftarrow> stunTestDestroyTimeout stun test;
     t \<leftarrow> sn_tests stun test;
     stun \<leftarrow> (if stt_receiveBlock t \<noteq> NULL then block_release stun (stt_receiveBlock t) else Some stun);
     stun \<leftarrow> (if stt_timeoutBlock t \<noteq> NULL then block_release stun (stt_timeoutBlock t) else Some stun);
     if stt_packet t \<noteq> NULL then stun_socket stun (\<lambda>s. net_packet_release s (stt_packet t)) else Some stun
   }"

definition stunTestSetComplete :: "StunStruct \<Rightarrow> stun_test \<Rightarrow> StunStruct option" where
  "stunTestSetComplete stun test = do {
     stun \<leftarrow> stunTestRelease stun test;
     t \<leftarrow> sn_tests stun test;
     let stun = set_test stun test (t\<lparr>stt_isCompleted := True\<rparr>);
     Some (stunRunNextTest stun test)
   }"

text \<open>\<^verbatim>\<open>config->rto * (3ull * (long)test->retries)\<close> is computed in 64 bits and converted to \<^verbatim>\<open>long\<close>.\<close>

definition stun_retry_rto :: "int \<Rightarrow> u32 \<Rightarrow> int" where
  "stun_retry_rto rto retries = sint (word_of_int rto * (3 * ucast retries) :: u64)"

definition fail_check :: "success_check \<Rightarrow> StunResults \<Rightarrow> StunResults" where
  "fail_check check r =
     (case check of BindingCheck \<Rightarrow> r\<lparr>didBindingTestSuccess := False\<rparr> | FilteringCheck \<Rightarrow> r\<lparr>didFilteringTestSuccess := False\<rparr>)"

definition stunTestRetryOrFail :: "stun_env \<Rightarrow> StunStruct \<Rightarrow> stun_test \<Rightarrow> success_check \<Rightarrow> StunStruct option" where
  "stunTestRetryOrFail env stun test testSuccessCheck = do {
     t \<leftarrow> sn_tests stun test;
     if stt_isCompleted t = False
     then do {
       stun \<leftarrow> stunTestDestroyTimeout stun test;
       t \<leftarrow> sn_tests stun test;
       if stt_retries t < sn_maxRetries stun
       then do {
         let t = t\<lparr>stt_retries := stt_retries t + 1\<rparr>;
         let stun = set_test stun test t;
         let timeoutRto = stun_retry_rto (sn_rto stun) (stt_retries t);
         stun \<leftarrow> stun_set_timeout env stun test timeoutRto;
         stun_socket stun (\<lambda>s. net_socket_send s (stt_packet t))
       }
       else do {
         let stun = stun\<lparr>sn_results := fail_check testSuccessCheck (sn_results stun)\<rparr>;
         stunTestSetComplete stun test
       }
     }
     else Some stun
   }"

definition stunTestForward :: "StunStruct \<Rightarrow> ptr \<Rightarrow> StunStruct option" where
  "stunTestForward stun packet = do {
     stun \<leftarrow> stun_packet stun packet (\<lambda>m. Some (m\<lparr>pkt_bitstream := bitstream_reset (pkt_bitstream m)\<rparr>));
     let socket_info = sn_info stun;
     if info_receiveBlock socket_info \<noteq> NULL
     then Some (stun\<lparr>sn_notices := sn_notices stun @ [ForwardedBlock (info_receiveBlock socket_info) packet]\<rparr>)
     else if info_receiveCallback socket_info \<noteq> NULL
     then Some (stun\<lparr>sn_notices := sn_notices stun @
       [ForwardedCallback (info_receiveCallback socket_info) (info_receiveCallbackContext socket_info) packet]\<rparr>)
     else Some stun
   }"

subsection \<open>Evaluation of the responses\<close>

definition binding_result :: "endian \<Rightarrow> net_addr_t \<Rightarrow> StunBindingResponse \<Rightarrow> StunResults \<Rightarrow> StunResults" where
  "binding_result e primary bindingResponse results =
     (let results = (if hasMappedAddress bindingResponse
            then results\<lparr>mappedAddr := net_addr_copy (mappedAddr results) (mappedAddressAddr bindingResponse)\<rparr> else results);
          results = (if hasXorMappedAddress bindingResponse
            then results\<lparr>mappedAddr := net_addr_copy (mappedAddr results) (xorMappedAddressAddr bindingResponse)\<rparr> else results);
          results = (if hasAlternateServer bindingResponse
            then let results = results\<lparr>hasOtherServerAddress := True\<rparr>;
                     results = results\<lparr>otherServerAddr := net_addr_copy (otherServerAddr results) (alternateServerAddr bindingResponse)\<rparr>;
                     results = results\<lparr>otherServerPrimaryHostAddr := net_addr_set e (sin_addr primary) (sin_port (otherServerAddr results)) False\<rparr>
                 in results\<lparr>otherServerPrimaryPortAddr := net_addr_set e (sin_addr (otherServerAddr results)) (sin_port primary) False\<rparr>
            else results);
          results = (if net_addr_is_equal (mappedAddr results) (localAddr results) then results\<lparr>isMappingDirect := True\<rparr> else results)
      in results\<lparr>didBindingTestSuccess := True\<rparr>)"

definition behavior1_result :: "StunBindingResponse \<Rightarrow> StunResults \<Rightarrow> StunResults" where
  "behavior1_result bindingResponse results =
     (let results = (if hasMappedAddress bindingResponse
            then results\<lparr>mappedOtherServerPrimaryPortAddr :=
              net_addr_copy (mappedOtherServerPrimaryPortAddr results) (mappedAddressAddr bindingResponse)\<rparr> else results);
          results = (if hasXorMappedAddress bindingResponse
            then results\<lparr>mappedOtherServerPrimaryPortAddr :=
              net_addr_copy (mappedOtherServerPrimaryPortAddr results) (xorMappedAddressAddr bindingResponse)\<rparr> else results)
      in if hasMappedAddress bindingResponse \<or> hasXorMappedAddress bindingResponse
         then if net_addr_is_equal (mappedOtherServerPrimaryPortAddr results) (mappedAddr results)
              then results\<lparr>didBehaviorTestSuccess := True, natBehavior := EndpointIndependentMapping\<rparr>
              else results
         else results)"

definition behavior2_result :: "StunBindingResponse \<Rightarrow> StunResults \<Rightarrow> StunResults" where
  "behavior2_result bindingResponse results =
     (let results = (if hasMappedAddress bindingResponse
            then results\<lparr>mappedOtherServerAddr := net_addr_copy (mappedOtherServerAddr results) (mappedAddressAddr bindingResponse)\<rparr>
            else results);
          results = (if hasXorMappedAddress bindingResponse
            then results\<lparr>mappedOtherServerAddr := net_addr_copy (mappedOtherServerAddr results) (xorMappedAddressAddr bindingResponse)\<rparr>
            else results)
      in if hasMappedAddress bindingResponse \<or> hasXorMappedAddress bindingResponse
         then let results = (if net_addr_is_equal (mappedOtherServerAddr results) (mappedAddr results)
                    then results\<lparr>natBehavior := AddressDependentMapping\<rparr>
                    else results\<lparr>natBehavior := AddressAndPortDependentMapping\<rparr>)
              in results\<lparr>didBehaviorTestSuccess := True\<rparr>
         else results)"

definition filtering1_result :: "net_addr_t \<Rightarrow> StunResults \<Rightarrow> StunResults" where
  "filtering1_result packetAddr results =
     (if net_addr_is_equal (otherServerAddr results) packetAddr
      then results\<lparr>didFilteringTestSuccess := True, natFiltering := EndpointIndependentFiltering\<rparr>
      else results)"

definition filtering2_result :: "net_addr_t \<Rightarrow> StunResults \<Rightarrow> StunResults" where
  "filtering2_result packetAddr results =
     (if net_addr_is_equal (otherServerAddr results) packetAddr
      then results\<lparr>didFilteringTestSuccess := True, natFiltering := AddressDependentFiltering\<rparr>
      else results)"

definition test_result :: "stun_test \<Rightarrow> endian \<Rightarrow> net_addr_t \<Rightarrow> StunBindingResponse \<Rightarrow> net_addr_t \<Rightarrow> StunResults \<Rightarrow> StunResults" where
  "test_result test e primary bindingResponse packetAddr results =
     (case test of
        BindingTest1 \<Rightarrow> binding_result e primary bindingResponse results
      | BehaviorTest1 \<Rightarrow> behavior1_result bindingResponse results
      | BehaviorTest2 \<Rightarrow> behavior2_result bindingResponse results
      | FilteringTest1 \<Rightarrow> filtering1_result packetAddr results
      | FilteringTest2 \<Rightarrow> filtering2_result packetAddr results)"

text \<open>
  The receive block of a test, which the socket calls, and the block it puts on the queue. The five
  tests differ in what they do with the response. The id and the response are local
  variables that are read only if the message is valid.
\<close>

definition stun_receive_block :: "StunStruct \<Rightarrow> stun_test \<Rightarrow> ptr \<Rightarrow> StunStruct" where
  "stun_receive_block stun test packet = stun_dispatch stun (StunReceiveTask test packet)"

definition run_stun_receive :: "stun_env \<Rightarrow> StunStruct \<Rightarrow> stun_test \<Rightarrow> ptr \<Rightarrow> StunStruct option" where
  "run_stun_receive env stun test packet = do {
     t \<leftarrow> sn_tests stun test;
     stun \<leftarrow>
       (if stt_isCompleted t = False
        then do {
          s \<leftarrow> sn_socket stun;
          m \<leftarrow> sk_mem s packet;
          (result, transactionId, bindingResponse, b) \<leftarrow>
            stunProtocolUnpackBindingResponse (en_endian env) (pkt_bitstream m) (en_id env) zero_binding_response;
          let stun = stun\<lparr>sn_socket := Some (net_packet_store s packet (m\<lparr>pkt_bitstream := b\<rparr>))\<rparr>;
          if result = kStunValid
          then do {
            stun \<leftarrow> stunTestDestroyTimeout stun test;
            if stunIsEqualTransactionId (stt_transactionId t) transactionId
            then do {
              let results = test_result test (en_endian env) (sn_primaryServerAddr stun) bindingResponse (pkt_addr m) (sn_results stun);
              stunTestSetComplete (stun\<lparr>sn_results := results\<rparr>) test
            }
            else Some stun
          }
          else stunTestForward stun packet
        }
        else Some stun);
     stun_socket stun (\<lambda>s. net_packet_release s packet)
   }"

subsection \<open>Starting the tests\<close>

text \<open>The end of every start: the receive block is copied and the request is sent.\<close>

definition stun_start_send :: "stun_env \<Rightarrow> StunStruct \<Rightarrow> stun_test \<Rightarrow> StunStruct option" where
  "stun_start_send env stun test = do {
     t \<leftarrow> sn_tests stun test;
     let stun = (set_test stun test (t\<lparr>stt_receiveBlock := en_receiveBlock env\<rparr>))\<lparr>sn_blocks := en_receiveBlock env # sn_blocks stun\<rparr>;
     stunTestSend env stun test
   }"

definition stunTestStartBasicBinding :: "stun_env \<Rightarrow> StunStruct \<Rightarrow> StunStruct option" where
  "stunTestStartBasicBinding env stun = do {
     let test = BindingTest1;
     let stun = set_test stun test zero_test;
     stun \<leftarrow> stunTestSetup env stun test (sn_primaryServerAddr stun);
     s \<leftarrow> sn_socket stun;
     let results = sn_results stun;
     let stun = stun\<lparr>sn_results := results\<lparr>localAddr := net_socket_local_addr (en_ifaddrs env) s (localAddr results)\<rparr>\<rparr>;
     stun \<leftarrow> stun_pack stun test (stunProtocolPackBindingRequest (en_endian env));
     stun_start_send env stun test
   }"

definition stunTestStartBehavior1 :: "stun_env \<Rightarrow> StunStruct \<Rightarrow> StunStruct option" where
  "stunTestStartBehavior1 env stun = do {
     let test = BehaviorTest1;
     let stun = set_test stun test zero_test;
     let results = sn_results stun;
     if didBindingTestSuccess results \<and> isMappingDirect results
     then stunTestSetComplete (stun\<lparr>sn_results := results\<lparr>natBehavior := DirectMapping, didBehaviorTestSuccess := True\<rparr>\<rparr>) test
     else if hasOtherServerAddress results = False
     then stunTestSetComplete (stun\<lparr>sn_results := results\<lparr>didBehaviorTestSuccess := False\<rparr>\<rparr>) test
     else do {
       stun \<leftarrow> stunTestSetup env stun test (otherServerPrimaryPortAddr results);
       stun \<leftarrow> stun_pack stun test (stunProtocolPackBindingRequest (en_endian env));
       stun_start_send env stun test
     }
   }"

definition stunTestStartBehavior2 :: "stun_env \<Rightarrow> StunStruct \<Rightarrow> StunStruct option" where
  "stunTestStartBehavior2 env stun = do {
     let test = BehaviorTest2;
     let stun = set_test stun test zero_test;
     let results = sn_results stun;
     if didBehaviorTestSuccess results then stunTestSetComplete stun test
     else if net_addr_is_valid (mappedOtherServerPrimaryPortAddr results) = False
     then stunTestSetComplete (stun\<lparr>sn_results := results\<lparr>didBehaviorTestSuccess := False\<rparr>\<rparr>) test
     else do {
       stun \<leftarrow> stunTestSetup env stun test (otherServerAddr results);
       stun \<leftarrow> stun_pack stun test (stunProtocolPackBindingRequest (en_endian env));
       stun_start_send env stun test
     }
   }"

definition stunTestStartFiltering1 :: "stun_env \<Rightarrow> StunStruct \<Rightarrow> StunStruct option" where
  "stunTestStartFiltering1 env stun = do {
     let test = FilteringTest1;
     let stun = set_test stun test zero_test;
     let results = sn_results stun;
     if didBindingTestSuccess results \<and> isMappingDirect results
     then stunTestSetComplete
       (stun\<lparr>sn_results := results\<lparr>natFiltering := EndpointIndependentFiltering, didFilteringTestSuccess := True\<rparr>\<rparr>) test
     else if hasOtherServerAddress results = False
     then stunTestSetComplete (stun\<lparr>sn_results := results\<lparr>didFilteringTestSuccess := False\<rparr>\<rparr>) test
     else do {
       stun \<leftarrow> stunTestSetup env stun test (sn_primaryServerAddr stun);
       let doChangeHost = True;
       let doChangePort = True;
       stun \<leftarrow> stun_pack stun test (\<lambda>b i. stunProtocolPackBindingChangeRequest (en_endian env) b i doChangeHost doChangePort);
       stun_start_send env stun test
     }
   }"

definition stunTestStartFiltering2 :: "stun_env \<Rightarrow> StunStruct \<Rightarrow> StunStruct option" where
  "stunTestStartFiltering2 env stun = do {
     let test = FilteringTest2;
     let stun = set_test stun test zero_test;
     let results = sn_results stun;
     if didFilteringTestSuccess results then stunTestSetComplete stun test
     else if hasOtherServerAddress results = False
     then stunTestSetComplete (stun\<lparr>sn_results := results\<lparr>didFilteringTestSuccess := False\<rparr>\<rparr>) test
     else do {
       stun \<leftarrow> stunTestSetup env stun test (sn_primaryServerAddr stun);
       let doChangeHost = False;
       let doChangePort = True;
       stun \<leftarrow> stun_pack stun test (\<lambda>b i. stunProtocolPackBindingChangeRequest (en_endian env) b i doChangeHost doChangePort);
       stun_start_send env stun test
     }
   }"

text \<open>The check each test hands to its timer; the two behavior tests use that of the binding test.\<close>

definition test_check :: "stun_test \<Rightarrow> success_check" where
  "test_check test = (if test = FilteringTest1 \<or> test = FilteringTest2 then FilteringCheck else BindingCheck)"

text \<open>The timer of a test fires: its block puts the retry on the queue, then the handler of the timer ends.\<close>

definition stun_timer_fires :: "StunStruct \<Rightarrow> stun_test \<Rightarrow> StunStruct option" where
  "stun_timer_fires stun test = do {
     let stun = stun_dispatch stun (StunRetryTask test (test_check test));
     t \<leftarrow> sn_tests stun test;
     let (timeout, calls) = timeout_fired (stt_timeout t);
     Some ((set_test stun test (t\<lparr>stt_timeout := timeout\<rparr>))\<lparr>sn_calls := sn_calls stun @ calls\<rparr>)
   }"

end
