(* ===== verification/Stun.thy ===== *)
theory Stun
  imports Stun_Tests
begin

text \<open>
  Discovery of address translation (\<^verbatim>\<open>stun.c\<close>): the client runs its five tests one after the other on
  a socket it borrows, and reports. The theory follows a run in which every test gets one answer or
  none to its end, and shows that the socket is left with receive blocks that have been released.
\<close>

section \<open>Definitions\<close>

abbreviation (input) kStunServerDefaultPort :: u16 where "kStunServerDefaultPort \<equiv> 3478"
abbreviation (input) kStunDefaultRto :: int where "kStunDefaultRto \<equiv> 1000"
abbreviation (input) kStunDefaultRetries :: u32 where "kStunDefaultRetries \<equiv> 2"

definition zero_results :: StunResults where
  "zero_results =
     \<lparr>didBindingTestSuccess = False, localAddr = sockaddr_zero, mappedAddr = sockaddr_zero, isMappingDirect = False,
      hasOtherServerAddress = False, otherServerPrimaryHostAddr = sockaddr_zero, otherServerPrimaryPortAddr = sockaddr_zero,
      otherServerAddr = sockaddr_zero, didBehaviorTestSuccess = False, natBehavior = UnknownBehavior,
      mappedOtherServerPrimaryPortAddr = sockaddr_zero, mappedOtherServerAddr = sockaddr_zero,
      didFilteringTestSuccess = False, natFiltering = UnknownFiltering\<rparr>"

text \<open>\<^verbatim>\<open>strncpy\<close> into an array: the string is padded with zeros, and not terminated if it fills the array.\<close>

definition strncpy :: "u8 list \<Rightarrow> size_t \<Rightarrow> u8 list" where
  "strncpy src n = take n (c_str src @ replicate n 0)"

text \<open>
  \<open>mem\<close> is what the allocated memory holds before, \<open>didComplete\<close>, \<open>didResolve\<close> and \<open>didFail\<close> are the
  copies of the blocks.
\<close>

definition stunCreate ::
    "ptr \<Rightarrow> StunStruct \<Rightarrow> ptr \<Rightarrow> ptr \<Rightarrow> ptr \<Rightarrow> net_socket_s \<Rightarrow> u8 list \<Rightarrow> StunStruct option" where
  "stunCreate malloc mem didComplete didResolve didFail socket serverHostname =
     (if malloc \<noteq> NULL
      then Some (mem\<lparr>sn_didResolve := False, sn_results := zero_results, sn_rto := kStunDefaultRto, sn_maxRetries := kStunDefaultRetries,
        sn_socket := Some socket, sn_tasks := [], sn_primaryServerHostname := strncpy serverHostname 64,
        sn_blocks := [didComplete, didFail, didResolve], sn_testDidComplete := didComplete, sn_stunDidResolve := didResolve,
        sn_stunDidFailResolve := didFail\<rparr>)
      else None)"

definition stun_release_pending :: "StunStruct \<Rightarrow> stun_test \<Rightarrow> StunStruct option" where
  "stun_release_pending stun test = do {
     t \<leftarrow> sn_tests stun test;
     if \<not> stt_isCompleted t then stunTestRelease stun test else Some stun
   }"

definition block_release_if :: "StunStruct \<Rightarrow> ptr \<Rightarrow> StunStruct option" where
  "block_release_if stun block = (if block \<noteq> NULL then block_release stun block else Some stun)"

text \<open>What is left of the state when the structure is freed.\<close>

definition stunDestroy :: "StunStruct option \<Rightarrow> StunStruct option option" where
  "stunDestroy stun =
     (case stun of
        None \<Rightarrow> Some None
      | Some stun \<Rightarrow> do {
          stun \<leftarrow> stun_release_pending stun BindingTest1;
          stun \<leftarrow> stun_release_pending stun BehaviorTest1;
          stun \<leftarrow> stun_release_pending stun BehaviorTest2;
          stun \<leftarrow> stun_release_pending stun FilteringTest1;
          stun \<leftarrow> stun_release_pending stun FilteringTest2;
          stun \<leftarrow> block_release_if stun (sn_testDidComplete stun);
          stun \<leftarrow> block_release_if stun (sn_stunDidResolve stun);
          stun \<leftarrow> block_release_if stun (sn_stunDidFailResolve stun);
          Some (Some stun)
        })"

definition stunResolve :: "StunStruct \<Rightarrow> StunStruct" where
  "stunResolve stun = stun_dispatch stun StunResolveTask"

definition stun_notify :: "StunStruct \<Rightarrow> ptr \<Rightarrow> stun_notice \<Rightarrow> StunStruct option" where
  "stun_notify stun block notice =
     (if block \<in> set (sn_blocks stun) then Some (stun\<lparr>sn_notices := sn_notices stun @ [notice]\<rparr>) else None)"

definition run_stun_resolve :: "stun_env \<Rightarrow> StunStruct \<Rightarrow> StunStruct option" where
  "run_stun_resolve env stun = do {
     let (netError, addr) = net_addr_resolve (en_endian env) (en_getaddrinfo env) (en_getnameinfo env) (sn_primaryServerAddr stun)
       (sn_primaryServerHostname stun) kStunServerDefaultPort;
     let stun = stun\<lparr>sn_primaryServerAddr := addr\<rparr>;
     if netError \<noteq> NetNoError then stun_notify stun (sn_stunDidFailResolve stun) DidFailResolve
     else do {
       s \<leftarrow> sn_socket stun;
       let stun = stun\<lparr>sn_info := net_socket_copy_info s\<rparr>;
       stunTestStartBasicBinding env stun
     }
   }"

definition run_stun_next :: "stun_env \<Rightarrow> StunStruct \<Rightarrow> stun_test \<Rightarrow> StunStruct option" where
  "run_stun_next env stun previousTest =
     (if previousTest = BindingTest1 then stunTestStartBehavior1 env stun
      else if previousTest = BehaviorTest1 then stunTestStartBehavior2 env stun
      else if previousTest = BehaviorTest2 then stunTestStartFiltering1 env stun
      else if previousTest = FilteringTest1 then stunTestStartFiltering2 env stun
      else if didBindingTestSuccess (sn_results stun)
      then do {
        stun \<leftarrow> stun_socket stun (\<lambda>s. Some (net_socket_set_info s (sn_info stun)));
        stun_notify (stun\<lparr>sn_didResolve := True\<rparr>) (sn_stunDidResolve stun) DidResolve
      }
      else stun_notify stun (sn_stunDidFailResolve stun) DidFailResolve)"

text \<open>The first block of the serial queue.\<close>

definition run_stun_task :: "stun_env \<Rightarrow> StunStruct \<Rightarrow> StunStruct option" where
  "run_stun_task env stun =
     (case sn_tasks stun of
        [] \<Rightarrow> Some stun
      | task # rest \<Rightarrow>
          let stun = stun\<lparr>sn_tasks := rest\<rparr>
          in case task of
               StunResolveTask \<Rightarrow> run_stun_resolve env stun
             | StunNextTask test \<Rightarrow> run_stun_next env stun test
             | StunReceiveTask test packet \<Rightarrow> run_stun_receive env stun test packet
             | StunRetryTask test check \<Rightarrow> stunTestRetryOrFail env stun test check)"

section \<open>Runs\<close>

text \<open>
  A run against a server and a network: each test is answered after some retransmissions, from an
  address and with attributes, or not at all. Between the steps the socket writes what waits.
\<close>

datatype stun_answer = Silent | Answer nat net_addr_t "stun_attr list"

definition stun_flush :: "StunStruct \<Rightarrow> StunStruct option" where
  "stun_flush stun = stun_socket stun (socket_flush fresh_node)"

definition stun_expiry :: "stun_env \<Rightarrow> StunStruct \<Rightarrow> stun_test \<Rightarrow> StunStruct option" where
  "stun_expiry env stun test = do {
     stun \<leftarrow> stun_timer_fires stun test;
     stun \<leftarrow> run_stun_task env stun;
     stun_flush stun
   }"

fun stun_expiries :: "nat \<Rightarrow> stun_env \<Rightarrow> StunStruct \<Rightarrow> stun_test \<Rightarrow> StunStruct option" where
  "stun_expiries 0 env stun test = Some stun"
| "stun_expiries (Suc n) env stun test = do { stun \<leftarrow> stun_expiry env stun test; stun_expiries n env stun test }"

text \<open>A datagram arrives; the block the socket calls must be alive.\<close>

definition stun_in :: "stun_env \<Rightarrow> StunStruct \<Rightarrow> stun_test \<Rightarrow> net_addr_t \<Rightarrow> u8 list \<Rightarrow> StunStruct option" where
  "stun_in env stun test addr bytes = do {
     s \<leftarrow> sn_socket stun;
     s \<leftarrow> read_handler \<lparr>recv_bytes = int (length bytes), recv_data = bytes, recv_addr = addr\<rparr> s;
     if sk_deliveries s = [] then None
     else do {
       ((block, _, packet), s) \<leftarrow> run_delivery (last (sk_deliveries s)) s;
       t \<leftarrow> sn_tests stun test;
       if block \<noteq> stt_receiveBlock t \<or> block \<notin> set (sn_blocks stun) then None
       else run_stun_task env (stun_receive_block (stun\<lparr>sn_socket := Some s\<rparr>) test packet)
     }
   }"

definition stun_response :: "endian \<Rightarrow> StunTransactionId \<Rightarrow> stun_attr list \<Rightarrow> u8 list" where
  "stun_response e i as =
     enc_stun_header e StunMsgTypeBinding StunMsgClassSuccessResponse i (of_nat (length (enc_stun_body e as))) @ enc_stun_body e as"

definition stun_phase :: "stun_env \<Rightarrow> StunStruct \<Rightarrow> stun_test \<Rightarrow> stun_answer \<Rightarrow> StunStruct option" where
  "stun_phase env stun test answer = do {
     t \<leftarrow> sn_tests stun test;
     if stt_isCompleted t then Some stun
     else case answer of
         Silent \<Rightarrow> stun_expiries 3 env stun test
       | Answer n addr as \<Rightarrow> do {
           stun \<leftarrow> stun_expiries n env stun test;
           stun_in env stun test addr (stun_response (en_endian env) (stt_transactionId t) as)
         }
   }"

text \<open>The next block of the queue starts the test, or completes it at once.\<close>

definition stun_step :: "(stun_test \<Rightarrow> stun_env) \<Rightarrow> (stun_test \<Rightarrow> stun_answer) \<Rightarrow> StunStruct \<Rightarrow> stun_test \<Rightarrow> StunStruct option" where
  "stun_step env answers stun test = do {
     stun \<leftarrow> run_stun_task (env test) stun;
     stun \<leftarrow> stun_flush stun;
     stun_phase (env test) stun test (answers test)
   }"

definition stun_run :: "(stun_test \<Rightarrow> stun_env) \<Rightarrow> (stun_test \<Rightarrow> stun_answer) \<Rightarrow> StunStruct \<Rightarrow> StunStruct option" where
  "stun_run env answers stun = do {
     stun \<leftarrow> stun_step env answers (stunResolve stun) BindingTest1;
     stun \<leftarrow> stun_step env answers stun BehaviorTest1;
     stun \<leftarrow> stun_step env answers stun BehaviorTest2;
     stun \<leftarrow> stun_step env answers stun FilteringTest1;
     stun \<leftarrow> stun_step env answers stun FilteringTest2;
     run_stun_task (env FilteringTest2) stun
   }"

section \<open>The specification\<close>

text \<open>
  The results step by step, without packets, timers and blocks: what a
  test starts from, whether it is carried out, and what the code makes of its answer. A description that
  does not use the code's own evaluation is in the theory on the report.
\<close>

definition answer_response :: "endian \<Rightarrow> stun_attr list \<Rightarrow> StunBindingResponse" where
  "answer_response e as = fold (apply_stun_attr e) as zero_binding_response"

definition spec_answer :: "stun_env \<Rightarrow> net_addr_t \<Rightarrow> stun_test \<Rightarrow> stun_answer \<Rightarrow> StunResults \<Rightarrow> StunResults" where
  "spec_answer env primary test answer r =
     (case answer of
        Silent \<Rightarrow> fail_check (test_check test) r
      | Answer _ addr as \<Rightarrow> test_result test (en_endian env) primary (answer_response (en_endian env) as) addr r)"

text \<open>Whether a test can be decided without a request, and its results then.\<close>

definition spec_skips :: "stun_test \<Rightarrow> StunResults \<Rightarrow> bool" where
  "spec_skips test r =
     (case test of
        BindingTest1 \<Rightarrow> False
      | BehaviorTest1 \<Rightarrow> didBindingTestSuccess r \<and> isMappingDirect r \<or> \<not> hasOtherServerAddress r
      | BehaviorTest2 \<Rightarrow> didBehaviorTestSuccess r \<or> \<not> net_addr_is_valid (mappedOtherServerPrimaryPortAddr r)
      | FilteringTest1 \<Rightarrow> didBindingTestSuccess r \<and> isMappingDirect r \<or> \<not> hasOtherServerAddress r
      | FilteringTest2 \<Rightarrow> didFilteringTestSuccess r \<or> \<not> hasOtherServerAddress r)"

definition spec_skipped :: "stun_test \<Rightarrow> StunResults \<Rightarrow> StunResults" where
  "spec_skipped test r =
     (case test of
        BindingTest1 \<Rightarrow> r
      | BehaviorTest1 \<Rightarrow> if didBindingTestSuccess r \<and> isMappingDirect r then r\<lparr>natBehavior := DirectMapping, didBehaviorTestSuccess := True\<rparr>
          else r\<lparr>didBehaviorTestSuccess := False\<rparr>
      | BehaviorTest2 \<Rightarrow> if didBehaviorTestSuccess r then r else r\<lparr>didBehaviorTestSuccess := False\<rparr>
      | FilteringTest1 \<Rightarrow> if didBindingTestSuccess r \<and> isMappingDirect r
          then r\<lparr>natFiltering := EndpointIndependentFiltering, didFilteringTestSuccess := True\<rparr> else r\<lparr>didFilteringTestSuccess := False\<rparr>
      | FilteringTest2 \<Rightarrow> if didFilteringTestSuccess r then r else r\<lparr>didFilteringTestSuccess := False\<rparr>)"

definition spec_step :: "(stun_test \<Rightarrow> stun_env) \<Rightarrow> (stun_test \<Rightarrow> stun_answer) \<Rightarrow> net_addr_t \<Rightarrow> StunResults \<Rightarrow> stun_test \<Rightarrow> StunResults" where
  "spec_step env answers primary r test =
     (if spec_skips test r then spec_skipped test r else spec_answer (env test) primary test (answers test) r)"

definition stun_order :: "stun_test list" where
  "stun_order = [BindingTest1, BehaviorTest1, BehaviorTest2, FilteringTest1, FilteringTest2]"

definition stun_spec :: "(stun_test \<Rightarrow> stun_env) \<Rightarrow> (stun_test \<Rightarrow> stun_answer) \<Rightarrow> net_addr_t \<Rightarrow> net_addr_t \<Rightarrow> StunResults" where
  "stun_spec env answers primary local = foldl (spec_step env answers primary) (zero_results\<lparr>localAddr := local\<rparr>) stun_order"

section \<open>One test\<close>

text \<open>What the steps of a test do not touch.\<close>

definition stun_same :: "StunStruct \<Rightarrow> StunStruct \<Rightarrow> bool" where
  "stun_same stun stun' \<longleftrightarrow>
     stun'\<lparr>sn_socket := None, sn_tests := (\<lambda>_. None), sn_calls := [], sn_blocks := [], sn_results := zero_results, sn_tasks := []\<rparr> =
     stun\<lparr>sn_socket := None, sn_tests := (\<lambda>_. None), sn_calls := [], sn_blocks := [], sn_results := zero_results, sn_tasks := []\<rparr>"

lemma stun_same_refl [simp]: "stun_same stun stun"
  by (simp add: stun_same_def)

lemma stun_same_trans: "stun_same a b \<Longrightarrow> stun_same b c \<Longrightarrow> stun_same a c"
  by (simp add: stun_same_def)

lemma stun_same_upd [simp]:
  "stun_same stun (stun'\<lparr>sn_socket := x\<rparr>) = stun_same stun stun'" "stun_same stun (stun'\<lparr>sn_tests := ts\<rparr>) = stun_same stun stun'"
  "stun_same stun (stun'\<lparr>sn_calls := cs\<rparr>) = stun_same stun stun'" "stun_same stun (stun'\<lparr>sn_blocks := bs\<rparr>) = stun_same stun stun'"
  "stun_same stun (stun'\<lparr>sn_results := r\<rparr>) = stun_same stun stun'" "stun_same stun (stun'\<lparr>sn_tasks := tk\<rparr>) = stun_same stun stun'"
  "stun_same stun (set_test stun' test t) = stun_same stun stun'"
  by (auto simp: stun_same_def set_test_def intro!: StunStruct.equality dest!: arg_cong [where f = "\<lambda>s. (StunStruct.more s, s)"])

lemma stun_same_fields:
  assumes "stun_same stun stun'"
  shows "sn_didResolve stun' = sn_didResolve stun" "sn_rto stun' = sn_rto stun" "sn_maxRetries stun' = sn_maxRetries stun"
    "sn_info stun' = sn_info stun" "sn_primaryServerAddr stun' = sn_primaryServerAddr stun" "sn_notices stun' = sn_notices stun"
    "sn_stunDidResolve stun' = sn_stunDidResolve stun" "sn_stunDidFailResolve stun' = sn_stunDidFailResolve stun"
    "sn_testDidComplete stun' = sn_testDidComplete stun" "sn_primaryServerHostname stun' = sn_primaryServerHostname stun"
proof -
  have eq: "f (stun'\<lparr>sn_socket := None, sn_tests := (\<lambda>_. None), sn_calls := [], sn_blocks := [], sn_results := zero_results, sn_tasks := []\<rparr>) =
      f (stun\<lparr>sn_socket := None, sn_tests := (\<lambda>_. None), sn_calls := [], sn_blocks := [], sn_results := zero_results, sn_tasks := []\<rparr>)"
    for f :: "StunStruct \<Rightarrow> 'a"
    using assms by (simp add: stun_same_def)
  show "sn_didResolve stun' = sn_didResolve stun" "sn_rto stun' = sn_rto stun" "sn_maxRetries stun' = sn_maxRetries stun"
    "sn_info stun' = sn_info stun" "sn_primaryServerAddr stun' = sn_primaryServerAddr stun" "sn_notices stun' = sn_notices stun"
    "sn_stunDidResolve stun' = sn_stunDidResolve stun" "sn_stunDidFailResolve stun' = sn_stunDidFailResolve stun"
    "sn_testDidComplete stun' = sn_testDidComplete stun" "sn_primaryServerHostname stun' = sn_primaryServerHostname stun"
    using eq [of sn_didResolve] eq [of sn_rto] eq [of sn_maxRetries] eq [of sn_info] eq [of sn_primaryServerAddr] eq [of sn_notices]
      eq [of sn_stunDidResolve] eq [of sn_stunDidFailResolve] eq [of sn_testDidComplete] eq [of sn_primaryServerHostname]
    by simp_all
qed

lemma set_test_fields [simp]:
  "sn_socket (set_test stun test t) = sn_socket stun" "sn_tests (set_test stun test t) = (sn_tests stun)(test \<mapsto> t)"
  "sn_calls (set_test stun test t) = sn_calls stun" "sn_blocks (set_test stun test t) = sn_blocks stun"
  "sn_results (set_test stun test t) = sn_results stun" "sn_tasks (set_test stun test t) = sn_tasks stun"
  "sn_rto (set_test stun test t) = sn_rto stun" "sn_maxRetries (set_test stun test t) = sn_maxRetries stun"
  "sn_primaryServerAddr (set_test stun test t) = sn_primaryServerAddr stun" "sn_info (set_test stun test t) = sn_info stun"
  "sn_notices (set_test stun test t) = sn_notices stun"
  by (simp_all add: set_test_def)

text \<open>A socket between two tests, the environment of a test, and a test that waits for its answer.\<close>

definition socket_idle :: "(ptr \<Rightarrow> nat) \<Rightarrow> net_socket_s \<Rightarrow> bool" where
  "socket_idle own s \<longleftrightarrow> socket_inv own s \<and> sk_queued s = [] \<and> sk_tasks s = [] \<and> sk_deliveries s = [] \<and> 2 \<le> sk_free s"

definition stun_env_ok :: "stun_env \<Rightarrow> bool" where
  "stun_env_ok env \<longleftrightarrow> en_receiveBlock env \<noteq> NULL \<and> en_timeoutBlock env \<noteq> NULL \<and> en_source env \<noteq> NULL \<and>
     (en_random env < 0 \<or> reads_end (en_reads env)) \<and> length (en_id env) = kStunTransactionIdLen"

definition waiting_test :: "stun_env \<Rightarrow> StunTransactionId \<Rightarrow> ptr \<Rightarrow> u32 \<Rightarrow> StunTest" where
  "waiting_test env i p n = \<lparr>stt_isCompleted = False, stt_transactionId = i, stt_packet = p, stt_receiveBlock = en_receiveBlock env,
     stt_retries = n, stt_timeout = \<lparr>timerDispatchSource = en_source env, valid = True\<rparr>, stt_timeoutBlock = en_timeoutBlock env\<rparr>"

definition request_in :: "net_addr_t \<Rightarrow> u8 list \<Rightarrow> net_packet_s \<Rightarrow> bool" where
  "request_in dest bytes m \<longleftrightarrow> datagram m = (dest, bytes) \<and> 0 < bs_offset (pkt_bitstream m) \<and> pkt_length m = bs_offset (pkt_bitstream m)"

definition stun_waits ::
    "stun_env \<Rightarrow> (ptr \<Rightarrow> nat) \<Rightarrow> net_socket_s \<Rightarrow> stun_test \<Rightarrow> StunTransactionId \<Rightarrow> net_addr_t \<Rightarrow> u8 list \<Rightarrow> ptr \<Rightarrow> u32 \<Rightarrow> net_socket_s \<Rightarrow>
     StunStruct \<Rightarrow> StunStruct \<Rightarrow> bool" where
  "stun_waits env own s0 test i dest bytes p n s stun0 stun \<longleftrightarrow> sn_socket stun = Some s \<and>
     sn_tests stun = (sn_tests stun0)(test \<mapsto> waiting_test env i p n) \<and> sn_tasks stun = [] \<and>
     sn_blocks stun = en_timeoutBlock env # en_receiveBlock env # sn_blocks stun0 \<and> stun_same stun0 stun \<and>
     socket_inv (own(p := 1)) s \<and> own p = 0 \<and> p \<noteq> NULL \<and> sk_refs s0 p = 0 \<and> p \<in> sk_objects s0 \<and> sk_refs s = (sk_refs s0)(p := 1) \<and>
     sk_objects s = sk_objects s0 \<and> sk_queued s = [] \<and> sk_tasks s = [] \<and> sk_deliveries s = [] \<and>
     sk_receivers s = (en_receiveBlock env, snd (sk_receivers s0)) \<and>
     (\<exists>m. sk_mem s p = Some m \<and> request_in dest bytes m) \<and> length i = kStunTransactionIdLen"

text \<open>A test that is over: the socket is as it was before, except for its receive block, now \<open>rb\<close>, and what it has written.\<close>

definition stun_over :: "(ptr \<Rightarrow> nat) \<Rightarrow> net_socket_s \<Rightarrow> ptr \<Rightarrow> stun_test \<Rightarrow> net_socket_s \<Rightarrow> StunStruct \<Rightarrow> StunStruct \<Rightarrow> bool" where
  "stun_over own s0 rb test s stun0 stun \<longleftrightarrow> sn_socket stun = Some s \<and> socket_idle own s \<and> sk_refs s = sk_refs s0 \<and>
     sk_objects s = sk_objects s0 \<and> sk_receivers s = (rb, snd (sk_receivers s0)) \<and> sn_blocks stun = sn_blocks stun0 \<and>
     sn_tasks stun = [StunNextTask test] \<and> stun_same stun0 stun \<and>
     (\<exists>t. sn_tests stun = (sn_tests stun0)(test \<mapsto> t) \<and> stt_isCompleted t)"

lemma socket_idle_free:
  assumes "socket_idle own s0" "socket_inv own s" "sk_refs s = sk_refs s0" "sk_objects s = sk_objects s0"
    "sk_queued s = []" "sk_tasks s = []" "sk_deliveries s = []"
  shows "socket_idle own s"
  using assms by (simp add: socket_idle_def sk_free_def)

text \<open>Flushing a socket on which one packet waits, and one on which none does.\<close>

lemma flush_one:
  assumes "socket_inv own s" "sk_queued s = []" "sk_tasks s = [p]" "sk_mem s p = Some m"
  shows "\<exists>s'. socket_flush fresh_node s = Some s' \<and> socket_inv own s' \<and> sk_queued s' = [] \<and> sk_tasks s' = [] \<and>
    sk_wire s' = sk_wire s @ [datagram m] \<and> sk_refs s' = (sk_refs s)(p := sk_refs s p - 1) \<and> sk_mem s' = sk_mem s \<and>
    sk_deliveries s' = sk_deliveries s \<and> sk_receivers s' = sk_receivers s \<and> sk_objects s' = sk_objects s"
proof -
  have "(\<lambda>q. sk_refs s q - count_list (sk_queued s @ sk_tasks s) q) = (sk_refs s)(p := sk_refs s p - 1)"
    using assms(2,3) by auto
  with socket_flush_inv [OF assms(1)] assms(2-4) show ?thesis
    by (auto simp: fun_eq_iff)
qed

lemma flush_none:
  assumes "socket_inv own s" "sk_queued s = []" "sk_tasks s = []"
  shows "\<exists>s'. socket_flush fresh_node s = Some s' \<and> socket_inv own s' \<and> sk_queued s' = [] \<and> sk_tasks s' = [] \<and>
    sk_wire s' = sk_wire s \<and> sk_refs s' = sk_refs s \<and> sk_mem s' = sk_mem s \<and>
    sk_deliveries s' = sk_deliveries s \<and> sk_receivers s' = sk_receivers s \<and> sk_objects s' = sk_objects s"
  using socket_flush_inv [OF assms(1)] assms(2,3) by (auto simp: fun_eq_iff)

lemma stun_setup_step:
  assumes "socket_idle own s" "sn_socket stun = Some s" "stun_env_ok env"
  shows "\<exists>p i s1 m. stunTestSetup env (set_test stun test zero_test) test dest =
      Some (set_test (stun\<lparr>sn_socket := Some s1\<rparr>) test (zero_test\<lparr>stt_packet := p, stt_transactionId := i\<rparr>)) \<and>
    length i = kStunTransactionIdLen \<and> p \<noteq> NULL \<and> own p = 0 \<and> sk_refs s p = 0 \<and> p \<in> sk_objects s \<and>
    socket_inv (own(p := 1)) s1 \<and> sk_refs s1 = (sk_refs s)(p := 1) \<and> sk_tasks s1 = sk_tasks s \<and> sk_others s1 = sk_others s \<and>
    sk_mem s1 p = Some (net_packet_addr m dest) \<and> pkt_wf m \<and> bs_offset (pkt_bitstream m) = 0 \<and> sk_sockaddr s1 = sk_sockaddr s"
proof -
  have inv: "socket_inv own s" "0 < sk_free s"
    using assms(1) by (simp_all add: socket_idle_def)
  obtain p s0 where p: "net_packet_alloc s = Some (p, s0)" "p \<noteq> NULL" "sk_refs s p = 0" "p \<in> sk_objects s"
    using alloc_free [OF inv] .
  from net_packet_alloc_inv [OF inv(1)] p(1,2) obtain pl m where s0: "s0 = s\<lparr>sk_pool := Some pl, sk_mem := (sk_mem s)(p \<mapsto> m)\<rparr>"
    by auto
  from socket.alloc_law [OF inv(1)] p(1,2) obtain m' where a: "own p = 0" "socket_inv (own(p := 1)) s0" "sk_refs s0 = (sk_refs s)(p := 1)"
      "sk_tasks s0 = sk_tasks s" "sk_others s0 = sk_others s" "sk_mem s0 = (sk_mem s)(p \<mapsto> m')" "pkt_wf m'" "bs_offset (pkt_bitstream m') = 0"
    by auto
  have mm: "sk_mem s0 p = Some m'"
    using a(6) by simp
  have wf: "pkt_wf (net_packet_addr m' dest)" "pkt_length (net_packet_addr m' dest) = pkt_length m'"
    using a(7) by (simp_all add: net_packet_addr_def pkt_wf_def pkt_block_def)
  let ?s1 = "net_packet_store s0 p (net_packet_addr m' dest)"
  have put: "socket_inv (own(p := 1)) ?s1" "sk_refs ?s1 = sk_refs s0" "sk_tasks ?s1 = sk_tasks s0" "sk_others ?s1 = sk_others s0"
      "sk_mem ?s1 p = Some (net_packet_addr m' dest)"
    using socket.put_law [OF a(2) _ mm wf] by simp_all
  obtain i where i: "stunGenerateTransactionId (en_endian env) (en_random env) (en_reads env) (en_rand env) (Some (stt_transactionId zero_test)) =
      Some (Some i)" "length i = kStunTransactionIdLen"
    using stunGenerateTransactionId_some [of "en_random env" "en_reads env"] assms(3) unfolding stun_env_ok_def by blast
  have "sk_sockaddr ?s1 = sk_sockaddr s"
    by (simp add: s0 net_packet_store_def)
  moreover have "stunTestSetup env (set_test stun test zero_test) test dest =
      Some (set_test (stun\<lparr>sn_socket := Some ?s1\<rparr>) test (zero_test\<lparr>stt_packet := p, stt_transactionId := i\<rparr>))"
    using assms(2) p(1,2) mm i(1)
    by (auto simp: stunTestSetup_def Let_def set_test_def intro!: StunStruct.equality)
  ultimately show ?thesis
    using i(2) p(2-4) a put by (intro exI [of _ p] exI [of _ i] exI [of _ ?s1] exI [of _ m']) simp
qed

text \<open>A packer that writes a request of bounded length at the start of a packet.\<close>

definition packs_request :: "(bitstream_t \<Rightarrow> StunTransactionId \<Rightarrow> bitstream_t option) \<Rightarrow> (StunTransactionId \<Rightarrow> u8 list) \<Rightarrow> bool" where
  "packs_request f bytes \<longleftrightarrow> (\<forall>b i. bs_wf b \<longrightarrow> bs_room b 28 \<longrightarrow> length i = 12 \<longrightarrow>
     f b i = Some (bs_put b (bytes i)) \<and> 0 < length (bytes i) \<and> length (bytes i) \<le> 28)"

lemma packs_binding: "packs_request (stunProtocolPackBindingRequest e) (\<lambda>i. enc_stun_header e 1 0 i 0)"
  unfolding packs_request_def
proof (intro allI impI)
  fix b :: bitstream_t and i :: StunTransactionId
  assume "bs_wf b" "bs_room b 28" "length i = 12"
  moreover from this have "bs_room b 20"
    by (simp add: bs_room_def)
  ultimately show "stunProtocolPackBindingRequest e b i = Some (bs_put b (enc_stun_header e 1 0 i 0)) \<and>
      0 < length (enc_stun_header e 1 0 i 0) \<and> length (enc_stun_header e 1 0 i 0) \<le> 28"
    by (simp add: binding_request_room)
qed

definition enc_change_request :: "endian \<Rightarrow> bool \<Rightarrow> bool \<Rightarrow> StunTransactionId \<Rightarrow> u8 list" where
  "enc_change_request e host port i = enc_stun_header e 1 0 i 8 @ enc_uint16 e 3 @ enc_uint16 e 4 @
     enc_uint32 e ((if host then 4 else 0) + (if port then 2 else 0))"

lemma packs_change: "packs_request (\<lambda>b i. stunProtocolPackBindingChangeRequest e b i host port) (enc_change_request e host port)"
  unfolding packs_request_def enc_change_request_def by (simp add: binding_change_request_room)

lemma stun_send_step:
  assumes "sn_tests stun1 test = Some (zero_test\<lparr>stt_packet := p, stt_transactionId := i\<rparr>)" "sn_socket stun1 = Some s1"
    and "length i = kStunTransactionIdLen" "p \<noteq> NULL" "own p = 0" "sk_refs s0 p = 0" "p \<in> sk_objects s0"
    and "socket_inv (own(p := 1)) s1" "sk_refs s1 = (sk_refs s0)(p := 1)" "sk_tasks s1 = []" "sk_others s1 = sk_others s0"
    and "sk_mem s1 p = Some (net_packet_addr m dest)" "pkt_wf m" "bs_offset (pkt_bitstream m) = 0"
    and "sk_queued s0 = []" "sk_deliveries s0 = []" "sn_tasks stun1 = []" "stun_env_ok env" "packs_request f bytes"
    and "sn_blocks stun1 = sn_blocks stun0" "\<And>q. q \<noteq> test \<Longrightarrow> sn_tests stun1 q = sn_tests stun0 q" "stun_same stun0 stun1"
  shows "\<exists>stun s. do { stun \<leftarrow> stun_pack stun1 test f; stun \<leftarrow> stun_start_send env stun test; stun_flush stun } = Some stun \<and>
    stun_waits env own s0 test i dest (bytes i) p 0 s stun0 stun \<and> sk_wire s = sk_wire s0 @ [(dest, bytes i)] \<and>
    sn_results stun = sn_results stun1"
proof -
  let ?m = "net_packet_addr m dest" and ?bytes = "bytes i"
  have b: "bs_wf (pkt_bitstream m)" "bs_room (pkt_bitstream m) 28"
    using pkt_wf_bs_wf [OF assms(13)] pkt_wf_room [OF assms(13,14), of 28] by simp_all
  then have f: "f (pkt_bitstream m) i = Some (bs_put (pkt_bitstream m) ?bytes)" "0 < length ?bytes" "length ?bytes \<le> 28"
    using assms(19,3) by (auto simp: packs_request_def)
  let ?fm = "filled dest ?bytes m"
  have fm: "pkt_wf ?fm" "pkt_length ?fm = pkt_length m" "bs_offset (pkt_bitstream ?fm) = length ?bytes" "datagram (sent ?fm) = (dest, ?bytes)"
    using filled_wf [OF assms(13,14), of ?bytes dest] f(3) by simp_all
  have same: "?m\<lparr>pkt_bitstream := bs_put (pkt_bitstream m) ?bytes\<rparr> = ?fm"
    by (simp add: filled_def net_packet_addr_def)
  let ?s2 = "net_packet_store s1 p ?fm"
  have put: "socket_inv (own(p := 1)) ?s2" "sk_refs ?s2 = sk_refs s1" "sk_tasks ?s2 = []" "sk_others ?s2 = sk_others s0" "sk_mem ?s2 p = Some ?fm"
    using socket.put_law [OF assms(8) _ assms(12) fm(1)] fm(2) assms(10,11) by (simp_all add: net_packet_addr_def)
  let ?s3 = "net_socket_set_receive_block ?s2 (en_receiveBlock env)"
  have "socket_inv (own(p := 1)) ?s3" "sk_mem ?s3 p = Some ?fm" "sk_refs ?s3 p < 2 ^ 32 - 1"
    using put assms(9) by simp_all
  from socket.send_law [OF this(1) _ this(3,2)] fm(3) f(2) obtain s4
    where s4: "net_socket_send ?s3 p = Some s4" "socket_inv (own(p := 1)) s4" "sk_refs s4 = (sk_refs ?s3)(p := sk_refs ?s3 p + 1)"
      "sk_tasks s4 = sk_tasks ?s3 @ [p]" "sk_others s4 = sk_others ?s3" "sk_mem s4 = (sk_mem ?s3)(p \<mapsto> ?fm\<lparr>pkt_length := bs_offset (pkt_bitstream ?fm)\<rparr>)"
    by auto
  have s4': "sk_queued s4 = []" "sk_tasks s4 = [p]" "sk_mem s4 p = Some (sent ?fm)" "sk_refs s4 = (sk_refs s0)(p := 2)"
      "sk_deliveries s4 = []" "sk_objects s4 = sk_objects s0" "sk_wire s4 = sk_wire s0" "sk_receivers s4 = (en_receiveBlock env, snd (sk_receivers s0))"
    using s4(3-6) put assms(9,15,16) by (auto simp: sk_others_def sent_def)
  obtain s where s: "socket_flush fresh_node s4 = Some s" "socket_inv (own(p := 1)) s" "sk_queued s = []" "sk_tasks s = []"
      "sk_wire s = sk_wire s0 @ [(dest, ?bytes)]" "sk_refs s = (sk_refs s0)(p := 1)" "sk_mem s = sk_mem s4" "sk_deliveries s = []"
      "sk_receivers s = (en_receiveBlock env, snd (sk_receivers s0))" "sk_objects s = sk_objects s0"
    using flush_one [OF s4(2) s4'(1-3)] s4'(4-8) fm(4) by auto
  have env: "en_receiveBlock env \<noteq> 0" "en_timeoutBlock env \<noteq> 0" "en_source env \<noteq> 0"
    using assms(18) by (simp_all add: stun_env_ok_def)
  let ?calls = "[SourceCreate (en_source env), SourceSetTimer (en_source env) (timeout_ns (sn_rto stun1)) kLEEWAY,
      SourceSetHandler (en_source env) (BlockHandler (en_timeoutBlock env)), SourceResume (en_source env)]"
  let ?stun = "(set_test stun1 test (waiting_test env i p 0))\<lparr>sn_socket := Some s, sn_calls := sn_calls stun1 @ ?calls,
      sn_blocks := en_timeoutBlock env # en_receiveBlock env # sn_blocks stun0\<rparr>"
  have "do { stun \<leftarrow> stun_pack stun1 test f; stun \<leftarrow> stun_start_send env stun test; stun_flush stun } = Some ?stun"
    using assms(1,2,12,20) f(1) same s4(1) s(1) env
    by (auto simp: stun_pack_def stun_packet_def stun_socket_def stun_start_send_def stunTestSend_def stun_set_timeout_def stun_flush_def
        timeout_create_block_def zero_test_def waiting_test_def net_packet_addr_def set_test_def Let_def intro!: StunStruct.equality)
  moreover have "sn_tests ?stun = (sn_tests stun0)(test \<mapsto> waiting_test env i p 0)"
    using assms(21) by (auto simp: fun_eq_iff)
  moreover have "request_in dest ?bytes (sent ?fm)"
    using fm(3,4) f(2) by (simp add: request_in_def sent_def)
  ultimately show ?thesis
    using s s4'(3) assms(3-7,17,22)
    by (intro exI [of _ ?stun] exI [of _ s]) (simp add: stun_waits_def)
qed

text \<open>Completing a test gives its blocks and its request back and asks for the next one.\<close>

lemma stun_complete_step:
  assumes "sn_tests stun test = Some t" "stt_receiveBlock t = r" "stt_timeoutBlock t = b" "stt_packet t = p" "r \<noteq> NULL" "b \<noteq> NULL" "p \<noteq> NULL"
    and "sn_blocks stun = b # r # bs" "sn_socket stun = Some s" "socket_inv (own(p := 1)) s" "own p = 0"
  shows "\<exists>stun' s' t'. stunTestSetComplete stun test = Some stun' \<and> sn_socket stun' = Some s' \<and> socket_inv own s' \<and>
    sk_refs s' = (sk_refs s)(p := sk_refs s p - 1) \<and> sk_tasks s' = sk_tasks s \<and> sk_others s' = sk_others s \<and> sk_mem s' = sk_mem s \<and>
    sn_blocks stun' = bs \<and> sn_tasks stun' = sn_tasks stun @ [StunNextTask test] \<and> stun_same stun stun' \<and> sn_results stun' = sn_results stun \<and>
    sn_tests stun' = (sn_tests stun)(test \<mapsto> t') \<and> stt_isCompleted t'"
proof -
  obtain s' where s': "net_packet_release s p = Some s'" "socket_inv own s'" "sk_refs s' = (sk_refs s)(p := sk_refs s p - 1)"
      "sk_tasks s' = sk_tasks s" "sk_others s' = sk_others s" "sk_mem s' = sk_mem s"
    using socket.release_law [OF assms(10), of p] assms(11) by (auto simp: fun_upd_idem)
  obtain to calls where d: "timeout_destroy (stt_timeout t) = (to, calls)"
    by fastforce
  let ?t = "t\<lparr>stt_timeout := to, stt_isCompleted := True\<rparr>"
  let ?stun = "(set_test stun test ?t)\<lparr>sn_calls := sn_calls stun @ calls, sn_blocks := bs, sn_socket := Some s', sn_tasks := sn_tasks stun @ [StunNextTask test]\<rparr>"
  have "stunTestSetComplete stun test = Some ?stun"
    using assms s'(1) d
    by (auto simp: stunTestSetComplete_def stunTestRelease_def stunTestDestroyTimeout_def block_release_def stun_socket_def
        stunRunNextTest_def stun_dispatch_def set_test_def Let_def intro!: StunStruct.equality)
  then show ?thesis
    using s' by (intro exI [of _ ?stun] exI [of _ s'] exI [of _ ?t]) simp
qed

text \<open>A test that has nothing to give back, since it was decided without a request.\<close>

lemma stun_skip_step:
  assumes "sn_tests stun test = Some zero_test"
  shows "stunTestSetComplete stun test =
    Some (stunRunNextTest (set_test stun test (zero_test\<lparr>stt_isCompleted := True\<rparr>)) test)"
  using assms
  by (auto simp: stunTestSetComplete_def stunTestRelease_def stunTestDestroyTimeout_def timeout_destroy_def zero_test_def
      set_test_def Let_def stunRunNextTest_def stun_dispatch_def intro!: StunStruct.equality)

subsection \<open>Expiry\<close>

lemma stun_waits_fires:
  assumes "stun_waits env own s0 test i dest bytes p n s stun0 stun"
  shows "\<exists>stun1. stun_timer_fires stun test = Some stun1 \<and> sn_tasks stun1 = [StunRetryTask test (test_check test)] \<and>
    sn_tests stun1 = (sn_tests stun0)(test \<mapsto> (waiting_test env i p n)\<lparr>stt_timeout := \<lparr>timerDispatchSource = en_source env, valid = False\<rparr>\<rparr>) \<and>
    sn_socket stun1 = Some s \<and> sn_blocks stun1 = sn_blocks stun \<and> stun_same stun stun1 \<and> sn_results stun1 = sn_results stun"
  using assms by (simp add: stun_waits_def stun_timer_fires_def stun_dispatch_def timeout_fired_def waiting_test_def Let_def)

lemma expiry_retry:
  assumes "stun_waits env own s0 test i dest bytes p n s stun0 stun" "n < sn_maxRetries stun0" "stun_env_ok env"
  shows "\<exists>stun' s'. stun_expiry env stun test = Some stun' \<and> stun_waits env own s0 test i dest bytes p (n + 1) s' stun0 stun' \<and>
    sk_wire s' = sk_wire s @ [(dest, bytes)] \<and> sn_results stun' = sn_results stun"
proof -
  from assms(1) obtain m where w: "sn_socket stun = Some s" "sn_tests stun = (sn_tests stun0)(test \<mapsto> waiting_test env i p n)"
      "sn_tasks stun = []" "sn_blocks stun = en_timeoutBlock env # en_receiveBlock env # sn_blocks stun0" "stun_same stun0 stun"
      "socket_inv (own(p := 1)) s" "own p = 0" "p \<noteq> NULL" "sk_refs s0 p = 0" "p \<in> sk_objects s0" "sk_refs s = (sk_refs s0)(p := 1)"
      "sk_objects s = sk_objects s0" "sk_queued s = []" "sk_tasks s = []" "sk_deliveries s = []"
      "sk_receivers s = (en_receiveBlock env, snd (sk_receivers s0))" "sk_mem s p = Some m" "request_in dest bytes m" "length i = kStunTransactionIdLen"
    unfolding stun_waits_def by blast
  have m: "datagram m = (dest, bytes)" "0 < bs_offset (pkt_bitstream m)" "pkt_length m = bs_offset (pkt_bitstream m)"
    using w(18) by (simp_all add: request_in_def)
  have same: "m\<lparr>pkt_length := bs_offset (pkt_bitstream m)\<rparr> = m"
    using m(3) by simp
  have "sk_refs s p < 2 ^ 32 - 1"
    using w(11) by simp
  from socket.send_law [OF w(6) _ this w(17) m(2)] obtain s1 where s1: "net_socket_send s p = Some s1" "socket_inv (own(p := 1)) s1"
      "sk_refs s1 = (sk_refs s)(p := sk_refs s p + 1)" "sk_tasks s1 = [p]" "sk_others s1 = sk_others s" "sk_mem s1 = sk_mem s"
    using w(14,17) by (auto simp: same fun_upd_idem)
  have "sk_queued s1 = []" "sk_mem s1 p = Some m" "sk_deliveries s1 = []" "sk_objects s1 = sk_objects s0" "sk_wire s1 = sk_wire s"
      "sk_receivers s1 = sk_receivers s" "sk_refs s1 p = 2"
    using s1(3,5,6) w by (simp_all add: sk_others_def)
  with flush_one [OF s1(2) _ s1(4)] obtain s2 where s2: "socket_flush fresh_node s1 = Some s2" "socket_inv (own(p := 1)) s2" "sk_queued s2 = []"
      "sk_tasks s2 = []" "sk_wire s2 = sk_wire s @ [(dest, bytes)]" "sk_refs s2 = (sk_refs s0)(p := 1)" "sk_mem s2 = sk_mem s" "sk_deliveries s2 = []"
      "sk_receivers s2 = sk_receivers s" "sk_objects s2 = sk_objects s0"
    using s1(3,6) w(11) m(1) by auto
  obtain stun1 where f: "stun_timer_fires stun test = Some stun1" "sn_tasks stun1 = [StunRetryTask test (test_check test)]"
      "sn_tests stun1 = (sn_tests stun0)(test \<mapsto> (waiting_test env i p n)\<lparr>stt_timeout := \<lparr>timerDispatchSource = en_source env, valid = False\<rparr>\<rparr>)"
      "sn_socket stun1 = Some s" "sn_blocks stun1 = sn_blocks stun" "stun_same stun stun1" "sn_results stun1 = sn_results stun"
    using stun_waits_fires [OF assms(1)] by blast
  have same1: "stun_same stun0 stun1"
    using stun_same_trans [OF w(5) f(6)] .
  have max: "n < sn_maxRetries stun1" "sn_rto stun1 = sn_rto stun0"
    using stun_same_fields [OF same1] assms(2) by simp_all
  let ?calls = "[SourceCreate (en_source env), SourceSetTimer (en_source env) (timeout_ns (stun_retry_rto (sn_rto stun0) (n + 1))) kLEEWAY,
      SourceSetHandler (en_source env) (BlockHandler (en_timeoutBlock env)), SourceResume (en_source env)]"
  let ?stun = "(set_test stun1 test (waiting_test env i p (n + 1)))\<lparr>sn_socket := Some s2, sn_calls := sn_calls stun1 @ ?calls, sn_tasks := []\<rparr>"
  have "stun_expiry env stun test = Some ?stun"
    using f(1-4) s1(1) s2(1) max assms(3)
    by (auto simp: stun_expiry_def run_stun_task_def stunTestRetryOrFail_def stunTestDestroyTimeout_def timeout_destroy_def stun_set_timeout_def
        timeout_create_block_def stun_socket_def stun_flush_def waiting_test_def set_test_def stun_env_ok_def Let_def intro!: StunStruct.equality)
  then show ?thesis
    using w f(3,5,7) s2 same1
    by (intro exI [of _ ?stun] exI [of _ s2]) (simp add: stun_waits_def)
qed

lemma expiry_fail:
  assumes "stun_waits env own s0 test i dest bytes p n s stun0 stun" "\<not> n < sn_maxRetries stun0" "stun_env_ok env" "socket_idle own s0"
  shows "\<exists>stun' s'. stun_expiry env stun test = Some stun' \<and> stun_over own s0 (en_receiveBlock env) test s' stun0 stun' \<and> sk_wire s' = sk_wire s \<and>
    sn_results stun' = fail_check (test_check test) (sn_results stun)"
proof -
  from assms(1) have w: "sn_socket stun = Some s" "stun_same stun0 stun" "sn_blocks stun = en_timeoutBlock env # en_receiveBlock env # sn_blocks stun0"
      "socket_inv (own(p := 1)) s" "own p = 0" "p \<noteq> NULL" "sk_refs s0 p = 0" "sk_refs s = (sk_refs s0)(p := 1)" "sk_objects s = sk_objects s0"
      "sk_queued s = []" "sk_tasks s = []" "sk_deliveries s = []" "sk_receivers s = (en_receiveBlock env, snd (sk_receivers s0))"
    by (simp_all add: stun_waits_def)
  obtain stun1 where f: "stun_timer_fires stun test = Some stun1" "sn_tasks stun1 = [StunRetryTask test (test_check test)]"
      "sn_tests stun1 = (sn_tests stun0)(test \<mapsto> (waiting_test env i p n)\<lparr>stt_timeout := \<lparr>timerDispatchSource = en_source env, valid = False\<rparr>\<rparr>)"
      "sn_socket stun1 = Some s" "sn_blocks stun1 = sn_blocks stun" "stun_same stun stun1" "sn_results stun1 = sn_results stun"
    using stun_waits_fires [OF assms(1)] by blast
  have same1: "stun_same stun0 stun1"
    using stun_same_trans [OF w(2) f(6)] .
  have max: "\<not> n < sn_maxRetries stun1"
    using stun_same_fields [OF same1] assms(2) by simp
  let ?t = "(waiting_test env i p n)\<lparr>stt_timeout := \<lparr>timerDispatchSource = en_source env, valid = False\<rparr>\<rparr>"
  let ?stun2 = "stun1\<lparr>sn_tasks := [], sn_results := fail_check (test_check test) (sn_results stun)\<rparr>"
  have env: "en_receiveBlock env \<noteq> 0" "en_timeoutBlock env \<noteq> 0"
    using assms(3) by (simp_all add: stun_env_ok_def)
  have "\<exists>stun' s' t'. stunTestSetComplete ?stun2 test = Some stun' \<and> sn_socket stun' = Some s' \<and> socket_inv own s' \<and>
      sk_refs s' = (sk_refs s)(p := sk_refs s p - 1) \<and> sk_tasks s' = sk_tasks s \<and> sk_others s' = sk_others s \<and> sk_mem s' = sk_mem s \<and>
      sn_blocks stun' = sn_blocks stun0 \<and> sn_tasks stun' = sn_tasks ?stun2 @ [StunNextTask test] \<and> stun_same ?stun2 stun' \<and>
      sn_results stun' = sn_results ?stun2 \<and> sn_tests stun' = (sn_tests ?stun2)(test \<mapsto> t') \<and> stt_isCompleted t'"
    by (rule stun_complete_step [of _ _ ?t]) (use f w env in \<open>simp_all add: waiting_test_def\<close>)
  then obtain stun2 s2 t2 where c: "stunTestSetComplete ?stun2 test = Some stun2" "sn_socket stun2 = Some s2" "socket_inv own s2"
      "sk_refs s2 = (sk_refs s)(p := sk_refs s p - 1)" "sk_tasks s2 = sk_tasks s" "sk_others s2 = sk_others s"
      "sn_blocks stun2 = sn_blocks stun0" "sn_tasks stun2 = [StunNextTask test]" "stun_same ?stun2 stun2" "sn_results stun2 = sn_results ?stun2"
      "sn_tests stun2 = (sn_tests stun0)(test \<mapsto> t2)" "stt_isCompleted t2"
    using f(3) by auto
  have refs: "sk_refs s2 = sk_refs s0"
    using c(4) w(7,8) by auto
  have o: "sk_queued s2 = []" "sk_tasks s2 = []" "sk_deliveries s2 = []" "sk_objects s2 = sk_objects s0" "sk_wire s2 = sk_wire s" "sk_receivers s2 = sk_receivers s"
    using c(5,6) w by (simp_all add: sk_others_def)
  obtain s3 where s3: "socket_flush fresh_node s2 = Some s3" "socket_inv own s3" "sk_queued s3 = []" "sk_tasks s3 = []" "sk_wire s3 = sk_wire s"
      "sk_refs s3 = sk_refs s0" "sk_deliveries s3 = []" "sk_receivers s3 = sk_receivers s" "sk_objects s3 = sk_objects s0"
    using flush_none [OF c(3) o(1,2)] refs o by auto
  have upd: "?stun2\<lparr>sn_tests := sn_tests ?stun2\<rparr> = ?stun2"
    by simp
  have "stunTestRetryOrFail env (stun1\<lparr>sn_tasks := []\<rparr>) test (test_check test) = stunTestSetComplete ?stun2 test"
    using f(3,7) max
    by (auto simp: stunTestRetryOrFail_def stunTestDestroyTimeout_def timeout_destroy_def set_test_def waiting_test_def Let_def fun_upd_idem
        intro!: arg_cong [where f = "\<lambda>s. stunTestSetComplete s test"] StunStruct.equality)
  then have "stun_expiry env stun test = Some (stun2\<lparr>sn_socket := Some s3\<rparr>)"
    using f(1,2) c(1,2) s3(1) by (simp add: stun_expiry_def run_stun_task_def stun_flush_def stun_socket_def)
  moreover have "stun_same stun0 stun2"
    using stun_same_trans [OF same1, of stun2] c(9) by (simp add: stun_same_def)
  ultimately show ?thesis
    using c s3 w socket_idle_free [OF assms(4) s3(2)]
    by (intro exI [of _ "stun2\<lparr>sn_socket := Some s3\<rparr>"] exI [of _ s3]) (auto simp: stun_over_def)
qed

lemma expiries_retry:
  assumes "stun_waits env own s0 test i dest bytes p n s stun0 stun" "unat n + k \<le> unat (sn_maxRetries stun0)" "stun_env_ok env"
  shows "\<exists>stun' s'. stun_expiries k env stun test = Some stun' \<and> stun_waits env own s0 test i dest bytes p (n + of_nat k) s' stun0 stun' \<and>
    sk_wire s' = sk_wire s @ replicate k (dest, bytes) \<and> sn_results stun' = sn_results stun"
  using assms(1,2)
proof (induction k arbitrary: n s stun)
  case 0
  then show ?case
    by auto
next
  case (Suc k)
  have lt: "n < sn_maxRetries stun0"
    using Suc.prems(2) by (simp add: word_less_nat_alt)
  obtain stun1 s1 where e: "stun_expiry env stun test = Some stun1" "stun_waits env own s0 test i dest bytes p (n + 1) s1 stun0 stun1"
      "sk_wire s1 = sk_wire s @ [(dest, bytes)]" "sn_results stun1 = sn_results stun"
    using expiry_retry [OF Suc.prems(1) lt assms(3)] by blast
  have "unat (n + 1) = unat n + 1"
    using lt unsigned_less [of "sn_maxRetries stun0", where ?'a = nat] by (simp add: unat_word_ariths(1) word_less_nat_alt)
  then have "unat (n + 1) + k \<le> unat (sn_maxRetries stun0)"
    using Suc.prems(2) by simp
  from Suc.IH [OF e(2) this] e show ?case
    by (auto simp: algebra_simps)
qed

subsection \<open>Datagrams\<close>

text \<open>
  Whatever arrives while a test waits reaches the block that the test has put on the queue, in a packet
  of its own.
\<close>

lemma stun_in_step:
  assumes "stun_waits env own s0 test i dest bytes p n s stun0 stun" "stun_env_ok env" "socket_idle own s0" "0 < length data" "length data \<le> 256"
  shows "\<exists>q s' m. stun_in env stun test addr data = run_stun_receive env (stun\<lparr>sn_socket := Some s'\<rparr>) test q \<and>
    socket_inv ((own(q := 1))(p := 1)) s' \<and> q \<noteq> p \<and> own q = 0 \<and> sk_refs s0 q = 0 \<and> sk_mem s' q = Some m \<and> pkt_wf m \<and>
    bs_offset (pkt_bitstream m) = 0 \<and> bs_at (pkt_bitstream m) data \<and> pkt_addr m = addr \<and> sk_refs s' = (sk_refs s)(q := 1) \<and>
    sk_tasks s' = [] \<and> sk_others s' = sk_others s"
proof -
  from assms(1) have w: "sn_socket stun = Some s" "sn_tests stun = (sn_tests stun0)(test \<mapsto> waiting_test env i p n)" "sn_tasks stun = []"
      "sn_blocks stun = en_timeoutBlock env # en_receiveBlock env # sn_blocks stun0" "socket_inv (own(p := 1)) s" "own p = 0"
      "sk_refs s0 p = 0" "p \<in> sk_objects s0" "sk_refs s = (sk_refs s0)(p := 1)" "sk_objects s = sk_objects s0"
      "sk_tasks s = []" "sk_deliveries s = []" "sk_receivers s = (en_receiveBlock env, snd (sk_receivers s0))"
    by (simp_all add: stun_waits_def)
  have idle: "socket_inv own s0" "2 \<le> sk_free s0"
    using assms(3) by (simp_all add: socket_idle_def)
  have "{a \<in> sk_objects s0. sk_refs s0 a = 0} = insert p {a \<in> sk_objects s. sk_refs s a = 0}"
    using w(7-10) by auto
  then have "sk_free s0 = Suc (sk_free s)"
    using finite_objects [OF idle(1)] w(9,10) by (simp add: sk_free_def)
  then have free: "0 < sk_free s"
    using idle(2) by simp
  have block: "en_receiveBlock env \<noteq> NULL"
    using assms(2) by (simp add: stun_env_ok_def)
  obtain f ctx where r: "sk_receivers s = (en_receiveBlock env, f, ctx)"
    using w(13) by (cases "snd (sk_receivers s0)") simp
  from socket_receives [OF w(5) free w(12) r _ assms(4,5), of addr] block
  obtain q s2 s' m where q: "read_handler \<lparr>recv_bytes = int (length data), recv_data = data, recv_addr = addr\<rparr> s = Some s2"
      "sk_deliveries s2 = [delivery_to (en_receiveBlock env) q]"
      "run_delivery (delivery_to (en_receiveBlock env) q) s2 = Some ((en_receiveBlock env, NULL, q), s')"
      "socket_inv ((own(p := 1))(q := 1)) s'" "(own(p := 1)) q = 0" "sk_refs s q = 0"
      "sk_mem s' q = Some m" "pkt_wf m" "bs_offset (pkt_bitstream m) = 0" "bs_at (pkt_bitstream m) data" "pkt_addr m = addr"
      "sk_tasks s' = sk_tasks s" "sk_refs s' = (sk_refs s)(q := 1)" "sk_others s' = sk_others s"
    by auto
  have qp: "q \<noteq> p"
    using q(5) by auto
  have same: "stun\<lparr>sn_socket := Some s', sn_tasks := []\<rparr> = stun\<lparr>sn_socket := Some s'\<rparr>"
    using w(3) by (auto intro!: StunStruct.equality)
  have "stun_in env stun test addr data = run_stun_receive env (stun\<lparr>sn_socket := Some s', sn_tasks := []\<rparr>) test q"
    using w(1-4) q(1-3)
    by (simp add: stun_in_def waiting_test_def stun_receive_block_def stun_dispatch_def run_stun_task_def)
  then have "stun_in env stun test addr data = run_stun_receive env (stun\<lparr>sn_socket := Some s'\<rparr>) test q"
    unfolding same .
  moreover have "socket_inv ((own(q := 1))(p := 1)) s'"
    using q(4) fun_upd_twist [OF qp, of own 1 1] by simp
  ultimately show ?thesis
    using q qp w(9,11) by (intro exI [of _ q] exI [of _ s'] exI [of _ m]) simp
qed

lemma packet_unpacked:
  assumes "socket_inv own' s" "0 < own' q" "sk_mem s q = Some m" "pkt_wf m" "b = bs_adv (pkt_bitstream m) k" "bs_offset b \<le> 256"
  shows "socket_inv own' (net_packet_store s q (m\<lparr>pkt_bitstream := b\<rparr>)) \<and>
    sk_refs (net_packet_store s q (m\<lparr>pkt_bitstream := b\<rparr>)) = sk_refs s \<and> sk_tasks (net_packet_store s q (m\<lparr>pkt_bitstream := b\<rparr>)) = sk_tasks s \<and>
    sk_others (net_packet_store s q (m\<lparr>pkt_bitstream := b\<rparr>)) = sk_others s"
  using socket.put_law [OF assms(1-3), of "m\<lparr>pkt_bitstream := b\<rparr>"] assms(4-6) by (simp add: pkt_wf_def pkt_block_def)

text \<open>What a valid response unpacks to.\<close>

lemma stun_response_unpacked:
  assumes "pkt_wf m" "bs_offset (pkt_bitstream m) = 0" "bs_at (pkt_bitstream m) (stun_response e j as)" "\<forall>a \<in> set as. stun_attr_ok a" "as \<noteq> []"
    and "length (enc_stun_body e as) \<le> 236" "length j = kStunTransactionIdLen" "length i0 = kStunTransactionIdLen"
  shows "\<exists>b. stunProtocolUnpackBindingResponse e (pkt_bitstream m) i0 zero_binding_response = Some (kStunValid, j, answer_response e as, b) \<and>
    b = bs_adv (pkt_bitstream m) (20 + length (enc_stun_body e as)) \<and> bs_offset b \<le> 256"
  using binding_response_at [OF pkt_wf_bs_wf [OF assms(1)] assms(3) [unfolded stun_response_def] assms(4,5)] assms
  by (simp add: answer_response_def bs_adv_def)

lemma answered:
  assumes "stun_waits env own s0 test i dest bytes p n s stun0 stun" "stun_env_ok env" "socket_idle own s0"
    and "\<forall>a \<in> set as. stun_attr_ok a" "as \<noteq> []" "length (enc_stun_body (en_endian env) as) \<le> 236"
  shows "\<exists>stun' s'. stun_in env stun test addr (stun_response (en_endian env) i as) = Some stun' \<and> stun_over own s0 (en_receiveBlock env) test s' stun0 stun' \<and>
    sk_wire s' = sk_wire s \<and> sn_results stun' =
      test_result test (en_endian env) (sn_primaryServerAddr stun0) (answer_response (en_endian env) as) addr (sn_results stun)"
proof -
  let ?e = "en_endian env" and ?data = "stun_response (en_endian env) i as"
  from assms(1) have w: "sn_tests stun = (sn_tests stun0)(test \<mapsto> waiting_test env i p n)" "stun_same stun0 stun" "sn_tasks stun = []"
      "sn_blocks stun = en_timeoutBlock env # en_receiveBlock env # sn_blocks stun0" "own p = 0" "p \<noteq> NULL"
      "sk_refs s0 p = 0" "sk_refs s = (sk_refs s0)(p := 1)" "sk_objects s = sk_objects s0" "sk_queued s = []" "sk_deliveries s = []"
      "sk_receivers s = (en_receiveBlock env, snd (sk_receivers s0))" "length i = kStunTransactionIdLen"
    by (simp_all add: stun_waits_def)
  have len: "0 < length ?data" "length ?data \<le> 256"
    using assms(6) w(13) by (simp_all add: stun_response_def)
  obtain q s1 m where q: "stun_in env stun test addr ?data = run_stun_receive env (stun\<lparr>sn_socket := Some s1\<rparr>) test q"
      "socket_inv ((own(q := 1))(p := 1)) s1" "q \<noteq> p" "own q = 0" "sk_refs s0 q = 0" "sk_mem s1 q = Some m" "pkt_wf m"
      "bs_offset (pkt_bitstream m) = 0" "bs_at (pkt_bitstream m) ?data" "pkt_addr m = addr" "sk_refs s1 = (sk_refs s)(q := 1)"
      "sk_tasks s1 = []" "sk_others s1 = sk_others s"
    using stun_in_step [OF assms(1-3) len, of addr] by blast
  have env: "en_receiveBlock env \<noteq> 0" "en_timeoutBlock env \<noteq> 0" "length (en_id env) = kStunTransactionIdLen"
    using assms(2) by (simp_all add: stun_env_ok_def)
  obtain b where b: "stunProtocolUnpackBindingResponse ?e (pkt_bitstream m) (en_id env) zero_binding_response = Some (kStunValid, i, answer_response ?e as, b)"
      "b = bs_adv (pkt_bitstream m) (20 + length (enc_stun_body ?e as))" "bs_offset b \<le> 256"
    using stun_response_unpacked [OF q(7-9) assms(4-6) w(13) env(3)] by blast
  let ?s2 = "net_packet_store s1 q (m\<lparr>pkt_bitstream := b\<rparr>)"
  have s2: "socket_inv ((own(q := 1))(p := 1)) ?s2" "sk_refs ?s2 = sk_refs s1" "sk_tasks ?s2 = sk_tasks s1" "sk_others ?s2 = sk_others s1"
    using packet_unpacked [OF q(2) _ q(6,7) b(2,3)] q(3) by simp_all
  let ?to = "\<lparr>timerDispatchSource = en_source env, valid = False\<rparr>"
  let ?t = "(waiting_test env i p n)\<lparr>stt_timeout := ?to\<rparr>"
  let ?res = "test_result test ?e (sn_primaryServerAddr stun0) (answer_response ?e as) addr (sn_results stun)"
  let ?stun2 = "(set_test (stun\<lparr>sn_socket := Some ?s2\<rparr>) test ?t)\<lparr>
      sn_calls := sn_calls stun @ [SourceCancel (en_source env), SourceRelease (en_source env)], sn_results := ?res\<rparr>"
  have "\<exists>stun' s' t'. stunTestSetComplete ?stun2 test = Some stun' \<and> sn_socket stun' = Some s' \<and> socket_inv (own(q := 1)) s' \<and>
      sk_refs s' = (sk_refs ?s2)(p := sk_refs ?s2 p - 1) \<and> sk_tasks s' = sk_tasks ?s2 \<and> sk_others s' = sk_others ?s2 \<and> sk_mem s' = sk_mem ?s2 \<and>
      sn_blocks stun' = sn_blocks stun0 \<and> sn_tasks stun' = sn_tasks ?stun2 @ [StunNextTask test] \<and> stun_same ?stun2 stun' \<and>
      sn_results stun' = sn_results ?stun2 \<and> sn_tests stun' = (sn_tests ?stun2)(test \<mapsto> t') \<and> stt_isCompleted t'"
    by (rule stun_complete_step [of _ _ ?t]) (use w env s2 q(3) in \<open>simp_all add: waiting_test_def\<close>)
  then obtain stun3 s3 t3 where c: "stunTestSetComplete ?stun2 test = Some stun3" "sn_socket stun3 = Some s3" "socket_inv (own(q := 1)) s3"
      "sk_refs s3 = (sk_refs ?s2)(p := sk_refs ?s2 p - 1)" "sk_tasks s3 = sk_tasks ?s2" "sk_others s3 = sk_others ?s2"
      "sn_blocks stun3 = sn_blocks stun0" "sn_tasks stun3 = sn_tasks ?stun2 @ [StunNextTask test]" "stun_same ?stun2 stun3" "sn_results stun3 = sn_results ?stun2"
      "sn_tests stun3 = (sn_tests ?stun2)(test \<mapsto> t3)" "stt_isCompleted t3"
    by blast
  obtain s4 where s4: "net_packet_release s3 q = Some s4" "socket_inv own s4" "sk_refs s4 = (sk_refs s3)(q := sk_refs s3 q - 1)"
      "sk_tasks s4 = sk_tasks s3" "sk_others s4 = sk_others s3"
    using socket.release_law [OF c(3), of q] q(4) by (auto simp: fun_upd_idem)
  have refs: "sk_refs s4 = sk_refs s0"
    using s4(3) c(4) s2(2) q(3,5,11) w(7,8) by auto
  have o: "sk_queued s4 = []" "sk_tasks s4 = []" "sk_deliveries s4 = []" "sk_objects s4 = sk_objects s0" "sk_wire s4 = sk_wire s" "sk_receivers s4 = sk_receivers s"
    using s4(4,5) c(5,6) s2(3,4) q(12,13) w by (simp_all add: sk_others_def)
  have prim: "sn_primaryServerAddr stun = sn_primaryServerAddr stun0"
    using stun_same_fields(5) [OF w(2)] .
  have "stun_in env stun test addr ?data = Some (stun3\<lparr>sn_socket := Some s4\<rparr>)"
    using w(1) q(6,10) b(1) c(1,2) s4(1) prim
    by (simp add: q(1) run_stun_receive_def stunTestDestroyTimeout_def timeout_destroy_def waiting_test_def set_test_def stun_socket_def
        stunIsEqualTransactionId_def Let_def)
  moreover have "stun_same stun0 stun3"
    using stun_same_trans [OF w(2), of stun3] c(9) by (simp add: stun_same_def set_test_def)
  ultimately show ?thesis
    using c s4 w o refs socket_idle_free [OF assms(3) s4(2)]
    by (intro exI [of _ "stun3\<lparr>sn_socket := Some s4\<rparr>"] exI [of _ s4]) (auto simp: stun_over_def)
qed

subsection \<open>From start to end\<close>

text \<open>Answers a test can get: in time, from a server that follows the protocol, in a datagram the socket can take.\<close>

definition answer_ok :: "endian \<Rightarrow> u32 \<Rightarrow> stun_answer \<Rightarrow> bool" where
  "answer_ok e retries answer \<longleftrightarrow>
     (case answer of
        Silent \<Rightarrow> True
      | Answer n _ as \<Rightarrow> n \<le> unat retries \<and> list_all stun_attr_ok as \<and> as \<noteq> [] \<and> length (enc_stun_body e as) \<le> 236)"

text \<open>How often the request is sent again.\<close>

definition answer_retries :: "u32 \<Rightarrow> stun_answer \<Rightarrow> nat" where
  "answer_retries retries answer = (case answer of Silent \<Rightarrow> unat retries | Answer n _ _ \<Rightarrow> n)"

lemma stun_expiries_last:
  "stun_expiries (Suc k) env stun test = do { stun \<leftarrow> stun_expiries k env stun test; stun_expiry env stun test }"
proof (induction k arbitrary: stun)
  case 0
  then show ?case
    by (cases "stun_expiry env stun test") simp_all
next
  case (Suc k)
  show ?case
    using Suc.IH by (subst stun_expiries.simps(2), subst (2) stun_expiries.simps(2)) (cases "stun_expiry env stun test"; simp)
qed

lemma stun_phase_ends:
  assumes "stun_waits env own s0 test i dest bytes p 0 s stun0 stun" "stun_env_ok env" "socket_idle own s0" "sn_maxRetries stun0 = 2"
    and "answer_ok (en_endian env) 2 answer"
  shows "\<exists>stun' s'. stun_phase env stun test answer = Some stun' \<and> stun_over own s0 (en_receiveBlock env) test s' stun0 stun' \<and>
    sk_wire s' = sk_wire s @ replicate (answer_retries 2 answer) (dest, bytes) \<and>
    sn_results stun' = spec_answer env (sn_primaryServerAddr stun0) test answer (sn_results stun)"
proof -
  have t: "sn_tests stun test = Some (waiting_test env i p 0)"
    using assms(1) by (simp add: stun_waits_def)
  have retries: "\<exists>stun' s'. stun_expiries k env stun test = Some stun' \<and> stun_waits env own s0 test i dest bytes p (of_nat k) s' stun0 stun' \<and>
      sk_wire s' = sk_wire s @ replicate k (dest, bytes) \<and> sn_results stun' = sn_results stun" if "k \<le> 2" for k
    using expiries_retry [OF assms(1) _ assms(2), of k] that assms(4) by simp
  show ?thesis
  proof (cases answer)
    case Silent
    obtain stun1 s1 where r: "stun_expiries 2 env stun test = Some stun1" "stun_waits env own s0 test i dest bytes p 2 s1 stun0 stun1"
        "sk_wire s1 = sk_wire s @ replicate 2 (dest, bytes)" "sn_results stun1 = sn_results stun"
      using retries [of 2] by auto
    have "stun_phase env stun test answer = stun_expiry env stun1 test"
      using t r(1) stun_expiries_last [of 2 env stun test] by (simp add: stun_phase_def Silent waiting_test_def numeral_3_eq_3 numeral_2_eq_2)
    then show ?thesis
      using expiry_fail [OF r(2) _ assms(2,3)] r(3,4) assms(4)
      by (auto simp: Silent answer_retries_def spec_answer_def)
  next
    case (Answer n addr as)
    with assms(5) have ok: "n \<le> 2" "\<forall>a \<in> set as. stun_attr_ok a" "as \<noteq> []" "length (enc_stun_body (en_endian env) as) \<le> 236"
      by (simp_all add: answer_ok_def list_all_iff)
    obtain stun1 s1 where r: "stun_expiries n env stun test = Some stun1" "stun_waits env own s0 test i dest bytes p (of_nat n) s1 stun0 stun1"
        "sk_wire s1 = sk_wire s @ replicate n (dest, bytes)" "sn_results stun1 = sn_results stun"
      using retries [OF ok(1)] by auto
    have "stun_phase env stun test answer = stun_in env stun1 test addr (stun_response (en_endian env) i as)"
      using t r(1) by (simp add: stun_phase_def Answer waiting_test_def)
    then show ?thesis
      using answered [OF r(2) assms(2,3) ok(2-4), of addr] r(3,4) by (auto simp: Answer answer_retries_def spec_answer_def)
  qed
qed

text \<open>
  The start of a test that sends a request, and then its end. \<open>g\<close> is what the start does to the
  results before the request is packed.
\<close>

definition stun_launch ::
    "stun_env \<Rightarrow> StunStruct \<Rightarrow> stun_test \<Rightarrow> net_addr_t \<Rightarrow> (net_socket_s \<Rightarrow> StunResults \<Rightarrow> StunResults) \<Rightarrow>
     (bitstream_t \<Rightarrow> StunTransactionId \<Rightarrow> bitstream_t option) \<Rightarrow> StunStruct option" where
  "stun_launch env stun test dest g f = do {
     stun \<leftarrow> stunTestSetup env (set_test stun test zero_test) test dest;
     s \<leftarrow> sn_socket stun;
     let stun = stun\<lparr>sn_results := g s (sn_results stun)\<rparr>;
     stun \<leftarrow> stun_pack stun test f;
     stun_start_send env stun test
   }"

lemma stun_start_sends:
  assumes "sn_socket stun = Some s" "socket_idle own s" "sn_tasks stun = []" "stun_env_ok env" "packs_request f bytes"
    and "\<forall>s'. sk_sockaddr s' = sk_sockaddr s \<longrightarrow> g s' = g s"
  shows "\<exists>stun' s' i p. do { stun \<leftarrow> stun_launch env stun test dest g f; stun_flush stun } = Some stun' \<and>
    stun_waits env own s test i dest (bytes i) p 0 s' stun stun' \<and> sk_wire s' = sk_wire s @ [(dest, bytes i)] \<and>
    sn_results stun' = g s (sn_results stun)"
proof -
  obtain p i s1 m where u: "stunTestSetup env (set_test stun test zero_test) test dest =
      Some (set_test (stun\<lparr>sn_socket := Some s1\<rparr>) test (zero_test\<lparr>stt_packet := p, stt_transactionId := i\<rparr>))"
      "length i = kStunTransactionIdLen" "p \<noteq> NULL" "own p = 0" "sk_refs s p = 0" "p \<in> sk_objects s"
      "socket_inv (own(p := 1)) s1" "sk_refs s1 = (sk_refs s)(p := 1)" "sk_tasks s1 = sk_tasks s" "sk_others s1 = sk_others s"
      "sk_mem s1 p = Some (net_packet_addr m dest)" "pkt_wf m" "bs_offset (pkt_bitstream m) = 0" "sk_sockaddr s1 = sk_sockaddr s"
    using stun_setup_step [OF assms(2,1,4), of test dest] by auto
  have idle: "sk_queued s = []" "sk_tasks s = []" "sk_deliveries s = []"
    using assms(2) by (simp_all add: socket_idle_def)
  let ?t = "zero_test\<lparr>stt_packet := p, stt_transactionId := i\<rparr>"
  let ?stun1 = "(set_test (stun\<lparr>sn_socket := Some s1\<rparr>) test ?t)\<lparr>sn_results := g s1 (sn_results stun)\<rparr>"
  have "\<exists>stun' s'. do { stun \<leftarrow> stun_pack ?stun1 test f; stun \<leftarrow> stun_start_send env stun test; stun_flush stun } = Some stun' \<and>
      stun_waits env own s test i dest (bytes i) p 0 s' stun stun' \<and> sk_wire s' = sk_wire s @ [(dest, bytes i)] \<and>
      sn_results stun' = sn_results ?stun1"
    by (rule stun_send_step [OF _ _ u(2-8) _ u(10-13) idle(1,3)]) (use u(9) idle(2) assms(3-5) in simp_all)
  moreover have "g s1 = g s"
    using u(14) assms(6) by blast
  ultimately show ?thesis
    using u(1) by (auto simp: stun_launch_def Let_def)
qed

lemma stun_launch_same:
  "stun_launch env stun test dest (\<lambda>s r. r) f = do {
     stun \<leftarrow> stunTestSetup env (set_test stun test zero_test) test dest;
     stun \<leftarrow> stun_pack stun test f;
     stun_start_send env stun test
   }"
proof (cases "stunTestSetup env (set_test stun test zero_test) test dest")
  case (Some stun')
  then obtain s where "sn_socket stun' = Some s"
    by (auto simp: stunTestSetup_def Let_def bind_eq_Some_conv set_test_def split: if_splits)
  with Some show ?thesis
    by (simp add: stun_launch_def)
qed (simp add: stun_launch_def)

text \<open>Where each test sends its request, and the request.\<close>

definition stun_target :: "stun_test \<Rightarrow> net_addr_t \<Rightarrow> StunResults \<Rightarrow> net_addr_t" where
  "stun_target test primary r =
     (case test of BehaviorTest1 \<Rightarrow> otherServerPrimaryPortAddr r | BehaviorTest2 \<Rightarrow> otherServerAddr r | _ \<Rightarrow> primary)"

definition stun_request :: "stun_test \<Rightarrow> endian \<Rightarrow> StunTransactionId \<Rightarrow> u8 list" where
  "stun_request test e i =
     (case test of
        FilteringTest1 \<Rightarrow> enc_change_request e True True i
      | FilteringTest2 \<Rightarrow> enc_change_request e False True i
      | _ \<Rightarrow> enc_stun_header e StunMsgTypeBinding StunMsgClassRequest i 0)"

definition stun_packer :: "stun_test \<Rightarrow> endian \<Rightarrow> bitstream_t \<Rightarrow> StunTransactionId \<Rightarrow> bitstream_t option" where
  "stun_packer test e =
     (case test of
        FilteringTest1 \<Rightarrow> \<lambda>b i. stunProtocolPackBindingChangeRequest e b i True True
      | FilteringTest2 \<Rightarrow> \<lambda>b i. stunProtocolPackBindingChangeRequest e b i False True
      | _ \<Rightarrow> stunProtocolPackBindingRequest e)"

lemma packs_stun_request: "packs_request (stun_packer test e) (stun_request test e)"
  unfolding stun_packer_def stun_request_def
  using packs_binding [of e] packs_change [of e]
  by (cases test) (simp_all add: eta_contract_eq)

text \<open>The start of a test that follows another, in the words of the specification.\<close>

fun stun_next :: "stun_test \<Rightarrow> stun_test" where
  "stun_next BindingTest1 = BehaviorTest1"
| "stun_next BehaviorTest1 = BehaviorTest2"
| "stun_next BehaviorTest2 = FilteringTest1"
| "stun_next _ = FilteringTest2"

lemma set_test_results [simp]: "(set_test stun test t)\<lparr>sn_results := sn_results stun\<rparr> = set_test stun test t"
  by (auto simp: set_test_def intro!: StunStruct.equality)

lemma run_stun_next_spec:
  assumes "prev \<noteq> FilteringTest2"
  shows "run_stun_next env stun prev =
    (if spec_skips (stun_next prev) (sn_results stun)
     then stunTestSetComplete ((set_test stun (stun_next prev) zero_test)\<lparr>sn_results := spec_skipped (stun_next prev) (sn_results stun)\<rparr>) (stun_next prev)
     else stun_launch env stun (stun_next prev) (stun_target (stun_next prev) (sn_primaryServerAddr stun) (sn_results stun)) (\<lambda>s r. r)
       (stun_packer (stun_next prev) (en_endian env)))"
proof (cases prev)
  case BindingTest1
  then show ?thesis
    by (simp add: run_stun_next_def stunTestStartBehavior1_def stun_launch_same spec_skips_def spec_skipped_def stun_target_def stun_packer_def Let_def)
next
  case BehaviorTest1
  then show ?thesis
    by (simp add: run_stun_next_def stunTestStartBehavior2_def stun_launch_same spec_skips_def spec_skipped_def stun_target_def stun_packer_def Let_def)
next
  case BehaviorTest2
  then show ?thesis
    by (simp add: run_stun_next_def stunTestStartFiltering1_def stun_launch_same spec_skips_def spec_skipped_def stun_target_def stun_packer_def Let_def)
next
  case FilteringTest1
  then show ?thesis
    by (simp add: run_stun_next_def stunTestStartFiltering2_def stun_launch_same spec_skips_def spec_skipped_def stun_target_def stun_packer_def Let_def)
qed (use assms in simp)

lemma stun_same_left [simp]: "stun_same (stun\<lparr>sn_tasks := tk\<rparr>) stun' = stun_same stun stun'"
  by (simp add: stun_same_def)

lemma stun_over_tasks [simp]: "stun_over own s rb test s' (stun\<lparr>sn_tasks := tk\<rparr>) stun' = stun_over own s rb test s' stun stun'"
  by (simp add: stun_over_def)

text \<open>A test decided without a request.\<close>

lemma stun_skipped:
  assumes "sn_socket stun = Some s" "socket_idle own s" "sn_tasks stun = []"
  shows "\<exists>stun' s'. do {
      stun \<leftarrow> stunTestSetComplete ((set_test stun test zero_test)\<lparr>sn_results := r\<rparr>) test;
      stun \<leftarrow> stun_flush stun;
      stun_phase env stun test answer
    } = Some stun' \<and> stun_over own s (fst (sk_receivers s)) test s' stun stun' \<and> sk_wire s' = sk_wire s \<and> sn_results stun' = r"
proof -
  have idle: "socket_inv own s" "sk_queued s = []" "sk_tasks s = []" "sk_deliveries s = []"
    using assms(2) by (simp_all add: socket_idle_def)
  obtain s' where s': "socket_flush fresh_node s = Some s'" "socket_inv own s'" "sk_queued s' = []" "sk_tasks s' = []" "sk_wire s' = sk_wire s"
      "sk_refs s' = sk_refs s" "sk_deliveries s' = []" "sk_receivers s' = sk_receivers s" "sk_objects s' = sk_objects s"
    using flush_none [OF idle(1-3)] idle(4) by auto
  let ?stun1 = "(set_test stun test zero_test)\<lparr>sn_results := r\<rparr>"
  let ?stun = "(stunRunNextTest (set_test ?stun1 test (zero_test\<lparr>stt_isCompleted := True\<rparr>)) test)\<lparr>sn_socket := Some s'\<rparr>"
  have "stunTestSetComplete ?stun1 test = Some (stunRunNextTest (set_test ?stun1 test (zero_test\<lparr>stt_isCompleted := True\<rparr>)) test)"
    by (intro stun_skip_step) simp
  then have "do {
      stun \<leftarrow> stunTestSetComplete ?stun1 test;
      stun \<leftarrow> stun_flush stun;
      stun_phase env stun test answer
    } = Some ?stun"
    using assms(1) s'(1) by (simp add: stun_flush_def stun_socket_def stunRunNextTest_def stun_dispatch_def stun_phase_def)
  then show ?thesis
    using assms(3) s' socket_idle_free [OF assms(2) s'(2)]
    by (intro exI [of _ ?stun] exI [of _ s']) (auto simp: stun_over_def stunRunNextTest_def stun_dispatch_def)
qed

lemma stun_launched:
  assumes "sn_socket stun = Some s" "socket_idle own s" "sn_tasks stun = []" "stun_env_ok env" "packs_request f bytes"
    and "\<forall>s'. sk_sockaddr s' = sk_sockaddr s \<longrightarrow> g s' = g s" "sn_maxRetries stun = 2" "answer_ok (en_endian env) 2 answer"
  shows "\<exists>stun' s' i. do {
      stun \<leftarrow> stun_launch env stun test dest g f;
      stun \<leftarrow> stun_flush stun;
      stun_phase env stun test answer
    } = Some stun' \<and> stun_over own s (en_receiveBlock env) test s' stun stun' \<and> length i = kStunTransactionIdLen \<and>
    sk_wire s' = sk_wire s @ replicate (Suc (answer_retries 2 answer)) (dest, bytes i) \<and>
    sn_results stun' = spec_answer env (sn_primaryServerAddr stun) test answer (g s (sn_results stun))"
proof -
  obtain stun1 s1 i p where b: "do { stun \<leftarrow> stun_launch env stun test dest g f; stun_flush stun } = Some stun1"
      "stun_waits env own s test i dest (bytes i) p 0 s1 stun stun1" "sk_wire s1 = sk_wire s @ [(dest, bytes i)]"
      "sn_results stun1 = g s (sn_results stun)"
    using stun_start_sends [OF assms(1-6), of test dest] by blast
  have "do { stun \<leftarrow> stun_launch env stun test dest g f; stun \<leftarrow> stun_flush stun; stun_phase env stun test answer } =
      stun_phase env stun1 test answer"
    using b(1) by (auto simp: bind_eq_Some_conv)
  moreover have "length i = kStunTransactionIdLen"
    using b(2) by (simp add: stun_waits_def)
  ultimately show ?thesis
    using stun_phase_ends [OF b(2) assms(4,2,7,8)] b(3,4) by auto
qed

text \<open>The datagrams of a test, and those of a sequence of tests with the given ids.\<close>

definition spec_requests ::
    "(stun_test \<Rightarrow> stun_env) \<Rightarrow> (stun_test \<Rightarrow> stun_answer) \<Rightarrow> net_addr_t \<Rightarrow> StunResults \<Rightarrow> stun_test \<Rightarrow> StunTransactionId \<Rightarrow>
     (net_addr_t \<times> u8 list) list" where
  "spec_requests env answers primary r test i =
     (if spec_skips test r then []
      else replicate (Suc (answer_retries kStunDefaultRetries (answers test)))
        (stun_target test primary r, stun_request test (en_endian (env test)) i))"

fun spec_wire ::
    "(stun_test \<Rightarrow> stun_env) \<Rightarrow> (stun_test \<Rightarrow> stun_answer) \<Rightarrow> net_addr_t \<Rightarrow> StunResults \<Rightarrow> (stun_test \<times> StunTransactionId) list \<Rightarrow>
     (net_addr_t \<times> u8 list) list" where
  "spec_wire env answers primary r [] = []"
| "spec_wire env answers primary r ((test, i) # tests) =
     spec_requests env answers primary r test i @ spec_wire env answers primary (spec_step env answers primary r test) tests"

lemma stun_step_next:
  assumes "sn_socket stun = Some s" "socket_idle own s" "sn_tasks stun = [StunNextTask prev]" "prev \<noteq> FilteringTest2" "test = stun_next prev"
    and "stun_env_ok (env test)" "sn_maxRetries stun = 2" "answer_ok (en_endian (env test)) 2 (answers test)"
  shows "\<exists>stun' s' i. stun_step env answers stun test = Some stun' \<and>
    stun_over own s (if spec_skips test (sn_results stun) then fst (sk_receivers s) else en_receiveBlock (env test)) test s' stun stun' \<and>
    length i = kStunTransactionIdLen \<and> sk_wire s' = sk_wire s @ spec_requests env answers (sn_primaryServerAddr stun) (sn_results stun) test i \<and>
    sn_results stun' = spec_step env answers (sn_primaryServerAddr stun) (sn_results stun) test"
proof -
  let ?stun = "stun\<lparr>sn_tasks := []\<rparr>" and ?r = "sn_results stun"
  have step: "stun_step env answers stun test = do {
      stun \<leftarrow> run_stun_next (env test) ?stun prev;
      stun \<leftarrow> stun_flush stun;
      stun_phase (env test) stun test (answers test)
    }"
    using assms(3) by (simp add: stun_step_def run_stun_task_def)
  show ?thesis
  proof (cases "spec_skips test ?r")
    case True
    with assms(4,5) have "run_stun_next (env test) ?stun prev =
        stunTestSetComplete ((set_test ?stun test zero_test)\<lparr>sn_results := spec_skipped test ?r\<rparr>) test"
      by (simp add: run_stun_next_spec)
    with stun_skipped [of ?stun s own "spec_skipped test ?r" test "env test" "answers test"] assms(1,2) True step
    obtain stun' s' where "stun_step env answers stun test = Some stun'" "stun_over own s (fst (sk_receivers s)) test s' stun stun'"
        "sk_wire s' = sk_wire s" "sn_results stun' = spec_skipped test ?r"
      by auto
    then show ?thesis
      using True
      by (intro exI [of _ stun'] exI [of _ s'] exI [of _ "replicate kStunTransactionIdLen 0"]) (simp add: spec_requests_def spec_step_def)
  next
    case False
    with assms(4,5) have "run_stun_next (env test) ?stun prev =
        stun_launch (env test) ?stun test (stun_target test (sn_primaryServerAddr stun) ?r) (\<lambda>s r. r) (stun_packer test (en_endian (env test)))"
      by (simp add: run_stun_next_spec)
    with stun_launched [of ?stun s own "env test" "stun_packer test (en_endian (env test))" "stun_request test (en_endian (env test))" "\<lambda>s r. r"
        "answers test" test "stun_target test (sn_primaryServerAddr stun) ?r", OF _ assms(2) _ assms(6) packs_stun_request _ _ assms(8)] assms(1,7) step
    obtain stun' s' i where "stun_step env answers stun test = Some stun'" "stun_over own s (en_receiveBlock (env test)) test s' stun stun'"
        "length i = kStunTransactionIdLen" "sk_wire s' = sk_wire s @ replicate (Suc (answer_retries 2 (answers test)))
          (stun_target test (sn_primaryServerAddr stun) ?r, stun_request test (en_endian (env test)) i)"
        "sn_results stun' = spec_answer (env test) (sn_primaryServerAddr stun) test (answers test) ?r"
      by auto
    then show ?thesis
      using False
      by (intro exI [of _ stun'] exI [of _ s'] exI [of _ i]) (simp add: spec_requests_def spec_step_def)
  qed
qed

section \<open>Whole runs\<close>

text \<open>The first test, which the resolution of the name of the server comes before.\<close>

definition resolved_stun :: "StunStruct \<Rightarrow> net_socket_s \<Rightarrow> net_addr_t \<Rightarrow> StunStruct" where
  "resolved_stun stun s primary = stun\<lparr>sn_primaryServerAddr := primary, sn_info := net_socket_copy_info s\<rparr>"

lemma stun_step_first:
  assumes "sn_socket stun = Some s" "socket_idle own s" "sn_tasks stun = []" "stun_env_ok (env BindingTest1)" "sn_maxRetries stun = 2"
    and "answer_ok (en_endian (env BindingTest1)) 2 (answers BindingTest1)"
    and "net_addr_resolve (en_endian (env BindingTest1)) (en_getaddrinfo (env BindingTest1)) (en_getnameinfo (env BindingTest1))
      (sn_primaryServerAddr stun) (sn_primaryServerHostname stun) kStunServerDefaultPort = (NetNoError, primary)"
    and "r = (sn_results stun)\<lparr>localAddr := net_socket_local_addr (en_ifaddrs (env BindingTest1)) s (localAddr (sn_results stun))\<rparr>"
  shows "\<exists>stun' s' i. stun_step env answers (stunResolve stun) BindingTest1 = Some stun' \<and>
    stun_over own s (en_receiveBlock (env BindingTest1)) BindingTest1 s' (resolved_stun stun s primary) stun' \<and> length i = kStunTransactionIdLen \<and>
    sk_wire s' = sk_wire s @ spec_requests env answers primary r BindingTest1 i \<and>
    sn_results stun' = spec_step env answers primary r BindingTest1"
proof -
  let ?env = "env BindingTest1" and ?stun = "(resolved_stun stun s primary)\<lparr>sn_tasks := []\<rparr>"
  let ?g = "\<lambda>s r. r\<lparr>localAddr := net_socket_local_addr (en_ifaddrs ?env) s (localAddr r)\<rparr>"
  have tasks: "stun\<lparr>sn_tasks := [], sn_primaryServerAddr := primary, sn_info := net_socket_copy_info s\<rparr> = ?stun"
    by (simp add: resolved_stun_def)
  have "stun_launch ?env ?stun BindingTest1 primary ?g (stunProtocolPackBindingRequest (en_endian ?env)) = stunTestStartBasicBinding ?env ?stun"
    by (simp add: stun_launch_def stunTestStartBasicBinding_def resolved_stun_def Let_def)
  then have step: "stun_step env answers (stunResolve stun) BindingTest1 = do {
      stun \<leftarrow> stun_launch ?env ?stun BindingTest1 primary ?g (stunProtocolPackBindingRequest (en_endian ?env));
      stun \<leftarrow> stun_flush stun;
      stun_phase ?env stun BindingTest1 (answers BindingTest1)
    }"
    using assms(1,3,7)
    by (simp add: stun_step_def stunResolve_def stun_dispatch_def run_stun_task_def run_stun_resolve_def tasks)
  have g: "\<forall>s'. sk_sockaddr s' = sk_sockaddr s \<longrightarrow> ?g s' = ?g s"
    by (simp add: net_socket_local_addr_def)
  have stun: "sn_socket ?stun = Some s" "sn_tasks ?stun = []" "sn_maxRetries ?stun = 2" "sn_primaryServerAddr ?stun = primary"
      "sn_results ?stun = sn_results stun"
    using assms(1,5) by (simp_all add: resolved_stun_def)
  from stun_launched [OF stun(1) assms(2) stun(2) assms(4) packs_binding [of "en_endian ?env"] g stun(3) assms(6), of BindingTest1 primary] step stun(4,5)
  obtain stun' s' i where "stun_step env answers (stunResolve stun) BindingTest1 = Some stun'"
      "stun_over own s (en_receiveBlock ?env) BindingTest1 s' ?stun stun'" "length i = kStunTransactionIdLen"
      "sk_wire s' = sk_wire s @ replicate (Suc (answer_retries 2 (answers BindingTest1))) (primary, enc_stun_header (en_endian ?env) 1 0 i 0)"
      "sn_results stun' = spec_answer ?env primary BindingTest1 (answers BindingTest1) (?g s (sn_results stun))"
    by auto
  then show ?thesis
    using assms(8)
    by (intro exI [of _ stun'] exI [of _ s'] exI [of _ i])
      (simp add: spec_requests_def spec_step_def spec_skips_def stun_target_def stun_request_def)
qed

text \<open>What holds between two tests, with the tests that are behind and the receive blocks the socket may have.\<close>

definition stun_between ::
    "(ptr \<Rightarrow> nat) \<Rightarrow> net_socket_s \<Rightarrow> ptr set \<Rightarrow> stun_test set \<Rightarrow> stun_test \<Rightarrow> StunStruct \<Rightarrow> net_socket_s \<Rightarrow> StunStruct \<Rightarrow> bool" where
  "stun_between own s0 bs behind prev stun0 s stun \<longleftrightarrow> sn_socket stun = Some s \<and> socket_idle own s \<and> sk_refs s = sk_refs s0 \<and>
     sk_objects s = sk_objects s0 \<and> fst (sk_receivers s) \<in> bs \<and> snd (sk_receivers s) = snd (sk_receivers s0) \<and>
     sn_blocks stun = sn_blocks stun0 \<and> sn_tasks stun = [StunNextTask prev] \<and> stun_same stun0 stun \<and>
     (\<forall>q \<in> behind. \<exists>t. sn_tests stun q = Some t \<and> stt_isCompleted t)"

lemma stun_over_between:
  assumes "stun_between own s0 bs behind prev stun0 s stun" "stun_over own s rb test s' stun stun'" "rb \<in> bs"
  shows "stun_between own s0 bs (insert test behind) test stun0 s' stun'"
  using assms stun_same_trans [of stun0 stun stun']
  by (auto simp: stun_between_def stun_over_def)

fun stun_steps :: "(stun_test \<Rightarrow> stun_env) \<Rightarrow> (stun_test \<Rightarrow> stun_answer) \<Rightarrow> StunStruct \<Rightarrow> stun_test list \<Rightarrow> StunStruct option" where
  "stun_steps env answers stun [] = Some stun"
| "stun_steps env answers stun (test # tests) = do { stun \<leftarrow> stun_step env answers stun test; stun_steps env answers stun tests }"

fun stun_chain :: "stun_test \<Rightarrow> stun_test list \<Rightarrow> bool" where
  "stun_chain prev [] \<longleftrightarrow> True"
| "stun_chain prev (test # tests) \<longleftrightarrow> prev \<noteq> FilteringTest2 \<and> test = stun_next prev \<and> stun_chain test tests"

lemma stun_steps_chain:
  assumes "stun_between own s0 bs behind prev stun0 s stun" "stun_chain prev tests"
    and "\<And>test. stun_env_ok (env test)" "\<And>test. answer_ok (en_endian (env test)) 2 (answers test)" "\<And>test. en_receiveBlock (env test) \<in> bs"
    and "sn_maxRetries stun0 = 2" "sn_primaryServerAddr stun0 = primary"
  shows "\<exists>stun' s' ids. stun_steps env answers stun tests = Some stun' \<and>
    stun_between own s0 bs (behind \<union> set tests) (last (prev # tests)) stun0 s' stun' \<and> map fst ids = tests \<and>
    (\<forall>i \<in> snd ` set ids. length i = kStunTransactionIdLen) \<and>
    sk_wire s' = sk_wire s @ spec_wire env answers primary (sn_results stun) ids \<and>
    sn_results stun' = foldl (spec_step env answers primary) (sn_results stun) tests"
  using assms(1,2)
proof (induction tests arbitrary: behind prev s stun)
  case Nil
  then show ?case
    by auto
next
  case (Cons test tests)
  have b: "sn_socket stun = Some s" "socket_idle own s" "sn_tasks stun = [StunNextTask prev]" "stun_same stun0 stun" "fst (sk_receivers s) \<in> bs"
    using Cons.prems(1) by (simp_all add: stun_between_def)
  have max: "sn_maxRetries stun = 2" "sn_primaryServerAddr stun = primary"
    using stun_same_fields [OF b(4)] assms(6,7) by simp_all
  have prev: "prev \<noteq> FilteringTest2" "test = stun_next prev"
    using Cons.prems(2) by simp_all
  obtain stun1 s1 i where o: "stun_step env answers stun test = Some stun1"
      "stun_over own s (if spec_skips test (sn_results stun) then fst (sk_receivers s) else en_receiveBlock (env test)) test s1 stun stun1"
      "length i = kStunTransactionIdLen" "sk_wire s1 = sk_wire s @ spec_requests env answers primary (sn_results stun) test i"
      "sn_results stun1 = spec_step env answers primary (sn_results stun) test"
    using stun_step_next [where answers = answers and env = env, OF b(1-3) prev assms(3) max(1) assms(4)] max(2) by auto
  have "stun_between own s0 bs (insert test behind) test stun0 s1 stun1"
    using stun_over_between [OF Cons.prems(1) o(2)] assms(5) b(5) by simp
  from Cons.IH [OF this] Cons.prems(2) obtain stun2 s2 ids where c: "stun_steps env answers stun1 tests = Some stun2"
      "stun_between own s0 bs (insert test behind \<union> set tests) (last (test # tests)) stun0 s2 stun2" "map fst ids = tests"
      "\<forall>i \<in> snd ` set ids. length i = kStunTransactionIdLen"
      "sk_wire s2 = sk_wire s1 @ spec_wire env answers primary (sn_results stun1) ids"
      "sn_results stun2 = foldl (spec_step env answers primary) (sn_results stun1) tests"
    by auto
  show ?case
    using o c by (intro exI [of _ stun2] exI [of _ s2] exI [of _ "(test, i) # ids"]) simp
qed

lemma set_info_same [simp]:
  "sk_queued (net_socket_set_info s i) = sk_queued s" "sk_tasks (net_socket_set_info s i) = sk_tasks s"
  "sk_deliveries (net_socket_set_info s i) = sk_deliveries s" "sk_refs (net_socket_set_info s i) = sk_refs s"
  "sk_objects (net_socket_set_info s i) = sk_objects s" "sk_pending (net_socket_set_info s i) = sk_pending s"
  "sk_pool (net_socket_set_info s i) = sk_pool s" "sk_mem (net_socket_set_info s i) = sk_mem s"
  "sk_isSending (net_socket_set_info s i) = sk_isSending s" "sk_suspended (net_socket_set_info s i) = sk_suspended s"
  "sk_wire (net_socket_set_info s i) = sk_wire s"
  "sk_receivers (net_socket_set_info s (net_socket_copy_info s')) = sk_receivers s'"
  by (simp_all add: net_socket_set_info_def net_socket_copy_info_def sk_queued_def sk_refs_def sk_objects_def sk_receivers_def fun_eq_iff)

lemma set_info_idle [simp]: "socket_idle own (net_socket_set_info s i) \<longleftrightarrow> socket_idle own s"
  by (simp only: socket_idle_def sk_free_def socket_inv_def sk_containers_def sk_memory_def sk_held_def set_info_same)

text \<open>A client that has not resolved anything yet.\<close>

definition stun_idle :: "(ptr \<Rightarrow> nat) \<Rightarrow> net_socket_s \<Rightarrow> StunStruct \<Rightarrow> bool" where
  "stun_idle own s stun \<longleftrightarrow> sn_socket stun = Some s \<and> socket_idle own s \<and> sn_tasks stun = [] \<and> sn_results stun = zero_results \<and>
     sn_maxRetries stun = kStunDefaultRetries \<and> \<not> sn_didResolve stun \<and> {sn_stunDidResolve stun, sn_stunDidFailResolve stun} \<subseteq> set (sn_blocks stun)"

lemma stunCreate_idle:
  assumes "stunCreate malloc mem c r f s host = Some stun" "socket_idle own s"
  shows "stun_idle own s stun"
  using assms by (auto simp: stunCreate_def stun_idle_def split: if_splits)

definition stun_resolves :: "stun_env \<Rightarrow> StunStruct \<Rightarrow> net_addr_t \<Rightarrow> bool" where
  "stun_resolves env stun primary \<longleftrightarrow> net_addr_resolve (en_endian env) (en_getaddrinfo env) (en_getnameinfo env)
     (sn_primaryServerAddr stun) (sn_primaryServerHostname stun) kStunServerDefaultPort = (NetNoError, primary)"

text \<open>The surroundings of a run: what the five tests get from the system, and their answers.\<close>

definition stun_world :: "(stun_test \<Rightarrow> stun_env) \<Rightarrow> (stun_test \<Rightarrow> stun_answer) \<Rightarrow> bool" where
  "stun_world env answers \<longleftrightarrow>
     list_all (\<lambda>test. stun_env_ok (env test) \<and> answer_ok (en_endian (env test)) kStunDefaultRetries (answers test)) stun_order"

lemma stun_world_all:
  assumes "stun_world env answers"
  shows "stun_env_ok (env test) \<and> answer_ok (en_endian (env test)) 2 (answers test)"
  using assms by (cases test) (simp_all add: stun_world_def stun_order_def)

definition stun_local :: "(stun_test \<Rightarrow> stun_env) \<Rightarrow> net_socket_s \<Rightarrow> net_addr_t" where
  "stun_local env s = net_socket_local_addr (en_ifaddrs (env BindingTest1)) s sockaddr_zero"

lemma stun_run_steps:
  "stun_run env answers stun = do {
     stun \<leftarrow> stun_steps env answers (stunResolve stun) stun_order;
     run_stun_task (env FilteringTest2) stun
   }"
  by (simp add: stun_run_def stun_order_def)

lemma stun_tests_end:
  assumes "stun_idle own s stun" "stun_world env answers" "stun_resolves (env BindingTest1) stun primary"
  shows "\<exists>stun' s' ids. stun_steps env answers (stunResolve stun) stun_order = Some stun' \<and>
    stun_between own s (range (\<lambda>test. en_receiveBlock (env test))) UNIV FilteringTest2 (resolved_stun stun s primary) s' stun' \<and>
    map fst ids = stun_order \<and> (\<forall>i \<in> snd ` set ids. length i = kStunTransactionIdLen) \<and>
    sk_wire s' = sk_wire s @ spec_wire env answers primary (zero_results\<lparr>localAddr := stun_local env s\<rparr>) ids \<and>
    sn_results stun' = stun_spec env answers primary (stun_local env s)"
proof -
  note world = stun_world_all [OF assms(2)]
  let ?bs = "range (\<lambda>test. en_receiveBlock (env test))" and ?stun = "resolved_stun stun s primary"
  let ?r = "zero_results\<lparr>localAddr := stun_local env s\<rparr>" and ?tests = "[BehaviorTest1, BehaviorTest2, FilteringTest1, FilteringTest2]"
  have idle: "sn_socket stun = Some s" "socket_idle own s" "sn_tasks stun = []" "sn_results stun = zero_results" "sn_maxRetries stun = 2"
    using assms(1) by (simp_all add: stun_idle_def)
  have r: "?r = (sn_results stun)\<lparr>localAddr := net_socket_local_addr (en_ifaddrs (env BindingTest1)) s (localAddr (sn_results stun))\<rparr>"
    using idle(4) by (simp add: stun_local_def zero_results_def)
  obtain stun1 s1 i where o: "stun_step env answers (stunResolve stun) BindingTest1 = Some stun1"
      "stun_over own s (en_receiveBlock (env BindingTest1)) BindingTest1 s1 ?stun stun1" "length i = kStunTransactionIdLen"
      "sk_wire s1 = sk_wire s @ spec_requests env answers primary ?r BindingTest1 i" "sn_results stun1 = spec_step env answers primary ?r BindingTest1"
    using stun_step_first [where env = env and answers = answers, OF idle(1-3) _ idle(5) _ assms(3) [unfolded stun_resolves_def] r] world by blast
  have b: "stun_between own s ?bs {BindingTest1} BindingTest1 ?stun s1 stun1"
    using o(2) by (auto simp: stun_over_def stun_between_def)
  have chain: "stun_chain BindingTest1 ?tests"
    by simp
  have e: "stun_env_ok (env test)" "answer_ok (en_endian (env test)) 2 (answers test)" for test
    using world by simp_all
  have max: "sn_maxRetries ?stun = 2" "sn_primaryServerAddr ?stun = primary"
    using idle(5) by (simp_all add: resolved_stun_def)
  obtain stun2 s2 ids where c: "stun_steps env answers stun1 ?tests = Some stun2"
      "stun_between own s ?bs ({BindingTest1} \<union> set ?tests) (last (BindingTest1 # ?tests)) ?stun s2 stun2" "map fst ids = ?tests"
      "\<forall>i \<in> snd ` set ids. length i = kStunTransactionIdLen" "sk_wire s2 = sk_wire s1 @ spec_wire env answers primary (sn_results stun1) ids"
      "sn_results stun2 = foldl (spec_step env answers primary) (sn_results stun1) ?tests"
    using stun_steps_chain [where env = env and answers = answers, OF b chain e(1,2) rangeI max] by (elim exE conjE) (rule that)
  have all: "{BindingTest1} \<union> set ?tests = UNIV"
    using stun_test.exhaust by auto
  show ?thesis
    using o c(1,3-6) c(2) [unfolded all]
    by (intro exI [of _ stun2] exI [of _ s2] exI [of _ "(BindingTest1, i) # ids"]) (simp add: stun_order_def stun_spec_def)
qed

lemma stun_run_ends:
  assumes "stun_idle own s stun" "stun_world env answers" "stun_resolves (env BindingTest1) stun primary"
    and "R = stun_spec env answers primary (stun_local env s)"
  shows "\<exists>stun' s' ids. stun_run env answers stun = Some stun' \<and> sn_results stun' = R \<and>
    sn_notices stun' = sn_notices stun @ [if didBindingTestSuccess R then DidResolve else DidFailResolve] \<and>
    sn_didResolve stun' = didBindingTestSuccess R \<and> sn_tasks stun' = [] \<and> sn_blocks stun' = sn_blocks stun \<and>
    sn_testDidComplete stun' = sn_testDidComplete stun \<and> sn_stunDidResolve stun' = sn_stunDidResolve stun \<and>
    sn_stunDidFailResolve stun' = sn_stunDidFailResolve stun \<and> (\<forall>test. \<exists>t. sn_tests stun' test = Some t \<and> stt_isCompleted t) \<and>
    sn_socket stun' = Some s' \<and> socket_idle own s' \<and> sk_refs s' = sk_refs s \<and> map fst ids = stun_order \<and>
    (\<forall>i \<in> snd ` set ids. length i = kStunTransactionIdLen) \<and>
    sk_wire s' = sk_wire s @ spec_wire env answers primary (zero_results\<lparr>localAddr := stun_local env s\<rparr>) ids \<and>
    (if didBindingTestSuccess R then sk_receivers s' = sk_receivers s else sk_receiveBlock s' \<in> range (\<lambda>test. en_receiveBlock (env test)))"
proof -
  let ?bs = "range (\<lambda>test. en_receiveBlock (env test))" and ?stun = "resolved_stun stun s primary"
  obtain stun1 s1 ids where t: "stun_steps env answers (stunResolve stun) stun_order = Some stun1"
      "stun_between own s ?bs UNIV FilteringTest2 ?stun s1 stun1" "map fst ids = stun_order" "\<forall>i \<in> snd ` set ids. length i = kStunTransactionIdLen"
      "sk_wire s1 = sk_wire s @ spec_wire env answers primary (zero_results\<lparr>localAddr := stun_local env s\<rparr>) ids" "sn_results stun1 = R"
    using stun_tests_end [OF assms(1-3), folded assms(4)] by (elim exE conjE) (rule that)
  have b: "sn_socket stun1 = Some s1" "socket_idle own s1" "sk_refs s1 = sk_refs s" "fst (sk_receivers s1) \<in> ?bs" "sn_blocks stun1 = sn_blocks ?stun"
      "sn_tasks stun1 = [StunNextTask FilteringTest2]" "stun_same ?stun stun1" "\<forall>q. \<exists>t. sn_tests stun1 q = Some t \<and> stt_isCompleted t"
    using t(2) by (simp_all add: stun_between_def)
  have blocks: "sn_blocks stun1 = sn_blocks stun"
    using b(5) by (simp add: resolved_stun_def)
  have f: "sn_info stun1 = net_socket_copy_info s" "sn_notices stun1 = sn_notices stun" "sn_didResolve stun1 = False"
      "sn_stunDidResolve stun1 \<in> set (sn_blocks stun)" "sn_stunDidFailResolve stun1 \<in> set (sn_blocks stun)"
      "sn_testDidComplete stun1 = sn_testDidComplete stun" "sn_stunDidResolve stun1 = sn_stunDidResolve stun"
      "sn_stunDidFailResolve stun1 = sn_stunDidFailResolve stun"
    using stun_same_fields [OF b(7)] assms(1) by (simp_all add: resolved_stun_def stun_idle_def)
  let ?s2 = "net_socket_set_info s1 (net_socket_copy_info s)"
  let ?stun2 = "if didBindingTestSuccess R
      then stun1\<lparr>sn_tasks := [], sn_socket := Some ?s2, sn_didResolve := True, sn_notices := sn_notices stun @ [DidResolve]\<rparr>
      else stun1\<lparr>sn_tasks := [], sn_notices := sn_notices stun @ [DidFailResolve]\<rparr>"
  have "stun_run env answers stun = Some ?stun2"
    using t(1,6) b(1,6) f blocks
    by (simp add: stun_run_steps run_stun_task_def run_stun_next_def stun_socket_def stun_notify_def)
  moreover have "sk_receiveBlock s1 \<in> ?bs"
    using b(4) by (simp add: sk_receivers_def)
  ultimately show ?thesis
    using t b f blocks
    by (intro exI [of _ ?stun2] exI [of _ "if didBindingTestSuccess R then ?s2 else s1"] exI [of _ ids]) simp
qed

text \<open>Destruction after a run releases the three blocks of the client; before any run it reads memory that was never written.\<close>

lemma stunDestroy_completed:
  assumes "\<forall>test. \<exists>t. sn_tests stun test = Some t \<and> stt_isCompleted t" "sn_blocks stun = [c, f, r]" "0 \<notin> {c, f, r}"
    and "sn_testDidComplete stun = c" "sn_stunDidResolve stun = r" "sn_stunDidFailResolve stun = f"
  shows "stunDestroy (Some stun) = Some (Some (stun\<lparr>sn_blocks := []\<rparr>))"
proof -
  have "stun_release_pending stun test = Some stun" for test
  proof -
    obtain t where "sn_tests stun test = Some t" "stt_isCompleted t"
      using assms(1) by blast
    then show ?thesis
      by (simp add: stun_release_pending_def)
  qed
  then show ?thesis
    using assms(2-6) by (auto simp: stunDestroy_def block_release_if_def block_release_def)
qed

lemma stunDestroy_unresolved: "sn_tests stun BindingTest1 = None \<Longrightarrow> stunDestroy (Some stun) = None"
  by (simp add: stunDestroy_def stun_release_pending_def)

lemma failed_last: "last (xs @ [if b then DidResolve else DidFailResolve]) = DidFailResolve \<longleftrightarrow> \<not> b"
  by simp

text \<open>The block that the socket calls with the next datagram, whatever it holds and wherever it comes from.\<close>

definition datagram_calls :: "net_socket_s \<Rightarrow> net_addr_t \<Rightarrow> u8 list \<Rightarrow> ptr option" where
  "datagram_calls s addr data = do {
     s \<leftarrow> read_handler \<lparr>recv_bytes = int (length data), recv_data = data, recv_addr = addr\<rparr> s;
     if sk_deliveries s = [] then None
     else do { ((f, _, _), _) \<leftarrow> run_delivery (last (sk_deliveries s)) s; Some f }
   }"

lemma receive_block_called:
  assumes "socket_idle own s" "sk_receiveBlock s \<noteq> NULL" "0 < length data" "length data \<le> 256"
  shows "datagram_calls s addr data = Some (sk_receiveBlock s)"
proof -
  have idle: "socket_inv own s" "0 < sk_free s" "sk_deliveries s = []"
    using assms(1) by (simp_all add: socket_idle_def)
  obtain g ctx where "sk_receivers s = (sk_receiveBlock s, g, ctx)"
    by (simp add: sk_receivers_def)
  from socket_receives [OF idle this _ assms(3,4), of addr] assms(2) show ?thesis
    by (auto simp: datagram_calls_def)
qed

text \<open>
  (C36) The socket calls released blocks. When the binding test is over its receive block has been released, but it is
  still the block of the socket, and the socket calls it with the next datagram, whatever that holds, for
  example the answer to a retransmission. After a run that ends in \<open>DidFailResolve\<close> the receiver the socket had before
  is not put back: the socket calls the released block of one of the tests with every datagram from then on.
\<close>

theorem stun_calls_released_block:
  assumes "stunCreate malloc mem c r f s host = Some stun" "socket_idle own s" "stun_world env answers"
    and "stun_resolves (env BindingTest1) stun primary"
    and "\<forall>test. en_receiveBlock (env test) \<notin> {c, r, f}" "0 < length data" "length data \<le> 256"
  shows "(\<exists>stun1 s1. stun_step env answers (stunResolve stun) BindingTest1 = Some stun1 \<and> sn_socket stun1 = Some s1 \<and>
      datagram_calls s1 addr data = Some (en_receiveBlock (env BindingTest1)) \<and> en_receiveBlock (env BindingTest1) \<notin> set (sn_blocks stun1)) \<and>
    (\<exists>stun' s'. stun_run env answers stun = Some stun' \<and> sn_socket stun' = Some s' \<and> (last (sn_notices stun') = DidFailResolve \<longrightarrow>
      (\<exists>test. datagram_calls s' addr data = Some (en_receiveBlock (env test)) \<and> en_receiveBlock (env test) \<notin> set (sn_blocks stun'))))"
proof
  have blocks: "sn_blocks stun = [c, f, r]"
    using assms(1) by (auto simp: stunCreate_def split: if_splits)
  have alive: "en_receiveBlock (env test) \<noteq> NULL" "en_receiveBlock (env test) \<notin> set [c, f, r]" for test
    using stun_world_all [OF assms(3)] assms(5) by (auto simp: stun_env_ok_def)
  have idle: "sn_socket stun = Some s" "socket_idle own s" "sn_tasks stun = []" "sn_maxRetries stun = 2"
    using stunCreate_idle [OF assms(1,2)] by (simp_all add: stun_idle_def)
  have world: "stun_env_ok (env BindingTest1)" "answer_ok (en_endian (env BindingTest1)) 2 (answers BindingTest1)"
    using stun_world_all [OF assms(3)] by simp_all
  obtain stun1 s1 where o: "stun_step env answers (stunResolve stun) BindingTest1 = Some stun1"
      "stun_over own s (en_receiveBlock (env BindingTest1)) BindingTest1 s1 (resolved_stun stun s primary) stun1"
    using stun_step_first [where env = env and answers = answers, OF idle(1-3) world(1) idle(4) world(2) assms(4) [unfolded stun_resolves_def] refl]
    by blast
  then have "sn_socket stun1 = Some s1" "socket_idle own s1" "sk_receiveBlock s1 = en_receiveBlock (env BindingTest1)" "sn_blocks stun1 = [c, f, r]"
    using blocks by (simp_all add: stun_over_def resolved_stun_def sk_receivers_def)
  with o(1) show "\<exists>stun1 s1. stun_step env answers (stunResolve stun) BindingTest1 = Some stun1 \<and> sn_socket stun1 = Some s1 \<and>
      datagram_calls s1 addr data = Some (en_receiveBlock (env BindingTest1)) \<and> en_receiveBlock (env BindingTest1) \<notin> set (sn_blocks stun1)"
    using receive_block_called [of own s1 data addr] alive assms(6,7) by simp
  obtain stun' s' where s': "stun_run env answers stun = Some stun'" "sn_blocks stun' = [c, f, r]" "sn_socket stun' = Some s'" "socket_idle own s'"
      "last (sn_notices stun') = DidFailResolve \<longrightarrow> sk_receiveBlock s' \<in> range (\<lambda>test. en_receiveBlock (env test))"
    using stun_run_ends [OF stunCreate_idle [OF assms(1,2)] assms(3,4) refl] blocks by (force simp: failed_last)
  then show "\<exists>stun' s'. stun_run env answers stun = Some stun' \<and> sn_socket stun' = Some s' \<and> (last (sn_notices stun') = DidFailResolve \<longrightarrow>
      (\<exists>test. datagram_calls s' addr data = Some (en_receiveBlock (env test)) \<and> en_receiveBlock (env test) \<notin> set (sn_blocks stun')))"
    using receive_block_called [OF s'(4) _ assms(6,7), of addr] alive by (auto simp: image_iff)
qed

section \<open>A sample\<close>

definition sample_stun_env :: stun_env where
  "sample_stun_env = \<lparr>en_endian = LittleEndian, en_receiveBlock = 501, en_timeoutBlock = 502, en_source = 503, en_random = -1, en_reads = [],
     en_rand = (\<lambda>seed b. int b), en_ifaddrs = (0, []), en_id = replicate kStunTransactionIdLen 0,
     en_getaddrinfo = (\<lambda>name. (0, [net_addr_set LittleEndian 9 0 True])), en_getnameinfo = (\<lambda>addr. (0, [57, 0]))\<rparr>"

definition sample_server :: net_addr_t where
  "sample_server = net_addr_set LittleEndian 9 kStunServerDefaultPort True"

definition sample_stun_memory :: StunStruct where
  "sample_stun_memory = \<lparr>sn_didResolve = True, sn_results = zero_results, sn_rto = 0, sn_maxRetries = 0, sn_socket = None,
     sn_info = net_socket_copy_info sample_socket, sn_tasks = [], sn_primaryServerHostname = [], sn_primaryServerAddr = sockaddr_zero,
     sn_tests = (\<lambda>_. None), sn_blocks = [], sn_calls = [], sn_notices = [], sn_testDidComplete = 0, sn_stunDidResolve = 0, sn_stunDidFailResolve = 0\<rparr>"

definition sample_stun :: StunStruct where
  "sample_stun = the (stunCreate 1 sample_stun_memory 401 402 403 sample_socket [115])"

lemma sample_stun_created: "stunCreate 1 sample_stun_memory 401 402 403 sample_socket [115] = Some sample_stun"
  by (simp add: sample_stun_def stunCreate_def)

lemma sample_socket_idle: "socket_idle (\<lambda>_. 0) sample_socket"
  using create_inv [OF sample_socket_created] create_free [OF sample_socket_created] create_fields [OF sample_socket_created(1)]
  by (simp add: socket_idle_def)

lemma sample_stun_resolves: "stun_resolves sample_stun_env sample_stun sample_server"
  by (simp add: stun_resolves_def net_addr_resolve_def sample_stun_env_def sample_server_def sample_stun_def stunCreate_def net_addr_copy_def c_str_def
      net_addr_set_def sockaddr_zero_def)

lemma sample_stun_fields: "sn_notices sample_stun = []" "sn_blocks sample_stun = [401, 403, 402]"
  by (simp_all add: sample_stun_def stunCreate_def sample_stun_memory_def)

lemma sample_stun_env_ok: "stun_env_ok sample_stun_env"
  by (simp add: stun_env_ok_def sample_stun_env_def)

lemma silent_world: "stun_world (\<lambda>_. sample_stun_env) (\<lambda>_. Silent)"
  by (simp add: stun_world_def stun_order_def sample_stun_env_ok answer_ok_def)

lemma zero_not_valid [simp]: "\<not> net_addr_is_valid sockaddr_zero"
  by (simp add: net_addr_is_valid_def net_addr_is_equal_def)

lemma silent_spec: "\<not> didBindingTestSuccess (stun_spec (\<lambda>_. sample_stun_env) (\<lambda>_. Silent) primary local)"
  by (simp add: stun_spec_def stun_order_def spec_step_def spec_answer_def spec_skips_def spec_skipped_def test_check_def fail_check_def zero_results_def)

lemma silent_fails:
  assumes "stun_run (\<lambda>_. sample_stun_env) (\<lambda>_. Silent) sample_stun = Some stun'"
  shows "last (sn_notices stun') = DidFailResolve"
  using stun_run_ends [OF stunCreate_idle [OF sample_stun_created sample_socket_idle] silent_world sample_stun_resolves refl] silent_spec assms
  by (auto simp: failed_last)

theorem stun_calls_released_block_witness:
  "\<exists>stun' s'. stun_run (\<lambda>_. sample_stun_env) (\<lambda>_. Silent) sample_stun = Some stun' \<and> sn_socket stun' = Some s' \<and>
    last (sn_notices stun') = DidFailResolve \<and> datagram_calls s' sample_server [1, 2, 3] = Some 501 \<and> 501 \<notin> set (sn_blocks stun')"
proof -
  have "\<forall>test :: stun_test. en_receiveBlock sample_stun_env \<notin> {401, 402, 403}"
    by (simp add: sample_stun_env_def)
  from stun_calls_released_block [OF sample_stun_created sample_socket_idle silent_world sample_stun_resolves this,
      of "[1, 2, 3]" sample_server] silent_fails show ?thesis
    by (auto simp: sample_stun_env_def)
qed

end
