(* ===== verification/Stun_Report.thy ===== *)
theory Stun_Report
  imports Stun
begin

text \<open>
  What the discovery of address translation reports, said without the client: which of the five
  tests are carried out, what they conclude and which datagrams they cause are functions of the
  addresses that the answers carry and come from. The client refines this description.
\<close>

section \<open>The specification\<close>

definition same_addr :: "net_addr_t \<Rightarrow> net_addr_t \<Rightarrow> bool" where
  "same_addr a b \<longleftrightarrow> (sin_family a, sin_addr a, sin_port a) = (sin_family b, sin_addr b, sin_port b)"

definition addr_or_zero :: "net_addr_t option \<Rightarrow> net_addr_t" where
  "addr_or_zero a = (case a of None \<Rightarrow> sockaddr_zero | Some a \<Rightarrow> a)"

text \<open>
  Where an answer comes from, the mapped address it carries (the last XOR-ed one, without one the
  last plain one) and the last alternate server in it.
\<close>

definition heard_from :: "stun_answer \<Rightarrow> net_addr_t option" where
  "heard_from answer = (case answer of Silent \<Rightarrow> None | Answer _ addr _ \<Rightarrow> Some addr)"

definition heard_mapped :: "endian \<Rightarrow> stun_answer \<Rightarrow> net_addr_t option" where
  "heard_mapped e answer =
     (case answer of
        Silent \<Rightarrow> None
      | Answer _ _ as \<Rightarrow>
          if xor_mapped_addrs e as \<noteq> [] then Some (last (xor_mapped_addrs e as))
          else if mapped_addrs e as \<noteq> [] then Some (last (mapped_addrs e as)) else None)"

definition heard_other :: "endian \<Rightarrow> stun_answer \<Rightarrow> net_addr_t option" where
  "heard_other e answer =
     (case answer of
        Silent \<Rightarrow> None
      | Answer _ _ as \<Rightarrow> if alternate_addrs e as \<noteq> [] then Some (last (alternate_addrs e as)) else None)"

text \<open>
  The observations of a run: the mapped address of a test, the other server that the first test
  tells, whether the client is not behind a translator at all, whether a test sees the mapped
  address of the first one, and whether an answer comes from the other server.
\<close>

definition obs_mapped :: "(stun_test \<Rightarrow> stun_env) \<Rightarrow> (stun_test \<Rightarrow> stun_answer) \<Rightarrow> stun_test \<Rightarrow> net_addr_t option" where
  "obs_mapped env answers test = heard_mapped (en_endian (env test)) (answers test)"

definition obs_other :: "(stun_test \<Rightarrow> stun_env) \<Rightarrow> (stun_test \<Rightarrow> stun_answer) \<Rightarrow> net_addr_t option" where
  "obs_other env answers = heard_other (en_endian (env BindingTest1)) (answers BindingTest1)"

definition obs_direct :: "(stun_test \<Rightarrow> stun_env) \<Rightarrow> (stun_test \<Rightarrow> stun_answer) \<Rightarrow> net_addr_t \<Rightarrow> bool" where
  "obs_direct env answers local \<longleftrightarrow>
     answers BindingTest1 \<noteq> Silent \<and> same_addr (addr_or_zero (obs_mapped env answers BindingTest1)) local"

definition obs_same_mapping :: "(stun_test \<Rightarrow> stun_env) \<Rightarrow> (stun_test \<Rightarrow> stun_answer) \<Rightarrow> stun_test \<Rightarrow> bool" where
  "obs_same_mapping env answers test \<longleftrightarrow>
     (case obs_mapped env answers test of
        None \<Rightarrow> False | Some a \<Rightarrow> same_addr a (addr_or_zero (obs_mapped env answers BindingTest1)))"

definition obs_from_other :: "(stun_test \<Rightarrow> stun_env) \<Rightarrow> (stun_test \<Rightarrow> stun_answer) \<Rightarrow> stun_test \<Rightarrow> bool" where
  "obs_from_other env answers test \<longleftrightarrow>
     (case (obs_other env answers, heard_from (answers test)) of (Some a, Some b) \<Rightarrow> same_addr a b | _ \<Rightarrow> False)"

text \<open>
  The tests that are carried out. Without another server, or without a translator, only the first
  one; the second behavior test only after a first one that saw another mapped address, the second
  filtering test only when the first one got no answer from the other server.
\<close>

definition carried_out :: "(stun_test \<Rightarrow> stun_env) \<Rightarrow> (stun_test \<Rightarrow> stun_answer) \<Rightarrow> net_addr_t \<Rightarrow> stun_test \<Rightarrow> bool" where
  "carried_out env answers local test \<longleftrightarrow>
     (let further = obs_other env answers \<noteq> None \<and> \<not> obs_direct env answers local
      in case test of
           BindingTest1 \<Rightarrow> True
         | BehaviorTest1 \<Rightarrow> further
         | BehaviorTest2 \<Rightarrow> further \<and> obs_mapped env answers BehaviorTest1 \<noteq> None \<and> \<not> obs_same_mapping env answers BehaviorTest1
         | FilteringTest1 \<Rightarrow> further
         | FilteringTest2 \<Rightarrow> further \<and> \<not> obs_from_other env answers FilteringTest1)"

definition unanswered :: "(stun_test \<Rightarrow> stun_env) \<Rightarrow> (stun_test \<Rightarrow> stun_answer) \<Rightarrow> net_addr_t \<Rightarrow> stun_test \<Rightarrow> bool" where
  "unanswered env answers local test \<longleftrightarrow> carried_out env answers local test \<and> answers test = Silent"

definition test_mapped :: "(stun_test \<Rightarrow> stun_env) \<Rightarrow> (stun_test \<Rightarrow> stun_answer) \<Rightarrow> net_addr_t \<Rightarrow> stun_test \<Rightarrow> net_addr_t option" where
  "test_mapped env answers local test = (if carried_out env answers local test then obs_mapped env answers test else None)"

definition report_behavior :: "(stun_test \<Rightarrow> stun_env) \<Rightarrow> (stun_test \<Rightarrow> stun_answer) \<Rightarrow> net_addr_t \<Rightarrow> StunNatBehavior" where
  "report_behavior env answers local =
     (if obs_direct env answers local then DirectMapping
      else if carried_out env answers local BehaviorTest1 \<and> obs_same_mapping env answers BehaviorTest1 then EndpointIndependentMapping
      else if test_mapped env answers local BehaviorTest2 = None then UnknownBehavior
      else if obs_same_mapping env answers BehaviorTest2 then AddressDependentMapping
      else AddressAndPortDependentMapping)"

definition report_filtering :: "(stun_test \<Rightarrow> stun_env) \<Rightarrow> (stun_test \<Rightarrow> stun_answer) \<Rightarrow> net_addr_t \<Rightarrow> StunNatFiltering" where
  "report_filtering env answers local =
     (if obs_direct env answers local \<or> carried_out env answers local FilteringTest1 \<and> obs_from_other env answers FilteringTest1
      then EndpointIndependentFiltering
      else if carried_out env answers local FilteringTest2 \<and> obs_from_other env answers FilteringTest2 then AddressDependentFiltering
      else UnknownFiltering)"

text \<open>
  The report. It counts as a success if the first test was answered and none of the behavior
  tests carried out stayed without an answer.
\<close>

definition stun_report :: "(stun_test \<Rightarrow> stun_env) \<Rightarrow> (stun_test \<Rightarrow> stun_answer) \<Rightarrow> net_addr_t \<Rightarrow> net_addr_t \<Rightarrow> StunResults" where
  "stun_report env answers primary local =
     (let e = en_endian (env BindingTest1); other = obs_other env answers
      in \<lparr>didBindingTestSuccess = (\<forall>test \<in> {BindingTest1, BehaviorTest1, BehaviorTest2}. \<not> unanswered env answers local test),
          localAddr = local,
          mappedAddr = addr_or_zero (obs_mapped env answers BindingTest1),
          isMappingDirect = obs_direct env answers local,
          hasOtherServerAddress = (other \<noteq> None),
          otherServerPrimaryHostAddr =
            (case other of None \<Rightarrow> sockaddr_zero | Some a \<Rightarrow> net_addr_set e (sin_addr primary) (sin_port a) False),
          otherServerPrimaryPortAddr =
            (case other of None \<Rightarrow> sockaddr_zero | Some a \<Rightarrow> net_addr_set e (sin_addr a) (sin_port primary) False),
          otherServerAddr = addr_or_zero other,
          didBehaviorTestSuccess = (report_behavior env answers local \<noteq> UnknownBehavior),
          natBehavior = report_behavior env answers local,
          mappedOtherServerPrimaryPortAddr = addr_or_zero (test_mapped env answers local BehaviorTest1),
          mappedOtherServerAddr = addr_or_zero (test_mapped env answers local BehaviorTest2),
          didFilteringTestSuccess = (report_filtering env answers local \<noteq> UnknownFiltering),
          natFiltering = report_filtering env answers local\<rparr>)"

text \<open>
  The datagrams: each test carried out sends its request once and once more for every expiry
  before its answer, three times if there is none; the first behavior test goes to the other host at the port of the
  server, the second one to the other host and port, the remaining ones to the server.
\<close>

definition report_target :: "(stun_test \<Rightarrow> stun_env) \<Rightarrow> (stun_test \<Rightarrow> stun_answer) \<Rightarrow> net_addr_t \<Rightarrow> stun_test \<Rightarrow> net_addr_t" where
  "report_target env answers primary test =
     (case test of
        BehaviorTest1 \<Rightarrow> net_addr_set (en_endian (env BindingTest1)) (sin_addr (addr_or_zero (obs_other env answers))) (sin_port primary) False
      | BehaviorTest2 \<Rightarrow> addr_or_zero (obs_other env answers)
      | _ \<Rightarrow> primary)"

definition report_times :: "stun_answer \<Rightarrow> nat" where
  "report_times answer = (case answer of Silent \<Rightarrow> 3 | Answer n _ _ \<Rightarrow> n + 1)"

definition report_wire ::
    "(stun_test \<Rightarrow> stun_env) \<Rightarrow> (stun_test \<Rightarrow> stun_answer) \<Rightarrow> net_addr_t \<Rightarrow> net_addr_t \<Rightarrow> (stun_test \<Rightarrow> StunTransactionId) \<Rightarrow>
     (net_addr_t \<times> u8 list) list" where
  "report_wire env answers primary local ids =
     concat (map (\<lambda>test. replicate (report_times (answers test))
         (report_target env answers primary test, stun_request test (en_endian (env test)) (ids test)))
       (filter (carried_out env answers local) stun_order))"

section \<open>The stages of the report\<close>

lemmas report_defs = carried_out_def unanswered_def test_mapped_def report_behavior_def report_filtering_def obs_direct_def
  obs_same_mapping_def obs_from_other_def obs_mapped_def obs_other_def Let_def

lemma addr_or_zero_simps [simp]: "addr_or_zero None = sockaddr_zero" "addr_or_zero (Some a) = a"
  by (simp_all add: addr_or_zero_def)

lemma net_addr_is_equal_same: "net_addr_is_equal a b \<longleftrightarrow> same_addr a b"
  by (auto simp: net_addr_is_equal_def same_addr_def)

lemma last_addr_last: "addrs \<noteq> [] \<Longrightarrow> last_addr addrs = last addrs"
  by (simp add: last_addr_def)

text \<open>What the evaluation of an answer makes of the addresses in it.\<close>

lemma heard_mapped_response:
  "heard_mapped e (Answer n addr as) =
     (if hasXorMappedAddress (answer_response e as) then Some (xorMappedAddressAddr (answer_response e as))
      else if hasMappedAddress (answer_response e as) then Some (mappedAddressAddr (answer_response e as)) else None)"
  by (simp add: heard_mapped_def answer_response_def attrs_addresses last_addr_last)

lemma heard_other_response:
  "heard_other e (Answer n addr as) =
     (if hasAlternateServer (answer_response e as) then Some (alternateServerAddr (answer_response e as)) else None)"
  by (simp add: heard_other_def answer_response_def attrs_addresses last_addr_last)

lemma heard_mapped_valid:
  assumes "heard_mapped e answer = Some a"
  shows "net_addr_is_valid a"
proof -
  have "a \<in> range (\<lambda>(h, p). net_addr_set e h p True)"
  proof (cases answer)
    case (Answer n addr as)
    have "set (xor_mapped_addrs e as) \<union> set (mapped_addrs e as) \<subseteq> range (\<lambda>(h, p). net_addr_set e h p True)"
      by (auto simp: addrs_defs split: stun_attr.splits)
    moreover have "a \<in> set (xor_mapped_addrs e as) \<union> set (mapped_addrs e as)"
      using assms Answer by (auto simp: heard_mapped_def split: if_splits)
    ultimately show ?thesis
      by blast
  qed (use assms in \<open>simp add: heard_mapped_def\<close>)
  then show ?thesis
    by (auto simp: net_addr_is_valid_def net_addr_is_equal_def net_addr_set_def sockaddr_zero_def)
qed

lemma binding_result_heard:
  fixes e n addr as
  defines "m \<equiv> heard_mapped e (Answer n addr as)" and "other \<equiv> heard_other e (Answer n addr as)"
  assumes "mappedAddr r = sockaddr_zero" "\<not> isMappingDirect r" "\<not> hasOtherServerAddress r" "otherServerAddr r = sockaddr_zero"
    "otherServerPrimaryHostAddr r = sockaddr_zero" "otherServerPrimaryPortAddr r = sockaddr_zero"
  shows "binding_result e primary (answer_response e as) r =
    r\<lparr>didBindingTestSuccess := True, mappedAddr := addr_or_zero m, isMappingDirect := same_addr (addr_or_zero m) (localAddr r),
      hasOtherServerAddress := other \<noteq> None, otherServerAddr := addr_or_zero other,
      otherServerPrimaryHostAddr := (case other of None \<Rightarrow> sockaddr_zero | Some a \<Rightarrow> net_addr_set e (sin_addr primary) (sin_port a) False),
      otherServerPrimaryPortAddr := (case other of None \<Rightarrow> sockaddr_zero | Some a \<Rightarrow> net_addr_set e (sin_addr a) (sin_port primary) False)\<rparr>"
  unfolding m_def other_def heard_mapped_response heard_other_response
  using assms(3-) by (cases r) (simp add: binding_result_def net_addr_copy_def net_addr_is_equal_same Let_def)

lemma behavior1_result_heard:
  "behavior1_result (answer_response e as) r =
     (case heard_mapped e (Answer n addr as) of
        None \<Rightarrow> r
      | Some a \<Rightarrow>
          if same_addr a (mappedAddr r)
          then r\<lparr>mappedOtherServerPrimaryPortAddr := a, didBehaviorTestSuccess := True, natBehavior := EndpointIndependentMapping\<rparr>
          else r\<lparr>mappedOtherServerPrimaryPortAddr := a\<rparr>)"
  unfolding heard_mapped_response by (simp add: behavior1_result_def net_addr_copy_def net_addr_is_equal_same Let_def)

lemma behavior2_result_heard:
  "behavior2_result (answer_response e as) r =
     (case heard_mapped e (Answer n addr as) of
        None \<Rightarrow> r
      | Some a \<Rightarrow>
          r\<lparr>mappedOtherServerAddr := a, didBehaviorTestSuccess := True,
            natBehavior := if same_addr a (mappedAddr r) then AddressDependentMapping else AddressAndPortDependentMapping\<rparr>)"
  unfolding heard_mapped_response by (simp add: behavior2_result_def net_addr_copy_def net_addr_is_equal_same Let_def)

text \<open>The results after the first test and after the behavior tests, as parts of the report.\<close>

definition report_binding :: "(stun_test \<Rightarrow> stun_env) \<Rightarrow> (stun_test \<Rightarrow> stun_answer) \<Rightarrow> net_addr_t \<Rightarrow> net_addr_t \<Rightarrow> StunResults" where
  "report_binding env answers primary local = (stun_report env answers primary local)\<lparr>
     didBindingTestSuccess := answers BindingTest1 \<noteq> Silent, didBehaviorTestSuccess := False, natBehavior := UnknownBehavior,
     mappedOtherServerPrimaryPortAddr := sockaddr_zero, mappedOtherServerAddr := sockaddr_zero,
     didFilteringTestSuccess := False, natFiltering := UnknownFiltering\<rparr>"

definition report_mapping :: "(stun_test \<Rightarrow> stun_env) \<Rightarrow> (stun_test \<Rightarrow> stun_answer) \<Rightarrow> net_addr_t \<Rightarrow> net_addr_t \<Rightarrow> StunResults" where
  "report_mapping env answers primary local = (stun_report env answers primary local)\<lparr>
     didFilteringTestSuccess := False, natFiltering := UnknownFiltering\<rparr>"

lemma report_after_binding:
  "spec_step env answers primary (zero_results\<lparr>localAddr := local\<rparr>) BindingTest1 = report_binding env answers primary local"
proof (cases "answers BindingTest1")
  case Silent
  then show ?thesis
    by (simp add: spec_step_def spec_skips_def spec_answer_def fail_check_def test_check_def report_binding_def stun_report_def zero_results_def
        report_defs heard_mapped_def heard_other_def)
next
  case (Answer n addr as)
  have "binding_result (en_endian (env BindingTest1)) primary (answer_response (en_endian (env BindingTest1)) as) (zero_results\<lparr>localAddr := local\<rparr>) =
      report_binding env answers primary local"
    by (subst binding_result_heard [where n = n and addr = addr])
      (simp_all add: zero_results_def report_binding_def stun_report_def obs_direct_def obs_mapped_def obs_other_def Answer Let_def)
  then show ?thesis
    by (simp add: spec_step_def spec_skips_def spec_answer_def test_result_def Answer)
qed

lemma report_binding_fields [simp]:
  "didBindingTestSuccess (report_binding env answers primary local) \<longleftrightarrow> answers BindingTest1 \<noteq> Silent"
  "isMappingDirect (report_binding env answers primary local) = obs_direct env answers local"
  "hasOtherServerAddress (report_binding env answers primary local) \<longleftrightarrow> obs_other env answers \<noteq> None"
  "mappedAddr (report_binding env answers primary local) = addr_or_zero (obs_mapped env answers BindingTest1)"
  "mappedOtherServerPrimaryPortAddr (report_binding env answers primary local) = sockaddr_zero"
  "didBehaviorTestSuccess (report_binding env answers primary local) = False"
  by (simp_all add: report_binding_def stun_report_def Let_def)

lemma obs_direct_answered: "obs_direct env answers local \<Longrightarrow> answers BindingTest1 \<noteq> Silent"
  by (simp add: obs_direct_def)

lemma obs_other_answered: "obs_other env answers \<noteq> None \<Longrightarrow> answers BindingTest1 \<noteq> Silent"
  by (auto simp: obs_other_def heard_other_def)

lemma obs_mapped_silent: "answers test \<noteq> Silent \<or> obs_mapped env answers test = None"
  by (auto simp: obs_mapped_def heard_mapped_def)

text \<open>The first behavior test, as far as it is carried out.\<close>

lemma report_behavior1:
  assumes "obs_other env answers \<noteq> None" "\<not> obs_direct env answers local" "r = report_binding env answers primary local"
  shows "spec_step env answers primary r BehaviorTest1 =
    (if answers BehaviorTest1 = Silent then r\<lparr>didBindingTestSuccess := False\<rparr>
     else case obs_mapped env answers BehaviorTest1 of
         None \<Rightarrow> r
       | Some a \<Rightarrow>
           if obs_same_mapping env answers BehaviorTest1
           then r\<lparr>mappedOtherServerPrimaryPortAddr := a, didBehaviorTestSuccess := True, natBehavior := EndpointIndependentMapping\<rparr>
           else r\<lparr>mappedOtherServerPrimaryPortAddr := a\<rparr>)"
proof (cases "answers BehaviorTest1")
  case Silent
  with assms show ?thesis
    by (simp add: spec_step_def spec_skips_def spec_answer_def fail_check_def test_check_def)
next
  case (Answer n addr as)
  have "spec_step env answers primary r BehaviorTest1 =
      behavior1_result (answer_response (en_endian (env BehaviorTest1)) as) r"
    using assms Answer by (simp add: spec_step_def spec_skips_def spec_answer_def test_result_def)
  then show ?thesis
    using behavior1_result_heard [of "en_endian (env BehaviorTest1)" as r n addr] assms(3) Answer
    by (simp add: obs_same_mapping_def obs_mapped_def split: option.split)
qed

lemma report_behavior2:
  assumes "\<not> didBehaviorTestSuccess r" "net_addr_is_valid (mappedOtherServerPrimaryPortAddr r)"
    and "mappedAddr r = addr_or_zero (obs_mapped env answers BindingTest1)"
  shows "spec_step env answers primary r BehaviorTest2 =
    (if answers BehaviorTest2 = Silent then r\<lparr>didBindingTestSuccess := False\<rparr>
     else case obs_mapped env answers BehaviorTest2 of
         None \<Rightarrow> r
       | Some a \<Rightarrow> r\<lparr>mappedOtherServerAddr := a, didBehaviorTestSuccess := True,
           natBehavior := if obs_same_mapping env answers BehaviorTest2 then AddressDependentMapping else AddressAndPortDependentMapping\<rparr>)"
proof (cases "answers BehaviorTest2")
  case Silent
  with assms show ?thesis
    by (simp add: spec_step_def spec_skips_def spec_answer_def fail_check_def test_check_def)
next
  case (Answer n addr as)
  have "spec_step env answers primary r BehaviorTest2 = behavior2_result (answer_response (en_endian (env BehaviorTest2)) as) r"
    using assms Answer by (simp add: spec_step_def spec_skips_def spec_answer_def test_result_def)
  then show ?thesis
    using behavior2_result_heard [of "en_endian (env BehaviorTest2)" as r n addr] assms(3) Answer
    by (simp add: obs_same_mapping_def obs_mapped_def split: option.split)
qed

lemma skip_behavior2:
  assumes "didBehaviorTestSuccess r \<or> \<not> net_addr_is_valid (mappedOtherServerPrimaryPortAddr r)"
  shows "spec_step env answers primary r BehaviorTest2 = r"
  using assms by (cases r) (auto simp: spec_step_def spec_skips_def spec_skipped_def)

lemma report_mapping_binding:
  "report_mapping env answers primary local = (report_binding env answers primary local)\<lparr>
     didBindingTestSuccess := \<forall>test \<in> {BindingTest1, BehaviorTest1, BehaviorTest2}. \<not> unanswered env answers local test,
     didBehaviorTestSuccess := report_behavior env answers local \<noteq> UnknownBehavior, natBehavior := report_behavior env answers local,
     mappedOtherServerPrimaryPortAddr := addr_or_zero (test_mapped env answers local BehaviorTest1),
     mappedOtherServerAddr := addr_or_zero (test_mapped env answers local BehaviorTest2)\<rparr>"
  by (simp add: report_mapping_def report_binding_def stun_report_def Let_def)

lemma report_after_behavior:
  "spec_step env answers primary (spec_step env answers primary (report_binding env answers primary local) BehaviorTest1) BehaviorTest2 =
    report_mapping env answers primary local"
proof -
  let ?r = "report_binding env answers primary local" and ?m = "obs_mapped env answers BehaviorTest1"
  have zero: "mappedOtherServerAddr ?r = sockaddr_zero" "natBehavior ?r = UnknownBehavior"
    by (simp_all add: report_binding_def)
  have fields: "mappedAddr ?r = addr_or_zero (obs_mapped env answers BindingTest1)" "\<not> didBehaviorTestSuccess ?r"
    by simp_all
  note parts = unanswered_def test_mapped_def carried_out_def report_behavior_def Let_def
  consider "obs_direct env answers local" | "obs_other env answers = None" "\<not> obs_direct env answers local"
    | "obs_other env answers \<noteq> None" "\<not> obs_direct env answers local"
    by blast
  then show ?thesis
  proof cases
    case 1
    then show ?thesis
      using obs_direct_answered [OF 1] zero fields unfolding report_mapping_binding
      by (simp add: spec_step_def spec_skips_def spec_skipped_def parts)
  next
    case 2
    then have "spec_step env answers primary ?r BehaviorTest1 = ?r"
      using fields by (simp add: spec_step_def spec_skips_def spec_skipped_def)
    then show ?thesis
      using 2 zero fields skip_behavior2 [of ?r] unfolding report_mapping_binding
      by (simp add: parts)
  next
    case 3
    note first = report_behavior1 [OF 3 refl, of primary] and answered = obs_other_answered [OF 3(1)]
    show ?thesis
    proof (cases ?m)
      case None
      then show ?thesis
        using 3 answered zero fields unfolding report_mapping_binding
        by (simp add: first skip_behavior2 parts obs_same_mapping_def)
    next
      case (Some a)
      then have valid: "net_addr_is_valid a" and b1: "answers BehaviorTest1 \<noteq> Silent"
        using heard_mapped_valid [of _ "answers BehaviorTest1" a] by (auto simp: obs_mapped_def heard_mapped_def)
      show ?thesis
      proof (cases "obs_same_mapping env answers BehaviorTest1")
        case True
        then show ?thesis
          using Some b1 3 answered zero fields unfolding report_mapping_binding
          by (simp add: first skip_behavior2 parts)
      next
        case False
        let ?r1 = "?r\<lparr>mappedOtherServerPrimaryPortAddr := a\<rparr>"
        have "spec_step env answers primary ?r BehaviorTest1 = ?r1"
          using False Some b1 by (simp add: first)
        moreover have second: "spec_step env answers primary ?r1 BehaviorTest2 =
            (if answers BehaviorTest2 = Silent then ?r1\<lparr>didBindingTestSuccess := False\<rparr>
             else case obs_mapped env answers BehaviorTest2 of
                 None \<Rightarrow> ?r1
               | Some b \<Rightarrow> ?r1\<lparr>mappedOtherServerAddr := b, didBehaviorTestSuccess := True,
                   natBehavior := if obs_same_mapping env answers BehaviorTest2 then AddressDependentMapping else AddressAndPortDependentMapping\<rparr>)"
          using valid by (intro report_behavior2) simp_all
        moreover have "carried_out env answers local BehaviorTest1" "carried_out env answers local BehaviorTest2"
          using 3 False Some by (simp_all add: carried_out_def)
        ultimately show ?thesis
          using False Some b1 3(2) answered zero fields obs_mapped_silent [of answers BehaviorTest2 env] unfolding report_mapping_binding
          by (cases "obs_mapped env answers BehaviorTest2"; intro StunResults.equality)
            (simp_all add: unanswered_def test_mapped_def report_behavior_def)
      qed
    qed
  qed
qed

lemma report_mapping_fields [simp]:
  "isMappingDirect (report_mapping env answers primary local) = obs_direct env answers local"
  "hasOtherServerAddress (report_mapping env answers primary local) \<longleftrightarrow> obs_other env answers \<noteq> None"
  "otherServerAddr (report_mapping env answers primary local) = addr_or_zero (obs_other env answers)"
  "didFilteringTestSuccess (report_mapping env answers primary local) = False"
  "natFiltering (report_mapping env answers primary local) = UnknownFiltering"
  by (simp_all add: report_mapping_def stun_report_def Let_def)

lemma report_mapping_binding_success:
  "obs_direct env answers local \<Longrightarrow> didBindingTestSuccess (report_mapping env answers primary local)"
  by (simp add: report_mapping_def stun_report_def unanswered_def carried_out_def obs_direct_answered Let_def)

text \<open>A filtering test that is carried out concludes something only from an answer of the other server.\<close>

lemma report_filtering_test:
  assumes "test = FilteringTest1 \<or> test = FilteringTest2" "\<not> spec_skips test r" "otherServerAddr r = addr_or_zero (obs_other env answers)"
    and "obs_other env answers \<noteq> None" "\<not> didFilteringTestSuccess r"
  shows "spec_step env answers primary r test =
    (if obs_from_other env answers test
     then r\<lparr>didFilteringTestSuccess := True,
       natFiltering := if test = FilteringTest1 then EndpointIndependentFiltering else AddressDependentFiltering\<rparr>
     else r)"
proof -
  obtain other where other: "obs_other env answers = Some other"
    using assms(4) by blast
  show ?thesis
    using assms(1-3,5) other
    by (cases "answers test") (auto simp: spec_step_def spec_answer_def fail_check_def test_check_def test_result_def filtering1_result_def
        filtering2_result_def net_addr_is_equal_same obs_from_other_def heard_from_def)
qed

lemma report_after_filtering:
  "spec_step env answers primary (spec_step env answers primary (report_mapping env answers primary local) FilteringTest1) FilteringTest2 =
    stun_report env answers primary local"
proof -
  let ?r = "report_mapping env answers primary local" and ?f = "report_filtering env answers local"
  have report: "stun_report env answers primary local = ?r\<lparr>didFilteringTestSuccess := ?f \<noteq> UnknownFiltering, natFiltering := ?f\<rparr>"
    by (simp add: report_mapping_def stun_report_def Let_def)
  consider "obs_direct env answers local" | "obs_other env answers = None" "\<not> obs_direct env answers local"
    | "obs_other env answers \<noteq> None" "\<not> obs_direct env answers local"
    by blast
  then show ?thesis
  proof cases
    case 1
    then show ?thesis
      using report_mapping_binding_success [OF 1, of primary] unfolding report
      by (simp add: spec_step_def spec_skips_def spec_skipped_def report_filtering_def)
  next
    case 2
    then show ?thesis
      unfolding report by (simp add: spec_step_def spec_skips_def spec_skipped_def report_filtering_def carried_out_def)
  next
    case 3
    have first: "spec_step env answers primary ?r FilteringTest1 =
        (if obs_from_other env answers FilteringTest1
         then ?r\<lparr>didFilteringTestSuccess := True, natFiltering := EndpointIndependentFiltering\<rparr> else ?r)"
      using 3 report_filtering_test [of FilteringTest1 ?r env answers primary] by (simp add: spec_skips_def)
    show ?thesis
    proof (cases "obs_from_other env answers FilteringTest1")
      case True
      then show ?thesis
        using 3 first unfolding report by (simp add: spec_step_def spec_skips_def spec_skipped_def report_filtering_def carried_out_def)
    next
      case False
      then show ?thesis
        using 3 first report_filtering_test [of FilteringTest2 ?r env answers primary] unfolding report
        by (simp add: spec_skips_def report_filtering_def carried_out_def)
    qed
  qed
qed

lemma stun_spec_report: "stun_spec env answers primary local = stun_report env answers primary local"
  by (simp add: stun_spec_def stun_order_def report_after_binding report_after_behavior report_after_filtering)

section \<open>The datagrams\<close>

lemma answer_retries_times: "Suc (answer_retries kStunDefaultRetries answer) = report_times answer"
  by (simp add: answer_retries_def report_times_def split: stun_answer.split)

lemma skips_behavior1:
  "spec_skips BehaviorTest1 (report_binding env answers primary local) \<longleftrightarrow> \<not> carried_out env answers local BehaviorTest1"
  using obs_direct_answered [of env answers local] by (auto simp: spec_skips_def carried_out_def Let_def)

lemma skips_behavior2:
  "spec_skips BehaviorTest2 (spec_step env answers primary (report_binding env answers primary local) BehaviorTest1) \<longleftrightarrow>
    \<not> carried_out env answers local BehaviorTest2"
proof (cases "carried_out env answers local BehaviorTest1")
  case False
  then have "spec_skips BehaviorTest1 (report_binding env answers primary local)"
    by (simp add: skips_behavior1)
  with False show ?thesis
    by (auto simp: spec_step_def spec_skips_def spec_skipped_def carried_out_def Let_def)
next
  case True
  then have further: "obs_other env answers \<noteq> None" "\<not> obs_direct env answers local"
    by (simp_all add: carried_out_def Let_def)
  show ?thesis
    unfolding report_behavior1 [OF further refl]
    using further heard_mapped_valid obs_mapped_silent [of answers BehaviorTest1 env]
    by (auto simp: spec_skips_def carried_out_def obs_mapped_def obs_same_mapping_def Let_def split: option.split)
qed

lemma skips_filtering1:
  "spec_skips FilteringTest1 (report_mapping env answers primary local) \<longleftrightarrow> \<not> carried_out env answers local FilteringTest1"
  using report_mapping_binding_success [of env answers local primary] by (auto simp: spec_skips_def carried_out_def Let_def)

lemma skips_filtering2:
  "spec_skips FilteringTest2 (spec_step env answers primary (report_mapping env answers primary local) FilteringTest1) \<longleftrightarrow>
    \<not> carried_out env answers local FilteringTest2"
proof (cases "carried_out env answers local FilteringTest1")
  case False
  then have "spec_skips FilteringTest1 (report_mapping env answers primary local)"
    by (simp add: skips_filtering1)
  with False show ?thesis
    by (auto simp: spec_step_def spec_skips_def spec_skipped_def carried_out_def Let_def)
next
  case True
  then have "obs_other env answers \<noteq> None" "\<not> obs_direct env answers local"
    by (simp_all add: carried_out_def Let_def)
  moreover have "\<not> spec_skips FilteringTest1 (report_mapping env answers primary local)"
    using True by (simp add: skips_filtering1)
  ultimately show ?thesis
    by (simp add: report_filtering_test) (auto simp: spec_skips_def carried_out_def Let_def)
qed

lemma target_behavior1:
  assumes "obs_other env answers \<noteq> None"
  shows "otherServerPrimaryPortAddr (report_binding env answers primary local) = report_target env answers primary BehaviorTest1"
  using assms by (auto simp: report_binding_def stun_report_def report_target_def Let_def)

lemma target_behavior2:
  "otherServerAddr (spec_step env answers primary (report_binding env answers primary local) BehaviorTest1) =
    report_target env answers primary BehaviorTest2"
proof -
  have "otherServerAddr (report_binding env answers primary local) = addr_or_zero (obs_other env answers)"
    by (simp add: report_binding_def stun_report_def Let_def)
  then show ?thesis
    by (simp add: spec_step_def spec_skipped_def spec_answer_def test_result_def behavior1_result_def fail_check_def test_check_def
        report_target_def Let_def split: stun_answer.split)
qed

lemma spec_wire_report:
  assumes "map fst ids = stun_order"
  shows "spec_wire env answers primary (zero_results\<lparr>localAddr := local\<rparr>) ids = report_wire env answers primary local (the \<circ> map_of ids)"
proof -
  obtain i1 i2 i3 i4 i5 where ids: "ids = [(BindingTest1, i1), (BehaviorTest1, i2), (BehaviorTest2, i3), (FilteringTest1, i4), (FilteringTest2, i5)]"
    using assms by (auto simp: stun_order_def)
  have first: "\<not> spec_skips BindingTest1 r" "carried_out env answers local BindingTest1" for r
    by (simp_all add: spec_skips_def carried_out_def)
  have other: "carried_out env answers local BehaviorTest1 \<Longrightarrow> obs_other env answers \<noteq> None"
    by (simp add: carried_out_def Let_def)
  show ?thesis
    using other
    by (simp add: ids spec_requests_def report_wire_def stun_order_def report_after_binding report_after_behavior report_after_filtering first
        skips_behavior1 skips_behavior2 skips_filtering1 skips_filtering2 answer_retries_times stun_target_def target_behavior1 target_behavior2
        report_target_def [of _ _ _ BindingTest1] report_target_def [of _ _ _ FilteringTest1] report_target_def [of _ _ _ FilteringTest2])
qed

section \<open>Properties\<close>

text \<open>
  (C6) Every run in which each test gets one answer or none ends and refines the specification. From a created client on an
  idle socket, if the name of the server resolves, and if each of the five tests either gets one well-formed
  response with its own transaction id, after at most two retransmissions and from any address, or gets none at all: no step faults, the
  results are those the description above makes of the answers, exactly one of the two blocks of the
  client is called, which one depending on the report, every packet and every block of the tests
  has been given back, and the socket has sent exactly the requests of the tests that are
  carried out, one to three times each. After a success the socket delivers to its old receiver again. Destroying
  the client afterwards releases the three blocks it has left. Datagrams that answer no pending test are not part
  of these runs: what they can do is the subject of separate theorems.
\<close>

theorem stun_refines_spec:
  assumes "stunCreate malloc mem c r f s host = Some stun" "socket_idle own s" "stun_world env answers"
    and "stun_resolves (env BindingTest1) stun primary" "R = stun_report env answers primary (stun_local env s)" "0 \<notin> {c, f, r}"
  shows "\<exists>stun' s' ids. stun_run env answers stun = Some stun' \<and> sn_results stun' = R \<and>
    sn_notices stun' = sn_notices stun @ [if didBindingTestSuccess R then DidResolve else DidFailResolve] \<and>
    sn_didResolve stun' = didBindingTestSuccess R \<and> sn_tasks stun' = [] \<and> sn_blocks stun' = sn_blocks stun \<and>
    stunDestroy (Some stun') = Some (Some (stun'\<lparr>sn_blocks := []\<rparr>)) \<and> sn_socket stun' = Some s' \<and> socket_idle own s' \<and> sk_refs s' = sk_refs s \<and>
    (\<forall>test. length (ids test) = kStunTransactionIdLen) \<and> sk_wire s' = sk_wire s @ report_wire env answers primary (stun_local env s) ids \<and>
    (didBindingTestSuccess R \<longrightarrow> sk_receivers s' = sk_receivers s)"
proof -
  have stun: "sn_blocks stun = [c, f, r]" "sn_testDidComplete stun = c" "sn_stunDidResolve stun = r" "sn_stunDidFailResolve stun = f"
    using assms(1) by (auto simp: stunCreate_def split: if_splits)
  have destroy: "stunDestroy (Some stun') = Some (Some (stun'\<lparr>sn_blocks := []\<rparr>))"
    if "\<forall>test. \<exists>t. sn_tests stun' test = Some t \<and> stt_isCompleted t" "sn_blocks stun' = sn_blocks stun"
      "sn_testDidComplete stun' = sn_testDidComplete stun" "sn_stunDidResolve stun' = sn_stunDidResolve stun"
      "sn_stunDidFailResolve stun' = sn_stunDidFailResolve stun" for stun'
    using stunDestroy_completed [OF that(1) _ assms(6)] that(2-5) stun by simp
  have lengths: "\<forall>test. length ((the \<circ> map_of ids) test) = kStunTransactionIdLen"
    if "map fst ids = stun_order" "\<forall>i \<in> snd ` set ids. length i = kStunTransactionIdLen" for ids :: "(stun_test \<times> StunTransactionId) list"
  proof
    fix test
    have "test \<in> fst ` set ids"
      using that(1) [THEN arg_cong [of _ _ set]] by (cases test) (simp_all add: stun_order_def)
    then obtain i where "map_of ids test = Some i" "i \<in> snd ` set ids"
      by (metis map_of_SomeD map_of_eq_None_iff not_None_eq snd_conv image_eqI)
    then show "length ((the \<circ> map_of ids) test) = kStunTransactionIdLen"
      using that(2) by auto
  qed
  obtain stun' s' ids where run: "stun_run env answers stun = Some stun'" "sn_results stun' = R"
      "sn_notices stun' = sn_notices stun @ [if didBindingTestSuccess R then DidResolve else DidFailResolve]"
      "sn_didResolve stun' = didBindingTestSuccess R" "sn_tasks stun' = []" "sn_blocks stun' = sn_blocks stun"
      "sn_testDidComplete stun' = sn_testDidComplete stun" "sn_stunDidResolve stun' = sn_stunDidResolve stun"
      "sn_stunDidFailResolve stun' = sn_stunDidFailResolve stun" "\<forall>test. \<exists>t. sn_tests stun' test = Some t \<and> stt_isCompleted t"
      "sn_socket stun' = Some s'" "socket_idle own s'" "sk_refs s' = sk_refs s" "map fst ids = stun_order"
      "\<forall>i \<in> snd ` set ids. length i = kStunTransactionIdLen"
      "sk_wire s' = sk_wire s @ spec_wire env answers primary (zero_results\<lparr>localAddr := stun_local env s\<rparr>) ids"
      "didBindingTestSuccess R \<longrightarrow> sk_receivers s' = sk_receivers s"
    using stun_run_ends [OF stunCreate_idle [OF assms(1,2)] assms(3,4), of R] assms(5) stun_spec_report
    by (elim exE conjE meta_impE) (auto split: if_splits)
  show ?thesis
    using run(1-6,11-13,17) destroy [OF run(10,6-9)] lengths [OF run(14,15)] run(16) [unfolded spec_wire_report [OF run(14)]] by blast
qed

definition sample_answers :: "stun_test \<Rightarrow> stun_answer" where
  "sample_answers test = (if test = BindingTest1 then Answer 1 sample_server [AttrXorMapped 5 7] else Silent)"

lemma sample_world: "stun_world (\<lambda>_. sample_stun_env) sample_answers"
  by (simp add: stun_world_def stun_order_def sample_stun_env_ok answer_ok_def sample_answers_def enc_stun_body_def)

lemma sample_report:
  "didBindingTestSuccess (stun_report (\<lambda>_. sample_stun_env) sample_answers primary local)"
  "map fst (report_wire (\<lambda>_. sample_stun_env) sample_answers sample_server local ids) = [sample_server, sample_server]"
proof -
  have "carried_out (\<lambda>_. sample_stun_env) sample_answers local test \<longleftrightarrow> test = BindingTest1" for test
    by (cases test) (simp_all add: carried_out_def obs_other_def heard_other_def sample_answers_def addrs_defs)
  then show "didBindingTestSuccess (stun_report (\<lambda>_. sample_stun_env) sample_answers primary local)"
    "map fst (report_wire (\<lambda>_. sample_stun_env) sample_answers sample_server local ids) = [sample_server, sample_server]"
    by (simp_all add: stun_report_def unanswered_def report_wire_def stun_order_def report_times_def report_target_def sample_answers_def
        numeral_2_eq_2 Let_def)
qed

theorem stun_refines_spec_witness:
  "\<exists>stun' s'. stun_run (\<lambda>_. sample_stun_env) sample_answers sample_stun = Some stun' \<and> sn_notices stun' = [DidResolve] \<and>
    sn_socket stun' = Some s' \<and> map fst (sk_wire s') = [sample_server, sample_server]"
proof -
  have "(0 :: ptr) \<notin> {401, 403, 402}"
    by simp
  note run = stun_refines_spec [OF sample_stun_created sample_socket_idle sample_world sample_stun_resolves refl this]
  have "sk_wire sample_socket = []"
    using create_fields [OF sample_socket_created(1)] by simp
  then show ?thesis
    using run sample_report
    by (elim exE conjE) (auto simp: sample_stun_fields)
qed

end
