(* ===== verification/Stun_Nat.thy ===== *)
theory Stun_Nat
  imports Stun
begin

text \<open>
  What the client of \<^verbatim>\<open>stun.c\<close> reports about an address translator, against a server that follows the
  protocol: the mapping is a function of the destination, the filter lets packets in by the
  destinations the mapping was used for. The reports are compared with what they claim; then
  what a lost answer, a stray response and a packet of another protocol do to a run.
\<close>

section \<open>Translators and servers\<close>

datatype nat_filter = PassAll | PassAddress | PassAddressPort

definition nat_passes :: "nat_filter \<Rightarrow> net_addr_t list \<Rightarrow> net_addr_t \<Rightarrow> bool" where
  "nat_passes k peers src =
     (case k of
        PassAll \<Rightarrow> True
      | PassAddress \<Rightarrow> list_ex (\<lambda>d. sin_addr d = sin_addr src) peers
      | PassAddressPort \<Rightarrow> list_ex (\<lambda>d. net_addr_is_equal d src) peers)"

text \<open>The other addresses of a server with two hosts and two ports.\<close>

definition other_server :: "endian \<Rightarrow> u32 \<Rightarrow> u16 \<Rightarrow> net_addr_t" where
  "other_server e host port = net_addr_set e host port True"

definition other_host :: "endian \<Rightarrow> net_addr_t \<Rightarrow> net_addr_t \<Rightarrow> net_addr_t" where
  "other_host e primary other = net_addr_set e (sin_addr other) (sin_port primary) False"

definition other_port :: "endian \<Rightarrow> net_addr_t \<Rightarrow> net_addr_t \<Rightarrow> net_addr_t" where
  "other_port e primary other = net_addr_set e (sin_addr primary) (sin_port other) False"

text \<open>
  \<open>m\<close> is the mapped host and port for a destination. The destinations that share the mapping of the
  primary address when the filtering tests are made: those of the binding test and of the behavior
  tests that are carried out.
\<close>

definition nat_peers :: "(net_addr_t \<Rightarrow> u32 \<times> u16) \<Rightarrow> endian \<Rightarrow> net_addr_t \<Rightarrow> net_addr_t \<Rightarrow> net_addr_t list" where
  "nat_peers m e primary other =
     filter (\<lambda>d. m d = m primary)
       ([primary, other_host e primary other] @ (if m (other_host e primary other) = m primary then [] else [other]))"

definition nat_mapped :: "(net_addr_t \<Rightarrow> u32 \<times> u16) \<Rightarrow> net_addr_t \<Rightarrow> stun_attr" where
  "nat_mapped m d = AttrXorMapped (fst (m d)) (snd (m d))"

definition nat_answers ::
    "(net_addr_t \<Rightarrow> u32 \<times> u16) \<Rightarrow> nat_filter \<Rightarrow> endian \<Rightarrow> net_addr_t \<Rightarrow> u32 \<Rightarrow> u16 \<Rightarrow> stun_test \<Rightarrow> stun_answer" where
  "nat_answers m k e primary oh op test =
     (let other = other_server e oh op;
          reply = (\<lambda>src. if nat_passes k (nat_peers m e primary other) src then Answer 0 src [nat_mapped m primary] else Silent)
      in case test of
           BindingTest1 \<Rightarrow> Answer 0 primary [nat_mapped m primary, AttrAlternate True oh op]
         | BehaviorTest1 \<Rightarrow> Answer 0 (other_host e primary other) [nat_mapped m (other_host e primary other)]
         | BehaviorTest2 \<Rightarrow> Answer 0 other [nat_mapped m other]
         | FilteringTest1 \<Rightarrow> reply other
         | FilteringTest2 \<Rightarrow> reply (other_port e primary other))"

definition nat_addr :: "(net_addr_t \<Rightarrow> u32 \<times> u16) \<Rightarrow> endian \<Rightarrow> net_addr_t \<Rightarrow> net_addr_t" where
  "nat_addr m e d = net_addr_set e (fst (m d)) (snd (m d)) True"

text \<open>What the client makes of it.\<close>

definition reported_behavior :: "(net_addr_t \<Rightarrow> u32 \<times> u16) \<Rightarrow> endian \<Rightarrow> net_addr_t \<Rightarrow> net_addr_t \<Rightarrow> StunNatBehavior" where
  "reported_behavior m e primary other =
     (if m (other_host e primary other) = m primary then EndpointIndependentMapping
      else if m other = m primary then AddressDependentMapping
      else AddressAndPortDependentMapping)"

lemma net_addr_set_equal [simp]:
  "net_addr_is_equal (net_addr_set e h p True) (net_addr_set e h' p' True) \<longleftrightarrow> h = h' \<and> p = p'"
  by (auto simp: net_addr_is_equal_def net_addr_set_def)

lemma net_addr_set_valid [simp]: "net_addr_is_valid (net_addr_set e h p c)"
  by (simp add: net_addr_is_valid_def net_addr_is_equal_def net_addr_set_def sockaddr_zero_def)

lemma nat_addr_equal [simp]: "net_addr_is_equal (nat_addr m e d) (nat_addr m e d') \<longleftrightarrow> m d = m d'"
  by (auto simp: nat_addr_def prod_eq_iff)

lemma nat_response [simp]:
  "answer_response e [nat_mapped m d] = zero_binding_response\<lparr>xorMappedAddressAddr := nat_addr m e d, hasXorMappedAddress := True\<rparr>"
  by (simp add: answer_response_def nat_mapped_def nat_addr_def)

section \<open>The tests against such a server\<close>

definition nat_results1 :: "(net_addr_t \<Rightarrow> u32 \<times> u16) \<Rightarrow> endian \<Rightarrow> net_addr_t \<Rightarrow> net_addr_t \<Rightarrow> net_addr_t \<Rightarrow> StunResults" where
  "nat_results1 m e primary other local =
     zero_results\<lparr>didBindingTestSuccess := True, localAddr := local, mappedAddr := nat_addr m e primary, hasOtherServerAddress := True,
       otherServerPrimaryHostAddr := other_port e primary other, otherServerPrimaryPortAddr := other_host e primary other, otherServerAddr := other\<rparr>"

lemma nat_binding:
  assumes "answers = nat_answers m k e primary oh op" "en_endian (env BindingTest1) = e" "\<not> net_addr_is_equal (nat_addr m e primary) local"
  shows "spec_step env answers primary (zero_results\<lparr>localAddr := local\<rparr>) BindingTest1 = nat_results1 m e primary (other_server e oh op) local"
  using assms
  by (simp add: spec_step_def spec_skips_def spec_answer_def nat_answers_def test_result_def binding_result_def answer_response_def nat_mapped_def
      zero_binding_response_def nat_results1_def zero_results_def other_host_def other_port_def other_server_def nat_addr_def net_addr_copy_def Let_def)

definition nat_results2 :: "(net_addr_t \<Rightarrow> u32 \<times> u16) \<Rightarrow> endian \<Rightarrow> net_addr_t \<Rightarrow> net_addr_t \<Rightarrow> net_addr_t \<Rightarrow> StunResults" where
  "nat_results2 m e primary other local =
     (let r = (nat_results1 m e primary other local)\<lparr>mappedOtherServerPrimaryPortAddr := nat_addr m e (other_host e primary other)\<rparr>
      in if m (other_host e primary other) = m primary
         then r\<lparr>didBehaviorTestSuccess := True, natBehavior := EndpointIndependentMapping\<rparr>
         else r\<lparr>mappedOtherServerAddr := nat_addr m e other, didBehaviorTestSuccess := True, natBehavior := reported_behavior m e primary other\<rparr>)"

lemma nat_behavior:
  assumes "answers = nat_answers m k e primary oh op" "en_endian (env BehaviorTest1) = e" "en_endian (env BehaviorTest2) = e"
  shows "spec_step env answers primary (spec_step env answers primary (nat_results1 m e primary (other_server e oh op) local) BehaviorTest1) BehaviorTest2
    = nat_results2 m e primary (other_server e oh op) local"
proof -
  let ?other = "other_server e oh op" and ?r = "nat_results1 m e primary (other_server e oh op) local"
  let ?r2 = "?r\<lparr>mappedOtherServerPrimaryPortAddr := nat_addr m e (other_host e primary ?other)\<rparr>"
  have valid: "net_addr_is_valid (nat_addr m e (other_host e primary ?other))"
    by (simp add: nat_addr_def)
  have "spec_step env answers primary ?r BehaviorTest1 =
      (if m (other_host e primary ?other) = m primary then ?r2\<lparr>didBehaviorTestSuccess := True, natBehavior := EndpointIndependentMapping\<rparr> else ?r2)"
    using assms(1,2)
    by (simp add: spec_step_def spec_skips_def spec_answer_def nat_answers_def test_result_def behavior1_result_def
        nat_results1_def zero_results_def zero_binding_response_def net_addr_copy_def Let_def)
  then show ?thesis
    using assms(1,3) valid
    by (simp add: spec_step_def spec_skips_def spec_skipped_def spec_answer_def nat_answers_def test_result_def behavior2_result_def nat_results2_def
        reported_behavior_def nat_results1_def zero_results_def zero_binding_response_def net_addr_copy_def Let_def)
qed

lemma nat_results2_fields [simp]:
  "didBindingTestSuccess (nat_results2 m e primary other local)" "\<not> isMappingDirect (nat_results2 m e primary other local)"
  "hasOtherServerAddress (nat_results2 m e primary other local)" "otherServerAddr (nat_results2 m e primary other local) = other"
  "\<not> didFilteringTestSuccess (nat_results2 m e primary other local)" "natFiltering (nat_results2 m e primary other local) = UnknownFiltering"
  "didBehaviorTestSuccess (nat_results2 m e primary other local)" "natBehavior (nat_results2 m e primary other local) = reported_behavior m e primary other"
  "mappedAddr (nat_results2 m e primary other local) = nat_addr m e primary"
  by (simp_all add: nat_results2_def nat_results1_def zero_results_def reported_behavior_def Let_def)

lemma nat_filtering:
  assumes "answers = nat_answers m k e primary oh op" "other = other_server e oh op" "sin_addr other \<noteq> sin_addr primary"
  shows "spec_step env answers primary (spec_step env answers primary (nat_results2 m e primary other local) FilteringTest1) FilteringTest2
    = (nat_results2 m e primary other local)\<lparr>didFilteringTestSuccess := nat_passes k (nat_peers m e primary other) other,
        natFiltering := if nat_passes k (nat_peers m e primary other) other then EndpointIndependentFiltering else UnknownFiltering\<rparr>"
proof -
  let ?r = "nat_results2 m e primary other local" and ?pass = "nat_passes k (nat_peers m e primary other)"
  have refl: "net_addr_is_equal other other"
    by (simp add: net_addr_is_equal_def)
  have "spec_step env answers primary ?r FilteringTest1 =
      (if ?pass other then ?r\<lparr>didFilteringTestSuccess := True, natFiltering := EndpointIndependentFiltering\<rparr> else ?r\<lparr>didFilteringTestSuccess := False\<rparr>)"
    using assms(1,2) refl
    by (simp add: spec_step_def spec_skips_def spec_answer_def nat_answers_def test_result_def filtering1_result_def test_check_def fail_check_def Let_def)
  moreover have "\<not> net_addr_is_equal other (other_port e primary other)"
    using assms(3) by (simp add: net_addr_is_equal_def other_port_def net_addr_set_def)
  moreover have "?r\<lparr>didFilteringTestSuccess := False\<rparr> = ?r\<lparr>didFilteringTestSuccess := False, natFiltering := UnknownFiltering\<rparr>"
    by (auto intro!: StunResults.equality)
  ultimately show ?thesis
    using assms(1,2)
    by (simp add: spec_step_def spec_skips_def spec_skipped_def spec_answer_def nat_answers_def test_result_def filtering2_result_def test_check_def
        fail_check_def Let_def)
qed

lemma nat_spec:
  assumes "answers = nat_answers m k e primary oh op" "other = other_server e oh op" "sin_addr other \<noteq> sin_addr primary"
    and "\<forall>test. en_endian (env test) = e" "\<not> net_addr_is_equal (nat_addr m e primary) local"
  shows "stun_spec env answers primary local = (nat_results2 m e primary other local)\<lparr>
    didFilteringTestSuccess := nat_passes k (nat_peers m e primary other) other,
    natFiltering := if nat_passes k (nat_peers m e primary other) other then EndpointIndependentFiltering else UnknownFiltering\<rparr>"
  using nat_binding [OF assms(1) _ assms(5), of env] nat_behavior [OF assms(1), of env local] nat_filtering [OF assms(1-3), of env local] assms(2,4)
  by (simp add: stun_spec_def stun_order_def)

lemma nat_world:
  assumes "answers = nat_answers m k e primary oh op" "\<forall>test. stun_env_ok (env test)" "\<forall>test. en_endian (env test) = e"
  shows "stun_world env answers"
  using assms
  by (simp add: stun_world_def stun_order_def answer_ok_def nat_answers_def nat_mapped_def enc_stun_body_def Let_def)

text \<open>The destinations of the datagrams of such a run.\<close>

definition nat_destinations :: "(net_addr_t \<Rightarrow> u32 \<times> u16) \<Rightarrow> nat_filter \<Rightarrow> endian \<Rightarrow> net_addr_t \<Rightarrow> net_addr_t \<Rightarrow> net_addr_t list" where
  "nat_destinations m k e primary other =
     [primary, other_host e primary other] @ (if m (other_host e primary other) = m primary then [] else [other]) @
     (if nat_passes k (nat_peers m e primary other) other then [primary]
      else replicate 3 primary @ replicate (if nat_passes k (nat_peers m e primary other) (other_port e primary other) then 1 else 3) primary)"

lemma replicate_twice: "replicate 2 x = [x, x]"
  by (simp add: numeral_2_eq_2)

lemma nat_wire:
  assumes "answers = nat_answers m k e primary oh op" "other = other_server e oh op" "sin_addr other \<noteq> sin_addr primary"
    and "\<forall>test. en_endian (env test) = e" "\<not> net_addr_is_equal (nat_addr m e primary) local" "map fst ids = stun_order"
  shows "map fst (spec_wire env answers primary (zero_results\<lparr>localAddr := local\<rparr>) ids) = nat_destinations m k e primary other"
proof -
  let ?r1 = "nat_results1 m e primary other local" and ?step = "spec_step env answers primary" and ?pass = "nat_passes k (nat_peers m e primary other)"
  let ?r2 = "nat_results2 m e primary other local"
  obtain i1 i2 i3 i4 i5 where ids: "ids = [(BindingTest1, i1), (BehaviorTest1, i2), (BehaviorTest2, i3), (FilteringTest1, i4), (FilteringTest2, i5)]"
    using assms(6) by (auto simp: stun_order_def)
  have r1: "?step (zero_results\<lparr>localAddr := local\<rparr>) BindingTest1 = ?r1"
    using nat_binding [OF assms(1) _ assms(5), of env] assms(2,4) by simp
  have r2: "?step (?step ?r1 BehaviorTest1) BehaviorTest2 = ?r2"
    using nat_behavior [OF assms(1), of env local] assms(2,4) by simp
  have valid: "net_addr_is_valid (nat_addr m e (other_host e primary other))"
    by (simp add: nat_addr_def)
  note defs = spec_requests_def spec_skips_def stun_target_def answer_retries_def nat_answers_def Let_def
  have w1: "map fst (spec_requests env answers primary (zero_results\<lparr>localAddr := local\<rparr>) BindingTest1 i1) = [primary]"
    using assms(1) by (simp add: defs)
  have w2: "map fst (spec_requests env answers primary ?r1 BehaviorTest1 i2) = [other_host e primary other]"
    using assms(1,2) by (simp add: defs nat_results1_def zero_results_def)
  have "didBehaviorTestSuccess (?step ?r1 BehaviorTest1) \<longleftrightarrow> m (other_host e primary other) = m primary"
      "otherServerAddr (?step ?r1 BehaviorTest1) = other" "net_addr_is_valid (mappedOtherServerPrimaryPortAddr (?step ?r1 BehaviorTest1))"
    using assms(1,2,4) valid
    by (simp_all add: spec_step_def spec_skips_def spec_answer_def nat_answers_def test_result_def behavior1_result_def
        nat_results1_def zero_results_def zero_binding_response_def net_addr_copy_def Let_def)
  then have w3: "map fst (spec_requests env answers primary (?step ?r1 BehaviorTest1) BehaviorTest2 i3) =
      (if m (other_host e primary other) = m primary then [] else [other])"
    using assms(1,2) by (simp add: defs)
  have w4: "map fst (spec_requests env answers primary ?r2 FilteringTest1 i4) = replicate (if ?pass other then 1 else 3) primary"
    using assms(1,2) by (simp add: defs numeral_3_eq_3 replicate_twice)
  have "didFilteringTestSuccess (?step ?r2 FilteringTest1) \<longleftrightarrow> ?pass other" "hasOtherServerAddress (?step ?r2 FilteringTest1)"
    using assms(1,2)
    by (simp_all add: spec_step_def spec_skips_def spec_answer_def nat_answers_def test_result_def filtering1_result_def test_check_def fail_check_def
        net_addr_is_equal_def Let_def)
  then have w5: "map fst (spec_requests env answers primary (?step ?r2 FilteringTest1) FilteringTest2 i5) =
      (if ?pass other then [] else replicate (if ?pass (other_port e primary other) then 1 else 3) primary)"
    using assms(1,2) by (simp add: defs numeral_3_eq_3 replicate_twice)
  show ?thesis
    using w1 w2 w3 w4 w5 by (simp add: ids r1 r2 nat_destinations_def)
qed

lemma nat_run:
  assumes "stunCreate malloc mem c r f s host = Some stun" "socket_idle own s" "\<forall>test. stun_env_ok (env test) \<and> en_endian (env test) = e"
    and "stun_resolves (env BindingTest1) stun primary" "answers = nat_answers m k e primary oh op" "other = other_server e oh op"
    and "sin_addr other \<noteq> sin_addr primary" "\<not> net_addr_is_equal (nat_addr m e primary) (stun_local env s)"
    and "passes = nat_passes k (nat_peers m e primary other) other"
  shows "\<exists>stun' s' R. stun_run env answers stun = Some stun' \<and> sn_results stun' = R \<and> sn_notices stun' = sn_notices stun @ [DidResolve] \<and>
    mappedAddr R = nat_addr m e primary \<and> \<not> isMappingDirect R \<and> didBehaviorTestSuccess R \<and> natBehavior R = reported_behavior m e primary other \<and>
    didFilteringTestSuccess R = passes \<and> natFiltering R = (if passes then EndpointIndependentFiltering else UnknownFiltering) \<and>
    sn_socket stun' = Some s' \<and> map fst (sk_wire s') = map fst (sk_wire s) @ nat_destinations m k e primary other"
proof -
  have env: "\<forall>test. stun_env_ok (env test)" "\<forall>test. en_endian (env test) = e"
    using assms(3) by simp_all
  let ?R = "(nat_results2 m e primary other (stun_local env s))\<lparr>didFilteringTestSuccess := passes,
      natFiltering := if passes then EndpointIndependentFiltering else UnknownFiltering\<rparr>"
  have R: "?R = stun_spec env answers primary (stun_local env s)"
    using nat_spec [OF assms(5-7) env(2) assms(8)] assms(9) by simp
  obtain stun' s' ids where run: "stun_run env answers stun = Some stun'" "sn_results stun' = ?R"
      "sn_notices stun' = sn_notices stun @ [if didBindingTestSuccess ?R then DidResolve else DidFailResolve]" "sn_socket stun' = Some s'"
      "map fst ids = stun_order" "sk_wire s' = sk_wire s @ spec_wire env answers primary (zero_results\<lparr>localAddr := stun_local env s\<rparr>) ids"
    using stun_run_ends [OF stunCreate_idle [OF assms(1,2)] nat_world [OF assms(5) env] assms(4) R] by (elim exE conjE) (rule that)
  have "map fst (sk_wire s') = map fst (sk_wire s) @ nat_destinations m k e primary other"
    using run(6) nat_wire [OF assms(5-7) env(2) assms(8) run(5)] by simp
  with run(1-4) show ?thesis
    by (intro exI [of _ stun'] exI [of _ s'] exI [of _ ?R]) simp
qed

section \<open>Reports\<close>

text \<open>
  (C7) What the client reports about an address translator. Against a server with two hosts and two
  ports, with answers that are lost only by the filter, the run succeeds, and reports the mapped
  address; the behavior is endpoint independent if the other host sees the same mapping, address dependent if only
  the other host and port sees it, and address and port dependent otherwise; the filtering is endpoint
  independent if the response from the other host and port gets through, and is not reported
  otherwise. The datagrams go to the expected destinations.
\<close>

theorem stun_classifies:
  assumes "stunCreate malloc mem c r f s host = Some stun" "socket_idle own s" "\<forall>test. stun_env_ok (env test) \<and> en_endian (env test) = e"
    and "stun_resolves (env BindingTest1) stun primary" "answers = nat_answers m k e primary oh op" "other = other_server e oh op"
    and "sin_addr other \<noteq> sin_addr primary" "\<not> net_addr_is_equal (nat_addr m e primary) (stun_local env s)"
    and "passes = nat_passes k (nat_peers m e primary other) other"
  shows "\<exists>stun' s' R. stun_run env answers stun = Some stun' \<and> sn_results stun' = R \<and> sn_notices stun' = sn_notices stun @ [DidResolve] \<and>
    mappedAddr R = nat_addr m e primary \<and> \<not> isMappingDirect R \<and> didBehaviorTestSuccess R \<and> natBehavior R = reported_behavior m e primary other \<and>
    didFilteringTestSuccess R = passes \<and> natFiltering R = (if passes then EndpointIndependentFiltering else UnknownFiltering) \<and>
    sn_socket stun' = Some s' \<and> map fst (sk_wire s') = map fst (sk_wire s) @ nat_destinations m k e primary other"
  using nat_run [OF assms] .

definition sample_nat :: "net_addr_t \<Rightarrow> u32 \<times> u16" where
  "sample_nat d = (if sin_addr d = sin_addr sample_server then (5, 7) else (5, 8))"

lemma sample_local: "\<not> net_addr_is_equal (net_addr_set LittleEndian 5 7 True) (stun_local (\<lambda>_. sample_stun_env) sample_socket)"
  by (simp add: net_addr_is_equal_def net_addr_set_def stun_local_def net_socket_local_addr_def net_addr_local_def sample_stun_env_def
      sockaddr_zero_def)

lemma sample_nat_hyps:
  "\<forall>test :: stun_test. stun_env_ok sample_stun_env \<and> en_endian sample_stun_env = LittleEndian"
  "sin_addr (other_server LittleEndian 10 3479) \<noteq> sin_addr sample_server"
  using sample_stun_env_ok by (simp_all add: sample_stun_env_def other_server_def sample_server_def net_addr_set_def)

theorem stun_classifies_witness:
  "\<exists>stun'. stun_run (\<lambda>_. sample_stun_env) (nat_answers (\<lambda>_. (5, 7)) PassAll LittleEndian sample_server 10 3479) sample_stun = Some stun' \<and>
    natBehavior (sn_results stun') = EndpointIndependentMapping \<and> natFiltering (sn_results stun') = EndpointIndependentFiltering"
proof -
  have "\<not> net_addr_is_equal (nat_addr (\<lambda>_. (5, 7)) LittleEndian sample_server) (stun_local (\<lambda>_. sample_stun_env) sample_socket)"
    using sample_local by (simp add: nat_addr_def)
  from stun_classifies [where env = "\<lambda>_. sample_stun_env" and k = PassAll, OF sample_stun_created sample_socket_idle sample_nat_hyps(1) sample_stun_resolves
      refl refl sample_nat_hyps(2) this refl] show ?thesis
    by (auto simp: nat_passes_def reported_behavior_def)
qed

text \<open>
  (C32) Reports that are wrong. A mapping that depends on the host of the destination only is reported as address and
  port dependent, since the second behavior test compares with the mapping for the primary host
  instead of the one for the other host. An address dependent filter behind an endpoint
  independent mapping is reported as endpoint independent filtering, since the behavior test
  has contacted the other host from the same socket before. An address and port dependent filter is not reported
  at all: its tests count as failed.
\<close>

theorem stun_misreports:
  assumes "stunCreate malloc mem c r f s host = Some stun" "socket_idle own s" "\<forall>test. stun_env_ok (env test) \<and> en_endian (env test) = e"
    and "stun_resolves (env BindingTest1) stun primary" "answers = nat_answers m k e primary oh op" "other = other_server e oh op"
    and "sin_addr other \<noteq> sin_addr primary" "sin_port other \<noteq> sin_port primary" "\<not> net_addr_is_equal (nat_addr m e primary) (stun_local env s)"
  shows "\<exists>stun' R. stun_run env answers stun = Some stun' \<and> sn_results stun' = R \<and> sn_notices stun' = sn_notices stun @ [DidResolve] \<and>
    (m (other_host e primary other) = m other \<and> m other \<noteq> m primary \<longrightarrow> natBehavior R = AddressAndPortDependentMapping) \<and>
    (m (other_host e primary other) = m primary \<and> k = PassAddress \<longrightarrow> didFilteringTestSuccess R \<and> natFiltering R = EndpointIndependentFiltering) \<and>
    (m (other_host e primary other) = m primary \<and> k = PassAddressPort \<longrightarrow> \<not> didFilteringTestSuccess R \<and> natFiltering R = UnknownFiltering)"
proof -
  have opened: "nat_passes PassAddress (nat_peers m e primary other) other" if "m (other_host e primary other) = m primary"
    using that by (simp add: nat_passes_def nat_peers_def other_host_def net_addr_set_def)
  have closed: "\<not> nat_passes PassAddressPort (nat_peers m e primary other) other" if "m (other_host e primary other) = m primary"
    using that assms(7,8) by (auto simp: nat_passes_def nat_peers_def other_host_def net_addr_set_def net_addr_is_equal_def)
  have "m (other_host e primary other) = m other \<and> m other \<noteq> m primary \<longrightarrow> reported_behavior m e primary other = AddressAndPortDependentMapping"
    by (simp add: reported_behavior_def)
  with nat_run [OF assms(1-7,9) refl] opened closed show ?thesis
    by (elim exE conjE) (intro exI conjI, assumption, assumption, auto)
qed

theorem stun_misreports_witness:
  "\<exists>stun'. stun_run (\<lambda>_. sample_stun_env) (nat_answers sample_nat PassAddress LittleEndian sample_server 10 3479) sample_stun = Some stun' \<and>
    natBehavior (sn_results stun') = AddressAndPortDependentMapping"
proof -
  have "\<not> net_addr_is_equal (nat_addr sample_nat LittleEndian sample_server) (stun_local (\<lambda>_. sample_stun_env) sample_socket)"
    using sample_local by (simp add: nat_addr_def sample_nat_def)
  moreover have "sin_port (other_server LittleEndian 10 3479) \<noteq> sin_port sample_server"
    by (simp add: other_server_def sample_server_def net_addr_set_def)
  moreover have "sample_nat (other_host LittleEndian sample_server (other_server LittleEndian 10 3479)) = sample_nat (other_server LittleEndian 10 3479)"
      "sample_nat (other_server LittleEndian 10 3479) \<noteq> sample_nat sample_server"
    using sample_nat_hyps(2) by (simp_all add: sample_nat_def other_host_def net_addr_set_def)
  ultimately show ?thesis
    using stun_misreports [where env = "\<lambda>_. sample_stun_env" and k = PassAddress and m = sample_nat, OF sample_stun_created sample_socket_idle
        sample_nat_hyps(1) sample_stun_resolves refl refl sample_nat_hyps(2)]
    by auto
qed

section \<open>Lost and stray packets\<close>

lemma later_tests_keep:
  assumes "test \<noteq> BindingTest1"
  shows "mappedAddr (spec_step env answers primary r test) = mappedAddr r"
    "\<not> didBindingTestSuccess r \<Longrightarrow> \<not> didBindingTestSuccess (spec_step env answers primary r test)"
  using assms
  by (cases test; simp add: spec_step_def spec_skipped_def spec_answer_def test_result_def behavior1_result_def behavior2_result_def
      filtering1_result_def filtering2_result_def fail_check_def test_check_def Let_def split: stun_answer.split)+

text \<open>
  (C34) A lost behavior test spoils the whole run. If the server has told the mapped address and a second
  address, and the first behavior test then gets no answer, the run fails and the client is told so, although the
  binding test has succeeded: the timers of the behavior tests reset the result of the
  binding test.
\<close>

theorem stun_behavior_timeout_fails:
  assumes "stunCreate malloc mem c r f s host = Some stun" "socket_idle own s" "stun_world env answers"
    and "stun_resolves (env BindingTest1) stun primary" "e = en_endian (env BindingTest1)"
    and "answers BindingTest1 = Answer n addr [AttrXorMapped h p, AttrAlternate b oh op]" "answers BehaviorTest1 = Silent"
    and "\<not> net_addr_is_equal (net_addr_set e h p True) (stun_local env s)"
  shows "\<exists>stun'. stun_run env answers stun = Some stun' \<and> sn_notices stun' = sn_notices stun @ [DidFailResolve] \<and> \<not> sn_didResolve stun' \<and>
    mappedAddr (sn_results stun') = net_addr_set e h p True"
proof -
  let ?step = "spec_step env answers primary"
  let ?r1 = "?step (zero_results\<lparr>localAddr := stun_local env s\<rparr>) BindingTest1"
  have r1: "mappedAddr ?r1 = net_addr_set e h p True" "\<not> isMappingDirect ?r1" "hasOtherServerAddress ?r1"
    using assms(5,6,8)
    by (simp_all add: spec_step_def spec_skips_def spec_answer_def test_result_def binding_result_def answer_response_def
        zero_binding_response_def zero_results_def net_addr_copy_def Let_def)
  then have "\<not> didBindingTestSuccess (?step ?r1 BehaviorTest1)"
    using assms(7) by (simp add: spec_step_def spec_skips_def spec_answer_def test_check_def fail_check_def)
  then have R: "\<not> didBindingTestSuccess (stun_spec env answers primary (stun_local env s))"
      "mappedAddr (stun_spec env answers primary (stun_local env s)) = net_addr_set e h p True"
    using r1(1) by (simp_all add: stun_spec_def stun_order_def later_tests_keep)
  show ?thesis
    using stun_run_ends [OF stunCreate_idle [OF assms(1,2)] assms(3,4) refl] R
    by (elim exE conjE) (intro exI conjI, assumption, auto)
qed

definition lost_behavior :: "stun_test \<Rightarrow> stun_answer" where
  "lost_behavior test = (if test = BindingTest1 then Answer 0 sample_server [AttrXorMapped 5 7, AttrAlternate True 10 3479] else Silent)"

theorem stun_behavior_timeout_fails_witness:
  "\<exists>stun'. stun_run (\<lambda>_. sample_stun_env) lost_behavior sample_stun = Some stun' \<and> sn_notices stun' = [DidFailResolve]"
proof -
  have "stun_world (\<lambda>_. sample_stun_env) lost_behavior"
    by (simp add: stun_world_def stun_order_def sample_stun_env_ok answer_ok_def lost_behavior_def enc_stun_body_def)
  from stun_behavior_timeout_fails [where env = "\<lambda>_. sample_stun_env" and e = LittleEndian and h = 5 and p = 7,
      OF sample_stun_created sample_socket_idle this sample_stun_resolves] sample_local show ?thesis
    by (auto simp: lost_behavior_def sample_stun_env_def sample_stun_fields)
qed

text \<open>The start of a run up to the moment when the binding test waits for its answer.\<close>

definition stun_begin :: "stun_env \<Rightarrow> StunStruct \<Rightarrow> StunStruct option" where
  "stun_begin env stun = do { stun \<leftarrow> run_stun_task env (stunResolve stun); stun_flush stun }"

lemma stun_begins:
  assumes "stun_idle own s stun" "stun_env_ok env" "stun_resolves env stun primary"
  shows "\<exists>stun1 s1 i p bytes. stun_begin env stun = Some stun1 \<and>
    stun_waits env own s BindingTest1 i primary bytes p 0 s1 (resolved_stun stun s primary) stun1"
proof -
  let ?stun = "(resolved_stun stun s primary)\<lparr>sn_tasks := []\<rparr>"
  let ?g = "\<lambda>s r. r\<lparr>localAddr := net_socket_local_addr (en_ifaddrs env) s (localAddr r)\<rparr>"
  have idle: "sn_socket stun = Some s" "socket_idle own s" "sn_tasks stun = []"
    using assms(1) by (simp_all add: stun_idle_def)
  then have stun: "sn_socket ?stun = Some s" "sn_tasks ?stun = []" "?stun = resolved_stun stun s primary"
    by (auto simp: resolved_stun_def intro!: StunStruct.equality)
  have g: "\<forall>s'. sk_sockaddr s' = sk_sockaddr s \<longrightarrow> ?g s' = ?g s"
    by (simp add: net_socket_local_addr_def)
  have tasks: "stun\<lparr>sn_tasks := [], sn_primaryServerAddr := primary, sn_info := net_socket_copy_info s\<rparr> = ?stun"
    by (simp add: resolved_stun_def)
  have "stun_launch env ?stun BindingTest1 primary ?g (stunProtocolPackBindingRequest (en_endian env)) = stunTestStartBasicBinding env ?stun"
    by (simp add: stun_launch_def stunTestStartBasicBinding_def resolved_stun_def Let_def)
  then have "stun_begin env stun = do {
      stun \<leftarrow> stun_launch env ?stun BindingTest1 primary ?g (stunProtocolPackBindingRequest (en_endian env)); stun_flush stun }"
    using idle(1,3) assms(3)
    by (simp add: stun_begin_def stunResolve_def stun_dispatch_def run_stun_task_def run_stun_resolve_def stun_resolves_def tasks)
  with stun_start_sends [OF stun(1) idle(2) stun(2) assms(2) packs_binding [of "en_endian env"] g, of BindingTest1 primary] show ?thesis
    unfolding stun(3) by (elim exE conjE) (intro exI conjI, simp, assumption)
qed

text \<open>Nothing is left that could make the client go on: no block, no timer, nothing in the socket.\<close>

definition stun_stuck :: "stun_test \<Rightarrow> StunStruct \<Rightarrow> bool" where
  "stun_stuck test stun \<longleftrightarrow> sn_tasks stun = [] \<and>
     (case (sn_tests stun test, sn_socket stun) of
        (Some t, Some s) \<Rightarrow> \<not> stt_isCompleted t \<and> \<not> valid (stt_timeout t) \<and> sk_queued s = [] \<and> sk_tasks s = [] \<and> sk_deliveries s = []
      | _ \<Rightarrow> False)"

lemma stray_response:
  assumes "stun_waits env own s0 test i dest bytes p n s stun0 stun" "stun_env_ok env" "socket_idle own s0"
    and "\<forall>a \<in> set as. stun_attr_ok a" "as \<noteq> []" "length (enc_stun_body (en_endian env) as) \<le> 236" "length j = kStunTransactionIdLen" "j \<noteq> i"
  shows "\<exists>stun'. stun_in env stun test addr (stun_response (en_endian env) j as) = Some stun' \<and> stun_stuck test stun' \<and>
    sn_calls stun' = sn_calls stun @ [SourceCancel (en_source env), SourceRelease (en_source env)] \<and>
    sn_results stun' = sn_results stun \<and> sn_notices stun' = sn_notices stun"
proof -
  let ?e = "en_endian env" and ?data = "stun_response (en_endian env) j as"
  from assms(1) have w: "sn_tests stun = (sn_tests stun0)(test \<mapsto> waiting_test env i p n)" "sn_tasks stun = []"
      "sk_queued s = []" "sk_deliveries s = []"
    by (simp_all add: stun_waits_def)
  have len: "0 < length ?data" "length ?data \<le> 256"
    using assms(6,7) by (simp_all add: stun_response_def)
  obtain q s1 m where q: "stun_in env stun test addr ?data = run_stun_receive env (stun\<lparr>sn_socket := Some s1\<rparr>) test q"
      "socket_inv ((own(q := 1))(p := 1)) s1" "q \<noteq> p" "sk_mem s1 q = Some m" "pkt_wf m"
      "bs_offset (pkt_bitstream m) = 0" "bs_at (pkt_bitstream m) ?data" "sk_tasks s1 = []" "sk_others s1 = sk_others s"
    using stun_in_step [OF assms(1-3) len, of addr] by blast
  have id: "length (en_id env) = kStunTransactionIdLen"
    using assms(2) by (simp add: stun_env_ok_def)
  obtain b where b: "stunProtocolUnpackBindingResponse ?e (pkt_bitstream m) (en_id env) zero_binding_response = Some (kStunValid, j, answer_response ?e as, b)"
      "b = bs_adv (pkt_bitstream m) (20 + length (enc_stun_body ?e as))" "bs_offset b \<le> 256"
    using stun_response_unpacked [OF q(5-7) assms(4-7) id] by blast
  let ?s2 = "net_packet_store s1 q (m\<lparr>pkt_bitstream := b\<rparr>)"
  have s2: "socket_inv ((own(q := 1))(p := 1)) ?s2" "sk_tasks ?s2 = []" "sk_others ?s2 = sk_others s"
    using packet_unpacked [OF q(2) _ q(4,5) b(2,3)] q(3,8,9) by simp_all
  obtain s3 where s3: "net_packet_release ?s2 q = Some s3" "sk_tasks s3 = []" "sk_others s3 = sk_others s"
    using socket.release_law [OF s2(1), of q] s2(2,3) q(3) by auto
  let ?t = "(waiting_test env i p n)\<lparr>stt_timeout := \<lparr>timerDispatchSource = en_source env, valid = False\<rparr>\<rparr>"
  let ?stun = "(set_test (stun\<lparr>sn_socket := Some ?s2\<rparr>) test ?t)\<lparr>
      sn_calls := sn_calls stun @ [SourceCancel (en_source env), SourceRelease (en_source env)], sn_socket := Some s3\<rparr>"
  have "stun_in env stun test addr ?data = Some ?stun"
    using w(1) q(4) b(1) s3(1) assms(8)
    by (simp add: q(1) run_stun_receive_def stunTestDestroyTimeout_def timeout_destroy_def waiting_test_def set_test_def stun_socket_def
        stunIsEqualTransactionId_def Let_def)
  then show ?thesis
    using w s3 by (intro exI [of _ ?stun]) (simp add: stun_stuck_def sk_others_def waiting_test_def)
qed

text \<open>
  (C33) A stray response stops the run for good. While the binding test waits, any valid response with another
  transaction id, from any address, cancels the timer of the test, and nothing is left that would make the
  client go on: the request is not sent again and neither block of the client is
  called, unless the right response still arrives.
\<close>

theorem stun_stray_response_hangs:
  assumes "stunCreate malloc mem c r f s host = Some stun" "socket_idle own s" "stun_env_ok env" "stun_resolves env stun primary"
  shows "\<exists>stun1 t. stun_begin env stun = Some stun1 \<and> sn_tests stun1 BindingTest1 = Some t \<and> (\<forall>j as addr.
    list_all stun_attr_ok as \<and> as \<noteq> [] \<and> length (enc_stun_body (en_endian env) as) \<le> 236 \<and> length j = kStunTransactionIdLen \<and>
    j \<noteq> stt_transactionId t \<longrightarrow>
    (\<exists>stun'. stun_in env stun1 BindingTest1 addr (stun_response (en_endian env) j as) = Some stun' \<and> stun_stuck BindingTest1 stun' \<and>
      sn_notices stun' = sn_notices stun))"
proof -
  obtain stun1 s1 i p bytes where b: "stun_begin env stun = Some stun1"
      "stun_waits env own s BindingTest1 i primary bytes p 0 s1 (resolved_stun stun s primary) stun1"
    using stun_begins [OF stunCreate_idle [OF assms(1,2)] assms(3,4)] by blast
  then have n: "sn_notices stun1 = sn_notices stun" "sn_tests stun1 BindingTest1 = Some (waiting_test env i p 0)"
    using stun_same_fields(6) [of "resolved_stun stun s primary" stun1] by (simp_all add: stun_waits_def resolved_stun_def)
  have "\<exists>stun'. stun_in env stun1 BindingTest1 addr (stun_response (en_endian env) j as) = Some stun' \<and> stun_stuck BindingTest1 stun' \<and>
      sn_notices stun' = sn_notices stun"
    if "list_all stun_attr_ok as" "as \<noteq> []" "length (enc_stun_body (en_endian env) as) \<le> 236" "length j = kStunTransactionIdLen" "j \<noteq> i" for j as addr
    using stray_response [OF b(2) assms(3,2) _ that(2-5), of addr] that(1) n(1) by (auto simp: list_all_iff)
  with b(1) n(2) show ?thesis
    by (intro exI [of _ stun1] exI [of _ "waiting_test env i p 0"]) (simp add: waiting_test_def)
qed

theorem stun_stray_response_hangs_witness:
  "\<exists>stun1 j stun'. stun_begin sample_stun_env sample_stun = Some stun1 \<and>
    stun_in sample_stun_env stun1 BindingTest1 sample_server (stun_response LittleEndian j [AttrXorMapped 1 1]) = Some stun' \<and>
    stun_stuck BindingTest1 stun' \<and> sn_notices stun' = []"
proof -
  have ok: "list_all stun_attr_ok [AttrXorMapped 1 1]" "length (enc_stun_body LittleEndian [AttrXorMapped 1 1]) \<le> 236"
      "en_endian sample_stun_env = LittleEndian"
    by (simp_all add: enc_stun_body_def sample_stun_env_def)
  obtain stun1 and t :: StunTest where s: "stun_begin sample_stun_env sample_stun = Some stun1" "\<forall>j as addr.
      list_all stun_attr_ok as \<and> as \<noteq> [] \<and> length (enc_stun_body (en_endian sample_stun_env) as) \<le> 236 \<and> length j = 12 \<and>
      j \<noteq> stt_transactionId t \<longrightarrow>
      (\<exists>stun'. stun_in sample_stun_env stun1 BindingTest1 addr (stun_response (en_endian sample_stun_env) j as) = Some stun' \<and>
        stun_stuck BindingTest1 stun' \<and> sn_notices stun' = sn_notices sample_stun)"
    using stun_stray_response_hangs [OF sample_stun_created sample_socket_idle sample_stun_env_ok sample_stun_resolves] by (elim exE conjE) (rule that)
  obtain j :: StunTransactionId where j: "length j = 12" "j \<noteq> stt_transactionId t"
  proof (cases "stt_transactionId t = replicate 12 0")
    case True
    then show thesis
      using that [of "replicate 12 1"] by simp
  qed (use that [of "replicate 12 0"] in simp)
  from s(2) [rule_format, of "[AttrXorMapped 1 1]" j sample_server] s(1) j ok show ?thesis
    by (auto simp: sample_stun_fields)
qed

text \<open>A datagram without the magic cookie, as the other protocols on the socket send them.\<close>

definition foreign_data :: "endian \<Rightarrow> u32 \<Rightarrow> u32 \<Rightarrow> u32 \<Rightarrow> u8 list \<Rightarrow> u8 list" where
  "foreign_data e a b cookie rest = enc_uint16 e a @ enc_uint16 e b @ enc_uint32 e cookie @ rest"

lemma foreign_unpacked:
  assumes "bs_wf s" "bs_at s (foreign_data e a b cookie rest)" "unat a < 2 ^ 16" "unat b < 2 ^ 16" "cookie \<noteq> kStunProtocolMagicCookie"
  shows "\<exists>j k. stunProtocolUnpackBindingResponse e s i0 r0 = Some (kStunInvalid, j, r0, bs_adv s k)"
proof -
  have r: "bitstream_read_uint16 e s = Some (a, bs_adv s 2)" "bitstream_read_uint16 e (bs_adv s 2) = Some (b, bs_adv s 4)"
      "bitstream_read_uint32 e (bs_adv s 4) = Some (cookie, bs_adv s 8)"
    using assms uint16.get_ahead [of s e a] uint16.get_ahead [of "bs_adv s 2" e b] uint32.get_ahead [of "bs_adv s 4" e cookie] bs_at_room [OF assms(2)]
    by (simp_all add: foreign_data_def codec_ahead)
  define c where "c = (if mStunIsRequest a then Some StunMsgClassRequest
           else if mStunIsIndication a then Some StunMsgClassIndication
           else if mStunIsSuccessResponse a then Some StunMsgClassSuccessResponse
           else if mStunIsErrorResponse a then Some StunMsgClassFailureResponse
           else None)"
  have "\<exists>v w j n k. stunProtocolUnpackHeader e s 0 i0 = Some (kStunInvalid, v, w, j, n, bs_adv s k)"
  proof (cases c)
    case None
    then show ?thesis
      using r(1) by (auto simp: stunProtocolUnpackHeader_def c_def [symmetric])
  next
    case (Some w)
    then show ?thesis
      using r assms(5) by (auto simp: stunProtocolUnpackHeader_def c_def [symmetric])
  qed
  then show ?thesis
    by (auto simp: stunProtocolUnpackBindingResponse_def)
qed

lemma foreign_forwarded:
  assumes "stun_waits env own s0 test i dest bytes p n s stun0 stun" "stun_env_ok env" "socket_idle own s0"
    and "data = foreign_data (en_endian env) a b cookie rest" "unat a < 2 ^ 16" "unat b < 2 ^ 16" "cookie \<noteq> kStunProtocolMagicCookie" "length data \<le> 256"
    and "sn_info stun0 = net_socket_copy_info s0" "sk_receivers s0 = (NULL, g, ctx)" "g \<noteq> NULL"
  shows "\<exists>stun' s' q. stun_in env stun test addr data = Some stun' \<and> sn_notices stun' = sn_notices stun @ [ForwardedCallback g ctx q] \<and>
    sn_socket stun' = Some s' \<and> sk_refs s' q = 0 \<and> sk_refs s' = sk_refs s \<and> (\<exists>m. sk_mem s' q = Some m \<and> bs_at (pkt_bitstream m) data) \<and>
    sn_tests stun' = sn_tests stun"
proof -
  let ?e = "en_endian env"
  from assms(1) have w: "sn_tests stun = (sn_tests stun0)(test \<mapsto> waiting_test env i p n)" "stun_same stun0 stun" "sk_refs s = (sk_refs s0)(p := 1)"
    by (simp_all add: stun_waits_def)
  have len: "0 < length data"
    using assms(4) by (simp add: foreign_data_def)
  obtain q s1 m where q: "stun_in env stun test addr data = run_stun_receive env (stun\<lparr>sn_socket := Some s1\<rparr>) test q"
      "socket_inv ((own(q := 1))(p := 1)) s1" "q \<noteq> p" "sk_refs s0 q = 0" "sk_mem s1 q = Some m" "pkt_wf m" "bs_offset (pkt_bitstream m) = 0"
      "bs_at (pkt_bitstream m) data" "sk_refs s1 = (sk_refs s)(q := 1)"
    using stun_in_step [OF assms(1-3) len assms(8), of addr] by blast
  obtain j k where u: "stunProtocolUnpackBindingResponse ?e (pkt_bitstream m) (en_id env) zero_binding_response =
      Some (kStunInvalid, j, zero_binding_response, bs_adv (pkt_bitstream m) k)"
    using foreign_unpacked [OF pkt_wf_bs_wf [OF q(6)] q(8) [unfolded assms(4)] assms(5-7)] by blast
  have reset: "bitstream_reset (bs_adv (pkt_bitstream m) k) = pkt_bitstream m"
    using q(7) by (simp add: bitstream_reset_def bs_adv_def)
  have m: "m\<lparr>pkt_bitstream := pkt_bitstream m\<rparr> = m"
    by simp
  let ?s2 = "net_packet_store s1 q m"
  have s2: "?s2 = s1"
    using q(5) by (simp add: net_packet_store_def fun_upd_idem)
  obtain s3 where s3: "net_packet_release s1 q = Some s3" "sk_refs s3 = (sk_refs s1)(q := sk_refs s1 q - 1)" "sk_mem s3 = sk_mem s1"
    using socket.release_law [OF q(2), of q] q(3) by auto
  have info: "info_receiveBlock (sn_info stun) = NULL" "info_receiveCallback (sn_info stun) = g" "info_receiveCallbackContext (sn_info stun) = ctx"
    using stun_same_fields(4) [OF w(2)] assms(9,10) by (simp_all add: net_socket_copy_info_def sk_receivers_def)
  let ?stun = "stun\<lparr>sn_socket := Some s3, sn_notices := sn_notices stun @ [ForwardedCallback g ctx q]\<rparr>"
  have "stun_in env stun test addr data = Some ?stun"
    using w(1) q(5) u s3(1) assms(11) info reset s2
    by (auto simp: q(1) run_stun_receive_def stunTestForward_def stun_packet_def stun_socket_def waiting_test_def net_packet_store_def fun_upd_idem
        Let_def intro!: StunStruct.equality)
  moreover have "sk_refs s3 = sk_refs s"
    using s3(2) q(3,4,9) w(3) by (auto simp: fun_eq_iff)
  ultimately show ?thesis
    using q(3-5,8) s3(3) w(3) by (intro exI [of _ ?stun] exI [of _ s3] exI [of _ q]) simp
qed

text \<open>
  (C35) A packet of another protocol is handed on and freed. While the binding test waits, a datagram
  without the magic cookie is forwarded unchanged to the callback the socket had before, as it should be;
  but then the block of the test releases it too, so that the receiver gets a packet
  without a reference, which the pool may give to somebody else and which the receiver's
  own release takes for a second time.
\<close>

theorem stun_forwarded_packet_freed:
  assumes "stunCreate malloc mem c r f s host = Some stun" "socket_idle own s" "stun_env_ok env" "stun_resolves env stun primary"
    and "sk_receivers s = (NULL, g, ctx)" "g \<noteq> NULL" "data = foreign_data (en_endian env) a b cookie rest"
    and "unat a < 2 ^ 16" "unat b < 2 ^ 16" "cookie \<noteq> kStunProtocolMagicCookie" "length data \<le> 256"
  shows "\<exists>stun1 stun' s' q m. stun_begin env stun = Some stun1 \<and> stun_in env stun1 BindingTest1 addr data = Some stun' \<and>
    sn_notices stun' = sn_notices stun @ [ForwardedCallback g ctx q] \<and> sn_tests stun' = sn_tests stun1 \<and> sn_socket stun' = Some s' \<and>
    sk_mem s' q = Some m \<and> bs_at (pkt_bitstream m) data \<and> sk_refs s' q = 0"
proof -
  obtain stun1 s1 i p bytes where b: "stun_begin env stun = Some stun1"
      "stun_waits env own s BindingTest1 i primary bytes p 0 s1 (resolved_stun stun s primary) stun1"
    using stun_begins [OF stunCreate_idle [OF assms(1,2)] assms(3,4)] by blast
  then have n: "sn_notices stun1 = sn_notices stun"
    using stun_same_fields(6) [of "resolved_stun stun s primary" stun1] by (simp add: stun_waits_def resolved_stun_def)
  have info: "sn_info (resolved_stun stun s primary) = net_socket_copy_info s"
    by (simp add: resolved_stun_def)
  obtain stun' s' q m where "stun_in env stun1 BindingTest1 addr data = Some stun'" "sn_notices stun' = sn_notices stun1 @ [ForwardedCallback g ctx q]"
      "sn_socket stun' = Some s'" "sk_refs s' q = 0" "sk_mem s' q = Some m" "bs_at (pkt_bitstream m) data" "sn_tests stun' = sn_tests stun1"
    using foreign_forwarded [OF b(2) assms(3,2,7-11) info assms(5,6), of addr] by blast
  with b(1) n show ?thesis
    by auto
qed

definition served_socket :: net_socket_s where
  "served_socket = net_socket_set_receive_callback sample_socket 9 1"

theorem stun_forwarded_packet_freed_witness:
  "\<exists>stun stun1 stun' s' q. stunCreate 1 sample_stun_memory 401 402 403 served_socket [115] = Some stun \<and>
    stun_begin sample_stun_env stun = Some stun1 \<and>
    stun_in sample_stun_env stun1 BindingTest1 sample_server (foreign_data LittleEndian 1 2 3 [4]) = Some stun' \<and>
    sn_notices stun' = [ForwardedCallback 1 9 q] \<and> sn_socket stun' = Some s' \<and> sk_refs s' q = 0"
proof -
  let ?stun = "sample_stun\<lparr>sn_socket := Some served_socket\<rparr>"
  have created: "stunCreate 1 sample_stun_memory 401 402 403 served_socket [115] = Some ?stun"
    by (simp add: sample_stun_def stunCreate_def)
  have idle: "socket_idle (\<lambda>_. 0) served_socket"
    using sample_socket_idle by (simp add: socket_idle_def served_socket_def sk_free_def)
  have "stun_resolves sample_stun_env ?stun sample_server"
    using sample_stun_resolves by (simp add: stun_resolves_def)
  moreover have "sk_receivers served_socket = (0, 1, 9)"
    using create_fields [OF sample_socket_created(1)] by (simp add: served_socket_def)
  moreover have "en_endian sample_stun_env = LittleEndian" "sn_notices ?stun = []"
    using sample_stun_fields by (simp_all add: sample_stun_env_def)
  moreover have "length (foreign_data LittleEndian 1 2 3 [4]) \<le> 256"
    by (simp add: foreign_data_def)
  ultimately show ?thesis
    using stun_forwarded_packet_freed [OF created idle sample_stun_env_ok, of sample_server 1 9 "foreign_data LittleEndian 1 2 3 [4]" 1 2 3 "[4]" sample_server]
      created
    by fastforce
qed

end
