(* ===== verification/Net_Log.thy ===== *)
theory Net_Log
  imports Stun
begin

text \<open>
  The log of a build with \<^verbatim>\<open>DEBUG\<close>: the functions whose only effect is output return the lines they
  print. The report of a STUN client is complete: it shows everything that is valid in the results.
\<close>

section \<open>Definitions\<close>

definition mNetworkLog :: "string \<Rightarrow> string" where
  "mNetworkLog line = ''Network: '' @ line @ [CHR 0x0A]"

text \<open>The conversion \<^verbatim>\<open>%d\<close> of a number that is not negative, and \<^verbatim>\<open>inet_ntoa\<close>: the bytes of an address in memory order.\<close>

definition digit :: "nat \<Rightarrow> char" where
  "digit n = char_of (48 + n)"

fun dec :: "nat \<Rightarrow> string" where
  "dec n = (if n < 10 then [digit n] else dec (n div 10) @ [digit (n mod 10)])"

declare dec.simps [simp del]

definition addr_byte :: "endian \<Rightarrow> u32 \<Rightarrow> nat \<Rightarrow> nat" where
  "addr_byte e a i = unat (ucast (drop_bit (case e of LittleEndian \<Rightarrow> 8 * i | BigEndian \<Rightarrow> 24 - 8 * i) a) :: u8)"

definition inet_ntoa :: "endian \<Rightarrow> u32 \<Rightarrow> string" where
  "inet_ntoa e a = dec (addr_byte e a 0) @ ''.'' @ dec (addr_byte e a 1) @ ''.'' @ dec (addr_byte e a 2) @ ''.'' @ dec (addr_byte e a 3)"

fun NetError_value :: "NetError \<Rightarrow> nat" where
  "NetError_value NetNoError = 0"
| "NetError_value NetUnreachableError = 1"
| "NetError_value NetNotKnownError = 2"
| "NetError_value NetCouldNotResolveError = 3"
| "NetError_value NetBindError = 4"
| "NetError_value NetSockError = 5"
| "NetError_value NetInvalidError = 6"
| "NetError_value NetOtherError = 7"

definition netErrorLog :: "NetError \<Rightarrow> string list" where
  "netErrorLog error =
     (case error of
        NetNoError \<Rightarrow> [mNetworkLog (''NetNoError ('' @ dec (NetError_value error) @ '')'')]
      | NetUnreachableError \<Rightarrow> [mNetworkLog (''NetUnreachableError ('' @ dec (NetError_value error) @ '')'')]
      | NetNotKnownError \<Rightarrow> [mNetworkLog (''NetNotKnownError ('' @ dec (NetError_value error) @ '')'')]
      | NetCouldNotResolveError \<Rightarrow> [mNetworkLog (''NetCouldNotResolveError ('' @ dec (NetError_value error) @ '')'')]
      | NetBindError \<Rightarrow> [mNetworkLog (''NetBindError ('' @ dec (NetError_value error) @ '')'')]
      | NetSockError \<Rightarrow> [mNetworkLog (''NetSockError ('' @ dec (NetError_value error) @ '')'')]
      | NetInvalidError \<Rightarrow> [mNetworkLog (''NetInvalidError ('' @ dec (NetError_value error) @ '')'')]
      | NetOtherError \<Rightarrow> [mNetworkLog (''NetOtherError ('' @ dec (NetError_value error) @ '')'')])"

definition net_addr_log :: "endian \<Rightarrow> net_addr_t \<Rightarrow> string list" where
  "net_addr_log e addr = [mNetworkLog (''addr '' @ inet_ntoa e (sin_addr addr) @ '':'' @ dec (unat (ntohs e (sin_port addr))))]"

definition stunLog :: "endian \<Rightarrow> StunStruct \<Rightarrow> string list" where
  "stunLog e c =
     [mNetworkLog ''STUN report'', mNetworkLog ''Server Address:''] @ net_addr_log e (sn_primaryServerAddr c) @
     (if didBindingTestSuccess (sn_results c)
      then [mNetworkLog ''BindingTest: Success'', mNetworkLog ''Local Address:''] @ net_addr_log e (localAddr (sn_results c)) @
           [mNetworkLog ''Mapped Address:''] @ net_addr_log e (mappedAddr (sn_results c)) @
           (if hasOtherServerAddress (sn_results c)
            then [mNetworkLog ''Server Another Address: True'', mNetworkLog ''Server Alternate Addresses:''] @
                 net_addr_log e (otherServerPrimaryHostAddr (sn_results c)) @ net_addr_log e (otherServerPrimaryPortAddr (sn_results c)) @
                 net_addr_log e (otherServerAddr (sn_results c))
            else [mNetworkLog ''Server Another Address: False''])
      else [mNetworkLog ''BindingTest: Fail'']) @
     (if didBehaviorTestSuccess (sn_results c)
      then [mNetworkLog ''BehaviorTest: Success''] @
           (case natBehavior (sn_results c) of
              DirectMapping \<Rightarrow> [mNetworkLog ''NAT Behavior: DirectMapping'']
            | EndpointIndependentMapping \<Rightarrow> [mNetworkLog ''NAT Behavior: EndpointIndependentMapping'']
            | AddressDependentMapping \<Rightarrow> [mNetworkLog ''NAT Behavior: AddressDependentMapping'']
            | AddressAndPortDependentMapping \<Rightarrow> [mNetworkLog ''NAT Behavior: AddressAndPortDependentMapping'']
            | _ \<Rightarrow> [mNetworkLog ''NAT Behavior: Unknown''])
      else [mNetworkLog ''BehaviorTest: Fail'']) @
     (if didFilteringTestSuccess (sn_results c)
      then [mNetworkLog ''FilteringTest: Success''] @
           (case natFiltering (sn_results c) of
              DirectConnectionFiltering \<Rightarrow> [mNetworkLog ''NAT Filtering: DirectConnectionFiltering'']
            | EndpointIndependentFiltering \<Rightarrow> [mNetworkLog ''NAT Filtering: EndpointIndependentFiltering'']
            | AddressDependentFiltering \<Rightarrow> [mNetworkLog ''NAT Filtering: AddressDependentFiltering'']
            | AddressAndPortDependentFiltering \<Rightarrow> [mNetworkLog ''NAT Filtering: AddressAndPortDependentFiltering'']
            | _ \<Rightarrow> [mNetworkLog ''NAT Filtering: Unknown''])
      else [mNetworkLog ''FilteringTest: Fail''])"

section \<open>Numbers and addresses can be read back\<close>

definition undec :: "string \<Rightarrow> nat" where
  "undec = foldl (\<lambda>n c. 10 * n + (of_char c - 48)) 0"

lemma of_char_digit: "n < 10 \<Longrightarrow> of_char (digit n) = 48 + n"
  by (simp add: digit_def)

lemma undec_dec [simp]: "undec (dec n) = n"
proof (induction n rule: dec.induct)
  case (1 n)
  show ?case
  proof (cases "n < 10")
    case True
    then show ?thesis
      by (simp add: dec.simps [of n] undec_def of_char_digit)
  next
    case False
    then have "undec (dec n) = 10 * undec (dec (n div 10)) + (of_char (digit (n mod 10)) - 48)"
      by (simp add: dec.simps [of n] undec_def)
    also have "\<dots> = n"
      using "1.IH" [OF False] by (simp add: of_char_digit)
    finally show ?thesis .
  qed
qed

lemma dec_inject [simp]: "dec m = dec n \<longleftrightarrow> m = n"
  by (metis undec_dec)

lemma dec_digits: "c \<in> set (dec n) \<Longrightarrow> 48 \<le> (of_char c :: nat) \<and> (of_char c :: nat) < 58"
proof (induction n rule: dec.induct)
  case (1 n)
  show ?case
  proof (cases "n < 10")
    case True
    then show ?thesis
      using "1.prems" by (simp add: dec.simps [of n] of_char_digit)
  next
    case False
    then show ?thesis
      using "1.IH" [OF False] "1.prems" by (auto simp: dec.simps [of n] of_char_digit)
  qed
qed

lemma dec_separators [simp]: "CHR ''.'' \<notin> set (dec n)" "CHR '':'' \<notin> set (dec n)" "CHR 0x0A \<notin> set (dec n)"
  using dec_digits [of "CHR ''.''" n] dec_digits [of "CHR '':''" n] dec_digits [of "CHR 0x0A" n] by auto

lemma separated_inject: "c \<notin> set xs \<Longrightarrow> c \<notin> set ys \<Longrightarrow> xs @ c # r = ys @ c # r' \<longleftrightarrow> xs = ys \<and> r = r'"
proof (induction xs arbitrary: ys)
  case Nil
  then show ?case
    by (cases ys) auto
next
  case (Cons x xs)
  then show ?case
    by (cases ys) auto
qed

lemma unat_inject: "unat (a :: 'a :: len word) = unat b \<longleftrightarrow> a = b"
  by (simp add: unsigned_word_eqI word_unat_eq_iff)

lemma addr_bytes_inject:
  assumes "\<forall>i < 4. addr_byte e a i = addr_byte e b i"
  shows "a = b"
proof (rule bit_word_eqI)
  fix n assume "n < LENGTH(32)"
  then have n: "n < 32"
    by simp
  let ?i = "case e of LittleEndian \<Rightarrow> n div 8 | BigEndian \<Rightarrow> 3 - n div 8"
  have "?i < 4"
    using n by (cases e) auto
  with assms have "addr_byte e a ?i = addr_byte e b ?i"
    by blast
  then have "(ucast (drop_bit (8 * (n div 8)) a) :: u8) = ucast (drop_bit (8 * (n div 8)) b)"
    using n by (cases e) (simp_all add: addr_byte_def diff_mult_distrib2 algebra_simps unat_inject)
  then have "bit (ucast (drop_bit (8 * (n div 8)) a) :: u8) (n mod 8) = bit (ucast (drop_bit (8 * (n div 8)) b) :: u8) (n mod 8)"
    by simp
  then show "bit a n = bit b n"
    by (simp add: bit_simps)
qed

lemma inet_ntoa_inject: "inet_ntoa e a = inet_ntoa e b \<longleftrightarrow> a = b"
proof
  assume "inet_ntoa e a = inet_ntoa e b"
  then have "addr_byte e a 0 = addr_byte e b 0 \<and> addr_byte e a 1 = addr_byte e b 1 \<and> addr_byte e a 2 = addr_byte e b 2 \<and> addr_byte e a 3 = addr_byte e b 3"
    by (simp add: inet_ntoa_def separated_inject)
  then show "a = b"
    by (intro addr_bytes_inject) (auto simp: less_Suc_eq numeral_eq_Suc)
qed simp

lemma inet_ntoa_colon [simp]: "CHR '':'' \<notin> set (inet_ntoa e a)"
  by (simp add: inet_ntoa_def)

lemma net_addr_log_inject: "net_addr_log e a = net_addr_log e b \<longleftrightarrow> sin_addr a = sin_addr b \<and> sin_port a = sin_port b"
  by (auto simp: net_addr_log_def mNetworkLog_def separated_inject inet_ntoa_inject unat_inject)

lemma mNetworkLog_inject [simp]: "mNetworkLog a = mNetworkLog b \<longleftrightarrow> a = b"
  by (simp add: mNetworkLog_def)

section \<open>The report is complete\<close>

text \<open>Addresses as the log shows them, and the part of the results that is valid.\<close>

definition same_endpoint :: "net_addr_t \<Rightarrow> net_addr_t \<Rightarrow> bool" where
  "same_endpoint a b \<longleftrightarrow> sin_addr a = sin_addr b \<and> sin_port a = sin_port b"

definition same_report :: "StunStruct \<Rightarrow> StunStruct \<Rightarrow> bool" where
  "same_report c c' \<longleftrightarrow>
     (let r = sn_results c; r' = sn_results c'
      in same_endpoint (sn_primaryServerAddr c) (sn_primaryServerAddr c') \<and>
         didBindingTestSuccess r = didBindingTestSuccess r' \<and>
         (didBindingTestSuccess r \<longrightarrow> same_endpoint (localAddr r) (localAddr r') \<and> same_endpoint (mappedAddr r) (mappedAddr r') \<and>
            hasOtherServerAddress r = hasOtherServerAddress r' \<and>
            (hasOtherServerAddress r \<longrightarrow> same_endpoint (otherServerPrimaryHostAddr r) (otherServerPrimaryHostAddr r') \<and>
               same_endpoint (otherServerPrimaryPortAddr r) (otherServerPrimaryPortAddr r') \<and> same_endpoint (otherServerAddr r) (otherServerAddr r'))) \<and>
         didBehaviorTestSuccess r = didBehaviorTestSuccess r' \<and> (didBehaviorTestSuccess r \<longrightarrow> natBehavior r = natBehavior r') \<and>
         didFilteringTestSuccess r = didFilteringTestSuccess r' \<and> (didFilteringTestSuccess r \<longrightarrow> natFiltering r = natFiltering r'))"

definition addr_line :: "endian \<Rightarrow> net_addr_t \<Rightarrow> string" where
  "addr_line e a = ''addr '' @ inet_ntoa e (sin_addr a) @ '':'' @ dec (unat (ntohs e (sin_port a)))"

lemma addr_line_inject: "addr_line e a = addr_line e b \<longleftrightarrow> same_endpoint a b"
  using net_addr_log_inject [of e a b] by (simp add: net_addr_log_def addr_line_def same_endpoint_def)

lemma net_addr_log_line: "net_addr_log e a = [mNetworkLog (addr_line e a)]"
  by (simp add: net_addr_log_def addr_line_def)

text \<open>The three parts of the report.\<close>

definition behavior_lines :: "StunResults \<Rightarrow> string list" where
  "behavior_lines r =
     (if didBehaviorTestSuccess r
      then [''BehaviorTest: Success'',
            ''NAT Behavior: '' @ (case natBehavior r of
                DirectMapping \<Rightarrow> ''DirectMapping'' | EndpointIndependentMapping \<Rightarrow> ''EndpointIndependentMapping''
              | AddressDependentMapping \<Rightarrow> ''AddressDependentMapping'' | AddressAndPortDependentMapping \<Rightarrow> ''AddressAndPortDependentMapping''
              | UnknownBehavior \<Rightarrow> ''Unknown'')]
      else [''BehaviorTest: Fail''])"

definition filtering_lines :: "StunResults \<Rightarrow> string list" where
  "filtering_lines r =
     (if didFilteringTestSuccess r
      then [''FilteringTest: Success'',
            ''NAT Filtering: '' @ (case natFiltering r of
                DirectConnectionFiltering \<Rightarrow> ''DirectConnectionFiltering'' | EndpointIndependentFiltering \<Rightarrow> ''EndpointIndependentFiltering''
              | AddressDependentFiltering \<Rightarrow> ''AddressDependentFiltering'' | AddressAndPortDependentFiltering \<Rightarrow> ''AddressAndPortDependentFiltering''
              | UnknownFiltering \<Rightarrow> ''Unknown'')]
      else [''FilteringTest: Fail''])"

definition binding_lines :: "endian \<Rightarrow> StunResults \<Rightarrow> string list" where
  "binding_lines e r =
     (if didBindingTestSuccess r
      then [''BindingTest: Success'', ''Local Address:'', addr_line e (localAddr r), ''Mapped Address:'', addr_line e (mappedAddr r)] @
           (if hasOtherServerAddress r
            then [''Server Another Address: True'', ''Server Alternate Addresses:'', addr_line e (otherServerPrimaryHostAddr r),
                  addr_line e (otherServerPrimaryPortAddr r), addr_line e (otherServerAddr r)]
            else [''Server Another Address: False''])
      else [''BindingTest: Fail''])"

lemma stunLog_lines:
  "stunLog e c = map mNetworkLog ([''STUN report'', ''Server Address:'', addr_line e (sn_primaryServerAddr c)] @
     binding_lines e (sn_results c) @ behavior_lines (sn_results c) @ filtering_lines (sn_results c))"
  by (simp add: stunLog_def net_addr_log_line binding_lines_def behavior_lines_def filtering_lines_def
      split: StunNatBehavior.split StunNatFiltering.split)

lemma filtering_lines_inject:
  "filtering_lines r = filtering_lines r' \<longleftrightarrow>
     didFilteringTestSuccess r = didFilteringTestSuccess r' \<and> (didFilteringTestSuccess r \<longrightarrow> natFiltering r = natFiltering r')"
  by (cases "natFiltering r"; cases "natFiltering r'") (simp_all add: filtering_lines_def)

lemma behavior_lines_inject:
  "behavior_lines r @ x = behavior_lines r' @ x' \<longleftrightarrow>
     didBehaviorTestSuccess r = didBehaviorTestSuccess r' \<and> (didBehaviorTestSuccess r \<longrightarrow> natBehavior r = natBehavior r') \<and> x = x'"
  by (cases "natBehavior r"; cases "natBehavior r'") (simp_all add: behavior_lines_def)

lemma binding_lines_inject:
  "binding_lines e r @ x = binding_lines e r' @ x' \<longleftrightarrow>
     didBindingTestSuccess r = didBindingTestSuccess r' \<and>
     (didBindingTestSuccess r \<longrightarrow> same_endpoint (localAddr r) (localAddr r') \<and> same_endpoint (mappedAddr r) (mappedAddr r') \<and>
        hasOtherServerAddress r = hasOtherServerAddress r' \<and>
        (hasOtherServerAddress r \<longrightarrow> same_endpoint (otherServerPrimaryHostAddr r) (otherServerPrimaryHostAddr r') \<and>
           same_endpoint (otherServerPrimaryPortAddr r) (otherServerPrimaryPortAddr r') \<and> same_endpoint (otherServerAddr r) (otherServerAddr r'))) \<and>
     x = x'"
  by (auto simp: binding_lines_def addr_line_inject)

text \<open>
  The report of a client tells exactly what is valid in its results: two clients print the same lines if
  and only if they agree on the outcome of each test and, as far as the tests succeeded, on the addresses and on
  the classification.
\<close>

theorem stunLog_complete: "stunLog e c = stunLog e c' \<longleftrightarrow> same_report c c'"
proof -
  have "inj mNetworkLog"
    by (simp add: inj_def)
  then show ?thesis
    by (simp add: stunLog_lines inj_map_eq_map binding_lines_inject behavior_lines_inject filtering_lines_inject addr_line_inject same_report_def Let_def
        del: map_append append_Cons append_Nil list.map)
qed

text \<open>The error lines identify the error.\<close>

lemma netErrorLog_inject: "netErrorLog a = netErrorLog b \<longleftrightarrow> a = b"
  by (cases a; cases b) (simp_all add: netErrorLog_def)

end
