(* ===== verification/Linked_List.thy ===== *)
theory Linked_List
  imports Chain
begin

text \<open>
  The doubly linked list of \<^verbatim>\<open>list.c\<close>: nodes in one reallocatable array, linked by
  indices (index 0 is never used and stands for null), and a list of reserved nodes. A cell of
  the array that no write has initialised is \<open>None\<close>, and so is the array of a failed
  \<open>realloc\<close>; whether \<open>realloc\<close> succeeds is an argument.

  The locale \<open>object_list\<close> states the contract: \<open>add\<close> appends, \<open>remove\<close> takes out the first
  occurrence, \<open>find\<close> returns the first match. The list is its interpretation.
\<close>

section \<open>Definitions\<close>

type_synonym list_object_t = ptr

abbreviation (input) kListNullNode :: u32 where "kListNullNode \<equiv> 0"
abbreviation (input) kListDefaultCapacity :: u32 where "kListDefaultCapacity \<equiv> 10"

record list_node_s =
  ln_object :: list_object_t
  ln_next :: u32
  ln_previous :: u32

type_synonym list_mem = "list_node_s option list"

record list_s =
  l_head :: u32
  l_tail :: u32
  l_reserved :: u32
  l_mem :: "list_mem option"
  l_capacity :: u32

definition node_at :: "list_mem \<Rightarrow> u32 \<Rightarrow> list_node_s option" where
  "node_at m index = (case mem_read m (unat index) of None \<Rightarrow> None | Some n \<Rightarrow> n)"

text \<open>\<open>mListNode\<close>, as a value and as the target of an assignment to a member.\<close>

definition mListNode :: "list_s \<Rightarrow> u32 \<Rightarrow> list_node_s option" where
  "mListNode l index = do { m \<leftarrow> l_mem l; node_at m index }"

definition list_set :: "list_s \<Rightarrow> u32 \<Rightarrow> (list_node_s \<Rightarrow> list_node_s) \<Rightarrow> list_s option" where
  "list_set l index f = do {
     m \<leftarrow> l_mem l;
     n \<leftarrow> node_at m index;
     Some (l\<lparr>l_mem := Some (m[unat index := Some (f n)])\<rparr>)
   }"

text \<open>The weaving loop of \<open>list_reserve\<close>, from the highest new index downwards.\<close>

fun weave :: "list_mem \<Rightarrow> u32 \<Rightarrow> nat \<Rightarrow> u32 \<Rightarrow> (u32 \<times> list_mem) option" where
  "weave m cap 0 next_weave_node_index = Some (next_weave_node_index, m)"
| "weave m cap (Suc i) next_weave_node_index = do {
     let weave_node_index = cap + of_nat (Suc i);
     m \<leftarrow> mem_write m (unat weave_node_index)
       (Some \<lparr>ln_object = NULL, ln_next = next_weave_node_index, ln_previous = kListNullNode\<rparr>);
     weave m cap i weave_node_index
   }"

text \<open>
  \<open>realloc\<close> keeps the old cells and adds uninitialised ones; the loop counter is the
  capacity converted to \<^verbatim>\<open>int\<close>.
\<close>

definition list_reserve :: "bool \<Rightarrow> list_s \<Rightarrow> u32 \<Rightarrow> (u32 \<times> list_s) option" where
  "list_reserve realloc_ok l capacity = do {
     let newCapacity = l_capacity l + capacity;
     let cells = unat (1 + newCapacity);
     let old = (case l_mem l of None \<Rightarrow> [] | Some m \<Rightarrow> m);
     let l = l\<lparr>l_mem := (if realloc_ok then Some (take cells old @ replicate (cells - length old) None) else None)\<rparr>;
     case l_mem l of
       Some m \<Rightarrow> do {
         (next_weave_node_index, m) \<leftarrow>
           weave m (l_capacity l) (if unat capacity < 2 ^ 31 then unat capacity else 0) kListNullNode;
         Some (newCapacity,
           l\<lparr>l_mem := Some m, l_reserved := next_weave_node_index, l_capacity := newCapacity\<rparr>)
       }
     | None \<Rightarrow> Some (0, l)
   }"

text \<open>The result is \<open>None\<close> for undefined behaviour and \<open>Some None\<close> for \<open>NULL\<close>.\<close>

definition list_create :: "bool \<Rightarrow> bool \<Rightarrow> u32 \<Rightarrow> list_s option option" where
  "list_create malloc_ok realloc_ok initialCapacity =
     (if malloc_ok
      then do {
        (_, l) \<leftarrow> list_reserve realloc_ok
          \<lparr>l_head = kListNullNode, l_tail = kListNullNode, l_reserved = kListNullNode, l_mem = None, l_capacity = 0\<rparr>
          initialCapacity;
        Some (Some l)
      }
      else Some None)"

text \<open>What the pointer points at afterwards: nothing. The pointer is not checked.\<close>

definition list_destroy :: "list_s option \<Rightarrow> list_s option option" where
  "list_destroy l = (case l of None \<Rightarrow> None | Some l \<Rightarrow> Some None)"

definition list_is_empty :: "list_s \<Rightarrow> bool" where
  "list_is_empty l \<longleftrightarrow> l_head l = kListNullNode \<and> l_tail l = kListNullNode"

text \<open>Taking the first reserved node and linking it behind the tail.\<close>

definition list_link :: "list_s \<Rightarrow> list_object_t \<Rightarrow> list_s option" where
  "list_link l ob = do {
     let add_list_node_index = l_reserved l;
     add_list_node \<leftarrow> mListNode l add_list_node_index;
     let l = l\<lparr>l_reserved := ln_next add_list_node\<rparr>;
     l \<leftarrow> list_set l add_list_node_index
       (\<lambda>n. n\<lparr>ln_object := ob, ln_next := kListNullNode, ln_previous := kListNullNode\<rparr>);
     if l_tail l \<noteq> kListNullNode
     then do {
       l \<leftarrow> list_set l (l_tail l) (ln_next_update (\<lambda>_. add_list_node_index));
       l \<leftarrow> list_set l add_list_node_index (ln_previous_update (\<lambda>_. l_tail l));
       Some (l\<lparr>l_tail := add_list_node_index\<rparr>)
     }
     else Some (l\<lparr>l_head := add_list_node_index, l_tail := add_list_node_index\<rparr>)
   }"

definition list_add :: "bool \<Rightarrow> list_s \<Rightarrow> list_object_t \<Rightarrow> list_s option" where
  "list_add realloc_ok l ob =
     (if l_reserved l = kListNullNode
      then do {
        (r, l) \<leftarrow> list_reserve realloc_ok l kListDefaultCapacity;
        if r = 0 then Some l else list_link l ob
      }
      else list_link l ob)"

partial_function (option) find_index_loop :: "list_s \<Rightarrow> list_object_t \<Rightarrow> u32 \<Rightarrow> u32 option" where
  "find_index_loop l ob index =
     (if index \<noteq> kListNullNode
      then do {
        node \<leftarrow> mListNode l index;
        if ln_object node = ob then Some index else find_index_loop l ob (ln_next node)
      }
      else Some kListNullNode)"

definition list_find_node_index :: "list_s \<Rightarrow> list_object_t \<Rightarrow> u32 option" where
  "list_find_node_index l ob = find_index_loop l ob (l_head l)"

definition list_remove :: "list_s \<Rightarrow> list_object_t \<Rightarrow> list_s option" where
  "list_remove l ob = do {
     remove_list_node_index \<leftarrow> list_find_node_index l ob;
     node \<leftarrow> mListNode l remove_list_node_index;
     l \<leftarrow> (if ln_previous node = kListNullNode
           then if ln_next node = kListNullNode
                then Some (l\<lparr>l_head := kListNullNode, l_tail := kListNullNode\<rparr>)
                else do {
                  l \<leftarrow> list_set l (ln_next node) (ln_previous_update (\<lambda>_. kListNullNode));
                  Some (l\<lparr>l_head := ln_next node\<rparr>)
                }
           else if ln_next node = kListNullNode
           then do {
             let l = l\<lparr>l_tail := ln_previous node\<rparr>;
             list_set l (l_tail l) (ln_next_update (\<lambda>_. kListNullNode))
           }
           else do {
             l \<leftarrow> list_set l (ln_previous node) (ln_next_update (\<lambda>_. ln_next node));
             list_set l (ln_next node) (ln_previous_update (\<lambda>_. ln_previous node))
           });
     l \<leftarrow> list_set l remove_list_node_index
       (\<lambda>n. n\<lparr>ln_next := l_reserved l, ln_previous := kListNullNode\<rparr>);
     Some (l\<lparr>l_reserved := remove_list_node_index\<rparr>)
   }"

text \<open>The block compares an object with what it captures; it may fault on an object it cannot read.\<close>

partial_function (option) find_loop :: "list_s \<Rightarrow> (list_object_t \<Rightarrow> bool option) \<Rightarrow> u32 \<Rightarrow> list_object_t option" where
  "find_loop l compare_block index =
     (if index \<noteq> kListNullNode
      then do {
        node \<leftarrow> mListNode l index;
        equal \<leftarrow> compare_block (ln_object node);
        if equal then Some (ln_object node)
        else find_loop l compare_block (ln_next node)
      }
      else Some NULL)"

definition list_find :: "list_s \<Rightarrow> (list_object_t \<Rightarrow> bool option) \<Rightarrow> list_object_t option" where
  "list_find l compare_block = find_loop l compare_block (l_head l)"

text \<open>
  The block changes a state of its own; it may read the list but does not change it, like
  every block in \<^verbatim>\<open>stream.c\<close>.
\<close>

partial_function (option) iterate_loop ::
    "list_s \<Rightarrow> (list_object_t \<Rightarrow> 's \<Rightarrow> 's option) \<Rightarrow> u32 \<Rightarrow> 's \<Rightarrow> 's option" where
  "iterate_loop l iterate_block index st =
     (if index \<noteq> kListNullNode
      then do {
        node \<leftarrow> mListNode l index;
        st \<leftarrow> iterate_block (ln_object node) st;
        iterate_loop l iterate_block (ln_next node) st
      }
      else Some st)"

definition list_iterate :: "list_s \<Rightarrow> (list_object_t \<Rightarrow> 's \<Rightarrow> 's option) \<Rightarrow> 's \<Rightarrow> 's option" where
  "list_iterate l iterate_block st = iterate_loop l iterate_block (l_head l) st"

definition debug_list_added_count :: "list_s \<Rightarrow> int option" where
  "debug_list_added_count l = count_nodes (\<lambda>i. map_option ln_next (mListNode l i)) (l_head l) 0"

definition debug_list_reserved_count :: "list_s \<Rightarrow> int option" where
  "debug_list_reserved_count l = count_nodes (\<lambda>i. map_option ln_next (mListNode l i)) (l_reserved l) 0"

text \<open>
  The invariant: the next links form a chain from the head, the previous links the reversed
  chain from the tail, the reserved nodes a disjoint chain, and the two chains together use
  every index from 1 to the capacity. Cell 0 stays uninitialised.
\<close>

definition nexts :: "list_mem \<Rightarrow> u32 \<Rightarrow> u32 option" where
  "nexts m i = map_option ln_next (node_at m i)"

definition prevs :: "list_mem \<Rightarrow> u32 \<Rightarrow> u32 option" where
  "prevs m i = map_option ln_previous (node_at m i)"

definition list_rel :: "list_s \<Rightarrow> list_mem \<Rightarrow> u32 list \<Rightarrow> u32 list \<Rightarrow> bool" where
  "list_rel l m is rs \<longleftrightarrow>
     l_mem l = Some m \<and> length m = Suc (unat (l_capacity l)) \<and> m ! 0 = None \<and>
     chain (nexts m) (l_head l) is \<and> chain (prevs m) (l_tail l) (rev is) \<and>
     chain (nexts m) (l_reserved l) rs \<and> set is \<inter> set rs = {} \<and>
     unat ` (set is \<union> set rs) = {1..unat (l_capacity l)}"

definition list_inv :: "list_s \<Rightarrow> bool" where
  "list_inv l \<longleftrightarrow> (\<exists>m is rs. list_rel l m is rs)"

definition list_objects :: "list_s \<Rightarrow> list_object_t list" where
  "list_objects l =
     map (\<lambda>i. ln_object (the (mListNode l i)))
       (the (nodes_from (\<lambda>i. map_option ln_next (mListNode l i)) (l_head l)))"

text \<open>Sequences of updates and their meaning.\<close>

datatype 'a list_op = Add 'a | Remove 'a

fun list_run ::
    "('l \<Rightarrow> 'a \<Rightarrow> 'l option) \<Rightarrow> ('l \<Rightarrow> 'a \<Rightarrow> 'l option) \<Rightarrow> 'a list_op list \<Rightarrow> 'l \<Rightarrow> 'l option" where
  "list_run add rem [] l = Some l"
| "list_run add rem (Add x # ops) l = do { l \<leftarrow> add l x; list_run add rem ops l }"
| "list_run add rem (Remove x # ops) l = do { l \<leftarrow> rem l x; list_run add rem ops l }"

fun list_spec :: "'a list_op list \<Rightarrow> 'a list \<Rightarrow> 'a list option" where
  "list_spec [] xs = Some xs"
| "list_spec (Add x # ops) xs = list_spec ops (xs @ [x])"
| "list_spec (Remove x # ops) xs = (if x \<in> set xs then list_spec ops (remove1 x xs) else None)"

abbreviation (input) new_indices :: "u32 \<Rightarrow> nat \<Rightarrow> u32 list" where
  "new_indices cap n \<equiv> map (\<lambda>k. cap + of_nat k) [1..<Suc n]"

text \<open>A well-formed list with room for more objects before its capacity can wrap.\<close>

definition list_room :: "nat \<Rightarrow> list_s \<Rightarrow> bool" where
  "list_room k l \<longleftrightarrow> list_inv l \<and> unat (l_capacity l) + 10 * k < 2 ^ 31"

text \<open>
  The four cases of \<open>list_remove\<close> in one description: the predecessor (or the head) takes over
  the successor and the successor (or the tail) the predecessor.
\<close>

definition list_unlink :: "list_s \<Rightarrow> list_mem \<Rightarrow> list_node_s \<Rightarrow> list_s" where
  "list_unlink l m node =
     (let p = ln_previous node; q = ln_next node;
          m1 = (if p = 0 then m else m[unat p := map_option (ln_next_update (\<lambda>_. q)) (node_at m p)]);
          m2 = (if q = 0 then m1 else m1[unat q := map_option (ln_previous_update (\<lambda>_. p)) (node_at m1 q)])
      in l\<lparr>l_mem := Some m2, l_head := (if p = 0 then q else l_head l), l_tail := (if q = 0 then p else l_tail l)\<rparr>)"

section \<open>Nodes\<close>

lemma node_at_bound: "node_at m i = Some n \<Longrightarrow> unat i < length m"
  by (auto simp: node_at_def mem_read_def split: option.splits if_splits)

lemma node_at_upd: "unat i < length m \<Longrightarrow> node_at (m[unat i := Some n]) = (node_at m)(i \<mapsto> n)"
  by (auto simp: node_at_def mem_read_def fun_eq_iff nth_list_update word_unat_eq_iff)

lemma links_upd:
  assumes "unat i < length m"
  shows "nexts (m[unat i := Some n]) = (nexts m)(i \<mapsto> ln_next n)"
    and "prevs (m[unat i := Some n]) = (prevs m)(i \<mapsto> ln_previous n)"
  using assms by (auto simp: nexts_def prevs_def node_at_upd fun_eq_iff)

lemma nexts_node: "nexts m i = Some j \<Longrightarrow> \<exists>n. node_at m i = Some n \<and> ln_next n = j"
  by (simp add: nexts_def)

lemma list_set_node:
  "l_mem l = Some m \<Longrightarrow> node_at m i = Some n \<Longrightarrow>
     list_set l i f = Some (l\<lparr>l_mem := Some (m[unat i := Some (f n)])\<rparr>)"
  by (simp add: list_set_def)

lemma list_rel_objects:
  assumes "list_rel l m is rs"
  shows "list_objects l = map (\<lambda>i. ln_object (the (node_at m i))) is"
proof -
  have "(\<lambda>i. map_option ln_next (mListNode l i)) = nexts m"
    using assms by (simp add: fun_eq_iff list_rel_def mListNode_def nexts_def)
  moreover have "mListNode l = node_at m"
    using assms by (simp add: fun_eq_iff list_rel_def mListNode_def)
  moreover have "nodes_from (nexts m) (l_head l) = Some is"
    using assms by (intro nodes_from_chain) (simp add: list_rel_def)
  ultimately show ?thesis
    by (simp add: list_objects_def)
qed

lemma list_rel_node:
  assumes "list_rel l m is rs" "i \<in> set is \<union> set rs"
  shows "\<exists>n. node_at m i = Some n" and "unat i < length m" and "i \<noteq> 0"
proof -
  have "i \<in> dom (nexts m)"
    using assms chain_dom [of "nexts m" "l_head l" "is"] chain_dom [of "nexts m" "l_reserved l" rs]
    by (auto simp: list_rel_def)
  then show "\<exists>n. node_at m i = Some n"
    by (auto simp: nexts_def)
  then show "unat i < length m"
    by (auto dest: node_at_bound)
  show "i \<noteq> 0"
    using assms chain_nonzero [of "nexts m" "l_head l" "is"] chain_nonzero [of "nexts m" "l_reserved l" rs]
    by (auto simp: list_rel_def)
qed

lemma list_rel_tail:
  "list_rel l m (is @ [t]) rs \<Longrightarrow> l_tail l = t" "list_rel l m [] rs \<Longrightarrow> l_tail l = 0"
  by (auto simp: list_rel_def)

section \<open>Adding\<close>

lemma list_link_empty:
  assumes "list_rel l m [] (r # rs)"
  shows "\<exists>l' m'. list_link l ob = Some l' \<and> list_rel l' m' [r] rs \<and> list_objects l' = [ob] \<and>
    l_capacity l' = l_capacity l"
proof -
  obtain n where n: "node_at m r = Some n" "unat r < length m" "r \<noteq> 0" "l_mem l = Some m" "l_reserved l = r"
    using assms list_rel_node [OF assms, of r] by (auto simp: list_rel_def)
  have r: "r \<notin> set rs"
    using assms chain_distinct [of "nexts m" "l_reserved l" "r # rs"] by (simp add: list_rel_def)
  let ?n = "\<lparr>ln_object = ob, ln_next = 0, ln_previous = 0\<rparr>"
  let ?m = "m[unat r := Some ?n]"
  let ?l = "l\<lparr>l_reserved := ln_next n, l_mem := Some ?m, l_head := r, l_tail := r\<rparr>"
  have "list_link l ob = Some ?l"
    using n list_rel_tail(2) [OF assms]
    by (cases n) (simp add: list_link_def mListNode_def list_set_node)
  moreover have "list_rel ?l ?m [r] rs"
    using assms n r by (auto simp: list_rel_def links_upd nth_list_update nexts_def unat_eq_0)
  moreover from list_rel_objects [OF this] have "list_objects ?l = [ob]"
    using n(2) by (simp add: node_at_upd)
  ultimately show ?thesis
    by fastforce
qed

lemma list_link_snoc:
  assumes "list_rel l m (is @ [t]) (r # rs)"
  shows "\<exists>l' m'. list_link l ob = Some l' \<and> list_rel l' m' (is @ [t, r]) rs \<and>
    list_objects l' = list_objects l @ [ob] \<and> l_capacity l' = l_capacity l"
proof -
  note rel = assms [unfolded list_rel_def]
  obtain n where n: "node_at m r = Some n" "unat r < length m" "r \<noteq> 0" "l_mem l = Some m" "l_reserved l = r"
    using rel list_rel_node [OF assms, of r] by auto
  obtain nt where nt: "node_at m t = Some nt" "unat t < length m" "t \<noteq> 0" "l_tail l = t"
    using rel list_rel_node [OF assms, of t] by auto
  have d: "r \<notin> set rs" "r \<noteq> t" "r \<notin> set is" "t \<notin> set rs" "t \<notin> set is"
    using rel chain_distinct [of "nexts m" "l_reserved l" "r # rs"] chain_distinct [of "nexts m" "l_head l" "is @ [t]"]
    by auto
  let ?n = "\<lparr>ln_object = ob, ln_next = 0, ln_previous = 0\<rparr>"
  let ?m1 = "m[unat r := Some ?n]"
  let ?m2 = "?m1[unat t := Some (nt\<lparr>ln_next := r\<rparr>)]"
  let ?m = "?m2[unat r := Some (?n\<lparr>ln_previous := t\<rparr>)]"
  let ?l = "l\<lparr>l_reserved := ln_next n, l_mem := Some ?m, l_tail := r\<rparr>"
  have at: "node_at ?m1 t = Some nt" "node_at ?m2 r = Some ?n"
    using n nt d by (simp_all add: node_at_upd)
  have link: "list_link l ob = Some ?l"
    using n nt at by (cases n) (simp add: list_link_def mListNode_def list_set_node)
  have nx: "nexts ?m = (nexts m)(t \<mapsto> r, r \<mapsto> 0)"
    using n(2) nt(2) d(2) by (simp add: links_upd fun_upd_twist [of t r])
  have pv: "prevs ?m = (prevs m)(r \<mapsto> t)"
    using n(2) nt d(2) by (auto simp: links_upd fun_eq_iff prevs_def)
  have "chain (nexts ?m) (l_head l) (is @ [t, r])"
    using rel n(3) d unfolding nx by (intro chain_snoc) auto
  moreover have "chain (prevs ?m) r (rev (is @ [t, r]))"
    using rel n(3) nt(4) d unfolding pv by auto
  moreover have "chain (nexts ?m) (ln_next n) rs"
    using rel n(1,5) d unfolding nx by (auto simp: nexts_def)
  moreover have "?m ! 0 = None"
    using rel n(3) nt(3) by (simp add: nth_list_update unat_eq_0)
  ultimately have rel': "list_rel ?l ?m (is @ [t, r]) rs"
    using rel d by (auto simp: list_rel_def)
  have "list_objects ?l = list_objects l @ [ob]"
    using list_rel_objects [OF rel'] list_rel_objects [OF assms] n(2) nt(1,2) d
    by (auto simp: node_at_upd)
  with link rel' show ?thesis
    by fastforce
qed

section \<open>Reserving\<close>

lemma unat_new_index: "unat cap + k < 2 ^ 32 \<Longrightarrow> unat (cap + of_nat k :: u32) = unat cap + k"
  by (simp add: unat_word_ariths unsigned_of_nat take_bit_nat_eq_self)

lemma weave_chain:
  assumes "unat cap + i < length m" "length m \<le> 2 ^ 32" "chain (nexts m) nx ys" "\<forall>y \<in> set ys. unat cap + i < unat y"
  shows "\<exists>nx' m'. weave m cap i nx = Some (nx', m') \<and> chain (nexts m') nx' (new_indices cap i @ ys) \<and>
    length m' = length m \<and> (\<forall>p. unat p \<le> unat cap \<longrightarrow> node_at m' p = node_at m p)"
  using assms
proof (induction i arbitrary: m nx ys)
  case (Suc i)
  let ?i = "cap + of_nat (Suc i) :: u32"
  let ?m = "m[unat ?i := Some \<lparr>ln_object = NULL, ln_next = nx, ln_previous = 0\<rparr>]"
  have i: "unat ?i = unat cap + Suc i" "?i \<noteq> 0"
    using unat_new_index [of cap "Suc i"] Suc.prems(1,2) by (auto simp: word_unat_eq_iff)
  then have ys: "?i \<notin> set ys" "unat ?i < length m"
    using Suc.prems by auto
  have "chain (nexts ?m) ?i (?i # ys)"
    using Suc.prems(3) i(2) ys by (simp add: links_upd del: of_nat_Suc)
  moreover have "unat cap + i < length ?m" "\<forall>y \<in> set (?i # ys). unat cap + i < unat y"
    using Suc.prems i by auto
  ultimately obtain nx' m' where m': "weave ?m cap i ?i = Some (nx', m')"
      "chain (nexts m') nx' (new_indices cap i @ ?i # ys)" "length m' = length m"
      "\<forall>p. unat p \<le> unat cap \<longrightarrow> node_at m' p = node_at ?m p"
    using Suc.IH [of ?m ?i "?i # ys"] Suc.prems(2) by auto
  moreover have "\<forall>p. unat p \<le> unat cap \<longrightarrow> node_at ?m p = node_at m p"
    using i by (auto simp: node_at_def mem_read_def)
  ultimately show ?case
    using ys(2) by (simp del: of_nat_Suc)
qed simp

lemma node_at_grow: "unat p < length m \<Longrightarrow> node_at (m @ xs) p = node_at m p"
  by (simp add: node_at_def mem_read_def nth_append)

lemma unat_image_new: "unat cap + n < 2 ^ 32 \<Longrightarrow> unat ` set (new_indices cap n) = {Suc (unat cap)..unat cap + n}"
proof -
  assume small: "unat cap + n < 2 ^ 32"
  have "unat ` set (new_indices cap n) = (\<lambda>k. unat (cap + of_nat k)) ` {1..n}"
    by (simp only: set_map set_upt image_image atLeastLessThanSuc_atLeastAtMost)
  also have "\<dots> = (+) (unat cap) ` {1..n}"
    using small by (intro image_cong) (simp_all add: unat_new_index)
  finally show ?thesis
    by (simp add: add.commute)
qed

lemma list_reserve_rel:
  assumes "list_rel l m is []" "unat (l_capacity l) + unat c + 1 < 2 ^ 32" "unat c < 2 ^ 31"
  shows "\<exists>l' m'. list_reserve True l c = Some (l_capacity l + c, l') \<and>
    list_rel l' m' is (new_indices (l_capacity l) (unat c)) \<and> list_objects l' = list_objects l \<and>
    l_capacity l' = l_capacity l + c"
proof -
  note rel = assms(1) [unfolded list_rel_def]
  let ?cap = "l_capacity l" and ?m = "m @ replicate (unat c) None" and ?rs = "new_indices (l_capacity l) (unat c)"
  have cap: "unat (?cap + c) = unat ?cap + unat c" "unat (1 + (?cap + c)) = unat ?cap + unat c + 1"
    using assms(2) by (simp_all add: unat_word_ariths)
  obtain nx m' where m': "weave ?m ?cap (unat c) 0 = Some (nx, m')" "chain (nexts m') nx ?rs"
      "length m' = length ?m" "\<forall>p. unat p \<le> unat ?cap \<longrightarrow> node_at m' p = node_at ?m p"
    using weave_chain [of ?cap "unat c" ?m 0 "[]"] rel assms(2) by auto
  let ?l = "l\<lparr>l_mem := Some m', l_reserved := nx, l_capacity := ?cap + c\<rparr>"
  have old: "node_at m' p = node_at m p" if "p \<in> set is" for p
    using that m'(4) list_rel_node(2) [OF assms(1), of p] rel by (simp add: node_at_grow)
  have zero: "m' ! 0 = None"
  proof -
    have "node_at m' 0 = None"
      using m'(4) rel by (simp add: node_at_grow) (simp add: node_at_def)
    then show ?thesis
      using m'(3) rel by (auto simp: node_at_def mem_read_def)
  qed
  have chains: "chain (nexts m') (l_head l) is" "chain (prevs m') (l_tail l) (rev is)"
    using rel old chain_cong [of "is" "nexts m'" "nexts m"] chain_cong [of "rev is" "prevs m'" "prevs m"]
    by (simp_all add: nexts_def prevs_def)
  have img: "unat ` set ?rs = {Suc (unat ?cap)..unat ?cap + unat c}"
    using assms(2) by (intro unat_image_new) simp
  have "unat p \<le> unat ?cap" if "p \<in> set is" for p
    using rel that by (auto dest: equalityD1)
  moreover have "unat ?cap < unat p" if "p \<in> set ?rs" for p
    using img imageI [OF that, of unat] by simp
  ultimately have "set is \<inter> set ?rs = {}"
    by (metis disjoint_iff not_less)
  moreover have "unat ` (set is \<union> set ?rs) = {1..unat (?cap + c)}"
    using rel img cap(1) by (auto simp: image_Un)
  ultimately have rel': "list_rel ?l m' is ?rs"
    using rel m'(2,3) zero chains cap(1) by (simp add: list_rel_def)
  have "list_reserve True l c = Some (?cap + c, ?l)"
    using rel cap m'(1) assms(3) by (simp add: list_reserve_def Let_def)
  moreover have "list_objects ?l = list_objects l"
    using list_rel_objects [OF rel'] list_rel_objects [OF assms(1)] old by simp
  ultimately show ?thesis
    using rel' by fastforce
qed

lemma list_create_rel:
  assumes "0 < unat c" "unat c < 2 ^ 31"
  shows "\<exists>l m. list_create True True c = Some (Some l) \<and> list_rel l m [] (new_indices 0 (unat c)) \<and> l_capacity l = c"
proof -
  let ?cells = "Suc (unat c)" and ?l = "\<lparr>l_head = 0, l_tail = 0, l_reserved = 0, l_mem = None, l_capacity = 0\<rparr>"
  have cap: "unat (1 + c) = ?cells"
    using assms(2) by (simp add: unat_word_ariths)
  obtain nx m' where m': "weave (replicate ?cells None) 0 (unat c) 0 = Some (nx, m')"
      "chain (nexts m') nx (new_indices 0 (unat c))" "length m' = ?cells"
      "\<forall>p. unat p \<le> 0 \<longrightarrow> node_at m' p = node_at (replicate ?cells None) p"
    using weave_chain [of 0 "unat c" "replicate ?cells None" 0 "[]"] assms(2) by auto
  have zero: "m' ! 0 = None"
    using m'(3) m'(4) [rule_format, of 0] by (auto simp: node_at_def mem_read_def)
  have "unat ` set (new_indices 0 (unat c)) = {1..unat c}"
    using unat_image_new [of 0 "unat c"] assms(2) by simp
  then have "list_rel (?l\<lparr>l_mem := Some m', l_reserved := nx, l_capacity := c\<rparr>) m' [] (new_indices 0 (unat c))"
    using m'(2,3) zero by (simp add: list_rel_def)
  moreover have "list_create True True c = Some (Some (?l\<lparr>l_mem := Some m', l_reserved := nx, l_capacity := c\<rparr>))"
    using m'(1) assms(2) cap by (simp add: list_create_def list_reserve_def Let_def del: replicate_Suc)
  ultimately show ?thesis
    by fastforce
qed

lemma list_add_rel:
  assumes "list_inv l" "unat (l_capacity l) < 2 ^ 31"
  shows "\<exists>l'. list_add True l ob = Some l' \<and> list_inv l' \<and> list_objects l' = list_objects l @ [ob] \<and>
    (l_capacity l' = l_capacity l \<or> l_capacity l' = l_capacity l + 10)"
proof -
  obtain m "is" rs where rel: "list_rel l m is rs"
    using assms(1) by (auto simp: list_inv_def)
  have link: "\<exists>l'. list_link l ob = Some l' \<and> list_inv l' \<and> list_objects l' = list_objects l @ [ob] \<and>
      l_capacity l' = l_capacity l" if "list_rel l m is (r # rs)" for l m r rs
  proof (cases "is" rule: rev_cases)
    case Nil
    with that list_link_empty [of l m r rs ob] list_rel_objects [OF that] show ?thesis
      by (auto simp: list_inv_def)
  next
    case (snoc is' t)
    with that list_link_snoc [of l m is' t r rs ob] show ?thesis
      by (auto simp: list_inv_def)
  qed
  show ?thesis
  proof (cases rs)
    case Nil
    have "unat (l_capacity l + 10) = unat (l_capacity l) + 10"
      using assms(2) by (simp add: unat_word_ariths)
    then have nz: "l_capacity l + 10 \<noteq> 0"
      by auto
    have "new_indices (l_capacity l) (unat (10 :: u32)) = (l_capacity l + 1) # map (\<lambda>k. l_capacity l + of_nat k) [2..<11]"
      by (simp add: upt_conv_Cons)
    with list_reserve_rel [of l m "is" 10] rel Nil assms(2)
    obtain l1 m1 rs1 where l1: "list_reserve True l 10 = Some (l_capacity l + 10, l1)"
        "list_rel l1 m1 is ((l_capacity l + 1) # rs1)" "list_objects l1 = list_objects l" "l_capacity l1 = l_capacity l + 10"
      by auto
    have "l_reserved l = 0"
      using rel Nil by (simp add: list_rel_def)
    then show ?thesis
      using link [OF l1(2)] l1 nz by (auto simp: list_add_def)
  next
    case (Cons r rs')
    then have "l_reserved l \<noteq> 0"
      using rel by (auto simp: list_rel_def)
    then show ?thesis
      using link [of l m r rs'] rel Cons by (auto simp: list_add_def)
  qed
qed

section \<open>Searching\<close>

text \<open>Every loop of the list follows the chain of next links from the head.\<close>

lemma mListNode_rel: "list_rel l m is rs \<Longrightarrow> mListNode l i = node_at m i"
  by (simp add: list_rel_def mListNode_def)

lemma find_index_loop_chain:
  assumes "l_mem l = Some m"
  shows "chain (nexts m) i is \<Longrightarrow> find_index_loop l ob i =
    Some (case List.find (\<lambda>i. ln_object (the (node_at m i)) = ob) is of None \<Rightarrow> 0 | Some i \<Rightarrow> i)"
proof (induction "is" arbitrary: i)
  case (Cons j js)
  then obtain n where "node_at m j = Some n" "i = j" "j \<noteq> 0" "chain (nexts m) (ln_next n) js"
    by (auto dest: nexts_node)
  with Cons.IH [of "ln_next n"] assms show ?case
    by (subst find_index_loop.simps) (simp add: mListNode_def)
qed (simp add: find_index_loop.simps)

lemma find_loop_chain:
  assumes "l_mem l = Some m"
  shows "chain (nexts m) i is \<Longrightarrow> \<forall>x \<in> set (map (\<lambda>i. ln_object (the (node_at m i))) is). b x = Some (P x) \<Longrightarrow> find_loop l b i =
    Some (case List.find P (map (\<lambda>i. ln_object (the (node_at m i))) is) of None \<Rightarrow> NULL | Some x \<Rightarrow> x)"
proof (induction "is" arbitrary: i)
  case (Cons j js)
  then obtain n where "node_at m j = Some n" "i = j" "j \<noteq> 0" "chain (nexts m) (ln_next n) js" "b (ln_object n) = Some (P (ln_object n))"
      "\<forall>x \<in> set (map (\<lambda>i. ln_object (the (node_at m i))) js). b x = Some (P x)"
    by (auto dest: nexts_node)
  with Cons.IH [of "ln_next n"] assms show ?case
    by (subst find_loop.simps) (simp add: mListNode_def)
qed (simp add: find_loop.simps)

lemma iterate_loop_chain:
  assumes "l_mem l = Some m"
  shows "chain (nexts m) i is \<Longrightarrow> iterate_loop l b i st =
    fold (\<lambda>x r. r \<bind> b x) (map (\<lambda>i. ln_object (the (node_at m i))) is) (Some st)"
proof (induction "is" arbitrary: i st)
  case (Cons j js)
  have none: "fold (\<lambda>x r. r \<bind> b x) xs None = None" for xs
    by (induction xs) simp_all
  obtain n where n: "node_at m j = Some n" "i = j" "j \<noteq> 0" "chain (nexts m) (ln_next n) js"
    using Cons.prems by (auto dest: nexts_node)
  show ?case
  proof (cases "b (ln_object n) st")
    case None
    with n assms none show ?thesis
      by (subst iterate_loop.simps) (simp add: mListNode_def)
  next
    case (Some st')
    with n assms Cons.IH [of "ln_next n" st'] show ?thesis
      by (subst iterate_loop.simps) (simp add: mListNode_def)
  qed
qed (simp add: iterate_loop.simps)

section \<open>Removing\<close>

lemma remove1_map_split:
  "x \<notin> set (map f us) \<Longrightarrow> f i = x \<Longrightarrow> remove1 x (map f (us @ i # vs)) = map f (us @ vs)"
  by (simp add: remove1_append)

lemma find_split:
  "List.find P xs = Some i \<Longrightarrow> \<exists>us vs. xs = us @ i # vs \<and> P i \<and> (\<forall>u \<in> set us. \<not> P u)"
proof (induction xs)
  case (Cons x xs)
  then show ?case
  proof (cases "P x")
    case False
    with Cons obtain us vs where "xs = us @ i # vs" "P i" "\<forall>u \<in> set us. \<not> P u"
      by auto
    with False show ?thesis
      by (intro exI [of _ "x # us"] exI [of _ vs]) simp
  qed (auto intro: exI [of _ "[]"])
qed simp

lemma set_next_links:
  assumes "node_at m p = Some n"
  shows "nexts (m[unat p := Some (n\<lparr>ln_next := q\<rparr>)]) = (nexts m)(p \<mapsto> q)"
    and "prevs (m[unat p := Some (n\<lparr>ln_next := q\<rparr>)]) = prevs m"
    and "map_option ln_object (node_at (m[unat p := Some (n\<lparr>ln_next := q\<rparr>)]) j) = map_option ln_object (node_at m j)"
  using assms node_at_bound [OF assms]
  by (auto simp: links_upd node_at_upd fun_eq_iff prevs_def)

lemma set_previous_links:
  assumes "node_at m p = Some n"
  shows "nexts (m[unat p := Some (n\<lparr>ln_previous := q\<rparr>)]) = nexts m"
    and "prevs (m[unat p := Some (n\<lparr>ln_previous := q\<rparr>)]) = (prevs m)(p \<mapsto> q)"
    and "map_option ln_object (node_at (m[unat p := Some (n\<lparr>ln_previous := q\<rparr>)]) j) = map_option ln_object (node_at m j)"
  using assms node_at_bound [OF assms]
  by (auto simp: links_upd node_at_upd fun_eq_iff nexts_def)

lemma list_rel_neighbours:
  assumes "list_rel l m (us @ i # vs) rs" "node_at m i = Some n"
  shows "ln_next n = (if vs = [] then 0 else hd vs)" "ln_previous n = (if us = [] then 0 else last us)"
proof -
  have "nexts m i = Some (case vs of [] \<Rightarrow> 0 | v # _ \<Rightarrow> v)"
    using assms(1) chain_next [of "nexts m" "l_head l" us i vs] by (simp add: list_rel_def)
  then show "ln_next n = (if vs = [] then 0 else hd vs)"
    using assms(2) by (cases vs) (simp_all add: nexts_def)
  have "prevs m i = Some (case rev us of [] \<Rightarrow> 0 | u # _ \<Rightarrow> u)"
    using assms(1) chain_next [of "prevs m" "l_tail l" "rev vs" i "rev us"] by (simp add: list_rel_def)
  then show "ln_previous n = (if us = [] then 0 else last us)"
    using assms(2) by (cases us rule: rev_cases) (simp_all add: prevs_def)
qed

lemma list_unlink_links:
  assumes "list_rel l m (us @ i # vs) rs" "node_at m i = Some n" "l_mem (list_unlink l m n) = Some m2"
  defines "p \<equiv> ln_previous n" and "q \<equiv> ln_next n"
  shows "nexts m2 = (if us = [] then nexts m else (nexts m)(last us \<mapsto> q))"
    and "prevs m2 = (if vs = [] then prevs m else (prevs m)(hd vs \<mapsto> p))"
    and "map_option ln_object (node_at m2 j) = map_option ln_object (node_at m j)"
    and "node_at m2 i = Some n" and "length m2 = length m" and "m2 ! 0 = None"
proof -
  have pq: "p = (if us = [] then 0 else last us)" "q = (if vs = [] then 0 else hd vs)"
    using list_rel_neighbours [OF assms(1,2)] by (simp_all add: p_def q_def)
  note nodes = list_rel_node [OF assms(1)]
  have d: "distinct (us @ i # vs)"
    using assms(1) chain_distinct [of "nexts m" "l_head l" "us @ i # vs"] by (simp add: list_rel_def)
  define m1 where "m1 = (if p = 0 then m else m[unat p := map_option (ln_next_update (\<lambda>_. q)) (node_at m p)])"
  have m2: "m2 = (if q = 0 then m1 else m1[unat q := map_option (ln_previous_update (\<lambda>_. p)) (node_at m1 q)])"
    using assms(3) by (auto simp: list_unlink_def Let_def m1_def p_def q_def)
  have p0: "p = 0 \<longleftrightarrow> us = []" "us \<noteq> [] \<Longrightarrow> \<exists>np. node_at m p = Some np" "p \<noteq> i" "q \<noteq> i"
    using pq nodes(1,3) [of "last us"] nodes(3) [of i] d
    by (auto simp: hd_in_set dest: last_in_set hd_in_set)
  have m1: "nexts m1 = (if us = [] then nexts m else (nexts m)(last us \<mapsto> q))" "prevs m1 = prevs m"
      "map_option ln_object (node_at m1 j) = map_option ln_object (node_at m j)"
      "node_at m1 i = Some n" "length m1 = length m" "m1 ! 0 = None" for j
    using p0 pq(1) assms(1,2) set_next_links [of m p _ q] node_at_upd [of p m] node_at_bound [of m p]
    by (auto simp: m1_def nth_list_update unat_eq_0 list_rel_def)
  have q0: "q = 0 \<longleftrightarrow> vs = []" "vs \<noteq> [] \<Longrightarrow> \<exists>nq. node_at m1 q = Some nq"
    using pq(2) nodes(1,3) [of "hd vs"] m1(3) [of q] by (auto dest: hd_in_set)
  show "nexts m2 = (if us = [] then nexts m else (nexts m)(last us \<mapsto> q))"
    "prevs m2 = (if vs = [] then prevs m else (prevs m)(hd vs \<mapsto> p))"
    "map_option ln_object (node_at m2 j) = map_option ln_object (node_at m j)"
    "node_at m2 i = Some n" "length m2 = length m" "m2 ! 0 = None"
    using q0 p0(4) pq(2) m1 set_previous_links [of m1 q _ p] node_at_upd [of q m1] node_at_bound [of m1 q]
    by (auto simp: m2 nth_list_update unat_eq_0)
qed

lemma list_remove_unlink:
  assumes "list_rel l m (us @ i # vs) rs" "node_at m i = Some n" "list_find_node_index l ob = Some i"
    and "l_mem (list_unlink l m n) = Some m2"
  shows "list_remove l ob =
    Some ((list_unlink l m n)\<lparr>l_mem := Some (m2[unat i := Some (n\<lparr>ln_next := l_reserved l, ln_previous := 0\<rparr>)]),
      l_reserved := i\<rparr>)"
proof -
  note nodes = list_rel_node(1) [OF assms(1)]
  note pq = list_rel_neighbours [OF assms(1,2)]
  have mem: "l_mem l = Some m"
    using assms(1) by (simp add: list_rel_def)
  have at: "node_at m2 i = Some n"
    using list_unlink_links(4) [OF assms(1,2,4)] .
  let ?p = "ln_previous n" and ?q = "ln_next n"
  have "\<exists>np. node_at m ?p = Some np" if "?p \<noteq> 0"
    using that pq(2) nodes [of ?p] by (auto dest: last_in_set split: if_splits)
  moreover have "\<exists>nq. node_at m ?q = Some nq" if "?q \<noteq> 0"
    using that pq(1) nodes [of ?q] by (auto dest: hd_in_set split: if_splits)
  ultimately show ?thesis
    using mem at assms(2-4)
    by (cases "?p = 0"; cases "?q = 0"; cases "?p = ?q")
      (auto simp: list_remove_def list_unlink_def Let_def mListNode_def list_set_def node_at_upd
        node_at_bound)
qed

lemma list_unlink_rel:
  assumes "list_rel l m (us @ i # vs) rs" "node_at m i = Some n" "l_mem (list_unlink l m n) = Some m2"
  defines "m3 \<equiv> m2[unat i := Some (n\<lparr>ln_next := l_reserved l, ln_previous := 0\<rparr>)]"
  shows "list_rel ((list_unlink l m n)\<lparr>l_mem := Some m3, l_reserved := i\<rparr>) m3 (us @ vs) (i # rs)"
    and "j \<in> set (us @ vs) \<Longrightarrow> ln_object (the (node_at m3 j)) = ln_object (the (node_at m j))"
proof -
  note rel = assms(1) [unfolded list_rel_def]
  note links = list_unlink_links [OF assms(1,2,3)]
  note pq = list_rel_neighbours [OF assms(1,2)]
  have i: "unat i < length m" "i \<noteq> 0"
    using list_rel_node [OF assms(1), of i] by auto
  have nz: "us \<noteq> [] \<Longrightarrow> last us \<noteq> 0" "vs \<noteq> [] \<Longrightarrow> hd vs \<noteq> 0"
    using list_rel_node(3) [OF assms(1), of "last us"] list_rel_node(3) [OF assms(1), of "hd vs"] by auto
  have d: "i \<notin> set (us @ vs)" "i \<notin> set rs" "us \<noteq> [] \<Longrightarrow> last us \<notin> set rs"
    using rel chain_distinct [of "nexts m" "l_head l" "us @ i # vs"] by (auto dest: last_in_set)
  let ?l = "(list_unlink l m n)\<lparr>l_mem := Some m3, l_reserved := i\<rparr>"
  have ends: "l_head ?l = (if us = [] then ln_next n else l_head l)"
      "l_tail ?l = (if vs = [] then ln_previous n else l_tail l)"
    using pq nz by (auto simp: list_unlink_def Let_def)
  have upd: "nexts m3 = (nexts m2)(i \<mapsto> l_reserved l)" "prevs m3 = (prevs m2)(i \<mapsto> 0)"
    using i links(5) by (simp_all add: links_upd m3_def)
  have "chain (nexts m3) (l_head ?l) (us @ vs)"
    using chain_remove [of "nexts m" "l_head l" us i vs "ln_next n"] rel assms(2) d(1)
    by (simp only: ends upd links(1)) (simp add: nexts_def)
  moreover have "chain (prevs m3) (l_tail ?l) (rev vs @ rev us)"
    using chain_remove [of "prevs m" "l_tail l" "rev vs" i "rev us" "ln_previous n"] rel assms(2) d(1)
    by (simp only: ends upd links(2)) (cases vs; simp add: prevs_def)
  moreover have "chain (nexts m3) i (i # rs)"
    using rel i(2) d(2,3) links(1) by (auto simp: upd)
  moreover have "m3 ! 0 = None" "length m3 = length m"
    using links(5,6) i(2) by (simp_all add: nth_list_update unat_eq_0 m3_def)
  moreover have "l_capacity ?l = l_capacity l" "l_mem ?l = Some m3" "l_reserved ?l = i"
    by (simp_all add: list_unlink_def Let_def)
  ultimately show "list_rel ?l m3 (us @ vs) (i # rs)"
    unfolding list_rel_def rev_append using rel d by auto
  show "j \<in> set (us @ vs) \<Longrightarrow> ln_object (the (node_at m3 j)) = ln_object (the (node_at m j))"
    using d(1) links(3) [of j] links(5) i(1) list_rel_node(1) [OF assms(1), of j]
    by (auto simp: node_at_upd m3_def)
qed

lemma list_remove_rel:
  assumes "list_inv l" "ob \<in> set (list_objects l)"
  shows "\<exists>l'. list_remove l ob = Some l' \<and> list_inv l' \<and> list_objects l' = remove1 ob (list_objects l) \<and>
    l_capacity l' = l_capacity l"
proof -
  obtain m "is" rs where rel0: "list_rel l m is rs"
    using assms(1) by (auto simp: list_inv_def)
  let ?obj = "\<lambda>i. ln_object (the (node_at m i))"
  have objs: "list_objects l = map ?obj is"
    using list_rel_objects [OF rel0] .
  obtain i where i: "List.find (\<lambda>i. ?obj i = ob) is = Some i"
    using assms(2) objs by (cases "List.find (\<lambda>i. ?obj i = ob) is") (auto simp: find_None_iff)
  from find_split [OF this] obtain us vs where split: "is = us @ i # vs" "?obj i = ob" "\<forall>u \<in> set us. ?obj u \<noteq> ob"
    by blast
  then have first: "ob \<notin> set (map ?obj us)"
    by auto
  note rel = rel0 [unfolded split(1)]
  have find: "list_find_node_index l ob = Some i"
    using find_index_loop_chain [of l m "l_head l" "is" ob] rel0 i
    by (simp add: list_find_node_index_def list_rel_def)
  obtain n where n: "node_at m i = Some n"
    using list_rel_node(1) [OF rel, of i] by auto
  obtain m2 where m2: "l_mem (list_unlink l m n) = Some m2"
    by (simp add: list_unlink_def Let_def)
  note new = list_unlink_rel(1) [OF rel n m2] and keep = list_unlink_rel(2) [OF rel n m2]
  have "list_objects ((list_unlink l m n)\<lparr>l_mem := Some (m2[unat i := Some (n\<lparr>ln_next := l_reserved l, ln_previous := 0\<rparr>)]),
      l_reserved := i\<rparr>) = map ?obj (us @ vs)"
    unfolding list_rel_objects [OF new] using keep by (intro map_cong refl)
  moreover have "map ?obj (us @ vs) = remove1 ob (list_objects l)"
    using remove1_map_split [OF first, of i vs] split(1,2) objs by simp
  moreover have "l_capacity (list_unlink l m n) = l_capacity l"
    by (simp add: list_unlink_def Let_def)
  moreover have "list_inv ((list_unlink l m n)\<lparr>l_mem := Some (m2[unat i := Some (n\<lparr>ln_next := l_reserved l, ln_previous := 0\<rparr>)]),
      l_reserved := i\<rparr>)"
    unfolding list_inv_def using new by blast
  ultimately show ?thesis
    using list_remove_unlink [OF rel n find m2] by simp
qed

section \<open>The contract of the list\<close>

text \<open>
  \<open>inv k l\<close> says that \<open>l\<close> is a well-formed list to which \<open>k\<close> more objects can be added
  before its 32-bit capacity is in danger of wrapping.
\<close>

locale object_list =
  fixes inv :: "nat \<Rightarrow> 'l \<Rightarrow> bool" and \<alpha> :: "'l \<Rightarrow> 'a list" and null :: 'a
    and add :: "'l \<Rightarrow> 'a \<Rightarrow> 'l option" and rem :: "'l \<Rightarrow> 'a \<Rightarrow> 'l option"
    and find :: "'l \<Rightarrow> ('a \<Rightarrow> bool) \<Rightarrow> 'a option"
  assumes inv_Suc: "inv (Suc k) l \<Longrightarrow> inv k l"
    and add_law: "inv (Suc k) l \<Longrightarrow> \<exists>l'. add l x = Some l' \<and> inv k l' \<and> \<alpha> l' = \<alpha> l @ [x]"
    and rem_law: "inv k l \<Longrightarrow> x \<in> set (\<alpha> l) \<Longrightarrow> \<exists>l'. rem l x = Some l' \<and> inv k l' \<and> \<alpha> l' = remove1 x (\<alpha> l)"
    and find_law: "inv k l \<Longrightarrow> find l P = Some (case List.find P (\<alpha> l) of None \<Rightarrow> null | Some x \<Rightarrow> x)"
begin

lemma run_refines:
  "inv (length ops + k) l \<Longrightarrow> list_spec ops (\<alpha> l) = Some xs \<Longrightarrow>
     \<exists>l'. list_run add rem ops l = Some l' \<and> inv k l' \<and> \<alpha> l' = xs"
proof (induction ops arbitrary: l)
  case (Cons c ops)
  show ?case
  proof (cases c)
    case (Add x)
    obtain l1 where l1: "add l x = Some l1" "inv (length ops + k) l1" "\<alpha> l1 = \<alpha> l @ [x]"
      using add_law [of "length ops + k" l x] Cons.prems(1) by auto
    with Cons.IH [OF l1(2)] Cons.prems(2) Add show ?thesis
      by simp
  next
    case (Remove x)
    have x: "x \<in> set (\<alpha> l)"
      using Cons.prems(2) Remove by (simp split: if_splits)
    have "inv (length ops + k) l"
      using Cons.prems(1) inv_Suc by simp
    then obtain l1 where l1: "rem l x = Some l1" "inv (length ops + k) l1" "\<alpha> l1 = remove1 x (\<alpha> l)"
      using rem_law x by blast
    with Cons.IH [OF l1(2)] Cons.prems(2) Remove x show ?thesis
      by simp
  qed
qed simp

lemma run_faults:
  assumes "\<And>k l x. inv k l \<Longrightarrow> x \<notin> set (\<alpha> l) \<Longrightarrow> rem l x = None"
  shows "inv (length ops + k) l \<Longrightarrow> list_spec ops (\<alpha> l) = None \<Longrightarrow> list_run add rem ops l = None"
proof (induction ops arbitrary: l)
  case (Cons c ops)
  show ?case
  proof (cases c)
    case (Add x)
    obtain l1 where "add l x = Some l1" "inv (length ops + k) l1" "\<alpha> l1 = \<alpha> l @ [x]"
      using add_law [of "length ops + k" l x] Cons.prems(1) by auto
    with Cons.IH [of l1] Cons.prems(2) Add show ?thesis
      by simp
  next
    case (Remove x)
    have inv: "inv (length ops + k) l"
      using Cons.prems(1) inv_Suc by simp
    show ?thesis
    proof (cases "x \<in> set (\<alpha> l)")
      case True
      obtain l1 where "rem l x = Some l1" "inv (length ops + k) l1" "\<alpha> l1 = remove1 x (\<alpha> l)"
        using rem_law [OF inv True] by blast
      with Cons.IH [of l1] Cons.prems(2) Remove True show ?thesis
        by simp
    qed (use assms [OF inv] Remove in simp)
  qed
qed simp

lemma find_added:
  assumes "inv (Suc k) l" "P x" "\<forall>y \<in> set (\<alpha> l). \<not> P y"
  shows "(add l x \<bind> (\<lambda>l. find l P)) = Some x"
proof -
  obtain l' where "add l x = Some l'" "inv k l'" "\<alpha> l' = \<alpha> l @ [x]"
    using add_law [OF assms(1)] by blast
  moreover have "List.find P (ys @ [x]) = Some x" if "\<forall>y \<in> set ys. \<not> P y" for ys
    using that assms(2) by (induction ys) auto
  ultimately show ?thesis
    using find_law [of k l' P] assms(3) by simp
qed

end

lemma list_find_objects:
  assumes "list_inv l" "\<And>x. x \<in> set (list_objects l) \<Longrightarrow> b x = Some (P x)"
  shows "list_find l b = Some (case List.find P (list_objects l) of None \<Rightarrow> NULL | Some x \<Rightarrow> x)"
proof -
  obtain m "is" rs where rel: "list_rel l m is rs"
    using assms(1) by (auto simp: list_inv_def)
  show ?thesis
    using find_loop_chain [of l m "l_head l" "is" b P] rel list_rel_objects [OF rel] assms(2)
    by (simp add: list_find_def list_rel_def)
qed

interpretation stored: object_list list_room list_objects NULL "list_add True" list_remove
  "\<lambda>l P. list_find l (\<lambda>x. Some (P x))"
proof unfold_locales
  fix k l x P
  show "list_room (Suc k) l \<Longrightarrow> list_room k l"
    by (simp add: list_room_def)
  show "list_room (Suc k) l \<Longrightarrow> \<exists>l'. list_add True l x = Some l' \<and> list_room k l' \<and> list_objects l' = list_objects l @ [x]"
  proof -
    assume room: "list_room (Suc k) l"
    then obtain l' where l': "list_add True l x = Some l'" "list_inv l'" "list_objects l' = list_objects l @ [x]"
        "l_capacity l' = l_capacity l \<or> l_capacity l' = l_capacity l + 10"
      using list_add_rel [of l x] by (auto simp: list_room_def)
    moreover have "unat (l_capacity l + 10) = unat (l_capacity l) + 10"
      using room by (simp add: list_room_def unat_word_ariths)
    ultimately show ?thesis
      using room by (auto simp: list_room_def)
  qed
  show "list_room k l \<Longrightarrow> x \<in> set (list_objects l) \<Longrightarrow>
      \<exists>l'. list_remove l x = Some l' \<and> list_room k l' \<and> list_objects l' = remove1 x (list_objects l)"
    using list_remove_rel [of l x] by (auto simp: list_room_def)
  show "list_room k l \<Longrightarrow> list_find l (\<lambda>x. Some (P x)) = Some (case List.find P (list_objects l) of None \<Rightarrow> NULL | Some x \<Rightarrow> x)"
    by (simp add: list_room_def list_find_objects)
qed

lemma list_counts:
  assumes "list_rel l m is rs"
  shows "debug_list_added_count l = Some (int (length is))"
    and "debug_list_reserved_count l = Some (int (length rs))"
    and "length is + length rs = unat (l_capacity l)"
proof -
  have eq: "(\<lambda>i. map_option ln_next (mListNode l i)) = nexts m"
    using assms by (simp add: fun_eq_iff list_rel_def mListNode_def nexts_def)
  show "debug_list_added_count l = Some (int (length is))" "debug_list_reserved_count l = Some (int (length rs))"
    using assms count_nodes_chain [of "nexts m" "l_head l" "is" 0] count_nodes_chain [of "nexts m" "l_reserved l" rs 0]
    by (simp_all add: debug_list_added_count_def debug_list_reserved_count_def eq list_rel_def)
  have "distinct (is @ rs)"
    using assms chain_distinct [of "nexts m" "l_head l" "is"] chain_distinct [of "nexts m" "l_reserved l" rs]
    by (simp add: list_rel_def)
  then have "card (unat ` (set is \<union> set rs)) = length is + length rs"
    using distinct_card [of "is @ rs"] by (simp add: card_image inj_on_def word_unat_eq_iff)
  then show "length is + length rs = unat (l_capacity l)"
    using assms by (simp add: list_rel_def)
qed

section \<open>Properties\<close>

text \<open>
  Removing an object that is not in the list reads the unused node 0, whose members no
  code ever initialises.
\<close>

theorem list_remove_absent:
  assumes "list_inv l" "ob \<notin> set (list_objects l)"
  shows "list_find_node_index l ob = Some 0 \<and> list_remove l ob = None"
proof -
  obtain m "is" rs where rel: "list_rel l m is rs"
    using assms(1) by (auto simp: list_inv_def)
  have "List.find (\<lambda>i. ln_object (the (node_at m i)) = ob) is = None"
    using assms(2) list_rel_objects [OF rel] by (auto simp: find_None_iff)
  then have "list_find_node_index l ob = Some 0"
    using find_index_loop_chain [of l m "l_head l" "is" ob] rel by (simp add: list_find_node_index_def list_rel_def)
  moreover have "mListNode l 0 = None"
    using rel by (simp add: mListNode_def list_rel_def node_at_def)
  ultimately show ?thesis
    by (simp add: list_remove_def)
qed

theorem list_remove_absent_witness:
  "\<exists>l. list_create True True 4 = Some (Some l) \<and> list_remove l 77 = None"
proof -
  obtain l m where l: "list_create True True 4 = Some (Some l)" "list_rel l m [] (new_indices 0 (unat (4 :: u32)))"
    using list_create_rel [of 4] by auto
  have "list_inv l" "list_objects l = []"
    using l(2) list_rel_objects [OF l(2)] by (auto simp: list_inv_def)
  with list_remove_absent [of l 77] l(1) show ?thesis by simp
qed

text \<open>
  (C19) The list implements a sequence. Any run of additions and removals on a new list, growing as often as
  needed, behaves as the run on a sequence, where additions append and removals take out the first occurrence. If every
  removed object is there, the run succeeds and leaves exactly the expected objects in order, searches
  return the first object that satisfies the block (\<open>NULL\<close> if none does), and the two counters sum up to
  the capacity. If some removed object is not there, the run faults: \<open>list_remove\<close> goes on with a node that is
  never initialised.
\<close>

theorem list_refines_sequence:
  assumes "list_create True True c = Some (Some l)" "0 < unat c" "unat c + 10 * length ops < 2 ^ 31"
  shows "case list_spec ops [] of
      None \<Rightarrow> list_run (list_add True) list_remove ops l = None
    | Some xs \<Rightarrow> \<exists>l' a r. list_run (list_add True) list_remove ops l = Some l' \<and> list_inv l' \<and> list_objects l' = xs \<and>
        list_find l' (\<lambda>x. Some (P x)) = Some (case List.find P xs of None \<Rightarrow> NULL | Some x \<Rightarrow> x) \<and>
        debug_list_added_count l' = Some a \<and> debug_list_reserved_count l' = Some r \<and>
        a = int (length xs) \<and> a + r = int (unat (l_capacity l'))"
proof -
  obtain m where rel: "list_rel l m [] (new_indices 0 (unat c))" and cap: "l_capacity l = c"
    using list_create_rel [of c] assms(1-3) by auto
  then have room: "list_room (length ops + 0) l" "list_objects l = []"
    using assms(3) list_rel_objects [OF rel] by (auto simp: list_room_def list_inv_def)
  show ?thesis
  proof (cases "list_spec ops []")
    case None
    then show ?thesis
      using stored.run_faults [of ops 0 l] room list_remove_absent by (simp add: list_room_def)
  next
    case (Some xs)
    then obtain l' where l': "list_run (list_add True) list_remove ops l = Some l'" "list_inv l'" "list_objects l' = xs"
      using stored.run_refines [of ops 0 l xs] room by (auto simp: list_room_def)
    then obtain m' "is" rs where rel': "list_rel l' m' is rs"
      by (auto simp: list_inv_def)
    have sum: "int (length is) + int (length rs) = int (unat (l_capacity l'))"
      using list_counts(3) [OF rel'] by (metis of_nat_add)
    show ?thesis
      using Some l' list_find_objects [OF l'(2), of "\<lambda>x. Some (P x)" P] list_counts(1,2) [OF rel'] list_rel_objects [OF rel'] sum
      by auto
  qed
qed

theorem list_refines_sequence_witness:
  "\<exists>l l' a r. list_create True True 1 = Some (Some l) \<and> list_run (list_add True) list_remove [Add 7, Remove 8] l = None \<and>
     list_run (list_add True) list_remove [Add 7, Add 8, Add 9, Remove 8] l = Some l' \<and> list_objects l' = [7, 9] \<and>
     list_find l' (\<lambda>x. Some (8 < x)) = Some 9 \<and> debug_list_added_count l' = Some a \<and>
     debug_list_reserved_count l' = Some r \<and> a = 2 \<and> a + r = int (unat (l_capacity l'))"
proof -
  obtain l where l: "list_create True True 1 = Some (Some l)"
    using list_create_rel [of 1] by auto
  from list_refines_sequence [OF this, of "[Add 7, Add 8, Add 9, Remove 8]" "\<lambda>x. 8 < x"] list_refines_sequence [OF this, of "[Add 7, Remove 8]"] l
  show ?thesis
    by auto
qed

text \<open>
  Iteration visits every object once, from the first added to the last, threading the
  block's state, and terminates on every well-formed list.
\<close>

theorem list_iterate_in_order:
  assumes "list_inv l"
  shows "list_iterate l b st = fold (\<lambda>x r. r \<bind> b x) (list_objects l) (Some st)"
proof -
  obtain m "is" rs where rel: "list_rel l m is rs"
    using assms by (auto simp: list_inv_def)
  show ?thesis
    using iterate_loop_chain [of l m "l_head l" "is" b st] rel list_rel_objects [OF rel]
    by (simp add: list_iterate_def list_rel_def)
qed

lemma list_iterate_inv:
  assumes "list_inv l" "I st" "\<And>x st. x \<in> set (list_objects l) \<Longrightarrow> I st \<Longrightarrow> \<exists>st'. b x st = Some st' \<and> I st'"
  shows "\<exists>st'. list_iterate l b st = Some st' \<and> I st'"
proof -
  have "\<exists>st'. fold (\<lambda>x r. r \<bind> b x) xs (Some st) = Some st' \<and> I st'" if "set xs \<subseteq> set (list_objects l)" "I st" for xs st
    using that
  proof (induction xs arbitrary: st)
    case (Cons x xs)
    then obtain st1 where "b x st = Some st1" "I st1"
      using assms(3) [of x st] by auto
    with Cons show ?case
      by simp
  qed simp
  with assms(1,2) show ?thesis
    by (simp add: list_iterate_in_order)
qed

theorem list_iterate_in_order_witness:
  "\<exists>l. list_create True True 4 = Some (Some l) \<and> list_iterate l (\<lambda>x st. Some (x # st)) [5] = Some [5]"
proof -
  obtain l m where l: "list_create True True 4 = Some (Some l)" "list_rel l m [] (new_indices 0 (unat (4 :: u32)))"
    using list_create_rel [of 4] by auto
  have "list_inv l"
    using l(2) by (auto simp: list_inv_def)
  from list_iterate_in_order [OF this, of "\<lambda>x st. Some (x # st)" "[5]"] list_rel_objects [OF l(2)] l(1)
  show ?thesis by simp
qed

text \<open>
  A failed growth destroys the list. When the reserved nodes are used up and \<open>realloc\<close>
  fails, \<open>list_add\<close> returns as if nothing had happened, but the pointer to the old block has
  been overwritten: every later search, iteration or addition on the non-empty list
  dereferences a null pointer or an uninitialised node.
\<close>

theorem list_add_failed_realloc:
  assumes "list_inv l" "list_objects l \<noteq> []" "debug_list_reserved_count l = Some 0"
  shows "\<exists>l'. list_add False l ob = Some l' \<and> l_mem l' = None \<and> l_head l' = l_head l \<and>
    list_find l' c = None \<and> list_iterate l' b st = None"
proof -
  obtain m "is" rs where rel: "list_rel l m is rs"
    using assms(1) by (auto simp: list_inv_def)
  have empty: "rs = []" "is \<noteq> []"
    using list_counts(2) [OF rel] assms(2,3) list_rel_objects [OF rel] by auto
  then have "l_reserved l = 0" "l_head l \<noteq> 0"
    using rel by (auto simp: list_rel_def)
  moreover have "list_find (l\<lparr>l_mem := None\<rparr>) c = None" "list_iterate (l\<lparr>l_mem := None\<rparr>) b st = None"
    using calculation(2)
    by (simp_all add: list_find_def list_iterate_def find_loop.simps iterate_loop.simps mListNode_def)
  ultimately show ?thesis
    by (simp add: list_add_def list_reserve_def Let_def)
qed

theorem list_add_failed_realloc_witness:
  "\<exists>l'. list_add False \<lparr>l_head = 1, l_tail = 1, l_reserved = 0,
      l_mem = Some [None, Some \<lparr>ln_object = 7, ln_next = 0, ln_previous = 0\<rparr>], l_capacity = 1\<rparr> 9 = Some l' \<and>
    l_mem l' = None \<and> l_head l' = 1 \<and> list_find l' (\<lambda>x. Some True) = None"
proof -
  let ?l = "\<lparr>l_head = 1, l_tail = 1, l_reserved = 0,
      l_mem = Some [None, Some \<lparr>ln_object = 7, ln_next = 0, ln_previous = 0\<rparr>], l_capacity = 1\<rparr>"
  have rel: "list_rel ?l [None, Some \<lparr>ln_object = 7, ln_next = 0, ln_previous = 0\<rparr>] [1] []"
    by (simp add: list_rel_def nexts_def prevs_def node_at_def)
  then have "list_inv ?l" "list_objects ?l \<noteq> []" "debug_list_reserved_count ?l = Some 0"
    using list_rel_objects [OF rel] list_counts(2) [OF rel] by (auto simp: list_inv_def)
  from list_add_failed_realloc [OF this, of 9 "\<lambda>x. Some True" "\<lambda>x st. Some st" "()"] show ?thesis
    by auto
qed

end
