(* ===== verification/Float32.thy ===== *)
theory Float32
  imports Complex_Main "HOL-Library.Log_Nat"
begin

text \<open>
  Single precision arithmetic of C (\<^verbatim>\<open>float\<close>, IEEE 754 binary32, round to nearest, ties to even)
  on the rationals: every operation is the exact one followed by \<open>rnd32\<close>. Subnormal numbers are
  covered; infinities and NaN are not, so the model is that of the code as long as no value
  reaches the overflow threshold of \<open>2 ^ 128\<close>: the code that uses it works with times in
  seconds. Values of type \<^verbatim>\<open>double\<close> only occur in comparisons and divisions by one, which are exact.
\<close>

section \<open>Definitions\<close>

type_synonym float32 = rat

definition round_half_even :: "rat \<Rightarrow> int" where
  "round_half_even x =
     (let f = \<lfloor>x\<rfloor>; d = x - of_int f
      in if d < 1 / 2 then f else if 1 / 2 < d then f + 1 else if even f then f else f + 1)"

text \<open>The exponent of the leading bit of a positive rational.\<close>

definition lead_exp :: "rat \<Rightarrow> int" where
  "lead_exp x =
     (case quotient_of x of (p, q) \<Rightarrow>
        let k = bitlen p - bitlen q in if 2 powi k \<le> x then k else k - 1)"

definition rnd32 :: "rat \<Rightarrow> float32" where
  "rnd32 x =
     (if x = 0 then 0
      else let u = 2 powi (max (lead_exp \<bar>x\<bar>) (-126) - 23)
           in of_int (round_half_even (x / u)) * u)"

definition fadd :: "float32 \<Rightarrow> float32 \<Rightarrow> float32" where "fadd a b = rnd32 (a + b)"
definition fsub :: "float32 \<Rightarrow> float32 \<Rightarrow> float32" where "fsub a b = rnd32 (a - b)"
definition fmul :: "float32 \<Rightarrow> float32 \<Rightarrow> float32" where "fmul a b = rnd32 (a * b)"
definition fdiv :: "float32 \<Rightarrow> float32 \<Rightarrow> float32" where "fdiv a b = rnd32 (a / b)"

text \<open>A number with a 24-bit significand and an exponent in range.\<close>

definition representable32 :: "rat \<Rightarrow> bool" where
  "representable32 x \<longleftrightarrow> (\<exists>n e :: int. \<bar>n\<bar> < 2 ^ 24 \<and> - 149 \<le> e \<and> x = of_int n * 2 powi e)"

section \<open>Representable numbers are not rounded\<close>

lemma round_half_even_of_int [simp]: "round_half_even (of_int n) = n"
  by (simp add: round_half_even_def)

lemma lead_exp_le:
  assumes "0 < x"
  shows "2 powi lead_exp x \<le> x"
proof -
  obtain p q where pq: "quotient_of x = (p, q)"
    by (cases "quotient_of x")
  have q: "0 < q" and x: "x = of_int p / of_int q"
    using quotient_of_denom_pos [OF pq] quotient_of_div [OF pq] by simp_all
  have p: "0 < p"
    using assms q x by (simp add: zero_less_divide_iff)
  have "(2::rat) powi (bitlen p - bitlen q - 1) \<le> x"
  proof -
    have "2 ^ nat (bitlen p - 1) \<le> p" "q < 2 ^ nat (bitlen q)"
      using bitlen_bounds [OF p] bitlen_bounds [OF q] by simp_all
    then have "(2::rat) ^ nat (bitlen p - 1) \<le> of_int p" "of_int q \<le> (2::rat) ^ nat (bitlen q)"
      by (metis of_int_le_iff of_int_numeral of_int_power, metis less_imp_le of_int_le_iff of_int_numeral of_int_power)
    moreover have "(2::rat) powi (bitlen p - bitlen q - 1) = 2 powi (bitlen p - 1) / 2 powi bitlen q"
      by (simp add: power_int_diff [symmetric] algebra_simps)
    moreover have "0 \<le> bitlen p - 1" "0 \<le> bitlen q"
      using p bitlen_bounds [OF p] by (simp_all add: bitlen_nonneg bitlen_def floorlog_def)
    ultimately show ?thesis
      using q x p by (simp add: power_int_def) (intro frac_le; simp)
  qed
  then show ?thesis
    by (simp add: lead_exp_def pq Let_def diff_diff_eq)
qed

lemma powi2_less_exp: "(2::rat) powi a < 2 powi b \<Longrightarrow> a < b"
  using power_int_increasing [of b a "2::rat"] by (cases "a < b") simp_all

lemma rnd32_representable:
  assumes "representable32 x"
  shows "rnd32 x = x"
proof (cases "x = 0")
  case False
  obtain n e where n: "\<bar>n\<bar> < 2 ^ 24" "- 149 \<le> e" and x: "x = of_int n * 2 powi e"
    using assms by (auto simp: representable32_def)
  let ?k = "max (lead_exp \<bar>x\<bar>) (-126) - 23"
  have "2 powi lead_exp \<bar>x\<bar> \<le> \<bar>x\<bar>"
    using False by (intro lead_exp_le) simp
  also have "\<bar>x\<bar> < 2 ^ 24 * 2 powi e"
  proof -
    have "of_int \<bar>n\<bar> < (2 ^ 24 :: rat)"
      using n(1) by (metis of_int_less_iff of_int_numeral of_int_power)
    then show ?thesis
      by (simp add: x abs_mult)
  qed
  also have "(2::rat) ^ 24 * 2 powi e = 2 powi (24 + e)"
    by (simp add: power_int_add)
  finally have less: "(2::rat) powi lead_exp \<bar>x\<bar> < 2 powi (24 + e)" .
  from powi2_less_exp [OF less] have "lead_exp \<bar>x\<bar> < 24 + e" .
  then have k: "?k \<le> e"
    using n(2) by simp
  have "x / 2 powi ?k = of_int n * 2 powi (e - ?k)"
    by (simp add: x power_int_diff)
  also have "\<dots> = of_int (n * 2 ^ nat (e - ?k))"
    using k by (simp add: power_int_def)
  finally have "round_half_even (x / 2 powi ?k) = n * 2 ^ nat (e - ?k)"
    by (simp only: round_half_even_of_int)
  moreover have "of_int (n * 2 ^ nat (e - ?k)) * (2::rat) powi ?k = x"
  proof -
    have "(2::rat) ^ nat (e - ?k) * 2 powi ?k = 2 powi (e - ?k) * 2 powi ?k"
      using k by (simp add: power_int_def)
    also have "\<dots> = 2 powi e"
      by (simp add: power_int_add [symmetric])
    finally show ?thesis
      by (simp add: x)
  qed
  ultimately show ?thesis
    using False by (simp add: rnd32_def Let_def)
qed (simp add: rnd32_def)

lemma rnd32_0 [simp]: "rnd32 0 = 0"
  by (simp add: rnd32_def)

text \<open>Multiples of a sixteenth below a million: the dyadic constants of the flow control.\<close>

lemma rnd32_sixteenths: "\<bar>n\<bar> < 2 ^ 24 \<Longrightarrow> rnd32 (of_int n / 16) = of_int n / 16"
  by (rule rnd32_representable, unfold representable32_def, rule exI [of _ n], rule exI [of _ "-4"])
    (simp add: power_int_def power4_eq_xxxx)

section \<open>Rounding error\<close>

lemma round_half_even_error: "\<bar>of_int (round_half_even x) - x\<bar> \<le> 1 / 2"
proof -
  have "of_int \<lfloor>x\<rfloor> \<le> x" "x < of_int \<lfloor>x\<rfloor> + 1"
    by (rule of_int_floor_le, rule floor_correct [THEN conjunct2, unfolded of_int_add of_int_1])
  then show ?thesis
    by (auto simp: round_half_even_def Let_def abs_le_iff)
qed

text \<open>A positive number below \<open>2 ^ k\<close> is rounded by at most half a unit in the last place.\<close>

lemma rnd32_error:
  assumes "0 < x" "x < 2 powi k" "- 126 < k"
  shows "\<bar>rnd32 x - x\<bar> \<le> 2 powi (k - 25)"
proof -
  let ?u = "(2::rat) powi (max (lead_exp x) (-126) - 23)"
  have "(2::rat) powi lead_exp x < 2 powi k"
    using lead_exp_le [OF assms(1)] assms(2) by linarith
  then have "lead_exp x < k"
    by (rule powi2_less_exp)
  then have "?u \<le> 2 powi (k - 24)"
    using assms(3) by (intro power_int_increasing) simp_all
  moreover have "(2::rat) powi (k - 24) = 2 * 2 powi (k - 25)"
    using power_int_add [of "2::rat" 1 "k - 25"] by simp
  ultimately have "?u / 2 \<le> 2 powi (k - 25)"
    by simp
  moreover have "\<bar>(of_int (round_half_even (x / ?u)) - x / ?u) * ?u\<bar> \<le> 1 / 2 * ?u"
    unfolding abs_mult using round_half_even_error [of "x / ?u"] by (intro mult_mono) simp_all
  moreover have "(of_int (round_half_even (x / ?u)) - x / ?u) * ?u = rnd32 x - x"
    using assms(1) by (simp add: rnd32_def Let_def left_diff_distrib)
  ultimately show ?thesis
    by simp
qed

section \<open>Binades\<close>

lemma lead_exp_less:
  assumes "0 < x"
  shows "x < 2 powi (lead_exp x + 1)"
proof -
  obtain p q where pq: "quotient_of x = (p, q)"
    by (cases "quotient_of x")
  have q: "0 < q" and x: "x = of_int p / of_int q"
    using quotient_of_denom_pos [OF pq] quotient_of_div [OF pq] by simp_all
  have p: "0 < p"
    using assms q x by (simp add: zero_less_divide_iff)
  have "p < 2 ^ nat (bitlen p)" "2 ^ nat (bitlen q - 1) \<le> q"
    using bitlen_bounds [OF p] bitlen_bounds [OF q] by simp_all
  then have "of_int p < (2::rat) ^ nat (bitlen p)" "(2::rat) ^ nat (bitlen q - 1) \<le> of_int q"
    by (metis of_int_less_iff of_int_numeral of_int_power, metis of_int_le_iff of_int_numeral of_int_power)
  then have "x < 2 ^ nat (bitlen p) / 2 ^ nat (bitlen q - 1)"
    unfolding x by (intro frac_less) (simp_all add: p less_imp_le)
  moreover have "0 \<le> bitlen q - 1" "0 \<le> bitlen p"
    using q bitlen_bounds [OF q] by (simp_all add: bitlen_nonneg bitlen_def floorlog_def)
  then have "(2::rat) ^ nat (bitlen p) / 2 ^ nat (bitlen q - 1) = 2 powi (bitlen p - bitlen q + 1)"
    using power_int_diff [of "2::rat" "bitlen p" "bitlen q - 1"] by (simp add: power_int_def algebra_simps)
  ultimately show ?thesis
    by (simp add: lead_exp_def pq Let_def not_le)
qed

lemma lead_exp_unique:
  assumes "2 powi e \<le> x" "x < 2 powi (e + 1)"
  shows "lead_exp x = e"
proof -
  have "0 < x"
    using assms(1) zero_less_power_int [of "2::rat" e] by linarith
  then have "(2::rat) powi lead_exp x < 2 powi (e + 1)" "(2::rat) powi e < 2 powi (lead_exp x + 1)"
    using lead_exp_le [of x] lead_exp_less [of x] assms by linarith+
  from powi2_less_exp [OF this(1)] powi2_less_exp [OF this(2)] show ?thesis
    by simp
qed

text \<open>A number from one on is rounded by at most a part in \<open>2 ^ 24\<close>.\<close>

lemma rnd32_relative:
  assumes "1 \<le> x"
  shows "\<bar>rnd32 x - x\<bar> \<le> x / 2 ^ 24"
proof -
  have "(2::rat) powi 0 < 2 powi (lead_exp x + 1)"
    using lead_exp_less [of x] assms by simp
  then have "0 < lead_exp x + 1"
    by (rule powi2_less_exp)
  then have "\<bar>rnd32 x - x\<bar> \<le> 2 powi (lead_exp x + 1 - 25)"
    using lead_exp_less [of x] assms by (intro rnd32_error) simp_all
  also have "(2::rat) powi (lead_exp x + 1 - 25) = 2 powi lead_exp x / 2 ^ 24"
    using power_int_diff [of "2::rat" "lead_exp x" 24] by simp
  also have "\<dots> \<le> x / 2 ^ 24"
    using lead_exp_le [of x] assms by (intro divide_right_mono) simp_all
  finally show ?thesis .
qed

text \<open>Rounding of fixed-point numbers, by integer arithmetic.\<close>

definition round_shift :: "nat \<Rightarrow> int \<Rightarrow> int" where
  "round_shift j a =
     (let q = a div 2 ^ j; r = a mod 2 ^ j
      in (if 2 * r < 2 ^ j \<or> 2 * r = 2 ^ j \<and> even q then q else q + 1) * 2 ^ j)"

lemma round_half_even_shift: "of_int (round_half_even (of_int a / 2 ^ j)) * (2::rat) ^ j = of_int (round_shift j a)"
proof -
  let ?r = "of_int (a mod 2 ^ j) / (2::rat) ^ j"
  have a: "(of_int a :: rat) / 2 ^ j = of_int (a div 2 ^ j) + ?r"
  proof -
    have "(of_int a :: rat) = of_int (a div 2 ^ j * 2 ^ j + a mod 2 ^ j)"
      by (simp only: div_mult_mod_eq)
    then show ?thesis
      by (simp add: add_divide_distrib)
  qed
  have "of_int (a mod 2 ^ j) < (of_int (2 ^ j) :: rat)"
    by (subst of_int_less_iff) simp
  then have "\<lfloor>(of_int a :: rat) / 2 ^ j\<rfloor> = a div 2 ^ j"
    unfolding a by (simp add: floor_unique)
  moreover have "?r < 1 / 2 \<longleftrightarrow> 2 * (a mod 2 ^ j) < 2 ^ j" "1 / 2 < ?r \<longleftrightarrow> 2 ^ j < 2 * (a mod 2 ^ j)"
  proof -
    have "2 * of_int (a mod 2 ^ j) < (2::rat) ^ j \<longleftrightarrow> of_int (2 * (a mod 2 ^ j)) < (of_int (2 ^ j) :: rat)"
      "(2::rat) ^ j < 2 * of_int (a mod 2 ^ j) \<longleftrightarrow> (of_int (2 ^ j) :: rat) < of_int (2 * (a mod 2 ^ j))"
      by simp_all
    then show "?r < 1 / 2 \<longleftrightarrow> 2 * (a mod 2 ^ j) < 2 ^ j" "1 / 2 < ?r \<longleftrightarrow> 2 ^ j < 2 * (a mod 2 ^ j)"
      unfolding of_int_less_iff by (simp_all add: field_simps)
  qed
  ultimately show ?thesis
    using a by (simp add: round_half_even_def round_shift_def Let_def)
qed

lemma rnd32_shift:
  assumes "2 ^ (23 + j) \<le> a" "a < 2 ^ (24 + j)" "b \<le> 149"
  shows "rnd32 (of_int a / 2 ^ b) = of_int (round_shift j a) / 2 ^ b"
proof -
  have "(2::rat) ^ (23 + j) \<le> of_int a" "of_int a < (2::rat) ^ (24 + j)"
    using assms(1,2) by (metis of_int_le_iff of_int_numeral of_int_power, metis of_int_less_iff of_int_numeral of_int_power)
  then have "(2::rat) ^ (23 + j) / 2 ^ b \<le> of_int a / 2 ^ b" "of_int a / 2 ^ b < (2::rat) ^ (24 + j) / 2 ^ b"
    by (simp_all add: divide_right_mono divide_strict_right_mono)
  moreover have "(2::rat) ^ (23 + j) / 2 ^ b = 2 powi (23 + int j - int b)" "(2::rat) ^ (24 + j) / 2 ^ b = 2 powi (23 + int j - int b + 1)"
    by (simp_all add: power_int_diff power_int_add power_add)
  ultimately have lead: "lead_exp (of_int a / 2 ^ b) = 23 + int j - int b"
    by (intro lead_exp_unique) simp_all
  have pos: "0 < a"
    using assms(1) by (smt (verit) zero_less_power)
  let ?u = "(2::rat) powi (int j - int b)"
  have u: "?u = 2 ^ j / 2 ^ b"
    by (simp add: power_int_diff)
  have "max (23 + int j - int b) (- 126) - 23 = int j - int b"
    using assms(3) by simp
  then have "rnd32 (of_int a / 2 ^ b) = of_int (round_half_even (of_int a / 2 ^ b / ?u)) * ?u"
    using lead pos by (simp add: rnd32_def Let_def)
  also have "of_int a / 2 ^ b / ?u = of_int a / 2 ^ j"
    by (simp add: u)
  finally show ?thesis
    using round_half_even_shift [of a j] by (simp add: u)
qed

end
