(* ===== verification/Stream_Flow.thy ===== *)
theory Stream_Flow
  imports Float32
begin

text \<open>
  Flow control of a stream (\<^verbatim>\<open>stream_flow.c\<close>): two modes with different send rates, and a
  penalty time that a stream has to behave well before it returns to the fast mode.
\<close>

section \<open>Definitions\<close>

abbreviation (input) kStreamFlowModeBadRate :: float32 where "kStreamFlowModeBadRate \<equiv> 5"
abbreviation (input) kStreamFlowModeGoodRate :: float32 where "kStreamFlowModeGoodRate \<equiv> 15"
abbreviation (input) kStreamFlowRttThreshold :: float32 where "kStreamFlowRttThreshold \<equiv> 1 / 4"

datatype StreamFlowMode = StreamFlowModeGood | StreamFlowModeBad

record StreamFlow =
  flow_mode :: StreamFlowMode
  updateInterval :: float32
  goodConditions :: float32
  penalty :: float32
  penaltyReductionAccumulator :: float32

definition streamFlowClear :: "StreamFlow \<Rightarrow> StreamFlow" where
  "streamFlowClear ref =
     ref\<lparr>flow_mode := StreamFlowModeBad, updateInterval := fdiv 1 kStreamFlowModeBadRate, penalty := 4,
         goodConditions := 0, penaltyReductionAccumulator := 0\<rparr>"

text \<open>The two conditional blocks of \<open>streamFlowUpdate\<close>; the second sees the mode the first left.\<close>

definition flow_update_good :: "StreamFlow \<Rightarrow> float32 \<Rightarrow> float32 \<Rightarrow> StreamFlow" where
  "flow_update_good ref rtt deltaTime =
     (if rtt > kStreamFlowRttThreshold then
        let ref = ref\<lparr>flow_mode := StreamFlowModeBad, updateInterval := fdiv 1 kStreamFlowModeBadRate\<rparr>;
            ref = (if goodConditions ref < 10 \<and> penalty ref < 60 then
                     let ref = ref\<lparr>penalty := fmul (penalty ref) 2\<rparr>
                     in if penalty ref > 60 then ref\<lparr>penalty := 60\<rparr> else ref
                   else ref)
        in ref\<lparr>goodConditions := 0, penaltyReductionAccumulator := 0\<rparr>
      else
        let ref = ref\<lparr>goodConditions := fadd (goodConditions ref) deltaTime\<rparr>;
            ref = ref\<lparr>penaltyReductionAccumulator := fadd (penaltyReductionAccumulator ref) deltaTime\<rparr>
        in if penaltyReductionAccumulator ref > 10 \<and> penalty ref > 1 then
             let ref = ref\<lparr>penalty := fdiv (penalty ref) 2\<rparr>;
                 ref = (if penalty ref < 1 then ref\<lparr>penalty := 1\<rparr> else ref)
             in ref\<lparr>penaltyReductionAccumulator := 0\<rparr>
           else ref)"

definition flow_update_bad :: "StreamFlow \<Rightarrow> float32 \<Rightarrow> float32 \<Rightarrow> StreamFlow" where
  "flow_update_bad ref rtt deltaTime =
     (let ref = (if rtt \<le> kStreamFlowRttThreshold
                 then ref\<lparr>goodConditions := fadd (goodConditions ref) deltaTime\<rparr>
                 else ref\<lparr>goodConditions := 0\<rparr>)
      in if goodConditions ref > penalty ref
         then ref\<lparr>goodConditions := 0, penaltyReductionAccumulator := 0, flow_mode := StreamFlowModeGood,
                  updateInterval := fdiv 1 kStreamFlowModeGoodRate\<rparr>
         else ref)"

definition streamFlowUpdate :: "StreamFlow \<Rightarrow> float32 \<Rightarrow> float32 \<Rightarrow> StreamFlow" where
  "streamFlowUpdate ref rtt deltaTime =
     (let ref = (if flow_mode ref = StreamFlowModeGood then flow_update_good ref rtt deltaTime else ref)
      in if flow_mode ref = StreamFlowModeBad then flow_update_bad ref rtt deltaTime else ref)"

text \<open>A run: one update per measured round trip time, with the timer's fixed interval.\<close>

definition flow_run :: "float32 \<Rightarrow> float32 list \<Rightarrow> StreamFlow \<Rightarrow> StreamFlow" where
  "flow_run dt rtts ref = fold (\<lambda>rtt ref. streamFlowUpdate ref rtt dt) rtts ref"

text \<open>
  The penalties that doubling and halving between the two limits can reach from the initial
  four seconds, and what is true of every flow record.
\<close>

definition flow_penalties :: "rat set" where
  "flow_penalties = (\<lambda>n :: int. of_int n / 16) ` {16, 32, 64, 128, 256, 512, 960, 480, 240, 120, 60, 30}"

definition flow_interval :: "StreamFlowMode \<Rightarrow> float32" where
  "flow_interval m = (case m of StreamFlowModeGood \<Rightarrow> fdiv 1 kStreamFlowModeGoodRate
                              | StreamFlowModeBad \<Rightarrow> fdiv 1 kStreamFlowModeBadRate)"

definition flow_inv :: "StreamFlow \<Rightarrow> bool" where
  "flow_inv ref \<longleftrightarrow> penalty ref \<in> flow_penalties \<and> updateInterval ref = flow_interval (flow_mode ref) \<and>
     (flow_mode ref = StreamFlowModeBad \<longrightarrow> penaltyReductionAccumulator ref = 0 \<and> goodConditions ref \<le> penalty ref)"

section \<open>The penalty\<close>

lemma fmul_penalty:
  assumes "p \<in> flow_penalties" "p < 60"
  shows "(if fmul p 2 > 60 then 60 else fmul p 2) \<in> flow_penalties"
proof -
  obtain n :: int where n: "n \<in> {16, 32, 64, 128, 256, 512, 960, 480, 240, 120, 60, 30}" "p = of_int n / 16"
    using assms(1) unfolding flow_penalties_def by blast
  have "p * 2 = of_int (2 * n) / 16" "\<bar>2 * n\<bar> < 2 ^ 24"
    using n by (simp, auto)
  then have "fmul p 2 = of_int (2 * n) / 16"
    using rnd32_sixteenths [of "2 * n"] by (simp only: fmul_def)
  with n assms(2) show ?thesis
    unfolding flow_penalties_def by (elim insertE emptyE) (simp_all add: image_iff)
qed

lemma fdiv_penalty:
  assumes "p \<in> flow_penalties"
  shows "(if fdiv p 2 < 1 then 1 else fdiv p 2) \<in> flow_penalties"
proof -
  obtain n :: int where n: "n \<in> {16, 32, 64, 128, 256, 512, 960, 480, 240, 120, 60, 30}" "p = of_int n / 16"
    using assms unfolding flow_penalties_def by blast
  have "n = 2 * (n div 2)" "\<bar>n div 2\<bar> < 2 ^ 24"
    using n(1) by auto
  moreover from this(1) have "(of_int n :: rat) = 2 * of_int (n div 2)"
    by (metis of_int_mult of_int_numeral)
  ultimately have "p / 2 = of_int (n div 2) / 16" "\<bar>n div 2\<bar> < 2 ^ 24"
    using n(2) by simp_all
  then have "fdiv p 2 = of_int (n div 2) / 16"
    using rnd32_sixteenths [of "n div 2"] by (simp only: fdiv_def)
  with n show ?thesis
    unfolding flow_penalties_def by (elim insertE emptyE) (simp_all add: image_iff)
qed

lemma flow_penalties_bounds: "p \<in> flow_penalties \<Longrightarrow> 1 \<le> p \<and> p \<le> 60"
  by (auto simp: flow_penalties_def)

lemma flow_inv_clear: "flow_inv (streamFlowClear ref)"
  by (simp add: flow_inv_def streamFlowClear_def flow_interval_def flow_penalties_def image_iff)

lemma flow_inv_good:
  assumes "flow_inv ref" "flow_mode ref = StreamFlowModeGood"
  shows "penalty (flow_update_good ref rtt dt) \<in> flow_penalties \<and>
    updateInterval (flow_update_good ref rtt dt) = flow_interval (flow_mode (flow_update_good ref rtt dt)) \<and>
    (flow_mode (flow_update_good ref rtt dt) = StreamFlowModeBad \<longrightarrow>
       penaltyReductionAccumulator (flow_update_good ref rtt dt) = 0)"
proof -
  have p: "penalty ref \<in> flow_penalties" "updateInterval ref = flow_interval StreamFlowModeGood"
    using assms by (simp_all add: flow_inv_def)
  have "60 \<in> flow_penalties" "1 \<in> flow_penalties"
    by (simp_all add: flow_penalties_def image_iff)
  with p assms(2) fmul_penalty [OF p(1)] fdiv_penalty [OF p(1)] show ?thesis
    by (auto simp: flow_update_good_def flow_interval_def Let_def split: if_splits)
qed

lemma flow_inv_bad:
  assumes "penalty ref \<in> flow_penalties" "updateInterval ref = flow_interval (flow_mode ref)"
    and "flow_mode ref = StreamFlowModeBad" "penaltyReductionAccumulator ref = 0"
  shows "flow_inv (flow_update_bad ref rtt dt)"
  using assms flow_penalties_bounds [OF assms(1)]
  by (auto simp: flow_update_bad_def flow_inv_def flow_interval_def Let_def not_less)

lemma flow_inv_update: "flow_inv ref \<Longrightarrow> flow_inv (streamFlowUpdate ref rtt dt)"
  using flow_inv_good [of ref rtt dt] flow_inv_bad [of ref rtt dt]
    flow_inv_bad [of "flow_update_good ref rtt dt" rtt dt]
  by (cases "flow_mode ref"; cases "flow_mode (flow_update_good ref rtt dt)")
    (simp_all add: streamFlowUpdate_def flow_inv_def Let_def)

lemma flow_inv_run: "flow_inv ref \<Longrightarrow> flow_inv (flow_run dt rtts ref)"
  by (induction rtts arbitrary: ref) (simp_all add: flow_run_def flow_inv_update)

section \<open>Time in the bad mode\<close>

lemma fadd_grows:
  assumes "0 \<le> g" "g \<le> 60" "1 / 16 \<le> dt" "dt \<le> 1"
  shows "g + 1 / 17 \<le> fadd g dt"
proof -
  have "0 < g + dt" "g + dt < 2 powi 6"
    using assms by simp_all
  then have "\<bar>fadd g dt - (g + dt)\<bar> \<le> 2 powi (6 - 25)"
    unfolding fadd_def by (rule rnd32_error) simp
  moreover have "(2::rat) powi (6 - 25) \<le> 1 / 16 - 1 / 17"
    by (simp add: power_int_def power_one_over)
  ultimately have "\<bar>fadd g dt - (g + dt)\<bar> \<le> 1 / 16 - 1 / 17"
    by (rule order_trans)
  then show ?thesis
    using assms(3) unfolding abs_le_iff by linarith
qed

lemma flow_update_stays_good:
  "flow_mode ref = StreamFlowModeGood \<Longrightarrow> rtt \<le> 1 / 4 \<Longrightarrow> flow_mode (streamFlowUpdate ref rtt dt) = StreamFlowModeGood"
  by (simp add: streamFlowUpdate_def flow_update_good_def Let_def)

lemma flow_run_stays_good:
  "flow_mode ref = StreamFlowModeGood \<Longrightarrow> \<forall>rtt \<in> set rtts. rtt \<le> 1 / 4 \<Longrightarrow>
     flow_mode (flow_run dt rtts ref) = StreamFlowModeGood"
  by (induction rtts arbitrary: ref) (simp_all add: flow_run_def flow_update_stays_good)

lemma flow_update_bad_step:
  assumes "flow_mode ref = StreamFlowModeBad" "rtt \<le> 1 / 4"
  shows "streamFlowUpdate ref rtt dt =
    (if penalty ref < fadd (goodConditions ref) dt
     then ref\<lparr>goodConditions := 0, penaltyReductionAccumulator := 0, flow_mode := StreamFlowModeGood,
              updateInterval := fdiv 1 kStreamFlowModeGoodRate\<rparr>
     else ref\<lparr>goodConditions := fadd (goodConditions ref) dt\<rparr>)"
  using assms by (simp add: streamFlowUpdate_def flow_update_bad_def Let_def)

lemma flow_run_recovers:
  assumes "flow_inv ref" "flow_mode ref = StreamFlowModeBad" "0 \<le> goodConditions ref"
    and "\<forall>rtt \<in> set rtts. rtt \<le> 1 / 4" "1 / 16 \<le> dt" "dt \<le> 1"
    and "penalty ref < goodConditions ref + rat_of_nat (length rtts) / 17"
  shows "flow_mode (flow_run dt rtts ref) = StreamFlowModeGood"
  using assms
proof (induction rtts arbitrary: ref)
  case Nil
  then show ?case by (simp add: flow_inv_def)
next
  case (Cons rtt rtts)
  let ?g = "fadd (goodConditions ref) dt" and ?ref = "streamFlowUpdate ref rtt dt"
  have step: "flow_run dt (rtt # rtts) ref = flow_run dt rtts ?ref"
    by (simp add: flow_run_def)
  have g: "goodConditions ref + 1 / 17 \<le> ?g"
    using Cons.prems flow_penalties_bounds [of "penalty ref"] by (intro fadd_grows) (auto simp: flow_inv_def)
  show ?case
  proof (cases "penalty ref < ?g")
    case True
    then have "flow_mode ?ref = StreamFlowModeGood"
      using Cons.prems by (simp add: flow_update_bad_step)
    then show ?thesis
      using Cons.prems(4) step flow_run_stays_good by simp
  next
    case False
    then have ref: "?ref = ref\<lparr>goodConditions := ?g\<rparr>"
      using Cons.prems by (simp add: flow_update_bad_step)
    have "penalty ?ref < goodConditions ?ref + rat_of_nat (length rtts) / 17"
      using Cons.prems(7) g by (simp add: ref add_divide_distrib)
    then show ?thesis
      unfolding step using Cons.prems g flow_inv_update [OF Cons.prems(1), of rtt dt]
      by (intro Cons.IH) (simp_all add: ref)
  qed
qed

section \<open>Properties\<close>

text \<open>
  The penalty is bounded. Whatever round trip times a stream measures and whatever the
  interval between updates, the penalty stays between one and sixty seconds, in fact within the
  twelve values that exact doubling and halving between these limits reach, and the update
  interval is always the one of the current mode.
\<close>

theorem flow_penalty_bounded:
  "1 \<le> penalty (flow_run dt rtts (streamFlowClear ref)) \<and>
   penalty (flow_run dt rtts (streamFlowClear ref)) \<le> 60 \<and>
   penalty (flow_run dt rtts (streamFlowClear ref)) \<in> flow_penalties \<and>
   updateInterval (flow_run dt rtts (streamFlowClear ref)) =
     flow_interval (flow_mode (flow_run dt rtts (streamFlowClear ref)))"
  using flow_inv_run [OF flow_inv_clear, of dt rtts ref] flow_penalties_bounds
  by (simp add: flow_inv_def)

text \<open>
  (C15) Recovery. A stream in the bad mode that has counted no negative time returns to the good
  mode, and stays there, when the round trip time remains below the threshold for long enough:
  with an update at least every second and at most sixteen times per second, 1037 updates are
  enough whatever the penalty is, in spite of the rounding of the accumulated time.
\<close>

theorem flow_recovers:
  assumes "flow_inv ref" "flow_mode ref = StreamFlowModeBad" "0 \<le> goodConditions ref"
    and "\<forall>rtt \<in> set rtts. rtt \<le> 1 / 4" "1 / 16 \<le> dt" "dt \<le> 1" "1037 \<le> length rtts"
  shows "flow_mode (flow_run dt rtts ref) = StreamFlowModeGood"
proof (rule flow_run_recovers)
  have "penalty ref \<le> 60"
    using assms(1) flow_penalties_bounds by (simp add: flow_inv_def)
  moreover have "1037 \<le> rat_of_nat (length rtts)"
    using assms(7) of_nat_mono [of 1037 "length rtts", where ?'a = rat] by simp
  ultimately show "penalty ref < goodConditions ref + rat_of_nat (length rtts) / 17"
    using assms(3) by simp
qed (use assms in simp_all)

theorem flow_recovers_witness:
  "flow_mode (flow_run (1 / 15) (replicate 1037 0)
     (streamFlowClear \<lparr>flow_mode = StreamFlowModeGood, updateInterval = 0, goodConditions = 0, penalty = 0, penaltyReductionAccumulator = 0\<rparr>)) = StreamFlowModeGood"
  by (rule flow_recovers) (simp_all add: flow_inv_clear, simp_all add: streamFlowClear_def)

text \<open>
  Mode changes. After an update the stream is in the good mode exactly when the round trip
  time is within the threshold and it was in the good mode already or has now been good for
  longer than the penalty; leaving the good mode within ten seconds doubles the penalty up to
  sixty.
\<close>

theorem flow_mode_after_update:
  assumes "flow_inv ref"
  shows "(flow_mode (streamFlowUpdate ref rtt dt) = StreamFlowModeGood \<longleftrightarrow>
      rtt \<le> 1 / 4 \<and> (flow_mode ref = StreamFlowModeGood \<or> penalty ref < fadd (goodConditions ref) dt)) \<and>
    (flow_mode ref = StreamFlowModeGood \<and> 1 / 4 < rtt \<longrightarrow>
      penalty (streamFlowUpdate ref rtt dt) =
        (if goodConditions ref < 10 then min 60 (fmul (penalty ref) 2) else penalty ref))"
proof -
  have p: "1 \<le> penalty ref" "penalty ref \<le> 60"
    using assms flow_penalties_bounds by (simp_all add: flow_inv_def)
  have "0 \<le> fmul (penalty ref) 2" if "penalty ref < 60"
  proof -
    have "1 \<le> (if fmul (penalty ref) 2 > 60 then 60 else fmul (penalty ref) 2)"
      using assms that fmul_penalty flow_penalties_bounds by (metis flow_inv_def)
    then show ?thesis by (auto split: if_splits)
  qed
  moreover have "fmul 60 2 = 120"
    using rnd32_sixteenths [of 1920] by (simp add: fmul_def)
  ultimately show ?thesis
    using p
    by (cases "flow_mode ref"; cases "rtt \<le> 1 / 4"; cases "penalty ref = 60")
      (simp_all add: streamFlowUpdate_def flow_update_good_def flow_update_bad_def Let_def min_def)
qed

theorem flow_mode_after_update_witness:
  "flow_mode (streamFlowUpdate (streamFlowClear
     \<lparr>flow_mode = StreamFlowModeGood, updateInterval = 0, goodConditions = 0, penalty = 0, penaltyReductionAccumulator = 0\<rparr>) 1 1)
   \<noteq> StreamFlowModeGood"
  using flow_mode_after_update [OF flow_inv_clear, of
      "\<lparr>flow_mode = StreamFlowModeGood, updateInterval = 0, goodConditions = 0, penalty = 0, penaltyReductionAccumulator = 0\<rparr>" 1 1]
  by simp

end
