(* ===== verification/Stream_Reliability.thy ===== *)
theory Stream_Reliability
  imports Stream_Protocol Stream_Flow
begin

text \<open>
  Acknowledgements of a stream (\<^verbatim>\<open>stream_reliability.c\<close>): the ring buffer with the metadata of
  the packets sent, the sequence numbers, the bit field of packets received, the round trip
  time and the counters. A failed \<^verbatim>\<open>assert\<close> and an access outside the ring are both \<open>None\<close>.
\<close>

section \<open>Definitions\<close>

abbreviation (input) kStreamReliabilityMaxRtt :: rat where "kStreamReliabilityMaxRtt \<equiv> 1"
abbreviation (input) kStreamReliabilityMaxSequence :: u32 where "kStreamReliabilityMaxSequence \<equiv> 0xFFFF"

text \<open>
  \<open>(int)(2.35f * 1.0 * 15.0f + 0.5)\<close>; the value is derived in \<open>kStreamReliabilityBufferCapacity_eq\<close>.
\<close>

abbreviation (input) kStreamReliabilityBufferCapacity :: nat where
  "kStreamReliabilityBufferCapacity \<equiv> 35"

record StreamPacketMetadata =
  md_sequence :: u32
  md_time :: float32
  md_size :: size_t
  md_acked :: bool

record StreamReliability =
  packets :: "StreamPacketMetadata list"
  frontSent :: u32
  frontAcked :: u32
  sr_back :: u32
  sr_sequence :: Sequence
  sr_ack :: Ack
  ackBits :: AckBitField
  totalSentPackets :: u32
  totalReceivedPackets :: u32
  totalAckedPackets :: u32
  totalLostPackets :: u32
  sentBytes :: u32
  sentBytesPerSecond :: u32
  ackedPackets :: u32
  ackedPacketsPerSecond :: u32
  ackedBytes :: u32
  ackedBytesPerSecond :: u32
  sentBandwidth :: float32
  ackedBandwidth :: float32
  rtt :: float32

definition increase :: "u32 \<Rightarrow> u32 \<Rightarrow> u32" where
  "increase value mx = (value + 1) mod mx"

text \<open>The comparison and the subtraction are unsigned, the result is stored in an \<^verbatim>\<open>int\<close>.\<close>

definition decrease :: "int \<Rightarrow> u32 \<Rightarrow> u32 \<Rightarrow> int" where
  "decrease value count mx =
     (let v = word_of_int value in sint (if v \<ge> count then v - count else (v + mx) - count))"

definition isSequenceMoreRecent :: "Sequence \<Rightarrow> Sequence \<Rightarrow> Sequence \<Rightarrow> bool" where
  "isSequenceMoreRecent sq other mx \<longleftrightarrow>
     (sq > other \<and> sq - other \<le> mx div 2) \<or> (other > sq \<and> other - sq > mx div 2)"

definition streamReliabilityClear :: "StreamReliability \<Rightarrow> StreamReliability" where
  "streamReliabilityClear ref =
     ref\<lparr>frontSent := 0, frontAcked := 0, sr_back := 0, sr_sequence := 0, sr_ack := 0, ackBits := 0,
         totalSentPackets := 0, totalReceivedPackets := 0, totalAckedPackets := 0, totalLostPackets := 0,
         sentBytes := 0, sentBytesPerSecond := 0, ackedPackets := 0, ackedPacketsPerSecond := 0,
         ackedBytes := 0, ackedBytesPerSecond := 0, sentBandwidth := 0, ackedBandwidth := 0, rtt := 0\<rparr>"

definition streamReliabilityPacketSent :: "StreamReliability \<Rightarrow> size_t \<Rightarrow> StreamReliability option" where
  "streamReliabilityPacketSent ref sz = do {
     let metadata = \<lparr>md_sequence = sr_sequence ref, md_time = 0, md_size = sz, md_acked = False\<rparr>;
     ps \<leftarrow> mem_write (packets ref) (unat (sr_back ref)) metadata;
     let ref = ref\<lparr>packets := ps\<rparr>;
     let ref = ref\<lparr>sr_back := increase (sr_back ref) (of_nat kStreamReliabilityBufferCapacity)\<rparr>;
     let ref = ref\<lparr>sr_sequence := increase (sr_sequence ref) kStreamReliabilityMaxSequence\<rparr>;
     let ref = ref\<lparr>totalSentPackets := totalSentPackets ref + 1, sentBytes := sentBytes ref + of_nat sz\<rparr>;
     let ref = (if sr_back ref = frontAcked ref
       then ref\<lparr>frontAcked := increase (frontAcked ref) (of_nat kStreamReliabilityBufferCapacity)\<rparr> else ref);
     let ref = (if sr_back ref = frontSent ref
       then ref\<lparr>frontSent := increase (frontSent ref) (of_nat kStreamReliabilityBufferCapacity)\<rparr> else ref);
     if frontSent ref \<noteq> sr_back ref \<and> frontAcked ref \<noteq> sr_back ref then Some ref else None
   }"

definition streamReliabilityProcessSequence :: "StreamReliability \<Rightarrow> Sequence \<Rightarrow> StreamReliability" where
  "streamReliabilityProcessSequence ref sq =
     (if isSequenceMoreRecent sq (sr_ack ref) kStreamReliabilityMaxSequence then
        let shifts = (if sq > sr_ack ref then sq - sr_ack ref
                      else sq - sr_ack ref + kStreamReliabilityMaxSequence + 1);
            ref = (if shifts < 32
                   then ref\<lparr>ackBits := push_bit (unat shifts) (ackBits ref) OR 1\<rparr>
                   else ref\<lparr>ackBits := 0\<rparr>)
        in ref\<lparr>sr_ack := sq\<rparr>
      else
        let shifts = (if sr_ack ref \<ge> sq then sr_ack ref - sq
                      else sr_ack ref - sq + kStreamReliabilityMaxSequence + 1)
        in if shifts < 32 then ref\<lparr>ackBits := ackBits ref OR push_bit (unat shifts) 1\<rparr> else ref)"

text \<open>The body of the loop over the bit field, \<open>n\<close> iterations before its end.\<close>

definition float_tenth :: float32 where "float_tenth = rnd32 (1 / 10)"

fun process_ack_loop :: "nat \<Rightarrow> StreamReliability \<Rightarrow> AckBitField \<Rightarrow> int \<Rightarrow> StreamReliability option" where
  "process_ack_loop 0 ref bits pivot = Some ref"
| "process_ack_loop (Suc n) ref bits pivot = do {
     m \<leftarrow> (if pivot < 0 then None else mem_read (packets ref) (nat pivot));
     let ref = (if \<not> md_acked m \<and> bits AND 1 \<noteq> 0
       then ref\<lparr>packets := (packets ref)[nat pivot := m\<lparr>md_acked := True\<rparr>],
                totalAckedPackets := totalAckedPackets ref + 1,
                rtt := fadd (rtt ref) (fmul (fsub (md_time m) (rtt ref)) float_tenth)\<rparr>
       else ref);
     process_ack_loop n ref (drop_bit 1 bits) (decrease pivot 1 (of_nat kStreamReliabilityBufferCapacity))
   }"

definition streamReliabilityProcessAck :: "StreamReliability \<Rightarrow> Ack \<Rightarrow> AckBitField \<Rightarrow> StreamReliability option" where
  "streamReliabilityProcessAck ref ack bits =
     (if frontSent ref = sr_back ref then Some ref
      else
        let pivot = sint (sr_back ref);
            count = sint (if sr_sequence ref > ack then sr_sequence ref - ack
                          else sr_sequence ref - ack + kStreamReliabilityMaxSequence + 1)
        in if count < int kStreamReliabilityBufferCapacity then
             let pivot = decrease pivot (word_of_int count) (of_nat kStreamReliabilityBufferCapacity)
             in if 0 \<le> pivot \<and> pivot < int kStreamReliabilityBufferCapacity
                then process_ack_loop 31 ref bits pivot else None
           else Some ref)"

definition streamReliabilityPacketReceived ::
    "StreamReliability \<Rightarrow> Sequence \<Rightarrow> Ack \<Rightarrow> AckBitField \<Rightarrow> StreamReliability option" where
  "streamReliabilityPacketReceived ref sq ack bits = do {
     let ref = streamReliabilityProcessSequence ref sq;
     ref \<leftarrow> streamReliabilityProcessAck ref ack bits;
     Some (ref\<lparr>totalReceivedPackets := totalReceivedPackets ref + 1\<rparr>)
   }"

definition float_epsilon :: float32 where "float_epsilon = rnd32 (1 / 10000)"

partial_function (option) sent_front_loop :: "StreamReliability \<Rightarrow> StreamReliability option" where
  "sent_front_loop ref =
     (if frontSent ref \<noteq> sr_back ref
      then do {
        m \<leftarrow> mem_read (packets ref) (unat (frontSent ref));
        if md_time m > kStreamReliabilityMaxRtt + float_epsilon
        then sent_front_loop
               (ref\<lparr>sentBytes := sentBytes ref - of_nat (md_size m),
                    totalLostPackets := (if md_acked m then totalLostPackets ref else totalLostPackets ref + 1),
                    frontSent := increase (frontSent ref) (of_nat kStreamReliabilityBufferCapacity)\<rparr>)
        else Some ref
      }
      else Some ref)"

partial_function (option) acked_front_loop :: "StreamReliability \<Rightarrow> StreamReliability option" where
  "acked_front_loop ref =
     (if frontAcked ref \<noteq> sr_back ref
      then do {
        m \<leftarrow> mem_read (packets ref) (unat (frontAcked ref));
        if md_time m > kStreamReliabilityMaxRtt * 2 - float_epsilon
        then acked_front_loop (ref\<lparr>frontAcked := increase (frontAcked ref) (of_nat kStreamReliabilityBufferCapacity)\<rparr>)
        else Some ref
      }
      else Some ref)"

partial_function (option) acked_stats_loop :: "StreamReliability \<Rightarrow> u32 \<Rightarrow> StreamReliability option" where
  "acked_stats_loop ref pivot =
     (if pivot \<noteq> sr_back ref
      then do {
        m \<leftarrow> mem_read (packets ref) (unat pivot);
        acked_stats_loop
          (if md_acked m \<and> md_time m \<ge> kStreamReliabilityMaxRtt
           then ref\<lparr>ackedPackets := ackedPackets ref + 1, ackedBytes := ackedBytes ref + of_nat (md_size m)\<rparr>
           else ref)
          (increase pivot (of_nat kStreamReliabilityBufferCapacity))
      }
      else Some ref)"

text \<open>A counter divided by the \<^verbatim>\<open>double\<close> constant and truncated; a rate in kilobits.\<close>

definition per_max_rtt :: "u32 \<Rightarrow> u32" where
  "per_max_rtt n = word_of_int \<lfloor>of_nat (unat n) / kStreamReliabilityMaxRtt\<rfloor>"

definition kilobits :: "u32 \<Rightarrow> float32" where
  "kilobits n = fmul (rnd32 (of_nat (unat n))) (rnd32 (8 / 1000))"

definition streamReliabilityUpdate :: "StreamReliability \<Rightarrow> float32 \<Rightarrow> StreamReliability option" where
  "streamReliabilityUpdate ref deltaTime =
     (if frontSent ref = sr_back ref then Some ref
      else do {
        let ref = ref\<lparr>packets := map (\<lambda>m. m\<lparr>md_time := fadd (md_time m) deltaTime\<rparr>) (packets ref)\<rparr>;
        ref \<leftarrow> sent_front_loop ref;
        ref \<leftarrow> acked_front_loop ref;
        let ref = ref\<lparr>ackedPackets := 0, ackedBytes := 0\<rparr>;
        ref \<leftarrow> (if frontAcked ref \<noteq> sr_back ref then acked_stats_loop ref (frontAcked ref) else Some ref);
        let ref = ref\<lparr>sentBytesPerSecond := per_max_rtt (sentBytes ref),
                      ackedPacketsPerSecond := per_max_rtt (ackedPackets ref),
                      ackedBytesPerSecond := per_max_rtt (ackedBytes ref)\<rparr>;
        Some (ref\<lparr>sentBandwidth := kilobits (sentBytesPerSecond ref),
                  ackedBandwidth := kilobits (ackedBytesPerSecond ref)\<rparr>)
      })"

text \<open>The events of a stream, and a run of them.\<close>

datatype rel_op = Sent size_t | Received Sequence Ack AckBitField | Updated float32

fun rel_step :: "rel_op \<Rightarrow> StreamReliability \<Rightarrow> StreamReliability option" where
  "rel_step (Sent n) ref = streamReliabilityPacketSent ref n"
| "rel_step (Received sq ack bits) ref = streamReliabilityPacketReceived ref sq ack bits"
| "rel_step (Updated dt) ref = streamReliabilityUpdate ref dt"

fun rel_run :: "rel_op list \<Rightarrow> StreamReliability \<Rightarrow> StreamReliability option" where
  "rel_run [] ref = Some ref"
| "rel_run (op # ops) ref = rel_step op ref \<bind> rel_run ops"

text \<open>
  The ring is well formed: its three indices lie inside and the sequence number is below the
  modulus it is counted by.
\<close>

definition rel_wf :: "StreamReliability \<Rightarrow> bool" where
  "rel_wf ref \<longleftrightarrow> length (packets ref) = kStreamReliabilityBufferCapacity \<and>
     unat (frontSent ref) < kStreamReliabilityBufferCapacity \<and>
     unat (frontAcked ref) < kStreamReliabilityBufferCapacity \<and>
     unat (sr_back ref) < kStreamReliabilityBufferCapacity \<and> unat (sr_sequence ref) < 0xFFFF"

text \<open>The slot \<open>k\<close> places before the index \<open>p\<close>.\<close>

definition slot_before :: "nat \<Rightarrow> nat \<Rightarrow> nat" where
  "slot_before p k = (p + 35 - k) mod 35"

text \<open>The slots from a front index up to the back index, oldest first.\<close>

definition window :: "nat \<Rightarrow> nat \<Rightarrow> nat list" where
  "window f b = map (\<lambda>i. (f + i) mod 35) [0..<(b + 35 - f) mod 35]"

text \<open>Acknowledgements on the wire are sequence numbers: sixteen bits. How many packets a run sends.\<close>

fun op_ok :: "rel_op \<Rightarrow> bool" where
  "op_ok (Received sq ack bits) \<longleftrightarrow> unat ack < 0x10000"
| "op_ok _ \<longleftrightarrow> True"

fun op_sent :: "rel_op \<Rightarrow> nat" where
  "op_sent (Sent n) = 1"
| "op_sent _ = 0"

fun op_received :: "rel_op \<Rightarrow> nat" where
  "op_received (Received sq ack bits) = 1"
| "op_received _ = 0"

text \<open>Before the first wrap-around the ring holds the last 35 packets under their numbers.\<close>

definition rel_seqs :: "StreamReliability \<Rightarrow> bool" where
  "rel_seqs ref \<longleftrightarrow> (\<forall>k. 1 \<le> k \<and> k \<le> 35 \<and> k \<le> unat (sr_sequence ref) \<longrightarrow>
     unat (md_sequence (packets ref ! slot_before (unat (sr_back ref)) k)) = unat (sr_sequence ref) - k)"

definition rel_inv :: "nat \<Rightarrow> nat \<Rightarrow> StreamReliability \<Rightarrow> bool" where
  "rel_inv n m ref \<longleftrightarrow> rel_wf ref \<and> unat (sr_sequence ref) = n mod 0xFFFF \<and>
     totalSentPackets ref = of_nat n \<and> totalReceivedPackets ref = of_nat m \<and> (n < 0xFFFF \<longrightarrow> rel_seqs ref)"

text \<open>A record as \<^verbatim>\<open>calloc\<close> leaves it, and the same after one packet of ten bytes.\<close>

definition zero_reliability :: StreamReliability where
  "zero_reliability =
     \<lparr>packets = replicate 35 \<lparr>md_sequence = 0, md_time = 0, md_size = 0, md_acked = False\<rparr>,
      frontSent = 0, frontAcked = 0, sr_back = 0, sr_sequence = 0, sr_ack = 0, ackBits = 0,
      totalSentPackets = 0, totalReceivedPackets = 0, totalAckedPackets = 0, totalLostPackets = 0,
      sentBytes = 0, sentBytesPerSecond = 0, ackedPackets = 0, ackedPacketsPerSecond = 0,
      ackedBytes = 0, ackedBytesPerSecond = 0, sentBandwidth = 0, ackedBandwidth = 0, rtt = 0\<rparr>"

definition one_packet :: StreamReliability where
  "one_packet = zero_reliability
     \<lparr>packets := (packets zero_reliability)[0 := \<lparr>md_sequence = 0, md_time = 0, md_size = 10, md_acked = False\<rparr>],
      sr_back := 1, sr_sequence := 1, totalSentPackets := 1, sentBytes := 10\<rparr>"

section \<open>Ring arithmetic\<close>

lemma kStreamReliabilityBufferCapacity_eq:
  "\<lfloor>rnd32 (235 / 100) * kStreamReliabilityMaxRtt * kStreamFlowModeGoodRate + 1 / 2\<rfloor> = int kStreamReliabilityBufferCapacity"
  by code_simp


lemma unat_increase:
  assumes "unat v < m" "m < 2 ^ 32"
  shows "unat (increase v (of_nat m)) = (unat v + 1) mod m"
proof -
  have "unat v + 1 < 2 ^ 32"
    using assms by linarith
  then have "unat (v + 1) = unat v + 1"
    by (simp add: unat_word_ariths)
  moreover have "unat (of_nat m :: u32) = m"
    using assms(2) by (simp add: unat_of_nat)
  ultimately show ?thesis
    by (simp add: increase_def unat_mod)
qed

lemma unat_increase_ring [simp]: "unat v < 35 \<Longrightarrow> unat (increase v 35) = (unat v + 1) mod 35"
  using unat_increase [of v 35] by simp

lemma unat_increase_sequence [simp]: "unat v < 0xFFFF \<Longrightarrow> unat (increase v 0xFFFF) = (unat v + 1) mod 0xFFFF"
  using unat_increase [of v "0xFFFF"] by simp

lemma slot_before_less [simp]: "slot_before p k < 35"
  by (simp add: slot_before_def)

lemma sint_of_nat_small: "n < 2 ^ 31 \<Longrightarrow> sint (of_nat n :: u32) = int n"
  using sint_small [of "of_nat n"] by (simp add: unat_of_nat)

lemma decrease_ring:
  assumes "p < 35" "k \<le> 35"
  shows "decrease (int p) (of_nat k) 35 = int (slot_before p k)"
proof -
  have p: "unat (of_nat p :: u32) = p" and k: "unat (of_nat k :: u32) = k"
    using assms by (simp_all add: unat_of_nat)
  show ?thesis
  proof (cases "k \<le> p")
    case True
    then have "(of_nat p :: u32) - of_nat k = of_nat (p - k)" "slot_before p k = p - k"
      using assms by (simp_all add: of_nat_diff slot_before_def mod_if)
    moreover have "sint (of_nat (p - k) :: u32) = int (p - k)"
      using assms by (intro sint_of_nat_small) simp
    ultimately show ?thesis
      using True p k by (simp add: decrease_def word_le_nat_alt)
  next
    case False
    then have "(of_nat p + 35 :: u32) - of_nat k = of_nat (p + 35 - k)" "slot_before p k = p + 35 - k"
      using assms by (simp_all add: of_nat_diff slot_before_def)
    moreover have "sint (of_nat (p + 35 - k) :: u32) = int (p + 35 - k)"
      using assms by (intro sint_of_nat_small) simp
    ultimately show ?thesis
      using False p k by (simp add: decrease_def word_le_nat_alt)
  qed
qed

lemma slot_before_if:
  assumes "p < 35" "k \<le> 35"
  shows "slot_before p k = (if k \<le> p then p - k else p + 35 - k)"
proof (cases "k \<le> p")
  case True
  then have eq: "p + 35 - k = (p - k) + 35"
    by simp
  show ?thesis
    unfolding slot_before_def eq mod_add_self2 using True assms by simp
qed (use assms in \<open>simp add: slot_before_def\<close>)

lemma slot_before_slot: "k + i \<le> 35 \<Longrightarrow> p < 35 \<Longrightarrow> slot_before (slot_before p k) i = slot_before p (k + i)"
  unfolding slot_before_def by (cases "k \<le> p") (simp_all add: mod_if)

lemma slot_before_inj: "slot_before p i = slot_before p k \<Longrightarrow> p < 35 \<Longrightarrow> i < 35 \<Longrightarrow> k < 35 \<Longrightarrow> i = k"
  unfolding slot_before_def by (auto simp: mod_if split: if_splits)

section \<open>Receiving sequence numbers\<close>

text \<open>
  What the acknowledgement and its bit field say of the set \<open>R\<close> of sequence numbers received
  so far, as long as the numbers have not wrapped around.
\<close>

definition ack_view :: "StreamReliability \<Rightarrow> nat set \<Rightarrow> bool" where
  "ack_view ref R \<longleftrightarrow> (\<forall>q \<in> R. q \<le> unat (sr_ack ref)) \<and>
     (\<forall>i < 32. bit (ackBits ref) i \<longleftrightarrow> i \<le> unat (sr_ack ref) \<and> unat (sr_ack ref) - i \<in> R)"

lemma more_recent_near:
  assumes "unat (sq :: u32) \<le> unat a + 0x7FFF" "unat a \<le> unat sq + 0x7FFF"
  shows "isSequenceMoreRecent sq a 0xFFFF \<longleftrightarrow> unat a < unat sq"
proof -
  have "unat (sq - a) = unat sq - unat a" if "unat a < unat sq"
    using that by (simp add: unat_sub word_le_nat_alt)
  moreover have "unat (a - sq) = unat a - unat sq" if "unat sq < unat a"
    using that by (simp add: unat_sub word_le_nat_alt)
  ultimately show ?thesis
    using assms by (auto simp: isSequenceMoreRecent_def word_less_nat_alt word_le_nat_alt)
qed

lemma ack_view_newer:
  assumes "ack_view ref R" "unat (sr_ack ref) < unat sq" "unat sq - unat (sr_ack ref) < 32"
  shows "ack_view (streamReliabilityProcessSequence ref sq) (insert (unat sq) R)"
proof -
  let ?a = "unat (sr_ack ref)" and ?s = "unat sq"
  have sub: "unat (sq - sr_ack ref) = ?s - ?a"
    using assms(2) by (simp add: unat_sub word_le_nat_alt)
  have "isSequenceMoreRecent sq (sr_ack ref) 0xFFFF"
    using assms by (subst more_recent_near) simp_all
  then have step: "streamReliabilityProcessSequence ref sq =
      ref\<lparr>ackBits := push_bit (?s - ?a) (ackBits ref) OR 1, sr_ack := sq\<rparr>"
    using assms(2,3) sub by (simp add: streamReliabilityProcessSequence_def Let_def word_less_nat_alt)
  have "bit (push_bit (?s - ?a) (ackBits ref) OR 1) i \<longleftrightarrow> i \<le> ?s \<and> ?s - i \<in> insert ?s R" if "i < 32" for i
  proof -
    have R: "q \<in> R \<Longrightarrow> q \<le> ?a" for q
      using assms(1) by (auto simp: ack_view_def)
    consider "i = 0" | "0 < i" "i < ?s - ?a" | "?s - ?a \<le> i" "0 < i"
      by linarith
    then show ?thesis
    proof cases
      case 1
      then show ?thesis by (simp add: bit_simps)
    next
      case 2
      then have "?s - i \<noteq> ?s" "?s - i \<notin> R"
        using R [of "?s - i"] assms(2) by auto
      with 2 that show ?thesis by (simp add: bit_simps)
    next
      case 3
      then have "?s - i = ?a - (i - (?s - ?a))" "i \<le> ?s \<longleftrightarrow> i - (?s - ?a) \<le> ?a" "?s - i \<noteq> ?s"
        using assms(2) by auto
      moreover have "bit (ackBits ref) (i - (?s - ?a)) \<longleftrightarrow>
          i - (?s - ?a) \<le> ?a \<and> ?a - (i - (?s - ?a)) \<in> R"
        using assms(1) that by (simp add: ack_view_def)
      ultimately show ?thesis
        using 3 that by (simp add: bit_simps)
    qed
  qed
  then show ?thesis
    using assms by (auto simp: step ack_view_def)
qed

lemma ack_view_older:
  assumes "ack_view ref R" "unat sq \<le> unat (sr_ack ref)" "unat (sr_ack ref) \<le> unat sq + 0x7FFF"
  shows "ack_view (streamReliabilityProcessSequence ref sq) (insert (unat sq) R)"
proof -
  let ?a = "unat (sr_ack ref)" and ?s = "unat sq"
  have sub: "unat (sr_ack ref - sq) = ?a - ?s"
    using assms(2) by (simp add: unat_sub word_le_nat_alt)
  have "\<not> isSequenceMoreRecent sq (sr_ack ref) 0xFFFF"
    using assms by (subst more_recent_near) simp_all
  then have step: "streamReliabilityProcessSequence ref sq =
      (if ?a - ?s < 32 then ref\<lparr>ackBits := ackBits ref OR push_bit (?a - ?s) 1\<rparr> else ref)"
    using assms(2) sub
    by (simp add: streamReliabilityProcessSequence_def Let_def word_less_nat_alt word_le_nat_alt)
  have "?a - i = ?s \<longleftrightarrow> i = ?a - ?s" if "i \<le> ?a" for i
    using that assms(2) by auto
  moreover have "i = ?a - ?s \<Longrightarrow> i \<le> ?a" for i
    by simp
  ultimately show ?thesis
    using assms unfolding step ack_view_def by (auto simp: bit_simps)
qed

text \<open>
  No number is more than 31 ahead of the largest one before it, and none comes later than
  half of the sequence numbers after the largest one.
\<close>

fun in_window :: "nat \<Rightarrow> nat list \<Rightarrow> bool" where
  "in_window h [] \<longleftrightarrow> True"
| "in_window h (q # qs) \<longleftrightarrow> q < h + 32 \<and> h \<le> q + 0x7FFF \<and> in_window (max h q) qs"

lemma process_sequence_ack:
  assumes "unat sq \<le> unat (sr_ack ref) + 0x7FFF" "unat (sr_ack ref) \<le> unat sq + 0x7FFF"
  shows "unat (sr_ack (streamReliabilityProcessSequence ref sq)) = max (unat (sr_ack ref)) (unat sq)"
  using more_recent_near [OF assms]
  by (auto simp: streamReliabilityProcessSequence_def Let_def)

lemma ack_view_run:
  assumes "ack_view ref R" "in_window (unat (sr_ack ref)) (map unat qs)"
  shows "ack_view (fold (\<lambda>q ref. streamReliabilityProcessSequence ref q) qs ref) (unat ` set qs \<union> R) \<and>
    unat (sr_ack (fold (\<lambda>q ref. streamReliabilityProcessSequence ref q) qs ref))
      = Max (insert (unat (sr_ack ref)) (unat ` set qs))"
  using assms
proof (induction qs arbitrary: ref R)
  case (Cons q qs)
  let ?ref = "streamReliabilityProcessSequence ref q"
  have view: "ack_view ?ref (insert (unat q) R)"
    using Cons.prems ack_view_newer [of ref R q] ack_view_older [of ref R q]
    by (cases "unat (sr_ack ref) < unat q") auto
  have ack: "unat (sr_ack ?ref) = max (unat (sr_ack ref)) (unat q)"
    using Cons.prems by (intro process_sequence_ack) simp_all
  have "Max (insert (max (unat (sr_ack ref)) (unat q)) (unat ` set qs))
      = Max (insert (unat (sr_ack ref)) (unat ` set (q # qs)))"
    by (cases "qs = []") (simp_all add: max.assoc max.left_commute)
  with Cons.IH [OF view] Cons.prems ack show ?case
    by simp
qed simp

section \<open>Acknowledging packets\<close>

text \<open>The packet in slot \<open>j\<close> is hit by a set bit of the first \<open>n\<close>, counted back from slot \<open>p\<close>.\<close>

definition hit :: "nat \<Rightarrow> AckBitField \<Rightarrow> nat \<Rightarrow> nat \<Rightarrow> bool" where
  "hit n bits p j \<longleftrightarrow> (\<exists>i < n. bit bits i \<and> j = slot_before p i)"

definition mark_hits :: "(nat \<Rightarrow> bool) \<Rightarrow> StreamPacketMetadata list \<Rightarrow> StreamPacketMetadata list" where
  "mark_hits H ps = map (\<lambda>j. (ps ! j)\<lparr>md_acked := md_acked (ps ! j) \<or> H j\<rparr>) [0..<length ps]"

lemma mark_hits_nth [simp]:
  "j < length ps \<Longrightarrow> mark_hits H ps ! j = (ps ! j)\<lparr>md_acked := md_acked (ps ! j) \<or> H j\<rparr>"
  "length (mark_hits H ps) = length ps"
  by (simp_all add: mark_hits_def)

lemma bit_drop_Suc: "bit (drop_bit 1 bits) i = bit bits (Suc i)" for bits :: u32
  by (simp add: bit_drop_bit_eq)

lemma slot_before_0 [simp]: "p < 35 \<Longrightarrow> slot_before p 0 = p"
  by (simp add: slot_before_def)

lemma hit_Suc:
  assumes "p < 35" "n < 35"
  shows "hit (Suc n) bits p j \<longleftrightarrow> bit bits 0 \<and> j = p \<or> hit n (drop_bit 1 bits) (slot_before p 1) j"
proof -
  have "slot_before (slot_before p 1) i = slot_before p (Suc i)" if "i < n" for i
    using slot_before_slot [of 1 i p] that assms by simp
  then show ?thesis
    using assms(1) unfolding hit_def Ex_less_Suc2 bit_drop_Suc by auto
qed

lemma and_one_bit: "(bits :: u32) AND 1 \<noteq> 0 \<longleftrightarrow> bit bits 0"
  by (simp add: and_one_eq bit_0 odd_iff_mod_2_eq_one)

text \<open>The fields other than the packets, the round trip time and the counter of acknowledged packets.\<close>

definition same_counters :: "StreamReliability \<Rightarrow> StreamReliability \<Rightarrow> bool" where
  "same_counters ref ref' \<longleftrightarrow>
     ref' = ref\<lparr>packets := packets ref', totalAckedPackets := totalAckedPackets ref', rtt := rtt ref'\<rparr>"

lemma same_counters_refl [simp]: "same_counters ref ref"
  by (simp add: same_counters_def)

lemma same_counters_trans: "same_counters a b \<Longrightarrow> same_counters b c \<Longrightarrow> same_counters a c"
  unfolding same_counters_def by (cases a; cases b; cases c) simp

lemma same_counters_sel:
  "same_counters ref ref' \<Longrightarrow> frontSent ref' = frontSent ref \<and> frontAcked ref' = frontAcked ref \<and>
     sr_back ref' = sr_back ref \<and> sr_sequence ref' = sr_sequence ref \<and>
     totalSentPackets ref' = totalSentPackets ref \<and> totalReceivedPackets ref' = totalReceivedPackets ref"
  unfolding same_counters_def by (cases ref; cases ref') simp

lemma process_ack_loop_eq:
  assumes "length (packets ref) = 35" "p < 35" "n \<le> 35"
  shows "\<exists>ref'. process_ack_loop n ref bits (int p) = Some ref' \<and> same_counters ref ref' \<and>
    packets ref' = mark_hits (hit n bits p) (packets ref)"
  using assms
proof (induction n arbitrary: ref bits p)
  case 0
  have "mark_hits (hit 0 bits p) (packets ref) = packets ref"
    by (rule nth_equalityI) (simp_all add: hit_def)
  then show ?case by (auto intro: exI [of _ ref])
next
  case (Suc n)
  let ?m = "packets ref ! p" and ?p = "slot_before p 1"
  define ref1 where "ref1 = (if \<not> md_acked ?m \<and> bits AND 1 \<noteq> 0
       then ref\<lparr>packets := (packets ref)[p := ?m\<lparr>md_acked := True\<rparr>],
                totalAckedPackets := totalAckedPackets ref + 1,
                rtt := fadd (rtt ref) (fmul (fsub (md_time ?m) (rtt ref)) float_tenth)\<rparr>
       else ref)"
  have len: "length (packets ref1) = 35"
    using Suc.prems by (simp add: ref1_def)
  have ref1: "same_counters ref ref1"
    by (simp add: ref1_def same_counters_def)
  have step: "process_ack_loop (Suc n) ref bits (int p) = process_ack_loop n ref1 (drop_bit 1 bits) (int ?p)"
    using Suc.prems decrease_ring [of p 1] by (simp add: ref1_def Let_def)
  obtain ref' where ref': "process_ack_loop n ref1 (drop_bit 1 bits) (int ?p) = Some ref'"
    "same_counters ref1 ref'" "packets ref' = mark_hits (hit n (drop_bit 1 bits) ?p) (packets ref1)"
    using Suc.IH [OF len, of ?p "drop_bit 1 bits"] Suc.prems by auto
  have "packets ref1 ! j = (packets ref ! j)\<lparr>md_acked := md_acked (packets ref ! j) \<or> bit bits 0 \<and> j = p\<rparr>"
    if "j < 35" for j
    using Suc.prems(1) that
    by (cases "packets ref ! j"; cases "j = p") (simp_all add: ref1_def and_one_bit)
  then have "packets ref' = mark_hits (hit (Suc n) bits p) (packets ref)"
    unfolding ref'(3) using Suc.prems len
    by (intro nth_equalityI) (auto simp: hit_Suc Suc_le_eq)
  with ref'(1,2) ref1 step show ?case
    by (auto intro: same_counters_trans)
qed

text \<open>The distance from the next sequence number back to an acknowledged one.\<close>

lemma ack_distance:
  assumes "unat (sq :: u32) < 0xFFFF" "unat ack < 0x10000"
  shows "(if sq > ack then sq - ack else sq - ack + 0xFFFF + 1)
      = of_nat (if unat ack < unat sq then unat sq - unat ack else unat sq + 0x10000 - unat ack)"
proof (cases "unat ack < unat sq")
  case True
  then have "of_nat (unat sq - unat ack) = sq - ack"
    by (simp add: of_nat_diff)
  with True show ?thesis by (simp add: word_less_nat_alt)
next
  case False
  have "of_nat (unat sq + 0x10000 - unat ack) = sq + 0x10000 - ack"
    using assms(2) by (subst of_nat_diff) simp_all
  also have "\<dots> = sq - ack + 0xFFFF + 1"
    by simp
  finally show ?thesis
    using False by (simp add: word_less_nat_alt)
qed

lemma process_ack_eq:
  assumes "rel_wf ref" "frontSent ref \<noteq> sr_back ref" "c < 2 ^ 31"
    and "(if sr_sequence ref > ack then sr_sequence ref - ack else sr_sequence ref - ack + 0xFFFF + 1) = of_nat c"
  shows "streamReliabilityProcessAck ref ack bits =
    (if c < 35 then process_ack_loop 31 ref bits (int (slot_before (unat (sr_back ref)) c)) else Some ref)"
proof -
  have bk: "unat (sr_back ref) < 35"
    using assms(1) by (simp add: rel_wf_def)
  have "sint (sr_back ref) = int (unat (sr_back ref))"
    using bk by (intro sint_small) simp
  moreover have "sint (of_nat c :: u32) = int c"
    using assms(3) by (rule sint_of_nat_small)
  moreover have "decrease (int (unat (sr_back ref))) (of_nat c) 35 = int (slot_before (unat (sr_back ref)) c)" if "c < 35"
    using bk that by (intro decrease_ring) simp_all
  ultimately show ?thesis
    using assms(2,4) by (simp add: streamReliabilityProcessAck_def Let_def del: of_nat_unat)
qed

lemma process_ack_safe:
  assumes "rel_wf ref" "unat ack < 0x10000"
  shows "\<exists>ref' H. streamReliabilityProcessAck ref ack bits = Some ref' \<and> same_counters ref ref' \<and>
    packets ref' = mark_hits H (packets ref)"
proof -
  have idle: "\<exists>H. packets ref = mark_hits H (packets ref)"
    by (rule exI [of _ "\<lambda>_. False"], rule nth_equalityI) simp_all
  have none_sent: "frontSent ref = sr_back ref \<Longrightarrow> streamReliabilityProcessAck ref ack bits = Some ref"
    by (simp add: streamReliabilityProcessAck_def)
  define c where "c = (if unat ack < unat (sr_sequence ref) then unat (sr_sequence ref) - unat ack
      else unat (sr_sequence ref) + 0x10000 - unat ack)"
  have "c < 2 ^ 31"
    unfolding c_def using assms by (auto simp: rel_wf_def)
  moreover have "(if sr_sequence ref > ack then sr_sequence ref - ack else sr_sequence ref - ack + 0xFFFF + 1) = of_nat c"
    unfolding c_def using assms by (intro ack_distance) (simp_all add: rel_wf_def)
  moreover have "\<exists>ref'. process_ack_loop 31 ref bits (int (slot_before (unat (sr_back ref)) c)) = Some ref' \<and>
      same_counters ref ref' \<and> packets ref' = mark_hits (hit 31 bits (slot_before (unat (sr_back ref)) c)) (packets ref)"
    using assms(1) by (intro process_ack_loop_eq) (simp_all add: rel_wf_def)
  ultimately show ?thesis
    using assms(1) idle none_sent process_ack_eq [of ref c ack bits]
    by (cases "frontSent ref = sr_back ref"; cases "c < 35") auto
qed

section \<open>Sending\<close>

lemma ring_Suc_neq: "b < 35 \<Longrightarrow> (b + 1) mod 35 \<noteq> (b :: nat)"
  by (auto simp: mod_if split: if_splits)

lemma packet_sent_eq:
  assumes "rel_wf ref"
  shows "\<exists>ref'. streamReliabilityPacketSent ref n = Some ref' \<and> rel_wf ref' \<and>
    packets ref' = (packets ref)[unat (sr_back ref) :=
      \<lparr>md_sequence = sr_sequence ref, md_time = 0, md_size = n, md_acked = False\<rparr>] \<and>
    unat (sr_back ref') = (unat (sr_back ref) + 1) mod 35 \<and>
    unat (sr_sequence ref') = (unat (sr_sequence ref) + 1) mod 0xFFFF \<and>
    frontSent ref' \<noteq> sr_back ref' \<and> totalSentPackets ref' = totalSentPackets ref + 1 \<and>
    totalReceivedPackets ref' = totalReceivedPackets ref \<and> rtt ref' = rtt ref \<and> sr_ack ref' = sr_ack ref"
proof -
  obtain b where b: "increase (sr_back ref) 35 = b" "unat b = (unat (sr_back ref) + 1) mod 35" "unat b < 35"
    using assms by (simp add: rel_wf_def)
  have "increase b 35 \<noteq> b"
    using b(3) ring_Suc_neq [of "unat b"] by (metis unat_increase_ring)
  with assms b show ?thesis
    by (auto simp: streamReliabilityPacketSent_def rel_wf_def Let_def)
qed

section \<open>The sliding windows\<close>

lemma window_empty [simp]: "f < 35 \<Longrightarrow> window f f = []"
  by (simp add: window_def)

lemma window_Cons:
  assumes "f < 35" "b < 35" "f \<noteq> b"
  shows "window f b = f # window ((f + 1) mod 35) b"
proof -
  have "(b + 35 - f) mod 35 = Suc ((b + 35 - (f + 1) mod 35) mod 35)"
    using assms by (auto simp: mod_if split: if_splits)
  moreover have "(f + Suc i) mod 35 = ((f + 1) mod 35 + i) mod 35" for i
    by (simp add: mod_add_left_eq)
  ultimately show ?thesis
    using assms(1) by (simp add: window_def upt_conv_Cons map_Suc_upt [symmetric] del: upt_Suc)
qed

lemma window_Nil_iff: "f < 35 \<Longrightarrow> b < 35 \<Longrightarrow> window f b = [] \<longleftrightarrow> f = b"
  using window_Cons [of f b] by (cases "f = b") auto

lemma window_Cons_iff:
  "f < 35 \<Longrightarrow> b < 35 \<Longrightarrow> j # js = window f b \<longleftrightarrow> f \<noteq> b \<and> j = f \<and> js = window ((f + 1) mod 35) b"
  using window_Cons [of f b] by (cases "f = b") auto

text \<open>
  The loop over the sent front removes the longest prefix of expired packets from the window:
  the bytes of all of them and, as lost, those never acknowledged.
\<close>

definition expired :: "StreamPacketMetadata list \<Rightarrow> nat \<Rightarrow> bool" where
  "expired ps j \<longleftrightarrow> md_time (ps ! j) > 1 + float_epsilon"

definition expired_slots :: "StreamReliability \<Rightarrow> nat list" where
  "expired_slots ref = takeWhile (expired (packets ref)) (window (unat (frontSent ref)) (unat (sr_back ref)))"

lemma sent_front_loop_eq:
  assumes "rel_wf ref"
  shows "\<exists>f'. sent_front_loop ref = Some (ref\<lparr>frontSent := f',
      sentBytes := sentBytes ref - of_nat (sum_list (map (\<lambda>j. md_size (packets ref ! j)) (expired_slots ref))),
      totalLostPackets := totalLostPackets ref
        + of_nat (length (filter (\<lambda>j. \<not> md_acked (packets ref ! j)) (expired_slots ref)))\<rparr>) \<and>
    unat f' < 35 \<and>
    window (unat f') (unat (sr_back ref)) =
      dropWhile (expired (packets ref)) (window (unat (frontSent ref)) (unat (sr_back ref)))"
  using assms
proof (induction "window (unat (frontSent ref)) (unat (sr_back ref))" arbitrary: ref)
  case Nil
  then have "frontSent ref = sr_back ref"
    by (simp add: rel_wf_def window_Nil_iff eq_commute [of "[]"] word_unat_eq_iff)
  with Nil show ?case
    by (subst sent_front_loop.simps) (auto simp: expired_slots_def rel_wf_def intro!: exI [of _ "sr_back ref"])
next
  case (Cons j js)
  let ?f = "frontSent ref" and ?b = "unat (sr_back ref)"
  let ?m = "packets ref ! unat ?f"
  have wf: "unat ?f < 35" "?b < 35" "length (packets ref) = 35"
    using Cons.prems by (simp_all add: rel_wf_def)
  then have j: "unat ?f \<noteq> ?b" "js = window ((unat ?f + 1) mod 35) ?b" "window (unat ?f) ?b = unat ?f # js"
    using Cons.hyps(2) window_Cons_iff by metis+
  have neq: "?f \<noteq> sr_back ref"
    using j(1) by auto
  define ref1 where "ref1 = ref\<lparr>sentBytes := sentBytes ref - of_nat (md_size ?m),
      totalLostPackets := (if md_acked ?m then totalLostPackets ref else totalLostPackets ref + 1),
      frontSent := increase ?f 35\<rparr>"
  show ?case
  proof (cases "expired (packets ref) (unat ?f)")
    case False
    then show ?thesis
      using wf neq j(3) by (subst sent_front_loop.simps) (auto simp: expired_def expired_slots_def intro!: exI [of _ ?f])
  next
    case True
    have step: "sent_front_loop ref = sent_front_loop ref1"
      using True wf neq by (subst sent_front_loop.simps) (simp add: expired_def ref1_def)
    have ref1: "expired_slots ref = unat ?f # expired_slots ref1"
      "packets ref1 = packets ref" "sr_back ref1 = sr_back ref" "unat (frontSent ref1) = (unat ?f + 1) mod 35"
      using True wf j by (simp_all add: ref1_def expired_slots_def)
    have "rel_wf ref1" "js = window (unat (frontSent ref1)) (unat (sr_back ref1))"
      using Cons.prems j(2) ref1(3,4) by (simp_all add: ref1_def rel_wf_def)
    from Cons.hyps(1) [OF this(2,1)] obtain f' where f': "sent_front_loop ref1 = Some (ref1\<lparr>frontSent := f',
      sentBytes := sentBytes ref1 - of_nat (sum_list (map (\<lambda>j. md_size (packets ref1 ! j)) (expired_slots ref1))),
      totalLostPackets := totalLostPackets ref1
        + of_nat (length (filter (\<lambda>j. \<not> md_acked (packets ref1 ! j)) (expired_slots ref1)))\<rparr>)"
      "unat f' < 35" "window (unat f') ?b = dropWhile (expired (packets ref1)) (window (unat (frontSent ref1)) ?b)"
      using ref1(3) by auto
    show ?thesis
      using f' True j ref1 unfolding step
      by (intro exI [of _ f']) (simp add: ref1_def diff_diff_eq)
  qed
qed

lemma acked_front_loop_eq:
  assumes "rel_wf ref"
  shows "\<exists>f'. acked_front_loop ref = Some (ref\<lparr>frontAcked := f'\<rparr>) \<and> unat f' < 35"
  using assms
proof (induction "window (unat (frontAcked ref)) (unat (sr_back ref))" arbitrary: ref)
  case Nil
  then have "frontAcked ref = sr_back ref"
    by (simp add: rel_wf_def window_Nil_iff eq_commute [of "[]"] word_unat_eq_iff)
  with Nil show ?case
    by (subst acked_front_loop.simps) (auto simp: rel_wf_def intro!: exI [of _ "sr_back ref"])
next
  case (Cons j js)
  let ?f = "frontAcked ref" and ?b = "unat (sr_back ref)" and ?ref = "ref\<lparr>frontAcked := increase (frontAcked ref) 35\<rparr>"
  have wf: "unat ?f < 35" "?b < 35" "length (packets ref) = 35"
    using Cons.prems by (simp_all add: rel_wf_def)
  then have j: "unat ?f \<noteq> ?b" "js = window ((unat ?f + 1) mod 35) ?b"
    using Cons.hyps(2) window_Cons_iff by metis+
  have "js = window (unat (frontAcked ?ref)) (unat (sr_back ?ref))" "rel_wf ?ref"
    using Cons.prems j(2) by (simp_all add: rel_wf_def)
  from Cons.hyps(1) [OF this] obtain f' where "acked_front_loop ?ref = Some (?ref\<lparr>frontAcked := f'\<rparr>)" "unat f' < 35"
    by blast
  then show ?case
    using wf j(1)
    by (cases "2 - float_epsilon < md_time (packets ref ! unat ?f)"; subst acked_front_loop.simps)
      (auto intro: exI [of _ f'] exI [of _ ?f])
qed

lemma acked_stats_loop_eq:
  assumes "rel_wf ref" "unat p < 35"
  shows "\<exists>n k. acked_stats_loop ref p = Some (ref\<lparr>ackedPackets := n, ackedBytes := k\<rparr>)"
  using assms
proof (induction "window (unat p) (unat (sr_back ref))" arbitrary: ref p)
  case Nil
  then have "p = sr_back ref"
    by (simp add: rel_wf_def window_Nil_iff eq_commute [of "[]"] word_unat_eq_iff)
  then show ?case
    by - (rule exI [of _ "ackedPackets ref"], rule exI [of _ "ackedBytes ref"],
      subst acked_stats_loop.simps, simp)
next
  case (Cons j js)
  let ?b = "unat (sr_back ref)" and ?m = "packets ref ! unat p"
  have wf: "?b < 35" "length (packets ref) = 35"
    using Cons.prems by (simp_all add: rel_wf_def)
  then have j: "unat p \<noteq> ?b" "js = window ((unat p + 1) mod 35) ?b"
    using Cons.hyps(2) Cons.prems(2) window_Cons_iff by metis+
  define ref1 where "ref1 = (if md_acked ?m \<and> 1 \<le> md_time ?m
    then ref\<lparr>ackedPackets := ackedPackets ref + 1, ackedBytes := ackedBytes ref + of_nat (md_size ?m)\<rparr> else ref)"
  have step: "acked_stats_loop ref p = acked_stats_loop ref1 (increase p 35)"
    using wf j(1) Cons.prems(2) by (subst acked_stats_loop.simps) (auto simp: ref1_def)
  have "js = window (unat (increase p 35)) (unat (sr_back ref1))" "rel_wf ref1" "unat (increase p 35) < 35"
    using Cons.prems j(2) by (simp_all add: rel_wf_def ref1_def)
  from Cons.hyps(1) [OF this] obtain n k where
    "acked_stats_loop ref1 (increase p 35) = Some (ref1\<lparr>ackedPackets := n, ackedBytes := k\<rparr>)"
    by blast
  moreover have "ref1\<lparr>ackedPackets := n, ackedBytes := k\<rparr> = ref\<lparr>ackedPackets := n, ackedBytes := k\<rparr>"
    by (simp add: ref1_def)
  ultimately show ?case
    unfolding step by auto
qed

lemma acked_stats_total:
  assumes "rel_wf ref" "unat p < 35"
  shows "\<exists>n k. (if p \<noteq> sr_back ref then acked_stats_loop ref p else Some ref) =
    Some (ref\<lparr>ackedPackets := n, ackedBytes := k\<rparr>)"
proof (cases "p = sr_back ref")
  case True
  then show ?thesis
    by - (rule exI [of _ "ackedPackets ref"], rule exI [of _ "ackedBytes ref"], simp)
next
  case False
  with acked_stats_loop_eq [OF assms] show ?thesis by simp
qed

text \<open>The packets as they are after a time step.\<close>

definition aged :: "StreamReliability \<Rightarrow> float32 \<Rightarrow> StreamReliability" where
  "aged ref dt = ref\<lparr>packets := map (\<lambda>m. m\<lparr>md_time := fadd (md_time m) dt\<rparr>) (packets ref)\<rparr>"

lemma rel_wf_aged [simp]: "rel_wf (aged ref dt) = rel_wf ref"
  by (simp add: aged_def rel_wf_def)

lemma per_max_rtt_eq [simp]: "per_max_rtt n = n"
  by (simp add: per_max_rtt_def del: of_nat_unat) simp

lemma update_eq:
  assumes "rel_wf ref" "frontSent ref \<noteq> sr_back ref"
  shows "\<exists>ref' f'. streamReliabilityUpdate ref dt = Some ref' \<and> rel_wf ref' \<and>
    packets ref' = packets (aged ref dt) \<and> frontSent ref' = f' \<and> sr_back ref' = sr_back ref \<and>
    window (unat f') (unat (sr_back ref)) =
      dropWhile (expired (packets (aged ref dt))) (window (unat (frontSent ref)) (unat (sr_back ref))) \<and>
    sentBytes ref' = sentBytes ref - of_nat (sum_list (map (\<lambda>j. md_size (packets ref ! j)) (expired_slots (aged ref dt)))) \<and>
    totalLostPackets ref' = totalLostPackets ref
        + of_nat (length (filter (\<lambda>j. \<not> md_acked (packets ref ! j)) (expired_slots (aged ref dt)))) \<and>
    sentBytesPerSecond ref' = sentBytes ref' \<and> sr_sequence ref' = sr_sequence ref \<and>
    totalSentPackets ref' = totalSentPackets ref \<and> totalReceivedPackets ref' = totalReceivedPackets ref \<and>
    rtt ref' = rtt ref \<and> sr_ack ref' = sr_ack ref \<and> ackBits ref' = ackBits ref"
proof -
  let ?ref = "aged ref dt"
  obtain f' ref1 where f': "sent_front_loop ?ref = Some ref1" "ref1 = ?ref\<lparr>frontSent := f',
      sentBytes := sentBytes ?ref - of_nat (sum_list (map (\<lambda>j. md_size (packets ?ref ! j)) (expired_slots ?ref))),
      totalLostPackets := totalLostPackets ?ref
        + of_nat (length (filter (\<lambda>j. \<not> md_acked (packets ?ref ! j)) (expired_slots ?ref)))\<rparr>"
    "unat f' < 35" "window (unat f') (unat (sr_back ?ref)) =
      dropWhile (expired (packets ?ref)) (window (unat (frontSent ?ref)) (unat (sr_back ?ref)))"
    using sent_front_loop_eq [of ?ref] assms(1) by (simp only: rel_wf_aged) blast
  have wf1: "rel_wf ref1"
    using assms(1) f'(2,3) by (simp add: rel_wf_def aged_def)
  from acked_front_loop_eq [OF this] obtain g' where g': "acked_front_loop ref1 = Some (ref1\<lparr>frontAcked := g'\<rparr>)" "unat g' < 35"
    by blast
  define ref2 where "ref2 = ref1\<lparr>frontAcked := g', ackedPackets := 0, ackedBytes := 0\<rparr>"
  have "rel_wf ref2"
    using wf1 g'(2) by (simp add: ref2_def rel_wf_def)
  then obtain n k where nk: "(if g' \<noteq> sr_back ref2 then acked_stats_loop ref2 g' else Some ref2) = Some (ref2\<lparr>ackedPackets := n, ackedBytes := k\<rparr>)"
    using acked_stats_total [of ref2 g'] g'(2) by blast
  have slots: "j \<in> set (expired_slots ?ref) \<Longrightarrow> j < 35" for j
    by (auto simp: expired_slots_def window_def dest!: set_takeWhileD)
  have "sum_list (map (\<lambda>j. md_size (packets ?ref ! j)) (expired_slots ?ref)) =
      sum_list (map (\<lambda>j. md_size (packets ref ! j)) (expired_slots ?ref))"
    "filter (\<lambda>j. \<not> md_acked (packets ?ref ! j)) (expired_slots ?ref) = filter (\<lambda>j. \<not> md_acked (packets ref ! j)) (expired_slots ?ref)"
    using assms(1) slots by (auto simp: aged_def rel_wf_def intro!: filter_cong arg_cong [where f = sum_list])
  moreover define ref3 where "ref3 = ref2\<lparr>ackedPackets := n, ackedBytes := k\<rparr>"
  define ref4 where "ref4 = ref3\<lparr>sentBytesPerSecond := sentBytes ref3, ackedPacketsPerSecond := n, ackedBytesPerSecond := k,
      sentBandwidth := kilobits (sentBytes ref3), ackedBandwidth := kilobits k\<rparr>"
  have g2: "frontAcked ref2 = g'"
    by (simp add: ref2_def)
  have upd: "streamReliabilityUpdate ref dt = Some ref4"
    unfolding streamReliabilityUpdate_def Let_def aged_def [symmetric] ref4_def
    by (simp only: assms(2) if_False f'(1) g'(1) bind.bind_lunit ref2_def [symmetric] g2 nk per_max_rtt_eq)
      (simp add: ref3_def)
  moreover have sel: "packets ref4 = packets ?ref" "frontSent ref4 = f'" "frontAcked ref4 = g'" "sr_back ref4 = sr_back ref"
    "sr_sequence ref4 = sr_sequence ref" "totalSentPackets ref4 = totalSentPackets ref"
    "totalReceivedPackets ref4 = totalReceivedPackets ref" "sentBytesPerSecond ref4 = sentBytes ref4"
    "sentBytes ref4 = sentBytes ref1" "totalLostPackets ref4 = totalLostPackets ref1"
    "rtt ref4 = rtt ref" "sr_ack ref4 = sr_ack ref" "ackBits ref4 = ackBits ref"
    by (simp_all add: ref4_def ref3_def ref2_def f'(2) aged_def)
  moreover have "rel_wf ref4"
    using wf1 assms(1) f'(3) g'(2) unfolding rel_wf_def sel by (simp add: aged_def)
  moreover have "sr_back ?ref = sr_back ref" "frontSent ?ref = frontSent ref"
    "sentBytes ?ref = sentBytes ref" "totalLostPackets ?ref = totalLostPackets ref"
    by (simp_all add: aged_def)
  ultimately show ?thesis
    using f'(4) by (intro exI [of _ ref4] exI [of _ f']) (simp add: f'(2))
qed

section \<open>Runs\<close>

lemma rel_wf_same: "rel_wf ref \<Longrightarrow> same_counters ref ref' \<Longrightarrow> length (packets ref') = length (packets ref) \<Longrightarrow> rel_wf ref'"
  using same_counters_sel [of ref ref'] by (simp add: rel_wf_def)

lemma process_sequence_same:
  "packets (streamReliabilityProcessSequence ref sq) = packets ref \<and>
   frontSent (streamReliabilityProcessSequence ref sq) = frontSent ref \<and>
   frontAcked (streamReliabilityProcessSequence ref sq) = frontAcked ref \<and>
   sr_back (streamReliabilityProcessSequence ref sq) = sr_back ref \<and>
   sr_sequence (streamReliabilityProcessSequence ref sq) = sr_sequence ref \<and>
   totalSentPackets (streamReliabilityProcessSequence ref sq) = totalSentPackets ref \<and>
   totalReceivedPackets (streamReliabilityProcessSequence ref sq) = totalReceivedPackets ref"
  by (simp add: streamReliabilityProcessSequence_def Let_def)

lemma packet_received_eq:
  assumes "rel_wf ref" "unat ack < 0x10000"
  shows "\<exists>ref' H. streamReliabilityPacketReceived ref sq ack bits = Some ref' \<and> rel_wf ref' \<and>
    packets ref' = mark_hits H (packets ref) \<and> sr_back ref' = sr_back ref \<and> sr_sequence ref' = sr_sequence ref \<and>
    totalSentPackets ref' = totalSentPackets ref \<and> totalReceivedPackets ref' = totalReceivedPackets ref + 1"
proof -
  let ?ref = "streamReliabilityProcessSequence ref sq"
  have "rel_wf ?ref"
    using assms(1) by (simp add: rel_wf_def process_sequence_same)
  from process_ack_safe [OF this assms(2), of bits] obtain ref' H where
    ref': "streamReliabilityProcessAck ?ref ack bits = Some ref'" "same_counters ?ref ref'"
      "packets ref' = mark_hits H (packets ?ref)"
    by blast
  moreover have "rel_wf ref'"
    using \<open>rel_wf ?ref\<close> ref'(2,3) by (auto intro: rel_wf_same)
  ultimately show ?thesis
    using same_counters_sel [OF ref'(2)]
    by (auto simp: streamReliabilityPacketReceived_def process_sequence_same rel_wf_def)
qed

lemma rel_seqs_same:
  assumes "rel_seqs ref" "length (packets ref) = 35" "sr_back ref' = sr_back ref" "sr_sequence ref' = sr_sequence ref"
    and "\<And>j. j < 35 \<Longrightarrow> md_sequence (packets ref' ! j) = md_sequence (packets ref ! j)"
  shows "rel_seqs ref'"
  using assms by (simp add: rel_seqs_def)

lemma slot_before_next: "b < 35 \<Longrightarrow> k \<le> 34 \<Longrightarrow> slot_before ((b + 1) mod 35) (Suc k) = slot_before b k"
  by (auto simp: slot_before_def mod_if)

lemma rel_seqs_sent:
  assumes "rel_seqs ref" "rel_wf ref" "unat (sr_sequence ref) + 1 < 0xFFFF"
    and "unat (sr_sequence ref') = unat (sr_sequence ref) + 1" "unat (sr_back ref') = (unat (sr_back ref) + 1) mod 35"
    and "packets ref' = (packets ref)[unat (sr_back ref) :=
      \<lparr>md_sequence = sr_sequence ref, md_time = 0, md_size = n, md_acked = False\<rparr>]"
  shows "rel_seqs ref'"
  unfolding rel_seqs_def
proof (intro allI impI)
  let ?b = "unat (sr_back ref)"
  fix k assume k: "1 \<le> k \<and> k \<le> 35 \<and> k \<le> unat (sr_sequence ref')"
  obtain l where l: "k = Suc l" "l \<le> 34"
    using k by (cases k) auto
  have b: "?b < 35" "length (packets ref) = 35"
    using assms(2) by (simp_all add: rel_wf_def)
  have slot: "slot_before (unat (sr_back ref')) k = slot_before ?b l"
    using slot_before_next [OF b(1) l(2)] assms(5) l(1) by simp
  show "unat (md_sequence (packets ref' ! slot_before (unat (sr_back ref')) k)) = unat (sr_sequence ref') - k"
  proof (cases "l = 0")
    case True
    then show ?thesis
      unfolding slot using b l assms(4,6) by simp
  next
    case False
    then have "slot_before ?b l \<noteq> ?b"
      using slot_before_inj [of ?b l 0] b(1) l(2) by auto
    with False show ?thesis
      unfolding slot using assms(1,4,6) l k by (simp add: rel_seqs_def)
  qed
qed

lemma rel_step_inv:
  assumes "rel_inv n m ref" "op_ok op"
  shows "\<exists>ref'. rel_step op ref = Some ref' \<and> rel_inv (n + op_sent op) (m + op_received op) ref'"
proof -
  have wf: "rel_wf ref" "length (packets ref) = 35"
    using assms(1) by (simp_all add: rel_inv_def rel_wf_def)
  show ?thesis
  proof (cases op)
    case (Sent sz)
    obtain ref' where ref': "streamReliabilityPacketSent ref sz = Some ref'" "rel_wf ref'"
      "packets ref' = (packets ref)[unat (sr_back ref) :=
        \<lparr>md_sequence = sr_sequence ref, md_time = 0, md_size = sz, md_acked = False\<rparr>]"
      "unat (sr_back ref') = (unat (sr_back ref) + 1) mod 35"
      "unat (sr_sequence ref') = (unat (sr_sequence ref) + 1) mod 0xFFFF"
      "totalSentPackets ref' = totalSentPackets ref + 1" "totalReceivedPackets ref' = totalReceivedPackets ref"
      using packet_sent_eq [OF wf(1), of sz] by blast
    have "rel_seqs ref'" if "n + 1 < 0xFFFF"
      using rel_seqs_sent [OF _ wf(1) _ _ ref'(4,3)] ref'(5) assms(1) that by (simp add: rel_inv_def)
    then show ?thesis
      using Sent ref' assms(1) by (simp add: rel_inv_def mod_Suc_eq)
  next
    case (Received sq ack bits)
    then obtain ref' H where ref': "streamReliabilityPacketReceived ref sq ack bits = Some ref'" "rel_wf ref'"
      "packets ref' = mark_hits H (packets ref)" "sr_back ref' = sr_back ref" "sr_sequence ref' = sr_sequence ref"
      "totalSentPackets ref' = totalSentPackets ref" "totalReceivedPackets ref' = totalReceivedPackets ref + 1"
      using packet_received_eq [OF wf(1), of ack sq bits] assms(2) by auto
    have "rel_seqs ref'" if "rel_seqs ref"
      by (rule rel_seqs_same [OF that wf(2)]) (simp_all add: ref'(3-5) wf(2))
    then show ?thesis
      using Received ref' assms(1) by (simp add: rel_inv_def)
  next
    case (Updated dt)
    show ?thesis
    proof (cases "frontSent ref = sr_back ref")
      case True
      then show ?thesis
        using Updated assms(1) by (simp add: streamReliabilityUpdate_def)
    next
      case False
      then obtain ref' where ref': "streamReliabilityUpdate ref dt = Some ref'" "rel_wf ref'"
        "packets ref' = packets (aged ref dt)" "sr_back ref' = sr_back ref" "sr_sequence ref' = sr_sequence ref"
        "totalSentPackets ref' = totalSentPackets ref" "totalReceivedPackets ref' = totalReceivedPackets ref"
        using update_eq [OF wf(1), of dt] by blast
      have "rel_seqs ref'" if "rel_seqs ref"
        by (rule rel_seqs_same [OF that wf(2)]) (simp_all add: ref'(3-5) wf(2) aged_def)
      then show ?thesis
        using Updated ref' assms(1) by (simp add: rel_inv_def)
    qed
  qed
qed

lemma rel_run_inv:
  assumes "rel_inv n m ref" "\<forall>op \<in> set ops. op_ok op"
  shows "\<exists>ref'. rel_run ops ref = Some ref' \<and>
    rel_inv (n + sum_list (map op_sent ops)) (m + sum_list (map op_received ops)) ref'"
  using assms
proof (induction ops arbitrary: n m ref)
  case (Cons op ops)
  then obtain ref1 where ref1: "rel_step op ref = Some ref1" "rel_inv (n + op_sent op) (m + op_received op) ref1"
    using rel_step_inv [of n m ref op] by auto
  from Cons.IH [OF ref1(2)] Cons.prems(2) ref1(1) show ?case
    by (simp add: add.assoc)
qed simp

lemma rel_inv_clear: "length (packets ref) = 35 \<Longrightarrow> rel_inv 0 0 (streamReliabilityClear ref)"
  by (simp add: rel_inv_def rel_wf_def rel_seqs_def streamReliabilityClear_def)

text \<open>Which bit of the field reaches the packet \<open>k\<close> places back when the acknowledged one is \<open>c\<close> places back.\<close>

lemma slot_before_hit:
  assumes "b < 35" "1 \<le> c" "c < 35" "1 \<le> k" "k \<le> 35" "i < 31"
  shows "slot_before b k = slot_before (slot_before b c) i \<longleftrightarrow> c + i = k \<or> c + i = k + 35"
proof -
  have k: "slot_before b k = (if k \<le> b then b - k else b + 35 - k)"
    and p: "slot_before b c = (if c \<le> b then b - c else b + 35 - c)"
    using assms by (simp_all only: slot_before_if less_imp_le)
  have "slot_before (slot_before b c) i =
      (if i \<le> slot_before b c then slot_before b c - i else slot_before b c + 35 - i)"
    using assms by (intro slot_before_if) simp_all
  then show ?thesis
    using assms unfolding k p by (auto split: if_splits)
qed

lemma hit_iff:
  assumes "b < 35" "1 \<le> c" "c < 35" "1 \<le> k" "k \<le> 35"
  shows "hit 31 bits (slot_before b c) (slot_before b k) \<longleftrightarrow>
    c \<le> k \<and> k - c < 31 \<and> bit bits (k - c) \<or> k + 4 < c \<and> bit bits (k + 35 - c)"
proof -
  have "hit 31 bits (slot_before b c) (slot_before b k) \<longleftrightarrow> (\<exists>i < 31. bit bits i \<and> (c + i = k \<or> c + i = k + 35))"
    unfolding hit_def using slot_before_hit [OF assms] by metis
  moreover have "c + i = k \<longleftrightarrow> c \<le> k \<and> i = k - c" "c + i = k + 35 \<longleftrightarrow> i = k + 35 - c" for i
    using assms(3) by auto
  moreover have "k + 35 - c < 31 \<longleftrightarrow> k + 4 < c"
    using assms(3) by auto
  ultimately show ?thesis
    by auto
qed

text \<open>A negative count moves the index forward, out of the ring.\<close>

lemma decrease_negative:
  assumes "b < 35" "0 < d" "b + 35 + d < 2 ^ 31"
  shows "decrease (int b) (word_of_int (- int d)) 35 = int (b + 35 + d)"
proof -
  have "unat (word_of_int (- int d) :: u32) = 2 ^ 32 - d"
  proof -
    have "(- int d) mod 2 ^ 32 = 2 ^ 32 - int d"
      using assms(2,3) by (subst zmod_zminus1_eq_if) simp
    then show ?thesis
      using assms(3) by (subst unsigned_of_int) (simp add: take_bit_eq_mod nat_diff_distrib)
  qed
  moreover have "unat (of_nat b :: u32) = b"
    using assms(1) by (simp add: unat_of_nat)
  ultimately have "\<not> (word_of_int (- int d) :: u32) \<le> of_nat b"
    using assms by (simp add: word_le_nat_alt)
  moreover have "(of_nat b + 35 - word_of_int (- int d) :: u32) = of_nat (b + 35 + d)"
    by simp
  ultimately show ?thesis
    using sint_of_nat_small [OF assms(3)] by (simp only: decrease_def Let_def if_False of_int_of_nat_eq)
qed

lemma one_packet_run: "rel_run [Sent 10] (streamReliabilityClear zero_reliability) = Some one_packet"
  by (simp add: streamReliabilityPacketSent_def streamReliabilityClear_def zero_reliability_def one_packet_def
      increase_def Let_def)

lemma one_packet_sel [simp]:
  "length (packets zero_reliability) = 35" "rel_wf one_packet" "frontSent one_packet = 0" "sr_back one_packet = 1"
  "sr_sequence one_packet = 1" "md_acked (packets one_packet ! 0) = False" "md_size (packets one_packet ! 0) = 10"
  "md_time (packets one_packet ! 0) = 0" "totalLostPackets one_packet = 0" "sentBytes one_packet = 10"
  by (simp_all add: zero_reliability_def one_packet_def rel_wf_def)

section \<open>Properties\<close>

text \<open>
  (C12) Reliability never aborts. From a cleared record, any sequence of sent packets, received
  packets whose acknowledgement is a sixteen-bit number and timer updates runs to its end: all
  loops terminate, no assertion fails and the ring is never indexed outside. The local sequence
  number is the number of packets sent modulo 65535 and the totals count the events.
\<close>

theorem stream_reliability_runs:
  assumes "length (packets ref) = 35" "\<forall>op \<in> set ops. op_ok op"
  shows "\<exists>ref'. rel_run ops (streamReliabilityClear ref) = Some ref' \<and> rel_wf ref' \<and>
    unat (sr_sequence ref') = sum_list (map op_sent ops) mod 0xFFFF \<and>
    totalSentPackets ref' = of_nat (sum_list (map op_sent ops)) \<and>
    totalReceivedPackets ref' = of_nat (sum_list (map op_received ops))"
  using rel_run_inv [OF rel_inv_clear [OF assms(1)] assms(2)] by (auto simp: rel_inv_def)

theorem stream_reliability_runs_witness:
  "\<exists>ref'. rel_run [Sent 10, Received 1 0 1, Updated 1, Updated 1] (streamReliabilityClear zero_reliability) = Some ref' \<and>
     rel_wf ref' \<and> sr_sequence ref' = 1"
  using stream_reliability_runs [of zero_reliability "[Sent 10, Received 1 0 1, Updated 1, Updated 1]"]
  by (auto simp: word_unat_eq_iff simp del: rel_run.simps)

text \<open>
  (C13) Received packets are reported. As long as the remote sequence numbers have not wrapped
  around, no packet is more than 31 ahead of the largest number before it and none comes more than 32767 numbers
  late, the acknowledgement is the
  largest number received and bit \<open>i\<close> of the bit field is set exactly when the packet \<open>i\<close> before it
  has been received, in whatever order and however often the packets came in.
\<close>

theorem stream_ack_bits_correct:
  assumes "in_window 0 (map unat qs)" "qs \<noteq> []" "i < 32"
  shows "let ref' = fold (\<lambda>q ref. streamReliabilityProcessSequence ref q) qs (streamReliabilityClear ref)
    in unat (sr_ack ref') = Max (unat ` set qs) \<and>
       (bit (ackBits ref') i \<longleftrightarrow> i \<le> unat (sr_ack ref') \<and> unat (sr_ack ref') - i \<in> unat ` set qs)"
proof -
  have "ack_view (streamReliabilityClear ref) {}"
    by (simp add: ack_view_def streamReliabilityClear_def)
  moreover have "sr_ack (streamReliabilityClear ref) = 0"
    by (simp add: streamReliabilityClear_def)
  moreover have "Max (insert 0 (unat ` set qs)) = Max (unat ` set qs)"
    using assms(2) by (subst Max_insert) simp_all
  ultimately show ?thesis
    using ack_view_run [of "streamReliabilityClear ref" "{}" qs] assms
    by (simp add: Let_def ack_view_def)
qed

theorem stream_ack_bits_correct_witness:
  "let ref' = fold (\<lambda>q ref. streamReliabilityProcessSequence ref q) [1, 3, 2] (streamReliabilityClear zero_reliability)
   in unat (sr_ack ref') = 3 \<and> bit (ackBits ref') 2"
  using stream_ack_bits_correct [of "[1, 3, 2]" 2 zero_reliability] by (simp add: Let_def)

text \<open>
  A packet that comes later than that is taken for a new one: the acknowledgement goes back to its
  number and the bit field is cleared or shifted.
\<close>

theorem stream_late_packet_resets:
  assumes "unat sq + 0x7FFF < unat (sr_ack ref)"
  shows "sr_ack (streamReliabilityProcessSequence ref sq) = sq"
proof -
  have "unat (sr_ack ref - sq) = unat (sr_ack ref) - unat sq"
    using assms by (simp add: unat_sub word_le_nat_alt)
  then have "isSequenceMoreRecent sq (sr_ack ref) 0xFFFF"
    using assms by (simp add: isSequenceMoreRecent_def word_less_nat_alt)
  then show ?thesis
    by (simp add: streamReliabilityProcessSequence_def Let_def)
qed

text \<open>
  (C14) Which packets an acknowledgement marks. In every state reached with fewer than 65535 packets sent, that is before
  the first wrap-around of the own sequence numbers, and with a ring that is not empty, an acknowledgement of one of the last 34 packets sent marks, among
  the last 35 packets, exactly those whose bit is set among the first 31, and one kind more: a packet sent at least
  five after the acknowledged one is marked by the bit of the packet 35 before it, because the
  walk back through the ring is not stopped at its oldest entry.
\<close>

theorem stream_ack_marks:
  assumes "length (packets ref0) = 35" "\<forall>op \<in> set ops. op_ok op"
    and "rel_run ops (streamReliabilityClear ref0) = Some ref" "sum_list (map op_sent ops) < 0xFFFF"
    and "frontSent ref \<noteq> sr_back ref" "unat ack < unat (sr_sequence ref)" "unat (sr_sequence ref) - unat ack < 35"
    and "1 \<le> k" "k \<le> 35" "k \<le> unat (sr_sequence ref)"
  shows "\<exists>ref'. streamReliabilityProcessAck ref ack bits = Some ref' \<and>
    (let q = unat (sr_sequence ref) - k; j = slot_before (unat (sr_back ref)) k
     in unat (md_sequence (packets ref' ! j)) = q \<and>
        (md_acked (packets ref' ! j) \<longleftrightarrow> md_acked (packets ref ! j) \<or>
           q \<le> unat ack \<and> unat ack - q < 31 \<and> bit bits (unat ack - q) \<or>
           unat ack + 4 < q \<and> bit bits (35 + unat ack - q)))"
proof -
  let ?b = "unat (sr_back ref)" and ?c = "unat (sr_sequence ref) - unat ack"
  have inv: "rel_wf ref" "rel_seqs ref"
    using rel_run_inv [OF rel_inv_clear [OF assms(1)] assms(2)] assms(3,4) by (auto simp: rel_inv_def)
  have b: "?b < 35" "length (packets ref) = 35" "unat (sr_sequence ref) < 0xFFFF"
    using inv(1) by (simp_all add: rel_wf_def)
  have "streamReliabilityProcessAck ref ack bits = process_ack_loop 31 ref bits (int (slot_before ?b ?c))"
    using process_ack_eq [OF inv(1) assms(5), of ?c ack bits] ack_distance [of "sr_sequence ref" ack] assms(6,7) b(3)
    by simp
  then obtain ref' where ref': "streamReliabilityProcessAck ref ack bits = Some ref'"
    "packets ref' = mark_hits (hit 31 bits (slot_before ?b ?c)) (packets ref)"
    using process_ack_loop_eq [OF b(2), of "slot_before ?b ?c" 31 bits] by auto
  have "hit 31 bits (slot_before ?b ?c) (slot_before ?b k) \<longleftrightarrow>
      ?c \<le> k \<and> k - ?c < 31 \<and> bit bits (k - ?c) \<or> k + 4 < ?c \<and> bit bits (k + 35 - ?c)"
    using b(1) assms(6-9) by (intro hit_iff) simp_all
  moreover have "?c \<le> k \<longleftrightarrow> unat (sr_sequence ref) - k \<le> unat ack"
    "k + 4 < ?c \<longleftrightarrow> unat ack + 4 < unat (sr_sequence ref) - k"
    "?c \<le> k \<Longrightarrow> unat ack - (unat (sr_sequence ref) - k) = k - ?c"
    "35 + unat ack - (unat (sr_sequence ref) - k) = k + 35 - ?c"
    using assms(6,10) by linarith+
  ultimately show ?thesis
    using ref' b inv(2) assms(8-10) by (simp add: Let_def rel_seqs_def) metis
qed

theorem stream_ack_marks_witness:
  "\<exists>ref'. streamReliabilityProcessAck one_packet 0 1 = Some ref' \<and> md_acked (packets ref' ! 0)"
  using stream_ack_marks [of zero_reliability "[Sent 10]" one_packet 0 1 1, OF _ _ one_packet_run]
  by (auto simp: Let_def slot_before_def)

text \<open>
  The wrap-around is off by one. The number after 65534 is 0, one step later, but the
  receiver shifts its bit field by two, so that the packet before is reported as missing and all
  earlier ones one place too far back.
\<close>

theorem stream_ack_wraparound:
  "increase 0xFFFE kStreamReliabilityMaxSequence = 0 \<and>
   streamReliabilityProcessSequence (ref\<lparr>sr_ack := 0xFFFE\<rparr>) 0 =
     ref\<lparr>sr_ack := 0, ackBits := push_bit 2 (ackBits ref) OR 1\<rparr>"
  by (simp add: increase_def streamReliabilityProcessSequence_def isSequenceMoreRecent_def Let_def)

text \<open>
  A forged acknowledgement stops the program. An acknowledgement beyond sixteen bits, which
  the wire format admits, makes the distance negative; it passes the size check as a signed
  number and the index computed from it lies outside the ring.
\<close>

theorem stream_ack_forged:
  assumes "rel_wf ref" "frontSent ref \<noteq> sr_back ref"
    and "unat (sr_sequence ref) + 0x10000 < unat ack" "unat ack < 2 ^ 31"
  shows "streamReliabilityProcessAck ref ack bits = None"
proof -
  let ?s = "unat (sr_sequence ref)" and ?b = "unat (sr_back ref)"
  have b: "?b < 35" "?s < 0xFFFF"
    using assms(1) by (simp_all add: rel_wf_def)
  define d where "d = unat ack - (?s + 0x10000)"
  have d: "0 < d" "d < 2 ^ 31" "unat ack = ?s + 0x10000 + d"
    using assms(3,4) by (simp_all add: d_def)
  have "of_nat (unat ack) = (of_nat (?s + 0x10000 + d) :: u32)"
    by (simp only: d(3))
  then have ack: "ack = sr_sequence ref + 0x10000 + of_nat d"
    by simp
  have c: "(if sr_sequence ref > ack then sr_sequence ref - ack else sr_sequence ref - ack + 0xFFFF + 1) = word_of_int (- int d)"
    using d(3) by (simp add: word_less_nat_alt) (simp add: ack)
  have neg: "sint (word_of_int (- int d) :: u32) = - int d"
    using d(1,2) by (simp only: signed_of_int) (subst signed_take_bit_int_eq_self, simp_all)
  have "sint (sr_back ref) = int ?b"
    using b by (intro sint_small) simp
  moreover have "decrease (int ?b) (word_of_int (- int d)) 35 = int (?b + 35 + d)"
    using b(1) d(1,2,3) assms(4) by (intro decrease_negative) simp_all
  ultimately show ?thesis
    using assms(2) c neg by (simp add: streamReliabilityProcessAck_def Let_def del: of_nat_unat)
qed

theorem stream_ack_forged_witness:
  "streamReliabilityProcessAck one_packet 0x20000 1 = None"
  by (rule stream_ack_forged) simp_all

text \<open>
  Lost packets. A timer update ages every packet and then takes the longest prefix of
  packets older than the maximal round trip time out of the sent window: their bytes leave the
  byte count, those never acknowledged are counted as lost, and the window that remains starts
  with a packet that is not expired.
\<close>

theorem stream_update_counts_losses:
  assumes "rel_wf ref" "frontSent ref \<noteq> sr_back ref"
  shows "\<exists>ref'. streamReliabilityUpdate ref dt = Some ref' \<and> rel_wf ref' \<and>
    (let w = window (unat (frontSent ref)) (unat (sr_back ref));
         old = (\<lambda>j. fadd (md_time (packets ref ! j)) dt > 1 + float_epsilon);
         gone = takeWhile old w
     in window (unat (frontSent ref')) (unat (sr_back ref')) = dropWhile old w \<and>
        sentBytes ref' = sentBytes ref - of_nat (sum_list (map (\<lambda>j. md_size (packets ref ! j)) gone)) \<and>
        sentBytesPerSecond ref' = sentBytes ref' \<and>
        totalLostPackets ref' = totalLostPackets ref
          + of_nat (length (filter (\<lambda>j. \<not> md_acked (packets ref ! j)) gone)))"
proof -
  let ?w = "window (unat (frontSent ref)) (unat (sr_back ref))"
  let ?old = "\<lambda>j. fadd (md_time (packets ref ! j)) dt > 1 + float_epsilon"
  have "expired (packets (aged ref dt)) j = ?old j" if "j \<in> set ?w" for j
    using that assms(1) by (auto simp: window_def rel_wf_def aged_def expired_def)
  then have "takeWhile (expired (packets (aged ref dt))) ?w = takeWhile ?old ?w"
    "dropWhile (expired (packets (aged ref dt))) ?w = dropWhile ?old ?w"
    by (auto intro: takeWhile_cong dropWhile_cong)
  moreover have "expired_slots (aged ref dt) = takeWhile (expired (packets (aged ref dt))) ?w"
    by (simp add: expired_slots_def aged_def)
  ultimately show ?thesis
    using update_eq [OF assms, of dt] by (auto simp: Let_def)
qed

theorem stream_update_counts_losses_witness:
  "\<exists>ref'. streamReliabilityUpdate one_packet 2 = Some ref' \<and> totalLostPackets ref' = 1 \<and> sentBytes ref' = 0"
proof -
  have "fadd 0 2 = 2" "float_epsilon < 1"
    using rnd32_sixteenths [of 32] by (simp_all add: fadd_def float_epsilon_def) code_simp
  then show ?thesis
    using stream_update_counts_losses [of one_packet 2] by (auto simp: Let_def window_def)
qed

end
