(* ===== verification/Streams.thy ===== *)
theory Streams
  imports Linked_List Stream_Reliability Socket_Runs
begin

text \<open>
  Streams (\<^verbatim>\<open>stream.c\<close>): a configuration keeps one stream per remote address in a list, sends
  the data of the application to all of them when its timer fires, and forwards what it receives.
  The blocks given to the serial queue are values of \<open>stream_task\<close> and the timer callback runs on
  the same queue; the stream structures live in a heap, since the list stores pointers to them. The
  calls of the application's callbacks are recorded; what its update callback writes into the object
  is an argument. The model is the build without \<^verbatim>\<open>DEBUG\<close> and \<^verbatim>\<open>TEST\<close>, in which the logging
  macros are empty.
\<close>

section \<open>Definitions\<close>

abbreviation (input) kStreamListCapacity :: u32 where "kStreamListCapacity \<equiv> 5"
abbreviation (input) kStreamTimeout :: rat where "kStreamTimeout \<equiv> 5"

definition kStreamTimerUpdateInterval :: float32 where
  "kStreamTimerUpdateInterval = fdiv 1 kStreamFlowModeGoodRate"

datatype StreamState = StreamWaiting | StreamConnected | StreamDisconnected | StreamTimeout

record Stream =
  st_state :: StreamState
  st_reliability :: StreamReliability
  st_flow :: StreamFlow
  st_address :: net_addr_t
  st_timeoutAccumulator :: float32
  st_updateAccumulator :: float32

text \<open>The blocks of \<open>streamDispatchQueue\<close> with what they capture, and the calls of the callbacks.\<close>

datatype stream_task =
    AddTask net_addr_t
  | RemoveTask net_addr_t
  | TimeoutTask ptr
  | ReceiveTask ptr

datatype stream_callback =
    UpdateCalled ptr
  | ReceiveCalled ptr net_addr_t StreamObject
  | TimeoutCalled ptr net_addr_t
  | SuspendCalled ptr

text \<open>\<open>sc_suspended\<close> is the suspend count of the timer; to resume a running source is a fault.\<close>

record StreamConfiguration =
  sc_socket :: "net_socket_s option"
  sc_address :: net_addr_t
  sc_tasks :: "stream_task list"
  sc_suspended :: nat
  sc_active :: bool
  sc_receiveCallback :: ptr
  sc_updateCallback :: ptr
  sc_timeoutCallback :: ptr
  sc_suspendCallback :: ptr
  sc_context :: ptr
  sc_streams :: "list_s option"
  sc_heap :: "ptr \<Rightarrow> Stream option"
  sc_log :: "stream_callback list"

text \<open>
  What the surroundings answer: the byte order, the results of \<^verbatim>\<open>malloc\<close> and \<^verbatim>\<open>realloc\<close>, the
  content of a local object before it is set up, and what the update callback makes of it.
\<close>

record stream_env =
  se_endian :: endian
  se_malloc :: ptr
  se_realloc :: bool
  se_object :: StreamObject
  se_update :: "StreamObject \<Rightarrow> StreamObject"

definition stream_dispatch :: "StreamConfiguration \<Rightarrow> stream_task \<Rightarrow> StreamConfiguration" where
  "stream_dispatch config t = config\<lparr>sc_tasks := sc_tasks config @ [t]\<rparr>"

definition stream_called :: "StreamConfiguration \<Rightarrow> ptr \<Rightarrow> stream_callback \<Rightarrow> StreamConfiguration option" where
  "stream_called config f c = (if f = NULL then None else Some (config\<lparr>sc_log := sc_log config @ [c]\<rparr>))"

definition set_stream :: "StreamConfiguration \<Rightarrow> ptr \<Rightarrow> Stream \<Rightarrow> StreamConfiguration" where
  "set_stream config stream st = config\<lparr>sc_heap := (sc_heap config)(stream \<mapsto> st)\<rparr>"

subsection \<open>Pause and resume\<close>

definition streamSuspend :: "StreamConfiguration \<Rightarrow> StreamConfiguration option" where
  "streamSuspend config =
     (if sc_active config = True
      then do {
        let config = config\<lparr>sc_suspended := sc_suspended config + 1, sc_active := False\<rparr>;
        stream_called config (sc_suspendCallback config) (SuspendCalled (sc_context config))
      }
      else Some config)"

definition streamResume :: "StreamConfiguration \<Rightarrow> StreamConfiguration option" where
  "streamResume config =
     (if sc_active config = False
      then do {
        l \<leftarrow> sc_streams config;
        if list_is_empty l = False
        then if sc_suspended config = 0 then None
             else Some (config\<lparr>sc_active := True, sc_suspended := sc_suspended config - 1\<rparr>)
        else Some config
      }
      else Some config)"

subsection \<open>One stream\<close>

text \<open>The structure as \<^verbatim>\<open>memset\<close> leaves it.\<close>

definition zero_stream :: Stream where
  "zero_stream =
     \<lparr>st_state = StreamWaiting, st_reliability = zero_reliability,
      st_flow = \<lparr>flow_mode = StreamFlowModeGood, updateInterval = 0, goodConditions = 0, penalty = 0,
                 penaltyReductionAccumulator = 0\<rparr>,
      st_address = sockaddr_zero, st_timeoutAccumulator = 0, st_updateAccumulator = 0\<rparr>"

definition new_stream :: "net_addr_t \<Rightarrow> Stream" where
  "new_stream address =
     (let st = zero_stream;
          st = st\<lparr>st_state := StreamWaiting\<rparr>;
          st = st\<lparr>st_reliability := streamReliabilityClear (st_reliability st)\<rparr>;
          st = st\<lparr>st_flow := streamFlowClear (st_flow st)\<rparr>
      in st\<lparr>st_address := net_addr_copy (st_address st) address\<rparr>)"

definition streamCreate :: "ptr \<Rightarrow> StreamConfiguration \<Rightarrow> net_addr_t \<Rightarrow> ptr \<times> StreamConfiguration" where
  "streamCreate malloc config address =
     (let stream = malloc
      in if stream \<noteq> NULL then (stream, set_stream config stream (new_stream address)) else (stream, config))"

text \<open>The pointer and the heap afterwards; freeing what is not allocated is a fault.\<close>

definition streamDestroy :: "StreamConfiguration \<Rightarrow> ptr \<Rightarrow> (ptr \<times> StreamConfiguration) option" where
  "streamDestroy config stream =
     (if stream \<noteq> NULL
      then do {
        _ \<leftarrow> sc_heap config stream;
        Some (NULL, config\<lparr>sc_heap := (sc_heap config)(stream := None)\<rparr>)
      }
      else Some (stream, config))"

definition streamTimeout :: "StreamConfiguration \<Rightarrow> ptr \<Rightarrow> StreamConfiguration" where
  "streamTimeout config stream = stream_dispatch config (TimeoutTask stream)"

definition streamUpdate :: "StreamConfiguration \<Rightarrow> ptr \<Rightarrow> (bool \<times> StreamConfiguration) option" where
  "streamUpdate config stream = do {
     st \<leftarrow> sc_heap config stream;
     ref \<leftarrow> streamReliabilityUpdate (st_reliability st) kStreamTimerUpdateInterval;
     let st = st\<lparr>st_reliability := ref\<rparr>;
     let st = st\<lparr>st_flow := streamFlowUpdate (st_flow st) (rtt (st_reliability st)) kStreamTimerUpdateInterval\<rparr>;
     let st = st\<lparr>st_timeoutAccumulator := fadd (st_timeoutAccumulator st) kStreamTimerUpdateInterval\<rparr>;
     let config = set_stream config stream st;
     let config = (if st_timeoutAccumulator st > kStreamTimeout then streamTimeout config stream else config);
     let st = st\<lparr>st_updateAccumulator := fadd (st_updateAccumulator st) kStreamTimerUpdateInterval\<rparr>;
     if st_updateAccumulator st \<ge> updateInterval (st_flow st)
     then Some (True, set_stream config stream (st\<lparr>st_updateAccumulator := 0\<rparr>))
     else Some (False, set_stream config stream st)
   }"

text \<open>Sending one object; the size noted is the length the socket has set.\<close>

definition streamSend :: "endian \<Rightarrow> StreamConfiguration \<Rightarrow> ptr \<Rightarrow> StreamObject \<Rightarrow> StreamConfiguration option" where
  "streamSend e config stream object = do {
     st \<leftarrow> sc_heap config stream;
     if st_state st = StreamConnected \<or> st_state st = StreamWaiting
     then do {
       s \<leftarrow> sc_socket config;
       (packet, s) \<leftarrow> net_packet_alloc s;
       if packet \<noteq> NULL
       then do {
         m \<leftarrow> sk_mem s packet;
         b \<leftarrow> streamProtocolPackHeader e (pkt_bitstream m) (sr_sequence (st_reliability st)) (sr_ack (st_reliability st))
           (ackBits (st_reliability st));
         b \<leftarrow> streamProtocolPackData e b object;
         let s = net_packet_store s packet (net_packet_addr (m\<lparr>pkt_bitstream := b\<rparr>) (st_address st));
         s \<leftarrow> net_socket_send s packet;
         m \<leftarrow> sk_mem s packet;
         ref \<leftarrow> streamReliabilityPacketSent (st_reliability st) (pkt_length m);
         let config = set_stream config stream (st\<lparr>st_reliability := ref\<rparr>);
         s \<leftarrow> net_packet_release s packet;
         Some (config\<lparr>sc_socket := Some s\<rparr>)
       }
       else Some (config\<lparr>sc_socket := Some s\<rparr>)
     }
     else Some config
   }"

definition streamReceive ::
    "StreamConfiguration \<Rightarrow> ptr \<Rightarrow> Sequence \<Rightarrow> Ack \<Rightarrow> AckBitField \<Rightarrow> StreamObject \<Rightarrow> StreamConfiguration option" where
  "streamReceive config stream sequence ack ackBitField object = do {
     st \<leftarrow> sc_heap config stream;
     if ack \<le> sr_sequence (st_reliability st)
     then do {
       let st = st\<lparr>st_timeoutAccumulator := 0\<rparr>;
       ref \<leftarrow> streamReliabilityPacketReceived (st_reliability st) sequence ack ackBitField;
       let config = set_stream config stream (st\<lparr>st_reliability := ref\<rparr>);
       stream_called config (sc_receiveCallback config) (ReceiveCalled (sc_context config) (st_address st) object)
     }
     else Some config
   }"

subsection \<open>Adding and removing\<close>

definition streamAdd :: "StreamConfiguration \<Rightarrow> net_addr_t \<Rightarrow> StreamConfiguration" where
  "streamAdd config streamRemoteAddress =
     (let streamAddress = net_addr_copy sockaddr_zero streamRemoteAddress
      in stream_dispatch config (AddTask streamAddress))"

definition streamRemove :: "StreamConfiguration \<Rightarrow> net_addr_t \<Rightarrow> StreamConfiguration" where
  "streamRemove config streamRemoteAddress =
     (let streamAddress = net_addr_copy sockaddr_zero streamRemoteAddress
      in stream_dispatch config (RemoveTask streamAddress))"

text \<open>The block every search uses: it reads the address of a stream through its pointer.\<close>

definition stream_at :: "StreamConfiguration \<Rightarrow> net_addr_t \<Rightarrow> ptr \<Rightarrow> bool option" where
  "stream_at config address object = do {
     st \<leftarrow> sc_heap config object;
     Some (net_addr_is_equal (st_address st) address)
   }"

definition streamDoesExist :: "StreamConfiguration \<Rightarrow> net_addr_t \<Rightarrow> bool option" where
  "streamDoesExist config streamRemoteAddress = do {
     l \<leftarrow> sc_streams config;
     stream \<leftarrow> list_find l (stream_at config streamRemoteAddress);
     Some (stream \<noteq> NULL)
   }"

definition streamListIsEmpty :: "StreamConfiguration \<Rightarrow> bool option" where
  "streamListIsEmpty config = do { l \<leftarrow> sc_streams config; Some (list_is_empty l) }"

definition run_add :: "stream_env \<Rightarrow> StreamConfiguration \<Rightarrow> net_addr_t \<Rightarrow> StreamConfiguration option" where
  "run_add env config streamAddress = do {
     l \<leftarrow> sc_streams config;
     stream \<leftarrow> list_find l (stream_at config streamAddress);
     if stream = NULL
     then do {
       let (stream, config) = streamCreate (se_malloc env) config streamAddress;
       l \<leftarrow> list_add (se_realloc env) l stream;
       streamResume (config\<lparr>sc_streams := Some l\<rparr>)
     }
     else Some config
   }"

definition run_remove :: "StreamConfiguration \<Rightarrow> net_addr_t \<Rightarrow> StreamConfiguration option" where
  "run_remove config streamAddress = do {
     l \<leftarrow> sc_streams config;
     stream \<leftarrow> list_find l (stream_at config streamAddress);
     if stream \<noteq> NULL
     then do {
       l \<leftarrow> list_remove l stream;
       let config = config\<lparr>sc_streams := Some l\<rparr>;
       if list_is_empty l then streamSuspend config else Some config
     }
     else Some config
   }"

definition run_timeout :: "StreamConfiguration \<Rightarrow> ptr \<Rightarrow> StreamConfiguration option" where
  "run_timeout config stream = do {
     st \<leftarrow> sc_heap config stream;
     let config = set_stream config stream (st\<lparr>st_state := StreamTimeout\<rparr>);
     stream_called config (sc_timeoutCallback config) (TimeoutCalled (sc_context config) (st_address st))
   }"

subsection \<open>Timer and socket\<close>

definition streamTimerCallback :: "stream_env \<Rightarrow> StreamConfiguration \<Rightarrow> StreamConfiguration option" where
  "streamTimerCallback env config = do {
     l \<leftarrow> sc_streams config;
     if \<not> list_is_empty l
     then do {
       (syncUpdate, config) \<leftarrow> list_iterate l (\<lambda>object (syncUpdate, config). do {
         (streamShouldUpdate, config) \<leftarrow> streamUpdate config object;
         Some (syncUpdate \<and> streamShouldUpdate, config)
       }) (True, config);
       if syncUpdate
       then do {
         let updateObject = streamObjectSetup (se_object env);
         config \<leftarrow> stream_called config (sc_updateCallback config) (UpdateCalled (sc_context config));
         let updateObject = se_update env updateObject;
         list_iterate l (\<lambda>object config. streamSend (se_endian env) config object updateObject) config
       }
       else Some config
     }
     else Some config
   }"

definition streamSocketReceiveCallback :: "StreamConfiguration \<Rightarrow> ptr \<Rightarrow> StreamConfiguration" where
  "streamSocketReceiveCallback config packet = stream_dispatch config (ReceiveTask packet)"

text \<open>The variables of the header are uninitialised; they are read only if it is valid.\<close>

definition run_receive :: "stream_env \<Rightarrow> StreamConfiguration \<Rightarrow> ptr \<Rightarrow> StreamConfiguration option" where
  "run_receive env config packet = do {
     s \<leftarrow> sc_socket config;
     m \<leftarrow> sk_mem s packet;
     (result, sequence, ack, ackBitField, b) \<leftarrow> streamProtocolUnpackHeader (se_endian env) (pkt_bitstream m) 0 0 0;
     let m = m\<lparr>pkt_bitstream := b\<rparr>;
     let config = config\<lparr>sc_socket := Some (net_packet_store s packet m)\<rparr>;
     config \<leftarrow>
       (if result = UnpackValid
        then do {
          l \<leftarrow> sc_streams config;
          stream \<leftarrow> list_find l (stream_at config (pkt_addr m));
          let config = (if stream = NULL then streamAdd config (pkt_addr m) else config);
          if stream \<noteq> NULL
          then do {
            let receiveObject = streamObjectSetup (se_object env);
            (_, receiveObject, b) \<leftarrow> streamProtocolUnpackData (se_endian env) b receiveObject;
            let config = config\<lparr>sc_socket := Some (net_packet_store s packet (m\<lparr>pkt_bitstream := b\<rparr>))\<rparr>;
            streamReceive config stream sequence ack ackBitField receiveObject
          }
          else Some config
        }
        else Some config);
     s \<leftarrow> sc_socket config;
     s \<leftarrow> net_packet_release s packet;
     Some (config\<lparr>sc_socket := Some s\<rparr>)
   }"

text \<open>The first block of the serial queue.\<close>

definition run_stream_task :: "stream_env \<Rightarrow> StreamConfiguration \<Rightarrow> StreamConfiguration option" where
  "run_stream_task env config =
     (case sc_tasks config of
        [] \<Rightarrow> Some config
      | task # rest \<Rightarrow>
          let config = config\<lparr>sc_tasks := rest\<rparr>
          in case task of
               AddTask address \<Rightarrow> run_add env config address
             | RemoveTask address \<Rightarrow> run_remove config address
             | TimeoutTask stream \<Rightarrow> run_timeout config stream
             | ReceiveTask packet \<Rightarrow> run_receive env config packet)"

subsection \<open>Setup\<close>

text \<open>The address of \<open>streamSocketReceiveCallback\<close> as the socket stores it, and the string \<^verbatim>\<open>0.0.0.0\<close>.\<close>

abbreviation (input) stream_receive_fn :: ptr where "stream_receive_fn \<equiv> 2"
abbreviation (input) any_host :: "u8 list" where "any_host \<equiv> [48, 46, 48, 46, 48, 46, 48, 0]"

text \<open>
  \<open>self\<close> is the address of the configuration, \<open>timer\<close> what the creation of the timer source answers
  and \<open>list_malloc\<close> whether the list can be allocated. The timer is created suspended.
\<close>

definition streamSetup ::
    "endian \<Rightarrow> socket_os \<Rightarrow> PosixError \<times> ifaddrs list \<Rightarrow> ptr \<Rightarrow> bool \<Rightarrow> bool \<Rightarrow> ptr \<Rightarrow> StreamConfiguration \<Rightarrow>
     int \<Rightarrow> ptr \<Rightarrow> ptr \<Rightarrow> ptr \<Rightarrow> ptr \<Rightarrow> ptr \<Rightarrow> (NetError \<times> StreamConfiguration) option" where
  "streamSetup e os getifaddrs timer list_malloc list_realloc self config port ctx updateCallback receiveCallback
       timeoutCallback suspendCallback = do {
     (socketError, result) \<leftarrow> net_socket_create e os NetNoError AF_INET (Some any_host) port;
     let config = config\<lparr>sc_socket := (case result of Created s \<Rightarrow> s | CreateFailed _ \<Rightarrow> None)\<rparr>;
     if socketError \<noteq> NetNoError then Some (socketError, config)
     else do {
       s \<leftarrow> sc_socket config;
       let s = net_socket_set_receive_callback s self stream_receive_fn;
       let config = config\<lparr>sc_socket := Some s\<rparr>;
       let config = config\<lparr>sc_address := net_socket_local_addr getifaddrs s (sc_address config)\<rparr>;
       let config = config\<lparr>sc_updateCallback := updateCallback, sc_receiveCallback := receiveCallback,
         sc_timeoutCallback := timeoutCallback, sc_suspendCallback := suspendCallback, sc_context := ctx\<rparr>;
       if sc_updateCallback config = NULL \<or> sc_receiveCallback config = NULL \<or> sc_timeoutCallback config = NULL
       then Some (NetInvalidError, config)
       else if timer = NULL then None
       else do {
         let config = config\<lparr>sc_tasks := [], sc_suspended := 1, sc_active := False\<rparr>;
         l \<leftarrow> list_create list_malloc list_realloc kStreamListCapacity;
         Some (NetNoError, config\<lparr>sc_streams := l\<rparr>)
       }
     }
   }"

definition streamTeardown :: "StreamConfiguration \<Rightarrow> StreamConfiguration option" where
  "streamTeardown config = do {
     config \<leftarrow> (if sc_active config = False
       then if sc_suspended config = 0 then None else Some (config\<lparr>sc_suspended := sc_suspended config - 1\<rparr>)
       else Some config);
     l \<leftarrow> list_destroy (sc_streams config);
     let config = config\<lparr>sc_streams := l\<rparr>;
     s \<leftarrow> sc_socket config;
     s \<leftarrow> net_socket_destroy s;
     Some (config\<lparr>sc_socket := Some s\<rparr>)
   }"

section \<open>The invariant\<close>

text \<open>What \<open>net_addr_is_equal\<close> compares, and the peers of a configuration.\<close>

definition addr_key :: "net_addr_t \<Rightarrow> u16 \<times> u16 \<times> u32" where
  "addr_key a = (sin_family a, sin_port a, sin_addr a)"

definition stream_key :: "StreamConfiguration \<Rightarrow> ptr \<Rightarrow> u16 \<times> u16 \<times> u32" where
  "stream_key config p = addr_key (st_address (the (sc_heap config p)))"

definition stream_ok :: "Stream \<Rightarrow> bool" where
  "stream_ok st \<longleftrightarrow> (\<exists>n m. rel_inv n m (st_reliability st)) \<and> flow_inv (st_flow st)"

text \<open>The packets the blocks on the queue own, and the socket with them as its client.\<close>

fun task_packets :: "stream_task \<Rightarrow> ptr list" where
  "task_packets (ReceiveTask p) = [p]"
| "task_packets _ = []"

definition receive_packets :: "StreamConfiguration \<Rightarrow> ptr list" where
  "receive_packets config = concat (map task_packets (sc_tasks config))"

definition stream_owned :: "StreamConfiguration \<Rightarrow> ptr \<Rightarrow> nat" where
  "stream_owned config p = count_list (receive_packets config) p"

definition stream_sys :: "StreamConfiguration \<Rightarrow> net_socket_s \<Rightarrow> ptr list \<Rightarrow> socket_sys" where
  "stream_sys config s leaked = \<lparr>sys_socket = s, sys_owned = stream_owned config, sys_leaked = leaked\<rparr>"

definition stream_heap :: "StreamConfiguration \<Rightarrow> list_s \<Rightarrow> bool" where
  "stream_heap config l \<longleftrightarrow> (\<forall>p \<in> set (list_objects l). p \<noteq> NULL \<and> sc_heap config p \<noteq> None) \<and>
     (\<forall>p st. sc_heap config p = Some st \<longrightarrow> stream_ok st) \<and>
     (\<forall>p. TimeoutTask p \<in> set (sc_tasks config) \<longrightarrow> sc_heap config p \<noteq> None)"

definition stream_timer :: "StreamConfiguration \<Rightarrow> list_s \<Rightarrow> bool" where
  "stream_timer config l \<longleftrightarrow> sc_suspended config = (if sc_active config then 0 else 1) \<and>
     (sc_active config \<longrightarrow> list_objects l \<noteq> [])"

definition stream_callbacks :: "StreamConfiguration \<Rightarrow> bool" where
  "stream_callbacks config \<longleftrightarrow> sc_receiveCallback config \<noteq> NULL \<and> sc_updateCallback config \<noteq> NULL \<and>
     sc_timeoutCallback config \<noteq> NULL \<and> sc_suspendCallback config \<noteq> NULL"

text \<open>
  The packets received that wait for a block of one of the two queues: each waits once, and none
  has been read from. The socket calls the function that \<open>streamSetup\<close> has set.
\<close>

definition incoming :: "StreamConfiguration \<Rightarrow> net_socket_s \<Rightarrow> ptr list" where
  "incoming config s = map delivery_packet (sk_deliveries s) @ receive_packets config"

definition stream_incoming :: "StreamConfiguration \<Rightarrow> net_socket_s \<Rightarrow> bool" where
  "stream_incoming config s \<longleftrightarrow> distinct (incoming config s) \<and>
     (\<forall>p \<in> set (incoming config s). \<exists>m. sk_mem s p = Some m \<and> bs_offset (pkt_bitstream m) = 0) \<and>
     sk_receiveBlock s = NULL \<and> sk_receiveCallback s = stream_receive_fn"

definition stream_state :: "ptr list \<Rightarrow> net_socket_s \<Rightarrow> list_s \<Rightarrow> StreamConfiguration \<Rightarrow> bool" where
  "stream_state leaked s l config \<longleftrightarrow> sc_socket config = Some s \<and> sc_streams config = Some l \<and>
     list_inv l \<and> sys_inv (stream_sys config s leaked) \<and> stream_incoming config s \<and> stream_heap config l \<and>
     distinct (map (stream_key config) (list_objects l)) \<and> stream_timer config l \<and> stream_callbacks config"

lemma stream_key_simps [simp]:
  "stream_key (config\<lparr>sc_socket := x\<rparr>) = stream_key config" "stream_key (config\<lparr>sc_tasks := ts\<rparr>) = stream_key config"
  "stream_key (config\<lparr>sc_log := c\<rparr>) = stream_key config" "stream_key (config\<lparr>sc_streams := ll\<rparr>) = stream_key config"
  "stream_key (config\<lparr>sc_active := b\<rparr>) = stream_key config" "stream_key (config\<lparr>sc_suspended := n\<rparr>) = stream_key config"
  by (simp_all add: stream_key_def fun_eq_iff)

lemma receive_packets_simps [simp]:
  "receive_packets (config\<lparr>sc_socket := x\<rparr>) = receive_packets config" "receive_packets (config\<lparr>sc_heap := h\<rparr>) = receive_packets config"
  "receive_packets (config\<lparr>sc_log := c\<rparr>) = receive_packets config" "receive_packets (config\<lparr>sc_streams := ll\<rparr>) = receive_packets config"
  "receive_packets (config\<lparr>sc_active := b\<rparr>) = receive_packets config" "receive_packets (config\<lparr>sc_suspended := n\<rparr>) = receive_packets config"
  by (simp_all add: receive_packets_def)

lemma stream_owned_cong: "receive_packets config' = receive_packets config \<Longrightarrow> stream_owned config' = stream_owned config"
  by (simp add: stream_owned_def fun_eq_iff)

lemma stream_incoming_cong: "receive_packets config' = receive_packets config \<Longrightarrow> stream_incoming config' s = stream_incoming config s"
  by (simp add: stream_incoming_def incoming_def)

lemma stream_owned_simps [simp]:
  "stream_owned (config\<lparr>sc_socket := x\<rparr>) = stream_owned config" "stream_owned (config\<lparr>sc_heap := h\<rparr>) = stream_owned config"
  "stream_owned (config\<lparr>sc_log := c\<rparr>) = stream_owned config" "stream_owned (config\<lparr>sc_streams := ll\<rparr>) = stream_owned config"
  "stream_owned (config\<lparr>sc_active := b\<rparr>) = stream_owned config" "stream_owned (config\<lparr>sc_suspended := n\<rparr>) = stream_owned config"
  by ((rule stream_owned_cong, simp)+)

lemma stream_incoming_simps [simp]:
  "stream_incoming (config\<lparr>sc_socket := x\<rparr>) = stream_incoming config" "stream_incoming (config\<lparr>sc_heap := h\<rparr>) = stream_incoming config"
  "stream_incoming (config\<lparr>sc_log := c\<rparr>) = stream_incoming config" "stream_incoming (config\<lparr>sc_streams := ll\<rparr>) = stream_incoming config"
  "stream_incoming (config\<lparr>sc_active := b\<rparr>) = stream_incoming config" "stream_incoming (config\<lparr>sc_suspended := n\<rparr>) = stream_incoming config"
  by ((rule ext, rule stream_incoming_cong, simp)+)

lemmas stream_defs = stream_state_def stream_heap_def stream_timer_def stream_callbacks_def

lemma net_addr_is_equal_key: "net_addr_is_equal a b \<longleftrightarrow> addr_key a = addr_key b"
  by (auto simp: net_addr_is_equal_def addr_key_def)

lemma sys_inv_stream:
  "sys_inv (stream_sys config s leaked) \<longleftrightarrow>
     socket_inv (\<lambda>p. stream_owned config p + count_list leaked p) s \<and> receivers_set s"
  by (simp add: sys_inv_def stream_sys_def)

lemma receivers_set_others: "sk_others s' = sk_others s \<Longrightarrow> receivers_set s' = receivers_set s"
  by (auto simp: sk_others_def receivers_set_def sk_receivers_def split: delivery.splits)

lemma stream_new_ok: "stream_ok (new_stream address)"
  using rel_inv_clear [of zero_reliability] flow_inv_clear
  by (auto simp: stream_ok_def new_stream_def zero_stream_def zero_reliability_def Let_def)

lemma new_stream_address [simp]: "st_address (new_stream address) = address"
  by (simp add: new_stream_def net_addr_copy_def Let_def)

lemma list_is_empty_objects: "list_inv l \<Longrightarrow> list_is_empty l \<longleftrightarrow> list_objects l = []"
proof -
  assume "list_inv l"
  then obtain m "is" rs where rel: "list_rel l m is rs"
    by (auto simp: list_inv_def)
  have start: "h = 0 \<longleftrightarrow> xs = []" if "chain nxt h xs" for nxt :: "u32 \<Rightarrow> u32 option" and h xs
    using that by (cases xs) auto
  have "l_head l = 0 \<longleftrightarrow> is = []" "l_tail l = 0 \<longleftrightarrow> rev is = []"
    using rel start [of "nexts m" "l_head l" "is"] start [of "prevs m" "l_tail l" "rev is"] by (simp_all add: list_rel_def)
  with list_rel_objects [OF rel] show ?thesis
    by (simp add: list_is_empty_def)
qed

text \<open>The search for an address finds the stream of that peer.\<close>

lemma stream_find:
  assumes "stream_state leaked s l config"
  shows "list_find l (stream_at config a) =
    Some (case List.find (\<lambda>p. stream_key config p = addr_key a) (list_objects l) of None \<Rightarrow> NULL | Some p \<Rightarrow> p)"
  using assms
  by (intro list_find_objects)
    (auto simp: stream_state_def stream_heap_def stream_at_def stream_key_def net_addr_is_equal_key)

lemma stream_listed:
  assumes "stream_state leaked s l config" "p \<in> set (list_objects l)"
  shows "p \<noteq> NULL" "\<exists>st. sc_heap config p = Some st \<and> stream_ok st"
  using assms unfolding stream_state_def stream_heap_def by blast+

lemma stream_find_cases:
  assumes "stream_state leaked s l config"
  obtains (absent) "list_find l (stream_at config a) = Some NULL" "addr_key a \<notin> stream_key config ` set (list_objects l)"
  | (present) p st where "list_find l (stream_at config a) = Some p" "p \<noteq> NULL" "p \<in> set (list_objects l)"
      "sc_heap config p = Some st" "addr_key (st_address st) = addr_key a" "addr_key a = stream_key config p"
proof (cases "List.find (\<lambda>p. stream_key config p = addr_key a) (list_objects l)")
  case None
  then have "addr_key a \<notin> stream_key config ` set (list_objects l)"
    by (auto simp: find_None_iff)
  with None stream_find [OF assms, of a] show thesis
    by (intro absent) simp_all
next
  case (Some p)
  then have p: "p \<in> set (list_objects l)" "stream_key config p = addr_key a"
    by (auto simp: find_Some_iff)
  then obtain st where "sc_heap config p = Some st" "p \<noteq> NULL"
    using assms by (auto simp: stream_state_def stream_heap_def)
  with p Some stream_find [OF assms, of a] show thesis
    by (intro present [of p st]) (simp_all add: stream_key_def)
qed

section \<open>Steps\<close>

text \<open>Changes of one stream, of the queue and of the socket.\<close>

lemma stream_state_set:
  assumes "stream_state leaked s l config" "sc_heap config p = Some st" "stream_ok st'" "st_address st' = st_address st"
  shows "stream_state leaked s l (set_stream config p st')"
proof -
  have "stream_key (set_stream config p st') = stream_key config"
    using assms(2,4) by (auto simp: stream_key_def set_stream_def fun_eq_iff)
  with assms show ?thesis
    by (auto simp: stream_defs sys_inv_stream set_stream_def)
qed

lemma stream_state_tasks:
  assumes "stream_state leaked s l config"
    and "concat (map task_packets ts) = receive_packets config"
    and "\<And>p. TimeoutTask p \<in> set ts \<Longrightarrow> sc_heap config p \<noteq> None"
  shows "stream_state leaked s l (config\<lparr>sc_tasks := ts\<rparr>)"
proof -
  have "receive_packets (config\<lparr>sc_tasks := ts\<rparr>) = receive_packets config"
    using assms(2) by (simp add: receive_packets_def)
  from stream_owned_cong [OF this] stream_incoming_cong [OF this] assms(1,3) show ?thesis
    by (auto simp: stream_defs sys_inv_stream)
qed

lemma stream_state_dispatch:
  assumes "stream_state leaked s l config" "task_packets t = []" "\<And>p. t = TimeoutTask p \<Longrightarrow> sc_heap config p \<noteq> None"
  shows "stream_state leaked s l (stream_dispatch config t)"
  unfolding stream_dispatch_def
  using assms by (intro stream_state_tasks) (auto simp: stream_defs receive_packets_def)

lemma stream_state_socket:
  assumes "stream_state leaked s l config" "socket_inv (\<lambda>p. stream_owned config p + count_list leaked p) s'" "receivers_set s'" "stream_incoming config s'"
  shows "stream_state leaked s' l (config\<lparr>sc_socket := Some s'\<rparr>)"
  using assms by (simp add: stream_defs sys_inv_stream)

lemma stream_state_called:
  assumes "stream_state leaked s l config" "f \<noteq> NULL"
  shows "stream_called config f c = Some (config\<lparr>sc_log := sc_log config @ [c]\<rparr>)"
    "stream_state leaked s l (config\<lparr>sc_log := sc_log config @ [c]\<rparr>)"
  using assms by (simp_all add: stream_called_def stream_defs sys_inv_stream)

text \<open>Adding a peer: nothing happens if it is known, otherwise a new stream goes to the end of the list.\<close>

lemma run_add_known:
  assumes "stream_state leaked s l config" "addr_key a \<in> stream_key config ` set (list_objects l)"
  shows "run_add env config a = Some config"
  using assms(1)
proof (cases rule: stream_find_cases [where a = a])
  case absent
  with assms(2) show ?thesis
    by simp
next
  case (present p st)
  with assms(1) show ?thesis
    by (simp add: run_add_def stream_state_def)
qed

lemma run_add_new:
  assumes "stream_state leaked s l config" "addr_key a \<notin> stream_key config ` set (list_objects l)"
    and "se_malloc env \<noteq> NULL" "sc_heap config (se_malloc env) = None" "se_realloc env" "list_room (Suc k) l"
  shows "\<exists>l'. run_add env config a = Some ((set_stream config (se_malloc env) (new_stream a))
      \<lparr>sc_streams := Some l', sc_active := True, sc_suspended := 0\<rparr>) \<and>
    list_objects l' = list_objects l @ [se_malloc env] \<and> list_room k l' \<and>
    stream_state leaked s l' ((set_stream config (se_malloc env) (new_stream a))
      \<lparr>sc_streams := Some l', sc_active := True, sc_suspended := 0\<rparr>)"
proof -
  let ?p = "se_malloc env" and ?c = "set_stream config (se_malloc env) (new_stream a)"
  obtain l' where l': "list_add True l ?p = Some l'" "list_room k l'" "list_objects l' = list_objects l @ [?p]"
    using stored.add_law [OF assms(6)] by blast
  then have inv: "list_inv l'" "list_is_empty l' = False"
    using list_is_empty_objects [of l'] by (simp_all add: list_room_def)
  have find: "list_find l (stream_at config a) = Some NULL"
    using assms(1,2) by (cases rule: stream_find_cases [where a = a]) auto
  let ?c' = "?c\<lparr>sc_streams := Some l', sc_active := True, sc_suspended := 0\<rparr>"
  have "run_add env config a = Some ?c'"
    using assms(1,3,5) find l'(1) inv(2)
    by (cases "sc_active config")
      (auto simp: run_add_def streamCreate_def streamResume_def stream_state_def stream_timer_def set_stream_def Let_def
        intro!: StreamConfiguration.equality)
  moreover have "?p \<notin> set (list_objects l)"
    using assms(1,4) by (auto simp: stream_defs)
  then have keys: "map (stream_key ?c') (list_objects l') = map (stream_key config) (list_objects l) @ [addr_key a]"
    using l'(3) by (auto simp: stream_key_def set_stream_def)
  have "distinct (map (stream_key ?c') (list_objects l'))"
    unfolding keys using assms(1,2) by (simp add: stream_state_def)
  then have "stream_state leaked s l' ?c'"
    using assms(1,3-5) l'(3) inv stream_new_ok
    by (auto simp: stream_defs sys_inv_stream set_stream_def)
  ultimately show ?thesis
    using l' by blast
qed

text \<open>The peers of a configuration in the order of its list.\<close>

definition stream_peers :: "StreamConfiguration \<Rightarrow> (u16 \<times> u16 \<times> u32) list" where
  "stream_peers config = map (stream_key config) (case sc_streams config of None \<Rightarrow> [] | Some l \<Rightarrow> list_objects l)"

lemma stream_peers_state: "stream_state leaked s l config \<Longrightarrow> stream_peers config = map (stream_key config) (list_objects l)"
  by (simp add: stream_peers_def stream_state_def)

lemma run_add_step:
  assumes "stream_state leaked s l config" "se_malloc env \<noteq> NULL" "sc_heap config (se_malloc env) = None" "se_realloc env"
    "list_room (Suc k) l"
  shows "\<exists>l' config'. run_add env config a = Some config' \<and> stream_state leaked s l' config' \<and> list_room k l' \<and>
    stream_peers config' = (if addr_key a \<in> set (stream_peers config) then stream_peers config else stream_peers config @ [addr_key a]) \<and>
    sc_tasks config' = sc_tasks config \<and> sc_log config' = sc_log config \<and> sc_context config' = sc_context config \<and>
    (\<forall>q. q \<noteq> se_malloc env \<longrightarrow> sc_heap config' q = sc_heap config q) \<and>
    sc_active config' = (sc_active config \<or> addr_key a \<notin> set (stream_peers config))"
proof (cases "addr_key a \<in> stream_key config ` set (list_objects l)")
  case True
  with run_add_known [OF assms(1) True, of env] assms(1,5) stored.inv_Suc [OF assms(5)] show ?thesis
    by (intro exI [of _ l] exI [of _ config]) (simp add: stream_peers_state [OF assms(1)])
next
  case False
  let ?p = "se_malloc env"
  obtain l' where l': "run_add env config a = Some ((set_stream config ?p (new_stream a))
      \<lparr>sc_streams := Some l', sc_active := True, sc_suspended := 0\<rparr>)"
    "list_objects l' = list_objects l @ [?p]" "list_room k l'"
    "stream_state leaked s l' ((set_stream config ?p (new_stream a))\<lparr>sc_streams := Some l', sc_active := True, sc_suspended := 0\<rparr>)"
    using run_add_new [OF assms(1) False assms(2-5)] by blast
  have "?p \<notin> set (list_objects l)"
    using assms(1,3) by (auto simp: stream_defs)
  then show ?thesis
    using l' False stream_peers_state [OF assms(1)] stream_peers_state [OF l'(4)]
    by (intro exI conjI) (assumption | auto simp: set_stream_def stream_key_def)+
qed

lemma map_remove1_distinct:
  "distinct (map f xs) \<Longrightarrow> x \<in> set xs \<Longrightarrow> map f (remove1 x xs) = remove1 (f x) (map f xs)"
  by (induction xs) (auto, metis image_eqI)

lemma run_remove_step:
  assumes "stream_state leaked s l config"
  shows "\<exists>l' config'. run_remove config a = Some config' \<and> stream_state leaked s l' config' \<and> l_capacity l' = l_capacity l \<and>
    stream_peers config' = remove1 (addr_key a) (stream_peers config) \<and>
    sc_tasks config' = sc_tasks config \<and> sc_heap config' = sc_heap config \<and> sc_context config' = sc_context config \<and>
    sc_active config' = (sc_active config \<and> stream_peers config' \<noteq> []) \<and>
    sc_log config' = sc_log config @
      (if sc_active config \<and> \<not> sc_active config' then [SuspendCalled (sc_context config)] else [])"
  using assms
proof (cases rule: stream_find_cases [where a = a])
  case absent
  then have "run_remove config a = Some config"
    using assms by (simp add: run_remove_def stream_state_def)
  moreover have "sc_active config \<longrightarrow> stream_peers config \<noteq> []"
    using assms stream_peers_state [OF assms] by (simp add: stream_state_def stream_timer_def)
  ultimately show ?thesis
    using assms absent(2) stream_peers_state [OF assms]
    by (intro exI [of _ l] exI [of _ config]) (auto simp: remove1_idem)
next
  case (present p st)
  obtain l' where l': "list_remove l p = Some l'" "l_capacity l' = l_capacity l" "list_objects l' = remove1 p (list_objects l)"
    and "list_inv l'"
    using list_remove_rel [of l p] present(3) assms by (auto simp: stream_state_def)
  then have inv: "list_inv l'" "list_is_empty l' \<longleftrightarrow> list_objects l' = []"
    using list_is_empty_objects [of l'] by simp_all
  have dist: "distinct (map (stream_key config) (list_objects l))"
    using assms by (simp add: stream_state_def)
  have keys: "map (stream_key config) (list_objects l') = remove1 (addr_key a) (map (stream_key config) (list_objects l))"
    unfolding l'(3) present(6) by (rule map_remove1_distinct [OF dist present(3)])
  then have "distinct (map (stream_key config) (list_objects l'))"
    using dist by simp
  moreover have "set (list_objects l') \<subseteq> set (list_objects l)"
    unfolding l'(3) by (rule set_remove1_subset)
  ultimately have state: "stream_state leaked s l' (config\<lparr>sc_streams := Some l'\<rparr>)" if "sc_active config \<longrightarrow> list_objects l' \<noteq> []"
    using assms inv(1) that by (auto simp: stream_defs sys_inv_stream)
  let ?c = "config\<lparr>sc_streams := Some l'\<rparr>"
  show ?thesis
  proof (cases "sc_active config \<and> list_objects l' = []")
    case True
    let ?c' = "?c\<lparr>sc_suspended := 1, sc_active := False, sc_log := sc_log config @ [SuspendCalled (sc_context config)]\<rparr>"
    have "run_remove config a = Some ?c'"
      using assms True present(1,2) l'(1) inv(2)
      by (simp add: run_remove_def streamSuspend_def stream_called_def stream_defs)
    moreover have "stream_state leaked s l' ?c'"
      using assms True inv(1) by (auto simp: stream_defs sys_inv_stream)
    moreover have "stream_peers ?c' = []"
      using True by (simp add: stream_peers_def)
    ultimately show ?thesis
      using True keys l'(2) stream_peers_state [OF assms] by (intro exI [of _ l'] exI [of _ ?c']) simp
  next
    case False
    have "run_remove config a = Some ?c"
      using assms False present(1,2) l'(1) inv(2) by (auto simp: run_remove_def streamSuspend_def stream_defs)
    moreover have peers: "stream_peers ?c = map (stream_key config) (list_objects l')"
      by (simp add: stream_peers_def)
    ultimately show ?thesis
      using False state keys l'(2) stream_peers_state [OF assms] by (intro exI [of _ l'] exI [of _ ?c]) auto
  qed
qed

text \<open>The other blocks and the updates of one stream.\<close>

lemma run_timeout_step:
  assumes "stream_state leaked s l config" "sc_heap config p = Some st"
  shows "run_timeout config p = Some ((set_stream config p (st\<lparr>st_state := StreamTimeout\<rparr>))
      \<lparr>sc_log := sc_log config @ [TimeoutCalled (sc_context config) (st_address st)]\<rparr>)"
    and "stream_state leaked s l ((set_stream config p (st\<lparr>st_state := StreamTimeout\<rparr>))
      \<lparr>sc_log := sc_log config @ [TimeoutCalled (sc_context config) (st_address st)]\<rparr>)"
proof -
  have "stream_ok st"
    using assms by (simp add: stream_defs)
  then have "stream_state leaked s l (set_stream config p (st\<lparr>st_state := StreamTimeout\<rparr>))"
    using assms by (intro stream_state_set [OF assms]) (simp_all add: stream_ok_def)
  from stream_state_called(2) [OF this, of 1 "TimeoutCalled (sc_context config) (st_address st)"] assms
  show "run_timeout config p = Some ((set_stream config p (st\<lparr>st_state := StreamTimeout\<rparr>))
      \<lparr>sc_log := sc_log config @ [TimeoutCalled (sc_context config) (st_address st)]\<rparr>)"
    "stream_state leaked s l ((set_stream config p (st\<lparr>st_state := StreamTimeout\<rparr>))
      \<lparr>sc_log := sc_log config @ [TimeoutCalled (sc_context config) (st_address st)]\<rparr>)"
    by (simp_all add: run_timeout_def stream_called_def set_stream_def stream_state_def stream_callbacks_def)
qed

text \<open>The update of one stream as a function on it, with the condition under which it wants data and times out.\<close>

definition updated :: "Stream \<Rightarrow> Stream" where
  "updated st =
     (let ref = the (streamReliabilityUpdate (st_reliability st) kStreamTimerUpdateInterval);
          flow = streamFlowUpdate (st_flow st) (rtt ref) kStreamTimerUpdateInterval;
          acc = fadd (st_updateAccumulator st) kStreamTimerUpdateInterval
      in st\<lparr>st_reliability := ref, st_flow := flow,
            st_timeoutAccumulator := fadd (st_timeoutAccumulator st) kStreamTimerUpdateInterval,
            st_updateAccumulator := (if acc \<ge> updateInterval flow then 0 else acc)\<rparr>)"

definition wants_update :: "Stream \<Rightarrow> bool" where
  "wants_update st \<longleftrightarrow> fadd (st_updateAccumulator st) kStreamTimerUpdateInterval \<ge> updateInterval (st_flow (updated st))"

definition times_out :: "Stream \<Rightarrow> bool" where
  "times_out st \<longleftrightarrow> st_timeoutAccumulator (updated st) > kStreamTimeout"

lemma updated_ok:
  assumes "stream_ok st"
  shows "stream_ok (updated st)" "st_address (updated st) = st_address st" "st_state (updated st) = st_state st"
    "\<exists>ref. streamReliabilityUpdate (st_reliability st) kStreamTimerUpdateInterval = Some ref"
proof -
  obtain n m where "rel_inv n m (st_reliability st)"
    using assms by (auto simp: stream_ok_def)
  from rel_step_inv [OF this, of "Updated kStreamTimerUpdateInterval"] obtain ref
    where ref: "streamReliabilityUpdate (st_reliability st) kStreamTimerUpdateInterval = Some ref" "rel_inv n m ref"
    by auto
  then show "\<exists>ref. streamReliabilityUpdate (st_reliability st) kStreamTimerUpdateInterval = Some ref"
    by blast
  show "stream_ok (updated st)"
    using ref assms flow_inv_update by (auto simp: stream_ok_def updated_def Let_def)
  show "st_address (updated st) = st_address st" "st_state (updated st) = st_state st"
    by (simp_all add: updated_def Let_def)
qed

lemma streamUpdate_step:
  assumes "stream_state leaked s l config" "sc_heap config p = Some st"
  defines "config' \<equiv> (set_stream config p (updated st))\<lparr>sc_tasks := sc_tasks config @ (if times_out st then [TimeoutTask p] else [])\<rparr>"
  shows "streamUpdate config p = Some (wants_update st, config')" "stream_state leaked s l config'"
proof -
  have ok: "stream_ok st"
    using assms by (simp add: stream_defs)
  obtain ref where ref: "streamReliabilityUpdate (st_reliability st) kStreamTimerUpdateInterval = Some ref"
    using updated_ok(4) [OF ok] by blast
  show "streamUpdate config p = Some (wants_update st, config')"
    using assms(2) ref
    by (simp add: streamUpdate_def config'_def wants_update_def times_out_def updated_def Let_def set_stream_def streamTimeout_def
        stream_dispatch_def)
  have "stream_state leaked s l (set_stream config p (updated st))"
    by (rule stream_state_set [OF assms(1,2) updated_ok(1,2) [OF ok]])
  then show "stream_state leaked s l config'"
    unfolding config'_def by (rule stream_state_tasks) (use assms(1,2) in \<open>auto simp: set_stream_def stream_defs receive_packets_def\<close>)
qed

text \<open>The first half of the timer callback: every stream of the list is updated once.\<close>

definition ticked :: "ptr list \<Rightarrow> StreamConfiguration \<Rightarrow> StreamConfiguration" where
  "ticked ps config = config\<lparr>
     sc_heap := (\<lambda>p. if p \<in> set ps then map_option updated (sc_heap config p) else sc_heap config p),
     sc_tasks := sc_tasks config @ map TimeoutTask (filter (\<lambda>p. times_out (the (sc_heap config p))) ps)\<rparr>"

lemma ticked_Cons:
  assumes "sc_heap config p = Some st" "p \<notin> set ps"
  shows "ticked ps ((set_stream config p (updated st))\<lparr>sc_tasks := sc_tasks config @ (if times_out st then [TimeoutTask p] else [])\<rparr>) =
    ticked (p # ps) config"
proof -
  let ?c = "(set_stream config p (updated st))\<lparr>sc_tasks := sc_tasks config @ (if times_out st then [TimeoutTask p] else [])\<rparr>"
  have "filter (\<lambda>q. times_out (the (((sc_heap config)(p \<mapsto> updated st)) q))) ps = filter (\<lambda>q. times_out (the (sc_heap config q))) ps"
    using assms(2) by (intro filter_cong) auto
  then have tasks: "sc_tasks (ticked ps ?c) = sc_tasks (ticked (p # ps) config)"
    unfolding ticked_def set_stream_def using assms(1) by (cases "times_out st") simp_all
  have heap: "sc_heap (ticked ps ?c) = sc_heap (ticked (p # ps) config)"
    using assms by (auto simp: ticked_def set_stream_def fun_eq_iff)
  show ?thesis
    by (rule StreamConfiguration.equality) (simp_all add: tasks heap, simp_all add: ticked_def set_stream_def)
qed

lemma update_fold:
  assumes "stream_state leaked s l config" "distinct ps" "\<forall>p \<in> set ps. sc_heap config p \<noteq> None"
  shows "fold (\<lambda>x r. r \<bind> (\<lambda>(b, config). do { (u, config) \<leftarrow> streamUpdate config x; Some (b \<and> u, config) })) ps (Some (b, config)) =
      Some (b \<and> (\<forall>p \<in> set ps. wants_update (the (sc_heap config p))), ticked ps config) \<and>
    stream_state leaked s l (ticked ps config)"
  using assms
proof (induction ps arbitrary: b config)
  case Nil
  then show ?case
    by (simp add: ticked_def)
next
  case (Cons p ps)
  then obtain st where st: "sc_heap config p = Some st" "p \<notin> set ps"
    by auto
  let ?c = "(set_stream config p (updated st))\<lparr>sc_tasks := sc_tasks config @ (if times_out st then [TimeoutTask p] else [])\<rparr>"
  note step = streamUpdate_step [OF Cons.prems(1) st(1)]
  have heap: "sc_heap ?c q = sc_heap config q" if "q \<in> set ps" for q
    using that st(2) by (auto simp: set_stream_def)
  have "\<forall>q \<in> set ps. sc_heap ?c q \<noteq> None"
    using Cons.prems(3) heap by auto
  from Cons.IH [OF step(2) _ this, of "b \<and> wants_update st"] Cons.prems(2) step(1) ticked_Cons [OF st] heap st(1)
  show ?case
    by auto
qed

lemma update_all:
  assumes "stream_state leaked s l config"
  shows "list_iterate l (\<lambda>object (b, config). do { (u, config) \<leftarrow> streamUpdate config object; Some (b \<and> u, config) }) (True, config) =
      Some ((\<forall>p \<in> set (list_objects l). wants_update (the (sc_heap config p))), ticked (list_objects l) config)"
    and "stream_state leaked s l (ticked (list_objects l) config)"
proof -
  have "distinct (list_objects l)" "\<forall>p \<in> set (list_objects l). sc_heap config p \<noteq> None" "list_inv l"
    using assms by (auto simp: stream_defs simp: distinct_map)
  with update_fold [OF assms this(1,2), of True] show
    "list_iterate l (\<lambda>object (b, config). do { (u, config) \<leftarrow> streamUpdate config object; Some (b \<and> u, config) }) (True, config) =
      Some ((\<forall>p \<in> set (list_objects l). wants_update (the (sc_heap config p))), ticked (list_objects l) config)"
    "stream_state leaked s l (ticked (list_objects l) config)"
    by (simp_all add: list_iterate_in_order)
qed

text \<open>What a stream puts into a packet.\<close>

definition stream_bytes :: "endian \<Rightarrow> StreamReliability \<Rightarrow> StreamObject \<Rightarrow> u8 list" where
  "stream_bytes e ref ob = enc_stream_header e (sr_sequence ref, sr_ack ref, ackBits ref) @ enc_stream_data e ob"

lemma length_stream_bytes: "so_wf ob \<Longrightarrow> length (stream_bytes e ref ob) = 25 + unat (so_length ob)"
  by (simp add: stream_bytes_def)

lemma pack_stream_filled:
  assumes "pkt_wf m" "bs_offset (pkt_bitstream m) = 0" "so_wf ob"
  shows "\<exists>b. streamProtocolPackHeader e (pkt_bitstream m) (sr_sequence ref) (sr_ack ref) (ackBits ref) = Some b \<and>
    streamProtocolPackData e b ob = Some (bs_put (pkt_bitstream m) (stream_bytes e ref ob))"
proof -
  let ?h = "enc_stream_header e (sr_sequence ref, sr_ack ref, ackBits ref)"
  have wf: "bs_wf (pkt_bitstream m)" and len: "25 + unat (so_length ob) \<le> 256"
    using pkt_wf_bs_wf [OF assms(1)] assms(3) by (simp_all add: so_wf_def)
  have room: "bs_room (pkt_bitstream m) 15" "bs_room (pkt_bitstream m) (25 + unat (so_length ob))"
    using pkt_wf_room [OF assms(1,2), of 15] pkt_wf_room [OF assms(1,2) len] by simp_all
  have "streamProtocolPackHeader e (pkt_bitstream m) (sr_sequence ref) (sr_ack ref) (ackBits ref) = Some (bs_put (pkt_bitstream m) ?h)"
    using stream_header.put_fits [OF wf, of e "(sr_sequence ref, sr_ack ref, ackBits ref)"] room by simp
  moreover have "streamProtocolPackData e (bs_put (pkt_bitstream m) ?h) ob = Some (bs_put (pkt_bitstream m) (stream_bytes e ref ob))"
    using wf room assms(3) by (simp add: streamProtocolPackData_room codec_room stream_bytes_def)
  ultimately show ?thesis
    by blast
qed

text \<open>Packets on their way in have a reference, so that a new packet is not one of them.\<close>

lemma incoming_refs:
  assumes "stream_state leaked s l config" "p \<in> set (incoming config s)"
  shows "0 < sk_refs s p"
proof -
  have inv: "socket_inv (\<lambda>p. stream_owned config p + count_list leaked p) s"
    using assms(1) by (simp add: stream_state_def sys_inv_stream)
  show ?thesis
  proof (cases "p \<in> set (receive_packets config)")
    case True
    then have "0 < stream_owned config p"
      using count_list_0_iff [of "receive_packets config" p] by (simp add: stream_owned_def)
    with socket_inv_owned [OF inv, of p] show ?thesis
      by simp
  next
    case False
    with assms(2) have "p \<in> set (sk_held s)"
      by (auto simp: incoming_def sk_held_def)
    then show ?thesis
      by (rule socket_inv_held [OF inv])
  qed
qed

text \<open>The socket may change outside these packets.\<close>

lemma stream_incoming_frame:
  assumes "stream_incoming config s" "sk_others s' = sk_others s" "\<And>p. p \<in> set (incoming config s) \<Longrightarrow> sk_mem s' p = sk_mem s p"
  shows "stream_incoming config s'"
proof -
  have "sk_deliveries s' = sk_deliveries s" "sk_receiveBlock s' = sk_receiveBlock s" "sk_receiveCallback s' = sk_receiveCallback s"
    using assms(2) by (simp_all add: sk_others_def sk_receivers_def)
  with assms(1,3) show ?thesis
    by (simp add: stream_incoming_def incoming_def)
qed

definition sending :: "Stream \<Rightarrow> bool" where
  "sending st \<longleftrightarrow> st_state st = StreamConnected \<or> st_state st = StreamWaiting"

lemma streamSend_idle:
  assumes "stream_state leaked s l config" "sc_heap config p = Some st" "\<not> sending st \<or> net_packet_alloc s = Some (NULL, s)"
  shows "streamSend e config p ob = Some config"
  using assms by (auto simp: streamSend_def sending_def stream_state_def intro!: StreamConfiguration.equality)

lemma streamSend_sends:
  assumes "stream_state leaked s l config" "sc_heap config p = Some st" "sending st"
    and "net_packet_alloc s = Some (pk, s1)" "pk \<noteq> NULL" "so_wf ob"
  shows "\<exists>ref s' m. streamReliabilityPacketSent (st_reliability st) (25 + unat (so_length ob)) = Some ref \<and>
    streamSend e config p ob = Some ((set_stream config p (st\<lparr>st_reliability := ref\<rparr>))\<lparr>sc_socket := Some s'\<rparr>) \<and>
    stream_state leaked s' l ((set_stream config p (st\<lparr>st_reliability := ref\<rparr>))\<lparr>sc_socket := Some s'\<rparr>) \<and>
    sk_mem s' = (sk_mem s)(pk \<mapsto> m) \<and> datagram m = (st_address st, stream_bytes e (st_reliability st) ob) \<and>
    sk_tasks s' = sk_tasks s @ [pk] \<and> sk_refs s' = (sk_refs s)(pk := 1) \<and> sk_others s' = sk_others s \<and> sk_refs s pk = 0"
proof -
  let ?own = "\<lambda>p. stream_owned config p + count_list leaked p" and ?bytes = "stream_bytes e (st_reliability st) ob"
  have inv: "socket_inv ?own s" "receivers_set s" "stream_incoming config s" and ok: "stream_ok st" and sock: "sc_socket config = Some s"
    using assms(1,2) by (simp_all add: stream_defs sys_inv_stream)
  have len: "length ?bytes = 25 + unat (so_length ob)" "length ?bytes \<le> 256"
    using length_stream_bytes [OF assms(6)] assms(6) by (simp_all add: so_wf_def)
  have refs: "sk_refs s pk = 0"
    using net_packet_alloc_inv [OF inv(1)] assms(4,5) by auto
  have fill: "pkt_wf (filled (st_address st) ?bytes m) \<and> pkt_length (filled (st_address st) ?bytes m) = pkt_length m \<and>
      0 < bs_offset (pkt_bitstream (filled (st_address st) ?bytes m))" if "pkt_wf m" "bs_offset (pkt_bitstream m) = 0" for m
    using filled_wf [OF that len(2), of "st_address st"] len(1) by simp
  from socket.send_once [OF inv(1) assms(4,5) fill]
  obtain m s2 s3 where m: "sk_mem s1 pk = Some m" "pkt_wf m" "bs_offset (pkt_bitstream m) = 0"
    and s2: "net_socket_send (net_packet_store s1 pk (filled (st_address st) ?bytes m)) pk = Some s2" "sk_mem s2 = sk_mem s3"
    and s3: "net_packet_release s2 pk = Some s3" "socket_inv ?own s3"
      "sk_mem s3 = (sk_mem s)(pk \<mapsto> sent (filled (st_address st) ?bytes m))"
      "sk_refs s3 = (sk_refs s)(pk := 1)" "sk_tasks s3 = sk_tasks s @ [pk]" "sk_others s3 = sk_others s"
    unfolding sent_def by blast
  obtain b where b: "streamProtocolPackHeader e (pkt_bitstream m) (sr_sequence (st_reliability st)) (sr_ack (st_reliability st))
        (ackBits (st_reliability st)) = Some b" "streamProtocolPackData e b ob = Some (bs_put (pkt_bitstream m) ?bytes)"
    using pack_stream_filled [OF m(2,3) assms(6)] by blast
  note fw = filled_wf [OF m(2,3) len(2), of "st_address st"]
  have size: "pkt_length (sent (filled (st_address st) ?bytes m)) = 25 + unat (so_length ob)"
    using fw(3) len(1) by (simp add: sent_def)
  obtain n k where "rel_inv n k (st_reliability st)"
    using ok by (auto simp: stream_ok_def)
  from rel_step_inv [OF this, of "Sent (25 + unat (so_length ob))"] obtain ref
    where ref: "streamReliabilityPacketSent (st_reliability st) (25 + unat (so_length ob)) = Some ref" "rel_inv (n + 1) k ref"
    by auto
  let ?c = "set_stream config p (st\<lparr>st_reliability := ref\<rparr>)"
  have "streamSend e config p ob = Some (?c\<lparr>sc_socket := Some s3\<rparr>)"
    using assms(2-5) sock m(1) b s2 s3(1,3) ref(1) size
    by (simp add: streamSend_def sending_def net_packet_addr_def filled_def)
  moreover have state: "stream_state leaked s l ?c"
    using ok ref(2) by (intro stream_state_set [OF assms(1,2)]) (auto simp: stream_ok_def)
  have "pk \<notin> set (incoming config s)"
    using incoming_refs [OF assms(1), of pk] refs by auto
  then have "stream_incoming config s3"
    using s3(3) by (intro stream_incoming_frame [OF inv(3) s3(6)]) auto
  then have "stream_incoming ?c s3" "stream_owned ?c = stream_owned config"
    by (simp_all add: set_stream_def)
  then have "stream_state leaked s3 l (?c\<lparr>sc_socket := Some s3\<rparr>)"
    using s3(2) receivers_set_others [OF s3(6)] inv(2) by (intro stream_state_socket [OF state]) simp_all
  ultimately show ?thesis
    using ref(1) s3(3-6) fw(4) refs by (intro exI [of _ ref] exI [of _ s3] exI [of _ "sent (filled (st_address st) ?bytes m)"]) simp
qed

text \<open>Sending changes the reliability state of a stream and the socket, nothing else.\<close>

definition stream_rest :: "Stream \<Rightarrow> Stream" where
  "stream_rest st = st\<lparr>st_reliability := zero_reliability\<rparr>"

definition stream_frame :: "StreamConfiguration \<Rightarrow> StreamConfiguration \<Rightarrow> bool" where
  "stream_frame config config' \<longleftrightarrow>
     config'\<lparr>sc_heap := map_option stream_rest \<circ> sc_heap config', sc_socket := None\<rparr> =
     config\<lparr>sc_heap := map_option stream_rest \<circ> sc_heap config, sc_socket := None\<rparr>"

lemma stream_frame_refl [simp]: "stream_frame config config"
  by (simp add: stream_frame_def)

lemma stream_frame_trans: "stream_frame a b \<Longrightarrow> stream_frame b c \<Longrightarrow> stream_frame a c"
  by (simp add: stream_frame_def)

lemma stream_frame_fields:
  assumes "stream_frame config config'"
  shows "sc_tasks config' = sc_tasks config" "sc_log config' = sc_log config" "sc_active config' = sc_active config"
    "sc_streams config' = sc_streams config" "sc_context config' = sc_context config" "sc_suspended config' = sc_suspended config"
    "map_option stream_rest (sc_heap config' p) = map_option stream_rest (sc_heap config p)"
proof -
  have eq: "f (config'\<lparr>sc_heap := map_option stream_rest \<circ> sc_heap config', sc_socket := None\<rparr>) =
      f (config\<lparr>sc_heap := map_option stream_rest \<circ> sc_heap config, sc_socket := None\<rparr>)" for f :: "StreamConfiguration \<Rightarrow> 'a"
    using assms by (simp add: stream_frame_def)
  show "sc_tasks config' = sc_tasks config" "sc_log config' = sc_log config" "sc_active config' = sc_active config"
    "sc_streams config' = sc_streams config" "sc_context config' = sc_context config" "sc_suspended config' = sc_suspended config"
    "map_option stream_rest (sc_heap config' p) = map_option stream_rest (sc_heap config p)"
    using eq [of sc_tasks] eq [of sc_log] eq [of sc_active] eq [of sc_streams] eq [of sc_context] eq [of sc_suspended]
      eq [of "\<lambda>c. sc_heap c p"] by simp_all
qed

lemma stream_frame_heap:
  assumes "stream_frame config config'" "sc_heap config p = Some st"
  obtains st' where "sc_heap config' p = Some st'" "st_state st' = st_state st" "st_address st' = st_address st" "st_flow st' = st_flow st"
    "st_timeoutAccumulator st' = st_timeoutAccumulator st" "st_updateAccumulator st' = st_updateAccumulator st"
proof -
  obtain st' where st': "sc_heap config' p = Some st'" "stream_rest st' = stream_rest st"
    using stream_frame_fields(7) [OF assms(1), of p] assms(2) by auto
  have "f (stream_rest st') = f (stream_rest st)" for f :: "Stream \<Rightarrow> 'a"
    using st'(2) by simp
  from this [of st_state] this [of st_address] this [of st_flow] this [of st_timeoutAccumulator] this [of st_updateAccumulator]
  show thesis
    by (intro that [OF st'(1)]) (simp_all add: stream_rest_def)
qed

lemma stream_frame_sent:
  assumes "sc_heap config p = Some st"
  shows "stream_frame config ((set_stream config p (st\<lparr>st_reliability := ref\<rparr>))\<lparr>sc_socket := x\<rparr>)"
  using assms by (auto simp: stream_frame_def set_stream_def stream_rest_def fun_eq_iff intro!: StreamConfiguration.equality)

text \<open>What every step keeps of the streams in memory: they stay there with their address, and a timeout is final.\<close>

definition stream_kept :: "StreamConfiguration \<Rightarrow> StreamConfiguration \<Rightarrow> bool" where
  "stream_kept config config' \<longleftrightarrow> (\<forall>p st. sc_heap config p = Some st \<longrightarrow> (\<exists>st'. sc_heap config' p = Some st' \<and>
     st_address st' = st_address st \<and> (st_state st = StreamTimeout \<longrightarrow> st_state st' = StreamTimeout)))"

lemma stream_kept_heap [simp]: "sc_heap config' = sc_heap config \<Longrightarrow> stream_kept config config'"
  by (simp add: stream_kept_def)

lemma stream_kept_trans: "stream_kept a b \<Longrightarrow> stream_kept b c \<Longrightarrow> stream_kept a c"
  unfolding stream_kept_def by metis

lemma stream_kept_set:
  assumes "sc_heap config p = Some st" "st_address st' = st_address st" "st_state st = StreamTimeout \<longrightarrow> st_state st' = StreamTimeout"
    and "sc_heap config' = (sc_heap config)(p \<mapsto> st')"
  shows "stream_kept config config'"
  using assms by (auto simp: stream_kept_def)

lemma stream_kept_tick:
  assumes "stream_state leaked s l config" "stream_frame ((ticked ps config)\<lparr>sc_log := x\<rparr>) config'"
  shows "stream_kept config config'"
  unfolding stream_kept_def
proof (intro allI impI)
  fix p st
  assume st: "sc_heap config p = Some st"
  then have "stream_ok st"
    using assms(1) by (simp add: stream_defs)
  note ok = updated_ok(2,3) [OF this]
  obtain st1 where st1: "sc_heap ((ticked ps config)\<lparr>sc_log := x\<rparr>) p = Some st1" "st_address st1 = st_address st" "st_state st1 = st_state st"
    using st ok by (cases "p \<in> set ps") (simp_all add: ticked_def)
  from stream_frame_heap [OF assms(2) st1(1)] st1(2,3) show
    "\<exists>st'. sc_heap config' p = Some st' \<and> st_address st' = st_address st \<and> (st_state st = StreamTimeout \<longrightarrow> st_state st' = StreamTimeout)"
    by metis
qed

lemma streamSend_step:
  assumes "stream_state leaked s l config" "sc_heap config p = Some st" "so_wf ob"
  shows "\<exists>s' config'. streamSend e config p ob = Some config' \<and> stream_state leaked s' l config' \<and> stream_frame config config'"
proof -
  have inv: "socket_inv (\<lambda>p. stream_owned config p + count_list leaked p) s"
    using assms(1) by (simp add: stream_state_def sys_inv_stream)
  consider "\<not> sending st \<or> net_packet_alloc s = Some (NULL, s)" | pk s1 where "sending st" "net_packet_alloc s = Some (pk, s1)" "pk \<noteq> NULL"
    using inv by (cases rule: socket.alloc_cases) auto
  then show ?thesis
  proof cases
    case 1
    with assms streamSend_idle [OF assms(1,2) 1] show ?thesis
      by (intro exI [of _ s] exI [of _ config]) simp
  next
    case 2
    then show ?thesis
      using streamSend_sends [OF assms(1,2) 2 assms(3), of e] stream_frame_sent [OF assms(2)] by blast
  qed
qed

text \<open>The whole timer callback.\<close>

definition env_object_ok :: "stream_env \<Rightarrow> bool" where
  "env_object_ok env \<longleftrightarrow> length (so_data (se_object env)) = kStreamObjectDataMaxLength \<and>
     so_wf (se_update env (streamObjectSetup (se_object env)))"

lemma send_all_step:
  assumes "stream_state leaked s l config" "so_wf ob"
  shows "\<exists>config' s'. list_iterate l (\<lambda>object config. streamSend e config object ob) config = Some config' \<and>
    stream_state leaked s' l config' \<and> stream_frame config config'"
proof -
  have "list_inv l"
    using assms(1) by (simp add: stream_state_def)
  from list_iterate_inv [OF this, of "\<lambda>c. (\<exists>s'. stream_state leaked s' l c) \<and> stream_frame config c"] show ?thesis
  proof
    show "(\<exists>s'. stream_state leaked s' l config) \<and> stream_frame config config"
      using assms(1) by auto
    fix p c
    assume "p \<in> set (list_objects l)" and c: "(\<exists>s'. stream_state leaked s' l c) \<and> stream_frame config c"
    then obtain s' st where "stream_state leaked s' l c" "sc_heap c p = Some st"
      using stream_listed(2) by blast
    from streamSend_step [OF this assms(2), of e] c
    show "\<exists>c'. streamSend e c p ob = Some c' \<and> (\<exists>s'. stream_state leaked s' l c') \<and> stream_frame config c'"
      using stream_frame_trans by blast
  qed blast
qed

definition sync_update :: "list_s \<Rightarrow> StreamConfiguration \<Rightarrow> bool" where
  "sync_update l config \<longleftrightarrow> (\<forall>p \<in> set (list_objects l). wants_update (the (sc_heap config p)))"

lemma timer_waits:
  assumes "stream_state leaked s l config" "\<not> sync_update l config"
  shows "streamTimerCallback env config = Some (ticked (list_objects l) config)"
    "stream_state leaked s l (ticked (list_objects l) config)"
proof -
  have "\<not> list_is_empty l" "sc_streams config = Some l"
    using assms list_is_empty_objects [of l] by (auto simp: stream_state_def sync_update_def)
  with assms(2) update_all [OF assms(1)] show "streamTimerCallback env config = Some (ticked (list_objects l) config)"
    "stream_state leaked s l (ticked (list_objects l) config)"
    by (auto simp: streamTimerCallback_def sync_update_def)
qed

lemma timer_sends:
  assumes "stream_state leaked s l config" "sync_update l config" "list_objects l \<noteq> []"
  defines "config1 \<equiv> (ticked (list_objects l) config)\<lparr>sc_log := sc_log config @ [UpdateCalled (sc_context config)]\<rparr>"
  shows "streamTimerCallback env config =
      list_iterate l (\<lambda>object config. streamSend (se_endian env) config object (se_update env (streamObjectSetup (se_object env)))) config1"
    and "stream_state leaked s l config1"
proof -
  have ne: "\<not> list_is_empty l" "sc_streams config = Some l"
    using assms(1,3) list_is_empty_objects [of l] by (simp_all add: stream_state_def)
  let ?c = "ticked (list_objects l) config"
  note upd = update_all [OF assms(1)]
  have "sc_updateCallback ?c \<noteq> NULL"
    using upd(2) by (simp add: stream_state_def stream_callbacks_def)
  from stream_state_called [OF upd(2) this, of "UpdateCalled (sc_context ?c)"]
  have called: "stream_called ?c (sc_updateCallback ?c) (UpdateCalled (sc_context ?c)) = Some config1" "stream_state leaked s l config1"
    by (simp_all add: config1_def) (simp_all add: ticked_def)
  then show "stream_state leaked s l config1"
    by simp
  show "streamTimerCallback env config =
      list_iterate l (\<lambda>object config. streamSend (se_endian env) config object (se_update env (streamObjectSetup (se_object env)))) config1"
    using upd(1) called(1) ne assms(2) by (simp add: streamTimerCallback_def sync_update_def)
qed

lemma timer_step:
  assumes "stream_state leaked s l config" "env_object_ok env"
  shows "\<exists>config' s'. streamTimerCallback env config = Some config' \<and> stream_state leaked s' l config' \<and>
    stream_frame ((ticked (list_objects l) config)\<lparr>sc_log := sc_log config @
      (if sync_update l config \<and> list_objects l \<noteq> [] then [UpdateCalled (sc_context config)] else [])\<rparr>) config'"
proof (cases "sync_update l config \<and> list_objects l \<noteq> []")
  case True
  have "so_wf (se_update env (streamObjectSetup (se_object env)))"
    using assms(2) by (simp add: env_object_ok_def)
  from send_all_step [OF timer_sends(2) [OF assms(1)] this, of "se_endian env"] timer_sends(1) [OF assms(1), of env] True
  show ?thesis
    by auto
next
  case False
  have log: "(ticked (list_objects l) config)\<lparr>sc_log := sc_log config\<rparr> = ticked (list_objects l) config"
    by (simp add: ticked_def)
  show ?thesis
  proof (cases "list_objects l = []")
    case True
    then have "ticked (list_objects l) config = config"
      by (simp add: ticked_def)
    moreover have "streamTimerCallback env config = Some config"
      using assms(1) True list_is_empty_objects [of l] by (simp add: streamTimerCallback_def stream_state_def)
    ultimately show ?thesis
      using assms(1) True by auto
  next
    case False
    with \<open>\<not> (sync_update l config \<and> list_objects l \<noteq> [])\<close> timer_waits [OF assms(1)] show ?thesis
      using log by auto
  qed
qed

text \<open>A packet in the hands of the block that has been taken off the queue counts with the leaked ones.\<close>

lemma pop_receive:
  assumes "stream_state leaked s l config" "sc_tasks config = ReceiveTask packet # rest"
  shows "stream_state (packet # leaked) s l (config\<lparr>sc_tasks := rest\<rparr>)" "packet \<notin> set (incoming (config\<lparr>sc_tasks := rest\<rparr>) s)"
    "\<exists>m. sk_mem s packet = Some m \<and> pkt_wf m \<and> bs_offset (pkt_bitstream m) = 0"
proof -
  let ?c = "config\<lparr>sc_tasks := rest\<rparr>"
  have rp: "receive_packets config = packet # receive_packets ?c"
    using assms(2) by (simp add: receive_packets_def)
  have inc: "stream_incoming config s" and inv: "socket_inv (\<lambda>p. stream_owned config p + count_list leaked p) s"
    using assms(1) by (simp_all add: stream_state_def sys_inv_stream)
  have own: "(\<lambda>p. stream_owned config p + count_list leaked p) = (\<lambda>p. stream_owned ?c p + count_list (packet # leaked) p)"
    by (simp add: stream_owned_def rp fun_eq_iff)
  have "stream_incoming ?c s" "packet \<in> set (incoming config s)"
    using inc by (simp_all add: stream_incoming_def incoming_def rp)
  then show "stream_state (packet # leaked) s l ?c"
    using assms own by (auto simp: stream_defs sys_inv_stream)
  show "packet \<notin> set (incoming ?c s)"
    using inc by (simp add: stream_incoming_def incoming_def rp)
  obtain m where "sk_mem s packet = Some m" "bs_offset (pkt_bitstream m) = 0"
    using inc \<open>packet \<in> set (incoming config s)\<close> by (auto simp: stream_incoming_def)
  moreover have "0 < sk_refs s packet"
    using incoming_refs [OF assms(1) \<open>packet \<in> set (incoming config s)\<close>] .
  then obtain m' where "sk_mem s packet = Some m'" "pkt_wf m'"
    by (rule socket_inv_mem [OF inv])
  ultimately show "\<exists>m. sk_mem s packet = Some m \<and> pkt_wf m \<and> bs_offset (pkt_bitstream m) = 0"
    by auto
qed

lemma store_in_hand:
  assumes "stream_state (packet # leaked) s l config" "packet \<notin> set (incoming config s)" "sk_mem s packet = Some m"
    and "pkt_wf m'" "pkt_length m' = pkt_length m"
  shows "stream_state (packet # leaked) (net_packet_store s packet m') l (config\<lparr>sc_socket := Some (net_packet_store s packet m')\<rparr>)"
    "packet \<notin> set (incoming config (net_packet_store s packet m'))"
proof -
  have inv: "socket_inv (\<lambda>p. stream_owned config p + count_list (packet # leaked) p) s" "receivers_set s" "stream_incoming config s"
    using assms(1) by (simp_all add: stream_state_def sys_inv_stream)
  have put: "socket_inv (\<lambda>p. stream_owned config p + count_list (packet # leaked) p) (net_packet_store s packet m')"
      "sk_others (net_packet_store s packet m') = sk_others s"
    using socket.put_law [OF inv(1) _ assms(3-5)] by simp_all
  have "stream_incoming config (net_packet_store s packet m')"
    using assms(2) by (intro stream_incoming_frame [OF inv(3) put(2)]) auto
  with put receivers_set_others [OF put(2)] inv(2)
  show "stream_state (packet # leaked) (net_packet_store s packet m') l (config\<lparr>sc_socket := Some (net_packet_store s packet m')\<rparr>)"
    by (intro stream_state_socket [OF assms(1)]) simp_all
  show "packet \<notin> set (incoming config (net_packet_store s packet m'))"
    using assms(2) put(2) by (simp add: incoming_def sk_others_def)
qed

lemma release_in_hand:
  assumes "stream_state (packet # leaked) s l config"
  shows "\<exists>s'. net_packet_release s packet = Some s' \<and> stream_state leaked s' l (config\<lparr>sc_socket := Some s'\<rparr>) \<and>
    sk_refs s' = (sk_refs s)(packet := sk_refs s packet - 1) \<and> sk_others s' = sk_others s \<and> sk_mem s' = sk_mem s \<and> sk_tasks s' = sk_tasks s"
proof -
  let ?own = "\<lambda>p. stream_owned config p + count_list (packet # leaked) p"
  have inv: "socket_inv ?own s" "receivers_set s" "stream_incoming config s"
    using assms(1) by (simp_all add: stream_state_def sys_inv_stream)
  obtain s' where s': "net_packet_release s packet = Some s'" "socket_inv (?own(packet := ?own packet - 1)) s'"
      "sk_refs s' = (sk_refs s)(packet := sk_refs s packet - 1)" "sk_tasks s' = sk_tasks s" "sk_others s' = sk_others s" "sk_mem s' = sk_mem s"
    using socket.release_law [OF inv(1), of packet] by auto
  have "?own(packet := ?own packet - 1) = (\<lambda>p. stream_owned config p + count_list leaked p)"
    by (auto simp: fun_eq_iff)
  moreover have "stream_incoming config s'"
    using s'(6) by (intro stream_incoming_frame [OF inv(3) s'(5)]) simp
  moreover have "stream_state leaked s' l (config\<lparr>sc_socket := Some s'\<rparr>)"
    if "socket_inv (\<lambda>p. stream_owned config p + count_list leaked p) s'" "stream_incoming config s'"
    using that assms receivers_set_others [OF s'(5)] inv(2) by (simp add: stream_defs sys_inv_stream)
  ultimately show ?thesis
    using s' by auto
qed

text \<open>The header and the data of a full packet are unpacked whatever its bytes are.\<close>

lemma streamProtocolUnpackHeader_total:
  assumes "length (bs_data b) = 256" "bs_bound b = 256" "bs_offset b = 0"
  shows "\<exists>r sq ack bits k. streamProtocolUnpackHeader e b 0 0 0 = Some (r, sq, ack, bits, bs_adv b k) \<and> k \<le> 15 \<and>
    (r = UnpackValid \<longrightarrow> k = 15)"
proof -
  have wf: "bs_wf (bs_adv b k)" if "k \<le> 256" for k
    using assms that by (simp add: bs_wf_def)
  have room: "bs_room (bs_adv b k) n" if "k + n \<le> 256" for k n
    using assms that by (simp add: bs_room_def)
  let ?h = "protocolUnpackHeader b kProtocolDefaultId kProtocolDefaultVersion ProtocolTypeStream"
  have "?h = Some (UnpackInvalid, bs_adv b 1) \<or> ?h = Some (UnpackInvalid, bs_adv b 2) \<or> ?h = Some (UnpackInvalid, bs_adv b 3) \<or>
      ?h = Some (UnpackValid, bs_adv b 3)"
    using protocolUnpackHeader_exact [of b kProtocolDefaultId kProtocolDefaultVersion ProtocolTypeStream] wf [of 0] room [of 0 3]
    by (simp add: Let_def split: if_splits)
  then obtain r k where h: "?h = Some (r, bs_adv b k)" "k \<le> 3" "r = UnpackValid \<longrightarrow> k = 3"
    by (elim disjE) simp_all
  show ?thesis
  proof (cases "r = UnpackValid")
    case False
    with h show ?thesis
      by (intro exI [of _ UnpackInvalid]) (auto simp: streamProtocolUnpackHeader_def)
  next
    case True
    obtain sq ack bits where "bitstream_read_uint32 e (bs_adv b 3) = Some (sq, bs_adv b 7)"
        "bitstream_read_uint32 e (bs_adv b 7) = Some (ack, bs_adv b 11)" "bitstream_read_uint32 e (bs_adv b 11) = Some (bits, bs_adv b 15)"
      using read_uint_room(2) [OF wf [of 3] room [of 3 4], of e] read_uint_room(2) [OF wf [of 7] room [of 7 4], of e]
        read_uint_room(2) [OF wf [of 11] room [of 11 4], of e]
      by (auto simp: bs_adv_adv)
    with h True show ?thesis
      by (intro exI [of _ UnpackValid] exI [of _ sq] exI [of _ ack] exI [of _ bits] exI [of _ 15]) (simp add: streamProtocolUnpackHeader_def)
  qed
qed

lemma pkt_wf_advance: "pkt_wf m \<Longrightarrow> b = bs_adv (pkt_bitstream m) k \<Longrightarrow> bs_offset b \<le> 256 \<Longrightarrow> pkt_wf (m\<lparr>pkt_bitstream := b\<rparr>)"
  by (simp add: pkt_wf_def pkt_block_def)

text \<open>A packet for a known stream; one whose acknowledgement lies ahead of what was sent is ignored.\<close>

lemma streamReceive_step:
  assumes "stream_state leaked s l config" "sc_heap config p = Some st"
  shows "\<exists>ref config'. streamReceive config p sq ack bits ob = Some config' \<and> stream_state leaked s l config' \<and>
    receive_packets config' = receive_packets config \<and> stream_kept config config' \<and>
    (if ack \<le> sr_sequence (st_reliability st)
     then streamReliabilityPacketReceived (st_reliability st) sq ack bits = Some ref \<and>
       config' = (set_stream config p (st\<lparr>st_timeoutAccumulator := 0, st_reliability := ref\<rparr>))
         \<lparr>sc_log := sc_log config @ [ReceiveCalled (sc_context config) (st_address st) ob]\<rparr>
     else config' = config)"
proof (cases "ack \<le> sr_sequence (st_reliability st)")
  case False
  with assms show ?thesis
    by (intro exI conjI) (auto simp: streamReceive_def)
next
  case True
  have ok: "stream_ok st"
    using assms by (simp add: stream_defs)
  then obtain n k where rel: "rel_inv n k (st_reliability st)"
    by (auto simp: stream_ok_def)
  have "unat ack < 0x10000"
    using True rel by (simp add: rel_inv_def rel_wf_def word_le_nat_alt)
  then obtain ref where ref: "streamReliabilityPacketReceived (st_reliability st) sq ack bits = Some ref" "rel_inv n (k + 1) ref"
    using rel_step_inv [OF rel, of "Received sq ack bits"] by auto
  let ?c = "set_stream config p (st\<lparr>st_timeoutAccumulator := 0, st_reliability := ref\<rparr>)"
  have state: "stream_state leaked s l ?c"
    using ok ref(2) by (intro stream_state_set [OF assms]) (auto simp: stream_ok_def)
  have cb: "sc_receiveCallback ?c \<noteq> NULL"
    using state by (simp add: stream_state_def stream_callbacks_def)
  let ?c' = "?c\<lparr>sc_log := sc_log config @ [ReceiveCalled (sc_context config) (st_address st) ob]\<rparr>"
  have "streamReceive config p sq ack bits ob = Some ?c'"
    using assms(2) True ref(1) cb by (simp add: streamReceive_def stream_called_def set_stream_def)
  moreover have "stream_state leaked s l ?c'"
    using stream_state_called(2) [OF state cb] by (simp add: set_stream_def)
  moreover have "stream_kept config ?c'"
    by (rule stream_kept_set [OF assms(2)]) (simp_all add: set_stream_def)
  ultimately show ?thesis
    using True ref(1) by (intro exI [of _ ref] exI [of _ ?c']) (simp add: set_stream_def)
qed

text \<open>The block that handles a received packet.\<close>

definition packet_at :: "net_packet_s \<Rightarrow> nat \<Rightarrow> net_packet_s" where
  "packet_at m k = m\<lparr>pkt_bitstream := bs_adv (pkt_bitstream m) k\<rparr>"

lemma packet_at_wf:
  assumes "pkt_wf m" "bs_offset (pkt_bitstream m) + k \<le> 256"
  shows "pkt_wf (packet_at m k)" "pkt_length (packet_at m k) = pkt_length m"
  using assms by (simp_all add: packet_at_def pkt_wf_def pkt_block_def)

lemma pkt_wf_bytes: "pkt_wf m \<Longrightarrow> length (bs_data (pkt_bitstream m)) = 256 \<and> bs_bound (pkt_bitstream m) = 256"
  by (simp add: pkt_wf_def pkt_block_def)

text \<open>What the block has done before it releases the packet.\<close>

definition before_release ::
    "stream_env \<Rightarrow> net_socket_s \<Rightarrow> list_s \<Rightarrow> StreamConfiguration \<Rightarrow> ptr \<Rightarrow> net_packet_s \<Rightarrow> nat \<Rightarrow>
     UnpackResult \<Rightarrow> Sequence \<Rightarrow> Ack \<Rightarrow> AckBitField \<Rightarrow> StreamConfiguration option" where
  "before_release env s l config packet m k r sq ack bits =
     (if r = UnpackValid
      then do {
        stream \<leftarrow> list_find l (stream_at config (pkt_addr m));
        if stream \<noteq> NULL
        then do {
          (_, ob, b) \<leftarrow> streamProtocolUnpackData (se_endian env) (bs_adv (pkt_bitstream m) k) (streamObjectSetup (se_object env));
          streamReceive (config\<lparr>sc_socket := Some (net_packet_store s packet (m\<lparr>pkt_bitstream := b\<rparr>))\<rparr>) stream sq ack bits ob
        }
        else Some (streamAdd (config\<lparr>sc_socket := Some (net_packet_store s packet (packet_at m k))\<rparr>) (pkt_addr m))
      }
      else Some (config\<lparr>sc_socket := Some (net_packet_store s packet (packet_at m k))\<rparr>))"

lemma run_receive_unfold:
  assumes "stream_state (packet # leaked) s l config" "sk_mem s packet = Some m"
    and "streamProtocolUnpackHeader (se_endian env) (pkt_bitstream m) 0 0 0 = Some (r, sq, ack, bits, bs_adv (pkt_bitstream m) k)"
  shows "run_receive env config packet = do {
     config \<leftarrow> before_release env s l config packet m k r sq ack bits;
     s \<leftarrow> sc_socket config;
     s \<leftarrow> net_packet_release s packet;
     Some (config\<lparr>sc_socket := Some s\<rparr>)
   }"
proof -
  have "sc_socket config = Some s" "sc_streams config = Some l"
    using assms(1) by (simp_all add: stream_state_def)
  moreover have "stream_at (config\<lparr>sc_socket := x\<rparr>) = stream_at config" for x
    by (simp add: stream_at_def fun_eq_iff)
  ultimately show ?thesis
    using assms(2,3) by (simp add: run_receive_def before_release_def packet_at_def Let_def cong: if_cong)
qed

lemma run_receive_step:
  assumes "stream_state (packet # leaked) s l config" "packet \<notin> set (incoming config s)"
    and "sk_mem s packet = Some m" "pkt_wf m" "bs_offset (pkt_bitstream m) = 0"
    and "length (so_data (se_object env)) = kStreamObjectDataMaxLength"
  shows "\<exists>s' config'. run_receive env config packet = Some config' \<and> stream_state leaked s' l config' \<and> stream_kept config config'"
proof -
  let ?s = "\<lambda>m. net_packet_store s packet m" and ?c = "\<lambda>m. config\<lparr>sc_socket := Some (net_packet_store s packet m)\<rparr>"
  obtain r sq ack bits k where h: "streamProtocolUnpackHeader (se_endian env) (pkt_bitstream m) 0 0 0 =
      Some (r, sq, ack, bits, bs_adv (pkt_bitstream m) k)" "k \<le> 15" "r = UnpackValid \<longrightarrow> k = 15"
    using streamProtocolUnpackHeader_total [of "pkt_bitstream m" "se_endian env"] pkt_wf_bytes [OF assms(4)] assms(5) by auto
  have put: "stream_state (packet # leaked) (?s (packet_at m j)) l (?c (packet_at m j))" if "j \<le> 256" for j
    using store_in_hand(1) [OF assms(1-3) packet_at_wf [OF assms(4)]] assms(5) that by simp
  have "\<exists>s2 config2. before_release env s l config packet m k r sq ack bits = Some config2 \<and>
      stream_state (packet # leaked) s2 l config2 \<and> stream_kept config config2"
  proof (cases "r = UnpackValid")
    case False
    with put [of k] h(2) show ?thesis
      by (auto simp: before_release_def)
  next
    case True
    obtain ob b n where ob: "streamProtocolUnpackData (se_endian env) (bs_adv (pkt_bitstream m) 15) (streamObjectSetup (se_object env)) =
        Some (UnpackValid, ob, b)" "bs_wf b" "b = bs_adv (bs_adv (pkt_bitstream m) 15) n"
      using streamProtocolUnpackData_total [of "bs_adv (pkt_bitstream m) 15" "streamObjectSetup (se_object env)" "se_endian env"]
        pkt_wf_bytes [OF assms(4)] assms(5,6) by (auto simp: streamObjectSetup_def)
    have b: "m\<lparr>pkt_bitstream := b\<rparr> = packet_at m (15 + n)" "15 + n \<le> 256"
      using ob(2,3) pkt_wf_bytes [OF assms(4)] assms(5) by (simp_all add: packet_at_def bs_adv_adv bs_wf_def)
    from assms(1) show ?thesis
    proof (cases rule: stream_find_cases [where a = "pkt_addr m"])
      case absent
      have "stream_state (packet # leaked) (?s (packet_at m k)) l (streamAdd (?c (packet_at m k)) (pkt_addr m))"
        unfolding streamAdd_def Let_def using put [of k] h(2) by (intro stream_state_dispatch) simp_all
      moreover have "stream_kept config (streamAdd (?c (packet_at m k)) (pkt_addr m))"
        by (intro stream_kept_heap) (simp add: streamAdd_def stream_dispatch_def)
      ultimately show ?thesis
        using True absent by (auto simp: before_release_def)
    next
      case (present p st)
      then obtain config2 where "streamReceive (?c (packet_at m (15 + n))) p sq ack bits ob = Some config2"
          "stream_state (packet # leaked) (?s (packet_at m (15 + n))) l config2" "stream_kept (?c (packet_at m (15 + n))) config2"
        using streamReceive_step [OF put [OF b(2)], of p st sq ack bits ob] by auto
      moreover from this(3) have "stream_kept config config2"
        by (simp add: stream_kept_def)
      ultimately show ?thesis
        using True present(1,2) ob(1) b(1) h(3) by (auto simp: before_release_def)
    qed
  qed
  then obtain s2 config2 where inner: "before_release env s l config packet m k r sq ack bits = Some config2"
      "stream_state (packet # leaked) s2 l config2" "stream_kept config config2"
    by blast
  obtain s' where "net_packet_release s2 packet = Some s'" "stream_state leaked s' l (config2\<lparr>sc_socket := Some s'\<rparr>)"
    using release_in_hand [OF inner(2)] by blast
  moreover have "stream_kept config (config2\<lparr>sc_socket := Some s'\<rparr>)"
    using inner(3) by (simp add: stream_kept_def)
  moreover have "sc_socket config2 = Some s2"
    using inner(2) by (simp add: stream_state_def)
  ultimately show ?thesis
    unfolding run_receive_unfold [OF assms(1,3) h(1)] inner(1) by auto
qed

end
