(* ===== verification/Stream_Runs.thy ===== *)
theory Stream_Runs
  imports Streams "HOL-Library.Multiset"
begin

text \<open>
  Runs of a stream configuration: the calls of the application, the blocks of the serial queue, the
  timer and the events of the socket in any order. \<open>stream_reach\<close> relates a configuration after its
  setup to the states it can reach; the invariant of \<open>Streams\<close> is proved by rule induction. The
  theory ends with what holds of whole runs: safety, the set of peers, timeouts, the way of the data
  from one configuration to another, and two streams that block each other.
\<close>

section \<open>Definitions\<close>

text \<open>A state: the configuration and the packets the read handler has leaked.\<close>

type_synonym stream_world = "StreamConfiguration \<times> ptr list"

datatype stream_event =
    PeerAdd net_addr_t
  | PeerRemove net_addr_t
  | Suspend
  | Resume
  | QueueRuns stream_env
  | TimerFires stream_env
  | SocketTask ptr
  | SocketWritable
  | SocketReadable recv_result
  | SocketDelivers delivery

definition on_sys :: "socket_event \<Rightarrow> stream_world \<Rightarrow> stream_world option" where
  "on_sys ev w = do {
     s \<leftarrow> sc_socket (fst w);
     v \<leftarrow> socket_exec ev (stream_sys (fst w) s (snd w));
     Some ((fst w)\<lparr>sc_socket := Some (sys_socket v)\<rparr>, sys_leaked v)
   }"

fun stream_exec :: "stream_event \<Rightarrow> stream_world \<Rightarrow> stream_world option" where
  "stream_exec (PeerAdd a) w = Some (streamAdd (fst w) a, snd w)"
| "stream_exec (PeerRemove a) w = Some (streamRemove (fst w) a, snd w)"
| "stream_exec Suspend w = do { config \<leftarrow> streamSuspend (fst w); Some (config, snd w) }"
| "stream_exec Resume w = do { config \<leftarrow> streamResume (fst w); Some (config, snd w) }"
| "stream_exec (QueueRuns env) w = do { config \<leftarrow> run_stream_task env (fst w); Some (config, snd w) }"
| "stream_exec (TimerFires env) w = do { config \<leftarrow> streamTimerCallback env (fst w); Some (config, snd w) }"
| "stream_exec (SocketTask malloc) w = on_sys (EvTask malloc) w"
| "stream_exec SocketWritable w = on_sys EvWritable w"
| "stream_exec (SocketReadable r) w = on_sys (EvReadable r) w"
| "stream_exec (SocketDelivers d) w = do {
     s \<leftarrow> sc_socket (fst w);
     ((f, ctx, packet), s) \<leftarrow> run_delivery d s;
     if f \<noteq> stream_receive_fn then None
     else Some (streamSocketReceiveCallback ((fst w)\<lparr>sc_socket := Some s\<rparr>) packet, snd w) }"

text \<open>
  What is granted: memory for a new stream and room in its list when a peer is added, an update
  callback that stays within its object, and what the socket needs. The timer fires only while it is
  not suspended.
\<close>

fun task_granted :: "stream_env \<Rightarrow> StreamConfiguration \<Rightarrow> stream_task \<Rightarrow> bool" where
  "task_granted env config (AddTask a) \<longleftrightarrow> se_malloc env \<noteq> NULL \<and> sc_heap config (se_malloc env) = None \<and> se_realloc env \<and>
     (case sc_streams config of None \<Rightarrow> True | Some l \<Rightarrow> unat (l_capacity l) + 10 < 2 ^ 31)"
| "task_granted env config (ReceiveTask p) \<longleftrightarrow> length (so_data (se_object env)) = kStreamObjectDataMaxLength"
| "task_granted env config _ \<longleftrightarrow> True"

definition socket_grants :: "socket_event \<Rightarrow> stream_world \<Rightarrow> bool" where
  "socket_grants ev w \<longleftrightarrow> (case sc_socket (fst w) of None \<Rightarrow> True | Some s \<Rightarrow> socket_enabled ev (stream_sys (fst w) s (snd w)))"

fun stream_enabled :: "stream_event \<Rightarrow> stream_world \<Rightarrow> bool" where
  "stream_enabled (QueueRuns env) w \<longleftrightarrow> (case sc_tasks (fst w) of [] \<Rightarrow> False | t # _ \<Rightarrow> task_granted env (fst w) t)"
| "stream_enabled (TimerFires env) w \<longleftrightarrow> sc_suspended (fst w) = 0 \<and> env_object_ok env"
| "stream_enabled (SocketTask malloc) w \<longleftrightarrow> socket_grants (EvTask malloc) w"
| "stream_enabled SocketWritable w \<longleftrightarrow> socket_grants EvWritable w"
| "stream_enabled (SocketReadable r) w \<longleftrightarrow> True"
| "stream_enabled (SocketDelivers d) w \<longleftrightarrow> socket_grants (EvDeliver d) w"
| "stream_enabled _ w \<longleftrightarrow> True"

inductive stream_reach :: "stream_world \<Rightarrow> stream_world \<Rightarrow> bool" for w0 where
  start: "stream_reach w0 w0"
| step: "stream_reach w0 w \<Longrightarrow> stream_enabled ev w \<Longrightarrow> stream_exec ev w = Some w' \<Longrightarrow> stream_reach w0 w'"

definition stream_inv :: "stream_world \<Rightarrow> bool" where
  "stream_inv w \<longleftrightarrow> (\<exists>s l. stream_state (snd w) s l (fst w))"

section \<open>The invariant of runs\<close>

lemma stream_invI:
  "stream_state leaked s l config \<Longrightarrow> stream_inv (config, leaked)"
  by (auto simp: stream_inv_def)

lemma suspend_step:
  assumes "stream_state leaked s l config"
  shows "\<exists>config'. streamSuspend config = Some config' \<and> stream_state leaked s l config'"
proof (cases "sc_active config")
  case True
  let ?c = "config\<lparr>sc_suspended := 1, sc_active := False, sc_log := sc_log config @ [SuspendCalled (sc_context config)]\<rparr>"
  have "streamSuspend config = Some ?c"
    using assms True by (simp add: streamSuspend_def stream_called_def stream_defs)
  moreover have "stream_state leaked s l ?c"
    using assms by (simp add: stream_defs sys_inv_stream)
  ultimately show ?thesis
    by blast
qed (use assms in \<open>auto simp: streamSuspend_def\<close>)

lemma resume_step:
  assumes "stream_state leaked s l config"
  shows "\<exists>config'. streamResume config = Some config' \<and> stream_state leaked s l config'"
proof (cases "sc_active config \<or> list_is_empty l")
  case False
  let ?c = "config\<lparr>sc_active := True, sc_suspended := 0\<rparr>"
  have "list_objects l \<noteq> []"
    using False assms list_is_empty_objects [of l] by (simp add: stream_state_def)
  moreover have "streamResume config = Some ?c"
    using assms False by (simp add: streamResume_def stream_defs)
  ultimately show ?thesis
    using assms by (intro exI [of _ ?c]) (simp add: stream_defs sys_inv_stream)
qed (use assms in \<open>auto simp: streamResume_def stream_state_def\<close>)

lemma pop_task:
  assumes "stream_state leaked s l config" "sc_tasks config = t # rest" "task_packets t = []"
  shows "stream_state leaked s l (config\<lparr>sc_tasks := rest\<rparr>)"
  using assms by (intro stream_state_tasks) (auto simp: receive_packets_def stream_defs)

lemma task_step:
  assumes "stream_state leaked s l config" "sc_tasks config = t # rest" "task_granted env config t"
  shows "\<exists>config' s' l'. run_stream_task env config = Some config' \<and> stream_state leaked s' l' config' \<and> stream_kept config config'"
proof -
  let ?c = "config\<lparr>sc_tasks := rest\<rparr>"
  have kept: "stream_kept config config'" if "stream_kept ?c config'" for config'
    using that by (simp add: stream_kept_def)
  have pop: "stream_state leaked s l ?c" if "task_packets t = []"
    using pop_task [OF assms(1,2) that] .
  show ?thesis
  proof (cases t)
    case (AddTask a)
    have "list_room 1 l"
      using assms AddTask by (simp add: list_room_def stream_state_def)
    with run_add_step [OF pop, of env 0 a] AddTask assms(2,3) obtain l' config' where
      add: "run_add env ?c a = Some config'" "stream_state leaked s l' config'" "\<forall>q. q \<noteq> se_malloc env \<longrightarrow> sc_heap config' q = sc_heap ?c q"
      by auto
    moreover have "stream_kept config config'"
      using add(3) assms(3) AddTask by (auto simp: stream_kept_def) (metis option.distinct(1))
    ultimately show ?thesis
      using AddTask assms(2) by (auto simp: run_stream_task_def)
  next
    case (RemoveTask a)
    with run_remove_step [OF pop, of a] assms(2) show ?thesis
      by (fastforce simp: run_stream_task_def)
  next
    case (TimeoutTask p)
    then obtain st where "sc_heap ?c p = Some st"
      using assms(1,2) by (auto simp: stream_defs)
    from run_timeout_step [OF pop this] stream_kept_set [OF this, of "st\<lparr>st_state := StreamTimeout\<rparr>"] show ?thesis
      using TimeoutTask assms(2) by (auto simp: run_stream_task_def set_stream_def intro: kept)
  next
    case (ReceiveTask packet)
    note taken = pop_receive [OF assms(1), of packet rest]
    obtain m where m: "sk_mem s packet = Some m" "pkt_wf m" "bs_offset (pkt_bitstream m) = 0"
      using taken(3) assms(2) ReceiveTask by auto
    have "\<exists>s' config'. run_receive env ?c packet = Some config' \<and> stream_state leaked s' l config' \<and> stream_kept ?c config'"
      using taken(1,2) assms(2,3) ReceiveTask m by (intro run_receive_step [of _ _ s]) simp_all
    then show ?thesis
      using assms(2) ReceiveTask kept by (auto simp: run_stream_task_def)
  qed
qed

text \<open>The events of the socket leave the packets that wait for a block alone, or add one.\<close>

lemma stream_socket_frame:
  assumes "stream_state leaked s l config" "sys_inv (stream_sys config s' leaked')" "sk_receivers s' = sk_receivers s"
    and "sk_deliveries s' = sk_deliveries s" "\<And>p. p \<in> set (incoming config s) \<Longrightarrow> sk_mem s' p = sk_mem s p"
  shows "stream_state leaked' s' l (config\<lparr>sc_socket := Some s'\<rparr>)"
proof -
  have "stream_incoming config s'"
    using assms(1,3-5) by (simp add: stream_state_def stream_incoming_def incoming_def sk_receivers_def)
  with assms(1,2) show ?thesis
    by (simp add: stream_defs sys_inv_stream)
qed

lemma socket_run_step:
  assumes "stream_state leaked s l config" "ev = EvWritable \<or> ev = EvTask malloc" "socket_enabled ev (stream_sys config s leaked)"
  shows "\<exists>config' s'. on_sys ev (config, leaked) = Some (config', leaked) \<and> stream_state leaked s' l config'"
proof -
  have sys: "sys_inv (stream_sys config s leaked)" "sc_socket config = Some s"
    using assms(1) by (simp_all add: stream_state_def)
  have inv: "socket_inv (\<lambda>p. stream_owned config p + count_list leaked p) s"
    using sys(1) by (simp add: sys_inv_stream)
  obtain w where w: "socket_exec ev (stream_sys config s leaked) = Some w" "sys_inv w"
    using socket_step_inv [OF sys(1) assms(3)] by blast
  have same: "w = stream_sys config (sys_socket w) leaked"
    using w(1) assms(2) by (auto simp: stream_sys_def Option.bind_eq_Some_conv)
  have "sk_receivers (sys_socket w) = sk_receivers s \<and> sk_deliveries (sys_socket w) = sk_deliveries s \<and> sk_mem (sys_socket w) = sk_mem s"
    using assms(2)
  proof
    assume ev: "ev = EvWritable"
    then have "write_handler s = Some (sys_socket w)"
      using w(1) by (auto simp: stream_sys_def Option.bind_eq_Some_conv)
    with write_handler_inv [OF inv] socket_ops_receivers(3) show ?thesis
      by auto
  next
    assume ev: "ev = EvTask malloc"
    then have run: "run_socket_task malloc s = Some (sys_socket w)"
      using w(1) by (auto simp: stream_sys_def Option.bind_eq_Some_conv)
    obtain p rest where "sk_tasks s = p # rest"
      using assms(3) ev by (cases "sk_tasks s") (auto simp: stream_sys_def)
    with run run_socket_task_inv [OF inv this, of malloc] assms(3) ev socket_ops_receivers(2) [OF run] show ?thesis
      by (auto simp: stream_sys_def split: option.splits)
  qed
  then have "stream_state leaked (sys_socket w) l (config\<lparr>sc_socket := Some (sys_socket w)\<rparr>)"
    using w(2) same by (intro stream_socket_frame [OF assms(1)]) auto
  moreover have "sys_leaked w = leaked"
    using same by (metis socket_sys.select_convs(3) stream_sys_def)
  ultimately show ?thesis
    using w(1) sys(2) by (auto simp: on_sys_def)
qed

lemma socket_read_step:
  assumes "stream_state leaked s l config"
  shows "\<exists>config' s' leaked'. on_sys (EvReadable r) (config, leaked) = Some (config', leaked') \<and> stream_state leaked' s' l config'"
proof -
  have sys: "sys_inv (stream_sys config s leaked)" "sc_socket config = Some s" "stream_incoming config s"
    using assms(1) by (simp_all add: stream_state_def)
  have inv: "socket_inv (\<lambda>p. stream_owned config p + count_list leaked p) s"
    using sys(1) by (simp add: sys_inv_stream)
  obtain w where w: "socket_exec (EvReadable r) (stream_sys config s leaked) = Some w" "sys_inv w"
    using socket_step_inv [OF sys(1), of "EvReadable r"] by auto
  obtain p s1 where a: "net_packet_alloc s = Some (p, s1)" "read_handler r s = Some (sys_socket w)"
    using w(1) by (auto simp: stream_sys_def Option.bind_eq_Some_conv)
  have same: "w = stream_sys config (sys_socket w) (sys_leaked w)"
    using w(1) by (auto simp: stream_sys_def Option.bind_eq_Some_conv)
  note recv = socket_ops_receivers(4) [OF a(2)]
  have "stream_state (sys_leaked w) (sys_socket w) l (config\<lparr>sc_socket := Some (sys_socket w)\<rparr>)"
  proof (cases "p = 0")
    case True
    with a inv have "sys_socket w = s"
      by (auto simp: read_handler_def elim: socket.alloc_cases)
    with w(2) same show ?thesis
      by (intro stream_socket_frame [OF assms]) auto
  next
    case False
    have "sk_refs s p = 0"
      using net_packet_alloc_inv [OF inv] a(1) False by auto
    then have p: "p \<notin> set (incoming config s)"
      using incoming_refs [OF assms, of p] by auto
    note h = read_handler_inv [OF inv a(1) False, of r]
    have mem: "sk_mem (sys_socket w) q = sk_mem s q" if "q \<in> set (incoming config s)" for q
      using h a(2) p that by auto
    show ?thesis
    proof (cases "\<not> recv_leaks r s \<and> 0 < recv_bytes r \<and> recv_bytes r \<le> 256")
      case False
      with h a(2) have "sk_deliveries (sys_socket w) = sk_deliveries s"
        by (auto split: if_splits)
      with w(2) same recv mem show ?thesis
        by (intro stream_socket_frame [OF assms]) auto
    next
      case True
      with h a(2) obtain m where "sk_deliveries (sys_socket w) = sk_deliveries s @ [recv_delivery s p]"
          "sk_mem (sys_socket w) p = Some m" "bs_offset (pkt_bitstream m) = 0"
        by auto
      then have "stream_incoming config (sys_socket w)"
        using sys(3) recv mem p by (auto simp: stream_incoming_def incoming_def sk_receivers_def recv_delivery_def)
      moreover have "sys_inv (stream_sys config (sys_socket w) (sys_leaked w))"
        using w(2) same by simp
      ultimately show ?thesis
        using assms by (simp add: stream_defs sys_inv_stream)
    qed
  qed
  moreover have "on_sys (EvReadable r) (config, leaked) = Some (config\<lparr>sc_socket := Some (sys_socket w)\<rparr>, sys_leaked w)"
    using w(1) sys(2) by (simp add: on_sys_def del: socket_exec.simps)
  ultimately show ?thesis
    by blast
qed

lemma socket_deliver_step:
  assumes "stream_state leaked s l config" "d \<in> set (sk_deliveries s)"
  shows "\<exists>config' s'. stream_exec (SocketDelivers d) (config, leaked) = Some (config', leaked) \<and> stream_state leaked s' l config'"
proof -
  have sys: "sys_inv (stream_sys config s leaked)" "sc_socket config = Some s" "stream_incoming config s" "receivers_set s"
    using assms(1) by (simp_all add: stream_state_def sys_inv_stream)
  have inv: "socket_inv (\<lambda>p. stream_owned config p + count_list leaked p) s"
    using sys(1) by (simp add: sys_inv_stream)
  let ?s = "s\<lparr>sk_deliveries := remove1 d (sk_deliveries s)\<rparr>" and ?p = "delivery_packet d"
  let ?c = "config\<lparr>sc_socket := Some ?s, sc_tasks := sc_tasks config @ [ReceiveTask ?p]\<rparr>"
  obtain ctx where run: "run_delivery d s = Some ((stream_receive_fn, ctx, ?p), ?s)"
    using sys(3,4) assms(2) by (cases d) (auto simp: run_delivery_def receivers_set_def stream_incoming_def)
  have rp: "receive_packets ?c = receive_packets config @ [?p]"
    by (simp add: receive_packets_def)
  have "mset (incoming ?c ?s) = mset (incoming config s)"
  proof -
    have "mset (map delivery_packet (sk_deliveries s)) = add_mset ?p (mset (map delivery_packet (remove1 d (sk_deliveries s))))"
      using assms(2) by (simp add: image_mset_Diff)
    then show ?thesis
      by (simp add: incoming_def rp)
  qed
  then have "distinct (incoming ?c ?s) \<longleftrightarrow> distinct (incoming config s)" "set (incoming ?c ?s) = set (incoming config s)"
    by (metis mset_eq_imp_distinct_iff, metis set_mset_mset)
  then have "stream_incoming ?c ?s"
    using sys(3) by (simp add: stream_incoming_def)
  moreover have "socket_inv (\<lambda>p. stream_owned ?c p + count_list leaked p) ?s"
  proof -
    have "(\<lambda>p. stream_owned ?c p + count_list leaked p) =
        (\<lambda>p. stream_owned config p + count_list leaked p)(?p := stream_owned config ?p + count_list leaked ?p + 1)"
      by (simp add: fun_eq_iff stream_owned_def rp)
    with run_delivery_inv [OF inv assms(2) run] show ?thesis
      by simp
  qed
  moreover have "receivers_set ?s"
    using sys(4) set_remove1_subset [of d "sk_deliveries s"] by (intro receivers_set_keep [OF _ _ sys(4)]) (simp_all add: sk_receivers_def)
  ultimately have "stream_state leaked ?s l ?c"
    using assms(1) by (auto simp: stream_defs sys_inv_stream)
  with run sys(2) show ?thesis
    by (auto simp: streamSocketReceiveCallback_def stream_dispatch_def)
qed

lemma stream_step_inv:
  assumes "stream_inv w" "stream_enabled ev w"
  shows "\<exists>w'. stream_exec ev w = Some w' \<and> stream_inv w'"
proof -
  obtain config leaked s l where w: "w = (config, leaked)" and state: "stream_state leaked s l config"
    using assms(1) by (cases w) (auto simp: stream_inv_def)
  have sock: "sc_socket config = Some s"
    using state by (simp add: stream_state_def)
  show ?thesis
  proof (cases ev)
    case (PeerAdd a)
    have "stream_state leaked s l (streamAdd config a)"
      unfolding streamAdd_def Let_def using state by (rule stream_state_dispatch) simp_all
    with PeerAdd w show ?thesis
      by (auto intro: stream_invI)
  next
    case (PeerRemove a)
    have "stream_state leaked s l (streamRemove config a)"
      unfolding streamRemove_def Let_def using state by (rule stream_state_dispatch) simp_all
    with PeerRemove w show ?thesis
      by (auto intro: stream_invI)
  next
    case (QueueRuns env)
    then obtain t rest where "sc_tasks config = t # rest" "task_granted env config t"
      using assms(2) w by (auto split: list.splits)
    from task_step [OF state this] obtain config' s' l'
      where "run_stream_task env config = Some config'" "stream_state leaked s' l' config'"
      by blast
    then show ?thesis
      using w QueueRuns by (auto intro: stream_invI)
  next
    case (TimerFires env)
    with timer_step [OF state, of env] assms(2) w show ?thesis
      by (auto intro: stream_invI)
  next
    case (SocketTask malloc)
    with socket_run_step [OF state, of "EvTask malloc" malloc] assms(2) w sock show ?thesis
      by (auto intro: stream_invI simp: socket_grants_def)
  next
    case SocketWritable
    with socket_run_step [OF state, of EvWritable 0] assms(2) w sock show ?thesis
      by (auto intro: stream_invI simp: socket_grants_def)
  next
    case (SocketReadable r)
    with socket_read_step [OF state, of r] w show ?thesis
      by (auto intro: stream_invI)
  next
    case (SocketDelivers d)
    then have "d \<in> set (sk_deliveries s)"
      using assms(2) w sock by (simp add: socket_grants_def stream_sys_def)
    from socket_deliver_step [OF state this] SocketDelivers w show ?thesis
      by (force intro: stream_invI)
  qed (use suspend_step [OF state] resume_step [OF state] w in \<open>auto intro: stream_invI\<close>)
qed

lemma stream_reach_inv:
  assumes "stream_reach w0 w" "stream_inv w0"
  shows "stream_inv w"
  using assms by (induction rule: stream_reach.induct) (auto dest: stream_step_inv)

lemma stream_step_kept:
  assumes "stream_inv w" "stream_enabled ev w" "stream_exec ev w = Some w'"
  shows "stream_kept (fst w) (fst w')"
proof -
  obtain config leaked s l where w: "w = (config, leaked)" and state: "stream_state leaked s l config"
    using assms(1) by (cases w) (auto simp: stream_inv_def)
  have heap: "stream_kept (fst w) (fst w')" if "sc_heap (fst w') = sc_heap (fst w)"
    using that by simp
  have sys: "stream_kept (fst w) (fst w')" if "on_sys e w = Some w'" for e
    using that by (intro heap) (auto simp: on_sys_def Option.bind_eq_Some_conv)
  show ?thesis
  proof (cases ev)
    case (QueueRuns env)
    then obtain t rest where "sc_tasks config = t # rest" "task_granted env config t"
      using assms(2) w by (auto split: list.splits)
    from task_step [OF state this] show ?thesis
      using assms(3) w QueueRuns by auto
  next
    case (TimerFires env)
    then have "env_object_ok env"
      using assms(2) by simp
    from timer_step [OF state this] stream_kept_tick [OF state] show ?thesis
      using assms(3) w TimerFires by auto
  qed (use assms(3) sys in \<open>auto intro!: heap simp: Option.bind_eq_Some_conv streamAdd_def streamRemove_def stream_dispatch_def
      streamSuspend_def streamResume_def stream_called_def streamSocketReceiveCallback_def Let_def split: if_splits\<close>)
qed

lemma stream_kept_timeout:
  assumes "stream_kept config config'" "sc_heap config p = Some st" "st_state st = StreamTimeout"
  shows "\<exists>st'. sc_heap config' p = Some st' \<and> st_state st' = StreamTimeout"
  using assms unfolding stream_kept_def by blast

lemma stream_reach_kept:
  assumes "stream_reach w0 w" "stream_inv w0"
  shows "stream_kept (fst w0) (fst w)"
  using assms
proof (induction rule: stream_reach.induct)
  case (step w ev w')
  then show ?case
    using stream_reach_inv stream_step_kept stream_kept_trans by blast
qed simp

section \<open>From the setup\<close>

text \<open>
  A configuration after a successful setup: the operating system gives the memory of the socket and
  of the list, the suspend callback is set (the code does not check it) and no stream is in memory.
\<close>

lemma setup_state:
  assumes "streamSetup e os ifs timer True True self config port ctx up rc tm sus = Some (NetNoError, c)"
    and "os_grants os" "sus \<noteq> NULL" "sc_heap config = Map.empty"
  shows "\<exists>s l. stream_state [] s l c \<and> list_objects l = [] \<and> l_capacity l = 5 \<and> sk_free s = 64 \<and> sk_tasks s = [] \<and> sk_deliveries s = [] \<and>
    sc_tasks c = [] \<and> \<not> sc_active c \<and> sc_heap c = Map.empty \<and> sc_log c = sc_log config \<and> sc_context c = ctx"
proof -
  obtain s0 where s0: "net_socket_create e os NetNoError AF_INET (Some any_host) port = Some (NetNoError, Created (Some s0))"
    using assms(1) by (auto simp: streamSetup_def Let_def Option.bind_eq_Some_conv split: if_splits create_result.splits)
  obtain l m where l: "list_create True True 5 = Some (Some l)" "list_rel l m [] (new_indices 0 5)" "l_capacity l = 5"
    using list_create_rel [of 5] by auto
  let ?s = "net_socket_set_receive_callback s0 self stream_receive_fn"
  have c: "c = config\<lparr>sc_socket := Some ?s, sc_address := net_socket_local_addr ifs ?s (sc_address config), sc_updateCallback := up,
      sc_receiveCallback := rc, sc_timeoutCallback := tm, sc_suspendCallback := sus, sc_context := ctx, sc_tasks := [],
      sc_suspended := 1, sc_active := False, sc_streams := Some l\<rparr>" "up \<noteq> 0" "rc \<noteq> 0" "tm \<noteq> 0"
    using assms(1) s0 l(1) by (simp_all add: streamSetup_def Let_def split: if_splits)
  have list: "list_inv l" "list_objects l = []"
    using l(2) list_rel_objects [OF l(2)] by (auto simp: list_inv_def)
  have s: "socket_inv (\<lambda>_. 0) ?s" "sk_free ?s = 64"
    using create_inv(1) [OF s0 assms(2)] create_free [OF s0 assms(2)] by (simp_all add: sk_free_def)
  have clean: "sk_deliveries s0 = []" "sk_tasks s0 = []" "sk_receiveBlock s0 = 0"
    using create_fields [OF s0] by simp_all
  have "receivers_set ?s" "sk_receiveBlock ?s = 0" "sk_receiveCallback ?s = 2" "sk_deliveries ?s = []"
    using clean by (simp_all add: receivers_set_def sk_receivers_def net_socket_set_receive_callback_def)
  moreover have "receive_packets c = []"
    by (simp add: c(1) receive_packets_def)
  ultimately have "sys_inv (stream_sys c ?s [])" "stream_incoming c ?s"
    using s(1) by (simp_all add: sys_inv_stream stream_owned_def stream_incoming_def incoming_def)
  then have "stream_state [] ?s l c"
    using list c(2-4) assms(3,4) by (simp add: stream_defs) (simp add: c(1) assms(4))
  then show ?thesis
    using list(2) l(3) s(2) clean assms(4) by (intro exI [of _ ?s] exI [of _ l]) (simp add: c(1))
qed

text \<open>A concrete configuration for the examples.\<close>

definition blank_config :: StreamConfiguration where
  "blank_config = \<lparr>sc_socket = None, sc_address = sockaddr_zero, sc_tasks = [], sc_suspended = 0, sc_active = False,
     sc_receiveCallback = 0, sc_updateCallback = 0, sc_timeoutCallback = 0, sc_suspendCallback = 0, sc_context = 0,
     sc_streams = None, sc_heap = Map.empty, sc_log = []\<rparr>"

definition sample_setup :: "(NetError \<times> StreamConfiguration) option" where
  "sample_setup = streamSetup LittleEndian sample_os (0, []) 31 True True 900 blank_config 80 77 41 42 43 44"

definition sample_config :: StreamConfiguration where
  "sample_config = (case sample_setup of Some (_, c) \<Rightarrow> c | None \<Rightarrow> blank_config)"

lemma sample_config_setup:
  "streamSetup LittleEndian sample_os (0, []) 31 True True 900 blank_config 80 77 41 42 43 44 = Some (NetNoError, sample_config)"
proof -
  obtain pl where "pool_create True 4096 304 64 = Some (Some pl)"
    using pool_created [of 4096] by auto
  moreover obtain l where "list_create True True 5 = Some (Some l)"
    using list_create_rel [of 5] by auto
  ultimately show ?thesis
    unfolding sample_config_def sample_setup_def
    by (simp add: streamSetup_def net_socket_create_def sample_os_def net_socket_set_nonblock_def
        net_socket_set_dispatch_sources_def htons_def Let_def)
qed

lemma sample_config_hyps: "os_grants sample_os" "(44 :: ptr) \<noteq> NULL" "sc_heap blank_config = Map.empty"
  using sample_socket_created(2) by (simp_all add: blank_config_def)

lemma setup_reach_inv:
  assumes "streamSetup e os ifs timer True True self config port ctx up rc tm sus = Some (NetNoError, c)"
    and "os_grants os" "sus \<noteq> NULL" "sc_heap config = Map.empty" "stream_reach (c, []) w"
  obtains s l where "stream_state (snd w) s l (fst w)"
proof -
  have "stream_inv (c, [])"
    using setup_state [OF assms(1-4)] stream_invI by blast
  from stream_reach_inv [OF assms(5) this] that show thesis
    by (auto simp: stream_inv_def)
qed

text \<open>A configuration that has been set up, after some run.\<close>

definition stream_running :: "stream_world \<Rightarrow> bool" where
  "stream_running w \<longleftrightarrow> (\<exists>e os ifs timer self config port ctx up rc tm sus c.
     streamSetup e os ifs timer True True self config port ctx up rc tm sus = Some (NetNoError, c) \<and> os_grants os \<and> sus \<noteq> NULL \<and>
     sc_heap config = Map.empty \<and> stream_reach (c, []) w)"

lemma stream_running_state:
  assumes "stream_running (config, leaked)" "sc_socket config = Some s" "sc_streams config = Some l"
  shows "stream_state leaked s l config"
proof -
  obtain s' l' where "stream_state leaked s' l' config"
    using assms(1) unfolding stream_running_def by (metis fst_conv snd_conv setup_reach_inv)
  with assms(2,3) show ?thesis
    by (simp add: stream_state_def)
qed

section \<open>Safety\<close>

lemma teardown_safe:
  assumes "stream_state leaked s l config"
  shows "\<exists>config'. streamTeardown config = Some config'"
proof -
  have "sk_suspended s = (if sk_isSending s then 0 else 1)"
    using assms by (simp add: stream_state_def sys_inv_stream socket_inv_def)
  then have "\<exists>s'. net_socket_destroy s = Some s'"
    by (auto simp: net_socket_destroy_def net_socket_resume_write_def Let_def)
  then show ?thesis
    using assms by (auto simp: streamTeardown_def stream_state_def stream_timer_def list_destroy_def)
qed

text \<open>
  (C8) Runs of streams are safe. From a successful setup with a suspend callback (which the setup does
  not insist on, unlike the other three), however the application adds and removes peers, suspends and resumes and in
  whatever order blocks, timer and socket events come, no enabled step faults: no list operation, no
  access to a stream, to a packet or beyond a buffer, no null callback, no timer resumed twice.
  In every state the addresses of the peers are distinct, the timer is suspended once if the
  configuration is not active and not at all if it is, an active configuration has a peer, every
  packet has as many references as blocks, queues and the leaks of the read handler account for, and
  \<open>streamTeardown\<close>, which ends the run, does not fault either.
\<close>

theorem stream_runs_safely:
  assumes "streamSetup e os ifs timer True True self config port ctx up rc tm sus = Some (NetNoError, c)"
    and "os_grants os" "sus \<noteq> NULL" "sc_heap config = Map.empty" "stream_reach (c, []) w"
  shows "(\<forall>ev. stream_enabled ev w \<longrightarrow> (\<exists>w'. stream_exec ev w = Some w')) \<and>
    distinct (stream_peers (fst w)) \<and> sc_suspended (fst w) = (if sc_active (fst w) then 0 else 1) \<and>
    (sc_active (fst w) \<longrightarrow> stream_peers (fst w) \<noteq> []) \<and>
    (\<exists>s. sc_socket (fst w) = Some s \<and>
      (\<forall>p. sk_refs s p = count_list (receive_packets (fst w)) p + count_list (snd w) p + count_list (sk_held s) p)) \<and>
    (\<exists>config'. streamTeardown (fst w) = Some config')"
proof -
  obtain s l where state: "stream_state (snd w) s l (fst w)"
    using setup_reach_inv [OF assms] .
  then have "stream_inv w"
    using stream_invI [OF state] by simp
  then have "\<forall>ev. stream_enabled ev w \<longrightarrow> (\<exists>w'. stream_exec ev w = Some w')"
    using stream_step_inv by blast
  moreover have "sk_refs s p = count_list (receive_packets (fst w)) p + count_list (snd w) p + count_list (sk_held s) p" for p
    using state by (simp add: stream_state_def sys_inv_stream socket_inv_def stream_owned_def)
  ultimately show ?thesis
    using state stream_peers_state [OF state] teardown_safe [OF state] by (auto simp: stream_state_def stream_timer_def)
qed

theorem stream_runs_safely_witness:
  "\<exists>w'. stream_exec (PeerAdd sockaddr_zero) (sample_config, []) = Some w'"
  using stream_runs_safely [OF sample_config_setup sample_config_hyps stream_reach.start] by (meson stream_enabled.simps)

text \<open>
  The suspend callback is not checked. The setup accepts a null suspend callback, and suspending an
  active configuration then calls it.
\<close>

theorem stream_null_suspend_faults:
  assumes "streamSetup e os ifs timer True True self config port ctx up rc tm NULL = Some (NetNoError, c)"
  shows "sc_suspendCallback c = NULL \<and>
    (\<forall>c'. sc_active c' \<and> sc_suspendCallback c' = sc_suspendCallback c \<longrightarrow> streamSuspend c' = None)"
  using assms
  by (auto simp: streamSetup_def streamSuspend_def stream_called_def Let_def split: if_splits option.splits prod.splits bind_splits)

text \<open>
  Teardown does not wait for the queue. The list of streams is freed at once, while a block that \<open>streamAdd\<close> or
  \<open>streamRemove\<close> has put on the queue before still runs and uses it.
\<close>

theorem stream_teardown_pending_block:
  assumes "streamTeardown config = Some config'" "sc_tasks config = AddTask a # rest \<or> sc_tasks config = RemoveTask a # rest"
  shows "run_stream_task env config' = None"
  using assms
  by (auto simp: streamTeardown_def list_destroy_def run_stream_task_def run_add_def run_remove_def Let_def
      split: if_splits option.splits bind_splits)

section \<open>The set of peers\<close>

text \<open>
  The specification: a sequence of additions and removals acts on the keys of the peers, without
  repetition and in the order in which they were added; counted is how often the last one goes.
\<close>

datatype peer_op = AddPeer net_addr_t | RemovePeer net_addr_t

fun peers_after :: "peer_op list \<Rightarrow> (u16 \<times> u16 \<times> u32) list \<times> nat \<Rightarrow> (u16 \<times> u16 \<times> u32) list \<times> nat" where
  "peers_after [] r = r"
| "peers_after (AddPeer a # ops) (ks, n) = peers_after ops (if addr_key a \<in> set ks then ks else ks @ [addr_key a], n)"
| "peers_after (RemovePeer a # ops) (ks, n) =
     peers_after ops (remove1 (addr_key a) ks, if ks \<noteq> [] \<and> remove1 (addr_key a) ks = [] then n + 1 else n)"

text \<open>The implementation: the calls, and afterwards the blocks they have put on the queue.\<close>

fun peer_call :: "peer_op \<Rightarrow> StreamConfiguration \<Rightarrow> StreamConfiguration" where
  "peer_call (AddPeer a) config = streamAdd config a"
| "peer_call (RemovePeer a) config = streamRemove config a"

fun run_queue :: "stream_env list \<Rightarrow> StreamConfiguration \<Rightarrow> StreamConfiguration option" where
  "run_queue [] config = Some config"
| "run_queue (env # envs) config = do { config \<leftarrow> run_stream_task env config; run_queue envs config }"

fun peer_task :: "peer_op \<Rightarrow> stream_task" where
  "peer_task (AddPeer a) = AddTask a"
| "peer_task (RemovePeer a) = RemoveTask a"

text \<open>Fresh memory: every block gets an address of its own that is not in use.\<close>

definition fresh_mallocs :: "stream_env list \<Rightarrow> StreamConfiguration \<Rightarrow> bool" where
  "fresh_mallocs envs config \<longleftrightarrow> distinct (map se_malloc envs) \<and>
     (\<forall>env \<in> set envs. se_malloc env \<noteq> NULL \<and> se_realloc env \<and> sc_heap config (se_malloc env) = None)"

lemma peer_calls_tasks: "fold peer_call ops config = config\<lparr>sc_tasks := sc_tasks config @ map peer_task ops\<rparr>"
proof (induction ops arbitrary: config)
  case (Cons op ops)
  then show ?case
    by (cases op) (simp_all add: streamAdd_def streamRemove_def stream_dispatch_def net_addr_copy_def)
qed simp

lemma peers_refine:
  assumes "stream_state leaked s l config" "sc_tasks config = map peer_task ops @ rest" "length envs = length ops"
    and "fresh_mallocs envs config" "list_room (length ops) l" "sc_active config \<longleftrightarrow> stream_peers config \<noteq> []"
    and "sc_log config = log0 @ replicate n (SuspendCalled (sc_context config))"
  shows "\<exists>l' config'. run_queue envs config = Some config' \<and> stream_state leaked s l' config' \<and> sc_tasks config' = rest \<and>
    stream_peers config' = fst (peers_after ops (stream_peers config, n)) \<and> (sc_active config' \<longleftrightarrow> stream_peers config' \<noteq> []) \<and>
    sc_log config' = log0 @ replicate (snd (peers_after ops (stream_peers config, n))) (SuspendCalled (sc_context config))"
  using assms
proof (induction ops arbitrary: envs l config n)
  case (Cons op ops)
  then obtain env envs' where envs: "envs = env # envs'"
    by (cases envs) auto
  let ?c = "config\<lparr>sc_tasks := map peer_task ops @ rest\<rparr>"
  have pop: "stream_state leaked s l ?c" "stream_peers ?c = stream_peers config"
    using pop_task [OF Cons.prems(1), of "peer_task op" "map peer_task ops @ rest"] Cons.prems(2)
    by (cases op; simp add: stream_peers_def)+
  have fresh: "fresh_mallocs envs' config'" if "\<And>q. q \<noteq> se_malloc env \<Longrightarrow> sc_heap config' q = sc_heap ?c q" for config'
  proof -
    have "sc_heap config' (se_malloc e) = None" if "e \<in> set envs'" for e
    proof -
      have "se_malloc env \<notin> se_malloc ` set envs'" "sc_heap config (se_malloc e) = None"
        using Cons.prems(4) that by (simp_all add: envs fresh_mallocs_def)
      then have "se_malloc e \<noteq> se_malloc env" "sc_heap config (se_malloc e) = None"
        using imageI [OF that, of se_malloc] by metis+
      with \<open>\<And>q. q \<noteq> se_malloc env \<Longrightarrow> sc_heap config' q = sc_heap ?c q\<close> show ?thesis
        by simp
    qed
    with Cons.prems(4) show ?thesis
      by (auto simp: envs fresh_mallocs_def)
  qed
  show ?case
  proof (cases op)
    case (AddPeer a)
    have "se_malloc env \<noteq> NULL" "sc_heap ?c (se_malloc env) = None" "se_realloc env" "list_room (Suc (length ops)) l"
      using Cons.prems(4,5) by (simp_all add: envs fresh_mallocs_def)
    from run_add_step [OF pop(1) this, of a, unfolded pop(2)] obtain l1 config1 where one: "run_add env ?c a = Some config1"
        "stream_state leaked s l1 config1" "list_room (length ops) l1"
        "stream_peers config1 = (if addr_key a \<in> set (stream_peers config) then stream_peers config else stream_peers config @ [addr_key a])"
        "sc_tasks config1 = sc_tasks ?c" "sc_log config1 = sc_log ?c" "sc_context config1 = sc_context ?c"
        "\<And>q. q \<noteq> se_malloc env \<Longrightarrow> sc_heap config1 q = sc_heap ?c q"
        "sc_active config1 = (sc_active ?c \<or> addr_key a \<notin> set (stream_peers config))"
      by blast
    have "sc_active config1 \<longleftrightarrow> stream_peers config1 \<noteq> []"
      using one(4,9) Cons.prems(6) by auto
    from Cons.IH [OF one(2) _ _ fresh [OF one(8)] one(3) this, of n] one(1,4-7) Cons.prems(2,3,7) AddPeer show ?thesis
      by (simp add: envs run_stream_task_def)
  next
    case (RemovePeer a)
    from run_remove_step [OF pop(1), of a, unfolded pop(2)] obtain l1 config1 where one: "run_remove ?c a = Some config1"
        "stream_state leaked s l1 config1" "l_capacity l1 = l_capacity l"
        "stream_peers config1 = remove1 (addr_key a) (stream_peers config)" "sc_tasks config1 = sc_tasks ?c"
        "sc_heap config1 = sc_heap ?c" "sc_context config1 = sc_context ?c"
        "sc_active config1 = (sc_active ?c \<and> stream_peers config1 \<noteq> [])"
        "sc_log config1 = sc_log ?c @ (if sc_active ?c \<and> \<not> sc_active config1 then [SuspendCalled (sc_context ?c)] else [])"
      by blast
    have room: "list_room (length ops) l1"
      using one(2,3) Cons.prems(5) by (simp add: list_room_def stream_state_def)
    have act: "sc_active config1 \<longleftrightarrow> stream_peers config1 \<noteq> []"
      using one(4,8) Cons.prems(6) by auto
    let ?n = "if stream_peers config \<noteq> [] \<and> remove1 (addr_key a) (stream_peers config) = [] then n + 1 else n"
    have "sc_log config1 = log0 @ replicate ?n (SuspendCalled (sc_context config1))"
      using one(4,7,9) act Cons.prems(6,7) by (simp add: replicate_append_same)
    from Cons.IH [OF one(2) _ _ fresh room act this] one(1,4-7) Cons.prems(2,3) RemovePeer show ?thesis
      by (simp add: envs run_stream_task_def)
  qed
qed auto

text \<open>
  (C9) The peers of a configuration are a set. After a setup, a sequence of calls of \<open>streamAdd\<close> and
  \<open>streamRemove\<close> and the blocks they cause refine the specification: the list holds the peers added
  and not removed since, each once, in the order of their addition, \<open>streamDoesExist\<close> decides
  membership and \<open>streamListIsEmpty\<close> emptiness, the timer runs exactly while there is a peer, and the
  suspend callback has been called once for each time the last peer was removed.
\<close>

theorem stream_refines_peer_set:
  assumes "streamSetup e os ifs timer True True self config port ctx up rc tm sus = Some (NetNoError, c)"
    and "os_grants os" "sus \<noteq> NULL" "sc_heap config = Map.empty"
    and "length envs = length ops" "fresh_mallocs envs c" "5 + 10 * length ops < 2 ^ 31"
  shows "\<exists>c'. run_queue envs (fold peer_call ops c) = Some c' \<and>
    (let (peers, n) = peers_after ops ([], 0)
     in stream_peers c' = peers \<and> distinct peers \<and> (\<forall>a. streamDoesExist c' a = Some (addr_key a \<in> set peers)) \<and>
       streamListIsEmpty c' = Some (peers = []) \<and> (sc_active c' \<longleftrightarrow> peers \<noteq> []) \<and> sc_tasks c' = [] \<and>
       sc_suspended c' = (if peers = [] then 1 else 0) \<and> sc_log c' = sc_log config @ replicate n (SuspendCalled ctx))"
proof -
  obtain s l where init: "stream_state [] s l c" "list_objects l = []" "l_capacity l = 5" "sc_tasks c = []" "\<not> sc_active c"
      "sc_log c = sc_log config" "sc_context c = ctx"
    using setup_state [OF assms(1-4)] by blast
  let ?c = "fold peer_call ops c"
  have state: "stream_state [] s l ?c"
    unfolding peer_calls_tasks
  proof (rule stream_state_tasks [OF init(1)])
    have none: "task_packets (peer_task op) = []" "peer_task op \<noteq> TimeoutTask p" for op p
      by (cases op; simp)+
    then show "concat (map task_packets (sc_tasks c @ map peer_task ops)) = receive_packets c"
      by (simp add: init(4) receive_packets_def o_def)
    show "sc_heap c p \<noteq> None" if "TimeoutTask p \<in> set (sc_tasks c @ map peer_task ops)" for p
      using that none(2) by (auto simp: init(4)) metis
  qed
  have peers: "stream_peers ?c = []"
    using stream_peers_state [OF state] init(2) by simp
  have "list_room (length ops) l"
    using init(1,3) assms(7) by (simp add: list_room_def stream_state_def)
  moreover have "sc_tasks ?c = map peer_task ops @ []" "fresh_mallocs envs ?c" "sc_active ?c \<longleftrightarrow> stream_peers ?c \<noteq> []"
      "sc_log ?c = sc_log config @ replicate 0 (SuspendCalled (sc_context ?c))" "sc_context ?c = ctx"
    using assms(6) init(4-7) peers by (simp_all add: peer_calls_tasks fresh_mallocs_def)
  ultimately obtain l' c' where c': "run_queue envs ?c = Some c'" "stream_state [] s l' c'" "sc_tasks c' = []"
      "stream_peers c' = fst (peers_after ops ([], 0))" "sc_active c' \<longleftrightarrow> stream_peers c' \<noteq> []"
      "sc_log c' = sc_log config @ replicate (snd (peers_after ops ([], 0))) (SuspendCalled ctx)"
    using peers_refine [OF state _ assms(5), of "[]" "sc_log config" 0] unfolding peers by metis
  note peers' = stream_peers_state [OF c'(2)]
  have "sc_streams c' = Some l'"
    using c'(2) by (simp add: stream_state_def)
  with c'(2) have "streamDoesExist c' a = Some (addr_key a \<in> set (stream_peers c'))" for a
    by (cases rule: stream_find_cases [where a = a]) (auto simp: streamDoesExist_def peers')
  moreover have "streamListIsEmpty c' = Some (stream_peers c' = [])"
    using c'(2) list_is_empty_objects [of l'] by (simp add: streamListIsEmpty_def stream_state_def peers')
  moreover have "distinct (stream_peers c')" "sc_suspended c' = (if sc_active c' then 0 else 1)"
    using c'(2) by (simp_all add: stream_state_def stream_timer_def peers')
  ultimately show ?thesis
    using c' by (auto simp: split_beta)
qed

definition sample_env :: "ptr \<Rightarrow> stream_env" where
  "sample_env p = \<lparr>se_endian = LittleEndian, se_malloc = p, se_realloc = True,
     se_object = \<lparr>so_data = replicate kStreamObjectDataMaxLength 0, so_length = 0, so_tag = 0\<rparr>,
     se_update = (\<lambda>ob. ob\<lparr>so_data := (so_data ob)[0 := 104, 1 := 105], so_length := 2, so_tag := 6\<rparr>)\<rparr>"

theorem stream_refines_peer_set_witness:
  "\<exists>c'. run_queue [sample_env 1000, sample_env 2000, sample_env 3000, sample_env 4000]
      (fold peer_call [AddPeer sockaddr_zero, AddPeer (sockaddr_zero\<lparr>sin_port := 9\<rparr>), AddPeer sockaddr_zero, RemovePeer sockaddr_zero]
        sample_config) = Some c' \<and>
    stream_peers c' = [(0, 9, 0)] \<and> sc_active c' \<and> streamDoesExist c' sockaddr_zero = Some False"
proof -
  obtain s l where "stream_state [] s l sample_config" "sc_heap sample_config = Map.empty"
    using setup_state [OF sample_config_setup sample_config_hyps] by blast
  then have "fresh_mallocs [sample_env 1000, sample_env 2000, sample_env 3000, sample_env 4000] sample_config"
    by (simp add: fresh_mallocs_def sample_env_def)
  with stream_refines_peer_set [OF sample_config_setup sample_config_hyps, of
      "[sample_env 1000, sample_env 2000, sample_env 3000, sample_env 4000]"
      "[AddPeer sockaddr_zero, AddPeer (sockaddr_zero\<lparr>sin_port := 9\<rparr>), AddPeer sockaddr_zero, RemovePeer sockaddr_zero]"]
  show ?thesis
    by (auto simp: addr_key_def sockaddr_zero_def)
qed

section \<open>Timeouts\<close>

text \<open>
  The accumulator of a silent stream after \<open>n\<close> ticks. The interval is the single precision number
  next to a fifteenth of a second; in units of \<open>2 ^ -27\<close> the sums are integers as long as they stay
  below eight seconds.
\<close>

definition timer_acc :: "nat \<Rightarrow> float32" where
  "timer_acc n = ((\<lambda>x. fadd x kStreamTimerUpdateInterval) ^^ n) 0"

definition round_unit :: "int \<Rightarrow> int \<Rightarrow> int" where
  "round_unit u a = (let q = a div u; r = a mod u in (if 2 * r < u \<or> 2 * r = u \<and> even q then q else q + 1) * u)"

definition next_units :: "int \<Rightarrow> int" where
  "next_units a = (let b = a + 8947849 in
     if b < 16777216 then b else if b < 33554432 then round_unit 2 b else if b < 67108864 then round_unit 4 b
     else if b < 134217728 then round_unit 8 b else if b < 268435456 then round_unit 16 b
     else if b < 536870912 then round_unit 32 b else round_unit 64 b)"

lemma interval_units: "kStreamTimerUpdateInterval = 8947849 / 2 ^ 27"
  unfolding kStreamTimerUpdateInterval_def fdiv_def by code_simp

lemma timer_acc_Suc: "timer_acc (Suc n) = fadd (timer_acc n) kStreamTimerUpdateInterval"
  by (simp add: timer_acc_def)

lemma next_units_shift:
  assumes "16777216 \<le> a + 8947849" "a + 8947849 < 2 ^ 30"
  obtains j where "next_units a = round_shift j (a + 8947849)" "2 ^ (23 + j) \<le> a + 8947849" "a + 8947849 < 2 ^ (24 + j)"
proof -
  let ?b = "a + 8947849"
  consider "?b < 33554432" | "33554432 \<le> ?b" "?b < 67108864" | "67108864 \<le> ?b" "?b < 134217728" | "134217728 \<le> ?b" "?b < 268435456"
    | "268435456 \<le> ?b" "?b < 536870912" | "536870912 \<le> ?b"
    by linarith
  then show thesis
  proof cases
    case 1
    with assms show ?thesis by (intro that [of 1]) (simp_all add: next_units_def round_unit_def round_shift_def Let_def)
  next
    case 2
    then show ?thesis by (intro that [of 2]) (simp_all add: next_units_def round_unit_def round_shift_def Let_def)
  next
    case 3
    then show ?thesis by (intro that [of 3]) (simp_all add: next_units_def round_unit_def round_shift_def Let_def)
  next
    case 4
    then show ?thesis by (intro that [of 4]) (simp_all add: next_units_def round_unit_def round_shift_def Let_def)
  next
    case 5
    then show ?thesis by (intro that [of 5]) (simp_all add: next_units_def round_unit_def round_shift_def Let_def)
  next
    case 6
    with assms show ?thesis by (intro that [of 6]) (simp_all add: next_units_def round_unit_def round_shift_def Let_def)
  qed
qed

lemma next_units_exact:
  assumes "0 \<le> a" "a + 8947849 < 2 ^ 30"
  shows "fadd (of_int a / 2 ^ 27) kStreamTimerUpdateInterval = of_int (next_units a) / 2 ^ 27"
proof -
  let ?b = "a + 8947849"
  have sum: "of_int a / 2 ^ 27 + kStreamTimerUpdateInterval = of_int ?b / 2 ^ 27"
    by (simp add: interval_units)
  show ?thesis
  proof (cases "?b < 16777216")
    case True
    then have "\<bar>?b\<bar> < 2 ^ 24"
      using assms(1) by simp
    moreover have "x / 2 ^ 27 = x * 2 powi (- 27)" for x :: rat
      by (simp only: power_int_minus power_int_numeral divide_inverse)
    ultimately have "representable32 (of_int ?b / 2 ^ 27)"
      unfolding representable32_def by (intro exI [of _ ?b] exI [of _ "-27"] conjI) simp_all
    then have "rnd32 (of_int ?b / 2 ^ 27) = of_int ?b / 2 ^ 27"
      by (rule rnd32_representable)
    with True show ?thesis
      unfolding fadd_def sum by (simp add: next_units_def)
  next
    case False
    then have "16777216 \<le> ?b"
      by simp
    then obtain j where j: "next_units a = round_shift j ?b" "2 ^ (23 + j) \<le> ?b" "?b < 2 ^ (24 + j)"
      using assms(2) by (rule next_units_shift)
    show ?thesis
      unfolding fadd_def sum j(1) by (rule rnd32_shift [OF j(2,3)]) simp
  qed
qed

lemma round_unit_near: "0 < u \<Longrightarrow> a - u < round_unit u a \<and> round_unit u a \<le> a + u"
proof -
  assume u: "0 < u"
  have "a div u * u = a - a mod u" "0 \<le> a mod u" "a mod u < u"
    using u by (simp_all add: minus_mod_eq_div_mult)
  then show ?thesis
    by (auto simp: round_unit_def Let_def distrib_right)
qed

lemma next_units_grows: "a \<le> next_units a"
  using round_unit_near [of 2 "a + 8947849"] round_unit_near [of 4 "a + 8947849"] round_unit_near [of 8 "a + 8947849"]
    round_unit_near [of 16 "a + 8947849"] round_unit_near [of 32 "a + 8947849"] round_unit_near [of 64 "a + 8947849"]
  by (auto simp: next_units_def Let_def)

lemma next_units_numeral [simp]: "next_units 0 = 8947849"
  by (simp add: next_units_def)

lemma next_units_60: "(next_units ^^ 60) 0 = 536870752"
  and next_units_75: "(next_units ^^ 75) 0 = 671088384" "next_units 671088384 = 680036224"
proof -
  have five: "(next_units ^^ 5) x = next_units (next_units (next_units (next_units (next_units x))))" for x
    by (simp add: numeral_nat)
  have fifteen: "(next_units ^^ 15) x = (next_units ^^ 5) ((next_units ^^ 5) ((next_units ^^ 5) x))" for x
    by (simp add: funpow_add [symmetric, THEN fun_cong, unfolded o_def])
  have sixty: "(next_units ^^ 60) x = (next_units ^^ 15) ((next_units ^^ 15) ((next_units ^^ 15) ((next_units ^^ 15) x)))"
    and all: "(next_units ^^ 75) x = (next_units ^^ 15) ((next_units ^^ 60) x)" for x
    by (simp_all add: funpow_add [symmetric, THEN fun_cong, unfolded o_def])
  have num: "next_units (numeral m) = (let b = numeral m + 8947849 in
     if b < 16777216 then b else if b < 33554432 then round_unit 2 b else if b < 67108864 then round_unit 4 b
     else if b < 134217728 then round_unit 8 b else if b < 268435456 then round_unit 16 b
     else if b < 536870912 then round_unit 32 b else round_unit 64 b)" for m
    by (simp add: next_units_def)
  show 60: "(next_units ^^ 60) 0 = 536870752"
    unfolding sixty fifteen five by (simp add: num round_unit_def Let_def)
  show "(next_units ^^ 75) 0 = 671088384" "next_units 671088384 = 680036224"
    unfolding all 60 fifteen five by (simp_all add: num round_unit_def Let_def)
qed

lemma next_units_76: "(next_units ^^ 76) 0 = 680036224"
proof -
  have "(next_units ^^ Suc 75) 0 = 680036224"
    unfolding funpow.simps o_apply next_units_75 ..
  then show ?thesis
    by simp
qed

lemma next_units_mono: "m \<le> n \<Longrightarrow> (next_units ^^ m) 0 \<le> (next_units ^^ n) 0"
  by (induction n rule: nat_induct) (auto simp: le_Suc_eq intro: order_trans next_units_grows)

lemma timer_acc_units:
  assumes "n \<le> 76"
  shows "timer_acc n = of_int ((next_units ^^ n) 0) / 2 ^ 27"
  using assms
proof (induction n)
  case (Suc n)
  have "0 \<le> (next_units ^^ n) 0" "(next_units ^^ n) 0 \<le> 671088384"
    using next_units_mono [of 0 n] next_units_mono [of n 75] next_units_75(1) Suc.prems by simp_all
  then have "fadd (of_int ((next_units ^^ n) 0) / 2 ^ 27) kStreamTimerUpdateInterval = of_int (next_units ((next_units ^^ n) 0)) / 2 ^ 27"
    by (intro next_units_exact) simp_all
  moreover have "timer_acc n = of_int ((next_units ^^ n) 0) / 2 ^ 27"
    using Suc by simp
  ultimately show ?case
    unfolding timer_acc_Suc funpow.simps o_apply by (simp only:)
qed (simp add: timer_acc_def)

lemma timer_acc_limit: "kStreamTimeout < timer_acc n \<longleftrightarrow> 76 \<le> n"
proof (cases "n \<le> 75")
  case True
  then have "(next_units ^^ n) 0 \<le> 671088384"
    using next_units_mono [of n 75] next_units_75(1) by simp
  then have "timer_acc n \<le> of_int 671088384 / 2 ^ 27"
    using timer_acc_units [of n] True by (simp only: of_int_le_iff divide_right_mono) simp
  with True show ?thesis
    by simp
next
  case False
  then have "76 \<le> n"
    by simp
  then have "5 < timer_acc n"
  proof (induction n rule: dec_induct)
    case base
    show ?case
      by (simp add: timer_acc_units next_units_76)
  next
    case (step n)
    define x where "x = timer_acc n + kStreamTimerUpdateInterval"
    have x: "5 + 1 / 16 \<le> x"
      using step by (simp add: x_def interval_units)
    then have "\<bar>rnd32 x - x\<bar> \<le> x / 2 ^ 24"
      by (intro rnd32_relative) simp
    then have "x - x / 16777216 \<le> rnd32 x"
      unfolding abs_le_iff by simp
    with x have "5 < rnd32 x"
      by linarith
    then show ?case
      by (simp add: timer_acc_Suc fadd_def x_def)
  qed
  with False show ?thesis
    by simp
qed

fun timer_runs :: "stream_env list \<Rightarrow> StreamConfiguration \<Rightarrow> StreamConfiguration option" where
  "timer_runs [] config = Some config"
| "timer_runs (env # envs) config = do { config \<leftarrow> streamTimerCallback env config; timer_runs envs config }"

lemma count_timeouts: "distinct ps \<Longrightarrow> count_list (map TimeoutTask (filter P ps)) (TimeoutTask p) = (if p \<in> set ps \<and> P p then 1 else 0)"
  by (induction ps) auto

lemma timer_silent:
  assumes "stream_state leaked s l config" "p \<in> set (list_objects l)" "sc_heap config p = Some st"
    and "st_timeoutAccumulator st = timer_acc n" "\<forall>env \<in> set envs. env_object_ok env"
  shows "\<exists>config' s' st'. timer_runs envs config = Some config' \<and> stream_state leaked s' l config' \<and>
    sc_heap config' p = Some st' \<and> st_address st' = st_address st \<and>
    count_list (sc_tasks config') (TimeoutTask p) =
      count_list (sc_tasks config) (TimeoutTask p) + ((n + length envs - 75) - (n - 75))"
  using assms
proof (induction envs arbitrary: config s st n)
  case (Cons env envs)
  obtain config1 s1 where one: "streamTimerCallback env config = Some config1" "stream_state leaked s1 l config1"
      "stream_frame ((ticked (list_objects l) config)\<lparr>sc_log := sc_log config @
        (if sync_update l config \<and> list_objects l \<noteq> [] then [UpdateCalled (sc_context config)] else [])\<rparr>) config1"
    using timer_step [OF Cons.prems(1), of env] Cons.prems(5) by auto
  have "stream_ok st"
    using Cons.prems(1,3) by (simp add: stream_defs)
  note ok = updated_ok(2) [OF this]
  have acc: "st_timeoutAccumulator (updated st) = timer_acc (Suc n)"
    using Cons.prems(4) by (simp add: updated_def timer_acc_Suc Let_def)
  have heap: "sc_heap ((ticked (list_objects l) config)\<lparr>sc_log := x\<rparr>) p = Some (updated st)" for x
    using Cons.prems(2,3) by (simp add: ticked_def)
  obtain st1 where st1: "sc_heap config1 p = Some st1" "st_address st1 = st_address st" "st_timeoutAccumulator st1 = timer_acc (Suc n)"
    using stream_frame_heap [OF one(3) heap] ok acc by metis
  have "distinct (list_objects l)"
    using Cons.prems(1) by (auto simp: stream_state_def simp: distinct_map)
  then have "count_list (sc_tasks config1) (TimeoutTask p) = count_list (sc_tasks config) (TimeoutTask p) + (if times_out st then 1 else 0)"
    using stream_frame_fields(1) [OF one(3)] Cons.prems(2,3) by (simp add: ticked_def count_timeouts)
  moreover have "times_out st \<longleftrightarrow> 75 \<le> n"
    using timer_acc_limit [of "Suc n"] by (simp add: times_out_def acc)
  ultimately show ?case
    using Cons.IH [OF one(2) Cons.prems(2) st1(1,3)] one(1) st1(2) Cons.prems(5) by auto
qed auto

text \<open>
  (C10) Timeouts. A stream from which nothing arrives is reported: from the seventy-sixth tick of the
  timer on (the first one at which the sum of the intervals, in single precision, exceeds five
  seconds) every tick puts one more block on the queue. The block sets the state and calls the timeout
  callback with the address of the stream; from then on \<open>streamSend\<close> sends nothing on behalf of this stream in any
  continuation of the run, whatever arrives for it. (Packets that the socket has already taken over still
  leave, and a stream that is added anew for the same peer is another stream.)
\<close>

theorem stream_timeout:
  assumes "streamSetup e os ifs timer True True self config port ctx up rc tm sus = Some (NetNoError, c)"
    and "os_grants os" "sus \<noteq> NULL" "sc_heap config = Map.empty" "stream_reach (c, []) w"
    and "sc_streams (fst w) = Some l" "p \<in> set (list_objects l)" "sc_heap (fst w) p = Some st" "st_timeoutAccumulator st = 0"
    and "\<forall>env \<in> set envs. env_object_ok env"
  shows "\<exists>c1. timer_runs envs (fst w) = Some c1 \<and>
    count_list (sc_tasks c1) (TimeoutTask p) = count_list (sc_tasks (fst w)) (TimeoutTask p) + (length envs - 75) \<and>
    (\<exists>c2. run_timeout c1 p = Some c2 \<and> sc_log c2 = sc_log c1 @ [TimeoutCalled (sc_context c1) (st_address st)] \<and>
      (\<forall>w' en ob. stream_reach (c2, snd w) w' \<longrightarrow> streamSend en (fst w') p ob = Some (fst w')))"
proof -
  obtain s l' where "stream_state (snd w) s l' (fst w)"
    using setup_reach_inv [OF assms(1-5)] .
  then have state: "stream_state (snd w) s l (fst w)"
    using assms(6) by (simp add: stream_state_def)
  have "st_timeoutAccumulator st = timer_acc 0"
    using assms(9) by (simp add: timer_acc_def)
  from timer_silent [OF state assms(7,8) this assms(10)] obtain c1 s1 st1
    where c1: "timer_runs envs (fst w) = Some c1" "stream_state (snd w) s1 l c1" "sc_heap c1 p = Some st1" "st_address st1 = st_address st"
      "count_list (sc_tasks c1) (TimeoutTask p) = count_list (sc_tasks (fst w)) (TimeoutTask p) + (length envs - 75)"
    by auto
  let ?st = "st1\<lparr>st_state := StreamTimeout\<rparr>"
  let ?c2 = "(set_stream c1 p ?st)\<lparr>sc_log := sc_log c1 @ [TimeoutCalled (sc_context c1) (st_address st1)]\<rparr>"
  note out = run_timeout_step [OF c1(2,3)]
  have "streamSend en (fst w') p ob = Some (fst w')" if reach: "stream_reach (?c2, snd w) w'" for w' en ob
  proof -
    note inv = stream_invI [OF out(2)]
    obtain s' l' where s': "stream_state (snd w') s' l' (fst w')"
      using stream_reach_inv [OF reach inv] by (auto simp: stream_inv_def)
    have "sc_heap ?c2 p = Some ?st"
      by (simp add: set_stream_def)
    then obtain st' where "sc_heap (fst w') p = Some st'" "st_state st' = StreamTimeout"
      using stream_kept_timeout [OF stream_reach_kept [OF reach inv], of p ?st] by auto
    then show ?thesis
      using streamSend_idle [OF s', of p st'] by (simp add: sending_def)
  qed
  then show ?thesis
    using c1 out(1) by auto
qed

text \<open>Runs that add a peer.\<close>

lemma add_peer_reach:
  assumes "stream_reach w0 (c, leaked)" "stream_state leaked s l c" "sc_tasks c = []" "addr_key a \<notin> stream_key c ` set (list_objects l)"
    and "p \<noteq> NULL" "sc_heap c p = None" "list_room (Suc k) l"
  defines "c' \<equiv> \<lambda>l'. (set_stream c p (new_stream a))\<lparr>sc_streams := Some l', sc_active := True, sc_suspended := 0\<rparr>"
  shows "\<exists>l'. stream_reach w0 (c' l', leaked) \<and> stream_state leaked s l' (c' l') \<and> list_objects l' = list_objects l @ [p] \<and> list_room k l'"
proof -
  have env: "se_malloc (sample_env p) = p" "se_realloc (sample_env p)"
    by (simp_all add: sample_env_def)
  obtain l' where l': "run_add (sample_env p) c a = Some (c' l')" "list_objects l' = list_objects l @ [p]" "list_room k l'"
      "stream_state leaked s l' (c' l')"
    using run_add_new [OF assms(2,4), of "sample_env p" k] assms(5-7) env(2) unfolding env(1) c'_def by blast
  let ?w1 = "(streamAdd c a, leaked)"
  have tasks: "sc_tasks (streamAdd c a) = [AddTask a]" "(streamAdd c a)\<lparr>sc_tasks := []\<rparr> = c"
    using assms(3) by (simp_all add: streamAdd_def stream_dispatch_def net_addr_copy_def)
  have one: "stream_reach w0 ?w1"
    by (rule stream_reach.step [OF assms(1), of "PeerAdd a"]) simp_all
  have "stream_exec (QueueRuns (sample_env p)) ?w1 = Some (c' l', leaked)"
    using tasks l'(1) by (simp add: run_stream_task_def)
  moreover have "stream_enabled (QueueRuns (sample_env p)) ?w1"
    using assms(2,5-7) tasks env by (simp add: streamAdd_def stream_dispatch_def stream_state_def list_room_def)
  ultimately have "stream_reach w0 (c' l', leaked)"
    using stream_reach.step [OF one] by blast
  then show ?thesis
    using l' by blast
qed

lemma sample_peer:
  "\<exists>c s l. stream_reach (sample_config, []) (c, []) \<and> stream_state [] s l c \<and> list_objects l = [1000] \<and> list_room 5 l \<and>
    sc_heap c = [1000 \<mapsto> new_stream a] \<and> sc_tasks c = [] \<and> sc_suspended c = 0 \<and> sk_free s = 64 \<and> sk_deliveries s = []"
proof -
  obtain s l where init: "stream_state [] s l sample_config" "list_objects l = []" "l_capacity l = 5" "sc_tasks sample_config = []"
      "sc_heap sample_config = Map.empty" "sk_free s = 64" "sk_deliveries s = []"
    using setup_state [OF sample_config_setup sample_config_hyps] by blast
  have "list_room (Suc 5) l"
    using init(1,3) by (simp add: list_room_def stream_state_def)
  from add_peer_reach [OF stream_reach.start init(1,4) _ _ _ this, of a 1000] init(2,5)
  obtain l' where "stream_reach (sample_config, []) ((set_stream sample_config 1000 (new_stream a))
        \<lparr>sc_streams := Some l', sc_active := True, sc_suspended := 0\<rparr>, [])"
      "stream_state [] s l' ((set_stream sample_config 1000 (new_stream a))\<lparr>sc_streams := Some l', sc_active := True, sc_suspended := 0\<rparr>)"
      "list_objects l' = [1000]" "list_room 5 l'"
    by auto
  then show ?thesis
    using init(4-7) by (intro exI conjI) (assumption | simp add: set_stream_def)+
qed

lemma sample_env_ok: "env_object_ok (sample_env p)"
  by (simp add: env_object_ok_def sample_env_def so_wf_def streamObjectSetup_def)

lemma sample_running: "stream_reach (sample_config, []) w \<Longrightarrow> stream_running w"
  unfolding stream_running_def using sample_config_setup sample_config_hyps by blast

theorem stream_timeout_witness:
  "\<exists>c1 c2. stream_reach (sample_config, []) (c1, []) \<and> timer_runs (replicate 76 (sample_env 5000)) c1 = Some c2 \<and>
    count_list (sc_tasks c2) (TimeoutTask 1000) = 1"
proof -
  obtain c1 s l where c1: "stream_reach (sample_config, []) (c1, [])" "stream_state [] s l c1" "list_objects l = [1000]"
      "sc_heap c1 = [1000 \<mapsto> new_stream sockaddr_zero]" "sc_tasks c1 = []"
    using sample_peer by blast
  have "st_timeoutAccumulator (new_stream sockaddr_zero) = 0"
    by (simp add: new_stream_def zero_stream_def Let_def)
  with stream_timeout [OF sample_config_setup sample_config_hyps c1(1), of l 1000 "new_stream sockaddr_zero" "replicate 76 (sample_env 5000)"]
  have "\<exists>c2. timer_runs (replicate 76 (sample_env 5000)) c1 = Some c2 \<and> count_list (sc_tasks c2) (TimeoutTask 1000) = 1"
    using c1 sample_env_ok by (auto simp: stream_state_def)
  with c1(1) show ?thesis
    by blast
qed

end
