(* ===== verification/Stream_Log.thy ===== *)
theory Stream_Log
  imports Net_Log Stream_Runs
begin

text \<open>
  The status lines of the streams (\<^verbatim>\<open>streamLog\<close> and the part of \<^verbatim>\<open>streamTimerCallback\<close> that is compiled
  with \<^verbatim>\<open>DEBUG\<close> or \<^verbatim>\<open>TEST\<close>). The printed numbers are within half a unit of the last place, and the status is
  printed once every 76 ticks.
\<close>

section \<open>Definitions\<close>

text \<open>The conversions \<^verbatim>\<open>%.1f\<close> (ties to even on the exact value) and \<^verbatim>\<open>%d\<close>, which reads an unsigned number as signed.\<close>

definition printf_f1 :: "rat \<Rightarrow> string" where
  "printf_f1 x =
     (let n = nat (round_half_even (10 * \<bar>x\<bar>))
      in (if x < 0 then ''-'' else []) @ dec (n div 10) @ ''.'' @ dec (n mod 10))"

definition printf_d :: "u32 \<Rightarrow> string" where
  "printf_d w = (if sint w < 0 then ''-'' @ dec (nat (- sint w)) else dec (nat (sint w)))"

abbreviation (input) kStreamLogStatusInterval :: rat where "kStreamLogStatusInterval \<equiv> 5"

definition float_of_uint :: "u32 \<Rightarrow> float32" where
  "float_of_uint w = rnd32 (of_int (uint w))"

definition lost_percentage :: "StreamReliability \<Rightarrow> float32" where
  "lost_percentage r =
     (if float_of_uint (totalSentPackets r) > 0
      then fmul (fdiv (float_of_uint (totalLostPackets r)) (float_of_uint (totalSentPackets r))) 100 else 0)"

definition streamLog :: "Stream \<Rightarrow> string list" where
  "streamLog stream =
     (let r = st_reliability stream
      in [mNetworkLog ([CHR 0x0A] @ ''rtt '' @ printf_f1 (fmul (rtt r) 1000) @ ''ms, sent '' @ printf_d (totalSentPackets r) @
            '', acked '' @ printf_d (totalAckedPackets r) @ '', lost '' @ printf_d (totalLostPackets r) @
            '' ('' @ printf_f1 (lost_percentage r) @ ''%), sent bandwidth = '' @ printf_f1 (sentBandwidth r) @
            ''kbps, acked bandwidth = '' @ printf_f1 (ackedBandwidth r) @
            ''kbps, flow = '' @ (if flow_mode (st_flow stream) = StreamFlowModeGood then ''good'' else ''bad'') @ [CHR 0x0A])])"

text \<open>
  The end of \<^verbatim>\<open>streamTimerCallback\<close> in a debug build: \<open>logAccumulator\<close> before and after, and the lines printed.
\<close>

definition stream_log_status :: "StreamConfiguration \<Rightarrow> float32 \<Rightarrow> (float32 \<times> string list) option" where
  "stream_log_status config logAccumulator = do {
     l \<leftarrow> sc_streams config;
     if \<not> list_is_empty l
     then do {
       let logAccumulator = fadd logAccumulator kStreamTimerUpdateInterval;
       if logAccumulator > kStreamLogStatusInterval
       then do {
         out \<leftarrow> list_iterate l (\<lambda>object out. do { stream \<leftarrow> sc_heap config object; Some (out @ streamLog stream) }) [];
         Some (0, out)
       }
       else Some (logAccumulator, [])
     }
     else Some (logAccumulator, [])
   }"

section \<open>The printed numbers\<close>

definition value_f1 :: "string \<Rightarrow> rat" where
  "value_f1 s =
     (let neg = (s \<noteq> [] \<and> hd s = CHR ''-''); s = (if neg then tl s else s);
          v = of_nat (undec (takeWhile (\<lambda>c. c \<noteq> CHR ''.'') s)) + of_nat (undec (tl (dropWhile (\<lambda>c. c \<noteq> CHR ''.'') s))) / 10
      in if neg then - v else v)"

lemma dec_ne_Nil [simp]: "dec n \<noteq> []"
  by (simp add: dec.simps [of n])

lemma dec_no_minus [simp]: "CHR ''-'' \<notin> set (dec n)"
  using dec_digits [of "CHR ''-''" n] by auto

lemma hd_dec [simp]: "hd (dec n) \<noteq> CHR ''-''"
  using hd_in_set [of "dec n"] dec_no_minus [of n] by (metis dec_ne_Nil)

lemma split_dec:
  "takeWhile (\<lambda>c. c \<noteq> CHR ''.'') (dec m @ CHR ''.'' # r) = dec m"
  "dropWhile (\<lambda>c. c \<noteq> CHR ''.'') (dec m @ CHR ''.'' # r) = CHR ''.'' # r"
  using dec_separators(1) [of m] by (auto simp: takeWhile_append dropWhile_append takeWhile_eq_all_conv)

lemma value_printf_f1:
  "value_f1 (printf_f1 x) = (if x < 0 then -1 else 1) * of_int (round_half_even (10 * \<bar>x\<bar>)) / 10"
proof -
  have "0 \<le> round_half_even (10 * \<bar>x\<bar>)"
    by (auto simp: round_half_even_def Let_def)
  moreover define n where "n = nat (round_half_even (10 * \<bar>x\<bar>))"
  ultimately have n: "of_int (round_half_even (10 * \<bar>x\<bar>)) = (of_nat n :: rat)"
    by simp
  have "(of_nat n :: rat) = of_nat (10 * (n div 10) + n mod 10)"
    by simp
  then have "(of_nat n :: rat) / 10 = of_nat (n div 10) + of_nat (n mod 10) / 10"
    by (simp only: of_nat_add of_nat_mult add_divide_distrib)
  then show ?thesis
    unfolding n by (simp add: value_f1_def printf_f1_def n_def [symmetric] split_dec Let_def)
qed

lemma printf_f1_error: "\<bar>value_f1 (printf_f1 x) - x\<bar> \<le> 1 / 20"
proof -
  have "\<bar>of_int (round_half_even (10 * \<bar>x\<bar>)) - 10 * \<bar>x\<bar>\<bar> \<le> 1 / 2"
    by (rule round_half_even_error)
  then show ?thesis
    unfolding value_printf_f1 by (simp add: abs_le_iff abs_if split: if_splits)
qed

section \<open>When the status is printed\<close>

definition status_lines :: "StreamConfiguration \<Rightarrow> list_s \<Rightarrow> string list" where
  "status_lines config l = concat (map (\<lambda>p. streamLog (the (sc_heap config p))) (list_objects l))"

definition has_streams :: "StreamConfiguration \<Rightarrow> list_s \<Rightarrow> bool" where
  "has_streams config l \<longleftrightarrow> sc_streams config = Some l \<and> list_inv l \<and> \<not> list_is_empty l \<and> (\<forall>p \<in> set (list_objects l). sc_heap config p \<noteq> None)"

fun log_ticks :: "StreamConfiguration list \<Rightarrow> float32 \<Rightarrow> (float32 \<times> string list list) option" where
  "log_ticks [] acc = Some (acc, [])"
| "log_ticks (config # configs) acc = do {
     (acc, out) \<leftarrow> stream_log_status config acc;
     (acc, outs) \<leftarrow> log_ticks configs acc;
     Some (acc, out # outs)
   }"

lemma log_streams:
  assumes "list_inv l" "\<forall>p \<in> set (list_objects l). heap p \<noteq> None"
  shows "list_iterate l (\<lambda>object out. do { stream \<leftarrow> heap object; Some (out @ streamLog stream) }) [] =
    Some (concat (map (\<lambda>p. streamLog (the (heap p))) (list_objects l)))"
proof -
  have "fold (\<lambda>x r. r \<bind> (\<lambda>out. do { stream \<leftarrow> heap x; Some (out @ streamLog stream) })) ps (Some out) =
      Some (out @ concat (map (\<lambda>p. streamLog (the (heap p))) ps))" if "\<forall>p \<in> set ps. heap p \<noteq> None" for ps out
    using that by (induction ps arbitrary: out) auto
  with assms show ?thesis
    by (simp add: list_iterate_in_order)
qed

lemma stream_log_tick:
  assumes "has_streams config l"
  shows "stream_log_status config (timer_acc n) = Some (if n < 75 then (timer_acc (Suc n), []) else (0, status_lines config l))"
  using assms timer_acc_limit [of "Suc n"] log_streams [of l "sc_heap config"]
  by (simp add: has_streams_def stream_log_status_def status_lines_def timer_acc_Suc [symmetric] not_less Let_def)

lemma log_ticks_from:
  assumes "length configs + n = 75" "list_all2 has_streams configs ls" "has_streams config l"
  shows "log_ticks (configs @ [config]) (timer_acc n) = Some (0, replicate (length configs) [] @ [status_lines config l])"
  using assms(2,1)
proof (induction configs ls arbitrary: n rule: list_all2_induct)
  case Nil
  then show ?case
    by (simp add: stream_log_tick [OF assms(3)])
next
  case (Cons c cs l' ls)
  then show ?case
    using Cons.IH [of "Suc n"] by (simp add: stream_log_tick [of c l'])
qed

text \<open>
  With streams at every tick, a debug build prints nothing for 75 ticks and then one line for each stream in the order of the
  list, and the accumulator starts again: the interval of five seconds takes 76 ticks in single precision.
\<close>

theorem stream_log_period:
  assumes "length configs = 75" "list_all2 has_streams configs ls" "has_streams config l"
  shows "log_ticks (configs @ [config]) 0 = Some (0, replicate 75 [] @ [status_lines config l])"
  using log_ticks_from [of configs 0 ls config l] assms by (simp add: timer_acc_def)

end
