(* ===== verification/Bitstream_Float.thy ===== *)
theory Bitstream_Float
  imports Bitstream Float32
begin

text \<open>
  The floating point fields of \<^verbatim>\<open>bitstream.c\<close>: a \<^verbatim>\<open>float\<close> is sent as a sign, fifteen bits of whole part
  and sixteen bits of fraction. Fixed-point numbers come back unchanged, except those just
  below the next integer: the fraction is scaled by 65537 instead of 65536.
\<close>

section \<open>Definitions\<close>

text \<open>Conversion to an integer type drops the fraction; outside the range of the type it is undefined.\<close>

definition float_to_uint32 :: "float32 \<Rightarrow> u32 option" where
  "float_to_uint32 x =
     (let i = (if x < 0 then - \<lfloor>- x\<rfloor> else \<lfloor>x\<rfloor>) in if 0 \<le> i \<and> i < 2 ^ 32 then Some (word_of_int i) else None)"

definition float_to_int :: "float32 \<Rightarrow> int option" where
  "float_to_int x =
     (let i = (if x < 0 then - \<lfloor>- x\<rfloor> else \<lfloor>x\<rfloor>) in if - (2 ^ 31) \<le> i \<and> i < 2 ^ 31 then Some i else None)"

definition bitstream_write_float32 :: "endian \<Rightarrow> bitstream_t \<Rightarrow> float32 \<Rightarrow> bitstream_t option" where
  "bitstream_write_float32 e stream src = do {
     let (sign :: u32, src) = (if src < 0 then (1, - src) else (0, src));
     whole \<leftarrow> float_to_uint32 src;
     let p = push_bit 16 (whole AND 0x7fff) OR push_bit 31 sign;
     i \<leftarrow> float_to_int src;
     fraction \<leftarrow> float_to_uint32 (fmul (fsub src (rnd32 (of_int i))) 65537);
     let p = p OR (fraction AND 0xffff);
     bitstream_write_uint32 e stream p
   }"

definition bitstream_read_float32 :: "endian \<Rightarrow> bitstream_t \<Rightarrow> (float32 \<times> bitstream_t) option" where
  "bitstream_read_float32 e stream = do {
     (p, stream) \<leftarrow> bitstream_read_uint32 e stream;
     let f = rnd32 (of_int (uint (drop_bit 16 p AND 0x7fff)));
     let f = fadd f (fdiv (rnd32 (of_int (uint (p AND 0xffff)))) 65536);
     let f = (if drop_bit 31 p AND 1 = 1 then - f else f);
     Some (f, stream)
   }"

section \<open>The word on the wire\<close>

definition float_word :: "bool \<Rightarrow> u32 \<Rightarrow> u32 \<Rightarrow> u32" where
  "float_word neg whole fraction = push_bit 16 (whole AND 0x7fff) OR push_bit 31 (if neg then 1 else 0) OR (fraction AND 0xffff)"

lemma float_masks: "(0x7fff :: u32) = mask 15" "(0xffff :: u32) = mask 16"
  by (simp_all add: mask_eq_exp_minus_1)

lemma float_word_parts:
  "drop_bit 16 (float_word neg whole fraction) AND 0x7fff = take_bit 15 whole"
  "float_word neg whole fraction AND 0xffff = take_bit 16 fraction"
  "drop_bit 31 (float_word neg whole fraction) AND 1 = (if neg then 1 else 0)"
proof -
  show "drop_bit 16 (float_word neg whole fraction) AND 0x7fff = take_bit 15 whole"
    unfolding float_word_def float_masks by (rule bit_word_eqI) (auto simp: bit_simps)
  show "float_word neg whole fraction AND 0xffff = take_bit 16 fraction"
    unfolding float_word_def float_masks by (rule bit_word_eqI) (auto simp: bit_simps)
  show "drop_bit 31 (float_word neg whole fraction) AND 1 = (if neg then 1 else 0)"
    unfolding float_word_def float_masks by (rule bit_word_eqI) (auto simp: bit_simps)
qed

section \<open>Fixed-point numbers\<close>

lemma representable32_minus:
  assumes "representable32 x"
  shows "representable32 (- x)"
proof -
  obtain n e where "\<bar>n\<bar> < 2 ^ 24" "- 149 \<le> e" "x = of_int n * 2 powi e"
    using assms by (auto simp: representable32_def)
  then show ?thesis
    unfolding representable32_def by (intro exI [of _ "- n"] exI [of _ e]) simp
qed

lemma rnd32_fixed: "\<bar>k\<bar> < 2 ^ 24 \<Longrightarrow> rnd32 (of_int k / 65536) = of_int k / 65536"
  by (rule rnd32_representable, unfold representable32_def, rule exI [of _ k], rule exI [of _ "-16"])
    (simp add: power_int_def power_divide)

lemma rnd32_small: "\<bar>k\<bar> < 2 ^ 24 \<Longrightarrow> rnd32 (of_int k) = of_int k"
  by (rule rnd32_representable, unfold representable32_def, rule exI [of _ k], rule exI [of _ 0]) simp

text \<open>The scaled fraction: below 65408 the product with 65537 drops to the right number, at 65535 it is rounded up to \<open>2 ^ 16\<close>.\<close>

lemma scaled_fraction:
  fixes k :: int
  assumes "0 \<le> k" "k < 65408"
  shows "\<lfloor>fmul (of_int k / 65536) 65537\<rfloor> = k"
proof (cases "k = 0")
  case True
  then show ?thesis
    by (simp add: fmul_def)
next
  case False
  let ?x = "of_int k / 65536 * 65537 :: rat"
  have k: "(1::rat) \<le> of_int k" "(of_int k :: rat) \<le> 65407"
    using assms False by simp_all
  then have x: "1 \<le> ?x" "?x < 2 powi 16"
    by (simp_all add: field_simps)
  define r where "r = rnd32 ?x"
  have "\<bar>r - ?x\<bar> \<le> 2 powi (16 - 25)"
    unfolding r_def using x by (intro rnd32_error) simp_all
  moreover have "(2::rat) powi (16 - 25) = 1 / 512"
    by (simp add: power_int_def power_divide)
  ultimately have up: "r \<le> ?x + 1 / 512"
    by (simp only: abs_diff_le_iff)
  have "\<bar>r - ?x\<bar> \<le> ?x / 2 ^ 24"
    unfolding r_def using x(1) by (rule rnd32_relative)
  then have "?x - ?x / 2 ^ 24 \<le> r"
    by (simp only: abs_le_iff) simp
  then have low: "of_int k \<le> r"
    using k by (simp add: field_simps)
  have "r < of_int k + 1"
    using up k by (simp add: field_simps)
  with low have "of_int k \<le> rnd32 ?x" "rnd32 ?x < of_int k + 1"
    by (simp_all only: r_def)
  then show ?thesis
    unfolding fmul_def by (intro floor_unique)
qed

lemma fixed_parts:
  fixes a :: int
  assumes "0 \<le> a" "a < 2 ^ 31"
  shows "\<lfloor>of_int a / (65536 :: rat)\<rfloor> = a div 65536" "of_int a / (65536 :: rat) - of_int (a div 65536) = of_int (a mod 65536) / 65536"
    "0 \<le> a div 65536" "a div 65536 < 2 ^ 15" "0 \<le> a mod 65536" "a mod 65536 < 2 ^ 16"
proof -
  show "\<lfloor>of_int a / (65536 :: rat)\<rfloor> = a div 65536"
    using floor_divide_of_int_eq [of a 65536, where 'a = rat] by simp
  have "of_int a / (65536 :: rat) = of_int (a div 65536 * 65536 + a mod 65536) / 65536"
    by (simp only: div_mult_mod_eq)
  also have "\<dots> = of_int (a div 65536) + of_int (a mod 65536) / 65536"
    by (simp only: of_int_add of_int_mult of_int_numeral add_divide_distrib nonzero_mult_div_cancel_right zero_neq_numeral [symmetric] not_False_eq_True simp_thms)
  finally show "of_int a / (65536 :: rat) - of_int (a div 65536) = of_int (a mod 65536) / 65536"
    by (simp only: add_diff_cancel_left')
  show "0 \<le> a div 65536" "a div 65536 < 2 ^ 15" "0 \<le> a mod 65536" "a mod 65536 < 2 ^ 16"
    using assms by auto
qed

lemma float_to_small:
  assumes "\<lfloor>x\<rfloor> = i" "0 \<le> i" "i < 2 ^ 31"
  shows "float_to_uint32 x = Some (word_of_int i)" "float_to_int x = Some i"
proof -
  have "0 \<le> x"
    using assms(1,2) by (metis zero_le_floor)
  then show "float_to_uint32 x = Some (word_of_int i)" "float_to_int x = Some i"
    using assms by (simp_all add: float_to_uint32_def float_to_int_def)
qed

text \<open>What is written for a fixed-point number; \<open>k\<close> is what the fraction is scaled to.\<close>

lemma write_float32_word:
  assumes "\<bar>src\<bar> = of_int a / 65536" "0 \<le> a" "a < 2 ^ 31" "\<lfloor>fmul (of_int (a mod 65536) / 65536) 65537\<rfloor> = k" "0 \<le> k" "k < 2 ^ 31"
  shows "bitstream_write_float32 e s src = bitstream_write_uint32 e s (float_word (src < 0) (word_of_int (a div 65536)) (word_of_int k))"
proof -
  note parts = fixed_parts [OF assms(2,3)]
  have whole: "float_to_uint32 (of_int a / 65536) = Some (word_of_int (a div 65536))" "float_to_int (of_int a / 65536) = Some (a div 65536)"
    using parts(1,3,4) by (auto intro!: float_to_small)
  have "fsub (of_int a / 65536) (rnd32 (of_int (a div 65536))) = of_int (a mod 65536) / 65536"
  proof -
    have "rnd32 (of_int (a div 65536)) = of_int (a div 65536)" "rnd32 (of_int (a mod 65536) / 65536) = of_int (a mod 65536) / 65536"
      by (rule rnd32_small, use parts(3-6) in simp, rule rnd32_fixed, use parts(3-6) in simp)
    then show ?thesis
      unfolding fsub_def by (simp only: parts(2))
  qed
  then have "float_to_uint32 (fmul (fsub (of_int a / 65536) (rnd32 (of_int (a div 65536)))) 65537) = Some (word_of_int k)"
    using float_to_small(1) [OF assms(4-6)] by (simp only:)
  moreover have "(if src < 0 then (1 :: u32, - src) else (0, src)) = (if src < 0 then 1 else 0, of_int a / 65536)"
    using assms(1) by (auto simp: abs_if split: if_splits)
  ultimately show ?thesis
    using whole by (simp add: bitstream_write_float32_def float_word_def ac_simps)
qed

lemma read_float32_word:
  assumes "bitstream_read_uint32 e s = Some (float_word neg (word_of_int w) (word_of_int k), s')" "0 \<le> w" "w < 2 ^ 15" "0 \<le> k" "k < 2 ^ 16"
  shows "bitstream_read_float32 e s = Some (if neg then - rnd32 (of_int w + of_int k / 65536) else rnd32 (of_int w + of_int k / 65536), s')"
proof -
  have u: "uint (take_bit 15 (word_of_int w :: u32)) = w" "uint (take_bit 16 (word_of_int k :: u32)) = k"
    using assms(2-5) by (simp_all add: unsigned_take_bit_eq unsigned_of_int take_bit_int_eq_self)
  have r: "rnd32 (of_int w) = of_int w" "rnd32 (of_int k) = of_int k" "rnd32 (of_int k / 65536) = of_int k / 65536"
    by (rule rnd32_small, use assms(2-5) in simp, rule rnd32_small, use assms(2-5) in simp, rule rnd32_fixed, use assms(2-5) in simp)
  show ?thesis
    unfolding bitstream_read_float32_def assms(1) bind.bind_lunit prod.case Let_def float_word_parts u fadd_def fdiv_def r by simp
qed

section \<open>Round trip\<close>

text \<open>
  (C25) Fixed-point numbers survive. A number of at most fifteen bits of whole part and sixteen bits of
  fraction, of either sign, is read back exactly as it was written, on both byte orders, if its
  fraction is below 65408 / 65536.
\<close>

theorem bitstream_float32_roundtrip:
  assumes "bs_wf s" "bs_room s 4" "representable32 src" "\<bar>src\<bar> = of_int a / 65536" "0 \<le> a" "a < 2 ^ 31" "a mod 65536 < 65408"
  shows "\<exists>s'. bitstream_write_float32 e s src = Some s' \<and> bs_offset s' = bs_offset s + 4 \<and>
    bitstream_read_float32 e (s'\<lparr>bs_offset := bs_offset s\<rparr>) = Some (src, s')"
proof -
  note parts = fixed_parts [OF assms(5,6)]
  let ?w = "a div 65536" and ?k = "a mod 65536"
  let ?p = "float_word (src < 0) (word_of_int ?w) (word_of_int ?k)"
  have k: "\<lfloor>fmul (of_int ?k / 65536) 65537\<rfloor> = ?k" "?k < 2 ^ 31"
    using scaled_fraction [OF parts(5) assms(7)] parts(6) by simp_all
  obtain s' where s': "bitstream_write_uint32 e s ?p = Some s'" "bitstream_read_uint32 e (s'\<lparr>bs_offset := bs_offset s\<rparr>) = Some (?p, s')"
      "bs_offset s' = bs_offset s + 4"
    using uint32.roundtrip [of s e ?p] uint32.put_fits [of s e ?p] assms(1,2) by auto
  have "of_int ?w + of_int ?k / (65536 :: rat) = \<bar>src\<bar>"
    unfolding assms(4) using parts(2) by (simp only: diff_eq_eq ac_simps)
  moreover have "rnd32 \<bar>src\<bar> = \<bar>src\<bar>"
  proof -
    have "representable32 (- src)"
      using assms(3) by (rule representable32_minus)
    then show ?thesis
      using assms(3) by (simp add: abs_if rnd32_representable)
  qed
  ultimately have "(if src < 0 then - rnd32 (of_int ?w + of_int ?k / 65536) else rnd32 (of_int ?w + of_int ?k / 65536)) = src"
    by (simp add: abs_if split: if_splits)
  then show ?thesis
    using write_float32_word [OF assms(4-6) k(1) parts(5) k(2), of e s, unfolded s'(1)] read_float32_word [OF s'(2) parts(3-6)] s'(3)
    by (intro exI [of _ s'] conjI) (assumption, assumption, simp only:)
qed

theorem bitstream_float32_roundtrip_witness:
  "\<exists>s'. bitstream_write_float32 LittleEndian (bitstream_create (replicate 8 0) 8) (-5 / 4) = Some s' \<and>
     bitstream_read_float32 LittleEndian (s'\<lparr>bs_offset := 0\<rparr>) = Some (-5 / 4, s')"
proof -
  have "representable32 (-5 / 4)"
    unfolding representable32_def by (rule exI [of _ "-5"], rule exI [of _ "-2"]) (simp add: power_int_def power_divide)
  then show ?thesis
    using bitstream_float32_roundtrip [of "bitstream_create (replicate 8 0) 8" "-5 / 4" "81920" LittleEndian]
    by (simp add: bitstream_create_def bs_wf_def bs_room_def) blast
qed

text \<open>
  Just below the next integer the fraction is lost: the product with 65537 is rounded up to
  \<open>2 ^ 16\<close>, of which the mask leaves nothing, and the number is read back without its fraction.
\<close>

theorem bitstream_float32_wraps:
  assumes "bs_wf s" "bs_room s 4" "0 \<le> w" "w < 2 ^ 15" "\<bar>src\<bar> = of_int w + 65535 / 65536"
  shows "\<exists>s'. bitstream_write_float32 e s src = Some s' \<and>
    bitstream_read_float32 e (s'\<lparr>bs_offset := bs_offset s\<rparr>) = Some (if src < 0 then - of_int w else of_int w, s')"
proof -
  let ?a = "w * 65536 + 65535"
  have a: "\<bar>src\<bar> = of_int ?a / 65536" "0 \<le> ?a" "?a < 2 ^ 31" "?a mod 65536 = 65535" "?a div 65536 = w"
    using assms(3-5) by (simp_all add: field_simps)
  have "rnd32 (of_int (2 ^ 32 - 1) / 2 ^ 16) = of_int (round_shift 8 (2 ^ 32 - 1)) / 2 ^ 16"
    by (rule rnd32_shift) simp_all
  then have k: "\<lfloor>fmul (of_int (?a mod 65536) / 65536) 65537\<rfloor> = 65536"
    unfolding a(4) by (simp add: fmul_def round_shift_def)
  let ?p = "float_word (src < 0) (word_of_int w) (word_of_int 0)"
  have p: "float_word (src < 0) (word_of_int w) (word_of_int 65536) = ?p"
    by (simp add: float_word_def)
  obtain s' where s': "bitstream_write_uint32 e s ?p = Some s'" "bitstream_read_uint32 e (s'\<lparr>bs_offset := bs_offset s\<rparr>) = Some (?p, s')"
    using uint32.roundtrip [of s e ?p] assms(1,2) by auto
  have "rnd32 (of_int w + of_int 0 / 65536) = of_int w"
    using rnd32_small [of w] assms(3,4) by simp
  then have "bitstream_read_float32 e (s'\<lparr>bs_offset := bs_offset s\<rparr>) = Some (if src < 0 then - of_int w else of_int w, s')"
    using read_float32_word [OF s'(2) assms(3,4)] by simp
  moreover have "bitstream_write_float32 e s src = Some s'"
    using write_float32_word [OF a(1-3) k] s'(1) p a(5) by simp
  ultimately show ?thesis
    by blast
qed

end
