(* ===== verification/Transaction_Protocol.thy ===== *)
theory Transaction_Protocol
  imports Stream_Protocol
begin

text \<open>
  Transaction packets (\<^verbatim>\<open>transaction_protocol.c\<close>): the header, responses, the four
  kinds of type-length-value attribute and one object per kind of request. Character arrays
  are byte lists of the declared size. The C code casts one zero-filled block to the structure
  that the request type selects; here that is a datatype with one constructor per structure,
  and an unpacked object starts from the zero-filled one.
\<close>

section \<open>Definitions\<close>

type_synonym TransactionId = u32
type_synonym huid_t = u64

text \<open>Signed seconds of the C library.\<close>

type_synonym time_t = int

abbreviation (input) TransactionTypeRequest :: u32 where "TransactionTypeRequest \<equiv> 0x01"
abbreviation (input) TransactionTypeResponse :: u32 where "TransactionTypeResponse \<equiv> 0x02"

subsection \<open>Header and response\<close>

definition transactionProtocolPackHeader ::
    "bitstream_t \<Rightarrow> TransactionId \<Rightarrow> u32 \<Rightarrow> bitstream_t option" where
  "transactionProtocolPackHeader bitstream transactionId transactionType = do {
     bitstream \<leftarrow> protocolPackHeader bitstream kProtocolDefaultId kProtocolDefaultVersion ProtocolTypeTransaction;
     bitstream \<leftarrow> bitstream_write_uint8 bitstream transactionId;
     bitstream_write_uint8 bitstream transactionType
   }"

definition transactionProtocolUnpackHeader ::
    "bitstream_t \<Rightarrow> TransactionId \<Rightarrow> u32 \<Rightarrow> (UnpackResult \<times> TransactionId \<times> u32 \<times> bitstream_t) option" where
  "transactionProtocolUnpackHeader bitstream transactionId transactionType = do {
     (result, bitstream) \<leftarrow>
       protocolUnpackHeader bitstream kProtocolDefaultId kProtocolDefaultVersion ProtocolTypeTransaction;
     if result \<noteq> UnpackValid then Some (UnpackInvalid, transactionId, transactionType, bitstream)
     else do {
       (transactionId, bitstream) \<leftarrow> bitstream_read_uint8 bitstream;
       (transactionType, bitstream) \<leftarrow> bitstream_read_uint8 bitstream;
       Some (UnpackValid, transactionId, transactionType, bitstream)
     }
   }"

abbreviation (input) TransactionResponseTypeProvisional :: u32 where
  "TransactionResponseTypeProvisional \<equiv> 0x01"
abbreviation (input) TransactionResponseTypeSuccess :: u32 where
  "TransactionResponseTypeSuccess \<equiv> 0x02"
abbreviation (input) TransactionResponseTypeClientError :: u32 where
  "TransactionResponseTypeClientError \<equiv> 0x04"
abbreviation (input) TransactionResponseTypeServerError :: u32 where
  "TransactionResponseTypeServerError \<equiv> 0x05"
abbreviation (input) TransactionResponseTypeGlobalFailure :: u32 where
  "TransactionResponseTypeGlobalFailure \<equiv> 0x06"

definition transactionProtocolPackResponse :: "bitstream_t \<Rightarrow> u32 \<Rightarrow> bitstream_t option" where
  "transactionProtocolPackResponse bitstream responseType =
     bitstream_write_uint8 bitstream responseType"

definition transactionProtocolUnpackResponse ::
    "bitstream_t \<Rightarrow> (UnpackResult \<times> u32 \<times> bitstream_t) option" where
  "transactionProtocolUnpackResponse bitstream = do {
     (responseType, bitstream) \<leftarrow> bitstream_read_uint8 bitstream;
     Some (UnpackValid, responseType, bitstream)
   }"

subsection \<open>Attributes\<close>

abbreviation (input) TransactionAttributeTypeString :: u32 where
  "TransactionAttributeTypeString \<equiv> 0x01"
abbreviation (input) TransactionAttributeTypeAddress :: u32 where
  "TransactionAttributeTypeAddress \<equiv> 0x02"
abbreviation (input) TransactionAttributeTypeSeconds :: u32 where
  "TransactionAttributeTypeSeconds \<equiv> 0x03"
abbreviation (input) TransactionAttributeTypeCount :: u32 where
  "TransactionAttributeTypeCount \<equiv> 0x04"

abbreviation (input) kTransactionAttributeLengthAddress :: u32 where
  "kTransactionAttributeLengthAddress \<equiv> 8"
abbreviation (input) kTransactionAttributeLengthSeconds :: u32 where
  "kTransactionAttributeLengthSeconds \<equiv> 4"
abbreviation (input) kTransactionAttributeLengthCount :: u32 where
  "kTransactionAttributeLengthCount \<equiv> 2"

text \<open>\<open>2 + strlen(id)\<close>, converted to the \<^verbatim>\<open>unsigned int\<close> parameter it is passed to.\<close>

definition mTransactionAttributeLengthString :: "u8 list \<Rightarrow> u32 option" where
  "mTransactionAttributeLengthString str = do { n \<leftarrow> c_strlen str; Some (of_nat (2 + n)) }"

definition transactionProtocolPackAttributeString ::
    "endian \<Rightarrow> bitstream_t \<Rightarrow> u8 list \<Rightarrow> bitstream_t option" where
  "transactionProtocolPackAttributeString e bitstream str = do {
     bitstream \<leftarrow> bitstream_write_uint8 bitstream TransactionAttributeTypeString;
     n \<leftarrow> mTransactionAttributeLengthString str;
     bitstream \<leftarrow> bitstream_write_uint8 bitstream n;
     (_, bitstream) \<leftarrow> bitstream_write_str e bitstream str;
     Some bitstream
   }"

definition transactionProtocolUnpackAttributeString ::
    "endian \<Rightarrow> bitstream_t \<Rightarrow> u8 list \<Rightarrow> size_t \<Rightarrow> (UnpackResult \<times> u8 list \<times> bitstream_t) option" where
  "transactionProtocolUnpackAttributeString e bitstream str max_len = do {
     (attributeType, bitstream) \<leftarrow> bitstream_read_uint8 bitstream;
     if attributeType \<noteq> TransactionAttributeTypeString then Some (UnpackInvalid, str, bitstream)
     else do {
       (attributeLength, bitstream) \<leftarrow> bitstream_read_uint8 bitstream;
       (_, str, bitstream) \<leftarrow> bitstream_read_str e bitstream str max_len;
       Some (UnpackValid, str, bitstream)
     }
   }"

definition transactionProtocolPackAttributeAddress ::
    "bitstream_t \<Rightarrow> net_addr_t \<Rightarrow> bitstream_t option" where
  "transactionProtocolPackAttributeAddress bitstream address = do {
     bitstream \<leftarrow> bitstream_write_uint8 bitstream TransactionAttributeTypeAddress;
     bitstream \<leftarrow> bitstream_write_uint8 bitstream kTransactionAttributeLengthAddress;
     let port = ucast (sin_port address);
     bitstream \<leftarrow> bitstream_write_uint16_endian bitstream port;
     bitstream_write_uint32_endian bitstream (sin_addr address)
   }"

definition transactionProtocolUnpackAttributeAddress ::
    "endian \<Rightarrow> bitstream_t \<Rightarrow> net_addr_t \<Rightarrow> (UnpackResult \<times> net_addr_t \<times> bitstream_t) option" where
  "transactionProtocolUnpackAttributeAddress e bitstream address = do {
     (attributeType, bitstream) \<leftarrow> bitstream_read_uint8 bitstream;
     if attributeType \<noteq> TransactionAttributeTypeAddress then Some (UnpackInvalid, address, bitstream)
     else do {
       (attributeLength, bitstream) \<leftarrow> bitstream_read_uint8 bitstream;
       if attributeLength \<noteq> kTransactionAttributeLengthAddress
       then Some (UnpackInvalid, address, bitstream)
       else do {
         (port, bitstream) \<leftarrow> bitstream_read_uint16_endian bitstream;
         (host, bitstream) \<leftarrow> bitstream_read_uint32_endian bitstream;
         let address = net_addr_set e host (ucast port) False;
         Some (UnpackValid, address, bitstream)
       }
     }
   }"

definition transactionProtocolPackAttributeSeconds ::
    "endian \<Rightarrow> bitstream_t \<Rightarrow> time_t \<Rightarrow> bitstream_t option" where
  "transactionProtocolPackAttributeSeconds e bitstream seconds = do {
     bitstream \<leftarrow> bitstream_write_uint8 bitstream TransactionAttributeTypeSeconds;
     bitstream \<leftarrow> bitstream_write_uint8 bitstream kTransactionAttributeLengthSeconds;
     bitstream_write_uint32 e bitstream (of_int seconds)
   }"

definition transactionProtocolUnpackAttributeSeconds ::
    "endian \<Rightarrow> bitstream_t \<Rightarrow> time_t \<Rightarrow> (UnpackResult \<times> time_t \<times> bitstream_t) option" where
  "transactionProtocolUnpackAttributeSeconds e bitstream seconds = do {
     (attributeType, bitstream) \<leftarrow> bitstream_read_uint8 bitstream;
     if \<not> attributeType = TransactionAttributeTypeSeconds then Some (UnpackInvalid, seconds, bitstream)
     else do {
       (attributeLength, bitstream) \<leftarrow> bitstream_read_uint8 bitstream;
       if attributeLength \<noteq> kTransactionAttributeLengthSeconds
       then Some (UnpackInvalid, seconds, bitstream)
       else do {
         (v, bitstream) \<leftarrow> bitstream_read_uint32 e bitstream;
         let seconds = uint v;
         Some (UnpackValid, seconds, bitstream)
       }
     }
   }"

definition transactionProtocolPackAttributeCount ::
    "endian \<Rightarrow> bitstream_t \<Rightarrow> u32 \<Rightarrow> bitstream_t option" where
  "transactionProtocolPackAttributeCount e bitstream count = do {
     bitstream \<leftarrow> bitstream_write_uint8 bitstream TransactionAttributeTypeCount;
     bitstream \<leftarrow> bitstream_write_uint8 bitstream kTransactionAttributeLengthCount;
     bitstream_write_uint16 e bitstream count
   }"

definition transactionProtocolUnpackAttributeCount ::
    "endian \<Rightarrow> bitstream_t \<Rightarrow> u32 \<Rightarrow> (UnpackResult \<times> u32 \<times> bitstream_t) option" where
  "transactionProtocolUnpackAttributeCount e bitstream count = do {
     (attributeType, bitstream) \<leftarrow> bitstream_read_uint8 bitstream;
     if \<not> attributeType = TransactionAttributeTypeCount then Some (UnpackInvalid, count, bitstream)
     else do {
       (attributeLength, bitstream) \<leftarrow> bitstream_read_uint8 bitstream;
       if attributeLength \<noteq> kTransactionAttributeLengthCount
       then Some (UnpackInvalid, count, bitstream)
       else do {
         (count, bitstream) \<leftarrow> bitstream_read_uint16 e bitstream;
         Some (UnpackValid, count, bitstream)
       }
     }
   }"

subsection \<open>User and resource\<close>

abbreviation (input) kUniversalUserNameMaxLength :: size_t where "kUniversalUserNameMaxLength \<equiv> 40"
abbreviation (input) kUniversalUserEmailMaxLength :: size_t where "kUniversalUserEmailMaxLength \<equiv> 40"
abbreviation (input) kUniversalPeerIdMaxLength :: size_t where "kUniversalPeerIdMaxLength \<equiv> 32"
abbreviation (input) kUniversalResourceDataMaxLength :: size_t where
  "kUniversalResourceDataMaxLength \<equiv> 128"

record TransactionObjectUserCreate =
  uc_uid :: huid_t
  uc_name :: "u8 list"
  uc_email :: "u8 list"

definition transactionProtocolPackObjectUserCreate ::
    "endian \<Rightarrow> bitstream_t \<Rightarrow> TransactionObjectUserCreate \<Rightarrow> bitstream_t option" where
  "transactionProtocolPackObjectUserCreate e bitstream ob = do {
     bitstream \<leftarrow> bitstream_write_uint64 e bitstream (uc_uid ob);
     bitstream \<leftarrow> transactionProtocolPackAttributeString e bitstream (uc_name ob);
     transactionProtocolPackAttributeString e bitstream (uc_email ob)
   }"

definition transactionProtocolUnpackObjectUserCreate ::
    "endian \<Rightarrow> bitstream_t \<Rightarrow> TransactionObjectUserCreate \<Rightarrow>
     (UnpackResult \<times> TransactionObjectUserCreate \<times> bitstream_t) option" where
  "transactionProtocolUnpackObjectUserCreate e bitstream ob = do {
     (v, bitstream) \<leftarrow> bitstream_read_uint64 e bitstream;
     let ob = ob\<lparr>uc_uid := v\<rparr>;
     (unpackResult, a, bitstream) \<leftarrow>
       transactionProtocolUnpackAttributeString e bitstream (uc_name ob) kUniversalUserNameMaxLength;
     let ob = ob\<lparr>uc_name := a\<rparr>;
     (unpackResult, a, bitstream) \<leftarrow>
       transactionProtocolUnpackAttributeString e bitstream (uc_email ob) kUniversalUserEmailMaxLength;
     let ob = ob\<lparr>uc_email := a\<rparr>;
     Some (unpackResult, ob, bitstream)
   }"

record TransactionObjectResourceCreate =
  rc_rid :: huid_t
  rc_data :: "u8 list"
  rc_length :: u32
  rc_uid :: huid_t

definition transactionProtocolPackObjectResourceCreate ::
    "endian \<Rightarrow> bitstream_t \<Rightarrow> TransactionObjectResourceCreate \<Rightarrow> bitstream_t option" where
  "transactionProtocolPackObjectResourceCreate e bitstream ob = do {
     bitstream \<leftarrow> bitstream_write_uint64 e bitstream (rc_rid ob);
     bitstream \<leftarrow> bitstream_write_uint64 e bitstream (rc_uid ob);
     bitstream \<leftarrow> bitstream_write_uint8 bitstream (rc_length ob);
     (_, bitstream) \<leftarrow> bitstream_write_bytes e bitstream (rc_data ob) (unat (rc_length ob));
     Some bitstream
   }"

text \<open>
  A number as it lies in memory. The members behind the data of a resource follow it in the block: the length at
  offset 144, four bytes of padding, the user id at 152, and from 160 on the rest of the block of \<open>sz\<close> bytes
  the object lies in, which is 256 for a \<open>TransactionObject\<close>. The length comes from the packet and is not
  compared with the 128 bytes of the array: more data go over these members, and beyond the block they are a fault.
\<close>

definition host_bytes :: "endian \<Rightarrow> nat \<Rightarrow> 'a :: len word \<Rightarrow> u8 list" where
  "host_bytes e k v =
     (let bs = map (\<lambda>i. ucast (drop_bit (8 * i) v)) [0..<k] in case e of LittleEndian \<Rightarrow> bs | BigEndian \<Rightarrow> rev bs)"

definition host_word :: "endian \<Rightarrow> u8 list \<Rightarrow> 'a :: len word" where
  "host_word e bs =
     foldr (\<lambda>b v. ucast b OR push_bit 8 v) (case e of LittleEndian \<Rightarrow> bs | BigEndian \<Rightarrow> rev bs) 0"

definition transactionProtocolUnpackObjectResourceCreate ::
    "endian \<Rightarrow> nat \<Rightarrow> bitstream_t \<Rightarrow> TransactionObjectResourceCreate \<Rightarrow>
     (UnpackResult \<times> TransactionObjectResourceCreate \<times> bitstream_t) option" where
  "transactionProtocolUnpackObjectResourceCreate e sz bitstream ob = do {
     let unpackResult = UnpackValid;
     (v, bitstream) \<leftarrow> bitstream_read_uint64 e bitstream;
     let ob = ob\<lparr>rc_rid := v\<rparr>;
     (v, bitstream) \<leftarrow> bitstream_read_uint64 e bitstream;
     let ob = ob\<lparr>rc_uid := v\<rparr>;
     (n, bitstream) \<leftarrow> bitstream_read_uint8 bitstream;
     let ob = ob\<lparr>rc_length := n\<rparr>;
     let block = rc_data ob @ host_bytes e 4 (rc_length ob) @ replicate 4 0 @ host_bytes e 8 (rc_uid ob) @ replicate (sz - 160) 0;
     (read_length, block, bitstream) \<leftarrow> bitstream_read_bytes e bitstream block (unat (rc_length ob));
     let ob = ob\<lparr>rc_data := take 128 block, rc_length := host_word e (take 4 (drop 128 block)),
       rc_uid := host_word e (take 8 (drop 136 block))\<rparr>;
     let unpackResult = (if of_nat read_length \<noteq> rc_length ob then UnpackInvalid else unpackResult);
     Some (unpackResult, ob, bitstream)
   }"

subsection \<open>Presence\<close>

record TransactionObjectOnline =
  on_uid :: huid_t
  on_localAddress :: net_addr_t
  on_mappedAddress :: net_addr_t
  on_expireSeconds :: time_t

definition transactionProtocolPackObjectOnline ::
    "endian \<Rightarrow> bitstream_t \<Rightarrow> TransactionObjectOnline \<Rightarrow> bitstream_t option" where
  "transactionProtocolPackObjectOnline e bitstream ob = do {
     bitstream \<leftarrow> bitstream_write_uint64 e bitstream (on_uid ob);
     bitstream \<leftarrow> transactionProtocolPackAttributeAddress bitstream (on_localAddress ob);
     bitstream \<leftarrow> transactionProtocolPackAttributeAddress bitstream (on_mappedAddress ob);
     transactionProtocolPackAttributeSeconds e bitstream (on_expireSeconds ob)
   }"

definition transactionProtocolUnpackObjectOnline ::
    "endian \<Rightarrow> bitstream_t \<Rightarrow> TransactionObjectOnline \<Rightarrow>
     (UnpackResult \<times> TransactionObjectOnline \<times> bitstream_t) option" where
  "transactionProtocolUnpackObjectOnline e bitstream ob = do {
     (v, bitstream) \<leftarrow> bitstream_read_uint64 e bitstream;
     let ob = ob\<lparr>on_uid := v\<rparr>;
     (unpackResult, a, bitstream) \<leftarrow>
       transactionProtocolUnpackAttributeAddress e bitstream (on_localAddress ob);
     let ob = ob\<lparr>on_localAddress := a\<rparr>;
     (unpackResult, a, bitstream) \<leftarrow>
       transactionProtocolUnpackAttributeAddress e bitstream (on_mappedAddress ob);
     let ob = ob\<lparr>on_mappedAddress := a\<rparr>;
     (unpackResult, t, bitstream) \<leftarrow>
       transactionProtocolUnpackAttributeSeconds e bitstream (on_expireSeconds ob);
     let ob = ob\<lparr>on_expireSeconds := t\<rparr>;
     Some (unpackResult, ob, bitstream)
   }"

text \<open>Offline, connection refusal and disconnection carry one peer id each.\<close>

record TransactionObjectOffline =
  off_peerId :: "u8 list"

definition transactionProtocolPackObjectOffline ::
    "endian \<Rightarrow> bitstream_t \<Rightarrow> TransactionObjectOffline \<Rightarrow> bitstream_t option" where
  "transactionProtocolPackObjectOffline e bitstream ob =
     transactionProtocolPackAttributeString e bitstream (off_peerId ob)"

definition transactionProtocolUnpackObjectOffline ::
    "endian \<Rightarrow> bitstream_t \<Rightarrow> TransactionObjectOffline \<Rightarrow>
     (UnpackResult \<times> TransactionObjectOffline \<times> bitstream_t) option" where
  "transactionProtocolUnpackObjectOffline e bitstream ob = do {
     (unpackResult, a, bitstream) \<leftarrow>
       transactionProtocolUnpackAttributeString e bitstream (off_peerId ob) kUniversalPeerIdMaxLength;
     Some (unpackResult, ob\<lparr>off_peerId := a\<rparr>, bitstream)
   }"

subsection \<open>Peer lists\<close>

record TransactionObjectPeer =
  peer_peerId :: "u8 list"
  peer_localAddress :: net_addr_t
  peer_mappedAddress :: net_addr_t

text \<open>
  The array is declared with ten entries; the list here holds the entries of the block that is
  really behind the pointer, so that an index past them is an access outside the object.
\<close>

record TransactionObjectPeerList =
  pl_count :: u32
  pl_list :: "TransactionObjectPeer list"

definition transactionProtocolInitializeObjectPeerList ::
    "TransactionObjectPeerList \<Rightarrow> TransactionObjectPeerList" where
  "transactionProtocolInitializeObjectPeerList ob = ob\<lparr>pl_count := 0\<rparr>"

definition transactionProtocolAddPeerToObjectPeerList ::
    "TransactionObjectPeerList \<Rightarrow> TransactionObjectPeer \<Rightarrow> TransactionObjectPeerList option" where
  "transactionProtocolAddPeerToObjectPeerList ob objectPeer = do {
     l \<leftarrow> mem_write (pl_list ob) (unat (pl_count ob)) objectPeer;
     Some (ob\<lparr>pl_list := l, pl_count := pl_count ob + 1\<rparr>)
   }"

function pack_peers_loop ::
    "endian \<Rightarrow> bitstream_t \<Rightarrow> TransactionObjectPeerList \<Rightarrow> nat \<Rightarrow> bitstream_t option" where
  "pack_peers_loop e bitstream ob i =
     (if i < unat (pl_count ob)
      then do {
        p \<leftarrow> mem_read (pl_list ob) i;
        bitstream \<leftarrow> transactionProtocolPackAttributeString e bitstream (peer_peerId p);
        bitstream \<leftarrow> transactionProtocolPackAttributeAddress bitstream (peer_localAddress p);
        bitstream \<leftarrow> transactionProtocolPackAttributeAddress bitstream (peer_mappedAddress p);
        pack_peers_loop e bitstream ob (i + 1)
      }
      else Some bitstream)"
  by pat_completeness auto
termination
  by (relation "measure (\<lambda>(e, s, ob, i). unat (pl_count ob) - i)") auto

definition transactionProtocolPackObjectPeerList ::
    "endian \<Rightarrow> bitstream_t \<Rightarrow> TransactionObjectPeerList \<Rightarrow> bitstream_t option" where
  "transactionProtocolPackObjectPeerList e bitstream ob = do {
     bitstream \<leftarrow> transactionProtocolPackAttributeCount e bitstream (pl_count ob);
     pack_peers_loop e bitstream ob 0
   }"

text \<open>The body of the unpacking loop: the three attributes of one entry, the last result kept.\<close>

definition zero_peer :: TransactionObjectPeer where
  "zero_peer = \<lparr>peer_peerId = replicate 32 0, peer_localAddress = sockaddr_zero,
                peer_mappedAddress = sockaddr_zero\<rparr>"

text \<open>
  One round of the loop. Entry \<open>i\<close> begins at byte \<open>8 + 64 * i\<close> of the block of \<open>sz\<close> bytes that holds the list; the three calls
  get pointers into it, and only what a call writes must lie in the block: the bytes of a string that is accepted, and an
  address if the attribute is valid. \<open>l\<close> holds the entries that begin in the block.
\<close>

definition unpack_peer ::
    "endian \<Rightarrow> nat \<Rightarrow> bitstream_t \<Rightarrow> TransactionObjectPeer list \<Rightarrow> nat \<Rightarrow>
     (UnpackResult \<times> TransactionObjectPeer list \<times> bitstream_t) option" where
  "unpack_peer e sz bitstream l i = do {
     let at = 8 + 64 * i;
     let p = (if i < length l then l ! i else zero_peer);
     (unpackResult, a, bitstream) \<leftarrow>
       transactionProtocolUnpackAttributeString e bitstream (take (sz - at) (peer_peerId p)) kUniversalPeerIdMaxLength;
     let p = p\<lparr>peer_peerId := a @ drop (sz - at) (peer_peerId p)\<rparr>;
     (unpackResult, a, bitstream) \<leftarrow>
       transactionProtocolUnpackAttributeAddress e bitstream (peer_localAddress p);
     if unpackResult = UnpackValid \<and> sz < at + 48 then None
     else do {
       let p = p\<lparr>peer_localAddress := a\<rparr>;
       (unpackResult, a, bitstream) \<leftarrow>
         transactionProtocolUnpackAttributeAddress e bitstream (peer_mappedAddress p);
       if unpackResult = UnpackValid \<and> sz < at + 64 then None
       else Some (unpackResult, l[i := p\<lparr>peer_mappedAddress := a\<rparr>], bitstream)
     }
   }"

function unpack_peers_loop ::
    "endian \<Rightarrow> nat \<Rightarrow> bitstream_t \<Rightarrow> UnpackResult \<Rightarrow> TransactionObjectPeer list \<Rightarrow> nat \<Rightarrow> nat \<Rightarrow>
     (UnpackResult \<times> TransactionObjectPeer list \<times> bitstream_t) option" where
  "unpack_peers_loop e sz bitstream unpackResult l count i =
     (if i < count
      then do {
        (unpackResult, l, bitstream) \<leftarrow> unpack_peer e sz bitstream l i;
        unpack_peers_loop e sz bitstream unpackResult l count (i + 1)
      }
      else Some (unpackResult, l, bitstream))"
  by pat_completeness auto
termination
  by (relation "measure (\<lambda>(e, z, s, r, l, n, i). n - i)") auto

declare pack_peers_loop.simps [simp del] unpack_peers_loop.simps [simp del]

definition transactionProtocolUnpackObjectPeerList ::
    "endian \<Rightarrow> nat \<Rightarrow> bitstream_t \<Rightarrow> TransactionObjectPeerList \<Rightarrow>
     (UnpackResult \<times> TransactionObjectPeerList \<times> bitstream_t) option" where
  "transactionProtocolUnpackObjectPeerList e sz bitstream ob = do {
     (unpackResult, n, bitstream) \<leftarrow> transactionProtocolUnpackAttributeCount e bitstream (pl_count ob);
     let ob = ob\<lparr>pl_count := n\<rparr>;
     (unpackResult, l, bitstream) \<leftarrow>
       unpack_peers_loop e sz bitstream unpackResult (pl_list ob) (unat (pl_count ob)) 0;
     Some (unpackResult, ob\<lparr>pl_list := l\<rparr>, bitstream)
   }"

subsection \<open>Connections\<close>

record TransactionObjectConnect =
  co_peerId :: "u8 list"
  co_streamAddress :: net_addr_t

definition transactionProtocolPackObjectConnect ::
    "endian \<Rightarrow> bitstream_t \<Rightarrow> TransactionObjectConnect \<Rightarrow> bitstream_t option" where
  "transactionProtocolPackObjectConnect e bitstream ob = do {
     bitstream \<leftarrow> transactionProtocolPackAttributeString e bitstream (co_peerId ob);
     transactionProtocolPackAttributeAddress bitstream (co_streamAddress ob)
   }"

definition transactionProtocolUnpackObjectConnect ::
    "endian \<Rightarrow> bitstream_t \<Rightarrow> TransactionObjectConnect \<Rightarrow>
     (UnpackResult \<times> TransactionObjectConnect \<times> bitstream_t) option" where
  "transactionProtocolUnpackObjectConnect e bitstream ob = do {
     (unpackResult, a, bitstream) \<leftarrow>
       transactionProtocolUnpackAttributeString e bitstream (co_peerId ob) kUniversalPeerIdMaxLength;
     let ob = ob\<lparr>co_peerId := a\<rparr>;
     (unpackResult, a, bitstream) \<leftarrow>
       transactionProtocolUnpackAttributeAddress e bitstream (co_streamAddress ob);
     let ob = ob\<lparr>co_streamAddress := a\<rparr>;
     Some (unpackResult, ob, bitstream)
   }"

record TransactionObjectConnectAccept =
  ca_peerId :: "u8 list"
  ca_streamAddress :: net_addr_t

definition transactionProtocolPackObjectConnectAccept ::
    "endian \<Rightarrow> bitstream_t \<Rightarrow> TransactionObjectConnectAccept \<Rightarrow> bitstream_t option" where
  "transactionProtocolPackObjectConnectAccept e bitstream ob = do {
     bitstream \<leftarrow> transactionProtocolPackAttributeString e bitstream (ca_peerId ob);
     transactionProtocolPackAttributeAddress bitstream (ca_streamAddress ob)
   }"

definition transactionProtocolUnpackObjectConnectAccept ::
    "endian \<Rightarrow> bitstream_t \<Rightarrow> TransactionObjectConnectAccept \<Rightarrow>
     (UnpackResult \<times> TransactionObjectConnectAccept \<times> bitstream_t) option" where
  "transactionProtocolUnpackObjectConnectAccept e bitstream ob = do {
     (unpackResult, a, bitstream) \<leftarrow>
       transactionProtocolUnpackAttributeString e bitstream (ca_peerId ob) kUniversalPeerIdMaxLength;
     let ob = ob\<lparr>ca_peerId := a\<rparr>;
     (unpackResult, a, bitstream) \<leftarrow>
       transactionProtocolUnpackAttributeAddress e bitstream (ca_streamAddress ob);
     let ob = ob\<lparr>ca_streamAddress := a\<rparr>;
     Some (unpackResult, ob, bitstream)
   }"

record TransactionObjectConnectRefuse =
  cr_peerId :: "u8 list"

definition transactionProtocolPackObjectConnectRefuse ::
    "endian \<Rightarrow> bitstream_t \<Rightarrow> TransactionObjectConnectRefuse \<Rightarrow> bitstream_t option" where
  "transactionProtocolPackObjectConnectRefuse e bitstream ob =
     transactionProtocolPackAttributeString e bitstream (cr_peerId ob)"

definition transactionProtocolUnpackObjectConnectRefuse ::
    "endian \<Rightarrow> bitstream_t \<Rightarrow> TransactionObjectConnectRefuse \<Rightarrow>
     (UnpackResult \<times> TransactionObjectConnectRefuse \<times> bitstream_t) option" where
  "transactionProtocolUnpackObjectConnectRefuse e bitstream ob = do {
     (unpackResult, a, bitstream) \<leftarrow>
       transactionProtocolUnpackAttributeString e bitstream (cr_peerId ob) kUniversalPeerIdMaxLength;
     Some (unpackResult, ob\<lparr>cr_peerId := a\<rparr>, bitstream)
   }"

record TransactionObjectDisconnect =
  di_peerId :: "u8 list"

definition transactionProtocolPackObjectDisconnect ::
    "endian \<Rightarrow> bitstream_t \<Rightarrow> TransactionObjectDisconnect \<Rightarrow> bitstream_t option" where
  "transactionProtocolPackObjectDisconnect e bitstream ob =
     transactionProtocolPackAttributeString e bitstream (di_peerId ob)"

definition transactionProtocolUnpackObjectDisconnect ::
    "endian \<Rightarrow> bitstream_t \<Rightarrow> TransactionObjectDisconnect \<Rightarrow>
     (UnpackResult \<times> TransactionObjectDisconnect \<times> bitstream_t) option" where
  "transactionProtocolUnpackObjectDisconnect e bitstream ob = do {
     (unpackResult, a, bitstream) \<leftarrow>
       transactionProtocolUnpackAttributeString e bitstream (di_peerId ob) kUniversalPeerIdMaxLength;
     Some (unpackResult, ob\<lparr>di_peerId := a\<rparr>, bitstream)
   }"

subsection \<open>Requests\<close>

abbreviation (input) TransactionUserCreate :: u32 where "TransactionUserCreate \<equiv> 0x50"
abbreviation (input) TransactionResourceCreate :: u32 where "TransactionResourceCreate \<equiv> 0x70"
abbreviation (input) TransactionOnline :: u32 where "TransactionOnline \<equiv> 0x91"
abbreviation (input) TransactionOffline :: u32 where "TransactionOffline \<equiv> 0x92"
abbreviation (input) TransactionPeerList :: u32 where "TransactionPeerList \<equiv> 0x93"
abbreviation (input) TransactionConnect :: u32 where "TransactionConnect \<equiv> 0xc0"
abbreviation (input) TransactionConnectAccept :: u32 where "TransactionConnectAccept \<equiv> 0xc1"
abbreviation (input) TransactionConnectRefuse :: u32 where "TransactionConnectRefuse \<equiv> 0xc2"
abbreviation (input) TransactionDisconnect :: u32 where "TransactionDisconnect \<equiv> 0xc3"
abbreviation (input) TransactionEmpty :: u32 where "TransactionEmpty \<equiv> 0x01"

text \<open>
  The \<^verbatim>\<open>type\<close> member is the constructor; a type without a structure of its own is
  \<open>ObjectOther\<close>.
\<close>

datatype TransactionObject =
    ObjectUserCreate TransactionObjectUserCreate
  | ObjectResourceCreate TransactionObjectResourceCreate
  | ObjectOnline TransactionObjectOnline
  | ObjectOffline TransactionObjectOffline
  | ObjectPeerList TransactionObjectPeerList
  | ObjectConnect TransactionObjectConnect
  | ObjectConnectAccept TransactionObjectConnectAccept
  | ObjectConnectRefuse TransactionObjectConnectRefuse
  | ObjectDisconnect TransactionObjectDisconnect
  | ObjectOther u32

fun object_type :: "TransactionObject \<Rightarrow> u32" where
  "object_type (ObjectUserCreate _) = TransactionUserCreate"
| "object_type (ObjectResourceCreate _) = TransactionResourceCreate"
| "object_type (ObjectOnline _) = TransactionOnline"
| "object_type (ObjectOffline _) = TransactionOffline"
| "object_type (ObjectPeerList _) = TransactionPeerList"
| "object_type (ObjectConnect _) = TransactionConnect"
| "object_type (ObjectConnectAccept _) = TransactionConnectAccept"
| "object_type (ObjectConnectRefuse _) = TransactionConnectRefuse"
| "object_type (ObjectDisconnect _) = TransactionDisconnect"
| "object_type (ObjectOther t) = t"

definition transactionProtocolPackRequest ::
    "endian \<Rightarrow> bitstream_t \<Rightarrow> TransactionObject \<Rightarrow> bitstream_t option" where
  "transactionProtocolPackRequest e bitstream transactionObject = do {
     bitstream \<leftarrow> bitstream_write_uint8 bitstream (object_type transactionObject);
     case transactionObject of
       ObjectUserCreate ob \<Rightarrow> transactionProtocolPackObjectUserCreate e bitstream ob
     | ObjectResourceCreate ob \<Rightarrow> transactionProtocolPackObjectResourceCreate e bitstream ob
     | ObjectOnline ob \<Rightarrow> transactionProtocolPackObjectOnline e bitstream ob
     | ObjectOffline ob \<Rightarrow> transactionProtocolPackObjectOffline e bitstream ob
     | ObjectPeerList ob \<Rightarrow> transactionProtocolPackObjectPeerList e bitstream ob
     | ObjectConnect ob \<Rightarrow> transactionProtocolPackObjectConnect e bitstream ob
     | ObjectConnectAccept ob \<Rightarrow> transactionProtocolPackObjectConnectAccept e bitstream ob
     | ObjectConnectRefuse ob \<Rightarrow> transactionProtocolPackObjectConnectRefuse e bitstream ob
     | ObjectDisconnect ob \<Rightarrow> transactionProtocolPackObjectDisconnect e bitstream ob
     | ObjectOther _ \<Rightarrow> Some bitstream
   }"

text \<open>
  The zero-filled structures. \<open>sz\<close> is the size of the block behind the pointer: 256 bytes for the
  \<open>calloc\<close>ed \<open>TransactionObject\<close> of \<^verbatim>\<open>transaction.c\<close>, in which three peers have room and a fourth one begins,
  and 648 for a \<open>TransactionObjectPeerList\<close>.
\<close>

definition peer_slots :: "nat \<Rightarrow> nat" where
  "peer_slots sz = (sz + 55) div 64"

definition zero_online :: TransactionObjectOnline where
  "zero_online = \<lparr>on_uid = 0, on_localAddress = sockaddr_zero, on_mappedAddress = sockaddr_zero,
                  on_expireSeconds = 0\<rparr>"

definition transactionProtocolUnpackRequest ::
    "endian \<Rightarrow> nat \<Rightarrow> bitstream_t \<Rightarrow> (UnpackResult \<times> TransactionObject \<times> bitstream_t) option" where
  "transactionProtocolUnpackRequest e sz bitstream = do {
     (type, bitstream) \<leftarrow> bitstream_read_uint8 bitstream;
     if type = TransactionUserCreate then do {
       (r, ob, s) \<leftarrow> transactionProtocolUnpackObjectUserCreate e bitstream
         \<lparr>uc_uid = 0, uc_name = replicate 40 0, uc_email = replicate 40 0\<rparr>;
       Some (r, ObjectUserCreate ob, s) }
     else if type = TransactionResourceCreate then do {
       (r, ob, s) \<leftarrow> transactionProtocolUnpackObjectResourceCreate e sz bitstream
         \<lparr>rc_rid = 0, rc_data = replicate 128 0, rc_length = 0, rc_uid = 0\<rparr>;
       Some (r, ObjectResourceCreate ob, s) }
     else if type = TransactionOnline then do {
       (r, ob, s) \<leftarrow> transactionProtocolUnpackObjectOnline e bitstream zero_online;
       Some (r, ObjectOnline ob, s) }
     else if type = TransactionOffline then do {
       (r, ob, s) \<leftarrow> transactionProtocolUnpackObjectOffline e bitstream \<lparr>off_peerId = replicate 32 0\<rparr>;
       Some (r, ObjectOffline ob, s) }
     else if type = TransactionPeerList then do {
       (r, ob, s) \<leftarrow> transactionProtocolUnpackObjectPeerList e sz bitstream
         \<lparr>pl_count = 0, pl_list = replicate (peer_slots sz) zero_peer\<rparr>;
       Some (r, ObjectPeerList ob, s) }
     else if type = TransactionConnect then do {
       (r, ob, s) \<leftarrow> transactionProtocolUnpackObjectConnect e bitstream
         \<lparr>co_peerId = replicate 32 0, co_streamAddress = sockaddr_zero\<rparr>;
       Some (r, ObjectConnect ob, s) }
     else if type = TransactionConnectAccept then do {
       (r, ob, s) \<leftarrow> transactionProtocolUnpackObjectConnectAccept e bitstream
         \<lparr>ca_peerId = replicate 32 0, ca_streamAddress = sockaddr_zero\<rparr>;
       Some (r, ObjectConnectAccept ob, s) }
     else if type = TransactionConnectRefuse then do {
       (r, ob, s) \<leftarrow> transactionProtocolUnpackObjectConnectRefuse e bitstream \<lparr>cr_peerId = replicate 32 0\<rparr>;
       Some (r, ObjectConnectRefuse ob, s) }
     else if type = TransactionDisconnect then do {
       (r, ob, s) \<leftarrow> transactionProtocolUnpackObjectDisconnect e bitstream \<lparr>di_peerId = replicate 32 0\<rparr>;
       Some (r, ObjectDisconnect ob, s) }
     else if type = TransactionEmpty then Some (UnpackValid, ObjectOther type, bitstream)
     else Some (UnpackUnexpected, ObjectOther type, bitstream)
   }"

subsection \<open>Wire format\<close>

definition enc_transaction_header :: "TransactionId \<Rightarrow> u32 \<Rightarrow> u8 list" where
  "enc_transaction_header i t =
     enc_protocol_header kProtocolDefaultId kProtocolDefaultVersion ProtocolTypeTransaction
       @ enc_uint8 i @ enc_uint8 t"

definition enc_attr_string :: "endian \<Rightarrow> u8 list \<Rightarrow> u8 list" where
  "enc_attr_string e str =
     enc_uint8 TransactionAttributeTypeString @ enc_uint8 (of_nat (2 + length (c_str str))) @ enc_str e str"

definition enc_attr_address :: "net_addr_t \<Rightarrow> u8 list" where
  "enc_attr_address a =
     enc_uint8 TransactionAttributeTypeAddress @ enc_uint8 kTransactionAttributeLengthAddress
       @ enc_uint16_endian (ucast (sin_port a)) @ enc_uint32_endian (sin_addr a)"

definition enc_attr_seconds :: "endian \<Rightarrow> time_t \<Rightarrow> u8 list" where
  "enc_attr_seconds e t =
     enc_uint8 TransactionAttributeTypeSeconds @ enc_uint8 kTransactionAttributeLengthSeconds
       @ enc_uint32 e (of_int t)"

definition enc_attr_count :: "endian \<Rightarrow> u32 \<Rightarrow> u8 list" where
  "enc_attr_count e n =
     enc_uint8 TransactionAttributeTypeCount @ enc_uint8 kTransactionAttributeLengthCount
       @ enc_uint16 e n"

definition enc_peer :: "endian \<Rightarrow> TransactionObjectPeer \<Rightarrow> u8 list" where
  "enc_peer e p =
     enc_attr_string e (peer_peerId p) @ enc_attr_address (peer_localAddress p)
       @ enc_attr_address (peer_mappedAddress p)"

fun enc_object :: "endian \<Rightarrow> TransactionObject \<Rightarrow> u8 list" where
  "enc_object e (ObjectUserCreate ob) =
     enc_uint64 e (uc_uid ob) @ enc_attr_string e (uc_name ob) @ enc_attr_string e (uc_email ob)"
| "enc_object e (ObjectResourceCreate ob) =
     enc_uint64 e (rc_rid ob) @ enc_uint64 e (rc_uid ob) @ enc_uint8 (rc_length ob)
       @ swap_on e (take (unat (rc_length ob)) (rc_data ob))"
| "enc_object e (ObjectOnline ob) =
     enc_uint64 e (on_uid ob) @ enc_attr_address (on_localAddress ob)
       @ enc_attr_address (on_mappedAddress ob) @ enc_attr_seconds e (on_expireSeconds ob)"
| "enc_object e (ObjectOffline ob) = enc_attr_string e (off_peerId ob)"
| "enc_object e (ObjectPeerList ob) =
     enc_attr_count e (pl_count ob) @ concat (map (enc_peer e) (take (unat (pl_count ob)) (pl_list ob)))"
| "enc_object e (ObjectConnect ob) = enc_attr_string e (co_peerId ob) @ enc_attr_address (co_streamAddress ob)"
| "enc_object e (ObjectConnectAccept ob) =
     enc_attr_string e (ca_peerId ob) @ enc_attr_address (ca_streamAddress ob)"
| "enc_object e (ObjectConnectRefuse ob) = enc_attr_string e (cr_peerId ob)"
| "enc_object e (ObjectDisconnect ob) = enc_attr_string e (di_peerId ob)"
| "enc_object e (ObjectOther t) = []"

definition enc_request :: "endian \<Rightarrow> TransactionObject \<Rightarrow> u8 list" where
  "enc_request e ob = enc_uint8 (object_type ob) @ enc_object e ob"

text \<open>
  What a request means to its receiver: character arrays as C strings, resource data up to its
  length, the first \<open>count\<close> peers.
\<close>

definition peer_view :: "TransactionObjectPeer \<Rightarrow> TransactionObjectPeer" where
  "peer_view p = p\<lparr>peer_peerId := c_str (peer_peerId p)\<rparr>"

fun object_view :: "TransactionObject \<Rightarrow> TransactionObject" where
  "object_view (ObjectUserCreate ob) =
     ObjectUserCreate (ob\<lparr>uc_name := c_str (uc_name ob), uc_email := c_str (uc_email ob)\<rparr>)"
| "object_view (ObjectResourceCreate ob) =
     ObjectResourceCreate (ob\<lparr>rc_data := take (unat (rc_length ob)) (rc_data ob)\<rparr>)"
| "object_view (ObjectOffline ob) = ObjectOffline (ob\<lparr>off_peerId := c_str (off_peerId ob)\<rparr>)"
| "object_view (ObjectPeerList ob) =
     ObjectPeerList (ob\<lparr>pl_list := map peer_view (take (unat (pl_count ob)) (pl_list ob))\<rparr>)"
| "object_view (ObjectConnect ob) = ObjectConnect (ob\<lparr>co_peerId := c_str (co_peerId ob)\<rparr>)"
| "object_view (ObjectConnectAccept ob) = ObjectConnectAccept (ob\<lparr>ca_peerId := c_str (ca_peerId ob)\<rparr>)"
| "object_view (ObjectConnectRefuse ob) = ObjectConnectRefuse (ob\<lparr>cr_peerId := c_str (cr_peerId ob)\<rparr>)"
| "object_view (ObjectDisconnect ob) = ObjectDisconnect (ob\<lparr>di_peerId := c_str (di_peerId ob)\<rparr>)"
| "object_view ob = ob"

text \<open>
  A request the protocol can carry: terminated strings in arrays of their declared size, IPv4
  addresses, resource data within its array, an expiry of 32 bits, at most \<open>npeers\<close> peers.
\<close>

definition str_ok :: "nat \<Rightarrow> u8 list \<Rightarrow> bool" where
  "str_ok n a \<longleftrightarrow> length a = n \<and> 0 \<in> set a"

definition addr_ok :: "net_addr_t \<Rightarrow> bool" where
  "addr_ok a \<longleftrightarrow> sin_family a = AF_INET \<and> sin_zero a = replicate 8 0"

definition peer_ok :: "TransactionObjectPeer \<Rightarrow> bool" where
  "peer_ok p \<longleftrightarrow> str_ok 32 (peer_peerId p) \<and> addr_ok (peer_localAddress p) \<and> addr_ok (peer_mappedAddress p)"

fun request_ok :: "nat \<Rightarrow> TransactionObject \<Rightarrow> bool" where
  "request_ok npeers (ObjectUserCreate ob) \<longleftrightarrow> str_ok 40 (uc_name ob) \<and> str_ok 40 (uc_email ob)"
| "request_ok npeers (ObjectResourceCreate ob) \<longleftrightarrow> length (rc_data ob) = 128 \<and> unat (rc_length ob) \<le> 128"
| "request_ok npeers (ObjectOnline ob) \<longleftrightarrow>
     addr_ok (on_localAddress ob) \<and> addr_ok (on_mappedAddress ob) \<and>
     0 \<le> on_expireSeconds ob \<and> on_expireSeconds ob < 2 ^ 32"
| "request_ok npeers (ObjectOffline ob) \<longleftrightarrow> str_ok 32 (off_peerId ob)"
| "request_ok npeers (ObjectPeerList ob) \<longleftrightarrow>
     length (pl_list ob) = 10 \<and> unat (pl_count ob) \<le> 10 \<and> unat (pl_count ob) \<le> npeers \<and>
     (\<forall>p \<in> set (take (unat (pl_count ob)) (pl_list ob)). peer_ok p)"
| "request_ok npeers (ObjectConnect ob) \<longleftrightarrow> str_ok 32 (co_peerId ob) \<and> addr_ok (co_streamAddress ob)"
| "request_ok npeers (ObjectConnectAccept ob) \<longleftrightarrow> str_ok 32 (ca_peerId ob) \<and> addr_ok (ca_streamAddress ob)"
| "request_ok npeers (ObjectConnectRefuse ob) \<longleftrightarrow> str_ok 32 (cr_peerId ob)"
| "request_ok npeers (ObjectDisconnect ob) \<longleftrightarrow> str_ok 32 (di_peerId ob)"
| "request_ok npeers (ObjectOther t) \<longleftrightarrow> t = TransactionEmpty"


section \<open>Attributes\<close>

lemma length_enc_attr [simp]:
  "length (enc_attr_string e str) = length (c_str str) + 3"
  "length (enc_attr_address a) = 8" "length (enc_attr_seconds e t) = 6" "length (enc_attr_count e n) = 4"
  "length (enc_peer e p) = length (c_str (peer_peerId p)) + 19" "length (enc_transaction_header i t') = 5"
  by (simp_all add: enc_transaction_header_def enc_attr_string_def enc_attr_address_def enc_attr_seconds_def
      enc_attr_count_def enc_peer_def)

lemma str_ok_length: "str_ok n a \<Longrightarrow> length (c_str a) < n"
  by (auto simp: str_ok_def dest: length_c_str_less)

lemma pack_string_room [write_simps]:
  assumes "bs_wf s" "0 \<in> set str" "bs_room s (length (c_str str) + 3)"
  shows "transactionProtocolPackAttributeString e s str = Some (bs_put s (enc_attr_string e str))"
  using assms
  by (simp add: transactionProtocolPackAttributeString_def mTransactionAttributeLengthString_def
      c_strlen_def uint8.put_fits bitstream_write_str_room codec_room enc_attr_string_def)

lemma unpack_string_at:
  assumes "bs_wf s" "bs_at s (enc_attr_string LittleEndian str)" "length (c_str str) < m" "m \<le> length a"
    and "m \<le> 254"
  shows "\<exists>a'. transactionProtocolUnpackAttributeString LittleEndian s a m =
      Some (UnpackValid, a', bs_adv s (length (c_str str) + 3)) \<and> c_str a' = c_str str \<and> length a' = length a"
proof -
  let ?n = "of_nat (2 + length (c_str str)) :: u32"
  have n: "unat ?n < 256"
    using assms(3,5) by (simp only: unsigned_of_nat) (simp add: take_bit_nat_eq_self)
  have ahead: "bs_at s (enc_uint8 1)" "bs_at (bs_adv s 1) (enc_uint8 ?n)"
      "bs_at (bs_adv s 2) (enc_str LittleEndian str)"
    using assms(2) by (auto simp: enc_attr_string_def bs_at_append bs_adv_adv numeral_2_eq_2)
  have wf: "bs_wf (bs_adv s 1)" "bs_wf (bs_adv s 2)"
    using assms(1) bs_at_room [OF assms(2)] by (auto simp: bs_wf_adv bs_room_def)
  have rd: "bitstream_read_uint8 s = Some (1, bs_adv s 1)"
      "bitstream_read_uint8 (bs_adv s 1) = Some (?n, bs_adv s 2)"
    using uint8.get_at [OF assms(1) _ ahead(1)] uint8.get_at [OF wf(1) n ahead(2)]
    by (simp_all add: bs_adv_adv)
  show ?thesis
    using bitstream_read_str_reads_back [OF wf(2) ahead(3), of m a] assms(3-5) rd
    by (auto simp: transactionProtocolUnpackAttributeString_def bs_adv_adv add.commute)
qed

lemma unat_ucast_u16 [simp]: "unat (ucast (v :: u16) :: u32) = unat v"
  by (simp add: unsigned_ucast_eq take_bit_nat_eq_self_iff order_less_trans [OF unsigned_less])

lemma net_addr_set_ok: "addr_ok a \<Longrightarrow> net_addr_set e (sin_addr a) (sin_port a) False = a"
  by (cases a) (simp add: net_addr_set_def sockaddr_zero_def addr_ok_def)

interpretation addr_attr: field_codec enc_attr_address transactionProtocolPackAttributeAddress
    "\<lambda>s. do { (r, a, s) \<leftarrow> transactionProtocolUnpackAttributeAddress e s a0;
              if r = UnpackValid then Some (a, s) else None }" addr_ok for e a0
proof unfold_locales
  fix s a
  assume wf: "bs_wf s"
  show "bs_room s (length (enc_attr_address a)) \<Longrightarrow>
      transactionProtocolPackAttributeAddress s a = Some (bs_put s (enc_attr_address a))"
    using wf
    by (simp add: transactionProtocolPackAttributeAddress_def enc_attr_address_def uint8.put_fits
        uint16_endian.put_fits uint32_endian.put_fits codec_room)
  have "unat (sin_port a) < 65536"
    using unsigned_less [of "sin_port a"] by simp
  then show "addr_ok a \<Longrightarrow> bs_at s (enc_attr_address a) \<Longrightarrow>
      do { (r, a, s) \<leftarrow> transactionProtocolUnpackAttributeAddress e s a0;
           if r = UnpackValid then Some (a, s) else None } = Some (a, bs_adv s (length (enc_attr_address a)))"
    using wf bs_at_room [of s "enc_attr_address a"]
    by (clarsimp simp: transactionProtocolUnpackAttributeAddress_def enc_attr_address_def codec_ahead
        uint8.get_ahead uint16_endian.get_ahead uint32_endian.get_ahead net_addr_set_ok)
qed

interpretation seconds_attr: field_codec "enc_attr_seconds e" "transactionProtocolPackAttributeSeconds e"
    "\<lambda>s. do { (r, t, s) \<leftarrow> transactionProtocolUnpackAttributeSeconds e s t0;
              if r = UnpackValid then Some (t, s) else None }" "\<lambda>t. 0 \<le> t \<and> t < 2 ^ 32" for e t0
proof unfold_locales
  fix s t
  assume wf: "bs_wf s"
  show "bs_room s (length (enc_attr_seconds e t)) \<Longrightarrow>
      transactionProtocolPackAttributeSeconds e s t = Some (bs_put s (enc_attr_seconds e t))"
    using wf
    by (simp add: transactionProtocolPackAttributeSeconds_def enc_attr_seconds_def uint8.put_fits
        uint32.put_fits codec_room)
  show "0 \<le> t \<and> t < 2 ^ 32 \<Longrightarrow> bs_at s (enc_attr_seconds e t) \<Longrightarrow>
      do { (r, t, s) \<leftarrow> transactionProtocolUnpackAttributeSeconds e s t0;
           if r = UnpackValid then Some (t, s) else None } = Some (t, bs_adv s (length (enc_attr_seconds e t)))"
    using wf bs_at_room [of s "enc_attr_seconds e t"]
    by (clarsimp simp: transactionProtocolUnpackAttributeSeconds_def enc_attr_seconds_def codec_ahead
        uint8.get_ahead uint32.get_ahead uint_word_of_int_eq take_bit_int_eq_self)
qed

interpretation count_attr: field_codec "enc_attr_count e" "transactionProtocolPackAttributeCount e"
    "\<lambda>s. do { (r, n, s) \<leftarrow> transactionProtocolUnpackAttributeCount e s n0;
              if r = UnpackValid then Some (n, s) else None }" "\<lambda>n. unat n < 2 ^ 16" for e n0
proof unfold_locales
  fix s n
  assume wf: "bs_wf s"
  show "bs_room s (length (enc_attr_count e n)) \<Longrightarrow>
      transactionProtocolPackAttributeCount e s n = Some (bs_put s (enc_attr_count e n))"
    using wf
    by (simp add: transactionProtocolPackAttributeCount_def enc_attr_count_def uint8.put_fits
        uint16.put_fits codec_room)
  show "unat n < 2 ^ 16 \<Longrightarrow> bs_at s (enc_attr_count e n) \<Longrightarrow>
      do { (r, n, s) \<leftarrow> transactionProtocolUnpackAttributeCount e s n0;
           if r = UnpackValid then Some (n, s) else None } = Some (n, bs_adv s (length (enc_attr_count e n)))"
    using wf bs_at_room [of s "enc_attr_count e n"]
    by (clarsimp simp: transactionProtocolUnpackAttributeCount_def enc_attr_count_def codec_ahead
        uint8.get_ahead uint16.get_ahead)
qed

text \<open>The readers' own results, recovered from the codec laws.\<close>

lemma bind_valid_eq:
  "do { (r, v, s) \<leftarrow> m; if r = UnpackValid then Some (v, s) else None } = Some (v', s') \<longleftrightarrow>
     m = Some (UnpackValid, v', s')"
  by (auto simp: Option.bind_eq_Some_conv split: if_splits)

lemmas unpack_address_at = addr_attr.get_at [unfolded bind_valid_eq]
lemmas unpack_seconds_at = seconds_attr.get_at [unfolded bind_valid_eq]
lemmas unpack_count_at = count_attr.get_at [unfolded bind_valid_eq]

lemmas pack_attr_room = pack_string_room addr_attr.put_fits seconds_attr.put_fits count_attr.put_fits

section \<open>Objects\<close>

lemma request_strings_NUL:
  "str_ok n a \<Longrightarrow> 0 \<in> set a"
  by (simp add: str_ok_def)

lemma pack_peers_loop_room:
  assumes "bs_wf s" "i \<le> unat (pl_count ob)" "unat (pl_count ob) \<le> length (pl_list ob)"
    and "\<forall>p \<in> set (take (unat (pl_count ob)) (pl_list ob)). 0 \<in> set (peer_peerId p)"
    and "bs_room s (length (concat (map (enc_peer e) (drop i (take (unat (pl_count ob)) (pl_list ob))))))"
  shows "pack_peers_loop e s ob i =
    Some (bs_put s (concat (map (enc_peer e) (drop i (take (unat (pl_count ob)) (pl_list ob))))))"
  using assms
proof (induction e s ob i rule: pack_peers_loop.induct)
  case (1 e s ob i)
  let ?n = "unat (pl_count ob)" and ?p = "pl_list ob ! i"
  let ?rest = "concat (map (enc_peer e) (drop (i + 1) (take ?n (pl_list ob))))"
  show ?case
  proof (cases "i < ?n")
    case True
    have split: "concat (map (enc_peer e) (drop i (take ?n (pl_list ob)))) = enc_peer e ?p @ ?rest"
      using True "1.prems"(3) by (simp add: Cons_nth_drop_Suc [symmetric])
    have nul: "0 \<in> set (peer_peerId ?p)"
      using True "1.prems"(3,4) nth_mem [of i "take ?n (pl_list ob)"] by simp
    have room: "bs_room s (length (enc_peer e ?p) + length ?rest)"
      using "1.prems"(5) by (simp only: split length_append)
    let ?s1 = "bs_put s (enc_attr_string e (peer_peerId ?p))"
    let ?s2 = "bs_put s (enc_attr_string e (peer_peerId ?p) @ enc_attr_address (peer_localAddress ?p))"
    let ?s3 = "bs_put s (enc_peer e ?p)"
    have steps: "transactionProtocolPackAttributeString e s (peer_peerId ?p) = Some ?s1"
        "transactionProtocolPackAttributeAddress ?s1 (peer_localAddress ?p) = Some ?s2"
        "transactionProtocolPackAttributeAddress ?s2 (peer_mappedAddress ?p) = Some ?s3"
      using "1.prems"(1) room nul
      by (simp_all add: pack_attr_room codec_room enc_peer_def)
    have "pack_peers_loop e ?s3 ob (i + 1) = Some (bs_put ?s3 ?rest)"
      using True "1.prems" room steps
      by (intro "1.IH" [of ?p ?s1 ?s2]) (auto simp: bs_wf_put bs_room_put bs_room_def)
    moreover have "bs_put ?s3 ?rest = bs_put s (enc_peer e ?p @ ?rest)"
      using "1.prems"(1) room by (simp add: bs_put_put)
    moreover have "pack_peers_loop e s ob i = pack_peers_loop e ?s3 ob (i + 1)"
      using True "1.prems"(3) steps by (subst pack_peers_loop.simps) simp
    ultimately show ?thesis
      by (simp only: split)
  next
    case False
    with "1.prems"(2) show ?thesis
      by (subst pack_peers_loop.simps) simp
  qed
qed

lemma pack_peer_list_room:
  assumes "bs_wf s" "request_ok n (ObjectPeerList ob)" "bs_room s (length (enc_object e (ObjectPeerList ob)))"
  shows "transactionProtocolPackObjectPeerList e s ob = Some (bs_put s (enc_object e (ObjectPeerList ob)))"
proof -
  let ?c = "enc_attr_count e (pl_count ob)"
  let ?p = "concat (map (enc_peer e) (take (unat (pl_count ob)) (pl_list ob)))"
  have room: "bs_room s (length ?c + length ?p)" "bs_room s (length ?c)"
    using assms(3) by (simp_all add: bs_room_def)
  have nul: "\<forall>p \<in> set (take (unat (pl_count ob)) (pl_list ob)). 0 \<in> set (peer_peerId p)"
    using assms(2) by (auto simp: peer_ok_def str_ok_def)
  have "pack_peers_loop e (bs_put s ?c) ob 0 = Some (bs_put (bs_put s ?c) ?p)"
    using pack_peers_loop_room [of "bs_put s ?c" 0 ob e, OF _ _ _ nul] assms(1,2) room
    by (simp add: bs_wf_put bs_room_put)
  then show ?thesis
    using assms(1) room
    by (simp add: transactionProtocolPackObjectPeerList_def count_attr.put_fits bs_put_put)
qed

lemma pack_request_room:
  assumes "bs_wf s" "request_ok n ob" "bs_room s (length (enc_request e ob))"
  shows "transactionProtocolPackRequest e s ob = Some (bs_put s (enc_request e ob))"
proof -
  have r1: "bs_room s 1" and ty: "bitstream_write_uint8 s (object_type ob) = Some (bs_put s (enc_uint8 (object_type ob)))"
    using assms uint8.put_fits [of s "object_type ob"] by (auto simp: enc_request_def bs_room_def)
  let ?s = "bs_put s (enc_uint8 (object_type ob))"
  have wf: "bs_wf ?s" and room: "bs_room ?s (length (enc_object e ob))"
    using assms r1 by (auto simp: bs_wf_put bs_room_put enc_request_def)
  have "(case ob of
       ObjectUserCreate ob \<Rightarrow> transactionProtocolPackObjectUserCreate e ?s ob
     | ObjectResourceCreate ob \<Rightarrow> transactionProtocolPackObjectResourceCreate e ?s ob
     | ObjectOnline ob \<Rightarrow> transactionProtocolPackObjectOnline e ?s ob
     | ObjectOffline ob \<Rightarrow> transactionProtocolPackObjectOffline e ?s ob
     | ObjectPeerList ob \<Rightarrow> transactionProtocolPackObjectPeerList e ?s ob
     | ObjectConnect ob \<Rightarrow> transactionProtocolPackObjectConnect e ?s ob
     | ObjectConnectAccept ob \<Rightarrow> transactionProtocolPackObjectConnectAccept e ?s ob
     | ObjectConnectRefuse ob \<Rightarrow> transactionProtocolPackObjectConnectRefuse e ?s ob
     | ObjectDisconnect ob \<Rightarrow> transactionProtocolPackObjectDisconnect e ?s ob
     | ObjectOther _ \<Rightarrow> Some ?s) = Some (bs_put ?s (enc_object e ob))"
    using assms(2) wf room
    by (cases ob)
      (auto simp: transactionProtocolPackObjectUserCreate_def transactionProtocolPackObjectResourceCreate_def
        transactionProtocolPackObjectOnline_def transactionProtocolPackObjectOffline_def
        pack_peer_list_room [simplified] transactionProtocolPackObjectConnect_def
        transactionProtocolPackObjectConnectAccept_def transactionProtocolPackObjectConnectRefuse_def
        transactionProtocolPackObjectDisconnect_def uint64.put_fits uint8.put_fits
        bitstream_write_bytes_room pack_attr_room request_strings_NUL bs_wf_put bs_room_put bs_put_put bs_room_def)
  moreover have "bs_put ?s (enc_object e ob) = bs_put s (enc_request e ob)"
    using assms by (simp add: bs_put_put enc_request_def)
  ultimately show ?thesis
    by (simp add: transactionProtocolPackRequest_def ty)
qed

text \<open>Numbers in memory are read back, and data that fit their array leave the members behind it alone.\<close>

lemma length_host_bytes [simp]: "length (host_bytes e k v) = k"
  by (cases e) (simp_all add: host_bytes_def)

lemma host_word_le:
  fixes v :: "'a :: len word"
  shows "foldr (\<lambda>b w. ucast b OR push_bit 8 w) (map (\<lambda>i. ucast (drop_bit (8 * i) v) :: u8) [0..<k]) 0 = take_bit (8 * k) v"
proof (induction k arbitrary: v)
  case (Suc k)
  have "map (\<lambda>i. ucast (drop_bit (8 * i) v) :: u8) [0..<Suc k] =
      ucast v # map (\<lambda>i. ucast (drop_bit (8 * i) (drop_bit 8 v))) [0..<k]"
    by (simp add: upt_conv_Cons map_Suc_upt [symmetric] add.commute del: upt_Suc)
  moreover have "ucast (ucast v :: u8) OR push_bit 8 (take_bit (8 * k) (drop_bit 8 v)) = take_bit (8 * Suc k) v"
    by (rule bit_word_eqI) (auto simp: bit_simps)
  ultimately show ?case
    using Suc.IH [of "drop_bit 8 v"] by simp
qed simp

lemma host_word_bytes [simp]:
  "host_word e (host_bytes e 4 (v :: u32)) = v" "host_word e (host_bytes e 8 (w :: u64)) = w"
  using host_word_le [of v 4] host_word_le [of w 8]
  by (cases e; simp add: host_word_def host_bytes_def take_bit_word_eq_self)+

lemma overwrite_front:
  assumes "length d \<le> length xs"
  shows "take (length xs) (overwrite (xs @ ys) 0 d) = overwrite xs 0 d" "drop (length xs + k) (overwrite (xs @ ys) 0 d) = drop k ys"
  using assms by (simp_all add: overwrite_def)

text \<open>An entry that lies in the block, on its own.\<close>

definition unpack_entry ::
    "endian \<Rightarrow> bitstream_t \<Rightarrow> TransactionObjectPeer \<Rightarrow> (UnpackResult \<times> TransactionObjectPeer \<times> bitstream_t) option" where
  "unpack_entry e bitstream p = do {
     (unpackResult, a, bitstream) \<leftarrow>
       transactionProtocolUnpackAttributeString e bitstream (peer_peerId p) kUniversalPeerIdMaxLength;
     let p = p\<lparr>peer_peerId := a\<rparr>;
     (unpackResult, a, bitstream) \<leftarrow>
       transactionProtocolUnpackAttributeAddress e bitstream (peer_localAddress p);
     let p = p\<lparr>peer_localAddress := a\<rparr>;
     (unpackResult, a, bitstream) \<leftarrow>
       transactionProtocolUnpackAttributeAddress e bitstream (peer_mappedAddress p);
     let p = p\<lparr>peer_mappedAddress := a\<rparr>;
     Some (unpackResult, p, bitstream)
   }"

lemma unpack_peer_block:
  assumes "i < length l" "8 + 64 * (i + 1) \<le> sz" "length (peer_peerId (l ! i)) = 32"
  shows "unpack_peer e sz s l i = do { (r, p, s) \<leftarrow> unpack_entry e s (l ! i); Some (r, l[i := p], s) }"
proof -
  have "length (peer_peerId (l ! i)) \<le> sz - (8 + 64 * i)" "\<not> sz < 8 + 64 * i + 48" "\<not> sz < 8 + 64 * i + 64"
    using assms by simp_all
  then show ?thesis
    using assms(1) by (simp add: unpack_peer_def unpack_entry_def Let_def split_def)
qed

lemma unpack_entry_at:
  assumes "bs_wf s" "bs_at s (enc_peer LittleEndian p)" "peer_ok p" "length (peer_peerId p0) = 32"
  shows "\<exists>p'. unpack_entry LittleEndian s p0 = Some (UnpackValid, p', bs_adv s (length (enc_peer LittleEndian p)))
    \<and> peer_view p' = peer_view p \<and> length (peer_peerId p') = 32"
proof -
  let ?k = "length (c_str (peer_peerId p)) + 3"
  have ok: "str_ok 32 (peer_peerId p)" "addr_ok (peer_localAddress p)" "addr_ok (peer_mappedAddress p)"
    using assms(3) by (simp_all add: peer_ok_def)
  have ahead: "bs_at s (enc_attr_string LittleEndian (peer_peerId p))"
      "bs_at (bs_adv s ?k) (enc_attr_address (peer_localAddress p))"
      "bs_at (bs_adv s (?k + 8)) (enc_attr_address (peer_mappedAddress p))"
    using assms(2) by (simp_all add: enc_peer_def bs_at_append bs_adv_adv)
  have wf: "bs_wf (bs_adv s ?k)" "bs_wf (bs_adv s (?k + 8))"
    using assms(1) bs_at_room [OF assms(2)] by (simp_all add: bs_wf_adv bs_room_def)
  obtain a where a: "transactionProtocolUnpackAttributeString LittleEndian s (peer_peerId p0) 32
        = Some (UnpackValid, a, bs_adv s ?k)"
      "c_str a = c_str (peer_peerId p)" "length a = 32"
    using unpack_string_at [OF assms(1) ahead(1), of 32 "peer_peerId p0"] str_ok_length [OF ok(1)] assms(4)
    by auto
  show ?thesis
    using a unpack_address_at [OF wf(1) ok(2) ahead(2)] unpack_address_at [OF wf(2) ok(3) ahead(3)]
    by (simp add: unpack_entry_def bs_adv_adv peer_view_def add.commute)
qed

lemma unpack_peers_loop_at:
  assumes "bs_wf s" "bs_at s (concat (map (enc_peer LittleEndian) (drop i ps)))"
    and "i \<le> length ps" "length ps \<le> length l" "\<forall>p \<in> set l. length (peer_peerId p) = 32"
    and "\<forall>p \<in> set ps. peer_ok p" "map peer_view (take i l) = map peer_view (take i ps)" "8 + 64 * length ps \<le> sz"
  shows "\<exists>l'. unpack_peers_loop LittleEndian sz s UnpackValid l (length ps) i =
      Some (UnpackValid, l', bs_adv s (length (concat (map (enc_peer LittleEndian) (drop i ps)))))
    \<and> map peer_view (take (length ps) l') = map peer_view ps"
  using assms
proof (induction "length ps - i" arbitrary: s i l)
  case 0
  then show ?case
    by (subst unpack_peers_loop.simps) simp
next
  case (Suc k)
  let ?p = "ps ! i" and ?e = "enc_peer LittleEndian"
  let ?n = "length (?e ?p)"
  have i: "i < length ps"
    using Suc.hyps(2) by simp
  have split: "concat (map ?e (drop i ps)) = ?e ?p @ concat (map ?e (drop (i + 1) ps))"
    using i by (simp add: Cons_nth_drop_Suc [symmetric])
  have ahead: "bs_at s (?e ?p)" "bs_at (bs_adv s ?n) (concat (map ?e (drop (i + 1) ps)))"
    using Suc.prems(2) by (simp_all only: split bs_at_append)
  obtain p' where p': "unpack_entry LittleEndian s (l ! i) = Some (UnpackValid, p', bs_adv s ?n)"
      "peer_view p' = peer_view ?p" "length (peer_peerId p') = 32"
    using unpack_entry_at [OF Suc.prems(1) ahead(1), of "l ! i"] i Suc.prems(4-6) by auto
  have view: "map peer_view (take (i + 1) (l[i := p'])) = map peer_view (take (i + 1) ps)"
    using i Suc.prems(4,7) p'(2) by (simp add: take_Suc_conv_app_nth)
  have "\<exists>l'. unpack_peers_loop LittleEndian sz (bs_adv s ?n) UnpackValid (l[i := p']) (length ps) (i + 1) =
      Some (UnpackValid, l', bs_adv (bs_adv s ?n) (length (concat (map ?e (drop (i + 1) ps)))))
    \<and> map peer_view (take (length ps) l') = map peer_view ps"
    using i Suc.hyps(2) Suc.prems p' ahead view bs_at_wf_adv [OF Suc.prems(1) ahead(1)]
    by (intro Suc.hyps(1)) (auto dest!: set_update_subset_insert [THEN subsetD])
  moreover have "unpack_peer LittleEndian sz s l i = Some (UnpackValid, l[i := p'], bs_adv s ?n)"
    using i Suc.prems(4,5,8) p'(1) by (subst unpack_peer_block) simp_all
  then have "unpack_peers_loop LittleEndian sz s UnpackValid l (length ps) i
      = unpack_peers_loop LittleEndian sz (bs_adv s ?n) UnpackValid (l[i := p']) (length ps) (i + 1)"
    using i by (subst unpack_peers_loop.simps) simp
  ultimately show ?case
    by (simp only: split bs_adv_adv length_append)
qed

text \<open>
  One object at a time: where its encoding lies ahead, the unpacking function reports a valid
  object with the meaning of the one encoded.
\<close>

lemma unpack_user_create_at:
  assumes "bs_wf s" "bs_at s (enc_object LittleEndian (ObjectUserCreate ob))"
    and "request_ok n (ObjectUserCreate ob)" "length (uc_name o0) = 40" "length (uc_email o0) = 40"
  shows "\<exists>o1. transactionProtocolUnpackObjectUserCreate LittleEndian s o0 =
      Some (UnpackValid, o1, bs_adv s (length (enc_object LittleEndian (ObjectUserCreate ob)))) \<and>
    object_view (ObjectUserCreate o1) = object_view (ObjectUserCreate ob)"
proof -
  let ?k = "length (c_str (uc_name ob)) + 3"
  have ok: "length (c_str (uc_name ob)) < 40" "length (c_str (uc_email ob)) < 40"
    using assms(3) by (simp_all add: str_ok_length)
  have ahead: "bs_at s (enc_uint64 LittleEndian (uc_uid ob))"
      "bs_at (bs_adv s 8) (enc_attr_string LittleEndian (uc_name ob))"
      "bs_at (bs_adv s (8 + ?k)) (enc_attr_string LittleEndian (uc_email ob))"
    using assms(2) by (simp_all add: bs_at_append bs_adv_adv)
  have wf: "bs_wf (bs_adv s 8)" "bs_wf (bs_adv s (8 + ?k))"
    using assms(1) bs_at_room [OF assms(2)] by (simp_all add: bs_wf_adv bs_room_def)
  obtain a where a: "transactionProtocolUnpackAttributeString LittleEndian (bs_adv s 8) (uc_name o0) 40
        = Some (UnpackValid, a, bs_adv s (8 + ?k))" "c_str a = c_str (uc_name ob)"
    using unpack_string_at [OF wf(1) ahead(2) ok(1), of "uc_name o0"] assms(4) by (auto simp: bs_adv_adv)
  obtain b where b: "transactionProtocolUnpackAttributeString LittleEndian (bs_adv s (8 + ?k)) (uc_email o0) 40
        = Some (UnpackValid, b, bs_adv s (8 + ?k + (length (c_str (uc_email ob)) + 3)))"
      "c_str b = c_str (uc_email ob)"
    using unpack_string_at [OF wf(2) ahead(3) ok(2), of "uc_email o0"] assms(5) by (auto simp: bs_adv_adv)
  show ?thesis
    using a b uint64.get_ahead [OF assms(1) ahead(1)]
    by (simp add: transactionProtocolUnpackObjectUserCreate_def add.assoc)
qed

lemma unpack_resource_create_at:
  assumes "bs_wf s" "bs_at s (enc_object e (ObjectResourceCreate ob))"
    and "request_ok n (ObjectResourceCreate ob)" "length (rc_data o0) = 128"
  shows "\<exists>o1. transactionProtocolUnpackObjectResourceCreate e sz s o0 =
      Some (UnpackValid, o1, bs_adv s (length (enc_object e (ObjectResourceCreate ob)))) \<and>
    object_view (ObjectResourceCreate o1) = object_view (ObjectResourceCreate ob)"
proof -
  let ?n = "unat (rc_length ob)" and ?d = "take (unat (rc_length ob)) (rc_data ob)"
  let ?m = "host_bytes e 4 (rc_length ob) @ replicate 4 0 @ host_bytes e 8 (rc_uid ob) @ replicate (sz - 160) 0"
  have ok: "?n < 256" "length ?d = ?n" "?n \<le> length (rc_data o0)"
    using assms(3,4) by simp_all
  have ahead: "bs_at s (enc_uint64 e (rc_rid ob))" "bs_at (bs_adv s 8) (enc_uint64 e (rc_uid ob))"
      "bs_at (bs_adv s 16) (enc_uint8 (rc_length ob))" "bs_at (bs_adv s 17) (swap_on e ?d)"
    using assms(2) by (simp_all add: bs_at_append bs_adv_adv)
  have wf: "bs_wf (bs_adv s 8)" "bs_wf (bs_adv s 16)" "bs_wf (bs_adv s 17)"
    using assms(1) bs_at_room [OF assms(2)] by (simp_all add: bs_wf_adv bs_room_def)
  have "bitstream_read_bytes e (bs_adv s 17) (rc_data o0 @ ?m) ?n
      = Some (?n, overwrite (rc_data o0 @ ?m) 0 ?d, bs_adv s (17 + ?n))"
    using bitstream_read_bytes_at [OF wf(3) ahead(4), of ?n "rc_data o0 @ ?m"] ok by (simp add: bs_adv_adv)
  moreover have "take ?n (overwrite (rc_data o0) 0 ?d) = ?d"
    using take_drop_overwrite [of 0 ?d "rc_data o0"] ok by simp
  moreover note overwrite_front(1) [of ?d "rc_data o0" ?m] overwrite_front(2) [of ?d "rc_data o0" 0 ?m] overwrite_front(2) [of ?d "rc_data o0" 8 ?m]
  ultimately show ?thesis
    using assms(3,4) uint64.get_ahead [OF assms(1) ahead(1)] uint64.get_ahead [OF wf(1) ahead(2)]
      uint8.get_ahead [OF wf(2) ahead(3) ok(1)]
    by (simp add: transactionProtocolUnpackObjectResourceCreate_def bs_adv_adv min_def Let_def)
qed

lemma unpack_online_at:
  assumes "bs_wf s" "bs_at s (enc_object e (ObjectOnline ob))" "request_ok n (ObjectOnline ob)"
  shows "transactionProtocolUnpackObjectOnline e s o0 =
      Some (UnpackValid, o0\<lparr>on_uid := on_uid ob, on_localAddress := on_localAddress ob,
        on_mappedAddress := on_mappedAddress ob, on_expireSeconds := on_expireSeconds ob\<rparr>,
        bs_adv s (length (enc_object e (ObjectOnline ob))))"
proof -
  have ahead: "bs_at s (enc_uint64 e (on_uid ob))" "bs_at (bs_adv s 8) (enc_attr_address (on_localAddress ob))"
      "bs_at (bs_adv s 16) (enc_attr_address (on_mappedAddress ob))"
      "bs_at (bs_adv s 24) (enc_attr_seconds e (on_expireSeconds ob))"
    using assms(2) by (simp_all add: bs_at_append bs_adv_adv)
  have wf: "bs_wf (bs_adv s 8)" "bs_wf (bs_adv s 16)" "bs_wf (bs_adv s 24)"
    using assms(1) bs_at_room [OF assms(2)] by (simp_all add: bs_wf_adv bs_room_def)
  show ?thesis
    using assms(3) uint64.get_ahead [OF assms(1) ahead(1)] unpack_address_at [OF wf(1) _ ahead(2)]
      unpack_address_at [OF wf(2) _ ahead(3)] unpack_seconds_at [OF wf(3) _ ahead(4)]
    by (simp add: transactionProtocolUnpackObjectOnline_def bs_adv_adv)
qed

lemma unpack_string_address_at:
  assumes "bs_wf s" "bs_at s (enc_attr_string LittleEndian str @ enc_attr_address a)"
    and "str_ok 32 str" "addr_ok a" "length x = 32"
  shows "\<exists>y. transactionProtocolUnpackAttributeString LittleEndian s x 32
      = Some (UnpackValid, y, bs_adv s (length (c_str str) + 3)) \<and> c_str y = c_str str \<and>
    transactionProtocolUnpackAttributeAddress LittleEndian (bs_adv s (length (c_str str) + 3)) a0
      = Some (UnpackValid, a, bs_adv s (length (c_str str) + 11))"
proof -
  have ahead: "bs_at s (enc_attr_string LittleEndian str)"
      "bs_at (bs_adv s (length (c_str str) + 3)) (enc_attr_address a)"
    using assms(2) by (simp_all add: bs_at_append)
  have wf: "bs_wf (bs_adv s (length (c_str str) + 3))"
    using assms(1) bs_at_room [OF assms(2)] by (simp add: bs_wf_adv bs_room_def)
  show ?thesis
    using unpack_string_at [OF assms(1) ahead(1) str_ok_length [OF assms(3)], of x] assms(5)
      unpack_address_at [OF wf assms(4) ahead(2)]
    by (auto simp: bs_adv_adv)
qed

lemma unpack_peer_list_at:
  assumes "bs_wf s" "bs_at s (enc_object LittleEndian (ObjectPeerList ob))"
    and "request_ok n (ObjectPeerList ob)" "8 + 64 * n \<le> sz"
  shows "\<exists>o1. transactionProtocolUnpackObjectPeerList LittleEndian sz s
      \<lparr>pl_count = 0, pl_list = replicate (peer_slots sz) zero_peer\<rparr> =
      Some (UnpackValid, o1, bs_adv s (length (enc_object LittleEndian (ObjectPeerList ob)))) \<and>
    object_view (ObjectPeerList o1) = object_view (ObjectPeerList ob)"
proof -
  let ?ps = "take (unat (pl_count ob)) (pl_list ob)"
  have len: "length ?ps = unat (pl_count ob)" "unat (pl_count ob) \<le> peer_slots sz" "unat (pl_count ob) < 2 ^ 16"
    using assms(3,4) by (auto simp: peer_slots_def)
  have fits: "8 + 64 * length ?ps \<le> sz"
    using assms(3,4) len(1) by simp
  have ahead: "bs_at s (enc_attr_count LittleEndian (pl_count ob))"
      "bs_at (bs_adv s 4) (concat (map (enc_peer LittleEndian) ?ps))"
    using assms(2) by (simp_all add: bs_at_append)
  have wf: "bs_wf (bs_adv s 4)"
    using bs_at_wf_adv [OF assms(1) ahead(1)] by simp
  have "\<exists>l'. unpack_peers_loop LittleEndian sz (bs_adv s 4) UnpackValid (replicate (peer_slots sz) zero_peer) (length ?ps) 0 =
      Some (UnpackValid, l', bs_adv (bs_adv s 4) (length (concat (map (enc_peer LittleEndian) ?ps))))
    \<and> map peer_view (take (length ?ps) l') = map peer_view ?ps"
    using unpack_peers_loop_at [OF wf, of 0 ?ps "replicate (peer_slots sz) zero_peer" sz] ahead len fits assms(3)
    by (auto simp: zero_peer_def)
  then show ?thesis
    using unpack_count_at [OF assms(1) len(3) ahead(1)] len
    by (auto simp: transactionProtocolUnpackObjectPeerList_def bs_adv_adv)
qed

lemma unpack_body_at:
  assumes "bs_wf s" "bs_at s (enc_object LittleEndian ob)" "request_ok n ob"
    and "bitstream_read_uint8 s0 = Some (object_type ob, s)" "8 + 64 * n \<le> sz"
  shows "\<exists>o1. transactionProtocolUnpackRequest LittleEndian sz s0 =
      Some (UnpackValid, o1, bs_adv s (length (enc_object LittleEndian ob))) \<and> object_view o1 = object_view ob"
proof -
  note str = unpack_string_at [OF assms(1) _ str_ok_length, of _ 32 "replicate 32 0"]
  note str_addr = unpack_string_address_at [OF assms(1), of _ _ "replicate 32 0" sockaddr_zero]
  note user = unpack_user_create_at [OF assms(1), of _ n
    "\<lparr>uc_uid = 0, uc_name = replicate 40 0, uc_email = replicate 40 0\<rparr>"]
  note resource = unpack_resource_create_at [OF assms(1), of LittleEndian _ n
    "\<lparr>rc_rid = 0, rc_data = replicate 128 0, rc_length = 0, rc_uid = 0\<rparr>" sz]
  note online = unpack_online_at [OF assms(1), of LittleEndian _ n zero_online]
  note peers = unpack_peer_list_at [OF assms(1) _ _ assms(5)]
  show ?thesis
  proof (cases ob)
    case (ObjectUserCreate x)
    with user [of x] assms(2-4) show ?thesis
      unfolding transactionProtocolUnpackRequest_def by fastforce
  next
    case (ObjectResourceCreate x)
    with resource [of x] assms(2-4) show ?thesis
      unfolding transactionProtocolUnpackRequest_def by fastforce
  next
    case (ObjectOnline x)
    with online [of x] assms(2-4) show ?thesis
      by (simp add: transactionProtocolUnpackRequest_def zero_online_def)
  next
    case (ObjectOffline x)
    with str [of "off_peerId x"] assms(2-4) show ?thesis
      by (auto simp: transactionProtocolUnpackRequest_def transactionProtocolUnpackObjectOffline_def)
  next
    case (ObjectPeerList x)
    with peers [of x] assms(2-4) show ?thesis
      unfolding transactionProtocolUnpackRequest_def by fastforce
  next
    case (ObjectConnect x)
    with str_addr [of "co_peerId x" "co_streamAddress x"] assms(2-4) show ?thesis
      by (auto simp: transactionProtocolUnpackRequest_def transactionProtocolUnpackObjectConnect_def)
  next
    case (ObjectConnectAccept x)
    with str_addr [of "ca_peerId x" "ca_streamAddress x"] assms(2-4) show ?thesis
      by (auto simp: transactionProtocolUnpackRequest_def transactionProtocolUnpackObjectConnectAccept_def)
  next
    case (ObjectConnectRefuse x)
    with str [of "cr_peerId x"] assms(2-4) show ?thesis
      by (auto simp: transactionProtocolUnpackRequest_def transactionProtocolUnpackObjectConnectRefuse_def)
  next
    case (ObjectDisconnect x)
    with str [of "di_peerId x"] assms(2-4) show ?thesis
      by (auto simp: transactionProtocolUnpackRequest_def transactionProtocolUnpackObjectDisconnect_def)
  next
    case (ObjectOther x)
    with assms(2-4) show ?thesis
      by (auto simp: transactionProtocolUnpackRequest_def)
  qed
qed

lemma unpack_request_at:
  assumes "bs_wf s" "bs_at s (enc_request LittleEndian ob)" "request_ok n ob" "8 + 64 * n \<le> sz"
  shows "\<exists>o1. transactionProtocolUnpackRequest LittleEndian sz s =
      Some (UnpackValid, o1, bs_adv s (length (enc_request LittleEndian ob))) \<and> object_view o1 = object_view ob"
proof -
  have ahead: "bs_at s (enc_uint8 (object_type ob))" "bs_at (bs_adv s 1) (enc_object LittleEndian ob)"
    using assms(2) by (simp_all add: enc_request_def bs_at_append)
  have wf: "bs_wf (bs_adv s 1)"
    using bs_at_wf_adv [OF assms(1) ahead(1)] by simp
  have "unat (object_type ob) < 256"
    using assms(3) by (cases ob) simp_all
  from uint8.get_ahead [OF assms(1) ahead(1) this]
  have "bitstream_read_uint8 s = Some (object_type ob, bs_adv s 1)"
    by simp
  from unpack_body_at [OF wf ahead(2) assms(3) this assms(4)] show ?thesis
    by (simp add: enc_request_def bs_adv_adv)
qed

section \<open>Unpacking arbitrary bytes\<close>

text \<open>Each attribute reader, on any bytes: it returns and passes a bounded number of them.\<close>

lemma read_uint_endian_room:
  assumes "bs_wf s"
  shows "bs_room s 2 \<Longrightarrow> \<exists>v. bitstream_read_uint16_endian s = Some (v, bs_adv s 2)"
    and "bs_room s 4 \<Longrightarrow> \<exists>v. bitstream_read_uint32_endian s = Some (v, bs_adv s 4)"
  using assms
  by (simp_all add: bitstream_read_uint16_endian_def bitstream_read_uint32_endian_def get_byte_room
      codec_ahead)

lemma read_str_total:
  assumes "bs_wf s" "bs_room s m" "0 < m" "m \<le> length a"
  shows "\<exists>r a' k. bitstream_read_str e s a m = Some (r, a', bs_adv s k) \<and> k \<le> m \<and> length a' = length a"
proof -
  have rd: "bitstream_read_uint8 s = Some (ucast (bs_data s ! bs_offset s), bs_adv s 1)"
    using assms by (simp add: bitstream_read_uint8_room bs_room_def)
  let ?n = "size_of_low_word e (ucast (bs_data s ! bs_offset s))"
  show ?thesis
  proof (cases "size_add ?n 1 > m")
    case True
    with rd assms(3) show ?thesis
      by (auto simp: bitstream_read_str_def intro!: exI [of _ "1 :: nat"])
  next
    case False
    have "unat (ucast (bs_data s ! bs_offset s) :: u32) < 2 ^ 32 - 1"
      by (rule le_less_trans [of _ "unat (bs_data s ! bs_offset s)"])
        (use unsigned_less [of "bs_data s ! bs_offset s", where ?'a = nat] in
          \<open>simp_all add: unsigned_ucast_eq take_bit_nat_less_eq_self\<close>)
    then have "?n < 2 ^ 64 - 1"
      by (cases e) (simp_all add: size_of_low_word_def)
    with False have n: "?n + 1 \<le> m"
      by simp
    have wf: "bs_wf (bs_adv s 1)" "bs_room (bs_adv s 1) ?n"
      using assms n by (simp_all add: bs_wf_adv bs_room_adv bs_room_def)
    have "bitstream_read_bytes e (bs_adv s 1) a ?n = Some (?n,
        overwrite a 0 (swap_on e (take ?n (drop (bs_offset s + 1) (bs_data s)))), bs_adv s (1 + ?n))"
      using bitstream_read_bytes_room [OF wf] assms(4) n by (simp add: bs_adv_adv)
    moreover have "length (swap_on e (take ?n (drop (bs_offset s + 1) (bs_data s)))) \<le> ?n"
      by simp
    ultimately show ?thesis
      using rd False n assms(4)
      by (auto simp: bitstream_read_str_def Let_def intro!: exI [of _ "1 + ?n"])
  qed
qed

lemma unpack_string_total:
  assumes "bs_wf s" "bs_room s (m + 2)" "0 < m" "m \<le> length a"
  shows "\<exists>r a' k. transactionProtocolUnpackAttributeString e s a m = Some (r, a', bs_adv s k)
    \<and> k \<le> m + 2 \<and> length a' = length a"
proof -
  have wf: "bs_wf (bs_adv s 1)" "bs_wf (bs_adv s 2)" "bs_room (bs_adv s 2) m" "bs_room s 1" "bs_room (bs_adv s 1) 1"
    using assms by (simp_all add: bs_wf_adv bs_room_adv bs_room_def)
  have rd: "bitstream_read_uint8 s = Some (ucast (bs_data s ! bs_offset s), bs_adv s 1)"
      "bitstream_read_uint8 (bs_adv s 1) = Some (ucast (bs_data s ! (bs_offset s + 1)), bs_adv s 2)"
    using assms(1) wf by (simp_all add: bitstream_read_uint8_room bs_adv_adv numeral_2_eq_2)
  obtain r a' k where "bitstream_read_str e (bs_adv s 2) a m = Some (r, a', bs_adv (bs_adv s 2) k)"
      "k \<le> m" "length a' = length a"
    using read_str_total [OF wf(2,3) assms(3,4)] by blast
  then show ?thesis
    using rd by (force simp: transactionProtocolUnpackAttributeString_def bs_adv_adv)
qed

lemma unpack_tlv_total:
  assumes "bs_wf s"
  shows "bs_room s 8 \<Longrightarrow> \<exists>r a k. transactionProtocolUnpackAttributeAddress e s a0 = Some (r, a, bs_adv s k) \<and> k \<le> 8"
    and "bs_room s 6 \<Longrightarrow> \<exists>r t k. transactionProtocolUnpackAttributeSeconds e s t0 = Some (r, t, bs_adv s k) \<and> k \<le> 6"
    and "bs_room s 4 \<Longrightarrow> \<exists>r n k. transactionProtocolUnpackAttributeCount e s n0 = Some (r, n, bs_adv s k) \<and> k \<le> 4"
proof -
  have rd: "bitstream_read_uint8 s = Some (ucast (bs_data s ! bs_offset s), bs_adv s 1)"
      "bitstream_read_uint8 (bs_adv s 1) = Some (ucast (bs_data s ! (bs_offset s + 1)), bs_adv s 2)"
      "bs_wf (bs_adv s 2)" if "bs_room s 2"
    using assms that
    by (simp_all add: bitstream_read_uint8_room bs_adv_adv numeral_2_eq_2 bs_wf_adv bs_room_adv bs_room_def)
  show "\<exists>r a k. transactionProtocolUnpackAttributeAddress e s a0 = Some (r, a, bs_adv s k) \<and> k \<le> 8" if "bs_room s 8"
  proof -
    have r: "bs_room s 2" "bs_room (bs_adv s 2) 2" "bs_room (bs_adv s 4) 4" "bs_wf (bs_adv s 4)"
      using that assms by (simp_all add: bs_room_adv bs_room_def bs_wf_adv)
    obtain p where "bitstream_read_uint16_endian (bs_adv s 2) = Some (p, bs_adv s 4)"
      using read_uint_endian_room(1) [OF rd(3) [OF r(1)] r(2)] by (auto simp: bs_adv_adv)
    moreover obtain h where "bitstream_read_uint32_endian (bs_adv s 4) = Some (h, bs_adv s 8)"
      using read_uint_endian_room(2) [OF r(4) r(3)] by (auto simp: bs_adv_adv)
    ultimately show ?thesis
      using rd(1,2) [OF r(1)]
      by (force simp: transactionProtocolUnpackAttributeAddress_def Let_def)
  qed
  show "\<exists>r t k. transactionProtocolUnpackAttributeSeconds e s t0 = Some (r, t, bs_adv s k) \<and> k \<le> 6" if "bs_room s 6"
  proof -
    have r: "bs_room s 2" "bs_room (bs_adv s 2) 4"
      using that by (simp_all add: bs_room_adv bs_room_def)
    obtain v where "bitstream_read_uint32 e (bs_adv s 2) = Some (v, bs_adv s 6)"
      using read_uint_room(2) [OF rd(3) [OF r(1)] r(2), of e] by (auto simp: bs_adv_adv)
    then show ?thesis
      using rd(1,2) [OF r(1)]
      by (force simp: transactionProtocolUnpackAttributeSeconds_def Let_def)
  qed
  show "\<exists>r n k. transactionProtocolUnpackAttributeCount e s n0 = Some (r, n, bs_adv s k) \<and> k \<le> 4" if "bs_room s 4"
  proof -
    have r: "bs_room s 2" "bs_room (bs_adv s 2) 2"
      using that by (simp_all add: bs_room_adv bs_room_def)
    obtain v where "bitstream_read_uint16 e (bs_adv s 2) = Some (v, bs_adv s 4)"
      using read_uint_room(1) [OF rd(3) [OF r(1)] r(2), of e] by (auto simp: bs_adv_adv)
    then show ?thesis
      using rd(1,2) [OF r(1)]
      by (force simp: transactionProtocolUnpackAttributeCount_def)
  qed
qed

text \<open>Readers in sequence: each starts where the previous one stopped.\<close>

lemma bs_adv_ready:
  "bs_wf s \<Longrightarrow> bs_room s n \<Longrightarrow> k + m \<le> n \<Longrightarrow> bs_wf (bs_adv s k) \<and> bs_room (bs_adv s k) m"
  by (simp add: bs_wf_adv bs_room_adv bs_room_def)

lemma unpack_entry_total:
  assumes "bs_wf s" "bs_room s 50" "length (peer_peerId p) = 32"
  shows "\<exists>r p' k. unpack_entry e s p = Some (r, p', bs_adv s k) \<and> k \<le> 50 \<and> length (peer_peerId p') = 32"
proof -
  obtain r a k where a: "transactionProtocolUnpackAttributeString e s (peer_peerId p) 32 = Some (r, a, bs_adv s k)"
      "k \<le> 34" "length a = 32"
    using unpack_string_total [OF assms(1), of 32 "peer_peerId p" e] assms(2,3)
    by (auto simp: bs_room_def)
  obtain r2 b k2 where b: "transactionProtocolUnpackAttributeAddress e (bs_adv s k) (peer_localAddress p)
        = Some (r2, b, bs_adv s (k + k2))" "k2 \<le> 8"
    using unpack_tlv_total(1) [of "bs_adv s k" e "peer_localAddress p"] bs_adv_ready [OF assms(1,2), of k 8] a(2)
    by (auto simp: bs_adv_adv)
  obtain r3 c k3 where c: "transactionProtocolUnpackAttributeAddress e (bs_adv s (k + k2)) (peer_mappedAddress p)
        = Some (r3, c, bs_adv s (k + k2 + k3))" "k3 \<le> 8"
    using unpack_tlv_total(1) [of "bs_adv s (k + k2)" e "peer_mappedAddress p"]
      bs_adv_ready [OF assms(1,2), of "k + k2" 8] a(2) b(2)
    by (auto simp: bs_adv_adv)
  show ?thesis
    using a b c
    by (intro exI [of _ r3] exI [of _ "k + k2 + k3"]
        exI [of _ "p\<lparr>peer_peerId := a, peer_localAddress := b, peer_mappedAddress := c\<rparr>"])
      (simp add: unpack_entry_def)
qed

lemma unpack_peers_loop_total:
  assumes "bs_wf s" "bs_room s (50 * (n - i))" "n \<le> length l" "\<forall>p \<in> set l. length (peer_peerId p) = 32" "8 + 64 * n \<le> sz"
  shows "\<exists>r' l' k. unpack_peers_loop e sz s r l n i = Some (r', l', bs_adv s k) \<and> k \<le> 50 * (n - i)"
  using assms
proof (induction "n - i" arbitrary: s i l r)
  case 0
  then have "unpack_peers_loop e sz s r l n i = Some (r, l, bs_adv s 0)"
    by (subst unpack_peers_loop.simps) simp
  then show ?case
    by blast
next
  case (Suc d)
  have i: "i < n"
    using Suc.hyps(2) by simp
  have "bs_room s 50"
    using i Suc.prems(2) by (simp add: bs_room_def)
  then obtain r1 p k where p: "unpack_entry e s (l ! i) = Some (r1, p, bs_adv s k)" "k \<le> 50"
      "length (peer_peerId p) = 32"
    using unpack_entry_total [OF Suc.prems(1), of "l ! i" e] i Suc.prems(3,4) by auto
  have ready: "bs_wf (bs_adv s k) \<and> bs_room (bs_adv s k) (50 * (n - (i + 1)))"
    using p(2) i by (intro bs_adv_ready [OF Suc.prems(1,2)]) simp
  have "\<exists>r' l' k'. unpack_peers_loop e sz (bs_adv s k) r1 (l[i := p]) n (i + 1)
      = Some (r', l', bs_adv (bs_adv s k) k') \<and> k' \<le> 50 * (n - (i + 1))"
    using Suc.hyps(2) Suc.prems(3-5) p(3) ready
    by (intro Suc.hyps(1)) (auto dest!: set_update_subset_insert [THEN subsetD])
  then obtain r' l' k' where
      rest: "unpack_peers_loop e sz (bs_adv s k) r1 (l[i := p]) n (i + 1) = Some (r', l', bs_adv s (k + k'))"
      "k' \<le> 50 * (n - (i + 1))"
    by (auto simp: bs_adv_adv)
  have "unpack_peer e sz s l i = Some (r1, l[i := p], bs_adv s k)"
    using i Suc.prems(3-5) p(1) by (subst unpack_peer_block) simp_all
  then have "unpack_peers_loop e sz s r l n i = Some (r', l', bs_adv s (k + k'))"
    using i rest(1) by (subst unpack_peers_loop.simps) simp
  then show ?case
    using p(2) rest(2) i by (intro exI [of _ r'] exI [of _ l'] exI [of _ "k + k'"]) simp
qed

text \<open>Where a string attribute ends does not depend on the buffer it is read into.\<close>

lemma unpack_string_stream:
  assumes "transactionProtocolUnpackAttributeString e s a m = Some (r, a', s')"
    and "transactionProtocolUnpackAttributeString e s b m = Some (r2, b', s2)"
  shows "s' = s2"
  using assms
  by (auto simp: transactionProtocolUnpackAttributeString_def bitstream_read_str_def bitstream_read_bytes_def Let_def
      Option.bind_eq_Some_conv split: if_splits)

lemma unpack_peer_outside:
  assumes "bs_wf s" "bs_at s (enc_peer LittleEndian p)" "peer_ok p" "sz < 8 + 64 * (i + 1)"
  shows "unpack_peer LittleEndian sz s l i = None"
proof -
  let ?q = "if i < length l then l ! i else zero_peer" and ?k = "length (c_str (peer_peerId p)) + 3"
  have ok: "str_ok 32 (peer_peerId p)" "addr_ok (peer_localAddress p)" "addr_ok (peer_mappedAddress p)"
    using assms(3) by (simp_all add: peer_ok_def)
  have ahead: "bs_at s (enc_attr_string LittleEndian (peer_peerId p))"
      "bs_at (bs_adv s ?k) (enc_attr_address (peer_localAddress p))"
      "bs_at (bs_adv s (?k + 8)) (enc_attr_address (peer_mappedAddress p))"
    using assms(2) by (simp_all add: enc_peer_def bs_at_append bs_adv_adv)
  have wf: "bs_wf (bs_adv s ?k)" "bs_wf (bs_adv s (?k + 8))"
    using assms(1) bs_at_room [OF assms(2)] by (simp_all add: bs_wf_adv bs_room_def)
  obtain a where a: "transactionProtocolUnpackAttributeString LittleEndian s (replicate 32 0) 32 = Some (UnpackValid, a, bs_adv s ?k)"
    using unpack_string_at [OF assms(1) ahead(1), of 32 "replicate 32 0"] str_ok_length [OF ok(1)] by auto
  show ?thesis
  proof (cases "transactionProtocolUnpackAttributeString LittleEndian s (take (sz - (8 + 64 * i)) (peer_peerId ?q)) 32")
    case None
    then show ?thesis
      by (simp add: unpack_peer_def Let_def)
  next
    case (Some x)
    then obtain r a' where "transactionProtocolUnpackAttributeString LittleEndian s (take (sz - (8 + 64 * i)) (peer_peerId ?q)) 32 =
        Some (r, a', bs_adv s ?k)"
      using unpack_string_stream [OF _ a] by (cases x) auto
    then show ?thesis
      using unpack_address_at [OF wf(1) ok(2) ahead(2)] unpack_address_at [OF wf(2) ok(3) ahead(3)] assms(4)
      by (simp add: unpack_peer_def Let_def bs_adv_adv)
  qed
qed

lemma unpack_peers_loop_overrun:
  assumes "bs_wf s" "bs_at s (concat (map (enc_peer LittleEndian) ps))" "\<forall>p \<in> set ps. peer_ok p" "i + length ps \<le> n"
    and "sz < 8 + 64 * (i + length ps)" "length l = peer_slots sz" "\<forall>p \<in> set l. length (peer_peerId p) = 32" "ps \<noteq> []"
  shows "unpack_peers_loop LittleEndian sz s r l n i = None"
  using assms
proof (induction ps arbitrary: s i l r)
  case (Cons p ps)
  have i: "i < n"
    using Cons.prems(4) by simp
  have ahead: "bs_at s (enc_peer LittleEndian p)" "bs_at (bs_adv s (length (enc_peer LittleEndian p))) (concat (map (enc_peer LittleEndian) ps))"
    using Cons.prems(2) by (simp_all only: bs_at_append list.map concat.simps)
  show ?case
  proof (cases "sz < 8 + 64 * (i + 1)")
    case True
    then show ?thesis
      using i unpack_peer_outside [OF Cons.prems(1) ahead(1) _ True, of l] Cons.prems(3) by (subst unpack_peers_loop.simps) simp
  next
    case False
    then have l: "i < length l" "ps \<noteq> []"
      using Cons.prems(5,6) by (auto simp: peer_slots_def)
    obtain p' where p': "unpack_entry LittleEndian s (l ! i) = Some (UnpackValid, p', bs_adv s (length (enc_peer LittleEndian p)))"
        "length (peer_peerId p') = 32"
      using unpack_entry_at [OF Cons.prems(1) ahead(1), of "l ! i"] Cons.prems(3,7) l by auto
    have "unpack_peer LittleEndian sz s l i = Some (UnpackValid, l[i := p'], bs_adv s (length (enc_peer LittleEndian p)))"
      using False Cons.prems(7) l p'(1) by (subst unpack_peer_block) simp_all
    moreover have "unpack_peers_loop LittleEndian sz (bs_adv s (length (enc_peer LittleEndian p))) UnpackValid (l[i := p']) n (i + 1) = None"
      using Cons.prems(3-7) ahead(2) bs_at_wf_adv [OF Cons.prems(1) ahead(1)] l(2) p'(2)
      by (intro Cons.IH) (auto dest!: set_update_subset_insert [THEN subsetD])
    ultimately show ?thesis
      using i by (subst unpack_peers_loop.simps) simp
  qed
qed simp

lemma read_bytes_loop_overrun:
  "b \<le> length dest \<Longrightarrow> length dest < n \<Longrightarrow> read_bytes_loop d off dest n b = None"
proof (induction d off dest n b rule: read_bytes_loop.induct)
  case (1 d off dest n b)
  show ?case
  proof (cases "b < length dest")
    case True
    with "1.prems" have "read_bytes_loop d off (dest[b := v]) n (b + 1) = None"
      if "mem_read d ((off + n - b - 1) mod 2 ^ 64) = Some v" for v
      using that by (intro "1.IH" [of v]) simp_all
    then show ?thesis
      using True "1.prems"(2)
      by (subst read_bytes_loop.simps)
        (cases "mem_read d ((off + n - b - 1) mod 2 ^ 64)"; simp)
  next
    case False
    with 1 show ?thesis
      by (subst read_bytes_loop.simps) (auto simp: Option.bind_eq_None_conv mem_write_def)
  qed
qed

lemma read_bytes_overrun:
  "bs_wf s \<Longrightarrow> bs_room s n \<Longrightarrow> length dest < n \<Longrightarrow> bitstream_read_bytes e s dest n = None"
  by (cases e) (simp_all add: bitstream_read_bytes_def read_bytes_loop_overrun mem_copy_def)


lemma unpack_user_create_total:
  assumes "bs_wf s" "bs_room s 92" "length (uc_name ob) = 40" "length (uc_email ob) = 40"
  shows "\<exists>r o1 k. transactionProtocolUnpackObjectUserCreate e s ob = Some (r, o1, bs_adv s k) \<and> k \<le> 92"
proof -
  obtain v where v: "bitstream_read_uint64 e s = Some (v, bs_adv s 8)"
    using read_uint_room(3) [OF assms(1)] bs_room_mono [OF assms(2)] by auto
  obtain r a k where a: "transactionProtocolUnpackAttributeString e (bs_adv s 8) (uc_name ob) 40
      = Some (r, a, bs_adv s (8 + k))" "k \<le> 42"
    using unpack_string_total [of "bs_adv s 8" 40 "uc_name ob" e] bs_adv_ready [OF assms(1,2), of 8 42] assms(3)
    by (auto simp: bs_adv_adv)
  obtain r2 b k2 where b: "transactionProtocolUnpackAttributeString e (bs_adv s (8 + k)) (uc_email ob) 40
      = Some (r2, b, bs_adv s (8 + k + k2))" "k2 \<le> 42"
    using unpack_string_total [of "bs_adv s (8 + k)" 40 "uc_email ob" e]
      bs_adv_ready [OF assms(1,2), of "8 + k" 42] assms(4) a(2)
    by (auto simp: bs_adv_adv)
  show ?thesis
    using v a b
    by (simp add: transactionProtocolUnpackObjectUserCreate_def) (rule exI [of _ "8 + k + k2"], simp)
qed

lemma unpack_resource_create_total:
  assumes "bs_wf s" "bs_room s 145" "length (rc_data ob) = 128" "unat (bs_data s ! (bs_offset s + 16)) \<le> 128"
  shows "\<exists>r o1 k. transactionProtocolUnpackObjectResourceCreate e sz s ob = Some (r, o1, bs_adv s k) \<and> k \<le> 145"
proof -
  let ?n = "ucast (bs_data s ! (bs_offset s + 16)) :: u32"
  have n: "unat ?n \<le> 128"
    using assms(4) by (simp add: unsigned_ucast_eq take_bit_nat_eq_self)
  obtain v w where v: "bitstream_read_uint64 e s = Some (v, bs_adv s 8)"
      "bitstream_read_uint64 e (bs_adv s 8) = Some (w, bs_adv s 16)"
    using read_uint_room(3) [OF assms(1), of e] read_uint_room(3) [of "bs_adv s 8" e]
      bs_adv_ready [OF assms(1,2), of 0 8] bs_adv_ready [OF assms(1,2), of 8 8]
    by (auto simp: bs_adv_adv)
  have "bitstream_read_uint8 (bs_adv s 16) = Some (?n, bs_adv s 17)"
    using bitstream_read_uint8_room [of "bs_adv s 16"] bs_adv_ready [OF assms(1,2), of 16 1]
    by (simp add: bs_adv_adv)
  moreover obtain d where "bitstream_read_bytes e (bs_adv s 17)
      (rc_data ob @ host_bytes e 4 ?n @ replicate 4 0 @ host_bytes e 8 w @ replicate (sz - 160) 0) (unat ?n)
      = Some (unat ?n, d, bs_adv s (17 + unat ?n))"
    using bitstream_read_bytes_room [of "bs_adv s 17" "unat ?n" _ e] assms(3) n
      bs_adv_ready [OF assms(1,2), of 17 "unat ?n"]
    by (auto simp: bs_adv_adv)
  ultimately show ?thesis
    using v n
    by (simp add: transactionProtocolUnpackObjectResourceCreate_def Let_def) (rule exI [of _ "17 + unat ?n"], simp)
qed

lemma unpack_online_total:
  assumes "bs_wf s" "bs_room s 30"
  shows "\<exists>r o1 k. transactionProtocolUnpackObjectOnline e s ob = Some (r, o1, bs_adv s k) \<and> k \<le> 30"
proof -
  obtain v where v: "bitstream_read_uint64 e s = Some (v, bs_adv s 8)"
    using read_uint_room(3) [OF assms(1)] bs_room_mono [OF assms(2)] by auto
  obtain r a k where a: "transactionProtocolUnpackAttributeAddress e (bs_adv s 8) (on_localAddress ob)
      = Some (r, a, bs_adv s (8 + k))" "k \<le> 8"
    using unpack_tlv_total(1) [of "bs_adv s 8" e] bs_adv_ready [OF assms, of 8 8]
    by (auto simp: bs_adv_adv) blast
  obtain r2 b k2 where b: "transactionProtocolUnpackAttributeAddress e (bs_adv s (8 + k)) (on_mappedAddress ob)
      = Some (r2, b, bs_adv s (8 + k + k2))" "k2 \<le> 8"
    using unpack_tlv_total(1) [of "bs_adv s (8 + k)" e] bs_adv_ready [OF assms, of "8 + k" 8] a(2)
    by (auto simp: bs_adv_adv) blast
  obtain r3 t k3 where t: "transactionProtocolUnpackAttributeSeconds e (bs_adv s (8 + k + k2)) (on_expireSeconds ob)
      = Some (r3, t, bs_adv s (8 + k + k2 + k3))" "k3 \<le> 6"
    using unpack_tlv_total(2) [of "bs_adv s (8 + k + k2)" e] bs_adv_ready [OF assms, of "8 + k + k2" 6] a(2) b(2)
    by (auto simp: bs_adv_adv) blast
  show ?thesis
    using v a b t
    by (simp add: transactionProtocolUnpackObjectOnline_def) (rule exI [of _ "8 + k + k2 + k3"], simp)
qed

lemma unpack_string_address_total:
  assumes "bs_wf s" "bs_room s 42" "length x = 32"
  shows "\<exists>r y k r2 b k2. transactionProtocolUnpackAttributeString e s x 32 = Some (r, y, bs_adv s k) \<and>
    transactionProtocolUnpackAttributeAddress e (bs_adv s k) a0 = Some (r2, b, bs_adv s k2) \<and> k2 \<le> 42"
proof -
  obtain r y k where a: "transactionProtocolUnpackAttributeString e s x 32 = Some (r, y, bs_adv s k)" "k \<le> 34"
    using unpack_string_total [OF assms(1), of 32 x e] assms(2,3) by (auto simp: bs_room_def)
  obtain r2 b k2 where b: "transactionProtocolUnpackAttributeAddress e (bs_adv s k) a0
      = Some (r2, b, bs_adv s (k + k2))" "k2 \<le> 8"
    using unpack_tlv_total(1) [of "bs_adv s k" e a0] bs_adv_ready [OF assms(1,2), of k 8] a(2)
    by (auto simp: bs_adv_adv)
  from a b show ?thesis
    by (intro exI [of _ r] exI [of _ y] exI [of _ k] exI [of _ r2] exI [of _ b] exI [of _ "k + k2"]) simp
qed

lemma unpack_peer_list_total:
  assumes "bs_wf s" "bs_room s 154" "\<forall>p \<in> set (pl_list ob). length (peer_peerId p) = 32"
    and "\<And>r c s'. transactionProtocolUnpackAttributeCount e s (pl_count ob) = Some (r, c, s') \<Longrightarrow>
      unat c \<le> 3 \<and> unat c \<le> length (pl_list ob) \<and> 8 + 64 * unat c \<le> sz"
  shows "\<exists>r o1 k. transactionProtocolUnpackObjectPeerList e sz s ob = Some (r, o1, bs_adv s k) \<and> k \<le> 154"
proof -
  obtain r c k where c: "transactionProtocolUnpackAttributeCount e s (pl_count ob) = Some (r, c, bs_adv s k)" "k \<le> 4"
    using unpack_tlv_total(3) [OF assms(1), of e "pl_count ob"] bs_room_mono [OF assms(2)] by auto
  then have n: "unat c \<le> 3" "unat c \<le> length (pl_list ob)" "8 + 64 * unat c \<le> sz"
    using assms(4) by auto
  obtain r2 l k2 where "unpack_peers_loop e sz (bs_adv s k) r (pl_list ob) (unat c) 0 = Some (r2, l, bs_adv s (k + k2))"
      "k2 \<le> 50 * unat c"
    using unpack_peers_loop_total [of "bs_adv s k" "unat c" 0 "pl_list ob" sz e r]
      bs_adv_ready [OF assms(1,2), of k "50 * unat c"] n c(2) assms(3)
    by (auto simp: bs_adv_adv)
  then show ?thesis
    using c n
    by (simp add: transactionProtocolUnpackObjectPeerList_def) (rule exI [of _ "k + k2"], simp)
qed

section \<open>The header\<close>

lemma transaction_header_room:
  assumes "bs_wf s" "bs_room s 5"
  shows "transactionProtocolPackHeader s i t =
    Some (bs_put s (enc_transaction_header i t))"
  using assms
  by (simp add: enc_transaction_header_def transactionProtocolPackHeader_def protocolPackHeader_room uint8.put_fits codec_room)

lemma transaction_header_at:
  assumes "bs_wf s" "bs_at s (enc_transaction_header i t)"
    and "unat i < 256" "unat t < 256"
  shows "transactionProtocolUnpackHeader s i0 t0 = Some (UnpackValid, i, t, bs_adv s 5)"
  using assms bs_at_room [OF assms(2)]
  by (clarsimp simp: enc_transaction_header_def transactionProtocolUnpackHeader_def codec_ahead protocolUnpackHeader_at uint8.get_ahead)

lemma enc_request_length:
  assumes "request_ok n ob" "\<And>x. ob = ObjectPeerList x \<Longrightarrow> unat (pl_count x) \<le> 4"
  shows "length (enc_request e ob) \<le> 251"
proof (cases ob)
  case (ObjectPeerList x)
  let ?ps = "take (unat (pl_count x)) (pl_list x)"
  have "length (enc_peer e p) \<le> 50" if "p \<in> set ?ps" for p
    using assms(1) that ObjectPeerList by (auto simp: peer_ok_def dest!: bspec str_ok_length)
  then have "length (concat (map (enc_peer e) ?ps)) \<le> 50 * length ?ps"
    by (rule length_concat_map_le)
  with ObjectPeerList assms show ?thesis
    by (simp add: enc_request_def)
qed (use assms(1) in \<open>auto simp: enc_request_def dest!: str_ok_length\<close>)

lemma unpack_other_total:
  assumes "bs_wf s" "bs_room s 155" "bs_data s ! bs_offset s \<noteq> 0x70" "bs_data s ! bs_offset s \<noteq> 0x93"
  shows "\<exists>r ob k. transactionProtocolUnpackRequest e sz s = Some (r, ob, bs_adv s k) \<and> k \<le> 155"
proof -
  let ?t = "ucast (bs_data s ! bs_offset s) :: u32"
  have rd: "bitstream_read_uint8 s = Some (?t, bs_adv s 1)"
    using bitstream_read_uint8_room [OF assms(1)] bs_room_mono [OF assms(2), of 1] by simp
  have ready: "bs_wf (bs_adv s 1)" "bs_room (bs_adv s 1) 92" "bs_room (bs_adv s 1) 30"
      "bs_room (bs_adv s 1) 42" "bs_room (bs_adv s 1) 34"
    using bs_adv_ready [OF assms(1,2), of 1 154] by (simp_all add: bs_room_def)
  have other: "?t \<noteq> 0x70" "?t \<noteq> 0x93"
    using assms(3,4) by (simp_all add: ucast_u8_eq_iff)
  obtain ru ou ku where u: "transactionProtocolUnpackObjectUserCreate e (bs_adv s 1)
      \<lparr>uc_uid = 0, uc_name = replicate 40 0, uc_email = replicate 40 0\<rparr> = Some (ru, ou, bs_adv s (1 + ku))" "ku \<le> 92"
    using unpack_user_create_total [OF ready(1,2), of "\<lparr>uc_uid = 0, uc_name = replicate 40 0, uc_email = replicate 40 0\<rparr>" e]
    by (auto simp: bs_adv_adv)
  obtain ro oo ko where o: "transactionProtocolUnpackObjectOnline e (bs_adv s 1) zero_online = Some (ro, oo, bs_adv s (1 + ko))"
      "ko \<le> 30"
    using unpack_online_total [OF ready(1,3), of e zero_online] by (auto simp: bs_adv_adv)
  obtain rs ys ks where str: "transactionProtocolUnpackAttributeString e (bs_adv s 1) (replicate 32 0) 32
      = Some (rs, ys, bs_adv s (1 + ks))" "ks \<le> 34"
    using unpack_string_total [OF ready(1), of 32 "replicate 32 0" e] ready(5) by (auto simp: bs_adv_adv)
  obtain ra a ka where adr: "transactionProtocolUnpackAttributeAddress e (bs_adv s (1 + ks)) sockaddr_zero
      = Some (ra, a, bs_adv s (1 + ka))" "ka \<le> 42"
    using unpack_string_address_total [OF ready(1,4), of "replicate 32 0" e sockaddr_zero] str(1)
    by (auto simp: bs_adv_adv)
  note body = transactionProtocolUnpackRequest_def transactionProtocolUnpackObjectOffline_def
    transactionProtocolUnpackObjectConnect_def transactionProtocolUnpackObjectConnectAccept_def
    transactionProtocolUnpackObjectConnectRefuse_def transactionProtocolUnpackObjectDisconnect_def
  consider "?t = 0x50" | "?t = 0x91" | "?t \<in> {0x92, 0xc2, 0xc3}" | "?t \<in> {0xc0, 0xc1}"
    | "?t \<notin> {0x50, 0x91, 0x92, 0xc0, 0xc1, 0xc2, 0xc3}"
    by blast
  then have "\<exists>r ob. \<exists>k \<in> {1 + ku, 1 + ko, 1 + ks, 1 + ka, 1}.
      transactionProtocolUnpackRequest e sz s = Some (r, ob, bs_adv s k)"
    by cases (use rd u(1) o(1) str(1) adr(1) other in \<open>auto simp: body\<close>)
  with u(2) o(2) str(2) adr(2) show ?thesis
    by fastforce
qed

section \<open>Properties\<close>

text \<open>
  (C16) Request round trip through a packet on a little-endian target. A well-formed request whose encoding fits the
  251 bytes behind the header, which holds for every kind and for peer lists of up to four peers, is
  packed behind the header of a 256-byte packet and unpacked from its start into a block with room for its peers: it is
  reported valid with the same transaction id and type and with the same meaning (strings,
  addresses, numbers, resource data, peers in order).
\<close>

theorem transaction_request_roundtrip:
  assumes "length d = 256" "request_ok n ob" "length (enc_request LittleEndian ob) \<le> 251" "8 + 64 * n \<le> sz"
    and "unat i < 256" "unat t < 256"
  shows "\<exists>s' o1. (transactionProtocolPackHeader (bitstream_create d 256) i t
        \<bind> (\<lambda>s. transactionProtocolPackRequest LittleEndian s ob)) = Some s' \<and>
      do { (r, j, u, s) \<leftarrow> transactionProtocolUnpackHeader (bitstream_reset s') i0 t0;
           (r', o', s) \<leftarrow> transactionProtocolUnpackRequest LittleEndian sz s;
           Some (r, j, u, r', o', s) }
      = Some (UnpackValid, i, t, UnpackValid, o1, s') \<and> object_view o1 = object_view ob"
proof -
  let ?s = "bitstream_create d 256" and ?q = "enc_request LittleEndian ob"
  let ?h = "enc_transaction_header i t"
  let ?w = "(bs_put ?s (?h @ ?q))\<lparr>bs_offset := bs_offset ?s\<rparr>"
  have wf: "bs_wf ?s" and off: "bs_offset ?s = 0"
    using assms(1) by (simp_all add: bs_wf_def bitstream_create_def)
  have fits: "length ?q \<le> 251"
    using assms(3) .
  have room: "bs_room ?s (length (?h @ ?q))" "bs_room ?s 5"
    using fits by (simp_all add: bs_room_def bitstream_create_def)
  have pack: "transactionProtocolPackHeader ?s i t = Some (bs_put ?s ?h)"
    using transaction_header_room [OF wf room(2)] .
  have packed: "transactionProtocolPackRequest LittleEndian (bs_put ?s ?h) ob = Some (bs_put ?s (?h @ ?q))"
    using pack_request_room [of "bs_put ?s ?h" n ob LittleEndian] wf room assms(2)
    by (simp add: bs_wf_put bs_room_put bs_put_put)
  have rw: "bitstream_reset (bs_put ?s (?h @ ?q)) = ?w"
    by (simp add: bitstream_reset_def off)
  have w: "bs_wf ?w" "bs_at ?w ?h" "bs_at (bs_adv ?w 5) ?q"
    using bs_wf_rewind [OF wf room(1)] bs_at_put [OF wf room(1)] by (auto simp: bs_at_append bs_adv_adv)
  have "bs_wf (bs_adv ?w 5)"
    using bs_at_wf_adv [OF w(1,2)] by simp
  from unpack_request_at [OF this w(3) assms(2,4)]
  obtain o1 where "transactionProtocolUnpackRequest LittleEndian sz (bs_adv ?w 5)
      = Some (UnpackValid, o1, bs_adv (bs_adv ?w 5) (length ?q))" "object_view o1 = object_view ob"
    by blast
  moreover have "bs_adv (bs_adv ?w 5) (length ?q) = bs_put ?s (?h @ ?q)"
    using bs_put_rewind [of ?s "?h @ ?q"] by (simp add: bs_adv_adv)
  ultimately show ?thesis
    using pack packed transaction_header_at [OF w(1,2) assms(5,6)] by (simp add: rw)
qed

theorem transaction_request_roundtrip_witness:
  "\<exists>s' o1. (transactionProtocolPackHeader (bitstream_create (replicate 256 0) 256) 7 1
        \<bind> (\<lambda>s. transactionProtocolPackRequest LittleEndian s
              (ObjectOffline \<lparr>off_peerId = 104 # 105 # replicate 30 0\<rparr>))) = Some s' \<and>
      do { (r, j, u, s) \<leftarrow> transactionProtocolUnpackHeader (bitstream_reset s') 0 0;
           (r', o', s) \<leftarrow> transactionProtocolUnpackRequest LittleEndian 256 s;
           Some (r, j, u, r', o', s) }
      = Some (UnpackValid, 7, 1, UnpackValid, o1, s') \<and>
      object_view o1 = object_view (ObjectOffline \<lparr>off_peerId = 104 # 105 # replicate 30 0\<rparr>)"
  using enc_request_length [of 3 "ObjectOffline \<lparr>off_peerId = 104 # 105 # replicate 30 0\<rparr>" LittleEndian]
  by (intro transaction_request_roundtrip [where n = 3]) (simp_all add: str_ok_def)

text \<open>
  (C28) Unpacking arbitrary packets. With at least 155 bytes behind the header, whatever they
  are, unpacking a request returns without an access outside the packet or the object and
  passes at most 155 bytes, provided a resource declares at most 128 bytes of data and a peer
  list at most three peers that the object has room for.
\<close>

theorem transactionProtocolUnpackRequest_total:
  assumes "bs_wf s" "bs_room s 155"
    and "bs_data s ! bs_offset s = 0x70 \<Longrightarrow> unat (bs_data s ! (bs_offset s + 17)) \<le> 128"
    and "\<And>r c s'. bs_data s ! bs_offset s = 0x93 \<Longrightarrow>
      transactionProtocolUnpackAttributeCount e (bs_adv s 1) 0 = Some (r, c, s') \<Longrightarrow> unat c \<le> 3 \<and> 8 + 64 * unat c \<le> sz"
  shows "\<exists>r ob k. transactionProtocolUnpackRequest e sz s = Some (r, ob, bs_adv s k) \<and> k \<le> 155"
proof -
  let ?t = "ucast (bs_data s ! bs_offset s) :: u32"
  have rd: "bitstream_read_uint8 s = Some (?t, bs_adv s 1)"
    using bitstream_read_uint8_room [OF assms(1)] bs_room_mono [OF assms(2), of 1] by simp
  have ready: "bs_wf (bs_adv s 1)" "bs_room (bs_adv s 1) 145" "bs_room (bs_adv s 1) 154"
    using bs_adv_ready [OF assms(1,2), of 1 154] by (simp_all add: bs_room_def)
  consider "?t = 0x70" | "?t = 0x93" | "?t \<noteq> 0x70" "?t \<noteq> 0x93"
    by blast
  then show ?thesis
  proof cases
    case 1
    then have "bs_data s ! bs_offset s = 0x70"
      by (simp add: ucast_u8_eq_iff)
    from assms(3) [OF this]
    have "unat (bs_data (bs_adv s 1) ! (bs_offset (bs_adv s 1) + 16)) \<le> 128"
      by (simp add: add.commute)
    from unpack_resource_create_total [OF ready(1,2) _ this, of
        "\<lparr>rc_rid = 0, rc_data = replicate 128 0, rc_length = 0, rc_uid = 0\<rparr>" e sz]
    show ?thesis
      using rd 1 by (fastforce simp: transactionProtocolUnpackRequest_def bs_adv_adv)
  next
    case 2
    then have "bs_data s ! bs_offset s = 0x93"
      by (simp add: ucast_u8_eq_iff)
    from unpack_peer_list_total [OF ready(1,3), of "\<lparr>pl_count = 0, pl_list = replicate (peer_slots sz) zero_peer\<rparr>" e sz]
      assms(4) [OF this]
    have "\<exists>r o1 k. transactionProtocolUnpackObjectPeerList e sz (bs_adv s 1) \<lparr>pl_count = 0, pl_list = replicate (peer_slots sz) zero_peer\<rparr> =
        Some (r, o1, bs_adv (bs_adv s 1) k) \<and> k \<le> 154"
      by (fastforce simp: zero_peer_def peer_slots_def)
    then show ?thesis
      using rd 2 by (fastforce simp: transactionProtocolUnpackRequest_def bs_adv_adv)
  next
    case 3
    then show ?thesis
      by (intro unpack_other_total [OF assms(1,2)]) auto
  qed
qed

theorem transactionProtocolUnpackRequest_total_witness:
  "\<exists>r ob k. transactionProtocolUnpackRequest BigEndian 256 (bitstream_create (replicate 256 0x92) 256)
     = Some (r, ob, bs_adv (bitstream_create (replicate 256 0x92) 256) k) \<and> k \<le> 155"
  by (rule transactionProtocolUnpackRequest_total) (simp_all add: bs_wf_def bs_room_def bitstream_create_def)

text \<open>
  (C30) The two unchecked lengths. A resource that declares, and brings, 144 bytes of data or more overwrites the
  members behind its array: if the data end inside the block, the length and the user id are those that the data hold
  at their place, and the object is reported valid if that length is the declared one; if they do not, the copy
  leaves the block. A peer list that brings more well-formed peers than the block has room for is unpacked beyond
  the block (shown for little-endian targets, where strings can be read).
\<close>

theorem transaction_unpack_overruns:
  assumes "bs_wf s"
  shows "(bs_at s (enc_uint64 e rid @ enc_uint64 e uid @ enc_uint8 (of_nat (length d)) @ swap_on e d) \<and>
          length (rc_data ro) = 128 \<and> 144 \<le> length d \<and> length d < 256 \<and> 160 \<le> sz \<longrightarrow>
          transactionProtocolUnpackObjectResourceCreate e sz s ro =
            (if sz < 16 + length d then None
             else Some (if host_word e (take 4 (drop 128 d)) = (of_nat (length d) :: u32) then UnpackValid else UnpackInvalid,
               \<lparr>rc_rid = rid, rc_data = take 128 d, rc_length = host_word e (take 4 (drop 128 d)),
                rc_uid = host_word e (take 8 (drop 136 d))\<rparr>, bs_adv s (17 + length d)))) \<and>
         (bs_at s (enc_attr_count LittleEndian c @ concat (map (enc_peer LittleEndian) ps)) \<and> (\<forall>p \<in> set ps. peer_ok p) \<and>
          length ps \<le> unat c \<and> unat c < 2 ^ 16 \<and> ps \<noteq> [] \<and> sz < 8 + 64 * length ps \<and>
          length (pl_list po) = peer_slots sz \<and> (\<forall>p \<in> set (pl_list po). length (peer_peerId p) = 32) \<longrightarrow>
          transactionProtocolUnpackObjectPeerList LittleEndian sz s po = None)"
proof (intro conjI impI; elim conjE)
  let ?n = "of_nat (length d) :: u32"
  let ?b = "rc_data ro @ host_bytes e 4 ?n @ replicate 4 0 @ host_bytes e 8 uid @ replicate (sz - 160) 0"
  assume ahead: "bs_at s (enc_uint64 e rid @ enc_uint64 e uid @ enc_uint8 ?n @ swap_on e d)"
    and d: "length (rc_data ro) = 128" "144 \<le> length d" "length d < 256" "160 \<le> sz"
  have n: "unat ?n = length d" "unat ?n < 256"
    using d(3) by (simp_all add: unat_of_nat take_bit_nat_eq_self)
  have room: "bs_room s (17 + length d)"
    using bs_at_room [OF ahead] by simp
  have at: "bs_at s (enc_uint64 e rid)" "bs_at (bs_adv s 8) (enc_uint64 e uid)" "bs_at (bs_adv s 16) (enc_uint8 ?n)" "bs_at (bs_adv s 17) (swap_on e d)"
    using ahead by (simp_all add: bs_at_append bs_adv_adv)
  have wf: "bs_wf (bs_adv s 8)" "bs_wf (bs_adv s 16)" "bs_wf (bs_adv s 17)" "bs_room (bs_adv s 17) (length d)"
    using assms room by (simp_all add: bs_wf_adv bs_room_adv bs_room_def)
  have len: "length ?b = sz - 16"
    using d(1,4) by simp
  have "bitstream_read_bytes e (bs_adv s 17) ?b (length d) =
      (if sz < 16 + length d then None else Some (length d, overwrite ?b 0 d, bs_adv s (17 + length d)))"
    using bitstream_read_bytes_at [OF wf(3) at(4), of "length d" ?b] read_bytes_overrun [OF wf(3,4), of ?b e] len d(4)
    by (auto simp: bs_adv_adv)
  moreover have "take 128 (overwrite ?b 0 d) = take 128 d" "take 4 (drop 128 (overwrite ?b 0 d)) = take 4 (drop 128 d)"
      "take 8 (drop 136 (overwrite ?b 0 d)) = take 8 (drop 136 d)"
    using d(2) by (simp_all add: overwrite_def)
  ultimately show "transactionProtocolUnpackObjectResourceCreate e sz s ro =
      (if sz < 16 + length d then None
       else Some (if host_word e (take 4 (drop 128 d)) = ?n then UnpackValid else UnpackInvalid,
         \<lparr>rc_rid = rid, rc_data = take 128 d, rc_length = host_word e (take 4 (drop 128 d)),
          rc_uid = host_word e (take 8 (drop 136 d))\<rparr>, bs_adv s (17 + length d)))"
    using uint64.get_ahead [OF assms at(1)] uint64.get_ahead [OF wf(1) at(2)] uint8.get_ahead [OF wf(2) at(3) n(2)] n(1)
    by (auto simp: transactionProtocolUnpackObjectResourceCreate_def bs_adv_adv Let_def)
next
  assume ahead: "bs_at s (enc_attr_count LittleEndian c @ concat (map (enc_peer LittleEndian) ps))" and c: "unat c < 2 ^ 16"
    and ps: "\<forall>p \<in> set ps. peer_ok p" "length ps \<le> unat c" "ps \<noteq> []" "sz < 8 + 64 * length ps"
    and l: "length (pl_list po) = peer_slots sz" "\<forall>p \<in> set (pl_list po). length (peer_peerId p) = 32"
  have at: "bs_at s (enc_attr_count LittleEndian c)" "bs_at (bs_adv s 4) (concat (map (enc_peer LittleEndian) ps))"
    using ahead by (simp_all add: bs_at_append)
  have "bs_wf (bs_adv s 4)"
    using bs_at_wf_adv [OF assms at(1)] by simp
  from unpack_peers_loop_overrun [OF this at(2) ps(1), of 0 "unat c" sz "pl_list po"] ps l
  show "transactionProtocolUnpackObjectPeerList LittleEndian sz s po = None"
    using unpack_count_at [OF assms c at(1)] by (simp add: transactionProtocolUnpackObjectPeerList_def)
qed

theorem transaction_unpack_overruns_witness:
  "transactionProtocolUnpackObjectResourceCreate LittleEndian 256
     (bitstream_create (enc_uint64 LittleEndian 1 @ enc_uint64 LittleEndian 2 @ enc_uint8 144 @
        rev (replicate 128 7 @ [144, 0, 0, 0] @ replicate 12 9)) 161)
     \<lparr>rc_rid = 0, rc_data = replicate 128 0, rc_length = 0, rc_uid = 0\<rparr> =
   Some (UnpackValid, \<lparr>rc_rid = 1, rc_data = replicate 128 7, rc_length = 144, rc_uid = 0x0909090909090909\<rparr>,
     bs_adv (bitstream_create (enc_uint64 LittleEndian 1 @ enc_uint64 LittleEndian 2 @ enc_uint8 144 @
        rev (replicate 128 7 @ [144, 0, 0, 0] @ replicate 12 9)) 161) 161)"
proof -
  let ?d = "replicate 128 7 @ [144, 0, 0, 0] @ replicate 12 9 :: u8 list"
  let ?x = "enc_uint64 LittleEndian 1 @ enc_uint64 LittleEndian 2 @ enc_uint8 144 @ rev ?d"
  let ?s = "bitstream_create ?x 161"
  have s: "bs_wf ?s" "bs_at ?s (enc_uint64 LittleEndian 1 @ enc_uint64 LittleEndian 2 @ enc_uint8 (of_nat (length ?d)) @ swap_on LittleEndian ?d)"
    by (simp_all add: bs_wf_def bs_at_def bs_room_def bitstream_create_def swap_on_def)
  have w: "host_word LittleEndian [144, 0, 0, 0 :: u8] = (144 :: u32)"
    "host_word LittleEndian (replicate 8 9) = (0x0909090909090909 :: u64)"
    by (code_simp, code_simp)
  show ?thesis
    using transaction_unpack_overruns [OF s(1), of LittleEndian 1 2 ?d "\<lparr>rc_rid = 0, rc_data = replicate 128 0, rc_length = 0, rc_uid = 0\<rparr>" 256] s(2) w
    by simp
qed

text \<open>
  Only the last attribute counts. A connect request whose peer id attribute is missing or
  malformed is still reported valid when a well-formed address attribute follows the offending
  byte: the first result is overwritten, and the object keeps the peer id it had.
\<close>

theorem transaction_connect_lenient:
  assumes "bs_wf s" "bs_at s (b # enc_attr_address a)" "b \<noteq> 1" "addr_ok a"
  shows "transactionProtocolUnpackAttributeString e s (co_peerId ob) 32
      = Some (UnpackInvalid, co_peerId ob, bs_adv s 1) \<and>
    transactionProtocolUnpackObjectConnect e s ob
      = Some (UnpackValid, ob\<lparr>co_streamAddress := a\<rparr>, bs_adv s 9)"
proof -
  have ahead: "bs_at s [b]" "bs_at (bs_adv s 1) (enc_attr_address a)"
    using assms(2) bs_at_Cons [of s b "enc_attr_address a"] by simp_all
  have wf: "bs_wf (bs_adv s 1)"
    using bs_at_wf_adv [OF assms(1) ahead(1)] by simp
  have rd: "bitstream_read_uint8 s = Some (ucast b, bs_adv s 1)"
    using get_byte_at [OF assms(1) ahead(1)] by (simp add: bitstream_read_uint8_def)
  have "ucast b \<noteq> (1 :: u32)"
    using assms(3) by (simp add: ucast_u8_eq_iff)
  then have "transactionProtocolUnpackAttributeString e s (co_peerId ob) 32
      = Some (UnpackInvalid, co_peerId ob, bs_adv s 1)"
    using rd by (simp add: transactionProtocolUnpackAttributeString_def)
  then show ?thesis
    using unpack_address_at [OF wf assms(4) ahead(2)]
    by (simp add: transactionProtocolUnpackObjectConnect_def bs_adv_adv)
qed

theorem transaction_connect_lenient_witness:
  "transactionProtocolUnpackObjectConnect LittleEndian (bitstream_create [9, 2, 8, 0, 80, 1, 2, 3, 4] 9)
     \<lparr>co_peerId = replicate 32 0, co_streamAddress = sockaddr_zero\<rparr>
   = Some (UnpackValid, \<lparr>co_peerId = replicate 32 0,
       co_streamAddress = net_addr_set LittleEndian 0x04030201 0x5000 False\<rparr>,
       bs_adv (bitstream_create [9, 2, 8, 0, 80, 1, 2, 3, 4] 9) 9)"
proof -
  let ?s = "bitstream_create [9, 2, 8, 0, 80, 1, 2, 3, 4] 9"
  let ?a = "net_addr_set LittleEndian 0x04030201 0x5000 False"
  have "bs_wf ?s" "bs_at ?s (9 # enc_attr_address ?a)" "addr_ok ?a"
    by (simp_all add: bitstream_create_def bs_wf_def bs_at_def bs_room_def enc_attr_address_def
        enc_uint8_def enc_uint16_endian_def enc_uint32_endian_def net_addr_set_def addr_ok_def
        sockaddr_zero_def drop_bit_eq_div ucast_u8_small)
  then show ?thesis
    using transaction_connect_lenient [of ?s 9 ?a LittleEndian
        "\<lparr>co_peerId = replicate 32 0, co_streamAddress = sockaddr_zero\<rparr>"]
    by simp
qed

end
