(* ===== verification/Transaction_Types.thy ===== *)
theory Transaction_Types
  imports Transaction_Protocol
begin

text \<open>
  Types of the objects that \<^verbatim>\<open>transaction_protocol.c\<close> unpacks. An object is well typed if its arrays have
  their declared sizes, its strings end inside them, its addresses are addresses of the
  Internet or all zero, its peers lie in its block and its data end in its block. Whatever a packet holds, what is
  unpacked from it as valid is well typed, and a well typed object whose data fit their array can be packed.
\<close>

section \<open>Definitions\<close>

definition typed_addr :: "net_addr_t \<Rightarrow> bool" where
  "typed_addr a \<longleftrightarrow> sin_family a \<in> {0, AF_INET} \<and> sin_zero a = replicate 8 0"

definition typed_peer :: "TransactionObjectPeer \<Rightarrow> bool" where
  "typed_peer p \<longleftrightarrow> str_ok 32 (peer_peerId p) \<and> typed_addr (peer_localAddress p) \<and> typed_addr (peer_mappedAddress p)"

text \<open>
  \<open>sz\<close> is the size of the block the object lies in. The declared length of a resource can exceed its array by
  the bytes that follow the array in the block.
\<close>

fun typed_object :: "nat \<Rightarrow> TransactionObject \<Rightarrow> bool" where
  "typed_object sz (ObjectUserCreate ob) \<longleftrightarrow> str_ok 40 (uc_name ob) \<and> str_ok 40 (uc_email ob)"
| "typed_object sz (ObjectResourceCreate ob) \<longleftrightarrow> length (rc_data ob) = 128 \<and> unat (rc_length ob) \<le> 144 + (sz - 160)"
| "typed_object sz (ObjectOnline ob) \<longleftrightarrow> typed_addr (on_localAddress ob) \<and> typed_addr (on_mappedAddress ob) \<and>
     0 \<le> on_expireSeconds ob \<and> on_expireSeconds ob < 2 ^ 32"
| "typed_object sz (ObjectOffline ob) \<longleftrightarrow> str_ok 32 (off_peerId ob)"
| "typed_object sz (ObjectPeerList ob) \<longleftrightarrow> length (pl_list ob) = peer_slots sz \<and> 64 * unat (pl_count ob) \<le> sz - 8 \<and> list_all typed_peer (pl_list ob)"
| "typed_object sz (ObjectConnect ob) \<longleftrightarrow> str_ok 32 (co_peerId ob) \<and> typed_addr (co_streamAddress ob)"
| "typed_object sz (ObjectConnectAccept ob) \<longleftrightarrow> str_ok 32 (ca_peerId ob) \<and> typed_addr (ca_streamAddress ob)"
| "typed_object sz (ObjectConnectRefuse ob) \<longleftrightarrow> str_ok 32 (cr_peerId ob)"
| "typed_object sz (ObjectDisconnect ob) \<longleftrightarrow> str_ok 32 (di_peerId ob)"
| "typed_object sz (ObjectOther t) \<longleftrightarrow> t = TransactionEmpty"

section \<open>What is unpacked is well typed\<close>

lemma read_bytes_loop_typed:
  "read_bytes_loop d off dest n b = Some dest' \<Longrightarrow> length dest' = length dest \<and> (b < n \<longrightarrow> n \<le> length dest)"
proof (induction d off dest n b rule: read_bytes_loop.induct)
  case (1 d off dest n b)
  then show ?case
    by (subst (asm) (2) read_bytes_loop.simps)
      (auto simp: bind_eq_Some_conv mem_write_eq_Some_iff less_Suc_eq Let_def split: if_splits)
qed

lemma read_bytes_typed:
  assumes "bitstream_read_bytes e s dest n = Some (m, dest', s')"
  shows "length dest' = length dest \<and> (m = n \<longrightarrow> n \<le> length dest)"
  using assms read_bytes_loop_typed [of "bs_data s" "bs_offset s" dest n 0 dest']
  by (cases e) (auto simp: bitstream_read_bytes_def bind_eq_Some_conv mem_copy_def split: if_splits)

lemma read_str_typed:
  assumes "bitstream_read_str e s dest n = Some (m, dest', s')" "str_ok k dest"
  shows "str_ok k dest'"
  using assms read_bytes_typed
  by (fastforce simp: bitstream_read_str_def str_ok_def bind_eq_Some_conv mem_write_eq_Some_iff Let_def set_update_memI split: if_splits)

lemma attribute_string_typed:
  assumes "transactionProtocolUnpackAttributeString e s a n = Some (r, a', s')" "str_ok k a"
  shows "str_ok k a'"
  using assms read_str_typed
  by (fastforce simp: transactionProtocolUnpackAttributeString_def bind_eq_Some_conv split: if_splits)

lemma typed_addr_set [simp]: "typed_addr (net_addr_set e h p c)" "typed_addr sockaddr_zero"
  by (simp_all add: typed_addr_def net_addr_set_def sockaddr_zero_def)

lemma attribute_address_typed:
  assumes "transactionProtocolUnpackAttributeAddress e s a = Some (r, a', s')" "typed_addr a"
  shows "typed_addr a'"
  using assms by (auto simp: transactionProtocolUnpackAttributeAddress_def bind_eq_Some_conv Let_def split: if_splits)

lemma attribute_seconds_typed:
  assumes "transactionProtocolUnpackAttributeSeconds e s t = Some (r, t', s')" "0 \<le> t \<and> t < 2 ^ 32"
  shows "0 \<le> t' \<and> t' < 2 ^ 32"
proof -
  have "uint v < 2 ^ 32" for v :: u32
    using uint_lt2p [of v] by simp
  with assms show ?thesis
    by (auto simp: transactionProtocolUnpackAttributeSeconds_def bind_eq_Some_conv Let_def split: if_splits)
qed

lemma unpack_entry_typed:
  assumes "unpack_entry e s p = Some (r, p', s')" "typed_peer p"
  shows "typed_peer p'"
proof -
  from assms(1) obtain r1 a1 s1 r2 a2 s2 a3 where
    "transactionProtocolUnpackAttributeString e s (peer_peerId p) 32 = Some (r1, a1, s1)"
    "transactionProtocolUnpackAttributeAddress e s1 (peer_localAddress p) = Some (r2, a2, s2)"
    "transactionProtocolUnpackAttributeAddress e s2 (peer_mappedAddress p) = Some (r, a3, s')"
    "p' = p\<lparr>peer_peerId := a1, peer_localAddress := a2, peer_mappedAddress := a3\<rparr>"
    by (auto simp: unpack_entry_def bind_eq_Some_conv Let_def)
  then show ?thesis
    using assms(2) attribute_string_typed attribute_address_typed by (auto simp: typed_peer_def)
qed

text \<open>A list is only valid if its last entry lies in the block, and so do the others then.\<close>

lemma unpack_peers_valid:
  "unpack_peers_loop e sz s r l n i = Some (UnpackValid, l', s') \<Longrightarrow> i < n \<Longrightarrow> 8 + 64 * n \<le> sz"
proof (induction e sz s r l n i rule: unpack_peers_loop.induct)
  case (1 e sz s r l n i)
  then obtain r1 l1 s1 where u: "unpack_peer e sz s l i = Some (r1, l1, s1)"
      "unpack_peers_loop e sz s1 r1 l1 n (i + 1) = Some (UnpackValid, l', s')"
    by (subst (asm) (2) unpack_peers_loop.simps) (auto simp: bind_eq_Some_conv)
  show ?case
  proof (cases "i + 1 < n")
    case True
    show ?thesis
      using "1.IH" [OF "1.prems"(2) u(1) refl refl u(2) True] .
  next
    case False
    then have "r1 = UnpackValid" "n = i + 1"
      using u(2) "1.prems"(2) by (subst (asm) unpack_peers_loop.simps, simp, simp)
    then show ?thesis
      using u(1) by (auto simp: unpack_peer_def bind_eq_Some_conv Let_def split: if_splits)
  qed
qed

lemma unpack_peers_typed:
  assumes "unpack_peers_loop e sz s r l n i = Some (r', l', s')" "list_all typed_peer l" "8 + 64 * n \<le> sz" "n \<le> length l"
  shows "length l' = length l \<and> list_all typed_peer l'"
  using assms
proof (induction e sz s r l n i rule: unpack_peers_loop.induct)
  case (1 e sz s r l n i)
  show ?case
  proof (cases "i < n")
    case True
    have i: "i < length l" "8 + 64 * (i + 1) \<le> sz" "typed_peer (l ! i)"
      using True "1.prems"(2-4) by (auto simp: list_all_length)
    then have "length (peer_peerId (l ! i)) = 32"
      by (simp add: typed_peer_def str_ok_def)
    note block = unpack_peer_block [OF i(1,2) this, of e s]
    with "1.prems"(1) True obtain r1 p1 s1 where p: "unpack_entry e s (l ! i) = Some (r1, p1, s1)"
        "unpack_peers_loop e sz s1 r1 (l[i := p1]) n (i + 1) = Some (r', l', s')"
      by (subst (asm) unpack_peers_loop.simps) (auto simp: bind_eq_Some_conv)
    have "list_all typed_peer (l[i := p1])"
      using unpack_entry_typed [OF p(1) i(3)] "1.prems"(2) by (auto simp: list_all_iff dest: set_update_subset_insert [THEN subsetD])
    moreover have "unpack_peer e sz s l i = Some (r1, l[i := p1], s1)"
      using block p(1) by simp
    ultimately show ?thesis
      using "1.IH" [OF True _ refl refl p(2)] "1.prems"(3,4) by simp
  next
    case False
    with "1.prems" show ?thesis
      by (subst (asm) unpack_peers_loop.simps) simp
  qed
qed

lemma str_ok_zero: "0 < n \<Longrightarrow> str_ok n (replicate n 0)"
  by (simp add: str_ok_def)

lemma user_create_typed:
  assumes "transactionProtocolUnpackObjectUserCreate e s ob = Some (r, ob', s')" "str_ok 40 (uc_name ob)" "str_ok 40 (uc_email ob)"
  shows "str_ok 40 (uc_name ob') \<and> str_ok 40 (uc_email ob')"
  using assms by (auto simp: transactionProtocolUnpackObjectUserCreate_def bind_eq_Some_conv Let_def dest: attribute_string_typed)

lemma resource_create_typed:
  assumes "transactionProtocolUnpackObjectResourceCreate e sz s ob = Some (UnpackValid, ob', s')" "length (rc_data ob) = 128"
  shows "length (rc_data ob') = 128 \<and> unat (rc_length ob') \<le> 144 + (sz - 160)"
proof -
  from assms(1) obtain n :: u32 and m and u :: u64 and d s1 where
      d: "bitstream_read_bytes e s1 (rc_data ob @ host_bytes e 4 n @ replicate 4 0 @ host_bytes e 8 u @ replicate (sz - 160) 0) (unat n) = Some (m, d, s')"
      "of_nat m = (host_word e (take 4 (drop 128 d)) :: u32)" "rc_data ob' = take 128 d" "rc_length ob' = host_word e (take 4 (drop 128 d))"
    by (auto simp: transactionProtocolUnpackObjectResourceCreate_def bind_eq_Some_conv Let_def split: if_splits)
  have "m = 0 \<or> m = unat n"
    using d(1) by (auto simp: bitstream_read_bytes_def bind_eq_Some_conv split: if_splits)
  then have "unat (rc_length ob') = m"
    using d(2,4) by (auto simp: d(2) [symmetric])
  then show ?thesis
    using read_bytes_typed [OF d(1)] assms(2) d(3) \<open>m = 0 \<or> m = unat n\<close> by auto
qed

lemma online_typed:
  assumes "transactionProtocolUnpackObjectOnline e s ob = Some (r, ob', s')" "typed_object sz (ObjectOnline ob)"
  shows "typed_object sz (ObjectOnline ob')"
  using assms
  by (auto simp: transactionProtocolUnpackObjectOnline_def bind_eq_Some_conv Let_def dest: attribute_address_typed attribute_seconds_typed)

lemma offline_typed:
  assumes "transactionProtocolUnpackObjectOffline e s ob = Some (r, ob', s')" "str_ok 32 (off_peerId ob)"
  shows "str_ok 32 (off_peerId ob')"
  using assms by (auto simp: transactionProtocolUnpackObjectOffline_def bind_eq_Some_conv dest: attribute_string_typed)

lemma peer_list_typed:
  assumes "transactionProtocolUnpackObjectPeerList e sz s ob = Some (UnpackValid, ob', s')" "list_all typed_peer (pl_list ob)"
    "length (pl_list ob) = peer_slots sz"
  shows "length (pl_list ob') = peer_slots sz \<and> 64 * unat (pl_count ob') \<le> sz - 8 \<and> list_all typed_peer (pl_list ob')"
proof -
  from assms(1) obtain r1 c s1 l where l: "unpack_peers_loop e sz s1 r1 (pl_list ob) (unat c) 0 = Some (UnpackValid, l, s')"
      "pl_list ob' = l" "pl_count ob' = c"
    by (auto simp: transactionProtocolUnpackObjectPeerList_def bind_eq_Some_conv Let_def)
  show ?thesis
  proof (cases "unat c = 0")
    case True
    then show ?thesis
      using l assms(2,3) by (subst (asm) unpack_peers_loop.simps) simp
  next
    case False
    then have "8 + 64 * unat c \<le> sz"
      using unpack_peers_valid [OF l(1)] by simp
    moreover from this have "unat c \<le> length (pl_list ob)"
      using assms(3) by (simp add: peer_slots_def)
    ultimately show ?thesis
      using unpack_peers_typed [OF l(1) assms(2)] l assms(3) by simp
  qed
qed

lemma connect_typed:
  assumes "transactionProtocolUnpackObjectConnect e s ob = Some (r, ob', s')" "str_ok 32 (co_peerId ob)" "typed_addr (co_streamAddress ob)"
  shows "str_ok 32 (co_peerId ob') \<and> typed_addr (co_streamAddress ob')"
  using assms
  by (auto simp: transactionProtocolUnpackObjectConnect_def bind_eq_Some_conv Let_def dest: attribute_string_typed attribute_address_typed)

lemma connect_accept_typed:
  assumes "transactionProtocolUnpackObjectConnectAccept e s ob = Some (r, ob', s')" "str_ok 32 (ca_peerId ob)" "typed_addr (ca_streamAddress ob)"
  shows "str_ok 32 (ca_peerId ob') \<and> typed_addr (ca_streamAddress ob')"
  using assms
  by (auto simp: transactionProtocolUnpackObjectConnectAccept_def bind_eq_Some_conv Let_def dest: attribute_string_typed attribute_address_typed)

lemma connect_refuse_typed:
  assumes "transactionProtocolUnpackObjectConnectRefuse e s ob = Some (r, ob', s')" "str_ok 32 (cr_peerId ob)"
  shows "str_ok 32 (cr_peerId ob')"
  using assms by (auto simp: transactionProtocolUnpackObjectConnectRefuse_def bind_eq_Some_conv dest: attribute_string_typed)

lemma disconnect_typed:
  assumes "transactionProtocolUnpackObjectDisconnect e s ob = Some (r, ob', s')" "str_ok 32 (di_peerId ob)"
  shows "str_ok 32 (di_peerId ob')"
  using assms by (auto simp: transactionProtocolUnpackObjectDisconnect_def bind_eq_Some_conv dest: attribute_string_typed)

lemma unpack_request_typed:
  assumes "transactionProtocolUnpackRequest e sz s = Some (UnpackValid, ob, s')"
  shows "typed_object sz ob"
proof -
  from assms obtain t s1 where "bitstream_read_uint8 s = Some (t, s1)"
    by (auto simp: transactionProtocolUnpackRequest_def bind_eq_Some_conv)
  with assms show ?thesis
    by (auto simp: transactionProtocolUnpackRequest_def bind_eq_Some_conv str_ok_zero zero_online_def zero_peer_def typed_peer_def list_all_iff
        split: if_splits
        dest!: user_create_typed resource_create_typed online_typed [where sz = sz] offline_typed peer_list_typed connect_typed connect_accept_typed
          connect_refuse_typed disconnect_typed)
qed

section \<open>What is well typed can be packed\<close>

lemma pack_string_typed:
  assumes "bs_wf s" "str_ok n a" "n < 2 ^ 32"
  shows "\<exists>s'. transactionProtocolPackAttributeString e s a = Some s' \<and> bs_wf s'"
proof -
  have a: "0 \<in> set a" "length a < 2 ^ 63"
    using assms(2,3) by (auto simp: str_ok_def)
  obtain s1 where s1: "bitstream_write_uint8 s TransactionAttributeTypeString = Some s1" "bs_wf s1"
    using uint8.put_safe [OF assms(1)] by blast
  obtain s2 where s2: "bitstream_write_uint8 s1 (of_nat (2 + length (c_str a))) = Some s2" "bs_wf s2"
    using uint8.put_safe [OF s1(2)] by blast
  obtain k s3 where s3: "bitstream_write_str e s2 a = Some (k, s3)" "bs_wf s3"
  proof (cases "bs_room s2 (Suc (length (c_str a)))")
    case True
    moreover have "bs_wf (bs_put s2 (enc_str e a))"
      using s2(2) True by (auto simp: bs_wf_def bs_put_def bs_room_def)
    ultimately show ?thesis
      using that bitstream_write_str_room [OF s2(2) a(1)] by blast
  next
    case False
    then show ?thesis
      using that bitstream_write_str_full [OF s2(2) a(1) False a(2)] s2(2) by blast
  qed
  have "c_strlen a = Some (length (c_str a))"
    using a(1) by (simp add: c_strlen_def)
  then show ?thesis
    using s1(1) s2(1) s3 by (simp add: transactionProtocolPackAttributeString_def mTransactionAttributeLengthString_def)
qed

lemma pack_address_total:
  assumes "bs_wf s"
  shows "\<exists>s'. transactionProtocolPackAttributeAddress s a = Some s' \<and> bs_wf s'"
proof -
  obtain s1 where s1: "bitstream_write_uint8 s TransactionAttributeTypeAddress = Some s1" "bs_wf s1"
    using uint8.put_safe [OF assms] by blast
  obtain s2 where s2: "bitstream_write_uint8 s1 kTransactionAttributeLengthAddress = Some s2" "bs_wf s2"
    using uint8.put_safe [OF s1(2)] by blast
  obtain s3 where s3: "bitstream_write_uint16_endian s2 (ucast (sin_port a)) = Some s3" "bs_wf s3"
    using uint16_endian.put_safe [OF s2(2)] by blast
  obtain s4 where s4: "bitstream_write_uint32_endian s3 (sin_addr a) = Some s4" "bs_wf s4"
    using uint32_endian.put_safe [OF s3(2)] by blast
  show ?thesis
    using s1 s2 s3 s4 by (simp add: transactionProtocolPackAttributeAddress_def)
qed

lemma pack_seconds_total:
  assumes "bs_wf s"
  shows "\<exists>s'. transactionProtocolPackAttributeSeconds e s t = Some s' \<and> bs_wf s'"
proof -
  obtain s1 where s1: "bitstream_write_uint8 s TransactionAttributeTypeSeconds = Some s1" "bs_wf s1"
    using uint8.put_safe [OF assms] by blast
  obtain s2 where s2: "bitstream_write_uint8 s1 kTransactionAttributeLengthSeconds = Some s2" "bs_wf s2"
    using uint8.put_safe [OF s1(2)] by blast
  obtain s3 where s3: "bitstream_write_uint32 e s2 (of_int t) = Some s3" "bs_wf s3"
    using uint32.put_safe [OF s2(2)] by blast
  show ?thesis
    using s1 s2 s3 by (simp add: transactionProtocolPackAttributeSeconds_def)
qed

lemma pack_count_total:
  assumes "bs_wf s"
  shows "\<exists>s'. transactionProtocolPackAttributeCount e s c = Some s' \<and> bs_wf s'"
proof -
  obtain s1 where s1: "bitstream_write_uint8 s TransactionAttributeTypeCount = Some s1" "bs_wf s1"
    using uint8.put_safe [OF assms] by blast
  obtain s2 where s2: "bitstream_write_uint8 s1 kTransactionAttributeLengthCount = Some s2" "bs_wf s2"
    using uint8.put_safe [OF s1(2)] by blast
  obtain s3 where s3: "bitstream_write_uint16 e s2 c = Some s3" "bs_wf s3"
    using uint16.put_safe [OF s2(2)] by blast
  show ?thesis
    using s1 s2 s3 by (simp add: transactionProtocolPackAttributeCount_def)
qed

lemma pack_peers_total:
  assumes "bs_wf s" "unat (pl_count ob) \<le> length (pl_list ob)" "list_all typed_peer (pl_list ob)"
  shows "\<exists>s'. pack_peers_loop e s ob i = Some s' \<and> bs_wf s'"
  using assms
proof (induction e s ob i rule: pack_peers_loop.induct)
  case (1 e s ob i)
  show ?case
  proof (cases "i < unat (pl_count ob)")
    case True
    let ?p = "pl_list ob ! i"
    have p: "mem_read (pl_list ob) i = Some ?p" "str_ok 32 (peer_peerId ?p)"
      using True "1.prems"(2,3) by (auto simp: mem_read_eq_Some_iff list_all_length typed_peer_def)
    obtain s1 where s1: "transactionProtocolPackAttributeString e s (peer_peerId ?p) = Some s1" "bs_wf s1"
      using pack_string_typed [OF "1.prems"(1) p(2)] by auto
    obtain s2 where s2: "transactionProtocolPackAttributeAddress s1 (peer_localAddress ?p) = Some s2" "bs_wf s2"
      using pack_address_total [OF s1(2)] by blast
    obtain s3 where s3: "transactionProtocolPackAttributeAddress s2 (peer_mappedAddress ?p) = Some s3" "bs_wf s3"
      using pack_address_total [OF s2(2)] by blast
    show ?thesis
      using "1.IH" [OF True p(1) s1(1) s2(1) s3(1) s3(2) "1.prems"(2,3)] True p(1) s1(1) s2(1) s3(1)
      by (subst pack_peers_loop.simps) simp
  next
    case False
    then show ?thesis
      using "1.prems"(1) by (subst pack_peers_loop.simps) simp
  qed
qed

lemma pack_object_resource:
  assumes "bs_wf s" "length (rc_data ob) = 128" "unat (rc_length ob) \<le> 128"
  shows "\<exists>s'. transactionProtocolPackObjectResourceCreate e s ob = Some s' \<and> bs_wf s'"
proof -
  obtain s1 where s1: "bitstream_write_uint64 e s (rc_rid ob) = Some s1" "bs_wf s1"
    using uint64.put_safe [OF assms(1)] by blast
  obtain s2 where s2: "bitstream_write_uint64 e s1 (rc_uid ob) = Some s2" "bs_wf s2"
    using uint64.put_safe [OF s1(2)] by blast
  obtain s3 where s3: "bitstream_write_uint8 s2 (rc_length ob) = Some s3" "bs_wf s3"
    using uint8.put_safe [OF s2(2)] by blast
  obtain k s4 where s4: "bitstream_write_bytes e s3 (rc_data ob) (unat (rc_length ob)) = Some (k, s4)" "bs_wf s4"
  proof (cases "bs_room s3 (unat (rc_length ob))")
    case True
    moreover have "bs_wf (bs_put s3 (swap_on e (take (unat (rc_length ob)) (rc_data ob))))"
      using s3(2) True assms(2,3) by (auto simp: bs_wf_def bs_put_def bs_room_def)
    ultimately show ?thesis
      using that bitstream_write_bytes_room [OF s3(2) _ True, of "rc_data ob"] assms(2,3) by auto
  next
    case False
    then show ?thesis
      using that bitstream_write_bytes_full [OF s3(2) False] s3(2) by blast
  qed
  show ?thesis
    using s1 s2 s3 s4 by (simp add: transactionProtocolPackObjectResourceCreate_def)
qed

lemma pack_object_user:
  assumes "bs_wf s" "str_ok 40 (uc_name ob)" "str_ok 40 (uc_email ob)"
  shows "\<exists>s'. transactionProtocolPackObjectUserCreate e s ob = Some s' \<and> bs_wf s'"
proof -
  obtain s1 where s1: "bitstream_write_uint64 e s (uc_uid ob) = Some s1" "bs_wf s1"
    using uint64.put_safe [OF assms(1)] by blast
  obtain s2 where s2: "transactionProtocolPackAttributeString e s1 (uc_name ob) = Some s2" "bs_wf s2"
    using pack_string_typed [OF s1(2) assms(2)] by auto
  show ?thesis
    using pack_string_typed [OF s2(2) assms(3), of e] s1 s2 by (simp add: transactionProtocolPackObjectUserCreate_def)
qed

lemma pack_object_online:
  assumes "bs_wf s"
  shows "\<exists>s'. transactionProtocolPackObjectOnline e s ob = Some s' \<and> bs_wf s'"
proof -
  obtain s1 where s1: "bitstream_write_uint64 e s (on_uid ob) = Some s1" "bs_wf s1"
    using uint64.put_safe [OF assms(1)] by blast
  obtain s2 where s2: "transactionProtocolPackAttributeAddress s1 (on_localAddress ob) = Some s2" "bs_wf s2"
    using pack_address_total [OF s1(2)] by blast
  obtain s3 where s3: "transactionProtocolPackAttributeAddress s2 (on_mappedAddress ob) = Some s3" "bs_wf s3"
    using pack_address_total [OF s2(2)] by blast
  show ?thesis
    using pack_seconds_total [OF s3(2), of e] s1 s2 s3 by (simp add: transactionProtocolPackObjectOnline_def)
qed

lemma pack_string_address:
  assumes "bs_wf s" "str_ok 32 i"
  shows "\<exists>s'. do { s \<leftarrow> transactionProtocolPackAttributeString e s i; transactionProtocolPackAttributeAddress s a } = Some s' \<and> bs_wf s'"
proof -
  obtain s1 where s1: "transactionProtocolPackAttributeString e s i = Some s1" "bs_wf s1"
    using pack_string_typed [OF assms] by auto
  then show ?thesis
    using pack_address_total [OF s1(2), of a] by simp
qed

lemma pack_object_peers:
  assumes "bs_wf s" "unat (pl_count ob) \<le> length (pl_list ob)" "list_all typed_peer (pl_list ob)"
  shows "\<exists>s'. transactionProtocolPackObjectPeerList e s ob = Some s' \<and> bs_wf s'"
proof -
  obtain s1 where s1: "transactionProtocolPackAttributeCount e s (pl_count ob) = Some s1" "bs_wf s1"
    using pack_count_total [OF assms(1)] by blast
  then show ?thesis
    using pack_peers_total [OF s1(2) assms(2,3), of e 0] by (simp add: transactionProtocolPackObjectPeerList_def)
qed

lemma pack_request_typed:
  assumes "bs_wf s" "typed_object sz ob" "\<And>r. ob = ObjectResourceCreate r \<Longrightarrow> unat (rc_length r) \<le> 128"
  shows "\<exists>s'. transactionProtocolPackRequest e s ob = Some s' \<and> bs_wf s'"
proof -
  obtain s1 where s1: "bitstream_write_uint8 s (object_type ob) = Some s1" "bs_wf s1"
    using uint8.put_safe [OF assms(1)] by blast
  have "str_ok 32 a \<Longrightarrow> \<exists>s'. transactionProtocolPackAttributeString e s1 a = Some s' \<and> bs_wf s'" for a
    using pack_string_typed [OF s1(2)] by simp
  moreover have slots: "64 * k \<le> sz - 8 \<Longrightarrow> k \<le> peer_slots sz" for k
    by (simp add: peer_slots_def)
  ultimately show ?thesis
    using s1(1) assms(2,3) slots pack_object_user [OF s1(2)] pack_object_resource [OF s1(2)] pack_object_online [OF s1(2)] pack_object_peers [OF s1(2)]
      pack_string_address [OF s1(2)] s1(2)
    by (cases ob) (simp_all add: transactionProtocolPackRequest_def transactionProtocolPackObjectOffline_def transactionProtocolPackObjectConnect_def
        transactionProtocolPackObjectConnectAccept_def transactionProtocolPackObjectConnectRefuse_def transactionProtocolPackObjectDisconnect_def)
qed

section \<open>The type property\<close>

text \<open>
  (C17) Unpacked objects are well typed. Whatever bytes a packet holds, an object that is unpacked from it without a fault and
  reported valid has terminated strings inside arrays of the declared sizes, addresses of the Internet or all zero,
  seconds of 32 bits, and no more peers than lie wholly in its block; the declared length of a resource is bounded by the
  block, not by its array of 128 bytes. Unless it is a resource with more than 128 bytes, it can be used like an
  object made by the program: packing it, on either byte order, neither reads outside the object nor leaves the packet.
\<close>

theorem transaction_unpacked_typed:
  assumes "transactionProtocolUnpackRequest e sz s = Some (UnpackValid, ob, s')" "bs_wf b"
  shows "typed_object sz ob \<and>
    ((\<forall>r. ob = ObjectResourceCreate r \<longrightarrow> unat (rc_length r) \<le> 128) \<longrightarrow>
      (\<exists>b'. transactionProtocolPackRequest e' b ob = Some b' \<and> bs_wf b'))"
  using unpack_request_typed [OF assms(1)] pack_request_typed [OF assms(2)] by blast

definition sample_offline :: bitstream_t where
  "sample_offline = bitstream_create ([0x92, 1, 4, 2, 105, 104] @ replicate 26 0) 32"

theorem transaction_unpacked_typed_witness:
  "\<exists>ob s' b'. transactionProtocolUnpackRequest LittleEndian 256 sample_offline = Some (UnpackValid, ob, s') \<and> typed_object 256 ob \<and>
    transactionProtocolPackRequest BigEndian sample_offline ob = Some b'"
proof -
  obtain x s' where "transactionProtocolUnpackRequest LittleEndian 256 sample_offline = Some (UnpackValid, ObjectOffline x, s')"
    by (simp add: transactionProtocolUnpackRequest_def transactionProtocolUnpackObjectOffline_def transactionProtocolUnpackAttributeString_def
        bitstream_read_str_def bitstream_read_bytes_def bitstream_read_uint8_def get_byte_def read_bytes_loop.simps sample_offline_def
        bitstream_create_def mBitstreamHasEnoughBytes_def size_of_low_word_def size_sub_def size_add_def mem_read_def mem_write_def)
  moreover have "bs_wf sample_offline"
    by (simp add: sample_offline_def bitstream_create_def bs_wf_def)
  ultimately show ?thesis
    using transaction_unpacked_typed by blast
qed

end
