(* ===== verification/Hashtable.thy ===== *)
theory Hashtable
  imports Net_Prelude
begin

text \<open>
  The direct-address table of \<^verbatim>\<open>hashtable.c\<close>: an array of object pointers indexed by
  an \<^verbatim>\<open>unsigned int\<close> key up to \<open>max_key\<close>. Object pointers are options (\<open>None\<close> is
  \<open>NULL\<close>), and so is the array pointer itself, which \<open>hashtable_create\<close> does not check.
  The outcomes of the two allocations are arguments of \<open>hashtable_create\<close>.

  The locale \<open>bounded_map\<close> states what a user of the table relies on; the table is
  interpreted as such a map, and sequences of updates are proved correct once in the locale.
\<close>

section \<open>Definitions\<close>

type_synonym hashtable_key_t = u32

record 'a hashtable_s =
  ht_max_key :: hashtable_key_t
  ht_objects :: "'a option list option"

definition mKeyBelongsToHashtable :: "'a hashtable_s \<Rightarrow> hashtable_key_t \<Rightarrow> bool" where
  "mKeyBelongsToHashtable ht key \<longleftrightarrow> key \<ge> 0 \<and> key \<le> ht_max_key ht"

text \<open>The result is \<open>None\<close> for the \<open>NULL\<close> of a failed first allocation.\<close>

definition hashtable_create :: "bool \<Rightarrow> bool \<Rightarrow> hashtable_key_t \<Rightarrow> 'a hashtable_s option" where
  "hashtable_create malloc_ok calloc_ok max_key =
     (if malloc_ok
      then Some \<lparr>ht_max_key = max_key,
                 ht_objects = (if calloc_ok then Some (replicate (unat (max_key + 1)) None) else None)\<rparr>
      else None)"

text \<open>What the pointer points at afterwards: nothing. The pointer is not checked.\<close>

definition hashtable_destroy :: "'a hashtable_s option \<Rightarrow> 'a hashtable_s option option" where
  "hashtable_destroy ht = (case ht of None \<Rightarrow> None | Some ht \<Rightarrow> Some None)"

definition hashtable_search :: "'a hashtable_s \<Rightarrow> hashtable_key_t \<Rightarrow> 'a option option" where
  "hashtable_search ht key =
     (if \<not> mKeyBelongsToHashtable ht key then Some None
      else do { objects \<leftarrow> ht_objects ht; mem_read objects (unat key) })"

definition hashtable_insert ::
    "'a hashtable_s \<Rightarrow> hashtable_key_t \<Rightarrow> 'a option \<Rightarrow> 'a hashtable_s option" where
  "hashtable_insert ht key object =
     (if \<not> mKeyBelongsToHashtable ht key then Some ht
      else do {
        objects \<leftarrow> ht_objects ht;
        objects \<leftarrow> mem_write objects (unat key) object;
        Some (ht\<lparr>ht_objects := Some objects\<rparr>)
      })"

definition hashtable_delete :: "'a hashtable_s \<Rightarrow> hashtable_key_t \<Rightarrow> 'a hashtable_s option" where
  "hashtable_delete ht key =
     (if \<not> mKeyBelongsToHashtable ht key then Some ht
      else do {
        objects \<leftarrow> ht_objects ht;
        objects \<leftarrow> mem_write objects (unat key) None;
        Some (ht\<lparr>ht_objects := Some objects\<rparr>)
      })"

text \<open>
  The block may change the table and a state of its own; the loop reads the table afresh for
  every key, and its key wraps.
\<close>

type_synonym ('a, 's) hashtable_iterate_block_t =
  "hashtable_key_t \<Rightarrow> 'a \<Rightarrow> 'a hashtable_s \<times> 's \<Rightarrow> ('a hashtable_s \<times> 's) option"

partial_function (option) hashtable_iterate_loop ::
    "('a, 's) hashtable_iterate_block_t \<Rightarrow> 'a hashtable_s \<times> 's \<Rightarrow> hashtable_key_t \<Rightarrow>
     ('a hashtable_s \<times> 's) option" where
  "hashtable_iterate_loop iterate_block w key =
     (if key \<le> ht_max_key (fst w)
      then do {
        objects \<leftarrow> ht_objects (fst w);
        object \<leftarrow> mem_read objects (unat key);
        w \<leftarrow> (case object of None \<Rightarrow> Some w | Some ob \<Rightarrow> iterate_block key ob w);
        hashtable_iterate_loop iterate_block w (key + 1)
      }
      else Some w)"

definition hashtable_iterate ::
    "'a hashtable_s \<times> 's \<Rightarrow> ('a, 's) hashtable_iterate_block_t \<Rightarrow> ('a hashtable_s \<times> 's) option" where
  "hashtable_iterate w iterate_block = hashtable_iterate_loop iterate_block w 0"

text \<open>A table as allocated, the partial map it stands for, and its entries in key order.\<close>

definition ht_wf :: "'a hashtable_s \<Rightarrow> bool" where
  "ht_wf ht \<longleftrightarrow> (case ht_objects ht of None \<Rightarrow> False | Some objs \<Rightarrow> length objs = Suc (unat (ht_max_key ht)))
     \<and> Suc (unat (ht_max_key ht)) < 2 ^ 32"

definition ht_map :: "'a hashtable_s \<Rightarrow> hashtable_key_t \<Rightarrow> 'a option" where
  "ht_map ht key =
     (case ht_objects ht of
        None \<Rightarrow> None
      | Some objs \<Rightarrow> if unat key < length objs then objs ! unat key else None)"

definition ht_entries :: "'a hashtable_s \<Rightarrow> nat \<Rightarrow> (hashtable_key_t \<times> 'a) list" where
  "ht_entries ht i =
     concat (map (\<lambda>k. case ht_map ht (of_nat k) of None \<Rightarrow> [] | Some v \<Rightarrow> [(of_nat k, v)])
       [i ..< Suc (unat (ht_max_key ht))])"

text \<open>Sequences of updates: run on a table, and what they mean for the map.\<close>

datatype ('k, 'a) map_op = Insert 'k 'a | Delete 'k

fun map_run ::
    "('t \<Rightarrow> 'k \<Rightarrow> 'a option \<Rightarrow> 't option) \<Rightarrow> ('t \<Rightarrow> 'k \<Rightarrow> 't option) \<Rightarrow> ('k, 'a) map_op list \<Rightarrow> 't \<Rightarrow> 't option" where
  "map_run ins del [] t = Some t"
| "map_run ins del (Insert k v # ops) t = do { t \<leftarrow> ins t k (Some v); map_run ins del ops t }"
| "map_run ins del (Delete k # ops) t = do { t \<leftarrow> del t k; map_run ins del ops t }"

fun map_spec :: "('k \<Rightarrow> bool) \<Rightarrow> ('k, 'a) map_op list \<Rightarrow> ('k \<Rightarrow> 'a option) \<Rightarrow> ('k \<Rightarrow> 'a option)" where
  "map_spec r [] m = m"
| "map_spec r (Insert k v # ops) m = map_spec r ops (if r k then m(k \<mapsto> v) else m)"
| "map_spec r (Delete k # ops) m = map_spec r ops (m(k := None))"

text \<open>A block that processes each object and, like the caller in \<^verbatim>\<open>transaction.c\<close>, may
  delete the entry it is called with.\<close>

definition visit_block ::
    "bool \<Rightarrow> (hashtable_key_t \<Rightarrow> 'a \<Rightarrow> 's \<Rightarrow> 's) \<Rightarrow> ('a, 's) hashtable_iterate_block_t" where
  "visit_block removing f key ob w = do {
     ht \<leftarrow> (if removing then hashtable_delete (fst w) key else Some (fst w));
     Some (ht, f key ob (snd w))
   }"

section \<open>Tables as maps\<close>

text \<open>
  The contract of a map with a fixed key range: look-ups, inserts and deletes never fault;
  outside the range a look-up finds nothing and an insert does nothing.
\<close>

locale bounded_map =
  fixes inv :: "'t \<Rightarrow> bool" and belongs :: "'t \<Rightarrow> 'k \<Rightarrow> bool" and \<alpha> :: "'t \<Rightarrow> 'k \<Rightarrow> 'a option"
    and search :: "'t \<Rightarrow> 'k \<Rightarrow> 'a option option"
    and ins :: "'t \<Rightarrow> 'k \<Rightarrow> 'a option \<Rightarrow> 't option"
    and del :: "'t \<Rightarrow> 'k \<Rightarrow> 't option"
  assumes search_law: "inv t \<Longrightarrow> search t k = Some (\<alpha> t k)"
    and ins_law: "inv t \<Longrightarrow> \<exists>t'. ins t k (Some v) = Some t' \<and> inv t' \<and> belongs t' = belongs t \<and>
      \<alpha> t' = (if belongs t k then (\<alpha> t)(k \<mapsto> v) else \<alpha> t)"
    and del_law: "inv t \<Longrightarrow> \<exists>t'. del t k = Some t' \<and> inv t' \<and> belongs t' = belongs t \<and>
      \<alpha> t' = (\<alpha> t)(k := None)"
begin

lemma run_refines:
  "inv t \<Longrightarrow> \<exists>t'. map_run ins del ops t = Some t' \<and> inv t' \<and> belongs t' = belongs t \<and>
     \<alpha> t' = map_spec (belongs t) ops (\<alpha> t)"
proof (induction ops arbitrary: t)
  case (Cons x ops)
  show ?case
  proof (cases x)
    case (Insert k v)
    obtain t1 where t1: "ins t k (Some v) = Some t1" "inv t1" "belongs t1 = belongs t"
        "\<alpha> t1 = (if belongs t k then (\<alpha> t)(k \<mapsto> v) else \<alpha> t)"
      using ins_law [OF Cons.prems] by blast
    with Cons.IH [OF t1(2)] Insert show ?thesis
      by simp
  next
    case (Delete k)
    obtain t1 where t1: "del t k = Some t1" "inv t1" "belongs t1 = belongs t" "\<alpha> t1 = (\<alpha> t)(k := None)"
      using del_law [OF Cons.prems] by blast
    with Cons.IH [OF t1(2)] Delete show ?thesis
      by (simp add: fun_upd_def)
  qed
qed simp

lemma search_after_run:
  assumes "inv t"
  shows "(map_run ins del ops t \<bind> (\<lambda>t. search t k)) = Some (map_spec (belongs t) ops (\<alpha> t) k)"
proof -
  obtain t' where "map_run ins del ops t = Some t'" "inv t'" "\<alpha> t' = map_spec (belongs t) ops (\<alpha> t)"
    using run_refines [OF assms] by blast
  then show ?thesis
    by (simp add: search_law)
qed

end

lemma unat_less_Suc_max: "key \<le> m \<Longrightarrow> unat key < Suc (unat (m :: u32))"
  by (simp add: word_le_nat_alt)

lemma ht_wf_objs:
  assumes "ht_wf ht"
  obtains objs where "ht_objects ht = Some objs" "length objs = Suc (unat (ht_max_key ht))"
  using assms by (auto simp: ht_wf_def split: option.splits)

lemma hashtable_update_map:
  assumes "ht_objects ht = Some objs" "unat key < length objs"
  shows "ht_map (ht\<lparr>ht_objects := Some (objs[unat key := x])\<rparr>) = (ht_map ht)(key := x)"
  using assms by (auto simp: ht_map_def fun_eq_iff nth_list_update word_unat_eq_iff)

interpretation table: bounded_map ht_wf mKeyBelongsToHashtable ht_map hashtable_search
    hashtable_insert hashtable_delete
proof unfold_locales
  fix t :: "'a hashtable_s" and k v
  assume wf: "ht_wf t"
  then obtain objs where objs: "ht_objects t = Some objs" "length objs = Suc (unat (ht_max_key t))"
    by (rule ht_wf_objs)
  have range: "mKeyBelongsToHashtable t k \<longleftrightarrow> unat k < length objs"
    using objs(2) by (auto simp: mKeyBelongsToHashtable_def word_le_nat_alt)
  show "hashtable_search t k = Some (ht_map t k)"
    using objs range by (simp add: hashtable_search_def ht_map_def)
  have wf': "ht_wf (t\<lparr>ht_objects := Some (objs[unat k := x])\<rparr>)" for x
    using wf objs by (simp add: ht_wf_def)
  have belongs': "mKeyBelongsToHashtable (t\<lparr>ht_objects := x\<rparr>) = mKeyBelongsToHashtable t" for x
    by (simp add: fun_eq_iff mKeyBelongsToHashtable_def)
  show "\<exists>t'. hashtable_insert t k (Some v) = Some t' \<and> ht_wf t' \<and>
      mKeyBelongsToHashtable t' = mKeyBelongsToHashtable t \<and>
      ht_map t' = (if mKeyBelongsToHashtable t k then (ht_map t)(k \<mapsto> v) else ht_map t)"
    using wf wf' belongs' objs(1) range hashtable_update_map [OF objs(1), of k "Some v"]
    by (simp add: hashtable_insert_def)
  have "ht_map t k = None" if "\<not> mKeyBelongsToHashtable t k"
    using that objs(1) range by (simp add: ht_map_def)
  then show "\<exists>t'. hashtable_delete t k = Some t' \<and> ht_wf t' \<and>
      mKeyBelongsToHashtable t' = mKeyBelongsToHashtable t \<and> ht_map t' = (ht_map t)(k := None)"
    using wf wf' belongs' objs(1) range hashtable_update_map [OF objs(1), of k None]
    by (auto simp: hashtable_delete_def fun_upd_idem)
qed

lemma hashtable_create_wf:
  assumes "unat max_key < 2 ^ 32 - 1" "hashtable_create True True max_key = Some ht"
  shows "ht_wf ht" "ht_map ht = Map.empty" "mKeyBelongsToHashtable ht = (\<lambda>k. k \<le> max_key)"
proof -
  have "unat (max_key + 1) = Suc (unat max_key)"
    using assms(1) by (simp add: unat_word_ariths)
  with assms have ht: "ht = \<lparr>ht_max_key = max_key, ht_objects = Some (replicate (Suc (unat max_key)) None)\<rparr>"
    by (simp add: hashtable_create_def)
  show "ht_wf ht" "ht_map ht = Map.empty" "mKeyBelongsToHashtable ht = (\<lambda>k. k \<le> max_key)"
    using assms(1)
    by (auto simp: ht ht_wf_def ht_map_def fun_eq_iff mKeyBelongsToHashtable_def simp del: replicate_Suc)
qed

section \<open>Iteration\<close>

lemma ht_entries_step:
  "i \<le> unat (ht_max_key ht) \<Longrightarrow>
     ht_entries ht i = (case ht_map ht (of_nat i) of None \<Rightarrow> [] | Some v \<Rightarrow> [(of_nat i, v)]) @ ht_entries ht (Suc i)"
  by (simp add: ht_entries_def upt_conv_Cons del: upt_Suc)

lemma ht_entries_end: "unat (ht_max_key ht) < i \<Longrightarrow> ht_entries ht i = []"
  by (simp add: ht_entries_def)

lemma ht_entries_cong:
  assumes "ht_max_key ht = ht_max_key ht'" "\<And>k. i \<le> unat k \<Longrightarrow> ht_map ht k = ht_map ht' k"
    and "Suc (unat (ht_max_key ht)) < 2 ^ 32"
  shows "ht_entries ht i = ht_entries ht' i"
proof -
  have "unat (of_nat k :: u32) = k" if "k \<in> set [i ..< Suc (unat (ht_max_key ht))]" for k
    using that assms(3) by (auto simp: unsigned_of_nat take_bit_nat_eq_self)
  then show ?thesis
    using assms(1,2) unfolding ht_entries_def
    by (intro arg_cong [where f = concat] map_cong) auto
qed

lemma visit_block_wf:
  assumes "ht_wf ht"
  shows "\<exists>ht'. visit_block removing f key ob (ht, st) = Some (ht', f key ob st) \<and> ht_wf ht' \<and>
    ht_max_key ht' = ht_max_key ht \<and> ht_map ht' = (if removing then (ht_map ht)(key := None) else ht_map ht)"
proof (cases removing)
  case True
  obtain ht' where "hashtable_delete ht key = Some ht'" "ht_wf ht'" "ht_map ht' = (ht_map ht)(key := None)"
    using table.del_law [OF assms, of key] by blast
  moreover from this(1) have "ht_max_key ht' = ht_max_key ht"
    by (auto simp: hashtable_delete_def Option.bind_eq_Some_conv split: if_splits)
  ultimately show ?thesis
    using True by (simp add: visit_block_def)
qed (simp add: visit_block_def assms)

lemma hashtable_iterate_loop_visits:
  assumes "ht_wf ht" "i \<le> Suc (unat (ht_max_key ht))"
  shows "\<exists>ht'. hashtable_iterate_loop (visit_block removing f) (ht, st) (of_nat i) =
      Some (ht', fold (\<lambda>(k, v). f k v) (ht_entries ht i) st) \<and> ht_wf ht' \<and> ht_max_key ht' = ht_max_key ht \<and>
    ht_map ht' = (\<lambda>k. if removing \<and> i \<le> unat k then None else ht_map ht k)"
  using assms
proof (induction "Suc (unat (ht_max_key ht)) - i" arbitrary: ht i st)
  case 0
  then have "\<not> (of_nat i :: u32) \<le> ht_max_key ht" "i = Suc (unat (ht_max_key ht))"
    by (auto simp: word_le_nat_alt unsigned_of_nat take_bit_nat_eq_self ht_wf_def)
  moreover have "ht_map ht k = None" if "i \<le> unat k" for k
    using 0 that by (auto simp: ht_map_def elim!: ht_wf_objs)
  ultimately show ?case
    using 0 by (subst hashtable_iterate_loop.simps) (auto simp: ht_entries_end fun_eq_iff)
next
  case (Suc d)
  let ?k = "of_nat i :: u32"
  have i: "i \<le> unat (ht_max_key ht)" "unat ?k = i"
    using Suc.hyps(2) Suc.prems by (auto simp: unsigned_of_nat take_bit_nat_eq_self ht_wf_def)
  obtain objs where objs: "ht_objects ht = Some objs" "length objs = Suc (unat (ht_max_key ht))"
    using Suc.prems(1) by (rule ht_wf_objs)
  define st1 where "st1 = (case ht_map ht ?k of None \<Rightarrow> st | Some v \<Rightarrow> f ?k v st)"
  obtain ht1 where ht1: "ht_wf ht1" "ht_max_key ht1 = ht_max_key ht"
      "ht_map ht1 = (if removing then (ht_map ht)(?k := None) else ht_map ht)"
      "(case ht_map ht ?k of None \<Rightarrow> Some (ht, st) | Some ob \<Rightarrow> visit_block removing f ?k ob (ht, st)) = Some (ht1, st1)"
    using visit_block_wf [OF Suc.prems(1), of removing f ?k _ st] Suc.prems(1)
    by (cases "ht_map ht ?k") (auto simp: st1_def fun_upd_idem)
  have d: "d = Suc (unat (ht_max_key ht1)) - Suc i" "Suc i \<le> Suc (unat (ht_max_key ht1))"
    using Suc.hyps(2) ht1(2) i(1) by simp_all
  have "hashtable_iterate_loop (visit_block removing f) (ht, st) ?k
      = hashtable_iterate_loop (visit_block removing f) (ht1, st1) (of_nat (Suc i))"
    using i objs ht1(4) by (subst hashtable_iterate_loop.simps)
      (simp add: word_le_nat_alt ht_map_def add.commute)
  moreover have "ht_entries ht1 (Suc i) = ht_entries ht (Suc i)"
    using ht1 i Suc.prems(1) by (intro ht_entries_cong) (auto simp: ht_wf_def)
  moreover have "fold (\<lambda>(k, v). f k v) (ht_entries ht i) st = fold (\<lambda>(k, v). f k v) (ht_entries ht (Suc i)) st1"
    using i by (simp add: ht_entries_step st1_def split: option.splits)
  moreover obtain ht' where "hashtable_iterate_loop (visit_block removing f) (ht1, st1) (of_nat (Suc i))
        = Some (ht', fold (\<lambda>(k, v). f k v) (ht_entries ht1 (Suc i)) st1)"
      "ht_wf ht'" "ht_max_key ht' = ht_max_key ht1"
      and m: "ht_map ht' = (\<lambda>k. if removing \<and> Suc i \<le> unat k then None else ht_map ht1 k)"
    using Suc.hyps(1) [OF d(1) ht1(1) d(2), of st1] by blast
  moreover have "ht_map ht' = (\<lambda>k. if removing \<and> i \<le> unat k then None else ht_map ht k)"
    using m ht1(3) i(2) by (auto simp: fun_eq_iff le_eq_less_or_eq Suc_le_eq word_unat_eq_iff)
  ultimately show ?case
    using ht1(2) by simp
qed

section \<open>Properties\<close>

text \<open>
  (C21) The table implements a partial map. After any sequence of inserts and deletes on a
  freshly created table, without any access outside its array, a search returns exactly what
  the map on keys up to \<open>max_key\<close> holds: the object last inserted and not deleted since,
  and nothing for a key above \<open>max_key\<close>, for which inserts are ignored.
\<close>

theorem hashtable_refines_map:
  assumes "unat max_key < 2 ^ 32 - 1" "hashtable_create True True max_key = Some ht"
  shows "do { ht \<leftarrow> map_run hashtable_insert hashtable_delete ops ht; hashtable_search ht key } =
    Some (map_spec (\<lambda>k. k \<le> max_key) ops Map.empty key)"
  using table.search_after_run [of ht ops key] hashtable_create_wf [OF assms] by simp

theorem hashtable_refines_map_witness:
  "do { ht \<leftarrow> map_run hashtable_insert hashtable_delete [Insert 3 True, Insert 9 False]
            (the (hashtable_create True True 5)); hashtable_search ht 3 } = Some (Some True)"
proof -
  have "unat (5 :: u32) < 2 ^ 32 - 1"
    "hashtable_create True True 5 = Some (the (hashtable_create True True 5) :: bool hashtable_s)"
    by (simp_all add: hashtable_create_def)
  from hashtable_refines_map [OF this, of "[Insert 3 True, Insert 9 False]" 3] show ?thesis
    by simp
qed

text \<open>
  Iteration terminates and visits every stored object exactly once, in key order, also
  when the block deletes the entry it is called with; deleting in this way leaves the table
  empty, and otherwise the table is unchanged.
\<close>

theorem hashtable_iterate_visits_all:
  assumes "ht_wf ht"
  shows "\<exists>ht'. hashtable_iterate (ht, st) (visit_block removing f) =
      Some (ht', fold (\<lambda>(k, v). f k v) (ht_entries ht 0) st) \<and>
    ht_wf ht' \<and> ht_map ht' = (if removing then Map.empty else ht_map ht)"
  using hashtable_iterate_loop_visits [OF assms, of 0 removing f st]
  by (auto simp: hashtable_iterate_def fun_eq_iff)

theorem hashtable_iterate_visits_all_witness:
  "\<exists>ht'. hashtable_iterate (\<lparr>ht_max_key = 2, ht_objects = Some [Some 7, None, Some 9]\<rparr>, [])
      (visit_block True (\<lambda>k v st. st @ [(k, v)])) = Some (ht', [(0, 7), (2, 9 :: nat)]) \<and>
    ht_map ht' = Map.empty"
proof -
  let ?ht = "\<lparr>ht_max_key = 2, ht_objects = Some [Some 7, None, Some (9 :: nat)]\<rparr>"
  have wf: "ht_wf ?ht"
    by (simp add: ht_wf_def)
  have "ht_entries ?ht 0 = [(0, 7), (2, 9)]"
    by (simp add: ht_entries_def ht_map_def upt_conv_Cons)
  with hashtable_iterate_visits_all [OF wf, of "[]" True "\<lambda>k v st. st @ [(k, v)]"] show ?thesis
    by auto
qed

end
