(* ===== verification/Transaction.thy ===== *)
theory Transaction
  imports Transaction_Protocol Hashtable Timeout Socket_Runs
begin

text \<open>
  Transactions (\<^verbatim>\<open>transaction.c\<close>): a request is sent and retransmitted until it is
  acknowledged or has been tried three times; a received request is acknowledged and handed to
  the receiver. Transactions live on the heap and are found through a table by their id.

  The blocks given to the serial queue are values of \<open>transaction_task\<close>, which
  \<open>run_transaction_task\<close> executes one after the other; the block of a timer is
  \<open>transaction_timer_block\<close>. The calls of the user's callbacks are recorded in order, and so are
  the calls to the timers of the dispatch library. A null or dangling pointer is \<open>None\<close>.
\<close>

section \<open>Definitions\<close>

datatype TransactionState =
    TransactionIdle
  | TransactionWaiting
  | TransactionProcessing
  | TransactionAcknowledged
  | TransactionError
  | TransactionTimeout

record Transaction =
  tr_state :: TransactionState
  tr_id :: TransactionId
  tr_packet :: ptr
  tr_retries :: u32
  tr_timeout :: timeout_t
  tr_timeoutBlock :: ptr

abbreviation (input) kTransactionInitialRto :: int where "kTransactionInitialRto \<equiv> 1000"
abbreviation (input) kTransactionRtoIncreaseFactor :: int where "kTransactionRtoIncreaseFactor \<equiv> 2"
abbreviation (input) kTransactionMaxRetries :: u32 where "kTransactionMaxRetries \<equiv> 2"
abbreviation (input) kTransactionMaxId :: u32 where "kTransactionMaxId \<equiv> 0xFF"

text \<open>The blocks of the serial queue with what they capture, and the calls of the user's callbacks.\<close>

datatype transaction_task =
    InsertTask ptr
  | ResponseTask ptr TransactionId
  | RequestTask ptr TransactionId
  | RetryTask TransactionId
  | EnableTask
  | DisableTask

datatype transaction_callback = Received ptr net_addr_t TransactionObject | Failed ptr net_addr_t

record TransactionConfiguration =
  tc_tasks :: "transaction_task list"
  tc_transactions :: "ptr hashtable_s option"
  tc_cseq :: u8
  tc_socket :: "net_socket_s option"
  tc_isEnabled :: bool
  tc_receiveCallback :: ptr
  tc_errorCallback :: ptr
  tc_context :: ptr
  tc_heap :: "ptr \<Rightarrow> Transaction option"
  tc_calls :: "dispatch_call list"
  tc_log :: "transaction_callback list"

text \<open>
  What the libraries answer: the byte order, the addresses of a new transaction and of the copy of
  its block, the source of a new timer, and whether the object of a received request can be
  allocated.
\<close>

record transaction_env =
  te_endian :: endian
  te_calloc :: ptr
  te_block :: ptr
  te_source :: ptr
  te_object :: bool

definition on_socket ::
    "TransactionConfiguration \<Rightarrow> (net_socket_s \<Rightarrow> net_socket_s option) \<Rightarrow> TransactionConfiguration option" where
  "on_socket config f = do {
     s \<leftarrow> tc_socket config;
     s \<leftarrow> f s;
     Some (config\<lparr>tc_socket := Some s\<rparr>)
   }"

text \<open>What is done to the stream of a packet, through the pointer to it.\<close>

definition on_packet ::
    "TransactionConfiguration \<Rightarrow> ptr \<Rightarrow> (net_packet_s \<Rightarrow> ('a \<times> net_packet_s) option) \<Rightarrow>
     ('a \<times> TransactionConfiguration) option" where
  "on_packet config p f = do {
     s \<leftarrow> tc_socket config;
     m \<leftarrow> sk_mem s p;
     (x, m) \<leftarrow> f m;
     Some (x, config\<lparr>tc_socket := Some (net_packet_store s p m)\<rparr>)
   }"

definition pack_into :: "(bitstream_t \<Rightarrow> bitstream_t option) \<Rightarrow> net_packet_s \<Rightarrow> (unit \<times> net_packet_s) option" where
  "pack_into f m = do { b \<leftarrow> f (pkt_bitstream m); Some ((), m\<lparr>pkt_bitstream := b\<rparr>) }"

definition dispatch_task :: "TransactionConfiguration \<Rightarrow> transaction_task \<Rightarrow> TransactionConfiguration" where
  "dispatch_task config t = config\<lparr>tc_tasks := tc_tasks config @ [t]\<rparr>"

definition transactionEnable :: "TransactionConfiguration \<Rightarrow> TransactionConfiguration" where
  "transactionEnable config = dispatch_task config EnableTask"

definition transactionDisable :: "TransactionConfiguration \<Rightarrow> TransactionConfiguration" where
  "transactionDisable config = dispatch_task config DisableTask"

subsection \<open>Allocation\<close>

definition transactionAlloc ::
    "transaction_env \<Rightarrow> TransactionConfiguration \<Rightarrow> (ptr \<times> TransactionConfiguration) option" where
  "transactionAlloc env config = do {
     s \<leftarrow> tc_socket config;
     (transactionPacket, s) \<leftarrow> net_packet_alloc s;
     let config = config\<lparr>tc_socket := Some s\<rparr>;
     if transactionPacket \<noteq> NULL
     then do {
       let transaction = te_calloc env;
       if transaction = NULL then None
       else do {
         let id = ucast (tc_cseq config);
         let config = config\<lparr>tc_cseq := (tc_cseq config + 1) mod 0xFF\<rparr>;
         Some (transaction, config\<lparr>tc_heap := (tc_heap config)(transaction \<mapsto>
           \<lparr>tr_state = TransactionIdle, tr_id = id, tr_packet = transactionPacket, tr_retries = 0,
            tr_timeout = \<lparr>timerDispatchSource = NULL, valid = False\<rparr>, tr_timeoutBlock = NULL\<rparr>)\<rparr>)
       }
     }
     else Some (NULL, config)
   }"

definition transactionFree :: "TransactionConfiguration \<Rightarrow> ptr \<Rightarrow> TransactionConfiguration option" where
  "transactionFree config transaction =
     (if transaction \<noteq> NULL
      then do {
        t \<leftarrow> tc_heap config transaction;
        config \<leftarrow> on_socket config (\<lambda>s. net_packet_release s (tr_packet t));
        Some (config\<lparr>tc_heap := (tc_heap config)(transaction := None)\<rparr>)
      }
      else Some config)"

definition set_transaction :: "TransactionConfiguration \<Rightarrow> ptr \<Rightarrow> Transaction \<Rightarrow> TransactionConfiguration" where
  "set_transaction config transaction t = config\<lparr>tc_heap := (tc_heap config)(transaction \<mapsto> t)\<rparr>"

definition transactionDestroyTimeout :: "TransactionConfiguration \<Rightarrow> ptr \<Rightarrow> TransactionConfiguration option" where
  "transactionDestroyTimeout config transaction = do {
     t \<leftarrow> tc_heap config transaction;
     let (timeout, calls) = timeout_destroy (tr_timeout t);
     Some ((set_transaction config transaction (t\<lparr>tr_timeout := timeout\<rparr>))\<lparr>tc_calls := tc_calls config @ calls\<rparr>)
   }"

text \<open>\<open>timeout_create_block\<close> on the timer of a transaction.\<close>

definition transaction_set_timeout ::
    "ptr \<Rightarrow> TransactionConfiguration \<Rightarrow> ptr \<Rightarrow> int \<Rightarrow> TransactionConfiguration option" where
  "transaction_set_timeout source config transaction milliseconds = do {
     t \<leftarrow> tc_heap config transaction;
     let (timeout, calls) = timeout_create_block source (tr_timeout t) (tr_timeoutBlock t) milliseconds;
     Some ((set_transaction config transaction (t\<lparr>tr_timeout := timeout\<rparr>))\<lparr>tc_calls := tc_calls config @ calls\<rparr>)
   }"

definition transactionSetComplete :: "TransactionConfiguration \<Rightarrow> ptr \<Rightarrow> TransactionConfiguration option" where
  "transactionSetComplete config transaction = do {
     t \<leftarrow> tc_heap config transaction;
     config \<leftarrow>
       (if tr_state t \<noteq> TransactionAcknowledged \<and> tc_errorCallback config \<noteq> NULL
        then do {
          s \<leftarrow> tc_socket config;
          m \<leftarrow> sk_mem s (tr_packet t);
          Some (config\<lparr>tc_log := tc_log config @ [Failed (tc_context config) (pkt_addr m)]\<rparr>)
        }
        else Some config);
     ht \<leftarrow> tc_transactions config;
     ht \<leftarrow> hashtable_delete ht (tr_id t);
     transactionFree (config\<lparr>tc_transactions := Some ht\<rparr>) transaction
   }"

text \<open>The block of the iteration gets the table and the rest of the configuration.\<close>

definition transactionRemoveAll :: "TransactionConfiguration \<Rightarrow> TransactionConfiguration option" where
  "transactionRemoveAll config = do {
     ht \<leftarrow> tc_transactions config;
     (ht, config) \<leftarrow> hashtable_iterate (ht, config) (\<lambda>transactionId transaction (ht, config). do {
       ht \<leftarrow> hashtable_delete ht transactionId;
       config \<leftarrow> transactionDestroyTimeout config transaction;
       config \<leftarrow> transactionFree config transaction;
       Some (ht, config)
     });
     Some (config\<lparr>tc_transactions := Some ht\<rparr>)
   }"

subsection \<open>Sending\<close>

definition transactionResponse ::
    "TransactionConfiguration \<Rightarrow> net_addr_t \<Rightarrow> TransactionId \<Rightarrow> u32 \<Rightarrow> TransactionConfiguration option" where
  "transactionResponse config addr transactionId transactionResponseType = do {
     s \<leftarrow> tc_socket config;
     (packet, s) \<leftarrow> net_packet_alloc s;
     let config = config\<lparr>tc_socket := Some s\<rparr>;
     if packet = NULL then None
     else do {
       (_, config) \<leftarrow> on_packet config packet
         (pack_into (\<lambda>b. transactionProtocolPackHeader b transactionId TransactionTypeResponse));
       (_, config) \<leftarrow> on_packet config packet
         (pack_into (\<lambda>b. transactionProtocolPackResponse b transactionResponseType));
       (_, config) \<leftarrow> on_packet config packet (\<lambda>m. Some ((), net_packet_addr m addr));
       config \<leftarrow> on_socket config (\<lambda>s. net_socket_send s packet);
       on_socket config (\<lambda>s. net_packet_release s packet)
     }
   }"

definition transactionRequest ::
    "transaction_env \<Rightarrow> TransactionConfiguration \<Rightarrow> net_addr_t \<Rightarrow> TransactionObject \<Rightarrow>
     TransactionConfiguration option" where
  "transactionRequest env config addr object = do {
     (transaction, config) \<leftarrow> transactionAlloc env config;
     if transaction \<noteq> NULL
     then do {
       t \<leftarrow> tc_heap config transaction;
       (_, config) \<leftarrow> on_packet config (tr_packet t)
         (pack_into (\<lambda>b. transactionProtocolPackHeader b (tr_id t) TransactionTypeRequest));
       (_, config) \<leftarrow> on_packet config (tr_packet t)
         (pack_into (\<lambda>b. transactionProtocolPackRequest (te_endian env) b object));
       let config = dispatch_task config (InsertTask transaction);
       (_, config) \<leftarrow> on_packet config (tr_packet t) (\<lambda>m. Some ((), net_packet_addr m addr));
       let t = t\<lparr>tr_timeoutBlock := te_block env\<rparr>;
       let config = set_transaction config transaction t;
       config \<leftarrow> on_socket config (\<lambda>s. net_socket_send s (tr_packet t));
       let t = t\<lparr>tr_state := TransactionWaiting\<rparr>;
       let config = set_transaction config transaction t;
       transaction_set_timeout (te_source env) config transaction kTransactionInitialRto
     }
     else Some config
   }"

subsection \<open>Receiving\<close>

definition transactionDidReceiveResponse ::
    "TransactionConfiguration \<Rightarrow> ptr \<Rightarrow> TransactionId \<Rightarrow> TransactionConfiguration option" where
  "transactionDidReceiveResponse config packet transactionId = do {
     config \<leftarrow> on_socket config (\<lambda>s. net_packet_retain s packet);
     Some (dispatch_task config (ResponseTask packet transactionId))
   }"

definition transactionDidReceiveRequest ::
    "TransactionConfiguration \<Rightarrow> ptr \<Rightarrow> TransactionId \<Rightarrow> TransactionConfiguration option" where
  "transactionDidReceiveRequest config packet transactionId = do {
     config \<leftarrow> on_socket config (\<lambda>s. net_packet_retain s packet);
     Some (dispatch_task config (RequestTask packet transactionId))
   }"

text \<open>The variables of the id and of the type are uninitialised; they are read only if the header is valid.\<close>

definition transactionSocketReceiveCallback ::
    "TransactionConfiguration \<Rightarrow> ptr \<Rightarrow> TransactionConfiguration option" where
  "transactionSocketReceiveCallback config packet = do {
     config \<leftarrow>
       (if tc_isEnabled config
        then do {
          ((result, transactionId, transactionType), config) \<leftarrow> on_packet config packet (\<lambda>m. do {
            (r, i, t, b) \<leftarrow> transactionProtocolUnpackHeader (pkt_bitstream m) 0 0;
            Some ((r, i, t), m\<lparr>pkt_bitstream := b\<rparr>)
          });
          if result = UnpackValid
          then if transactionType = TransactionTypeResponse
               then transactionDidReceiveResponse config packet transactionId
               else if transactionType = TransactionTypeRequest
               then transactionDidReceiveRequest config packet transactionId
               else Some config
          else Some config
        }
        else Some config);
     on_socket config (\<lambda>s. net_packet_release s packet)
   }"

subsection \<open>The blocks of the serial queue\<close>

definition run_insert :: "TransactionConfiguration \<Rightarrow> ptr \<Rightarrow> TransactionConfiguration option" where
  "run_insert config transaction = do {
     t \<leftarrow> tc_heap config transaction;
     ht \<leftarrow> tc_transactions config;
     ht \<leftarrow> hashtable_insert ht (tr_id t) (Some transaction);
     Some (config\<lparr>tc_transactions := Some ht\<rparr>)
   }"

definition run_response :: "TransactionConfiguration \<Rightarrow> ptr \<Rightarrow> TransactionId \<Rightarrow> TransactionConfiguration option" where
  "run_response config packet transactionId = do {
     ht \<leftarrow> tc_transactions config;
     found \<leftarrow> hashtable_search ht transactionId;
     case found of
       None \<Rightarrow> Some config
     | Some transaction \<Rightarrow> do {
         config \<leftarrow> transactionDestroyTimeout config transaction;
         (transactionResponseType, config) \<leftarrow> on_packet config packet (\<lambda>m. do {
           (r, ty, b) \<leftarrow> transactionProtocolUnpackResponse (pkt_bitstream m);
           Some (ty, m\<lparr>pkt_bitstream := b\<rparr>)
         });
         t \<leftarrow> tc_heap config transaction;
         let config = set_transaction config transaction
           (t\<lparr>tr_state := (if transactionResponseType = TransactionResponseTypeSuccess
                             then TransactionAcknowledged else TransactionError)\<rparr>);
         config \<leftarrow> transactionSetComplete config transaction;
         on_socket config (\<lambda>s. net_packet_release s packet)
       }
   }"

definition run_request ::
    "transaction_env \<Rightarrow> TransactionConfiguration \<Rightarrow> ptr \<Rightarrow> TransactionId \<Rightarrow> TransactionConfiguration option" where
  "run_request env config packet transactionId = do {
     s \<leftarrow> tc_socket config;
     m \<leftarrow> sk_mem s packet;
     config \<leftarrow> transactionResponse config (pkt_addr m) transactionId TransactionResponseTypeSuccess;
     if \<not> te_object env then None
     else do {
       ((unpackResult, transactionObject), config) \<leftarrow> on_packet config packet (\<lambda>m. do {
         (r, ob, b) \<leftarrow> transactionProtocolUnpackRequest (te_endian env) 256 (pkt_bitstream m);
         Some ((r, ob), m\<lparr>pkt_bitstream := b\<rparr>)
       });
       let config =
         (if tc_receiveCallback config \<noteq> NULL \<and> unpackResult = UnpackValid
          then config\<lparr>tc_log := tc_log config @ [Received (tc_context config) (pkt_addr m) transactionObject]\<rparr>
          else config);
       on_socket config (\<lambda>s. net_packet_release s packet)
     }
   }"

text \<open>The product \<^verbatim>\<open>kTransactionInitialRto * kTransactionRtoIncreaseFactor * retries\<close>, at most 4000.\<close>

definition run_retry :: "transaction_env \<Rightarrow> TransactionConfiguration \<Rightarrow> TransactionId \<Rightarrow> TransactionConfiguration option" where
  "run_retry env config transactionId = do {
     ht \<leftarrow> tc_transactions config;
     found \<leftarrow> hashtable_search ht transactionId;
     case found of
       None \<Rightarrow> Some config
     | Some transaction \<Rightarrow> do {
         t \<leftarrow> tc_heap config transaction;
         if tr_state t = TransactionWaiting
         then do {
           config \<leftarrow> transactionDestroyTimeout config transaction;
           t \<leftarrow> tc_heap config transaction;
           if tr_retries t < kTransactionMaxRetries
           then do {
             let t = t\<lparr>tr_retries := tr_retries t + 1\<rparr>;
             let config = set_transaction config transaction t;
             let timeoutMilliseconds = kTransactionInitialRto * kTransactionRtoIncreaseFactor * uint (tr_retries t);
             config \<leftarrow> on_socket config (\<lambda>s. net_socket_send s (tr_packet t));
             transaction_set_timeout (te_source env) config transaction timeoutMilliseconds
           }
           else transactionSetComplete (set_transaction config transaction (t\<lparr>tr_state := TransactionTimeout\<rparr>)) transaction
         }
         else Some config
       }
   }"

definition transactionRetryOrFail :: "TransactionConfiguration \<Rightarrow> TransactionId \<Rightarrow> TransactionConfiguration" where
  "transactionRetryOrFail config transactionId = dispatch_task config (RetryTask transactionId)"

text \<open>The block of a timer: it reads the id through the pointer to the transaction.\<close>

definition transaction_timer_block :: "TransactionConfiguration \<Rightarrow> ptr \<Rightarrow> TransactionConfiguration option" where
  "transaction_timer_block config transaction = do {
     t \<leftarrow> tc_heap config transaction;
     Some (transactionRetryOrFail config (tr_id t))
   }"

text \<open>The rest of the timer's handler: it uses the timer inside the transaction.\<close>

definition transaction_timer_fired :: "TransactionConfiguration \<Rightarrow> ptr \<Rightarrow> TransactionConfiguration option" where
  "transaction_timer_fired config transaction = do {
     t \<leftarrow> tc_heap config transaction;
     let (timeout, calls) = timeout_fired (tr_timeout t);
     Some ((set_transaction config transaction (t\<lparr>tr_timeout := timeout\<rparr>))\<lparr>tc_calls := tc_calls config @ calls\<rparr>)
   }"

definition run_transaction_task :: "transaction_env \<Rightarrow> TransactionConfiguration \<Rightarrow> TransactionConfiguration option" where
  "run_transaction_task env config =
     (case tc_tasks config of
        [] \<Rightarrow> Some config
      | task # rest \<Rightarrow>
          let config = config\<lparr>tc_tasks := rest\<rparr>
          in case task of
               InsertTask transaction \<Rightarrow> run_insert config transaction
             | ResponseTask packet transactionId \<Rightarrow> run_response config packet transactionId
             | RequestTask packet transactionId \<Rightarrow> run_request env config packet transactionId
             | RetryTask transactionId \<Rightarrow> run_retry env config transactionId
             | EnableTask \<Rightarrow>
                 Some (if tc_isEnabled config = False then config\<lparr>tc_isEnabled := True\<rparr> else config)
             | DisableTask \<Rightarrow>
                 if tc_isEnabled config = True
                 then transactionRemoveAll (config\<lparr>tc_isEnabled := False\<rparr>)
                 else Some config)"

subsection \<open>Setup\<close>

text \<open>The address of \<open>transactionSocketReceiveCallback\<close> as the socket stores it.\<close>

abbreviation (input) transaction_receive_fn :: ptr where "transaction_receive_fn \<equiv> 1"

text \<open>\<open>self\<close> is the address of the configuration; the result is the value returned and the configuration.\<close>

definition transactionSetup ::
    "endian \<Rightarrow> socket_os \<Rightarrow> bool \<Rightarrow> bool \<Rightarrow> ptr \<Rightarrow> TransactionConfiguration \<Rightarrow> int \<Rightarrow> ptr \<Rightarrow> ptr \<Rightarrow> ptr \<Rightarrow>
     (NetError \<times> TransactionConfiguration) option" where
  "transactionSetup e os table_malloc table_calloc self config port ctx receiveCallback errorCallback = do {
     let config = config\<lparr>tc_tasks := [], tc_cseq := 0,
       tc_transactions := hashtable_create table_malloc table_calloc kTransactionMaxId, tc_isEnabled := True\<rparr>;
     (netError, result) \<leftarrow> net_socket_create e os NetNoError AF_INET (Some [48, 46, 48, 46, 48, 46, 48, 0]) port;
     let config = config\<lparr>tc_socket := (case result of Created s \<Rightarrow> s | CreateFailed _ \<Rightarrow> None)\<rparr>;
     if netError \<noteq> NetNoError then Some (netError, config)
     else do {
       config \<leftarrow> on_socket config (\<lambda>s. Some (net_socket_set_receive_callback s self transaction_receive_fn));
       Some (NetNoError, config\<lparr>tc_receiveCallback := receiveCallback, tc_errorCallback := errorCallback, tc_context := ctx\<rparr>)
     }
   }"

definition transactionTeardown :: "TransactionConfiguration \<Rightarrow> TransactionConfiguration option" where
  "transactionTeardown config = do {
     config \<leftarrow> transactionRemoveAll config;
     ht \<leftarrow> hashtable_destroy (tc_transactions config);
     let config = config\<lparr>tc_transactions := ht\<rparr>;
     on_socket config net_socket_destroy
   }"

section \<open>Steps\<close>

text \<open>A configuration with its socket and its table, and the references the owners of packets hold.\<close>

definition trans_ready :: "(ptr \<Rightarrow> nat) \<Rightarrow> net_socket_s \<Rightarrow> ptr hashtable_s \<Rightarrow> TransactionConfiguration \<Rightarrow> bool" where
  "trans_ready owned s ht config \<longleftrightarrow> tc_socket config = Some s \<and> socket_inv owned s \<and>
     tc_transactions config = Some ht \<and> ht_wf ht \<and> ht_max_key ht = kTransactionMaxId"

lemma on_packet_store:
  "tc_socket config = Some s \<Longrightarrow> sk_mem s p = Some m \<Longrightarrow> f m = Some (x, m') \<Longrightarrow>
     on_packet config p f = Some (x, config\<lparr>tc_socket := Some (net_packet_store s p m')\<rparr>)"
  by (simp add: on_packet_def)

text \<open>Filling a packet with a header and a body, then its address.\<close>

lemma pack_request_filled:
  fixes i t :: u32 and e :: endian
  assumes "pkt_wf m" "bs_offset (pkt_bitstream m) = 0" "request_ok n ob" "\<And>x. ob = ObjectPeerList x \<Longrightarrow> unat (pl_count x) \<le> 4"
  defines "bytes \<equiv> enc_transaction_header i t @ enc_request e ob"
  shows "\<exists>b. transactionProtocolPackHeader (pkt_bitstream m) i t = Some b \<and>
    transactionProtocolPackRequest e b ob = Some (bs_put (pkt_bitstream m) bytes)" "length bytes \<le> 256"
proof -
  have len: "length (enc_request e ob) \<le> 251"
    using enc_request_length [OF assms(3,4)] .
  then show "length bytes \<le> 256"
    by (simp add: bytes_def)
  have wf: "bs_wf (pkt_bitstream m)"
    using assms(1) by (rule pkt_wf_bs_wf)
  have room: "bs_room (pkt_bitstream m) 5" "bs_room (pkt_bitstream m) (length bytes)"
    using pkt_wf_room [OF assms(1,2)] len by (simp_all add: bytes_def)
  then show "\<exists>b. transactionProtocolPackHeader (pkt_bitstream m) i t = Some b \<and>
    transactionProtocolPackRequest e b ob = Some (bs_put (pkt_bitstream m) bytes)"
    using transaction_header_room [OF wf room(1)] pack_request_room [of "bs_put (pkt_bitstream m) (enc_transaction_header i t)" n ob e]
      wf assms(3) by (simp add: bs_wf_put bs_room_put bs_put_put bytes_def)
qed

lemma pack_response_filled:
  assumes "pkt_wf m" "bs_offset (pkt_bitstream m) = 0"
  shows "\<exists>b. transactionProtocolPackHeader (pkt_bitstream m) i t = Some b \<and>
    transactionProtocolPackResponse b ty = Some (bs_put (pkt_bitstream m) (enc_transaction_header i t @ enc_uint8 ty))"
proof -
  have wf: "bs_wf (pkt_bitstream m)" and room: "bs_room (pkt_bitstream m) 5" "bs_room (pkt_bitstream m) 6"
    using pkt_wf_bs_wf [OF assms(1)] pkt_wf_room [OF assms] by simp_all
  then show ?thesis
    using transaction_header_room [OF wf room(1)] uint8.put_fits [of "bs_put (pkt_bitstream m) (enc_transaction_header i t)" ty]
    by (simp add: transactionProtocolPackResponse_def bs_wf_put bs_room_put bs_put_put)
qed

text \<open>What a response puts on the way.\<close>

lemma transactionResponse_step:
  assumes "trans_ready owned s ht config" "net_packet_alloc s = Some (p, s1)" "p \<noteq> NULL"
  shows "\<exists>s' m. transactionResponse config addr i ty = Some (config\<lparr>tc_socket := Some s'\<rparr>) \<and>
    trans_ready owned s' ht (config\<lparr>tc_socket := Some s'\<rparr>) \<and> owned p = 0 \<and>
    sk_mem s' = (sk_mem s)(p \<mapsto> m) \<and> datagram m = (addr, enc_transaction_header i TransactionTypeResponse @ enc_uint8 ty) \<and>
    sk_tasks s' = sk_tasks s @ [p] \<and> sk_refs s' = (sk_refs s)(p := 1) \<and> sk_others s' = sk_others s"
proof -
  let ?bytes = "enc_transaction_header i TransactionTypeResponse @ enc_uint8 ty"
  have r: "tc_socket config = Some s" "socket_inv owned s"
    using assms(1) by (simp_all add: trans_ready_def)
  have fill: "pkt_wf (filled addr ?bytes m) \<and> pkt_length (filled addr ?bytes m) = pkt_length m \<and>
      0 < bs_offset (pkt_bitstream (filled addr ?bytes m))" if "pkt_wf m" "bs_offset (pkt_bitstream m) = 0" for m
    using filled_wf [OF that, of ?bytes addr] by simp
  from socket.send_once [OF r(2) assms(2,3) fill]
  obtain m s2 s3 where m: "sk_mem s1 p = Some m" "pkt_wf m" "bs_offset (pkt_bitstream m) = 0"
    and s2: "net_socket_send (net_packet_store s1 p (filled addr ?bytes m)) p = Some s2"
    and s3: "net_packet_release s2 p = Some s3" "socket_inv owned s3" "owned p = 0"
      "sk_mem s3 = (sk_mem s)(p \<mapsto> sent (filled addr ?bytes m))"
      "sk_refs s3 = (sk_refs s)(p := 1)" "sk_tasks s3 = sk_tasks s @ [p]" "sk_others s3 = sk_others s"
    unfolding sent_def by blast
  obtain b where b: "transactionProtocolPackHeader (pkt_bitstream m) i TransactionTypeResponse = Some b"
      "transactionProtocolPackResponse b ty = Some (bs_put (pkt_bitstream m) ?bytes)"
    using pack_response_filled [OF m(2,3)] by blast
  have "transactionResponse config addr i ty = Some (config\<lparr>tc_socket := Some s3\<rparr>)"
    using r(1) assms(2,3) m(1) b s2 s3(1)
    by (simp add: transactionResponse_def on_packet_def on_socket_def pack_into_def net_packet_addr_def filled_def)
  moreover have "datagram (sent (filled addr ?bytes m)) = (addr, ?bytes)"
    by (rule filled_wf(4) [OF m(2,3)]) simp
  ultimately show ?thesis
    using s3 assms(1) by (intro exI [of _ s3] exI) (auto simp: trans_ready_def)
qed

text \<open>A transaction that waits; \<open>v\<close> tells whether its timer is still valid.\<close>

definition waiting :: "TransactionId \<Rightarrow> ptr \<Rightarrow> u32 \<Rightarrow> ptr \<Rightarrow> bool \<Rightarrow> ptr \<Rightarrow> Transaction" where
  "waiting i p retries source v block =
     \<lparr>tr_state = TransactionWaiting, tr_id = i, tr_packet = p, tr_retries = retries,
      tr_timeout = \<lparr>timerDispatchSource = source, valid = v\<rparr>, tr_timeoutBlock = block\<rparr>"

definition destroy_calls :: "ptr \<Rightarrow> bool \<Rightarrow> dispatch_call list" where
  "destroy_calls source v = (if v then [SourceCancel source, SourceRelease source] else [])"

text \<open>The calls that arm a timer.\<close>

definition arm_calls :: "ptr \<Rightarrow> ptr \<Rightarrow> int \<Rightarrow> dispatch_call list" where
  "arm_calls source block ms =
     [SourceCreate source, SourceSetTimer source (timeout_ns ms) kLEEWAY, SourceSetHandler source (BlockHandler block),
      SourceResume source]"

lemma transactionRequest_step:
  assumes "trans_ready owned s ht config" "net_packet_alloc s = Some (p, s1)" "p \<noteq> NULL"
    and "te_calloc env \<noteq> NULL" "te_source env \<noteq> NULL"
    and "request_ok n ob" "\<And>x. ob = ObjectPeerList x \<Longrightarrow> unat (pl_count x) \<le> 4"
  defines "i \<equiv> ucast (tc_cseq config)"
  shows "\<exists>config' s' m. transactionRequest env config addr ob = Some config' \<and>
    trans_ready (owned(p := 1)) s' ht config' \<and> owned p = 0 \<and>
    config' = config\<lparr>tc_tasks := tc_tasks config @ [InsertTask (te_calloc env)], tc_cseq := (tc_cseq config + 1) mod 0xFF,
      tc_socket := Some s', tc_heap := (tc_heap config)(te_calloc env \<mapsto> waiting i p 0 (te_source env) True (te_block env)),
      tc_calls := tc_calls config @ arm_calls (te_source env) (te_block env) 1000\<rparr> \<and>
    sk_mem s' = (sk_mem s)(p \<mapsto> m) \<and> pkt_wf m \<and> 0 < bs_offset (pkt_bitstream m) \<and> sent m = m \<and>
    datagram m = (addr, enc_transaction_header i TransactionTypeRequest @ enc_request (te_endian env) ob) \<and>
    sk_tasks s' = sk_tasks s @ [p] \<and> sk_refs s' = (sk_refs s)(p := 2) \<and> sk_others s' = sk_others s"
proof -
  let ?bytes = "enc_transaction_header i TransactionTypeRequest @ enc_request (te_endian env) ob"
  have r: "tc_socket config = Some s" "socket_inv owned s"
    using assms(1) by (simp_all add: trans_ready_def)
  from r(2) obtain m where a: "owned p = 0" "socket_inv (owned(p := 1)) s1" "sk_refs s1 = (sk_refs s)(p := 1)" "sk_tasks s1 = sk_tasks s"
      "sk_others s1 = sk_others s" "sk_mem s1 = (sk_mem s)(p \<mapsto> m)" and m: "pkt_wf m" "bs_offset (pkt_bitstream m) = 0"
    using assms(2,3) by (cases rule: socket.alloc_cases) auto
  obtain b where b: "transactionProtocolPackHeader (pkt_bitstream m) i TransactionTypeRequest = Some b"
      "transactionProtocolPackRequest (te_endian env) b ob = Some (bs_put (pkt_bitstream m) ?bytes)" and len: "length ?bytes \<le> 256"
    using pack_request_filled [OF m assms(6,7)] by metis
  note fw = filled_wf [OF m len, of addr]
  let ?m = "filled addr ?bytes m"
  have mp: "sk_mem s1 p = Some m"
    using a(6) by simp
  have "0 < length ?bytes"
    by (simp add: enc_transaction_header_def)
  then have off: "0 < bs_offset (pkt_bitstream ?m)"
    using fw(3) by simp
  have put: "socket_inv (owned(p := 1)) (net_packet_store s1 p ?m)" "sk_refs (net_packet_store s1 p ?m) = (sk_refs s)(p := 1)"
      "sk_tasks (net_packet_store s1 p ?m) = sk_tasks s" "sk_others (net_packet_store s1 p ?m) = sk_others s"
    using socket.put_law [OF a(2) _ mp fw(1,2)] a by simp_all
  obtain s2 where s2: "net_socket_send (net_packet_store s1 p ?m) p = Some s2" "socket_inv (owned(p := 1)) s2"
      "sk_refs s2 = (sk_refs s)(p := Suc 1)" "sk_tasks s2 = sk_tasks s @ [p]" "sk_others s2 = sk_others s"
      "sk_mem s2 = (sk_mem s)(p \<mapsto> sent ?m)"
    using socket.send_law [OF put(1), of p ?m] put a(6) off by (auto simp: sent_def)
  let ?t = "waiting i p 0 (te_source env) True (te_block env)"
  let ?c = "config\<lparr>tc_tasks := tc_tasks config @ [InsertTask (te_calloc env)], tc_cseq := (tc_cseq config + 1) mod 0xFF,
      tc_socket := Some s2, tc_heap := (tc_heap config)(te_calloc env \<mapsto> ?t),
      tc_calls := tc_calls config @ arm_calls (te_source env) (te_block env) 1000\<rparr>"
  have "transactionRequest env config addr ob = Some ?c"
    using r(1) assms(2-5) mp b s2(1)
    by (simp add: transactionRequest_def transactionAlloc_def on_packet_def on_socket_def pack_into_def net_packet_addr_def
        filled_def dispatch_task_def set_transaction_def transaction_set_timeout_def timeout_create_block_def Let_def i_def
        waiting_def arm_calls_def)
  moreover have "trans_ready (owned(p := 1)) s2 ht ?c"
    using assms(1) s2(2) by (simp add: trans_ready_def)
  moreover have "pkt_wf (sent ?m)" "sent (sent ?m) = sent ?m" "0 < bs_offset (pkt_bitstream (sent ?m))"
    using fw(1) off by (simp_all add: sent_def pkt_wf_def pkt_block_def)
  ultimately show ?thesis
    using s2 a(1) fw(4) by (intro exI [of _ ?c] exI [of _ s2] exI [of _ "sent ?m"]) (simp add: numeral_2_eq_2)
qed

lemma table_found:
  assumes "trans_ready owned s ht config"
  shows "tc_transactions config = Some ht" "hashtable_search ht i = Some (ht_map ht i)"
  using assms table.search_law [of ht i] by (simp_all add: trans_ready_def)

lemma run_insert_step:
  assumes "trans_ready owned s ht config" "tc_heap config tr = Some t" "tr_id t \<le> kTransactionMaxId"
  shows "\<exists>ht'. run_insert config tr = Some (config\<lparr>tc_transactions := Some ht'\<rparr>) \<and>
    trans_ready owned s ht' (config\<lparr>tc_transactions := Some ht'\<rparr>) \<and> ht_map ht' = (ht_map ht)(tr_id t \<mapsto> tr)"
proof -
  have ht: "tc_transactions config = Some ht" "ht_wf ht" "ht_max_key ht = 255"
    using assms(1) by (simp_all add: trans_ready_def)
  obtain ht' where ht': "hashtable_insert ht (tr_id t) (Some tr) = Some ht'" "ht_wf ht'"
      "ht_map ht' = (if mKeyBelongsToHashtable ht (tr_id t) then (ht_map ht)(tr_id t \<mapsto> tr) else ht_map ht)"
    using table.ins_law [OF ht(2)] by blast
  moreover have "ht_max_key ht' = ht_max_key ht"
    using ht'(1) by (auto simp: hashtable_insert_def Option.bind_eq_Some_conv split: if_splits)
  ultimately show ?thesis
    using assms ht by (intro exI [of _ ht']) (simp add: run_insert_def trans_ready_def mKeyBelongsToHashtable_def)
qed

text \<open>
  The end of a transaction: its entry is deleted, its memory is freed and its reference to the
  packet is released; unless it was acknowledged, the error callback is called with its address.
\<close>

definition failure_log :: "TransactionConfiguration \<Rightarrow> Transaction \<Rightarrow> net_packet_s \<Rightarrow> transaction_callback list" where
  "failure_log config t m =
     (if tr_state t \<noteq> TransactionAcknowledged \<and> tc_errorCallback config \<noteq> NULL
      then [Failed (tc_context config) (pkt_addr m)] else [])"

lemma transactionSetComplete_step:
  assumes "trans_ready owned s ht config" "tc_heap config tr = Some t" "tr \<noteq> NULL" "0 < owned (tr_packet t)"
    "sk_mem s (tr_packet t) = Some m"
  shows "\<exists>s' ht'. transactionSetComplete config tr =
      Some (config\<lparr>tc_log := tc_log config @ failure_log config t m, tc_transactions := Some ht', tc_socket := Some s',
        tc_heap := (tc_heap config)(tr := None)\<rparr>) \<and>
    trans_ready (owned(tr_packet t := owned (tr_packet t) - 1)) s' ht'
      (config\<lparr>tc_log := tc_log config @ failure_log config t m, tc_transactions := Some ht', tc_socket := Some s',
        tc_heap := (tc_heap config)(tr := None)\<rparr>) \<and>
    ht_map ht' = (ht_map ht)(tr_id t := None) \<and> sk_mem s' = sk_mem s \<and> sk_tasks s' = sk_tasks s \<and>
    sk_refs s' = (sk_refs s)(tr_packet t := sk_refs s (tr_packet t) - 1) \<and> sk_others s' = sk_others s"
proof -
  have r: "tc_socket config = Some s" "socket_inv owned s" "tc_transactions config = Some ht" "ht_wf ht" "ht_max_key ht = 255"
    using assms(1) by (simp_all add: trans_ready_def)
  obtain ht' where ht': "hashtable_delete ht (tr_id t) = Some ht'" "ht_wf ht'" "ht_map ht' = (ht_map ht)(tr_id t := None)"
    using table.del_law [OF r(4)] by blast
  have max: "ht_max_key ht' = 255"
    using ht'(1) r(5) by (auto simp: hashtable_delete_def Option.bind_eq_Some_conv split: if_splits)
  obtain s' where s': "net_packet_release s (tr_packet t) = Some s'" "socket_inv (owned(tr_packet t := owned (tr_packet t) - 1)) s'"
      "sk_refs s' = (sk_refs s)(tr_packet t := sk_refs s (tr_packet t) - 1)" "sk_tasks s' = sk_tasks s" "sk_others s' = sk_others s"
      "sk_mem s' = sk_mem s"
    using socket.release_law [OF r(2) assms(4)] by blast
  have "transactionSetComplete config tr =
      Some (config\<lparr>tc_log := tc_log config @ failure_log config t m, tc_transactions := Some ht', tc_socket := Some s',
        tc_heap := (tc_heap config)(tr := None)\<rparr>)"
    using assms(2,3,5) r ht'(1) s'(1)
    by (simp add: transactionSetComplete_def transactionFree_def on_socket_def failure_log_def)
  then show ?thesis
    using s' ht' max by (intro exI [of _ s'] exI [of _ ht']) (simp add: trans_ready_def)
qed

lemma run_retry_unknown:
  assumes "trans_ready owned s ht config" "ht_map ht i = None"
  shows "run_retry env config i = Some config"
  using table_found(1) [OF assms(1)] table_found(2) [OF assms(1), of i] assms(2) by (simp add: run_retry_def)

text \<open>One expiry of the timer of a waiting transaction: a retransmission, or the end.\<close>

lemma run_retry_resend:
  assumes "trans_ready owned s ht config" "ht_map ht i = Some tr" "tc_heap config tr = Some (waiting i p k src v block)"
    "k < kTransactionMaxRetries" "0 < owned p" "sk_mem s p = Some m" "0 < bs_offset (pkt_bitstream m)"
    "sk_refs s p < 2 ^ 32 - 1" "te_source env \<noteq> NULL"
  shows "\<exists>s'. run_retry env config i = Some (config\<lparr>tc_socket := Some s',
      tc_heap := (tc_heap config)(tr \<mapsto> waiting i p (k + 1) (te_source env) True block),
      tc_calls := tc_calls config @ destroy_calls src v @ arm_calls (te_source env) block (2000 * uint (k + 1))\<rparr>) \<and>
    trans_ready owned s' ht (config\<lparr>tc_socket := Some s',
      tc_heap := (tc_heap config)(tr \<mapsto> waiting i p (k + 1) (te_source env) True block),
      tc_calls := tc_calls config @ destroy_calls src v @ arm_calls (te_source env) block (2000 * uint (k + 1))\<rparr>) \<and>
    sk_mem s' = (sk_mem s)(p \<mapsto> sent m) \<and> sk_tasks s' = sk_tasks s @ [p] \<and>
    sk_refs s' = (sk_refs s)(p := sk_refs s p + 1) \<and> sk_others s' = sk_others s"
proof -
  have r: "tc_socket config = Some s" "socket_inv owned s"
    using assms(1) by (simp_all add: trans_ready_def)
  obtain s' where s': "net_socket_send s p = Some s'" "socket_inv owned s'" "sk_refs s' = (sk_refs s)(p := sk_refs s p + 1)"
      "sk_tasks s' = sk_tasks s @ [p]" "sk_others s' = sk_others s" "sk_mem s' = (sk_mem s)(p \<mapsto> sent m)"
    using socket.send_law [OF r(2) assms(5,8,6,7)] by (auto simp: sent_def)
  have "run_retry env config i = Some (config\<lparr>tc_socket := Some s',
      tc_heap := (tc_heap config)(tr \<mapsto> waiting i p (k + 1) (te_source env) True block),
      tc_calls := tc_calls config @ destroy_calls src v @ arm_calls (te_source env) block (2000 * uint (k + 1))\<rparr>)"
    using table_found(1) [OF assms(1)] table_found(2) [OF assms(1), of i] assms(2-4,9) r(1) s'(1)
    by (simp add: run_retry_def transactionDestroyTimeout_def timeout_destroy_def set_transaction_def waiting_def destroy_calls_def on_socket_def
        transaction_set_timeout_def timeout_create_block_def arm_calls_def Let_def)
  with s' assms(1) show ?thesis
    by (intro exI [of _ s']) (simp add: trans_ready_def)
qed

lemma run_retry_fail:
  assumes "trans_ready owned s ht config" "ht_map ht i = Some tr" "tr \<noteq> NULL" "tc_heap config tr = Some (waiting i p k src v block)"
    "\<not> k < kTransactionMaxRetries" "0 < owned p" "sk_mem s p = Some m" "tc_errorCallback config \<noteq> NULL"
  shows "\<exists>s' ht'. run_retry env config i = Some (config\<lparr>tc_socket := Some s', tc_transactions := Some ht',
      tc_heap := (tc_heap config)(tr := None), tc_calls := tc_calls config @ destroy_calls src v,
      tc_log := tc_log config @ [Failed (tc_context config) (pkt_addr m)]\<rparr>) \<and>
    socket_inv (owned(p := owned p - 1)) s' \<and> ht_wf ht' \<and> ht_max_key ht' = 255 \<and> ht_map ht' = (ht_map ht)(i := None) \<and>
    sk_mem s' = sk_mem s \<and> sk_tasks s' = sk_tasks s \<and> sk_refs s' = (sk_refs s)(p := sk_refs s p - 1) \<and>
    sk_others s' = sk_others s"
proof -
  let ?t = "(waiting i p k src v block)\<lparr>tr_timeout := \<lparr>timerDispatchSource = src, valid = False\<rparr>, tr_state := TransactionTimeout\<rparr>"
  let ?c = "config\<lparr>tc_calls := tc_calls config @ destroy_calls src v, tc_heap := (tc_heap config)(tr \<mapsto> ?t)\<rparr>"
  have eq: "run_retry env config i = transactionSetComplete ?c tr"
    using table_found(1) [OF assms(1)] table_found(2) [OF assms(1), of i] assms(2,4,5)
    by (simp add: run_retry_def transactionDestroyTimeout_def timeout_destroy_def set_transaction_def waiting_def destroy_calls_def Let_def)
  have "trans_ready owned s ht ?c"
    using assms(1) by (simp add: trans_ready_def)
  with transactionSetComplete_step [OF this, of tr ?t m] assms(3,6,7) obtain s' ht' where
    s': "transactionSetComplete ?c tr =
        Some (?c\<lparr>tc_log := tc_log config @ failure_log ?c ?t m, tc_transactions := Some ht', tc_socket := Some s',
          tc_heap := (tc_heap config)(tr := None)\<rparr>)"
      "trans_ready (owned(p := owned p - 1)) s' ht' (?c\<lparr>tc_log := tc_log config @ failure_log ?c ?t m, tc_transactions := Some ht', tc_socket := Some s',
        tc_heap := (tc_heap config)(tr := None)\<rparr>)"
      "ht_map ht' = (ht_map ht)(i := None)" "sk_mem s' = sk_mem s" "sk_tasks s' = sk_tasks s"
      "sk_refs s' = (sk_refs s)(p := sk_refs s p - 1)" "sk_others s' = sk_others s"
    by (auto simp: waiting_def destroy_calls_def)
  have "failure_log ?c ?t m = [Failed (tc_context config) (pkt_addr m)]"
    using assms(8) by (simp add: failure_log_def)
  with s' show ?thesis
    unfolding eq by (intro exI [of _ s'] exI [of _ ht']) (simp add: trans_ready_def)
qed

text \<open>
  A response for a transaction that waits ends it, whatever its type: the timer is destroyed, and
  both the transaction's and the response's packet are released.
\<close>

definition response_log :: "TransactionConfiguration \<Rightarrow> u32 \<Rightarrow> net_packet_s \<Rightarrow> transaction_callback list" where
  "response_log config ty m =
     (if ty \<noteq> TransactionResponseTypeSuccess \<and> tc_errorCallback config \<noteq> NULL
      then [Failed (tc_context config) (pkt_addr m)] else [])"

lemma run_response_known:
  assumes "trans_ready owned s ht config" "ht_map ht i = Some tr" "tr \<noteq> NULL" "tc_heap config tr = Some (waiting i p k src v block)"
    "0 < owned p" "0 < owned rp" "p \<noteq> rp" "sk_mem s p = Some m" "sk_mem s rp = Some rm"
    "transactionProtocolUnpackResponse (pkt_bitstream rm) = Some (r, ty, b)" "pkt_wf (rm\<lparr>pkt_bitstream := b\<rparr>)"
  shows "\<exists>s' ht'. run_response config rp i = Some (config\<lparr>tc_socket := Some s', tc_transactions := Some ht',
      tc_heap := (tc_heap config)(tr := None), tc_calls := tc_calls config @ destroy_calls src v,
      tc_log := tc_log config @ response_log config ty m\<rparr>) \<and>
    socket_inv (owned(p := owned p - 1, rp := owned rp - 1)) s' \<and> ht_wf ht' \<and> ht_max_key ht' = 255 \<and> ht_map ht' = (ht_map ht)(i := None) \<and>
    sk_mem s' = (sk_mem s)(rp \<mapsto> rm\<lparr>pkt_bitstream := b\<rparr>) \<and> sk_tasks s' = sk_tasks s \<and>
    sk_refs s' = (sk_refs s)(p := sk_refs s p - 1, rp := sk_refs s rp - 1) \<and> sk_others s' = sk_others s"
proof -
  have r: "tc_socket config = Some s" "socket_inv owned s"
    using assms(1) by (simp_all add: trans_ready_def)
  let ?st = "if ty = TransactionResponseTypeSuccess then TransactionAcknowledged else TransactionError"
  let ?t = "(waiting i p k src v block)\<lparr>tr_timeout := \<lparr>timerDispatchSource = src, valid = False\<rparr>, tr_state := ?st\<rparr>"
  let ?s1 = "net_packet_store s rp (rm\<lparr>pkt_bitstream := b\<rparr>)"
  let ?c = "config\<lparr>tc_calls := tc_calls config @ destroy_calls src v, tc_socket := Some ?s1,
    tc_heap := (tc_heap config)(tr \<mapsto> ?t)\<rparr>"
  have s1: "socket_inv owned ?s1" "sk_refs ?s1 = sk_refs s" "sk_tasks ?s1 = sk_tasks s" "sk_others ?s1 = sk_others s"
    using socket.put_law [OF r(2) assms(6,9,11)] by simp_all
  have "run_response config rp i = do {
      config \<leftarrow> transactionSetComplete ?c tr;
      on_socket config (\<lambda>s. net_packet_release s rp) }"
    using table_found(1) [OF assms(1)] table_found(2) [OF assms(1), of i] assms(2,4,9,10) r(1)
    by (simp add: run_response_def transactionDestroyTimeout_def timeout_destroy_def set_transaction_def waiting_def destroy_calls_def on_packet_def Let_def)
  moreover have "trans_ready owned ?s1 ht ?c"
    using assms(1) s1(1) by (simp add: trans_ready_def)
  with transactionSetComplete_step [OF this, of tr ?t m] assms(3,5,7,8) obtain s2 ht' where
    s2: "transactionSetComplete ?c tr =
        Some (?c\<lparr>tc_log := tc_log config @ failure_log ?c ?t m, tc_transactions := Some ht', tc_socket := Some s2,
          tc_heap := (tc_heap config)(tr := None)\<rparr>)"
      "trans_ready (owned(p := owned p - 1)) s2 ht' (?c\<lparr>tc_log := tc_log config @ failure_log ?c ?t m, tc_transactions := Some ht', tc_socket := Some s2,
        tc_heap := (tc_heap config)(tr := None)\<rparr>)"
      "ht_map ht' = (ht_map ht)(i := None)" "sk_mem s2 = sk_mem ?s1" "sk_tasks s2 = sk_tasks s"
      "sk_refs s2 = (sk_refs s)(p := sk_refs s p - 1)" "sk_others s2 = sk_others s"
    using s1(2-4) by (auto simp: waiting_def destroy_calls_def)
  have inv2: "socket_inv (owned(p := owned p - 1)) s2" "ht_wf ht'" "ht_max_key ht' = 255"
    using s2(2) by (simp_all add: trans_ready_def)
  obtain s3 where s3: "net_packet_release s2 rp = Some s3" "socket_inv (owned(p := owned p - 1, rp := owned rp - 1)) s3"
      "sk_refs s3 = (sk_refs s2)(rp := sk_refs s2 rp - 1)" "sk_tasks s3 = sk_tasks s2" "sk_others s3 = sk_others s2" "sk_mem s3 = sk_mem s2"
    using socket.release_law [OF inv2(1), of rp] assms(6,7) by auto
  have "failure_log ?c ?t m = response_log config ty m"
    by (simp add: failure_log_def response_log_def)
  with s2 s3 inv2 assms(7) calculation show ?thesis
    by (intro exI [of _ s3] exI [of _ ht']) (simp add: on_socket_def)
qed

lemma run_response_unknown:
  assumes "trans_ready owned s ht config" "ht_map ht i = None"
  shows "run_response config rp i = Some config"
  using table_found(1) [OF assms(1)] table_found(2) [OF assms(1), of i] assms(2) by (simp add: run_response_def)

section \<open>Scenarios\<close>

text \<open>A timer that expires while nothing else is in the serial queue: its handler, then the retry.\<close>

definition timer_expiry :: "transaction_env \<Rightarrow> TransactionConfiguration \<Rightarrow> ptr \<Rightarrow> TransactionConfiguration option" where
  "timer_expiry env config transaction = do {
     config \<leftarrow> transaction_timer_block config transaction;
     config \<leftarrow> transaction_timer_fired config transaction;
     run_transaction_task env config
   }"

lemma timer_expiry_waiting:
  assumes "tc_heap config tr = Some (waiting i p k src True block)" "tc_tasks config = []"
  shows "timer_expiry env config tr =
    run_retry env (config\<lparr>tc_heap := (tc_heap config)(tr \<mapsto> waiting i p k src False block),
      tc_calls := tc_calls config @ [SourceRelease src], tc_tasks := []\<rparr>) i"
  using assms
  by (simp add: timer_expiry_def transaction_timer_block_def transaction_timer_fired_def transactionRetryOrFail_def
      dispatch_task_def timeout_fired_def set_transaction_def run_transaction_task_def waiting_def Let_def)

text \<open>A request whose transaction has been entered into the table, with everything later steps need.\<close>

definition request_pending ::
    "(ptr \<Rightarrow> nat) \<Rightarrow> net_socket_s \<Rightarrow> ptr hashtable_s \<Rightarrow> TransactionConfiguration \<Rightarrow> TransactionId \<Rightarrow> ptr \<Rightarrow> ptr \<Rightarrow> Transaction \<Rightarrow>
     net_packet_s \<Rightarrow> bool" where
  "request_pending owned s ht config i tr p t m \<longleftrightarrow>
     trans_ready owned s ht config \<and> ht_map ht i = Some tr \<and> tr \<noteq> NULL \<and> tc_heap config tr = Some t \<and> 0 < owned p \<and>
     sk_mem s p = Some m \<and> pkt_wf m \<and> 0 < bs_offset (pkt_bitstream m) \<and> sent m = m \<and> tc_tasks config = []"

lemma unat_ucast_u8_u32 [simp]: "unat (ucast (v :: u8) :: u32) = unat v"
  by (simp add: unsigned_ucast_eq take_bit_nat_eq_self_iff order_less_trans [OF unsigned_less])

lemma request_enters:
  assumes "trans_ready owned s ht config" "net_packet_alloc s = Some (p, s1)" "p \<noteq> NULL" "tc_tasks config = []"
    and "te_calloc env \<noteq> NULL" "te_source env \<noteq> NULL"
    and "request_ok n ob" "\<And>x. ob = ObjectPeerList x \<Longrightarrow> unat (pl_count x) \<le> 4"
  defines "i \<equiv> ucast (tc_cseq config)"
  shows "\<exists>config' s' ht' m. do { config \<leftarrow> transactionRequest env config addr ob; run_transaction_task env config } = Some config' \<and>
    request_pending (owned(p := 1)) s' ht' config' i (te_calloc env) p (waiting i p 0 (te_source env) True (te_block env)) m \<and>
    config' = config\<lparr>tc_tasks := [], tc_cseq := (tc_cseq config + 1) mod 0xFF, tc_transactions := Some ht',
      tc_socket := Some s', tc_heap := (tc_heap config)(te_calloc env \<mapsto> waiting i p 0 (te_source env) True (te_block env)),
      tc_calls := tc_calls config @ arm_calls (te_source env) (te_block env) 1000\<rparr> \<and>
    ht_map ht' = (ht_map ht)(i \<mapsto> te_calloc env) \<and> sk_mem s' = (sk_mem s)(p \<mapsto> m) \<and>
    datagram m = (addr, enc_transaction_header i TransactionTypeRequest @ enc_request (te_endian env) ob) \<and> pkt_addr m = addr \<and>
    sk_tasks s' = sk_tasks s @ [p] \<and> sk_refs s' = (sk_refs s)(p := 2) \<and> sk_others s' = sk_others s"
proof -
  let ?t = "waiting i p 0 (te_source env) True (te_block env)"
  obtain c1 s' m where c1: "transactionRequest env config addr ob = Some c1" "trans_ready (owned(p := 1)) s' ht c1"
      "c1 = config\<lparr>tc_tasks := tc_tasks config @ [InsertTask (te_calloc env)], tc_cseq := (tc_cseq config + 1) mod 0xFF,
        tc_socket := Some s', tc_heap := (tc_heap config)(te_calloc env \<mapsto> ?t),
        tc_calls := tc_calls config @ arm_calls (te_source env) (te_block env) 1000\<rparr>"
      and m: "sk_mem s' = (sk_mem s)(p \<mapsto> m)" "pkt_wf m" "0 < bs_offset (pkt_bitstream m)" "sent m = m"
        "datagram m = (addr, enc_transaction_header i TransactionTypeRequest @ enc_request (te_endian env) ob)"
        "sk_tasks s' = sk_tasks s @ [p]" "sk_refs s' = (sk_refs s)(p := 2)" "sk_others s' = sk_others s"
    using transactionRequest_step [OF assms(1,2,3,5,6,7,8), of addr] unfolding i_def by blast
  let ?c2 = "c1\<lparr>tc_tasks := []\<rparr>"
  have ready: "trans_ready (owned(p := 1)) s' ht ?c2"
    using c1(2) by (simp add: trans_ready_def)
  have "unat (tc_cseq config) < 256"
    by (rule order_less_le_trans [OF unsigned_less]) simp
  then have id: "tr_id ?t = i" "i \<le> 255"
    by (simp_all add: waiting_def i_def word_le_nat_alt)
  obtain ht' where ht': "run_insert ?c2 (te_calloc env) = Some (?c2\<lparr>tc_transactions := Some ht'\<rparr>)"
      "trans_ready (owned(p := 1)) s' ht' (?c2\<lparr>tc_transactions := Some ht'\<rparr>)" "ht_map ht' = (ht_map ht)(i \<mapsto> te_calloc env)"
    using run_insert_step [OF ready, of "te_calloc env" ?t] id c1(3) by auto
  let ?c3 = "?c2\<lparr>tc_transactions := Some ht'\<rparr>"
  have "run_transaction_task env c1 = Some ?c3"
    using ht'(1) c1(3) assms(4) by (simp add: run_transaction_task_def)
  then have "do { config \<leftarrow> transactionRequest env config addr ob; run_transaction_task env config } = Some ?c3"
    using c1(1) by simp
  moreover have "request_pending (owned(p := 1)) s' ht' ?c3 i (te_calloc env) p ?t m"
    using ht'(2,3) m assms(5) c1(3) by (simp add: request_pending_def)
  moreover have "pkt_addr m = addr"
    using m(5) by (simp add: datagram_def)
  moreover have "?c3 = config\<lparr>tc_tasks := [], tc_cseq := (tc_cseq config + 1) mod 0xFF, tc_transactions := Some ht',
      tc_socket := Some s', tc_heap := (tc_heap config)(te_calloc env \<mapsto> ?t),
      tc_calls := tc_calls config @ arm_calls (te_source env) (te_block env) 1000\<rparr>"
    using c1(3) by simp
  ultimately show ?thesis
    using ht'(3) m by blast
qed

text \<open>One expiry of a pending request that has retransmissions left, and one that has none.\<close>

lemma expiry_resends:
  assumes "request_pending owned s ht config i tr p (waiting i p k src True block) m" "k < kTransactionMaxRetries"
    "sk_refs s p < 2 ^ 32 - 1" "te_source env \<noteq> NULL"
  shows "\<exists>config' s'. timer_expiry env config tr = Some config' \<and>
    request_pending owned s' ht config' i tr p (waiting i p (k + 1) (te_source env) True block) m \<and>
    tc_calls config' = tc_calls config @ [SourceRelease src] @ arm_calls (te_source env) block (2000 * uint (k + 1)) \<and>
    tc_log config' = tc_log config \<and> tc_errorCallback config' = tc_errorCallback config \<and> tc_context config' = tc_context config \<and>
    sk_tasks s' = sk_tasks s @ [p] \<and> sk_refs s' = (sk_refs s)(p := sk_refs s p + 1) \<and> sk_others s' = sk_others s"
proof -
  note pend = assms(1) [unfolded request_pending_def]
  let ?c = "config\<lparr>tc_heap := (tc_heap config)(tr \<mapsto> waiting i p k src False block),
      tc_calls := tc_calls config @ [SourceRelease src], tc_tasks := []\<rparr>"
  have ready: "trans_ready owned s ht ?c"
    using pend by (simp add: trans_ready_def)
  obtain s' where s': "run_retry env ?c i = Some (?c\<lparr>tc_socket := Some s',
      tc_heap := (tc_heap ?c)(tr \<mapsto> waiting i p (k + 1) (te_source env) True block),
      tc_calls := tc_calls ?c @ destroy_calls src False @ arm_calls (te_source env) block (2000 * uint (k + 1))\<rparr>)"
      "trans_ready owned s' ht (?c\<lparr>tc_socket := Some s',
      tc_heap := (tc_heap ?c)(tr \<mapsto> waiting i p (k + 1) (te_source env) True block),
      tc_calls := tc_calls ?c @ destroy_calls src False @ arm_calls (te_source env) block (2000 * uint (k + 1))\<rparr>)"
      "sk_mem s' = (sk_mem s)(p \<mapsto> m)" "sk_tasks s' = sk_tasks s @ [p]"
      "sk_refs s' = (sk_refs s)(p := sk_refs s p + 1)" "sk_others s' = sk_others s"
    using run_retry_resend [OF ready, of i tr p k src False block m env] pend assms(2-4) by auto
  let ?d = "?c\<lparr>tc_socket := Some s',
      tc_heap := (tc_heap ?c)(tr \<mapsto> waiting i p (k + 1) (te_source env) True block),
      tc_calls := tc_calls ?c @ destroy_calls src False @ arm_calls (te_source env) block (2000 * uint (k + 1))\<rparr>"
  have "request_pending owned s' ht ?d i tr p (waiting i p (k + 1) (te_source env) True block) m"
    using s' pend by (simp add: request_pending_def)
  moreover have "timer_expiry env config tr = Some ?d"
    using timer_expiry_waiting [of config tr i p k src block env] pend s'(1) by simp
  ultimately show ?thesis
    using s' by (intro exI [of _ ?d] exI [of _ s']) (simp add: destroy_calls_def)
qed

lemma expiry_fails:
  assumes "request_pending owned s ht config i tr p (waiting i p k src True block) m" "\<not> k < kTransactionMaxRetries"
    "tc_errorCallback config \<noteq> NULL"
  shows "\<exists>config' s' ht'. timer_expiry env config tr = Some config' \<and>
    trans_ready (owned(p := owned p - 1)) s' ht' config' \<and> ht_map ht' = (ht_map ht)(i := None) \<and>
    tc_heap config' tr = None \<and> tc_calls config' = tc_calls config @ [SourceRelease src] \<and> tc_tasks config' = [] \<and>
    tc_log config' = tc_log config @ [Failed (tc_context config) (pkt_addr m)] \<and>
    sk_tasks s' = sk_tasks s \<and> sk_refs s' = (sk_refs s)(p := sk_refs s p - 1) \<and> sk_others s' = sk_others s"
proof -
  note pend = assms(1) [unfolded request_pending_def]
  let ?c = "config\<lparr>tc_heap := (tc_heap config)(tr \<mapsto> waiting i p k src False block),
      tc_calls := tc_calls config @ [SourceRelease src], tc_tasks := []\<rparr>"
  have ready: "trans_ready owned s ht ?c"
    using pend by (simp add: trans_ready_def)
  obtain s' ht' where s': "run_retry env ?c i = Some (?c\<lparr>tc_socket := Some s', tc_transactions := Some ht',
      tc_heap := (tc_heap ?c)(tr := None), tc_calls := tc_calls ?c @ destroy_calls src False,
      tc_log := tc_log config @ [Failed (tc_context config) (pkt_addr m)]\<rparr>)"
      "socket_inv (owned(p := owned p - 1)) s'" "ht_wf ht'" "ht_map ht' = (ht_map ht)(i := None)"
      "sk_tasks s' = sk_tasks s" "sk_refs s' = (sk_refs s)(p := sk_refs s p - 1)" "sk_others s' = sk_others s" "ht_max_key ht' = 255"
    using run_retry_fail [OF ready, of i tr p k src False block m env] pend assms(2,3) by auto
  let ?d = "?c\<lparr>tc_socket := Some s', tc_transactions := Some ht',
      tc_heap := (tc_heap ?c)(tr := None), tc_calls := tc_calls ?c @ destroy_calls src False,
      tc_log := tc_log config @ [Failed (tc_context config) (pkt_addr m)]\<rparr>"
  have "timer_expiry env config tr = Some ?d"
    using timer_expiry_waiting [of config tr i p k src block env] pend s'(1) by simp
  then show ?thesis
    using s' by (intro exI [of _ ?d] exI [of _ s'] exI [of _ ht']) (simp add: destroy_calls_def trans_ready_def)
qed

text \<open>
  A datagram that arrives: the read handler, the delivery and the callback. Other functions the
  socket may have been given as its receiver are not modelled here.
\<close>

definition datagram_in :: "net_addr_t \<Rightarrow> u8 list \<Rightarrow> TransactionConfiguration \<Rightarrow> TransactionConfiguration option" where
  "datagram_in from bytes config = do {
     s \<leftarrow> tc_socket config;
     s \<leftarrow> read_handler \<lparr>recv_bytes = int (length bytes), recv_data = bytes, recv_addr = from\<rparr> s;
     if sk_deliveries s = [] then Some (config\<lparr>tc_socket := Some s\<rparr>)
     else do {
       ((fn, ctx, packet), s) \<leftarrow> run_delivery (last (sk_deliveries s)) s;
       if fn = transaction_receive_fn
       then transactionSocketReceiveCallback (config\<lparr>tc_socket := Some s\<rparr>) packet
       else None
     }
   }"

lemma datagram_in_delivers:
  assumes "trans_ready owned s ht config" "0 < sk_free s" "sk_deliveries s = []"
    "sk_receivers s = (NULL, transaction_receive_fn, ctx)" "0 < length bytes" "length bytes \<le> 256"
  shows "\<exists>p s' m. datagram_in from bytes config = transactionSocketReceiveCallback (config\<lparr>tc_socket := Some s'\<rparr>) p \<and>
    trans_ready (owned(p := 1)) s' ht (config\<lparr>tc_socket := Some s'\<rparr>) \<and> owned p = 0 \<and> sk_refs s p = 0 \<and> p \<in> sk_objects s \<and>
    sk_mem s' p = Some m \<and> pkt_wf m \<and> bs_offset (pkt_bitstream m) = 0 \<and> bs_at (pkt_bitstream m) bytes \<and> pkt_addr m = from \<and>
    sk_tasks s' = sk_tasks s \<and> sk_refs s' = (sk_refs s)(p := 1) \<and> sk_others s' = sk_others s \<and>
    (\<forall>a. a \<noteq> p \<longrightarrow> sk_mem s' a = sk_mem s a)"
proof -
  have r: "tc_socket config = Some s" "socket_inv owned s"
    using assms(1) by (simp_all add: trans_ready_def)
  have "(1 :: ptr) \<noteq> NULL"
    by simp
  from socket_receives_callback [OF r(2) assms(2-4) this assms(5,6), of "from"] obtain p s2 s' m
    where p: "read_handler \<lparr>recv_bytes = int (length bytes), recv_data = bytes, recv_addr = from\<rparr> s = Some s2"
      "sk_deliveries s2 = [DeliverCallback p]" "run_delivery (DeliverCallback p) s2 = Some ((1, ctx, p), s')"
      "socket_inv (owned(p := 1)) s'" "owned p = 0" "sk_refs s p = 0" "p \<in> sk_objects s" "sk_mem s' p = Some m" "pkt_wf m"
      "bs_offset (pkt_bitstream m) = 0" "bs_at (pkt_bitstream m) bytes" "pkt_addr m = from" "sk_tasks s' = sk_tasks s"
      "sk_refs s' = (sk_refs s)(p := 1)" "sk_others s' = sk_others s" "\<forall>a. a \<noteq> p \<longrightarrow> sk_mem s' a = sk_mem s a"
    by blast
  then have "datagram_in from bytes config = transactionSocketReceiveCallback (config\<lparr>tc_socket := Some s'\<rparr>) p"
    using r(1) by (simp add: datagram_in_def)
  with p(4-16) assms(1) show ?thesis
    by (intro exI [of _ p] exI [of _ s'] exI [of _ m]) (simp add: trans_ready_def)
qed

lemma receive_callback_step:
  assumes "trans_ready owned s ht config" "tc_isEnabled config" "0 < owned q" "sk_mem s q = Some m"
    "bs_at (pkt_bitstream m) (enc_transaction_header i ty)" "unat i < 256" "ty = TransactionTypeRequest \<or> ty = TransactionTypeResponse"
    "sk_refs s q < 2 ^ 32 - 1"
  defines "m' \<equiv> m\<lparr>pkt_bitstream := bs_adv (pkt_bitstream m) 5\<rparr>"
  shows "\<exists>s'. transactionSocketReceiveCallback config q = Some (config\<lparr>tc_socket := Some s',
      tc_tasks := tc_tasks config @ [if ty = TransactionTypeResponse then ResponseTask q i else RequestTask q i]\<rparr>) \<and>
    socket_inv owned s' \<and> sk_mem s' = (sk_mem s)(q \<mapsto> m') \<and> pkt_wf m' \<and> sk_tasks s' = sk_tasks s \<and> sk_refs s' = sk_refs s \<and>
    sk_others s' = sk_others s"
proof -
  have r: "tc_socket config = Some s" "socket_inv owned s"
    using assms(1) by (simp_all add: trans_ready_def)
  have pos: "0 < sk_refs s q"
    using assms(3) socket_inv_owned [OF r(2), of q] by simp
  from socket_inv_mem [OF r(2) pos] assms(4) have wf: "pkt_wf m"
    by auto
  have room: "bs_room (pkt_bitstream m) 5"
    using bs_at_room [OF assms(5)] by simp
  have wf': "pkt_wf m'" "pkt_length m' = pkt_length m"
    using wf room by (simp_all add: m'_def pkt_wf_def pkt_block_def bs_adv_def bs_room_def)
  have "unat ty < 256"
    using assms(7) by auto
  then have hdr: "transactionProtocolUnpackHeader (pkt_bitstream m) 0 0 = Some (UnpackValid, i, ty, bs_adv (pkt_bitstream m) 5)"
    using transaction_header_at [OF pkt_wf_bs_wf [OF wf] assms(5,6)] by simp
  let ?s1 = "net_packet_store s q m'"
  have s1: "socket_inv owned ?s1" "sk_refs ?s1 = sk_refs s" "sk_tasks ?s1 = sk_tasks s" "sk_others ?s1 = sk_others s"
    using socket.put_law [OF r(2) assms(3,4) wf'] by simp_all
  obtain s2 where s2: "net_packet_retain ?s1 q = Some s2" "socket_inv (owned(q := owned q + 1)) s2"
      "refs_updated ?s1 s2 q (sk_refs ?s1 q + 1)"
    using net_packet_retain_inv [OF s1(1) assms(3)] assms(8) s1(2) by auto
  then have s2': "sk_refs s2 = (sk_refs s)(q := sk_refs s q + 1)" "sk_tasks s2 = sk_tasks s" "sk_mem s2 = (sk_mem s)(q \<mapsto> m')"
      "sk_others s2 = sk_others s"
    using s1 by (auto simp: refs_updated_def sk_others_def sk_queued_def sk_receivers_def)
  obtain s3 where s3: "net_packet_release s2 q = Some s3" "socket_inv owned s3" "sk_refs s3 = sk_refs s" "sk_tasks s3 = sk_tasks s2"
      "sk_others s3 = sk_others s2" "sk_mem s3 = sk_mem s2"
    using socket.release_law [OF s2(2), of q] s2'(1) by (auto simp: fun_upd_idem)
  have "transactionSocketReceiveCallback config q = Some (config\<lparr>tc_socket := Some s3,
      tc_tasks := tc_tasks config @ [if ty = TransactionTypeResponse then ResponseTask q i else RequestTask q i]\<rparr>)"
    using assms(2,4,7) r(1) hdr s2(1) s3(1)
    by (auto simp: transactionSocketReceiveCallback_def on_packet_def on_socket_def transactionDidReceiveResponse_def
        transactionDidReceiveRequest_def dispatch_task_def m'_def)
  with s3 s2' wf' show ?thesis
    by (intro exI [of _ s3]) simp
qed

text \<open>A received request: the acknowledgement goes out and the receiver gets the object.\<close>

lemma run_request_step:
  assumes "trans_ready owned s ht config" "0 < owned q" "sk_mem s q = Some m" "bs_at (pkt_bitstream m) (enc_request LittleEndian ob)"
    "request_ok 3 ob" "0 < sk_free s" "te_object env" "te_endian env = LittleEndian" "tc_receiveCallback config \<noteq> NULL"
  shows "\<exists>s' ob' rp rm. run_request env config q i = Some (config\<lparr>tc_socket := Some s',
      tc_log := tc_log config @ [Received (tc_context config) (pkt_addr m) ob']\<rparr>) \<and> object_view ob' = object_view ob \<and>
    socket_inv (owned(q := owned q - 1)) s' \<and> sk_refs s rp = 0 \<and> sk_mem s' rp = Some rm \<and>
    datagram rm = (pkt_addr m, enc_transaction_header i TransactionTypeResponse @ enc_uint8 TransactionResponseTypeSuccess) \<and>
    sk_tasks s' = sk_tasks s @ [rp] \<and> sk_refs s' = (sk_refs s)(q := sk_refs s q - 1, rp := 1) \<and> sk_others s' = sk_others s"
proof -
  have r: "tc_socket config = Some s" "socket_inv owned s"
    using assms(1) by (simp_all add: trans_ready_def)
  obtain rp s0 where rp: "net_packet_alloc s = Some (rp, s0)" "rp \<noteq> NULL" "sk_refs s rp = 0"
    by (rule alloc_free [OF r(2) assms(6)])
  obtain s1 rm where s1: "transactionResponse config (pkt_addr m) i 2 = Some (config\<lparr>tc_socket := Some s1\<rparr>)"
      "trans_ready owned s1 ht (config\<lparr>tc_socket := Some s1\<rparr>)" "owned rp = 0" "sk_mem s1 = (sk_mem s)(rp \<mapsto> rm)"
      "datagram rm = (pkt_addr m, enc_transaction_header i TransactionTypeResponse @ enc_uint8 2)"
      "sk_tasks s1 = sk_tasks s @ [rp]" "sk_refs s1 = (sk_refs s)(rp := 1)" "sk_others s1 = sk_others s"
    using transactionResponse_step [OF assms(1) rp(1,2), of "pkt_addr m" i 2] by blast
  have ne: "rp \<noteq> q"
    using s1(3) assms(2) by auto
  then have mq: "sk_mem s1 q = Some m"
    using s1(4) assms(3) by simp
  have inv1: "socket_inv owned s1"
    using s1(2) by (simp add: trans_ready_def)
  have "0 < sk_refs s1 q"
    using assms(2) socket_inv_owned [OF inv1, of q] by simp
  from socket_inv_mem [OF inv1 this] mq have wf: "pkt_wf m"
    by auto
  obtain ob' where ob': "transactionProtocolUnpackRequest LittleEndian 256 (pkt_bitstream m) =
      Some (UnpackValid, ob', bs_adv (pkt_bitstream m) (length (enc_request LittleEndian ob)))" "object_view ob' = object_view ob"
    using unpack_request_at [OF pkt_wf_bs_wf [OF wf] assms(4,5), of 256] by auto
  let ?m = "m\<lparr>pkt_bitstream := bs_adv (pkt_bitstream m) (length (enc_request LittleEndian ob))\<rparr>"
  have "pkt_wf ?m"
    using wf bs_at_room [OF assms(4)] by (simp add: pkt_wf_def pkt_block_def bs_adv_def bs_room_def)
  from socket.put_law [OF inv1 assms(2) mq this] have s2: "socket_inv owned (net_packet_store s1 q ?m)"
      "sk_refs (net_packet_store s1 q ?m) = sk_refs s1" "sk_tasks (net_packet_store s1 q ?m) = sk_tasks s1"
      "sk_others (net_packet_store s1 q ?m) = sk_others s1"
    by simp_all
  obtain s3 where s3: "net_packet_release (net_packet_store s1 q ?m) q = Some s3" "socket_inv (owned(q := owned q - 1)) s3"
      "sk_refs s3 = (sk_refs s1)(q := sk_refs s1 q - 1)" "sk_tasks s3 = sk_tasks s1" "sk_others s3 = sk_others s1"
      "sk_mem s3 = (sk_mem s1)(q \<mapsto> ?m)"
    using socket.release_law [OF s2(1) assms(2)] s2 by auto
  have "run_request env config q i = Some (config\<lparr>tc_socket := Some s3,
      tc_log := tc_log config @ [Received (tc_context config) (pkt_addr m) ob']\<rparr>)"
    using r(1) assms(3,7-9) s1(1) mq ob'(1) s3(1)
    by (simp add: run_request_def on_packet_def on_socket_def Let_def)
  moreover have "sk_refs s3 = (sk_refs s)(q := sk_refs s q - 1, rp := 1)"
    using s3(3) s1(7) ne by (simp add: fun_eq_iff)
  ultimately show ?thesis
    using s1 s3 rp(3) ne ob'(2) by (intro exI [of _ s3] exI [of _ ob'] exI [of _ rp] exI [of _ rm]) simp
qed

lemma unpack_response_at:
  assumes "bs_wf b" "bs_at b (enc_uint8 ty)" "unat ty < 256"
  shows "transactionProtocolUnpackResponse b = Some (UnpackValid, ty, bs_adv b 1)"
  using uint8.get_ahead [OF assms(1,2)] assms(3) by (simp add: transactionProtocolUnpackResponse_def)

text \<open>
  The exchange of a request between two endpoints over a network that loses nothing: each socket
  is flushed and its last datagram is given to the other side.
\<close>

definition flush_config :: "TransactionConfiguration \<Rightarrow> ((net_addr_t \<times> u8 list) \<times> TransactionConfiguration) option" where
  "flush_config config = do {
     s \<leftarrow> tc_socket config;
     s \<leftarrow> socket_flush fresh_node s;
     if sk_wire s = [] then None else Some (last (sk_wire s), config\<lparr>tc_socket := Some s\<rparr>)
   }"

definition exchange ::
    "transaction_env \<Rightarrow> transaction_env \<Rightarrow> net_addr_t \<Rightarrow> net_addr_t \<Rightarrow> TransactionConfiguration \<Rightarrow> TransactionConfiguration \<Rightarrow>
     TransactionObject \<Rightarrow> (net_addr_t \<times> net_addr_t \<times> TransactionConfiguration \<times> TransactionConfiguration) option" where
  "exchange envA envB addrA addrB A B ob = do {
     A \<leftarrow> transactionRequest envA A addrB ob;
     A \<leftarrow> run_transaction_task envA A;
     ((to, bytes), A) \<leftarrow> flush_config A;
     B \<leftarrow> datagram_in addrA bytes B;
     B \<leftarrow> run_transaction_task envB B;
     ((back_to, answer), B) \<leftarrow> flush_config B;
     A \<leftarrow> datagram_in addrB answer A;
     A \<leftarrow> run_transaction_task envA A;
     Some (to, back_to, A, B)
   }"

text \<open>An idle endpoint with two packets to spare.\<close>

definition endpoint :: "(ptr \<Rightarrow> nat) \<Rightarrow> net_socket_s \<Rightarrow> ptr hashtable_s \<Rightarrow> TransactionConfiguration \<Rightarrow> bool" where
  "endpoint owned s ht config \<longleftrightarrow> trans_ready owned s ht config \<and> tc_isEnabled config \<and> tc_tasks config = [] \<and>
     sk_queued s = [] \<and> sk_tasks s = [] \<and> sk_deliveries s = [] \<and>
     (\<exists>ctx. sk_receivers s = (NULL, transaction_receive_fn, ctx)) \<and> 2 \<le> sk_free s"

lemma flush_config_one:
  assumes "trans_ready owned s ht config" "sk_queued s = []" "sk_tasks s = [p]" "sk_mem s p = Some m"
  shows "\<exists>s'. flush_config config = Some (datagram m, config\<lparr>tc_socket := Some s'\<rparr>) \<and> socket_inv owned s' \<and>
    sk_queued s' = [] \<and> sk_tasks s' = [] \<and> sk_refs s' = (sk_refs s)(p := sk_refs s p - 1) \<and> sk_mem s' = sk_mem s \<and>
    sk_deliveries s' = sk_deliveries s \<and> sk_receivers s' = sk_receivers s \<and> sk_objects s' = sk_objects s"
proof -
  have r: "tc_socket config = Some s" "socket_inv owned s"
    using assms(1) by (simp_all add: trans_ready_def)
  obtain s' where "socket_flush fresh_node s = Some s'" "socket_inv owned s'" "sk_queued s' = []" "sk_tasks s' = []"
      "sk_wire s' = sk_wire s @ [datagram m]" "sk_refs s' = (\<lambda>a. sk_refs s a - count_list [p] a)" "sk_mem s' = sk_mem s"
      "sk_deliveries s' = sk_deliveries s" "sk_receivers s' = sk_receivers s" "sk_objects s' = sk_objects s"
    using socket_flush_inv [OF r(2)] assms(2-4) by (auto simp del: count_list.simps)
  then show ?thesis
    using r(1) by (intro exI [of _ s']) (auto simp: flush_config_def fun_eq_iff)
qed

lemma exchange_sends:
  assumes "endpoint owned s ht config" "te_calloc env \<noteq> NULL" "te_source env \<noteq> NULL" "te_endian env = LittleEndian"
    and "request_ok 3 ob"
  defines "i \<equiv> ucast (tc_cseq config)"
  shows "\<exists>p config' s' ht'. do { A \<leftarrow> transactionRequest env config addr ob; A \<leftarrow> run_transaction_task env A; flush_config A } =
      Some ((addr, enc_transaction_header i TransactionTypeRequest @ enc_request LittleEndian ob), config') \<and>
    trans_ready (owned(p := 1)) s' ht' config' \<and> ht_map ht' = (ht_map ht)(i \<mapsto> te_calloc env) \<and>
    tc_heap config' = (tc_heap config)(te_calloc env \<mapsto> waiting i p 0 (te_source env) True (te_block env)) \<and>
    tc_isEnabled config' \<and> tc_tasks config' = [] \<and> tc_log config' = tc_log config \<and>
    tc_errorCallback config' = tc_errorCallback config \<and>
    owned p = 0 \<and> sk_refs s p = 0 \<and> sk_queued s' = [] \<and> sk_tasks s' = [] \<and> sk_refs s' = (sk_refs s)(p := 1) \<and> sk_deliveries s' = [] \<and>
    sk_receivers s' = sk_receivers s \<and> 0 < sk_free s'"
proof -
  note ep = assms(1) [unfolded endpoint_def]
  have inv: "socket_inv owned s"
    using ep by (simp add: trans_ready_def)
  obtain p s1 where p: "net_packet_alloc s = Some (p, s1)" "p \<noteq> NULL" "sk_refs s p = 0" "p \<in> sk_objects s"
    using alloc_free [OF inv] ep by auto
  have few: "unat (pl_count x) \<le> 4" if "ob = ObjectPeerList x" for x
    using assms(5) that by simp
  have ready: "trans_ready owned s ht config" "tc_tasks config = []"
    using ep by simp_all
  obtain c2 s2 h m where c2: "do { config \<leftarrow> transactionRequest env config addr ob; run_transaction_task env config } = Some c2"
      "request_pending (owned(p := 1)) s2 h c2 i (te_calloc env) p (waiting i p 0 (te_source env) True (te_block env)) m"
      "c2 = config\<lparr>tc_tasks := [], tc_cseq := (tc_cseq config + 1) mod 0xFF, tc_transactions := Some h,
        tc_socket := Some s2, tc_heap := (tc_heap config)(te_calloc env \<mapsto> waiting i p 0 (te_source env) True (te_block env)),
        tc_calls := tc_calls config @ arm_calls (te_source env) (te_block env) 1000\<rparr>"
      "ht_map h = (ht_map ht)(i \<mapsto> te_calloc env)" "sk_mem s2 = (sk_mem s)(p \<mapsto> m)"
      "datagram m = (addr, enc_transaction_header i TransactionTypeRequest @ enc_request (te_endian env) ob)"
      "sk_tasks s2 = sk_tasks s @ [p]" "sk_refs s2 = (sk_refs s)(p := 2)" "sk_others s2 = sk_others s"
    using request_enters [OF ready(1) p(1,2) ready(2) assms(2,3,5) few, of addr] unfolding i_def by blast
  have ready2: "trans_ready (owned(p := 1)) s2 h c2"
    using c2(2) by (simp add: request_pending_def)
  have fl: "sk_queued s2 = []" "sk_tasks s2 = [p]" "sk_mem s2 p = Some m"
    using c2(5,7,9) ep by (simp_all add: sk_others_def)
  obtain s3 where s3: "flush_config c2 = Some (datagram m, c2\<lparr>tc_socket := Some s3\<rparr>)" "socket_inv (owned(p := 1)) s3"
      "sk_queued s3 = []" "sk_tasks s3 = []" "sk_refs s3 = (sk_refs s2)(p := sk_refs s2 p - 1)"
      "sk_deliveries s3 = sk_deliveries s2" "sk_receivers s3 = sk_receivers s2" "sk_objects s3 = sk_objects s2"
    using flush_config_one [OF ready2 fl] by blast
  have refs3: "sk_refs s3 = (sk_refs s)(p := 1)"
    using s3(5) c2(8) by simp
  have "sk_objects s3 = sk_objects s"
    using s3(8) c2(9) by (simp add: sk_others_def)
  then have "sk_free s3 = sk_free s - 1"
    using sk_free_upd [OF finite_objects [OF inv], of s3 p 0] refs3 p(3,4) by simp
  moreover have "owned p = 0"
    using inv p(3) by (simp add: socket_inv_def)
  ultimately show ?thesis
    using c2 s3 refs3 p(3) ep assms(4) ready2
    by (intro exI [of _ p] exI [of _ "c2\<lparr>tc_socket := Some s3\<rparr>"] exI [of _ s3] exI [of _ h])
      (auto simp: trans_ready_def sk_others_def Option.bind_eq_Some_conv)
qed

lemma exchange_answers:
  assumes "endpoint owned s ht config" "te_object env" "te_endian env = LittleEndian" "tc_receiveCallback config \<noteq> NULL"
    and "request_ok 3 ob" "unat i < 256"
  shows "\<exists>config' s' ob'. do {
      B \<leftarrow> datagram_in from (enc_transaction_header i TransactionTypeRequest @ enc_request LittleEndian ob) config;
      B \<leftarrow> run_transaction_task env B; flush_config B } =
        Some ((from, enc_transaction_header i TransactionTypeResponse @ enc_uint8 TransactionResponseTypeSuccess), config') \<and>
    tc_socket config' = Some s' \<and> socket_inv owned s' \<and> sk_refs s' = sk_refs s \<and> sk_queued s' = [] \<and> sk_tasks s' = [] \<and>
    sk_deliveries s' = [] \<and> tc_log config' = tc_log config @ [Received (tc_context config) from ob'] \<and>
    object_view ob' = object_view ob \<and> tc_transactions config' = Some ht \<and> tc_heap config' = tc_heap config \<and> tc_tasks config' = []"
proof -
  let ?bytes = "enc_transaction_header i TransactionTypeRequest @ enc_request LittleEndian ob"
  note ep = assms(1) [unfolded endpoint_def]
  obtain ctx where ctx: "sk_receivers s = (0, 1, ctx)"
    using ep by blast
  have r: "trans_ready owned s ht config" "socket_inv owned s" "0 < sk_free s" "sk_deliveries s = []" "tc_tasks config = []"
    using ep by (simp_all add: trans_ready_def)
  have "unat (pl_count x) \<le> 4" if "ob = ObjectPeerList x" for x
    using assms(5) that by simp
  then have len: "0 < length ?bytes" "length ?bytes \<le> 256"
    using enc_request_length [OF assms(5), of LittleEndian] by (simp_all add: enc_transaction_header_def)
  obtain q s1 m where q: "datagram_in from ?bytes config = transactionSocketReceiveCallback (config\<lparr>tc_socket := Some s1\<rparr>) q"
      "trans_ready (owned(q := 1)) s1 ht (config\<lparr>tc_socket := Some s1\<rparr>)" "owned q = 0" "sk_refs s q = 0" "q \<in> sk_objects s"
      "sk_mem s1 q = Some m" "pkt_wf m" "bs_at (pkt_bitstream m) ?bytes" "pkt_addr m = from"
      "sk_tasks s1 = sk_tasks s" "sk_refs s1 = (sk_refs s)(q := 1)" "sk_others s1 = sk_others s"
    using datagram_in_delivers [OF r(1,3,4) ctx len, of "from"] by blast
  have at: "bs_at (pkt_bitstream m) (enc_transaction_header i TransactionTypeRequest)"
      "bs_at (bs_adv (pkt_bitstream m) 5) (enc_request LittleEndian ob)"
    using q(8) by (simp_all add: bs_at_append)
  let ?m = "m\<lparr>pkt_bitstream := bs_adv (pkt_bitstream m) 5\<rparr>"
  obtain s2 where s2: "transactionSocketReceiveCallback (config\<lparr>tc_socket := Some s1\<rparr>) q =
        Some (config\<lparr>tc_socket := Some s2, tc_tasks := [RequestTask q i]\<rparr>)"
      "socket_inv (owned(q := 1)) s2" "sk_mem s2 = (sk_mem s1)(q \<mapsto> ?m)" "sk_tasks s2 = sk_tasks s1" "sk_refs s2 = sk_refs s1"
      "sk_others s2 = sk_others s1"
    using receive_callback_step [OF q(2) _ _ q(6) at(1) assms(6)] ep q(11) r(5) by auto
  let ?c = "config\<lparr>tc_socket := Some s2, tc_tasks := []\<rparr>"
  have ready2: "trans_ready (owned(q := 1)) s2 ht ?c"
    using s2(2) r(1) by (simp add: trans_ready_def)
  have mq: "sk_mem s2 q = Some ?m" and at2: "bs_at (pkt_bitstream ?m) (enc_request LittleEndian ob)"
    using s2(3) at(2) by simp_all
  have "sk_objects s2 = sk_objects s"
    using s2(6) q(12) by (simp add: sk_others_def)
  then have free2: "0 < sk_free s2"
    using sk_free_upd [OF finite_objects [OF r(2)], of s2 q 0] s2(5) q(4,5,11) ep by simp
  obtain s3 ob' rp rm where s3: "run_request env ?c q i = Some (?c\<lparr>tc_socket := Some s3,
        tc_log := tc_log config @ [Received (tc_context config) from ob']\<rparr>)" "object_view ob' = object_view ob"
      "socket_inv ((owned(q := 1))(q := 0)) s3" "sk_refs s2 rp = 0" "sk_mem s3 rp = Some rm"
      "datagram rm = (from, enc_transaction_header i TransactionTypeResponse @ enc_uint8 2)"
      "sk_tasks s3 = sk_tasks s2 @ [rp]" "sk_refs s3 = (sk_refs s2)(q := sk_refs s2 q - 1, rp := 1)" "sk_others s3 = sk_others s2"
    using run_request_step [OF ready2 _ mq at2 assms(5) free2 assms(2,3), of i] assms(4) q(9) by auto
  let ?d = "?c\<lparr>tc_socket := Some s3, tc_log := tc_log config @ [Received (tc_context config) from ob']\<rparr>"
  have same: "(owned(q := 1))(q := 0) = owned"
    using q(3) by (simp add: fun_upd_idem)
  have ready3: "trans_ready owned s3 ht ?d"
    using s3(3) r(1) unfolding same by (simp add: trans_ready_def)
  have fl: "sk_queued s3 = []" "sk_tasks s3 = [rp]"
    using s3(7,9) s2(4,6) q(10,12) ep by (simp_all add: sk_others_def)
  obtain s4 where s4: "flush_config ?d = Some (datagram rm, ?d\<lparr>tc_socket := Some s4\<rparr>)" "socket_inv owned s4"
      "sk_queued s4 = []" "sk_tasks s4 = []" "sk_refs s4 = (sk_refs s3)(rp := sk_refs s3 rp - 1)"
      "sk_deliveries s4 = sk_deliveries s3"
    using flush_config_one [OF ready3 fl s3(5)] by blast
  have "rp \<noteq> q"
    using s3(4) s2(5) q(11) by auto
  then have "sk_refs s4 = sk_refs s"
    using s4(5) s3(4,8) s2(5) q(4,11) by (auto simp: fun_eq_iff)
  moreover have "sk_deliveries s4 = []"
    using s4(6) s3(9) s2(6) q(12) ep by (simp add: sk_others_def)
  moreover have "run_transaction_task env (config\<lparr>tc_socket := Some s2, tc_tasks := [RequestTask q i]\<rparr>) = Some ?d"
    using s3(1) by (simp add: run_transaction_task_def)
  ultimately show ?thesis
    using q(1) s2(1) s3(2,6) s4 ready3
    by (intro exI [of _ "?d\<lparr>tc_socket := Some s4\<rparr>"] exI [of _ s4] exI [of _ ob']) (simp add: trans_ready_def)
qed

lemma exchange_completes:
  assumes "trans_ready owned s ht config" "ht_map ht i = Some tr" "tr \<noteq> NULL" "tc_heap config tr = Some (waiting i p k src True block)"
    and "0 < owned p" "tc_isEnabled config" "tc_tasks config = []" "unat i < 256" "unat ty < 256"
    and "0 < sk_free s" "sk_deliveries s = []" "sk_receivers s = (NULL, transaction_receive_fn, ctx)"
  shows "\<exists>config' s' ht' m. do {
      A \<leftarrow> datagram_in from (enc_transaction_header i TransactionTypeResponse @ enc_uint8 ty) config;
      run_transaction_task env A } = Some config' \<and>
    trans_ready (owned(p := owned p - 1)) s' ht' config' \<and> ht_map ht' = (ht_map ht)(i := None) \<and>
    tc_heap config' = (tc_heap config)(tr := None) \<and> tc_calls config' = tc_calls config @ [SourceCancel src, SourceRelease src] \<and>
    tc_log config' = tc_log config @ response_log config ty m \<and> sk_mem s p = Some m \<and> tc_tasks config' = [] \<and>
    sk_refs s' = (sk_refs s)(p := sk_refs s p - 1) \<and> sk_tasks s' = sk_tasks s \<and> sk_others s' = sk_others s"
proof -
  let ?bytes = "enc_transaction_header i TransactionTypeResponse @ enc_uint8 ty"
  have inv: "socket_inv owned s"
    using assms(1) by (simp add: trans_ready_def)
  have len: "0 < length ?bytes" "length ?bytes \<le> 256"
    by (simp_all add: enc_transaction_header_def)
  obtain q s1 m where q: "datagram_in from ?bytes config = transactionSocketReceiveCallback (config\<lparr>tc_socket := Some s1\<rparr>) q"
      "trans_ready (owned(q := 1)) s1 ht (config\<lparr>tc_socket := Some s1\<rparr>)" "owned q = 0" "sk_refs s q = 0"
      "sk_mem s1 q = Some m" "pkt_wf m" "bs_at (pkt_bitstream m) ?bytes"
      "sk_tasks s1 = sk_tasks s" "sk_refs s1 = (sk_refs s)(q := 1)" "sk_others s1 = sk_others s" "\<forall>a. a \<noteq> q \<longrightarrow> sk_mem s1 a = sk_mem s a"
    using datagram_in_delivers [OF assms(1,10,11,12) len, of "from"] by blast
  have at: "bs_at (pkt_bitstream m) (enc_transaction_header i TransactionTypeResponse)" "bs_at (bs_adv (pkt_bitstream m) 5) (enc_uint8 ty)"
    using q(7) by (simp_all add: bs_at_append)
  let ?m = "m\<lparr>pkt_bitstream := bs_adv (pkt_bitstream m) 5\<rparr>"
  obtain s2 where s2: "transactionSocketReceiveCallback (config\<lparr>tc_socket := Some s1\<rparr>) q =
        Some (config\<lparr>tc_socket := Some s2, tc_tasks := [ResponseTask q i]\<rparr>)"
      "socket_inv (owned(q := 1)) s2" "sk_mem s2 = (sk_mem s1)(q \<mapsto> ?m)" "pkt_wf ?m" "sk_tasks s2 = sk_tasks s1" "sk_refs s2 = sk_refs s1"
      "sk_others s2 = sk_others s1"
    using receive_callback_step [OF q(2) _ _ q(5) at(1) assms(8)] assms(6,7) q(9) by auto
  let ?c = "config\<lparr>tc_socket := Some s2, tc_tasks := []\<rparr>"
  have ready2: "trans_ready (owned(q := 1)) s2 ht ?c"
    using s2(2) assms(1) by (simp add: trans_ready_def)
  have ne: "p \<noteq> q"
    using assms(5) q(3) by auto
  have "0 < sk_refs s2 p"
    using assms(5) socket_inv_owned [OF s2(2), of p] ne by simp
  then obtain pm where pm: "sk_mem s2 p = Some pm"
    by (rule socket_inv_mem [OF s2(2)])
  have wfb: "bs_wf (pkt_bitstream ?m)" and at2: "bs_at (pkt_bitstream ?m) (enc_uint8 ty)"
    using pkt_wf_bs_wf [OF s2(4)] at(2) by simp_all
  let ?b = "bs_adv (pkt_bitstream ?m) 1"
  have un: "transactionProtocolUnpackResponse (pkt_bitstream ?m) = Some (UnpackValid, ty, ?b)"
    using unpack_response_at [OF wfb at2 assms(9)] .
  have wf3: "pkt_wf (?m\<lparr>pkt_bitstream := ?b\<rparr>)"
    using s2(4) bs_at_room [OF at2] by (simp add: pkt_wf_def pkt_block_def bs_adv_def bs_room_def)
  have mq: "sk_mem s2 q = Some ?m"
    using s2(3) by simp
  obtain s3 ht' where s3: "run_response ?c q i = Some (?c\<lparr>tc_socket := Some s3, tc_transactions := Some ht',
        tc_heap := (tc_heap config)(tr := None), tc_calls := tc_calls config @ destroy_calls src True,
        tc_log := tc_log config @ response_log ?c ty pm\<rparr>)"
      "socket_inv ((owned(q := 1))(p := owned p - 1, q := 0)) s3" "ht_wf ht'" "ht_max_key ht' = 255" "ht_map ht' = (ht_map ht)(i := None)"
      "sk_tasks s3 = sk_tasks s2" "sk_refs s3 = (sk_refs s2)(p := sk_refs s2 p - 1, q := sk_refs s2 q - 1)" "sk_others s3 = sk_others s2"
    using run_response_known [OF ready2 assms(2,3) _ _ _ ne pm mq un wf3, of k src True block] assms(4,5) ne by auto
  have own: "(owned(q := 1))(p := owned p - 1, q := 0) = owned(p := owned p - 1)"
    using ne q(3) by (auto simp: fun_eq_iff)
  have refs: "sk_refs s3 = (sk_refs s)(p := sk_refs s p - 1)"
    using s3(7) s2(6) q(4,9) ne by (auto simp: fun_eq_iff)
  have "sk_mem s p = Some pm"
    using pm s2(3) ne q(11) by simp
  moreover have "response_log ?c ty pm = response_log config ty pm"
    by (simp add: response_log_def)
  moreover have "run_transaction_task env (config\<lparr>tc_socket := Some s2, tc_tasks := [ResponseTask q i]\<rparr>) = run_response ?c q i"
    by (simp add: run_transaction_task_def)
  ultimately show ?thesis
    using q(1,8,10) s2(1,5,7) s3(1-6,8) refs unfolding own
    by (intro exI [of _ "?c\<lparr>tc_socket := Some s3, tc_transactions := Some ht', tc_heap := (tc_heap config)(tr := None),
      tc_calls := tc_calls config @ destroy_calls src True, tc_log := tc_log config @ response_log ?c ty pm\<rparr>"]
      exI [of _ s3] exI [of _ ht'] exI [of _ pm]) (simp add: trans_ready_def destroy_calls_def)
qed

section \<open>Properties\<close>

text \<open>
  (C3) A request that is never answered is given up. Its packet is sent three times in all, with
  timers of 1, 2 and 4 seconds, each of which is released once; the third expiry calls the error
  callback, once and with the address of the request, deletes the entry of the table, frees the
  transaction and releases its reference to the packet, so that only the three sends that the
  socket has accepted hold it.
\<close>

theorem transaction_gives_up:
  assumes "trans_ready owned s ht config" "net_packet_alloc s = Some (p, s1)" "p \<noteq> NULL" "tc_tasks config = []"
    and "tc_errorCallback config \<noteq> NULL" "te_calloc env \<noteq> NULL"
    and "te_source env \<noteq> NULL" "te_source env1 \<noteq> NULL" "te_source env2 \<noteq> NULL"
    and "request_ok n ob" "\<And>x. ob = ObjectPeerList x \<Longrightarrow> unat (pl_count x) \<le> 4"
  shows "\<exists>config' s' ht'. do {
      config \<leftarrow> transactionRequest env config addr ob;
      config \<leftarrow> run_transaction_task env config;
      config \<leftarrow> timer_expiry env1 config (te_calloc env);
      config \<leftarrow> timer_expiry env2 config (te_calloc env);
      timer_expiry env3 config (te_calloc env) } = Some config' \<and>
    trans_ready owned s' ht' config' \<and> ht_map ht' = (ht_map ht)(ucast (tc_cseq config) := None) \<and>
    tc_heap config' (te_calloc env) = None \<and> tc_tasks config' = [] \<and>
    tc_log config' = tc_log config @ [Failed (tc_context config) addr] \<and>
    sk_tasks s' = sk_tasks s @ [p, p, p] \<and> sk_refs s' p = 3 \<and>
    tc_calls config' = tc_calls config @
      arm_calls (te_source env) (te_block env) 1000 @ [SourceRelease (te_source env)] @
      arm_calls (te_source env1) (te_block env) 2000 @ [SourceRelease (te_source env1)] @
      arm_calls (te_source env2) (te_block env) 4000 @ [SourceRelease (te_source env2)]"
proof -
  let ?i = "ucast (tc_cseq config) :: u32" and ?tr = "te_calloc env" and ?b = "te_block env" and ?o = "owned(p := 1)"
  have zero: "owned p = 0"
    using transactionRequest_step [OF assms(1,2,3,6,7,10,11)] by blast
  obtain c1 s1 h m where req: "do { config \<leftarrow> transactionRequest env config addr ob; run_transaction_task env config } = Some c1"
    and c1: "request_pending ?o s1 h c1 ?i ?tr p (waiting ?i p 0 (te_source env) True ?b) m"
      "c1 = config\<lparr>tc_tasks := [], tc_cseq := (tc_cseq config + 1) mod 0xFF, tc_transactions := Some h,
        tc_socket := Some s1, tc_heap := (tc_heap config)(?tr \<mapsto> waiting ?i p 0 (te_source env) True ?b),
        tc_calls := tc_calls config @ arm_calls (te_source env) ?b 1000\<rparr>"
      "ht_map h = (ht_map ht)(?i \<mapsto> ?tr)" "pkt_addr m = addr" "sk_tasks s1 = sk_tasks s @ [p]" "sk_refs s1 = (sk_refs s)(p := 2)"
    using request_enters [OF assms(1-4,6,7,10,11), of addr] by blast
  obtain c2 s2 where c2: "timer_expiry env1 c1 ?tr = Some c2"
      "request_pending ?o s2 h c2 ?i ?tr p (waiting ?i p 1 (te_source env1) True ?b) m"
      "tc_calls c2 = tc_calls c1 @ [SourceRelease (te_source env)] @ arm_calls (te_source env1) ?b 2000"
      "tc_log c2 = tc_log c1" "tc_errorCallback c2 = tc_errorCallback c1" "tc_context c2 = tc_context c1"
      "sk_tasks s2 = sk_tasks s1 @ [p]" "sk_refs s2 p = 3"
    using expiry_resends [OF c1(1) _ _ assms(8)] c1(6) by auto
  obtain c3 s3 where c3: "timer_expiry env2 c2 ?tr = Some c3"
      "request_pending ?o s3 h c3 ?i ?tr p (waiting ?i p 2 (te_source env2) True ?b) m"
      "tc_calls c3 = tc_calls c2 @ [SourceRelease (te_source env1)] @ arm_calls (te_source env2) ?b 4000"
      "tc_log c3 = tc_log c2" "tc_errorCallback c3 = tc_errorCallback c2" "tc_context c3 = tc_context c2"
      "sk_tasks s3 = sk_tasks s2 @ [p]" "sk_refs s3 p = 4"
    using expiry_resends [OF c2(2) _ _ assms(9)] c2(8) by auto
  have "tc_errorCallback c3 \<noteq> NULL"
    using assms(5) c1(2) c2(5) c3(5) by simp
  from expiry_fails [OF c3(2) _ this, of env3] obtain c4 s4 h4 where c4: "timer_expiry env3 c3 ?tr = Some c4"
      "trans_ready (?o(p := 0)) s4 h4 c4" "ht_map h4 = (ht_map h)(?i := None)" "tc_heap c4 ?tr = None" "tc_tasks c4 = []"
      "tc_calls c4 = tc_calls c3 @ [SourceRelease (te_source env2)]"
      "tc_log c4 = tc_log c3 @ [Failed (tc_context c3) (pkt_addr m)]" "sk_tasks s4 = sk_tasks s3" "sk_refs s4 p = 3"
    using c3(8) by auto
  have "do { config \<leftarrow> transactionRequest env config addr ob; config \<leftarrow> run_transaction_task env config;
      config \<leftarrow> timer_expiry env1 config ?tr; config \<leftarrow> timer_expiry env2 config ?tr; timer_expiry env3 config ?tr } = Some c4"
    using req c2(1) c3(1) c4(1) by (cases "transactionRequest env config addr ob") simp_all
  moreover have "?o(p := 0) = owned"
    using zero by (simp add: fun_upd_idem)
  ultimately show ?thesis
    using c1 c2 c3 c4 by (intro exI [of _ c4] exI [of _ s4] exI [of _ h4]) simp
qed

text \<open>A configuration for the examples.\<close>

definition sample_config :: TransactionConfiguration where
  "sample_config = \<lparr>tc_tasks = [], tc_transactions = hashtable_create True True kTransactionMaxId, tc_cseq = 7,
     tc_socket = Some sample_socket, tc_isEnabled = True, tc_receiveCallback = 3, tc_errorCallback = 4, tc_context = 5,
     tc_heap = Map.empty, tc_calls = [], tc_log = []\<rparr>"

definition sample_env :: transaction_env where
  "sample_env = \<lparr>te_endian = LittleEndian, te_calloc = 100, te_block = 200, te_source = 300, te_object = True\<rparr>"

lemma sample_config_ready:
  obtains ht where "trans_ready (\<lambda>_. 0) sample_socket ht sample_config" "ht_map ht = Map.empty"
proof -
  obtain ht :: "ptr hashtable_s" where ht: "hashtable_create True True 255 = Some ht"
    by (simp add: hashtable_create_def)
  then have "ht_wf ht" "ht_map ht = Map.empty" "ht_max_key ht = 255"
    using hashtable_create_wf [OF _ ht] by (auto simp: hashtable_create_def)
  with ht that create_inv(1) [OF sample_socket_created] show thesis
    by (simp add: trans_ready_def sample_config_def)
qed

lemma sample_socket_alloc:
  obtains p s1 where "net_packet_alloc sample_socket = Some (p, s1)" "p \<noteq> NULL"
  by (rule alloc_free [OF create_inv(1) [OF sample_socket_created]])
    (use create_free [OF sample_socket_created] in \<open>auto simp del: neq0_conv\<close>)

abbreviation (input) sample_object :: TransactionObject where
  "sample_object \<equiv> ObjectOffline \<lparr>off_peerId = 104 # 105 # replicate 30 0\<rparr>"

theorem transaction_gives_up_witness:
  "\<exists>config' s' p. do {
      config \<leftarrow> transactionRequest sample_env sample_config sockaddr_zero sample_object;
      config \<leftarrow> run_transaction_task sample_env config;
      config \<leftarrow> timer_expiry (sample_env\<lparr>te_source := 301\<rparr>) config 100;
      config \<leftarrow> timer_expiry (sample_env\<lparr>te_source := 302\<rparr>) config 100;
      timer_expiry sample_env config 100 } = Some config' \<and>
    tc_log config' = [Failed 5 sockaddr_zero] \<and> tc_socket config' = Some s' \<and> sk_tasks s' = [p, p, p]"
proof -
  obtain ht where ready: "trans_ready (\<lambda>_. 0) sample_socket ht sample_config"
    by (rule sample_config_ready)
  obtain p s1 where p: "net_packet_alloc sample_socket = Some (p, s1)" "p \<noteq> NULL"
    by (rule sample_socket_alloc)
  have tasks: "sk_tasks sample_socket = []"
    using create_fields [OF sample_socket_created(1)] by simp
  have "request_ok 3 sample_object"
    by (simp add: str_ok_def)
  from transaction_gives_up [OF ready p _ _ _ _ _ _ this, of sample_env "sample_env\<lparr>te_source := 301\<rparr>"
      "sample_env\<lparr>te_source := 302\<rparr>" sockaddr_zero sample_env] tasks
  show ?thesis
    by (auto simp: sample_config_def sample_env_def trans_ready_def)
qed

text \<open>
  (C1) A request reaches its receiver and is acknowledged. Between two idle endpoints with two
  packets to spare each, over a network that loses nothing, the receive callback of the other side
  is called once, with the sender's address and an object with the same contents; the
  acknowledgement goes back to the sender and ends the transaction there without a call of the
  error callback, with its entry deleted and its memory freed; and in the end both sockets have
  given back every reference.
\<close>

theorem transaction_exchange:
  assumes "endpoint ownedA sA htA A" "endpoint ownedB sB htB B" "request_ok 3 ob" "tc_receiveCallback B \<noteq> NULL"
    and "te_endian envA = LittleEndian" "te_calloc envA \<noteq> NULL" "te_source envA \<noteq> NULL"
    and "te_endian envB = LittleEndian" "te_object envB"
  shows "\<exists>A' B' sA' sB' htA' ob'. exchange envA envB addrA addrB A B ob = Some (addrB, addrA, A', B') \<and>
    tc_log B' = tc_log B @ [Received (tc_context B) addrA ob'] \<and> object_view ob' = object_view ob \<and>
    tc_log A' = tc_log A \<and> tc_heap A' = (tc_heap A)(te_calloc envA := None) \<and>
    tc_transactions A' = Some htA' \<and> ht_map htA' = (ht_map htA)(ucast (tc_cseq A) := None) \<and>
    tc_socket A' = Some sA' \<and> socket_inv ownedA sA' \<and> sk_refs sA' = sk_refs sA \<and>
    tc_socket B' = Some sB' \<and> socket_inv ownedB sB' \<and> sk_refs sB' = sk_refs sB"
proof -
  let ?i = "ucast (tc_cseq A) :: u32" and ?tr = "te_calloc envA"
  let ?req = "enc_transaction_header ?i TransactionTypeRequest @ enc_request LittleEndian ob"
    and ?rsp = "enc_transaction_header ?i TransactionTypeResponse @ enc_uint8 TransactionResponseTypeSuccess"
  have i: "unat ?i < 256"
    using unsigned_less [of "tc_cseq A"] by (simp add: order_less_le_trans [OF unsigned_less])
  obtain ctx where ctx: "sk_receivers sA = (0, 1, ctx)"
    using assms(1) by (auto simp: endpoint_def)
  obtain p A1 s1 h1 where A1: "do { A \<leftarrow> transactionRequest envA A addrB ob; A \<leftarrow> run_transaction_task envA A; flush_config A } =
        Some ((addrB, ?req), A1)"
      "trans_ready (ownedA(p := 1)) s1 h1 A1" "ht_map h1 = (ht_map htA)(?i \<mapsto> ?tr)"
      "tc_heap A1 = (tc_heap A)(?tr \<mapsto> waiting ?i p 0 (te_source envA) True (te_block envA))"
      "tc_isEnabled A1" "tc_tasks A1 = []" "tc_log A1 = tc_log A" "ownedA p = 0" "sk_refs sA p = 0"
      "sk_refs s1 = (sk_refs sA)(p := 1)" "sk_deliveries s1 = []" "sk_receivers s1 = sk_receivers sA" "0 < sk_free s1"
    using exchange_sends [OF assms(1,6,7,5,3), of addrB] by blast
  obtain B1 s2 ob' where B1: "do { B \<leftarrow> datagram_in addrA ?req B; B \<leftarrow> run_transaction_task envB B; flush_config B } = Some ((addrA, ?rsp), B1)"
      "tc_socket B1 = Some s2" "socket_inv ownedB s2" "sk_refs s2 = sk_refs sB"
      "tc_log B1 = tc_log B @ [Received (tc_context B) addrA ob']" "object_view ob' = object_view ob"
    using exchange_answers [OF assms(2,9,8,4,3) i, of addrA] by blast
  have heap: "ht_map h1 ?i = Some ?tr" "tc_heap A1 ?tr = Some (waiting ?i p 0 (te_source envA) True (te_block envA))"
    using A1(3,4) by simp_all
  obtain A2 s3 h3 m where A2: "do { A \<leftarrow> datagram_in addrB ?rsp A1; run_transaction_task envA A } = Some A2"
      "trans_ready ((ownedA(p := 1))(p := 0)) s3 h3 A2" "ht_map h3 = (ht_map h1)(?i := None)" "tc_heap A2 = (tc_heap A1)(?tr := None)"
      "tc_log A2 = tc_log A1 @ response_log A1 2 m" "sk_refs s3 = (sk_refs s1)(p := 0)"
    using exchange_completes [OF A1(2) heap(1) assms(6) heap(2) _ A1(5,6) i _ A1(13,11), of 2 ctx addrB envA] A1(10,12) ctx by auto
  have "exchange envA envB addrA addrB A B ob = Some (addrB, addrA, A2, B1)"
    using A1(1) B1(1) A2(1) by (auto simp: exchange_def Option.bind_eq_Some_conv)
  moreover have "(ownedA(p := 1))(p := 0) = ownedA" "sk_refs s3 = sk_refs sA"
    using A1(8-10) A2(6) by (simp_all add: fun_upd_idem)
  moreover have "response_log A1 2 m = []"
    by (simp add: response_log_def)
  ultimately show ?thesis
    using A1 B1 A2 by (intro exI [of _ A2] exI [of _ B1] exI [of _ s3] exI [of _ s2] exI [of _ h3] exI [of _ ob'])
      (simp add: trans_ready_def)
qed

lemma sample_endpoint:
  obtains ht where "endpoint (\<lambda>_. 0) (net_socket_set_receive_callback sample_socket 9 1) ht
    (sample_config\<lparr>tc_socket := Some (net_socket_set_receive_callback sample_socket 9 1)\<rparr>)"
proof -
  let ?s = "net_socket_set_receive_callback sample_socket 9 1"
  note fields = create_fields [OF sample_socket_created(1)] and init = create_inv [OF sample_socket_created]
  obtain ht where ht: "trans_ready (\<lambda>_. 0) sample_socket ht sample_config"
    by (rule sample_config_ready)
  have "sk_free ?s = 64"
    using create_free [OF sample_socket_created] by (simp add: sk_free_def)
  moreover have "sk_receivers ?s = (0, 1, 9)"
    using fields by simp
  moreover have "socket_inv (\<lambda>_. 0) ?s"
    using init(1) by simp
  ultimately have "endpoint (\<lambda>_. 0) ?s ht (sample_config\<lparr>tc_socket := Some ?s\<rparr>)"
    using ht init(5) fields by (simp add: endpoint_def trans_ready_def) (simp add: sample_config_def)
  then show thesis
    by (rule that)
qed

theorem transaction_exchange_witness:
  "\<exists>A' B' ob'. exchange sample_env sample_env sockaddr_zero (sockaddr_zero\<lparr>sin_port := 9\<rparr>)
      (sample_config\<lparr>tc_socket := Some (net_socket_set_receive_callback sample_socket 9 1)\<rparr>)
      (sample_config\<lparr>tc_socket := Some (net_socket_set_receive_callback sample_socket 9 1)\<rparr>) sample_object =
        Some (sockaddr_zero\<lparr>sin_port := 9\<rparr>, sockaddr_zero, A', B') \<and>
    tc_log A' = [] \<and> tc_log B' = [Received 5 sockaddr_zero ob'] \<and> object_view ob' = object_view sample_object"
proof -
  let ?s = "net_socket_set_receive_callback sample_socket 9 1"
  let ?c = "sample_config\<lparr>tc_socket := Some ?s\<rparr>"
  obtain ht where ep: "endpoint (\<lambda>_. 0) ?s ht ?c"
    by (rule sample_endpoint)
  have "request_ok 3 sample_object"
    by (simp add: str_ok_def)
  moreover have "tc_receiveCallback ?c \<noteq> NULL" "tc_log ?c = []" "tc_context ?c = 5" "te_endian sample_env = LittleEndian"
      "te_calloc sample_env \<noteq> NULL" "te_source sample_env \<noteq> NULL" "te_object sample_env"
    by (simp_all add: sample_config_def sample_env_def)
  ultimately show ?thesis
    using transaction_exchange [OF ep ep, of sample_object sample_env sample_env sockaddr_zero "sockaddr_zero\<lparr>sin_port := 9\<rparr>"] by auto
qed

text \<open>
  (C31) What a response does. A response of any type ends the waiting transaction with its id: the
  timer is cancelled and released, the entry is deleted, the memory freed and the reference to the
  request's packet released; the error callback is called, with the address the request went to,
  unless the response says success. A provisional response is treated as a failure, although it
  announces that the request is being processed.
\<close>

theorem transaction_response_ends:
  assumes "trans_ready owned s ht config" "ht_map ht i = Some tr" "tr \<noteq> NULL" "tc_heap config tr = Some (waiting i p k src True block)"
    and "0 < owned p" "tc_isEnabled config" "tc_tasks config = []" "unat i < 256" "unat ty < 256"
    and "0 < sk_free s" "sk_deliveries s = []" "sk_receivers s = (NULL, transaction_receive_fn, ctx)" "tc_errorCallback config \<noteq> NULL"
  shows "\<exists>config' s' ht' m. do {
      A \<leftarrow> datagram_in from (enc_transaction_header i TransactionTypeResponse @ enc_uint8 ty) config;
      run_transaction_task env A } = Some config' \<and>
    tc_log config' = tc_log config @ (if ty = TransactionResponseTypeSuccess then [] else [Failed (tc_context config) (pkt_addr m)]) \<and>
    sk_mem s p = Some m \<and> trans_ready (owned(p := owned p - 1)) s' ht' config' \<and> ht_map ht' = (ht_map ht)(i := None) \<and>
    tc_heap config' = (tc_heap config)(tr := None) \<and> tc_calls config' = tc_calls config @ [SourceCancel src, SourceRelease src] \<and>
    sk_refs s' = (sk_refs s)(p := sk_refs s p - 1) \<and> sk_tasks s' = sk_tasks s"
proof -
  from exchange_completes [OF assms(1-12), of "from" env] obtain config' s' ht' m where
    "do { A \<leftarrow> datagram_in from (enc_transaction_header i TransactionTypeResponse @ enc_uint8 ty) config; run_transaction_task env A } = Some config'"
    "trans_ready (owned(p := owned p - 1)) s' ht' config'" "ht_map ht' = (ht_map ht)(i := None)"
    "tc_heap config' = (tc_heap config)(tr := None)" "tc_calls config' = tc_calls config @ [SourceCancel src, SourceRelease src]"
    "tc_log config' = tc_log config @ response_log config ty m" "sk_mem s p = Some m"
    "sk_refs s' = (sk_refs s)(p := sk_refs s p - 1)" "sk_tasks s' = sk_tasks s"
    by blast
  with assms(13) show ?thesis
    by (intro exI [of _ config'] exI [of _ s'] exI [of _ ht'] exI [of _ m]) (simp add: response_log_def)
qed

theorem transaction_response_ends_witness:
  "\<exists>config config' a. do {
      A \<leftarrow> datagram_in sockaddr_zero (enc_transaction_header 7 TransactionTypeResponse @ enc_uint8 TransactionResponseTypeProvisional) config;
      run_transaction_task sample_env A } = Some config' \<and>
    tc_log config' = tc_log config @ [Failed (tc_context config) a]"
proof -
  let ?s = "net_socket_set_receive_callback sample_socket 9 1"
  let ?c = "sample_config\<lparr>tc_socket := Some ?s, tc_errorCallback := 4\<rparr>"
  obtain ht where "endpoint (\<lambda>_. 0) ?s ht (sample_config\<lparr>tc_socket := Some ?s\<rparr>)"
    by (rule sample_endpoint)
  then have ep: "endpoint (\<lambda>_. 0) ?s ht ?c"
    by (simp add: endpoint_def trans_ready_def)
  have env: "te_calloc sample_env \<noteq> NULL" "te_source sample_env \<noteq> NULL" "te_endian sample_env = LittleEndian"
    by (simp_all add: sample_env_def)
  have ok: "request_ok 3 sample_object"
    by (simp add: str_ok_def)
  have id: "ucast (tc_cseq ?c) = (7 :: u32)"
    by (simp add: sample_config_def)
  obtain p c s1 h where c: "trans_ready ((\<lambda>_. 0)(p := 1)) s1 h c" "ht_map h = (ht_map ht)(7 \<mapsto> te_calloc sample_env)"
      "tc_heap c = (tc_heap ?c)(te_calloc sample_env \<mapsto> waiting 7 p 0 (te_source sample_env) True (te_block sample_env))"
      "tc_isEnabled c" "tc_tasks c = []" "sk_deliveries s1 = []" "sk_receivers s1 = sk_receivers ?s" "0 < sk_free s1"
      "tc_errorCallback c = tc_errorCallback ?c"
    using exchange_sends [OF ep env ok, of sockaddr_zero, unfolded id] by blast
  have pre: "ht_map h 7 = Some (te_calloc sample_env)"
      "tc_heap c (te_calloc sample_env) = Some (waiting 7 p 0 (te_source sample_env) True (te_block sample_env))"
      "0 < ((\<lambda>_. 0)(p := 1 :: nat)) p" "unat (7 :: u32) < 256" "unat (1 :: u32) < 256" "sk_receivers s1 = (0, 1, 9)"
      "tc_errorCallback c \<noteq> 0"
    using c create_fields(8) [OF sample_socket_created(1)] by simp_all
  from transaction_response_ends [OF c(1) pre(1) env(1) pre(2,3) c(4,5) pre(4,5) c(8,6) pre(6,7), of sockaddr_zero sample_env]
  obtain c' a where "do { A \<leftarrow> datagram_in sockaddr_zero (enc_transaction_header 7 TransactionTypeResponse @ enc_uint8 1) c;
      run_transaction_task sample_env A } = Some c'" "tc_log c' = tc_log c @ [Failed (tc_context c) a]"
    by auto
  then show ?thesis
    by blast
qed

text \<open>
  A response nobody waits for is leaked. The block that handles a response releases the packet
  only if a transaction with its id is found; otherwise the reference taken for the block is lost,
  and the pool has one packet less for good. Anybody can send such responses.
\<close>

theorem transaction_unknown_response_leaks:
  assumes "trans_ready owned s ht config" "ht_map ht i = None" "tc_isEnabled config" "tc_tasks config = []"
    and "unat i < 256" "0 < sk_free s" "sk_deliveries s = []" "sk_receivers s = (NULL, transaction_receive_fn, ctx)"
  shows "\<exists>config' s' q. do {
      A \<leftarrow> datagram_in from (enc_transaction_header i TransactionTypeResponse @ enc_uint8 ty) config;
      run_transaction_task env A } = Some config' \<and>
    tc_tasks config' = [] \<and> tc_socket config' = Some s' \<and> tc_log config' = tc_log config \<and> tc_heap config' = tc_heap config \<and>
    sk_queued s' = sk_queued s \<and> sk_tasks s' = sk_tasks s \<and> sk_deliveries s' = [] \<and>
    sk_refs s q = 0 \<and> sk_refs s' = (sk_refs s)(q := 1) \<and> sk_free s' = sk_free s - 1"
proof -
  let ?bytes = "enc_transaction_header i TransactionTypeResponse @ enc_uint8 ty"
  have inv: "socket_inv owned s"
    using assms(1) by (simp add: trans_ready_def)
  have len: "0 < length ?bytes" "length ?bytes \<le> 256"
    by (simp_all add: enc_transaction_header_def)
  obtain q s1 m where q: "datagram_in from ?bytes config = transactionSocketReceiveCallback (config\<lparr>tc_socket := Some s1\<rparr>) q"
      "trans_ready (owned(q := 1)) s1 ht (config\<lparr>tc_socket := Some s1\<rparr>)" "sk_refs s q = 0" "q \<in> sk_objects s"
      "sk_mem s1 q = Some m" "bs_at (pkt_bitstream m) ?bytes"
      "sk_tasks s1 = sk_tasks s" "sk_refs s1 = (sk_refs s)(q := 1)" "sk_others s1 = sk_others s"
    using datagram_in_delivers [OF assms(1,6,7,8) len, of "from"] by blast
  have at: "bs_at (pkt_bitstream m) (enc_transaction_header i TransactionTypeResponse)"
    using q(6) by (simp add: bs_at_append)
  obtain s2 where s2: "transactionSocketReceiveCallback (config\<lparr>tc_socket := Some s1\<rparr>) q =
        Some (config\<lparr>tc_socket := Some s2, tc_tasks := [ResponseTask q i]\<rparr>)"
      "socket_inv (owned(q := 1)) s2" "sk_tasks s2 = sk_tasks s1" "sk_refs s2 = sk_refs s1" "sk_others s2 = sk_others s1"
    using receive_callback_step [OF q(2) _ _ q(5) at assms(5)] assms(3,4) q(8) by auto
  let ?c = "config\<lparr>tc_socket := Some s2, tc_tasks := []\<rparr>"
  have "trans_ready (owned(q := 1)) s2 ht ?c"
    using s2(2) assms(1) by (simp add: trans_ready_def)
  then have "run_response ?c q i = Some ?c"
    using assms(2) by (rule run_response_unknown)
  then have run: "do { A \<leftarrow> datagram_in from ?bytes config; run_transaction_task env A } = Some ?c"
    using q(1) s2(1) by (simp add: run_transaction_task_def)
  have obs: "sk_objects s2 = sk_objects s" "sk_queued s2 = sk_queued s" "sk_deliveries s2 = []"
    using s2(5) q(9) assms(7) by (simp_all add: sk_others_def)
  then have "sk_free s2 = sk_free s - 1"
    using sk_free_upd [OF finite_objects [OF inv], of s2 q 0] s2(4) q(3,4,8) by simp
  with run obs s2(3,4) q(3,7,8) show ?thesis
    by (intro exI [of _ ?c] exI [of _ s2] exI [of _ q]) simp
qed

theorem transaction_unknown_response_leaks_witness:
  "\<exists>config' s'. do {
      A \<leftarrow> datagram_in sockaddr_zero (enc_transaction_header 99 TransactionTypeResponse @ enc_uint8 2)
        (sample_config\<lparr>tc_socket := Some (net_socket_set_receive_callback sample_socket 9 1)\<rparr>);
      run_transaction_task sample_env A } = Some config' \<and> tc_tasks config' = [] \<and> tc_socket config' = Some s' \<and> sk_free s' = 63"
proof -
  let ?s = "net_socket_set_receive_callback sample_socket 9 1"
  obtain ht where ht: "trans_ready (\<lambda>_. 0) sample_socket ht sample_config" "ht_map ht = Map.empty"
    by (rule sample_config_ready)
  let ?c = "sample_config\<lparr>tc_socket := Some ?s\<rparr>"
  have "socket_inv (\<lambda>_. 0) ?s"
    using create_inv(1) [OF sample_socket_created] by simp
  then have "trans_ready (\<lambda>_. 0) ?s ht ?c"
    using ht(1) by (simp add: trans_ready_def)
  moreover have "sk_free ?s = 64" "sk_deliveries ?s = []" "sk_receivers ?s = (0, 1, 9)"
    using create_free [OF sample_socket_created] create_fields [OF sample_socket_created(1)] by (simp_all add: sk_free_def)
  moreover have "tc_isEnabled ?c" "tc_tasks ?c = []" "ht_map ht 99 = None" "unat (99 :: u32) < 256"
    using ht(2) by (simp_all add: sample_config_def)
  ultimately show ?thesis
    using transaction_unknown_response_leaks [of "\<lambda>_. 0" ?s ht ?c 99 9 sockaddr_zero 2 sample_env] by auto
qed

text \<open>
  An exhausted pool. A request for which there is no packet is dropped without any notice,
  not even the error callback; an acknowledgement for which there is none dereferences the null
  pointer the pool returns.
\<close>

theorem transaction_pool_exhausted:
  assumes "tc_socket config = Some s" "net_packet_alloc s = Some (NULL, s)"
  shows "transactionRequest env config addr ob = Some config \<and> transactionResponse config addr i ty = None"
  using assms by (simp add: transactionRequest_def transactionAlloc_def transactionResponse_def)

theorem transaction_pool_exhausted_witness:
  "\<exists>s'. read_datagrams (replicate 64 \<lparr>recv_bytes = 0, recv_data = [], recv_addr = sockaddr_zero\<rparr>) sample_socket = Some s' \<and>
    transactionResponse (sample_config\<lparr>tc_socket := Some s'\<rparr>) sockaddr_zero 7 2 = None"
proof -
  have "finite (sk_objects sample_socket)"
    using finite_objects [OF create_inv(1) [OF sample_socket_created]] .
  then obtain owned s' where s': "read_datagrams (replicate 64 \<lparr>recv_bytes = 0, recv_data = [], recv_addr = sockaddr_zero\<rparr>) sample_socket = Some s'"
      "socket_inv owned s'" "sk_free s' = 0" "finite (sk_objects s')"
    using read_leaks_all [OF create_inv(1) [OF sample_socket_created], of "replicate 64 \<lparr>recv_bytes = 0, recv_data = [], recv_addr = sockaddr_zero\<rparr>"]
      create_free [OF sample_socket_created] by auto
  have "net_packet_alloc s' = Some (NULL, s')"
    using alloc_none [OF s'(2-4)] .
  with transaction_pool_exhausted [of "sample_config\<lparr>tc_socket := Some s'\<rparr>" s'] s'(1) show ?thesis
    by auto
qed

end
