(* ===== verification/Stream_Traffic.thy ===== *)
theory Stream_Traffic
  imports Stream_Runs
begin

text \<open>
  The data of the streams on their way: what the timer of a configuration puts on the wire, what
  becomes of it at the other end, and when nothing is sent at all. The network is any that
  delivers a datagram as it was sent.
\<close>

section \<open>Sending to all peers\<close>

text \<open>What a stream of the list sends, and all of them in the order of the list.\<close>

definition stream_datagram :: "endian \<Rightarrow> StreamObject \<Rightarrow> Stream \<Rightarrow> net_addr_t \<times> u8 list" where
  "stream_datagram e ob st = (st_address st, stream_bytes e (st_reliability st) ob)"

definition sends_all :: "endian \<Rightarrow> StreamObject \<Rightarrow> ptr list \<Rightarrow> StreamConfiguration \<Rightarrow> StreamConfiguration option" where
  "sends_all e ob ps config = fold (\<lambda>x r. r \<bind> (\<lambda>config. streamSend e config x ob)) ps (Some config)"

text \<open>Packets in use keep their content while others are filled.\<close>

definition packets_kept :: "net_socket_s \<Rightarrow> net_socket_s \<Rightarrow> bool" where
  "packets_kept s s' \<longleftrightarrow> (\<forall>k. 0 < sk_refs s k \<longrightarrow> 0 < sk_refs s' k \<and> sk_mem s' k = sk_mem s k)"

lemma fold_bind_None: "fold (\<lambda>x r. r \<bind> f x) xs None = None"
  by (induction xs) simp_all

lemma sends_all_Cons: "sends_all e ob (p # ps) config = streamSend e config p ob \<bind> sends_all e ob ps"
  by (cases "streamSend e config p ob") (simp_all add: sends_all_def fold_bind_None)

lemma sends_all_wire:
  assumes "stream_state leaked s l config" "distinct ps" "\<forall>p \<in> set ps. \<exists>st. sc_heap config p = Some st \<and> sending st"
    and "so_wf ob" "length ps \<le> sk_free s"
  shows "\<exists>config' s' pks. sends_all e ob ps config = Some config' \<and> stream_state leaked s' l config' \<and>
    sk_tasks s' = sk_tasks s @ pks \<and> map (\<lambda>k. datagram (the (sk_mem s' k))) pks = map (\<lambda>p. stream_datagram e ob (the (sc_heap config p))) ps \<and>
    packets_kept s s' \<and> sk_others s' = sk_others s \<and> stream_frame config config'"
  using assms
proof (induction ps arbitrary: s config)
  case Nil
  then show ?case
    by (intro exI [of _ config] exI [of _ s] exI [of _ "[]"]) (simp add: sends_all_def packets_kept_def)
next
  case (Cons p ps)
  obtain st where st: "sc_heap config p = Some st" "sending st"
    using Cons.prems(3) by auto
  have inv: "socket_inv (\<lambda>p. stream_owned config p + count_list leaked p) s"
    using Cons.prems(1) by (simp add: stream_state_def sys_inv_stream)
  obtain pk s0 where pk: "net_packet_alloc s = Some (pk, s0)" "pk \<noteq> NULL" "sk_refs s pk = 0" "pk \<in> sk_objects s"
    using alloc_free [OF inv] Cons.prems(5) by auto
  obtain ref s1 m where one: "streamSend e config p ob = Some ((set_stream config p (st\<lparr>st_reliability := ref\<rparr>))\<lparr>sc_socket := Some s1\<rparr>)"
      "stream_state leaked s1 l ((set_stream config p (st\<lparr>st_reliability := ref\<rparr>))\<lparr>sc_socket := Some s1\<rparr>)"
      "sk_mem s1 = (sk_mem s)(pk \<mapsto> m)" "datagram m = (st_address st, stream_bytes e (st_reliability st) ob)"
      "sk_tasks s1 = sk_tasks s @ [pk]" "sk_refs s1 = (sk_refs s)(pk := 1)" "sk_others s1 = sk_others s"
    using streamSend_sends [OF Cons.prems(1) st pk(1,2) Cons.prems(4), of e] by blast
  let ?c = "(set_stream config p (st\<lparr>st_reliability := ref\<rparr>))\<lparr>sc_socket := Some s1\<rparr>"
  have "sk_objects s1 = sk_objects s"
    using one(7) by (simp add: sk_others_def)
  then have "length ps \<le> sk_free s1"
    using sk_free_upd [OF finite_objects [OF inv], of s1 pk 0] one(6) pk(3,4) Cons.prems(5) by simp
  moreover have heap: "sc_heap ?c q = sc_heap config q" if "q \<in> set ps" for q
    using that Cons.prems(2) by (auto simp: set_stream_def)
  ultimately obtain config' s' pks where rest: "sends_all e ob ps ?c = Some config'" "stream_state leaked s' l config'"
      "sk_tasks s' = sk_tasks s1 @ pks" "map (\<lambda>k. datagram (the (sk_mem s' k))) pks = map (\<lambda>p. stream_datagram e ob (the (sc_heap ?c p))) ps"
      "packets_kept s1 s'" "sk_others s' = sk_others s1" "stream_frame ?c config'"
    using Cons.IH [OF one(2)] Cons.prems(2-4) by auto
  have "sk_mem s' pk = Some m"
    using rest(5) one(3,6) by (simp add: packets_kept_def)
  then have "map (\<lambda>k. datagram (the (sk_mem s' k))) (pk # pks) = map (\<lambda>p. stream_datagram e ob (the (sc_heap config p))) (p # ps)"
    using rest(4) one(4) st(1) heap by (simp add: stream_datagram_def cong: map_cong)
  moreover have "packets_kept s s'"
    using rest(5) one(3,6) pk(3) by (auto simp: packets_kept_def)
  moreover have "stream_frame config config'"
    using stream_frame_trans [OF stream_frame_sent [OF st(1)] rest(7)] .
  ultimately show ?case
    using one(1,5,7) rest(1-3,6) by (intro exI [of _ config'] exI [of _ s'] exI [of _ "pk # pks"]) (simp add: sends_all_Cons)
qed

text \<open>The timer fires and the socket writes what waits.\<close>

definition flush_streams :: "StreamConfiguration \<Rightarrow> StreamConfiguration option" where
  "flush_streams config = do {
     s \<leftarrow> sc_socket config;
     s \<leftarrow> socket_flush fresh_node s;
     Some (config\<lparr>sc_socket := Some s\<rparr>)
   }"

definition stream_wire :: "StreamConfiguration \<Rightarrow> (net_addr_t \<times> u8 list) list" where
  "stream_wire config = (case sc_socket config of None \<Rightarrow> [] | Some s \<Rightarrow> sk_wire s)"

definition wire_waiting :: "net_socket_s \<Rightarrow> (net_addr_t \<times> u8 list) list" where
  "wire_waiting s = map (\<lambda>k. datagram (the (sk_mem s k))) (sk_queued s @ sk_tasks s)"

lemma flush_streams_step:
  assumes "stream_state leaked s l config"
  shows "\<exists>s'. flush_streams config = Some (config\<lparr>sc_socket := Some s'\<rparr>) \<and> stream_state leaked s' l (config\<lparr>sc_socket := Some s'\<rparr>) \<and>
    sk_wire s' = sk_wire s @ wire_waiting s \<and> sk_tasks s' = [] \<and> sk_queued s' = []"
proof -
  have sys: "sc_socket config = Some s" "receivers_set s" and inv: "socket_inv (\<lambda>p. stream_owned config p + count_list leaked p) s"
    using assms by (simp_all add: stream_state_def sys_inv_stream)
  obtain s' where s': "socket_flush fresh_node s = Some s'" "socket_inv (\<lambda>p. stream_owned config p + count_list leaked p) s'"
      "sk_queued s' = []" "sk_tasks s' = []" "sk_wire s' = sk_wire s @ wire_waiting s" "sk_mem s' = sk_mem s"
      "sk_deliveries s' = sk_deliveries s" "sk_receivers s' = sk_receivers s"
    using socket_flush_inv [OF inv] unfolding wire_waiting_def by blast
  have "receivers_set s'"
    using s'(7,8) by (intro receivers_set_keep [OF _ _ sys(2)]) simp_all
  then have "stream_state leaked s' l (config\<lparr>sc_socket := Some s'\<rparr>)"
    using s' by (intro stream_socket_frame [OF assms]) (simp_all add: sys_inv_stream)
  then show ?thesis
    using sys(1) s' by (intro exI [of _ s']) (simp add: flush_streams_def)
qed

text \<open>The object of one tick, and a configuration that can send to all its peers.\<close>

definition tick_object :: "stream_env \<Rightarrow> StreamObject" where
  "tick_object env = se_update env (streamObjectSetup (se_object env))"

definition all_sending :: "net_socket_s \<Rightarrow> list_s \<Rightarrow> StreamConfiguration \<Rightarrow> bool" where
  "all_sending s l config \<longleftrightarrow> list_objects l \<noteq> [] \<and> sync_update l config \<and> length (list_objects l) \<le> sk_free s \<and>
     (\<forall>p \<in> set (list_objects l). sending (the (sc_heap config p)))"

lemma timer_broadcast:
  assumes "stream_state leaked s l config" "all_sending s l config" "env_object_ok env"
  shows "\<exists>config' s'. do { c \<leftarrow> streamTimerCallback env config; flush_streams c } = Some config' \<and> stream_state leaked s' l config' \<and>
    sk_wire s' = sk_wire s @ wire_waiting s @
      map (\<lambda>p. stream_datagram (se_endian env) (tick_object env) (updated (the (sc_heap config p)))) (list_objects l) \<and>
    sc_log config' = sc_log config @ [UpdateCalled (sc_context config)] \<and> sk_tasks s' = [] \<and> sk_queued s' = []"
proof -
  let ?c1 = "(ticked (list_objects l) config)\<lparr>sc_log := sc_log config @ [UpdateCalled (sc_context config)]\<rparr>"
  note all = assms(2) [unfolded all_sending_def]
  have sync: "sync_update l config" "list_objects l \<noteq> []"
    using all by simp_all
  note timer = timer_sends(1) [OF assms(1) sync, of env] timer_sends(2) [OF assms(1) sync]
  have l: "list_inv l" "distinct (list_objects l)"
    using assms(1) by (auto simp: stream_state_def simp: distinct_map)
  have heap: "sc_heap ?c1 p = Some (updated (the (sc_heap config p)))" if p: "p \<in> set (list_objects l)" for p
    using stream_listed(2) [OF assms(1) p] p by (auto simp: ticked_def)
  have sends: "\<exists>st. sc_heap ?c1 p = Some st \<and> sending st" if p: "p \<in> set (list_objects l)" for p
    using heap [OF p] stream_listed(2) [OF assms(1) p] updated_ok(3) all p by (auto simp: sending_def)
  have wf: "so_wf (tick_object env)"
    using assms(3) by (simp add: env_object_ok_def tick_object_def)
  obtain config2 s2 pks where c2: "sends_all (se_endian env) (tick_object env) (list_objects l) ?c1 = Some config2"
      "stream_state leaked s2 l config2" "sk_tasks s2 = sk_tasks s @ pks"
      "map (\<lambda>k. datagram (the (sk_mem s2 k))) pks =
        map (\<lambda>p. stream_datagram (se_endian env) (tick_object env) (the (sc_heap ?c1 p))) (list_objects l)"
      "packets_kept s s2" "sk_others s2 = sk_others s" "stream_frame ?c1 config2"
    using sends_all_wire [OF timer(2) l(2) _ wf, of "se_endian env"] sends all by blast
  have run: "streamTimerCallback env config = Some config2"
    using c2(1) unfolding timer(1) tick_object_def [symmetric] list_iterate_in_order [OF l(1)] sends_all_def by simp
  have inv: "socket_inv (\<lambda>p. stream_owned config p + count_list leaked p) s"
    using assms(1) by (simp add: stream_state_def sys_inv_stream)
  have kept: "sk_mem s2 k = sk_mem s k" if "k \<in> set (sk_queued s @ sk_tasks s)" for k
    using socket_inv_held [OF inv, of k] c2(5) that by (auto simp: packets_kept_def sk_held_def)
  have others: "sk_queued s2 = sk_queued s" "sk_wire s2 = sk_wire s"
    using c2(6) by (simp_all add: sk_others_def)
  have "map (\<lambda>p. stream_datagram (se_endian env) (tick_object env) (the (sc_heap ?c1 p))) (list_objects l) =
      map (\<lambda>p. stream_datagram (se_endian env) (tick_object env) (updated (the (sc_heap config p)))) (list_objects l)"
    using heap by (intro map_cong) simp_all
  then have "wire_waiting s2 = wire_waiting s @
      map (\<lambda>p. stream_datagram (se_endian env) (tick_object env) (updated (the (sc_heap config p)))) (list_objects l)"
    using kept c2(3,4) others(1) by (simp add: wire_waiting_def cong: map_cong)
  moreover obtain s3 where "flush_streams config2 = Some (config2\<lparr>sc_socket := Some s3\<rparr>)"
      "stream_state leaked s3 l (config2\<lparr>sc_socket := Some s3\<rparr>)" "sk_wire s3 = sk_wire s2 @ wire_waiting s2" "sk_tasks s3 = []" "sk_queued s3 = []"
    using flush_streams_step [OF c2(2)] by blast
  ultimately show ?thesis
    using run others(2) stream_frame_fields(2) [OF c2(7)]
    by (intro exI [of _ "config2\<lparr>sc_socket := Some s3\<rparr>"] exI [of _ s3]) simp
qed

section \<open>Receiving\<close>

definition stream_in :: "stream_env \<Rightarrow> net_addr_t \<Rightarrow> u8 list \<Rightarrow> StreamConfiguration \<Rightarrow> StreamConfiguration option" where
  "stream_in env addr bytes config = do {
     s \<leftarrow> sc_socket config;
     s \<leftarrow> read_handler \<lparr>recv_bytes = int (length bytes), recv_data = bytes, recv_addr = addr\<rparr> s;
     if sk_deliveries s = [] then Some (config\<lparr>sc_socket := Some s\<rparr>)
     else do {
       ((fn, ctx, packet), s) \<leftarrow> run_delivery (last (sk_deliveries s)) s;
       if fn = stream_receive_fn
       then run_stream_task env (streamSocketReceiveCallback (config\<lparr>sc_socket := Some s\<rparr>) packet)
       else None
     }
   }"

text \<open>An idle configuration that can receive.\<close>

definition stream_idle :: "net_socket_s \<Rightarrow> StreamConfiguration \<Rightarrow> bool" where
  "stream_idle s config \<longleftrightarrow> sc_tasks config = [] \<and> sk_deliveries s = [] \<and> 0 < sk_free s"

definition so_view :: "StreamObject \<Rightarrow> u64 \<times> u32 \<times> u8 list" where
  "so_view ob = (so_tag ob, so_length ob, so_payload ob)"

lemma stream_in_delivers:
  assumes "stream_state leaked s l config" "stream_idle s config" "0 < length bytes" "length bytes \<le> 256"
  shows "\<exists>p s' m. stream_in env addr bytes config = run_receive env (config\<lparr>sc_socket := Some s'\<rparr>) p \<and>
    stream_state (p # leaked) s' l (config\<lparr>sc_socket := Some s'\<rparr>) \<and> p \<notin> set (incoming (config\<lparr>sc_socket := Some s'\<rparr>) s') \<and>
    sk_refs s p = 0 \<and> sk_mem s' p = Some m \<and> pkt_wf m \<and> bs_offset (pkt_bitstream m) = 0 \<and> bs_at (pkt_bitstream m) bytes \<and>
    pkt_addr m = addr \<and> sk_refs s' = (sk_refs s)(p := 1)"
proof -
  note idle = assms(2) [unfolded stream_idle_def]
  define own where "own = (\<lambda>p. stream_owned config p + count_list leaked p)"
  have sys: "sc_socket config = Some s" "receivers_set s" "stream_incoming config s" and inv: "socket_inv own s"
    using assms(1) by (simp_all add: stream_state_def sys_inv_stream own_def)
  obtain ctx where recv: "sk_receivers s = (0, 2, ctx)"
    using sys(3) by (simp add: stream_incoming_def sk_receivers_def)
  have fn: "(2 :: ptr) \<noteq> NULL"
    by simp
  have free: "0 < sk_free s" "sk_deliveries s = []"
    using idle by simp_all
  from socket_receives_callback [OF inv free recv fn assms(3,4), of addr] obtain p s2 s' m
    where p: "read_handler \<lparr>recv_bytes = int (length bytes), recv_data = bytes, recv_addr = addr\<rparr> s = Some s2"
      "sk_deliveries s2 = [DeliverCallback p]" "run_delivery (DeliverCallback p) s2 = Some ((2, ctx, p), s')"
      "socket_inv (own(p := 1)) s'" "own p = 0"
      "sk_refs s p = 0" "sk_mem s' p = Some m" "pkt_wf m"
      "bs_offset (pkt_bitstream m) = 0" "bs_at (pkt_bitstream m) bytes" "pkt_addr m = addr"
      "sk_refs s' = (sk_refs s)(p := 1)" "sk_others s' = sk_others s"
    by blast
  have rp: "receive_packets config = []"
    using idle by (simp add: receive_packets_def)
  have same: "(config\<lparr>sc_socket := Some s'\<rparr>)\<lparr>sc_tasks := []\<rparr> = config\<lparr>sc_socket := Some s'\<rparr>"
    using idle by (intro StreamConfiguration.equality) simp_all
  have "stream_in env addr bytes config = run_receive env (config\<lparr>sc_socket := Some s'\<rparr>) p"
    using p(1-3) sys(1) idle
    by (simp add: stream_in_def streamSocketReceiveCallback_def stream_dispatch_def run_stream_task_def same [simplified])
  moreover have del: "sk_deliveries s' = []" "sk_receivers s' = sk_receivers s"
    using p(13) free(2) by (simp_all add: sk_others_def)
  then have "stream_incoming config s'" "receivers_set s'"
    using recv by (simp_all add: stream_incoming_def incoming_def rp sk_receivers_def receivers_set_def)
  moreover have "(\<lambda>q. stream_owned config q + count_list (p # leaked) q) = own(p := 1)"
    using p(5) by (auto simp: fun_eq_iff own_def)
  then have "socket_inv (\<lambda>q. stream_owned config q + count_list (p # leaked) q) s'"
    using p(4) by metis
  ultimately show ?thesis
    using assms(1) p(6-12) del(1) rp
    by (intro exI [of _ p] exI [of _ s'] exI [of _ m]) (simp add: stream_defs sys_inv_stream incoming_def)
qed

lemma stream_find_listed:
  assumes "stream_state leaked s l config" "q \<in> set (list_objects l)" "stream_key config q = addr_key a"
  shows "list_find l (stream_at config a) = Some q"
  using assms(1)
proof (cases rule: stream_find_cases [where a = a])
  case absent
  then show ?thesis
    using assms(2,3) by force
next
  case (present p st)
  have "distinct (map (stream_key config) (list_objects l))"
    using assms(1) by (simp add: stream_state_def)
  with present(3,6) assms(2,3) have "p = q"
    by (metis distinct_map inj_onD)
  with present(1) show ?thesis
    by simp
qed

definition unpacked :: "StreamObject \<Rightarrow> StreamObject \<Rightarrow> StreamObject" where
  "unpacked o0 ob = o0\<lparr>so_tag := so_tag ob, so_length := so_length ob, so_data := overwrite (so_data o0) 0 (so_payload ob)\<rparr>"

lemma so_view_unpacked: "so_wf ob \<Longrightarrow> length (so_data o0) = kStreamObjectDataMaxLength \<Longrightarrow> so_view (unpacked o0 ob) = so_view ob"
  by (simp add: so_view_def unpacked_def so_payload_def so_wf_def overwrite_def)

lemma stream_receives:
  assumes "stream_state leaked s l config" "stream_idle s config" "so_wf ob" "q \<in> set (list_objects l)" "sc_heap config q = Some st"
    and "addr_key (st_address st) = addr_key addr" "ack \<le> sr_sequence (st_reliability st)"
    and "length (so_data (se_object env)) = kStreamObjectDataMaxLength"
  shows "\<exists>config' s' ref ob'. stream_in env addr (enc_stream_header (se_endian env) (sq, ack, bits) @ enc_stream_data (se_endian env) ob) config =
      Some config' \<and> stream_state leaked s' l config' \<and> so_view ob' = so_view ob \<and>
    streamReliabilityPacketReceived (st_reliability st) sq ack bits = Some ref \<and>
    sc_heap config' = (sc_heap config)(q \<mapsto> st\<lparr>st_timeoutAccumulator := 0, st_reliability := ref\<rparr>) \<and>
    sc_log config' = sc_log config @ [ReceiveCalled (sc_context config) (st_address st) ob'] \<and>
    sc_tasks config' = [] \<and> sk_refs s' = sk_refs s"
proof -
  let ?e = "se_endian env"
  let ?h = "enc_stream_header ?e (sq, ack, bits)" and ?d = "enc_stream_data ?e ob" and ?n = "unat (so_length ob)"
  have len: "0 < length (?h @ ?d)" "length (?h @ ?d) \<le> 256" "25 + ?n \<le> 256"
    using assms(3) by (simp_all add: so_wf_def)
  obtain p s1 m where p: "stream_in env addr (?h @ ?d) config = run_receive env (config\<lparr>sc_socket := Some s1\<rparr>) p"
      "stream_state (p # leaked) s1 l (config\<lparr>sc_socket := Some s1\<rparr>)" "p \<notin> set (incoming (config\<lparr>sc_socket := Some s1\<rparr>) s1)"
      "sk_refs s p = 0" "sk_mem s1 p = Some m" "pkt_wf m" "bs_offset (pkt_bitstream m) = 0" "bs_at (pkt_bitstream m) (?h @ ?d)"
      "pkt_addr m = addr" "sk_refs s1 = (sk_refs s)(p := 1)"
    using stream_in_delivers [OF assms(1,2) len(1,2), of env addr] by blast
  let ?c = "config\<lparr>sc_socket := Some s1\<rparr>" and ?b = "pkt_bitstream m"
  have at: "bs_at ?b ?h" "bs_at (bs_adv ?b 15) ?d"
    using p(8) by (simp_all add: bs_at_append)
  have wf: "bs_wf ?b" "bs_wf (bs_adv ?b 15)"
    using pkt_wf_bs_wf [OF p(6)] bs_at_wf_adv [OF pkt_wf_bs_wf [OF p(6)] at(1)] by simp_all
  let ?ob = "unpacked (streamObjectSetup (se_object env)) ob"
  have "streamProtocolUnpackData ?e (bs_adv ?b 15) (streamObjectSetup (se_object env)) = Some (UnpackValid, ?ob, bs_adv (bs_adv ?b 15) (10 + ?n))"
    unfolding unpacked_def using assms(8) by (intro streamProtocolUnpackData_at wf(2) assms(3) at(2)) (simp add: streamObjectSetup_def)
  then have data: "streamProtocolUnpackData ?e (bs_adv ?b 15) (streamObjectSetup (se_object env)) = Some (UnpackValid, ?ob, bs_adv ?b (25 + ?n))"
    by (simp add: bs_adv_adv)
  have find: "list_find l (stream_at ?c (pkt_addr m)) = Some q" "q \<noteq> NULL"
    using stream_find_listed [OF p(2) assms(4), of addr] stream_listed(1) [OF assms(1,4)] assms(5,6) p(9) by (simp_all add: stream_key_def)
  let ?m = "packet_at m (25 + ?n)"
  let ?s2 = "net_packet_store s1 p ?m" and ?c2 = "config\<lparr>sc_socket := Some (net_packet_store s1 p ?m)\<rparr>"
  have hand: "stream_state (p # leaked) ?s2 l ?c2"
    using store_in_hand(1) [OF p(2,3,5) packet_at_wf [OF p(6)]] p(7) len(3) by simp
  have "sc_heap ?c2 q = Some st"
    using assms(5) by simp
  from streamReceive_step [OF hand this, of sq ack bits ?ob] assms(7) obtain ref config3
    where c3: "streamReceive ?c2 q sq ack bits ?ob = Some config3" "stream_state (p # leaked) ?s2 l config3"
      "streamReliabilityPacketReceived (st_reliability st) sq ack bits = Some ref"
      "config3 = (set_stream ?c2 q (st\<lparr>st_timeoutAccumulator := 0, st_reliability := ref\<rparr>))
         \<lparr>sc_log := sc_log ?c2 @ [ReceiveCalled (sc_context ?c2) (st_address st) ?ob]\<rparr>"
    by auto
  obtain s4 where s4: "net_packet_release ?s2 p = Some s4" "stream_state leaked s4 l (config3\<lparr>sc_socket := Some s4\<rparr>)"
      "sk_refs s4 = (sk_refs ?s2)(p := sk_refs ?s2 p - 1)"
    using release_in_hand [OF c3(2)] by blast
  have "before_release env s1 l ?c p m 15 UnpackValid sq ack bits = Some config3"
    using find data c3(1) by (simp add: before_release_def packet_at_def)
  moreover have "sc_socket config3 = Some ?s2"
    using c3(2) by (simp add: stream_state_def)
  ultimately have "run_receive env ?c p = Some (config3\<lparr>sc_socket := Some s4\<rparr>)"
    unfolding run_receive_unfold [OF p(2,5) streamProtocolUnpackHeader_at [OF wf(1) at(1)]] using s4(1) by simp
  moreover have "sk_refs ?s2 = sk_refs s1"
    by (simp add: net_packet_store_def sk_refs_def fun_eq_iff)
  then have "sk_refs s4 = sk_refs s"
    using s4(3) p(4,10) by (auto simp: fun_eq_iff)
  moreover have "so_view ?ob = so_view ob"
    using assms(3,8) by (intro so_view_unpacked) (simp_all add: streamObjectSetup_def)
  ultimately show ?thesis
    using p(1) s4(2) c3(3,4) assms(2)
    by (intro exI [of _ "config3\<lparr>sc_socket := Some s4\<rparr>"] exI [of _ s4] exI [of _ ref] exI [of _ ?ob])
      (simp add: set_stream_def stream_idle_def)
qed

section \<open>From one configuration to another\<close>

lemma updated_header:
  assumes "stream_ok st"
  shows "sr_sequence (st_reliability (updated st)) = sr_sequence (st_reliability st)"
    "sr_ack (st_reliability (updated st)) = sr_ack (st_reliability st)"
    "ackBits (st_reliability (updated st)) = ackBits (st_reliability st)"
    "rtt (st_reliability (updated st)) = rtt (st_reliability st)"
proof -
  let ?rel = "st_reliability st"
  have wf: "rel_wf ?rel"
    using assms by (auto simp: stream_ok_def rel_inv_def)
  obtain ref where ref: "streamReliabilityUpdate ?rel kStreamTimerUpdateInterval = Some ref"
      "sr_sequence ref = sr_sequence ?rel" "sr_ack ref = sr_ack ?rel" "ackBits ref = ackBits ?rel" "rtt ref = rtt ?rel"
  proof (cases "frontSent ?rel = sr_back ?rel")
    case True
    then show thesis
      by (intro that [of ?rel]) (simp_all add: streamReliabilityUpdate_def)
  next
    case False
    from update_eq [OF wf this, of kStreamTimerUpdateInterval] show thesis
      by (elim exE conjE) (rule that)
  qed
  then show "sr_sequence (st_reliability (updated st)) = sr_sequence ?rel" "sr_ack (st_reliability (updated st)) = sr_ack ?rel"
    "ackBits (st_reliability (updated st)) = ackBits ?rel" "rtt (st_reliability (updated st)) = rtt ?rel"
    by (simp_all add: updated_def Let_def)
qed

text \<open>
  (C5) Delivery. Two configurations run, one with a stream \<open>p\<close> to the other. When the timer of the
  first fires, all its streams are due and may send, and the pool has a packet for each, its socket
  writes what was waiting and then, in the order of the list, one datagram for every peer,
  addressed to it, with the sequence number and the acknowledgements of its stream and the object the
  update callback has filled in. The datagram of \<open>p\<close>, received by the second one from the address of
  its stream \<open>q\<close>, reaches the receive callback with the same tag, length and payload; the
  reliability state of \<open>q\<close> has taken in the header, its timeout starts anew and every packet of the
  pool has the references it had before.
\<close>

theorem stream_delivery:
  assumes "stream_running (A, leakedA)" "sc_socket A = Some sA" "sc_streams A = Some lA"
    and "stream_running (B, leakedB)" "sc_socket B = Some sB" "sc_streams B = Some lB"
    and "all_sending sA lA A" "env_object_ok envA" "p \<in> set (list_objects lA)" "sc_heap A p = Some st"
    and "stream_idle sB B" "q \<in> set (list_objects lB)" "sc_heap B q = Some st'" "addr_key (st_address st') = addr_key addr"
    and "sr_ack (st_reliability st) \<le> sr_sequence (st_reliability st')"
    and "se_endian envB = se_endian envA" "length (so_data (se_object envB)) = kStreamObjectDataMaxLength"
  shows "\<exists>A' B' sB' bytes ref ob. do { c \<leftarrow> streamTimerCallback envA A; flush_streams c } = Some A' \<and>
    stream_wire A' = sk_wire sA @ wire_waiting sA @
      map (\<lambda>p. stream_datagram (se_endian envA) (tick_object envA) (updated (the (sc_heap A p)))) (list_objects lA) \<and>
    stream_datagram (se_endian envA) (tick_object envA) (updated st) = (st_address st, bytes) \<and>
    stream_in envB addr bytes B = Some B' \<and> sc_socket B' = Some sB' \<and>
    sc_log B' = sc_log B @ [ReceiveCalled (sc_context B) (st_address st') ob] \<and> so_view ob = so_view (tick_object envA) \<and>
    streamReliabilityPacketReceived (st_reliability st') (sr_sequence (st_reliability st)) (sr_ack (st_reliability st))
      (ackBits (st_reliability st)) = Some ref \<and>
    sc_heap B' = (sc_heap B)(q \<mapsto> st'\<lparr>st_timeoutAccumulator := 0, st_reliability := ref\<rparr>) \<and> sk_refs sB' = sk_refs sB"
proof -
  note stateA = stream_running_state [OF assms(1-3)] and stateB = stream_running_state [OF assms(4-6)]
  have ok: "stream_ok st"
    using stateA assms(10) by (simp add: stream_defs)
  have wf: "so_wf (tick_object envA)"
    using assms(8) by (simp add: env_object_ok_def tick_object_def)
  obtain A' sA' where A': "do { c \<leftarrow> streamTimerCallback envA A; flush_streams c } = Some A'" "stream_state leakedA sA' lA A'"
      "sk_wire sA' = sk_wire sA @ wire_waiting sA @
        map (\<lambda>p. stream_datagram (se_endian envA) (tick_object envA) (updated (the (sc_heap A p)))) (list_objects lA)"
    using timer_broadcast [OF stateA assms(7,8)] by blast
  let ?rel = "st_reliability st"
  let ?bytes = "enc_stream_header (se_endian envB) (sr_sequence ?rel, sr_ack ?rel, ackBits ?rel) @ enc_stream_data (se_endian envB) (tick_object envA)"
  have "stream_datagram (se_endian envA) (tick_object envA) (updated st) = (st_address st, ?bytes)"
    using updated_header [OF ok] updated_ok(2) [OF ok] assms(16) by (simp add: stream_datagram_def stream_bytes_def)
  moreover obtain B' sB' ref ob where "stream_in envB addr ?bytes B = Some B'" "stream_state leakedB sB' lB B'" "so_view ob = so_view (tick_object envA)"
      "streamReliabilityPacketReceived (st_reliability st') (sr_sequence ?rel) (sr_ack ?rel) (ackBits ?rel) = Some ref"
      "sc_heap B' = (sc_heap B)(q \<mapsto> st'\<lparr>st_timeoutAccumulator := 0, st_reliability := ref\<rparr>)"
      "sc_log B' = sc_log B @ [ReceiveCalled (sc_context B) (st_address st') ob]" "sk_refs sB' = sk_refs sB"
    using stream_receives [OF stateB assms(11) wf assms(12-15,17), of "sr_sequence ?rel" "ackBits ?rel"] by blast
  moreover have "stream_wire A' = sk_wire sA'" "sc_socket B' = Some sB'"
    using A'(2) \<open>stream_state leakedB sB' lB B'\<close> by (simp_all add: stream_wire_def stream_state_def)
  ultimately show ?thesis
    using A'(1,3) by (intro exI [of _ A'] exI [of _ B'] exI [of _ sB'] exI [of _ ?bytes] exI [of _ ref] exI [of _ ob]) simp
qed

section \<open>Streams that block each other\<close>

text \<open>
  A stream in the bad mode is due at every third tick. \<open>slow i k\<close>: \<open>i\<close> ticks have passed since it was
  last due, and it stays in this mode for the next \<open>k\<close> ticks because of its round trip time or because
  the time with good conditions stays below the penalty.
\<close>

definition slow :: "nat \<Rightarrow> nat \<Rightarrow> Stream \<Rightarrow> bool" where
  "slow i k st \<longleftrightarrow> i < 3 \<and> st_updateAccumulator st = timer_acc i \<and> flow_mode (st_flow st) = StreamFlowModeBad \<and>
     updateInterval (st_flow st) = fdiv 1 kStreamFlowModeBadRate \<and>
     (rtt (st_reliability st) > kStreamFlowRttThreshold \<or>
      (\<exists>n. goodConditions (st_flow st) = timer_acc n \<and> (\<forall>j \<le> k. timer_acc (n + j) \<le> penalty (st_flow st))))"

lemma timer_acc_due: "i < 3 \<Longrightarrow> fdiv 1 kStreamFlowModeBadRate \<le> timer_acc (Suc i) \<longleftrightarrow> i = 2"
proof -
  assume "i < 3"
  then consider "i = 0" | "i = 1" | "i = 2"
    by linarith
  moreover have "fdiv 1 kStreamFlowModeBadRate = 13421773 / 2 ^ 26"
    unfolding fdiv_def by code_simp
  moreover have "timer_acc (Suc 0) = 8947849 / 2 ^ 27" "timer_acc (Suc 1) = 17895698 / 2 ^ 27" "timer_acc (Suc 2) = 26843548 / 2 ^ 27"
    by (simp_all add: timer_acc_units numeral_2_eq_2 next_units_def round_unit_def Let_def)
  ultimately show ?thesis
    by cases simp_all
qed

lemma slow_updated:
  assumes "slow i (Suc k) st" "stream_ok st"
  shows "slow (Suc i mod 3) k (updated st)" "wants_update st \<longleftrightarrow> i = 2"
proof -
  note s = assms(1) [unfolded slow_def]
  let ?flow = "streamFlowUpdate (st_flow st) (rtt (st_reliability st)) kStreamTimerUpdateInterval"
  have rtt: "rtt (st_reliability (updated st)) = rtt (st_reliability st)"
    using updated_header(4) [OF assms(2)] .
  then have flow: "st_flow (updated st) = ?flow"
    by (simp add: updated_def Let_def)
  have mode: "flow_mode ?flow = StreamFlowModeBad \<and> updateInterval ?flow = fdiv 1 kStreamFlowModeBadRate \<and>
      (rtt (st_reliability st) > kStreamFlowRttThreshold \<or>
       (\<exists>n. goodConditions ?flow = timer_acc n \<and> (\<forall>j \<le> k. timer_acc (n + j) \<le> penalty ?flow)))"
  proof (cases "rtt (st_reliability st) > kStreamFlowRttThreshold")
    case True
    have "0 \<le> penalty (st_flow st)"
      using assms(2) by (auto simp: stream_ok_def flow_inv_def flow_penalties_def)
    with True s show ?thesis
      by (simp add: streamFlowUpdate_def flow_update_bad_def)
  next
    case False
    then obtain n where n: "goodConditions (st_flow st) = timer_acc n" "\<forall>j \<le> Suc k. timer_acc (n + j) \<le> penalty (st_flow st)"
      using s by auto
    have "timer_acc (Suc n) \<le> penalty (st_flow st)" "\<forall>j \<le> k. timer_acc (Suc n + j) \<le> penalty (st_flow st)"
      using spec [OF n(2), of 1] n(2) by (auto dest: spec [of _ "Suc _"])
    with False s n(1) show ?thesis
      by (auto simp: streamFlowUpdate_def flow_update_bad_def timer_acc_Suc [symmetric] intro!: exI [of _ "Suc n"])
  qed
  have acc: "fadd (st_updateAccumulator st) kStreamTimerUpdateInterval = timer_acc (Suc i)"
    using s by (simp add: timer_acc_Suc)
  show "wants_update st \<longleftrightarrow> i = 2"
    using acc mode flow timer_acc_due [of i] s by (simp add: wants_update_def)
  have "st_updateAccumulator (updated st) = (if i = 2 then 0 else timer_acc (Suc i))"
    using acc mode timer_acc_due [of i] s rtt by (simp add: updated_def Let_def)
  also have "\<dots> = timer_acc (Suc i mod 3)"
    using s by (cases "i = 2") (simp_all add: timer_acc_def)
  finally have "st_updateAccumulator (updated st) = timer_acc (Suc i mod 3)" .
  then show "slow (Suc i mod 3) k (updated st)"
    using mode flow rtt by (simp add: slow_def)
qed

lemma slow_blocks:
  assumes "stream_state leaked s l config" "p \<in> set (list_objects l)" "q \<in> set (list_objects l)" "sc_heap config p = Some st"
    and "sc_heap config q = Some st'" "slow i k st" "slow j k st'" "i \<noteq> j" "length envs \<le> k"
  shows "\<exists>config'. timer_runs envs config = Some config' \<and> stream_state leaked s l config' \<and> sc_log config' = sc_log config \<and>
    sc_heap config' p = Some ((updated ^^ length envs) st)"
  using assms
proof (induction envs arbitrary: config st st' i j k)
  case (Cons env envs)
  then obtain k' where k: "k = Suc k'"
    by (cases k) auto
  have ok: "stream_ok st" "stream_ok st'"
    using Cons.prems(1,4,5) by (simp_all add: stream_defs)
  note p = slow_updated [OF Cons.prems(6) [unfolded k] ok(1)] and q = slow_updated [OF Cons.prems(7) [unfolded k] ok(2)]
  have "\<not> (wants_update (the (sc_heap config p)) \<and> wants_update (the (sc_heap config q)))"
    using p(2) q(2) Cons.prems(4,5,8) by auto
  then have "\<not> sync_update l config"
    using Cons.prems(2,3) unfolding sync_update_def by blast
  note wait = timer_waits [OF Cons.prems(1) this]
  let ?c = "ticked (list_objects l) config"
  have heap: "sc_heap ?c p = Some (updated st)" "sc_heap ?c q = Some (updated st')"
    using Cons.prems(2-5) by (simp_all add: ticked_def)
  have "i < 3" "j < 3"
    using Cons.prems(6,7) by (simp_all add: slow_def)
  then have "Suc i mod 3 \<noteq> Suc j mod 3"
    using Cons.prems(8) by (auto simp: mod_Suc split: if_splits)
  moreover have "sc_log ?c = sc_log config"
    by (simp add: ticked_def)
  ultimately show ?case
    using Cons.IH [OF wait(2) Cons.prems(2,3) heap p(1) q(1)] Cons.prems(9) wait(1) k by (simp add: funpow_swap1)
qed auto

lemma new_stream_slow: "slow 0 60 (new_stream a)"
proof -
  have "timer_acc n \<le> 4" if "n \<le> 60" for n
  proof -
    have "(next_units ^^ n) 0 \<le> 536870912"
      using next_units_mono [OF that] next_units_60 by simp
    then have "timer_acc n \<le> of_int 536870912 / 2 ^ 27"
      using timer_acc_units [of n] that by (simp only: of_int_le_iff divide_right_mono) simp
    then show ?thesis
      by simp
  qed
  moreover have "timer_acc 0 = 0"
    by (simp add: timer_acc_def)
  ultimately show ?thesis
    by (simp add: slow_def new_stream_def zero_stream_def streamFlowClear_def Let_def exI [of _ 0])
qed

text \<open>
  (C11) Streams block each other. The timer sends only if every stream of the list is due at the same
  tick. If two streams are in the bad mode, which is due at every third tick, and were not last due
  at the same one, then for as long as they stay in this mode no object is asked for and
  nothing is sent to any peer of the configuration. A new stream starts in this mode and stays
  there for sixty ticks (four seconds), so a peer added at an unlucky tick silences all of them.
\<close>

theorem stream_starvation:
  assumes "stream_running (config, leaked)" "sc_socket config = Some s" "sc_streams config = Some l"
    and "p \<in> set (list_objects l)" "q \<in> set (list_objects l)" "sc_heap config p = Some st" "sc_heap config q = Some st'"
    and "slow i k st" "slow j k st'" "i \<noteq> j" "length envs \<le> k"
  shows "(\<exists>config'. timer_runs envs config = Some config' \<and> sc_log config' = sc_log config \<and> sc_socket config' = Some s) \<and>
    slow 0 60 (new_stream address)"
proof -
  note state = stream_running_state [OF assms(1-3)]
  from slow_blocks [OF state assms(4-11)] new_stream_slow show ?thesis
    by (auto simp: stream_state_def)
qed

text \<open>Ticks at which the only stream of a configuration is not due.\<close>

lemma tick_reach:
  assumes "stream_reach w0 (c, leaked)" "stream_state leaked s l c" "list_objects l = [p]" "sc_heap c p = Some st" "slow i (Suc k) st" "i \<noteq> 2"
    and "sc_suspended c = 0" "\<not> times_out st"
  shows "stream_reach w0 (ticked [p] c, leaked)" "stream_state leaked s l (ticked [p] c)" "sc_heap (ticked [p] c) = (sc_heap c)(p \<mapsto> updated st)"
    "sc_tasks (ticked [p] c) = sc_tasks c" "sc_suspended (ticked [p] c) = 0" "slow (Suc i) k (updated st)"
proof -
  have ok: "stream_ok st"
    using assms(2,4) by (simp add: stream_defs)
  note u = slow_updated [OF assms(5) ok]
  have "\<not> sync_update l c"
    using u(2) assms(3,4,6) by (simp add: sync_update_def)
  note wait = timer_waits(1) [OF assms(2) this, of "sample_env 1"] timer_waits(2) [OF assms(2) this]
  show "stream_reach w0 (ticked [p] c, leaked)"
    by (rule stream_reach.step [OF assms(1), of "TimerFires (sample_env 1)"])
      (use wait(1) assms(3,7) sample_env_ok in simp_all)
  show "stream_state leaked s l (ticked [p] c)"
    using wait(2) assms(3) by simp
  show "sc_heap (ticked [p] c) = (sc_heap c)(p \<mapsto> updated st)" "sc_tasks (ticked [p] c) = sc_tasks c" "sc_suspended (ticked [p] c) = 0"
    using assms(4,7,8) by (auto simp: ticked_def fun_eq_iff)
  have "Suc i mod 3 = Suc i"
    using assms(5,6) by (simp add: slow_def)
  then show "slow (Suc i) k (updated st)"
    using u(1) by simp
qed

lemma new_stream_times: "n < 75 \<Longrightarrow> \<not> times_out ((updated ^^ n) (new_stream a))"
proof -
  have acc: "st_timeoutAccumulator ((updated ^^ n) (new_stream a)) = timer_acc n" for n
    by (induction n) (simp_all add: new_stream_def zero_stream_def timer_acc_def updated_def Let_def)
  assume "n < 75"
  then show ?thesis
    using acc [of "Suc n"] timer_acc_limit [of "Suc n"] by (simp add: times_out_def)
qed

theorem stream_starvation_witness:
  "\<exists>c l c'. stream_reach (sample_config, []) (c, []) \<and> sc_streams c = Some l \<and> list_objects l = [1000, 2000] \<and>
    timer_runs (replicate 59 (sample_env 5000)) c = Some c' \<and> sc_log c' = sc_log c \<and> sc_socket c' = sc_socket c"
proof -
  let ?a = "sockaddr_zero" and ?b = "sockaddr_zero\<lparr>sin_port := 9\<rparr>"
  obtain c s l where c: "stream_reach (sample_config, []) (c, [])" "stream_state [] s l c" "list_objects l = [1000]" "list_room 5 l"
      "sc_heap c = [1000 \<mapsto> new_stream ?a]" "sc_tasks c = []" "sc_suspended c = 0"
    using sample_peer by blast
  have "slow 0 (Suc 59) (new_stream ?a)" "\<not> times_out (new_stream ?a)"
    using new_stream_slow [of ?a] new_stream_times [of 0 ?a] by simp_all
  note t = tick_reach [OF c(1-3) _ this(1) _ c(7) this(2), unfolded c(5), simplified]
  have key: "addr_key ?b \<notin> stream_key (ticked [1000] c) ` set (list_objects l)"
    using t(3) c(3) updated_ok(2) [OF stream_new_ok, of ?a] by (simp add: stream_key_def addr_key_def sockaddr_zero_def)
  have room: "list_room (Suc 4) l"
    using c(4) by (simp add: list_room_def)
  obtain l' where l': "stream_reach (sample_config, []) ((set_stream (ticked [1000] c) 2000 (new_stream ?b))
        \<lparr>sc_streams := Some l', sc_active := True, sc_suspended := 0\<rparr>, [])"
      "stream_state [] s l' ((set_stream (ticked [1000] c) 2000 (new_stream ?b))\<lparr>sc_streams := Some l', sc_active := True, sc_suspended := 0\<rparr>)"
      "list_objects l' = list_objects l @ [2000]"
    using add_peer_reach [OF t(1,2) _ key _ _ room, of 2000] t(3,4) c(5,6) by auto
  let ?c = "(set_stream (ticked [1000] c) 2000 (new_stream ?b))\<lparr>sc_streams := Some l', sc_active := True, sc_suspended := 0\<rparr>"
  have heap: "sc_heap ?c 1000 = Some (updated (new_stream ?a))" "sc_heap ?c 2000 = Some (new_stream ?b)"
    using t(3) by (simp_all add: set_stream_def)
  have "slow 0 59 (new_stream ?b)"
    using new_stream_slow [of ?b] by (auto simp: slow_def)
  with stream_starvation [OF sample_running [OF l'(1)], of s l' 1000 2000 "updated (new_stream ?a)" "new_stream ?b" 1 59 0 "replicate 59 (sample_env 5000)"]
  obtain c' where "timer_runs (replicate 59 (sample_env 5000)) ?c = Some c'" "sc_log c' = sc_log ?c" "sc_socket c' = sc_socket ?c"
    using l'(2,3) c(3) heap t(6) by (auto simp: stream_state_def)
  then show ?thesis
    using l'(1,3) c(3) by (intro exI [of _ ?c] exI [of _ l'] exI [of _ c'] conjI) simp_all
qed

lemma sample_due:
  "\<exists>c s l st. stream_reach (sample_config, []) (c, []) \<and> stream_state [] s l c \<and> list_objects l = [1000] \<and> sc_heap c 1000 = Some st \<and>
    st_address st = a \<and> st_state st = StreamWaiting \<and> sr_sequence (st_reliability st) = 0 \<and> sr_ack (st_reliability st) = 0 \<and>
    slow 2 58 st \<and> sc_tasks c = [] \<and> sk_free s = 64 \<and> sk_deliveries s = []"
proof -
  obtain c s l where c: "stream_reach (sample_config, []) (c, [])" "stream_state [] s l c" "list_objects l = [1000]" "list_room 5 l"
      "sc_heap c = [1000 \<mapsto> new_stream a]" "sc_tasks c = []" "sc_suspended c = 0" "sk_free s = 64" "sk_deliveries s = []"
    using sample_peer by blast
  have "slow 0 (Suc (Suc 58)) (new_stream a)" "\<not> times_out (new_stream a)" "\<not> times_out (updated (new_stream a))"
    using new_stream_slow [of a] new_stream_times [of 0 a] new_stream_times [of 1 a] by simp_all
  note t = tick_reach [OF c(1-3) _ this(1) _ c(7) this(2), unfolded c(5), simplified]
  have "sc_heap (ticked [1000] c) 1000 = Some (updated (new_stream a))"
    using t(3) by simp
  moreover have "slow 1 (Suc 58) (updated (new_stream a))"
    using t(6) by simp
  ultimately have u: "stream_reach (sample_config, []) (ticked [1000] (ticked [1000] c), [])"
      "stream_state [] s l (ticked [1000] (ticked [1000] c))"
      "sc_heap (ticked [1000] (ticked [1000] c)) 1000 = Some (updated (updated (new_stream a)))"
      "sc_tasks (ticked [1000] (ticked [1000] c)) = []" "slow 2 58 (updated (updated (new_stream a)))"
    using tick_reach [OF t(1,2) c(3) _ _ _ t(5) \<open>\<not> times_out (updated (new_stream a))\<close>, of 1 58] t(4) c(6)
    by (simp_all add: numeral_2_eq_2)
  let ?st = "updated (updated (new_stream a))"
  note ok = stream_new_ok [of a] and ok' = updated_ok(1) [OF stream_new_ok [of a]]
  have new: "st_state (new_stream a) = StreamWaiting" "sr_sequence (st_reliability (new_stream a)) = 0" "sr_ack (st_reliability (new_stream a)) = 0"
    by (simp_all add: new_stream_def zero_stream_def streamReliabilityClear_def Let_def)
  have "st_address ?st = a" "st_state ?st = StreamWaiting" "sr_sequence (st_reliability ?st) = 0" "sr_ack (st_reliability ?st) = 0"
    using updated_ok(2,3) [OF ok] updated_ok(2,3) [OF ok'] updated_header(1,2) [OF ok] updated_header(1,2) [OF ok'] new
    by simp_all
  then show ?thesis
    using u c(3,8,9) by (intro exI conjI) (assumption | simp)+
qed

theorem stream_delivery_witness:
  "\<exists>A A' B' bytes ob. stream_reach (sample_config, []) (A, []) \<and>
    do { c \<leftarrow> streamTimerCallback (sample_env 1) A; flush_streams c } = Some A' \<and> last (stream_wire A') = (sockaddr_zero, bytes) \<and>
    stream_in (sample_env 1) sockaddr_zero bytes A = Some B' \<and>
    sc_log B' = sc_log A @ [ReceiveCalled (sc_context A) sockaddr_zero ob] \<and> so_view ob = (6, 2, [104, 105])"
proof -
  obtain c s l st where c: "stream_reach (sample_config, []) (c, [])" "stream_state [] s l c" "list_objects l = [1000]"
      "sc_heap c 1000 = Some st" "st_address st = sockaddr_zero" "st_state st = StreamWaiting" "sr_sequence (st_reliability st) = 0"
      "sr_ack (st_reliability st) = 0" "slow 2 (Suc 57) st" "sc_tasks c = []" "sk_free s = 64" "sk_deliveries s = []"
    using sample_due [of sockaddr_zero] by auto
  have "stream_ok st"
    using c(2,4) by (simp add: stream_defs)
  then have wants: "wants_update st"
    using slow_updated(2) [OF c(9)] by simp
  have fields: "sc_socket c = Some s" "sc_streams c = Some l"
    using c(2) by (simp_all add: stream_state_def)
  have all: "all_sending s l c" "stream_idle s c"
    using wants c by (simp_all add: all_sending_def sync_update_def sending_def stream_idle_def)
  have "replicate 231 (0 :: u8) = 0 # 0 # replicate 229 0"
    by (simp flip: replicate_Suc)
  then have view: "so_view (tick_object (sample_env 1)) = (6, 2, [104, 105])"
    by (simp add: so_view_def tick_object_def sample_env_def streamObjectSetup_def so_payload_def)
  note run = sample_running [OF c(1)]
  from stream_delivery [OF run fields run fields all(1) sample_env_ok [of 1] _ c(4) all(2) _ c(4), of sockaddr_zero "sample_env 1"] c(3-5,7,8)
  show ?thesis
    using c(1) view by (auto simp: sample_env_def)
qed

end
