(* ===== verification/Spec2Isabelle.thy ===== *)
theory Spec2Isabelle
  imports Stun_Report Stun_Nat Stream_Log Bitstream_Float Transaction_Types Transaction Stream_Traffic Stream_Reliability Transaction_Protocol Stun_Protocol Hashtable Queue Linked_List Pool Net_Error
begin

text \<open>
  Verification of universal-network-c, a C library for datagram communication: sockets on a packet
  pool, transactions (requests with retransmission), streams (unreliable data with acknowledgements
  and flow control) and the discovery of address translation with STUN.

  \<^bold>\<open>Parts and theories.\<close> Each file under \<^verbatim>\<open>src/src\<close> has one theory; a definition has the name of the
  C function, structure or macro it translates, a structure is a record with the same members.

  \<^item> \<open>Net_Prelude\<close>: integer types of an LP64 target, the two byte orders, C arrays, shared lemmas.
    \<open>Float32\<close>: single precision arithmetic as rounded operations on rationals.
    \<open>Chain\<close>: linked chains in a heap, used by the three containers.
  \<^item> \<open>Bitstream\<close> (\<^verbatim>\<open>bitstream.c\<close>): byte streams. The locale \<open>field_codec\<close> is the contract of a field (a
    writer, a reader and an encoding); it is interpreted for each field type, and the protocol
    theories are built on these interpretations. \<open>Bitstream_Float\<close> has the fixed-point fields.
  \<^item> \<open>Protocol\<close>, \<open>Stream_Protocol\<close>, \<open>Transaction_Protocol\<close>, \<open>Stun_Protocol\<close>: the wire formats
    (\<^verbatim>\<open>protocol.c\<close>, \<^verbatim>\<open>stream_protocol.c\<close>, \<^verbatim>\<open>transaction_protocol.c\<close>, \<^verbatim>\<open>stun_protocol.c\<close>).
    Round trips, safety of the parsers on arbitrary bytes, and where they leave the packet.
    The unpackers of a transaction get the size \<open>sz\<close> of the block behind the pointer (256 bytes for a
    \<open>TransactionObject\<close>): what they write is a fault only outside this block, and inside it goes over the members behind
    an array. \<open>Transaction_Types\<close>: what is unpacked has the declared type and can be packed again.
  \<^item> \<open>Net_Error\<close>, \<open>Net_Addr\<close>, \<open>Net_Packet\<close> (\<^verbatim>\<open>net_error.c\<close>, \<^verbatim>\<open>net_addr.c\<close>, \<^verbatim>\<open>net_packet.c\<close>).
  \<^item> \<open>Queue\<close>, \<open>Linked_List\<close>, \<open>Pool\<close>, \<open>Hashtable\<close> (\<^verbatim>\<open>queue.c\<close>, \<^verbatim>\<open>list.c\<close>, \<^verbatim>\<open>pool.c\<close>,
    \<^verbatim>\<open>hashtable.c\<close>): containers on explicit heaps. Each has an invariant, and a run of its
    operations refines the same run on a sequence, a map or a table of reference counts; what faults is
    stated as well (removing an object that is not in a list).
  \<^item> \<open>Stream_Flow\<close>, \<open>Stream_Reliability\<close> (\<^verbatim>\<open>stream_flow.c\<close>, \<^verbatim>\<open>stream_reliability.c\<close>): the ring of sent
    packets, acknowledgement bits, round trip time, loss counting and the two-mode flow control.
  \<^item> \<open>Net_Socket\<close> (\<^verbatim>\<open>net_socket.c\<close>): the socket with its pool, its queue and its handlers. The
    invariant \<open>socket_inv owned\<close> says that the reference count of each packet is what its owners,
    the queued blocks, the queue and the deliveries hold together. The locale \<open>packet_socket\<close> is
    what clients rely on; it is interpreted on the model as \<open>socket\<close>. \<open>Socket_Runs\<close> has the runs of a
    socket as a reachability relation, and creation and destruction.
  \<^item> \<open>Timeout\<close> (\<^verbatim>\<open>timeout.c\<close>): one-shot timers and the references of their sources.
  \<^item> \<open>Transaction\<close> (\<^verbatim>\<open>transaction.c\<close>): requests, responses and retries on socket, table and timers,
    up to the whole exchange between two endpoints.
  \<^item> \<open>Streams\<close> (\<^verbatim>\<open>stream.c\<close>): the configuration with its list of streams, the blocks of its queue,
    its timer and its socket. The invariant is \<open>stream_state\<close>. \<open>Stream_Runs\<close> has its runs
    (\<open>stream_reach\<close>), the specification of the set of peers and the timeouts, \<open>Stream_Traffic\<close> the way
    of the data from one configuration to another and the streams that block each other.
  \<^item> \<open>Stun_Utils\<close>, \<open>Stun_Tests\<close>, \<open>Stun\<close> (\<^verbatim>\<open>stun_utils.c\<close>, \<^verbatim>\<open>stun_tests.c\<close>, \<^verbatim>\<open>stun.c\<close>): the transaction ids,
    the five tests of the STUN client and their sequence on a borrowed socket. \<open>stun_waits\<close> and
    \<open>stun_over\<close> describe a test that waits and one that is over; a whole run (\<open>stun_run\<close>, with the answers
    to the tests as arguments, one or none for each test) ends with the results that the code's own evaluation
    gives step by step (\<open>stun_spec\<close>). \<open>Stun_Report\<close> describes results and datagrams from the addresses in
    the answers alone (\<open>stun_report\<close>, \<open>report_wire\<close>), and the runs refine it. \<open>Stun_Nat\<close> compares the reports with
    translators given as a mapping and a filter, and has the runs with lost, stray and foreign packets.
  \<^item> \<open>Net_Log\<close>, \<open>Stream_Log\<close>: the functions that only print (\<^verbatim>\<open>netErrorLog\<close>, \<^verbatim>\<open>net_addr_log\<close>, \<^verbatim>\<open>stunLog\<close>, \<^verbatim>\<open>streamLog\<close>
    and the status of a debug build) as the lines they print: the STUN report shows all that
    is valid in the results, and the status of the streams comes every 76 ticks.

  \<^bold>\<open>How effects are modelled.\<close> Functions pass the state explicitly and return an option; \<open>None\<close> is
  undefined behaviour of C (an access outside a block, a null or dangling pointer, a failed
  assertion). Error results are values. The operating system and the dispatch library are not part
  of the program: the results of their calls are arguments (records such as \<open>socket_os\<close>,
  \<open>recv_result\<close>, \<open>transaction_env\<close>, \<open>stun_env\<close>), the calls made are recorded, and a block given to a serial queue
  is a value of a task type that a separate definition runs, so that a theorem can choose the
  interleaving. Each block runs atomically.

  \<^bold>\<open>Loops.\<close> Loops over data are structural recursion; loops over linked structures and rings are
  \<open>partial_function (option)\<close>, where not ending is \<open>None\<close>, and the theorems show that they return.
  No definition has a fuel parameter besides the number of tasks to run in \<open>Socket_Runs.run_tasks\<close>,
  which is the number of tasks queued.

  \<^bold>\<open>Not modelled.\<close> The single log calls inside the operations, which are empty without \<^verbatim>\<open>DEBUG\<close>; the
  headers that only include others; the branch of \<^verbatim>\<open>stun_utils.c\<close> for iOS, which calls the
  system; the test programs. Preemption inside a block, and so data races between threads
  on one structure, are outside the model except where a definition splits a handler. Blocks that
  are still queued when a configuration is torn down are not part of the runs of streams; a theorem shows that they fault.
\<close>

end
